(* ===== verification/Prelude.thy ===== *)
theory Prelude
  imports
    Complex_Main
    "HOL-Library.List_Lexorder"
    "HOL-Library.Char_ord"
    "HOL-Library.Product_Lexorder"
    "HOL-Library.AList"
    "HOL-Library.Multiset"
begin

text \<open>
  Shared vocabulary of the development: names for the identifier types, results of fallible
  code, the Python containers the sources use (insertion-ordered dictionaries, \<open>sorted(set(..))\<close>,
  \<open>min(.., key=..)\<close>, the grouping idiom \<open>d.setdefault(k, []).append(x)\<close>) with their lemmas, and
  the interface \<open>write_gate\<close> of every status column that is only written through a gate.

  Strings are \<open>char list\<close>, compared lexicographically as Python compares \<open>str\<close>; tuples are
  compared lexicographically too (the library's \<open>Product_Lexorder\<close>).
\<close>

named_theorems py_defs \<open>unfolding rules for the container idioms\<close>

type_synonym repo_id = string
type_synonym coord_key = string
type_synonym edge_key = string
type_synonym contract_id = string
type_synonym instant = int \<comment> \<open>a UTC datetime, in microseconds\<close>

section \<open>Results of fallible code\<close>

text \<open>A raise is \<open>Inl\<close> of the error, a return is \<open>Inr\<close> of the value.\<close>

definition rbind :: "'e + 'a \<Rightarrow> ('a \<Rightarrow> 'e + 'b) \<Rightarrow> 'e + 'b" where
  "rbind r f = (case r of Inl e \<Rightarrow> Inl e | Inr x \<Rightarrow> f x)"

text \<open>Evaluation looks at the continuation only after the result is known.\<close>

lemma rbind_unfold [code_unfold]: "rbind r f = (case r of Inl e \<Rightarrow> Inl e | Inr x \<Rightarrow> f x)"
  by (simp add: rbind_def)

lemma rbind_simps [simp]:
  "rbind (Inl e) f = Inl e"
  "rbind (Inr x) f = f x"
  by (simp_all add: rbind_def)

lemma rbind_Inr_iff: "rbind r f = Inr y \<longleftrightarrow> (\<exists>x. r = Inr x \<and> f x = Inr y)"
  by (cases r) auto

lemma rbind_Inl_iff: "rbind r f = Inl x \<longleftrightarrow> r = Inl x \<or> (\<exists>y. r = Inr y \<and> f y = Inl x)"
  by (cases r) auto

lemma rbind_InrE [elim!]:
  assumes "rbind r f = Inr y"
  obtains x where "r = Inr x" and "f x = Inr y"
  using assms by (auto simp: rbind_Inr_iff)

text \<open>A loop that builds a list and stops at the first raise.\<close>

fun traverse :: "('a \<Rightarrow> 'e + 'b) \<Rightarrow> 'a list \<Rightarrow> 'e + 'b list" where
  "traverse f [] = Inr []"
| "traverse f (x # xs) = rbind (f x) (\<lambda>y. rbind (traverse f xs) (\<lambda>ys. Inr (y # ys)))"

lemma traverse_Inr_iff:
  "traverse f xs = Inr ys \<longleftrightarrow> list_all2 (\<lambda>x y. f x = Inr y) xs ys"
  by (induction xs arbitrary: ys) (auto simp: rbind_Inr_iff list_all2_Cons1)

lemma traverse_InrD: "traverse f xs = Inr ys \<Longrightarrow> x \<in> set xs \<Longrightarrow> \<exists>y. f x = Inr y"
  by (induction xs arbitrary: ys) auto

lemma traverse_ex_iff: "(\<exists>ys. traverse f xs = Inr ys) \<longleftrightarrow> (\<forall>x \<in> set xs. \<exists>y. f x = Inr y)"
  by (induction xs) (auto simp: rbind_Inr_iff)

lemma traverse_total: "(\<And>x. x \<in> set xs \<Longrightarrow> f x = Inr (g x)) \<Longrightarrow> traverse f xs = Inr (map g xs)"
  by (induction xs) auto

section \<open>Sorted sets\<close>

definition sorted_set :: "'a::linorder list \<Rightarrow> 'a list" where
  "sorted_set xs = sort (remdups xs)"

lemma set_sorted_set [simp]: "set (sorted_set xs) = set xs"
  by (simp add: sorted_set_def)

lemma distinct_sorted_set [simp]: "distinct (sorted_set xs)"
  by (simp add: sorted_set_def)

lemma sorted_sorted_set [simp]: "sorted (sorted_set xs)"
  by (simp add: sorted_set_def)

lemma sorted_set_cong: "set xs = set ys \<Longrightarrow> sorted_set xs = sorted_set ys"
  by (metis distinct_sorted_set set_sorted_set sorted_distinct_set_unique sorted_sorted_set)

lemma sorted_set_idem [simp]: "sorted_set (sorted_set xs) = sorted_set xs"
  by (rule sorted_set_cong) simp

lemma sorted_set_Nil_iff [simp]: "sorted_set xs = [] \<longleftrightarrow> xs = []"
  by (metis set_empty set_sorted_set)

lemma length_sorted_set: "length (sorted_set xs) = card (set xs)"
  by (metis distinct_card distinct_sorted_set set_sorted_set)

lemma sorted_set_eq_iff: "sorted_set xs = sorted_set ys \<longleftrightarrow> set xs = set ys"
  by (metis set_sorted_set sorted_set_cong)

section \<open>Dictionaries\<close>

text \<open>
  A \<open>dict\<close> keeps insertion order and overwrites in place, which is the library's \<^const>\<open>AList.update\<close>
  on association lists.
\<close>

type_synonym ('k, 'v) dict = "('k \<times> 'v) list"

definition dict_get :: "('k, 'v) dict \<Rightarrow> 'k \<Rightarrow> 'v option" where
  "dict_get d k = map_of d k"

definition dict_set :: "('k, 'v) dict \<Rightarrow> 'k \<Rightarrow> 'v \<Rightarrow> ('k, 'v) dict" where
  "dict_set d k v = AList.update k v d"

definition dict_setdefault :: "('k, 'v) dict \<Rightarrow> 'k \<Rightarrow> 'v \<Rightarrow> ('k, 'v) dict" where
  "dict_setdefault d k v = (case map_of d k of None \<Rightarrow> AList.update k v d | Some _ \<Rightarrow> d)"

lemma dict_get_set [simp]: "dict_get (dict_set d k v) j = (if j = k then Some v else dict_get d j)"
  by (simp add: dict_get_def dict_set_def update_conv')

lemma dict_set_twice: "dict_set (dict_set d k v) k u = dict_set d k u"
  unfolding dict_set_def by (induction d) auto

lemma keys_dict_set [simp]: "fst ` set (dict_set d k v) = insert k (fst ` set d)"
  unfolding dict_set_def by (induction d) auto

lemma distinct_dict_set [simp]: "distinct (map fst d) \<Longrightarrow> distinct (map fst (dict_set d k v))"
  by (simp add: dict_set_def distinct_update)

lemma dict_get_setdefault [simp]:
  "dict_get (dict_setdefault d k v) j =
     (if j = k then Some (case dict_get d k of None \<Rightarrow> v | Some w \<Rightarrow> w) else dict_get d j)"
  by (auto simp: dict_get_def dict_setdefault_def update_conv' split: option.splits)

lemma dict_get_in_keys: "dict_get d k = Some v \<Longrightarrow> k \<in> fst ` set d"
  by (metis dict_get_def domI dom_map_of_conv_image_fst)

lemma dict_get_None_iff: "dict_get d k = None \<longleftrightarrow> k \<notin> fst ` set d"
  by (simp add: dict_get_def map_of_eq_None_iff)

lemma dict_get_Nil [simp]: "dict_get [] k = None"
  by (simp add: dict_get_def)

lemma dict_get_Cons: "dict_get ((j, v) # d) k = (if k = j then Some v else dict_get d k)"
  by (simp add: dict_get_def)

lemma dict_get_same_items:
  "distinct (map fst d) \<Longrightarrow> distinct (map fst d') \<Longrightarrow> set d = set d' \<Longrightarrow> dict_get d k = dict_get d' k"
  using map_of_inject_set[of d d'] by (simp add: dict_get_def)

lemma distinct_keys_sort_key: "distinct (map fst (sort_key f d)) \<longleftrightarrow> distinct (map fst d)"
  by (simp add: distinct_map)

lemma dict_get_sort_key: "distinct (map fst d) \<Longrightarrow> dict_get (sort_key f d) k = dict_get d k"
  by (rule dict_get_same_items) (simp_all add: distinct_keys_sort_key)

lemma dict_get_mem: "distinct (map fst d) \<Longrightarrow> (k, v) \<in> set d \<longleftrightarrow> dict_get d k = Some v"
  by (simp add: dict_get_def map_of_eq_Some_iff)

text \<open>Writing a list of items into a dictionary, the last write of a key winning.\<close>

definition dict_update :: "('k \<times> 'v) list \<Rightarrow> ('k, 'v) dict \<Rightarrow> ('k, 'v) dict" where
  "dict_update items d = fold (\<lambda>(k, v) d. dict_set d k v) items d"

lemma dict_update_simps [simp]:
  "dict_update [] d = d"
  "dict_update ((k, v) # items) d = dict_update items (dict_set d k v)"
  "dict_update (xs @ ys) d = dict_update ys (dict_update xs d)"
  by (simp_all add: dict_update_def)

lemma distinct_dict_update: "distinct (map fst d) \<Longrightarrow> distinct (map fst (dict_update items d))"
  by (induction items arbitrary: d) auto

lemma dict_get_update_other: "k \<notin> fst ` set items \<Longrightarrow> dict_get (dict_update items d) k = dict_get d k"
  by (induction items arbitrary: d) auto

lemma dict_get_update:
  assumes "\<And>v'. (k, v') \<in> set items \<Longrightarrow> v' = v" and "(k, v) \<in> set items"
  shows "dict_get (dict_update items d) k = Some v"
  using assms
proof (induction items arbitrary: d)
  case (Cons x items)
  obtain j w where x: "x = (j, w)" by force
  show ?case
  proof (cases "(k, v) \<in> set items")
    case True
    then show ?thesis using Cons x by simp
  next
    case False
    have "v' = v" if "(k, v') \<in> set items" for v'
      using Cons.prems(1)[of v'] that by simp
    with False have "k \<notin> fst ` set items"
      by fastforce
    then show ?thesis
      using Cons.prems False x by (auto simp: dict_get_update_other)
  qed
qed simp

lemma dict_get_updateD:
  "dict_get (dict_update items d) k = Some v \<Longrightarrow> (k, v) \<in> set items \<or> dict_get d k = Some v"
proof (induction items arbitrary: d)
  case (Cons x items)
  obtain j w where x: "x = (j, w)" by force
  with Cons.prems have "(k, v) \<in> set items \<or> dict_get (dict_set d j w) k = Some v"
    by (intro Cons.IH) simp
  with x show ?case by (auto split: if_splits)
qed simp

section \<open>Grouping\<close>

text \<open>\<open>for x in xs: grouped.setdefault(key(x), []).append(x)\<close>\<close>

definition group_step :: "('a \<Rightarrow> 'k) \<Rightarrow> 'a \<Rightarrow> ('k, 'a list) dict \<Rightarrow> ('k, 'a list) dict" where
  "group_step key x d =
     dict_set d (key x) ((case dict_get d (key x) of None \<Rightarrow> [] | Some ys \<Rightarrow> ys) @ [x])"

definition group_by :: "('a \<Rightarrow> 'k) \<Rightarrow> 'a list \<Rightarrow> ('k, 'a list) dict" where
  "group_by key xs = fold (group_step key) xs []"

lemma dict_get_fold_group_step:
  "dict_get (fold (group_step key) xs d) k =
     (let ys = filter (\<lambda>x. key x = k) xs in
      case dict_get d k of
        None \<Rightarrow> if ys = [] then None else Some ys
      | Some zs \<Rightarrow> Some (zs @ ys))"
proof (induction xs arbitrary: d)
  case Nil
  then show ?case by (simp split: option.splits)
next
  case (Cons x xs)
  then show ?case
    by (cases "dict_get d k") (auto simp: group_step_def Let_def)
qed

lemma dict_get_group_by:
  "dict_get (group_by key xs) k =
     (let ys = filter (\<lambda>x. key x = k) xs in if ys = [] then None else Some ys)"
  by (simp add: group_by_def dict_get_fold_group_step)

lemma keys_group_by: "fst ` set (group_by key xs) = key ` set xs"
proof -
  have "k \<in> fst ` set (group_by key xs) \<longleftrightarrow> k \<in> key ` set xs" for k
    using dict_get_None_iff[of "group_by key xs" k]
    by (auto simp: dict_get_group_by Let_def filter_empty_conv split: if_splits)
  then show ?thesis by blast
qed

lemma distinct_fold_group_step:
  "distinct (map fst d) \<Longrightarrow> distinct (map fst (fold (group_step key) xs d))"
  by (induction xs arbitrary: d) (auto simp: group_step_def)

lemma distinct_group_by: "distinct (map fst (group_by key xs))"
  by (simp add: group_by_def distinct_fold_group_step)

lemma group_by_memD: "(k, ys) \<in> set (group_by key xs) \<Longrightarrow> ys = filter (\<lambda>x. key x = k) xs \<and> ys \<noteq> []"
  using map_of_is_SomeI[OF distinct_group_by, of k ys key xs] dict_get_group_by[of key xs k]
  by (auto simp: dict_get_def Let_def split: if_splits)

section \<open>Extremal elements by a key\<close>

text \<open>
  Python's \<open>min(xs, key=f)\<close> and \<open>max(xs, key=f)\<close> return the first extremal element. The library's
  \<^const>\<open>arg_min_list\<close> is the first; the second is defined here in the same way.
\<close>

fun arg_max_list :: "('a \<Rightarrow> 'b::linorder) \<Rightarrow> 'a list \<Rightarrow> 'a" where
  "arg_max_list f [x] = x"
| "arg_max_list f (x # y # zs) =
     (let m = arg_max_list f (y # zs) in if f x \<ge> f m then x else m)"

lemma arg_min_list_in_set: "xs \<noteq> [] \<Longrightarrow> arg_min_list f xs \<in> set xs"
  by (rule arg_min_list_in)

lemma arg_min_list_le: "x \<in> set xs \<Longrightarrow> f (arg_min_list f xs) \<le> f x"
proof (induction f xs rule: arg_min_list.induct)
  case (2 f y z zs)
  then show ?case by (auto simp: Let_def intro: order_trans)
qed auto

lemma arg_max_list_in_set: "xs \<noteq> [] \<Longrightarrow> arg_max_list f xs \<in> set xs"
  by (induction f xs rule: arg_max_list.induct) (auto simp: Let_def)

lemma arg_max_list_ge: "x \<in> set xs \<Longrightarrow> f x \<le> f (arg_max_list f xs)"
proof (induction f xs rule: arg_max_list.induct)
  case (2 f y z zs)
  then show ?case by (auto simp: Let_def intro: order_trans)
qed auto

section \<open>Strings\<close>

text \<open>\<open>sep.join(xs)\<close> for a one-character separator.\<close>

fun join :: "char \<Rightarrow> string list \<Rightarrow> string" where
  "join sep [] = []"
| "join sep [x] = x"
| "join sep (x # y # zs) = x @ sep # join sep (y # zs)"

lemma append_sep_inject:
  "\<lbrakk>c \<notin> set x; c \<notin> set y; x @ c # u = y @ c # v\<rbrakk> \<Longrightarrow> x = y \<and> u = v"
proof (induction x arbitrary: y)
  case Nil
  then show ?case by (cases y) auto
next
  case (Cons a x)
  then show ?case by (cases y) auto
qed

lemma join_Cons: "zs \<noteq> [] \<Longrightarrow> join sep (x # zs) = x @ sep # join sep zs"
  by (cases zs) simp_all

text \<open>Fields that do not contain the separator can be read back from the joined text.\<close>

lemma join_inject:
  assumes "join sep xs = join sep ys" and "xs \<noteq> []" and "ys \<noteq> []"
    and "\<And>x. x \<in> set xs \<union> set ys \<Longrightarrow> sep \<notin> set x"
  shows "xs = ys"
  using assms
proof (induction xs arbitrary: ys)
  case (Cons x xs)
  then obtain y ys' where y: "ys = y # ys'" by (cases ys) auto
  show ?case
  proof (cases "xs = [] \<or> ys' = []")
    case True
    have "sep \<notin> set x" and "sep \<notin> set y"
      using Cons.prems(4) y by auto
    with True show ?thesis
      using Cons.prems(1) y by (cases "xs = []"; cases "ys' = []") (auto simp: join_Cons)
  next
    case False
    then have "x = y \<and> join sep xs = join sep ys'"
      using Cons.prems y by (intro append_sep_inject[of sep]) (auto simp: join_Cons)
    then show ?thesis
      using Cons.IH[of ys'] Cons.prems(4) False y by auto
  qed
qed simp

text \<open>\<open>str(n)\<close> for a non-negative integer, and for any integer.\<close>

definition digit :: "nat \<Rightarrow> char" where
  "digit d = char_of (48 + d)"

fun show_nat :: "nat \<Rightarrow> string" where
  "show_nat n = (if n < 10 then [digit n] else show_nat (n div 10) @ [digit (n mod 10)])"

declare show_nat.simps [simp del]

definition show_int :: "int \<Rightarrow> string" where
  "show_int i = (if i < 0 then CHR ''-'' # show_nat (nat (- i)) else show_nat (nat i))"

definition read_nat :: "string \<Rightarrow> nat" where
  "read_nat cs = foldl (\<lambda>a c. 10 * a + (of_char c - 48)) 0 cs"

lemma of_char_digit: "d < 10 \<Longrightarrow> (of_char (digit d) :: nat) = 48 + d"
  by (simp add: digit_def)

lemma read_show_nat [simp]: "read_nat (show_nat n) = n"
proof (induction n rule: show_nat.induct)
  case (1 n)
  then show ?case
    by (subst show_nat.simps) (auto simp: read_nat_def of_char_digit)
qed

lemma show_nat_inject [simp]: "show_nat m = show_nat n \<longleftrightarrow> m = n"
  by (metis read_show_nat)

lemma show_nat_digits: "c \<in> set (show_nat n) \<Longrightarrow> 48 \<le> (of_char c :: nat) \<and> (of_char c :: nat) \<le> 57"
proof (induction n rule: show_nat.induct)
  case (1 n)
  then show ?case
    by (subst (asm) show_nat.simps) (auto simp: of_char_digit split: if_splits)
qed

lemma show_nat_not_minus: "CHR ''-'' \<notin> set (show_nat n)"
  using show_nat_digits[of "CHR ''-''" n] by auto

lemma show_int_inject [simp]: "show_int i = show_int j \<longleftrightarrow> i = j"
proof -
  have *: "CHR ''-'' # show_nat m \<noteq> show_nat n" for m n
    using show_nat_not_minus[of n] by (metis list.set_intros(1))
  show ?thesis
    using *[of "nat (- i)" "nat j"] *[of "nat (- j)" "nat i"]
    by (auto simp: show_int_def)
qed

lemma nul_not_in_show_int: "CHR 0x00 \<notin> set (show_int i)"
  using show_nat_digits[of "CHR 0x00" "nat i"] show_nat_digits[of "CHR 0x00" "nat (- i)"]
  by (auto simp: show_int_def)

text \<open>\<open>str.strip()\<close>: the characters of the first 256 code points that Python counts as white space.\<close>

definition py_space :: "char \<Rightarrow> bool" where
  "py_space c \<longleftrightarrow> (of_char c :: nat) \<in> {9, 10, 11, 12, 13, 28, 29, 30, 31, 32, 133, 160}"

definition strip :: "string \<Rightarrow> string" where
  "strip v = rev (dropWhile py_space (rev (dropWhile py_space v)))"

section \<open>Status columns behind a gate\<close>

text \<open>
  Every status of the harness is written through one function that may refuse. A history of
  requested writes therefore ends in the status of the last accepted one: a refused write raises
  and leaves the row as it was.
\<close>

fun replay :: "('s \<Rightarrow> 'w \<Rightarrow> 'e + 's) \<Rightarrow> 's \<Rightarrow> 'w list \<Rightarrow> 's" where
  "replay put s [] = s"
| "replay put s (w # ws) =
     (case put s w of Inl _ \<Rightarrow> replay put s ws | Inr s' \<Rightarrow> replay put s' ws)"

lemma replay_append: "replay put s (us @ vs) = replay put (replay put s us) vs"
  by (induction us arbitrary: s) (auto split: sum.split)

text \<open>
  The contract a gate gives its clients: writes of a given class never take a row out of the
  absorbing states, and never break the row's invariant.
\<close>

locale write_gate =
  fixes put :: "'s \<Rightarrow> 'w \<Rightarrow> 'e + 's"
    and permitted :: "'w \<Rightarrow> bool"
    and absorbing :: "'s \<Rightarrow> bool"
    and invar :: "'s \<Rightarrow> bool"
  assumes absorbing_write: "absorbing s \<Longrightarrow> permitted w \<Longrightarrow> put s w = Inr t \<Longrightarrow> t = s"
    and invar_write: "invar s \<Longrightarrow> permitted w \<Longrightarrow> put s w = Inr t \<Longrightarrow> invar t"
begin

lemma replay_absorbing:
  "absorbing s \<Longrightarrow> (\<And>w. w \<in> set ws \<Longrightarrow> permitted w) \<Longrightarrow> replay put s ws = s"
  by (induction ws) (auto dest: absorbing_write split: sum.split)

lemma replay_invar:
  "invar s \<Longrightarrow> (\<And>w. w \<in> set ws \<Longrightarrow> permitted w) \<Longrightarrow> invar (replay put s ws)"
  by (induction ws arbitrary: s) (auto dest: invar_write split: sum.split)

lemma replay_frozen:
  assumes "absorbing (replay put s us)" and "\<And>w. w \<in> set vs \<Longrightarrow> permitted w"
  shows "replay put s (us @ vs) = replay put s us"
proof -
  show ?thesis using assms by (simp add: replay_append replay_absorbing)
qed

end

text \<open>
  A gate whose accepted writes all go down a rank: the life of a row is a bounded number of
  writes, whatever is requested.
\<close>

fun accepted :: "('s \<Rightarrow> 'w \<Rightarrow> 'e + 's) \<Rightarrow> 's \<Rightarrow> 'w list \<Rightarrow> nat" where
  "accepted put s [] = 0"
| "accepted put s (w # ws) =
     (case put s w of Inl _ \<Rightarrow> accepted put s ws | Inr s' \<Rightarrow> Suc (accepted put s' ws))"

locale ranked_gate = write_gate +
  fixes rank :: "'a \<Rightarrow> nat"
  assumes rank_write: "permitted w \<Longrightarrow> put s w = Inr t \<Longrightarrow> rank t < rank s"
begin

lemma accepted_le_rank:
  "(\<And>w. w \<in> set ws \<Longrightarrow> permitted w) \<Longrightarrow> accepted put s ws + rank (replay put s ws) \<le> rank s"
proof (induction ws arbitrary: s)
  case (Cons w ws)
  show ?case
  proof (cases "put s w")
    case (Inr t)
    then have "accepted put t ws + rank (replay put t ws) \<le> rank t"
      using Cons.IH[of t] Cons.prems by simp
    moreover have "rank t < rank s"
      using rank_write[OF _ Inr] Cons.prems by simp
    ultimately show ?thesis using Inr by simp
  qed (use Cons in simp)
qed simp

end

end
