(* ===== verification/Repo_Status.thy ===== *)
theory Repo_Status
  imports Prelude
begin

text \<open>
  \<open>src/fleet/models/enums.py\<close>: the pipeline phases, the status of a repository in one phase, the
  tables of allowed status changes and the gates that consult them. \<open>transition\<close> is the single
  gate of every status write; \<open>demote\<close>, \<open>degrade_for_stub\<close> and \<open>reopen_abandoned\<close> are its three
  audited doors, each returning the new status together with the finding it owes.
\<close>

named_theorems status_tables \<open>the transition tables\<close>

section \<open>Phases\<close>

datatype phase = SCAN | TRANSFORM | BUILD | VERIFY

fun phase_int :: "phase \<Rightarrow> int" where
  "phase_int SCAN = 1"
| "phase_int TRANSFORM = 2"
| "phase_int BUILD = 3"
| "phase_int VERIFY = 4"

text \<open>Iterating the \<open>IntEnum\<close> visits the members in declaration order.\<close>

definition phases :: "phase list" where
  "phases = [SCAN, TRANSFORM, BUILD, VERIFY]"

lemma phase_int_inject [simp]: "phase_int p = phase_int q \<longleftrightarrow> p = q"
  by (cases p; cases q) simp_all

lemma set_phases [simp]: "set phases = UNIV"
proof -
  have "p \<in> set phases" for p
    by (cases p) (simp_all add: phases_def)
  then show ?thesis by blast
qed

lemma distinct_phases [simp]: "distinct phases"
  by (simp add: phases_def)

instantiation phase :: linorder
begin

definition less_eq_phase :: "phase \<Rightarrow> phase \<Rightarrow> bool" where
  "less_eq_phase p q \<longleftrightarrow> phase_int p \<le> phase_int q"

definition less_phase :: "phase \<Rightarrow> phase \<Rightarrow> bool" where
  "less_phase p q \<longleftrightarrow> phase_int p < phase_int q"

instance
  by standard (auto simp: less_eq_phase_def less_phase_def dest: antisym)

end

lemmas phase_order = less_eq_phase_def less_phase_def

instance phase :: finite
proof
  show "finite (UNIV :: phase set)"
    by (metis List.finite_set set_phases)
qed

section \<open>Repository status and the transition tables\<close>

datatype repo_status =
    PENDING
  | RUNNING
  | SUCCEEDED
  | BLOCKED
  | DEGRADED
  | REQUIRES_HUMAN_INTERVENTION
  | SKIPPED

definition TERMINAL_STATUSES :: "repo_status set" where
  [status_tables]: "TERMINAL_STATUSES = {SUCCEEDED, REQUIRES_HUMAN_INTERVENTION, SKIPPED}"

fun ALLOWED_TRANSITIONS :: "repo_status \<Rightarrow> repo_status set" where
  "ALLOWED_TRANSITIONS PENDING = {RUNNING, BLOCKED, SKIPPED}"
| "ALLOWED_TRANSITIONS RUNNING =
     {PENDING, SUCCEEDED, DEGRADED, BLOCKED, REQUIRES_HUMAN_INTERVENTION}"
| "ALLOWED_TRANSITIONS BLOCKED = {PENDING, SKIPPED}"
| "ALLOWED_TRANSITIONS DEGRADED = {RUNNING, SUCCEEDED, REQUIRES_HUMAN_INTERVENTION}"
| "ALLOWED_TRANSITIONS SUCCEEDED = {}"
| "ALLOWED_TRANSITIONS REQUIRES_HUMAN_INTERVENTION = {}"
| "ALLOWED_TRANSITIONS SKIPPED = {}"

definition OPERATOR_REOPEN :: "repo_status \<rightharpoonup> repo_status set" where
  [status_tables]: "OPERATOR_REOPEN = [REQUIRES_HUMAN_INTERVENTION \<mapsto> {PENDING}]"

definition RESUME_DEMOTE :: "repo_status \<rightharpoonup> repo_status set" where
  [status_tables]: "RESUME_DEMOTE = [SUCCEEDED \<mapsto> {PENDING}]"

definition STUB_DEGRADE :: "repo_status \<rightharpoonup> repo_status set" where
  [status_tables]: "STUB_DEGRADE = [SUCCEEDED \<mapsto> {DEGRADED}]"

text \<open>\<open>table.get(old, frozenset())\<close>\<close>

definition door :: "(repo_status \<rightharpoonup> repo_status set) \<Rightarrow> repo_status \<Rightarrow> repo_status set" where
  [status_tables]: "door table old = (case table old of None \<Rightarrow> {} | Some news \<Rightarrow> news)"

section \<open>The gate\<close>

datatype status_error =
    IllegalTransition repo_status repo_status
  | NotReopenable repo_status
  | NotADemotion repo_status
  | NotAStubDegradation repo_status

record transition_flags =
  operator :: bool
  resume :: bool
  stub_degrade :: bool

definition no_flags :: transition_flags where
  "no_flags = \<lparr>operator = False, resume = False, stub_degrade = False\<rparr>"

definition transition :: "repo_status \<Rightarrow> repo_status \<Rightarrow> transition_flags \<Rightarrow> status_error + repo_status"
where
  "transition old new flags =
     (if new = old then Inr new
      else if new \<in> ALLOWED_TRANSITIONS old then Inr new
      else if operator flags \<and> new \<in> door OPERATOR_REOPEN old then Inr new
      else if resume flags \<and> new \<in> door RESUME_DEMOTE old then Inr new
      else if stub_degrade flags \<and> new \<in> door STUB_DEGRADE old then Inr new
      else Inl (IllegalTransition old new))"

lemma transition_result: "transition old new flags = Inr s \<Longrightarrow> s = new"
  by (auto simp: transition_def split: if_splits)

lemma transition_iff:
  "transition old new flags = Inr new \<longleftrightarrow>
     new = old \<or> new \<in> ALLOWED_TRANSITIONS old
     \<or> operator flags \<and> new \<in> door OPERATOR_REOPEN old
     \<or> resume flags \<and> new \<in> door RESUME_DEMOTE old
     \<or> stub_degrade flags \<and> new \<in> door STUB_DEGRADE old"
  by (auto simp: transition_def)

lemma transition_no_flags_terminal:
  "old \<in> TERMINAL_STATUSES \<Longrightarrow> transition old new no_flags = Inr s \<Longrightarrow> s = old"
  by (cases old) (auto simp: transition_def no_flags_def status_tables split: if_splits)

lemma transition_automatic_absorbing:
  assumes "old \<in> {REQUIRES_HUMAN_INTERVENTION, SKIPPED}" and "\<not> operator flags"
    and "transition old new flags = Inr s"
  shows "s = old"
  using assms by (cases old) (auto simp: transition_def status_tables split: if_splits)

section \<open>The audited doors\<close>

text \<open>Findings payloads are JSON objects of strings and integers.\<close>

datatype json_value = JStr string | JInt int

fun status_value :: "repo_status \<Rightarrow> string" where
  "status_value PENDING = ''PENDING''"
| "status_value RUNNING = ''RUNNING''"
| "status_value SUCCEEDED = ''SUCCEEDED''"
| "status_value BLOCKED = ''BLOCKED''"
| "status_value DEGRADED = ''DEGRADED''"
| "status_value REQUIRES_HUMAN_INTERVENTION = ''REQUIRES_HUMAN_INTERVENTION''"
| "status_value SKIPPED = ''SKIPPED''"

definition audit_payload ::
  "repo_id \<Rightarrow> phase \<Rightarrow> repo_status \<Rightarrow> repo_status \<Rightarrow> string \<Rightarrow> (string, json_value) dict" where
  "audit_payload repo ph from_s to_s why =
     [(''repo_id'', JStr repo),
      (''phase'', JInt (phase_int ph)),
      (''from_status'', JStr (status_value from_s)),
      (''to_status'', JStr (status_value to_s)),
      (''reason'', JStr why)]"

record operator_reopen =
  reopen_repo_id :: repo_id
  reopen_phase :: phase
  reopen_reason :: string
  reopen_from_status :: repo_status
  reopen_to_status :: repo_status

definition operator_reopen_payload :: "operator_reopen \<Rightarrow> (string, json_value) dict" where
  "operator_reopen_payload r =
     audit_payload (reopen_repo_id r) (reopen_phase r) (reopen_from_status r)
       (reopen_to_status r) (reopen_reason r)"

definition reopen_abandoned ::
  "repo_status \<Rightarrow> repo_id \<Rightarrow> phase \<Rightarrow> string \<Rightarrow> status_error + repo_status \<times> operator_reopen" where
  "reopen_abandoned old repo ph why =
     (if OPERATOR_REOPEN old = None then Inl (NotReopenable old)
      else rbind (transition old PENDING (no_flags\<lparr>operator := True\<rparr>)) (\<lambda>new.
        Inr (new, \<lparr>reopen_repo_id = repo, reopen_phase = ph, reopen_reason = why,
                  reopen_from_status = old, reopen_to_status = PENDING\<rparr>)))"

record phase_demotion =
  demotion_repo_id :: repo_id
  demotion_phase :: phase
  demotion_from_status :: repo_status
  demotion_reason :: string
  demotion_to_status :: repo_status

definition phase_demotion_payload :: "phase_demotion \<Rightarrow> (string, json_value) dict" where
  "phase_demotion_payload d =
     audit_payload (demotion_repo_id d) (demotion_phase d) (demotion_from_status d)
       (demotion_to_status d) (demotion_reason d)"

definition demote ::
  "repo_status \<Rightarrow> repo_id \<Rightarrow> phase \<Rightarrow> string \<Rightarrow> status_error + repo_status \<times> phase_demotion" where
  "demote old repo ph why =
     (if RESUME_DEMOTE old = None then Inl (NotADemotion old)
      else rbind (transition old PENDING (no_flags\<lparr>resume := True\<rparr>)) (\<lambda>new.
        Inr (new, \<lparr>demotion_repo_id = repo, demotion_phase = ph, demotion_from_status = old,
                  demotion_reason = why, demotion_to_status = PENDING\<rparr>)))"

record stub_degradation =
  degradation_repo_id :: repo_id
  degradation_phase :: phase
  degradation_reason :: string
  degradation_from_status :: repo_status
  degradation_to_status :: repo_status

definition stub_degradation_payload :: "stub_degradation \<Rightarrow> (string, json_value) dict" where
  "stub_degradation_payload d =
     audit_payload (degradation_repo_id d) (degradation_phase d) (degradation_from_status d)
       (degradation_to_status d) (degradation_reason d)"

definition degrade_for_stub ::
  "repo_status \<Rightarrow> repo_id \<Rightarrow> phase \<Rightarrow> string \<Rightarrow> status_error + repo_status \<times> stub_degradation" where
  "degrade_for_stub old repo ph why =
     (if STUB_DEGRADE old = None then Inl (NotAStubDegradation old)
      else rbind (transition old DEGRADED (no_flags\<lparr>stub_degrade := True\<rparr>)) (\<lambda>new.
        Inr (new, \<lparr>degradation_repo_id = repo, degradation_phase = ph, degradation_reason = why,
                  degradation_from_status = old, degradation_to_status = DEGRADED\<rparr>)))"

lemmas audited_doors = reopen_abandoned_def demote_def degrade_for_stub_def

lemma demote_iff:
  "demote old repo ph why = Inr (s, d) \<longleftrightarrow>
     old = SUCCEEDED \<and> s = PENDING
     \<and> d = \<lparr>demotion_repo_id = repo, demotion_phase = ph, demotion_from_status = SUCCEEDED,
           demotion_reason = why, demotion_to_status = PENDING\<rparr>"
  by (auto simp: demote_def transition_def no_flags_def status_tables rbind_Inr_iff split: if_splits)

section \<open>Histories of writes\<close>

text \<open>
  A write request is a target status and the flags its caller passes. The plain class passes no
  flag (the crash sweep, the reaper, the breach handler); the automatic class never passes
  \<open>operator\<close>.
\<close>

type_synonym status_write = "repo_status \<times> transition_flags"

definition put_status :: "repo_status \<Rightarrow> status_write \<Rightarrow> status_error + repo_status" where
  "put_status s w = transition s (fst w) (snd w)"

interpretation plain: write_gate put_status "\<lambda>w. snd w = no_flags"
  "\<lambda>s. s \<in> TERMINAL_STATUSES" "\<lambda>_. True"
  by unfold_locales (auto simp: put_status_def dest: transition_no_flags_terminal)

interpretation automatic: write_gate put_status "\<lambda>w. \<not> operator (snd w)"
  "\<lambda>s. s \<in> {REQUIRES_HUMAN_INTERVENTION, SKIPPED}" "\<lambda>_. True"
  by unfold_locales (use transition_automatic_absorbing in \<open>auto simp: put_status_def\<close>)

text \<open>
  C23: A status that is terminal stays as it is under any history of status writes that pass none
  of the three flags, however long and whatever the requested targets.
\<close>

theorem plain_history_keeps_terminal:
  assumes "s \<in> TERMINAL_STATUSES" and "\<forall>w \<in> set ws. snd w = no_flags"
  shows "replay put_status s ws = s"
  using assms by (intro plain.replay_absorbing) auto

theorem plain_history_keeps_terminal_witness:
  "replay put_status SUCCEEDED [(PENDING, no_flags), (RUNNING, no_flags)] = SUCCEEDED"
  by (rule plain_history_keeps_terminal) (auto simp: status_tables)

text \<open>
  No history of writes that leaves the \<open>operator\<close> flag alone takes a repository out of
  \<open>REQUIRES_HUMAN_INTERVENTION\<close> or \<open>SKIPPED\<close>, even when every write opens the resume and
  stub-degrade doors; a write that does pass \<open>operator\<close> reopens an abandoned repository to
  \<open>PENDING\<close> and still cannot touch a skipped one.
\<close>

theorem only_operator_reopens:
  assumes "s \<in> {REQUIRES_HUMAN_INTERVENTION, SKIPPED}"
    and "\<forall>w \<in> set ws. \<not> operator (snd w)"
  shows "replay put_status s ws = s
    \<and> transition REQUIRES_HUMAN_INTERVENTION PENDING (no_flags\<lparr>operator := True\<rparr>) = Inr PENDING
    \<and> (t \<noteq> SKIPPED \<longrightarrow> transition SKIPPED t flags = Inl (IllegalTransition SKIPPED t))"
proof (intro conjI impI)
  show "replay put_status s ws = s"
    using assms by (intro automatic.replay_absorbing) auto
qed (auto simp: transition_def no_flags_def status_tables)

theorem only_operator_reopens_witness:
  "replay put_status REQUIRES_HUMAN_INTERVENTION
     [(PENDING, no_flags\<lparr>resume := True, stub_degrade := True\<rparr>), (RUNNING, no_flags)]
   = REQUIRES_HUMAN_INTERVENTION"
  using only_operator_reopens
    [of REQUIRES_HUMAN_INTERVENTION
      "[(PENDING, no_flags\<lparr>resume := True, stub_degrade := True\<rparr>), (RUNNING, no_flags)]"
      PENDING no_flags]
  by (simp add: no_flags_def)

text \<open>
  Each audited door accepts exactly one status, returns the new status together with a finding
  whose endpoints are the old and the new status, and is stricter than the gate it goes through:
  with the same flag, \<open>transition\<close> to \<open>PENDING\<close> also accepts rows that have no landed work.
\<close>

theorem audited_doors_exact:
  "(demote old repo ph why = Inr (s, d) \<longleftrightarrow>
      old = SUCCEEDED \<and> s = PENDING
      \<and> d = \<lparr>demotion_repo_id = repo, demotion_phase = ph, demotion_from_status = old,
            demotion_reason = why, demotion_to_status = s\<rparr>)
   \<and> (degrade_for_stub old repo ph why = Inr (s, g) \<longleftrightarrow>
      old = SUCCEEDED \<and> s = DEGRADED
      \<and> g = \<lparr>degradation_repo_id = repo, degradation_phase = ph, degradation_reason = why,
            degradation_from_status = old, degradation_to_status = s\<rparr>)
   \<and> (reopen_abandoned old repo ph why = Inr (s, r) \<longleftrightarrow>
      old = REQUIRES_HUMAN_INTERVENTION \<and> s = PENDING
      \<and> r = \<lparr>reopen_repo_id = repo, reopen_phase = ph, reopen_reason = why,
            reopen_from_status = old, reopen_to_status = s\<rparr>)
   \<and> (transition old PENDING (no_flags\<lparr>resume := True\<rparr>) = Inr PENDING \<longleftrightarrow>
      old \<in> {PENDING, RUNNING, BLOCKED, SUCCEEDED})"
proof (intro conjI)
  show "demote old repo ph why = Inr (s, d) \<longleftrightarrow>
      old = SUCCEEDED \<and> s = PENDING
      \<and> d = \<lparr>demotion_repo_id = repo, demotion_phase = ph, demotion_from_status = old,
            demotion_reason = why, demotion_to_status = s\<rparr>"
    by (auto simp: demote_iff)
qed (cases old; auto simp: audited_doors transition_def no_flags_def status_tables rbind_Inr_iff)+

text \<open>
  No status is a trap except the three terminal ones: from every other status a history of
  plain writes reaches \<open>SUCCEEDED\<close>.
\<close>

theorem nonterminal_can_succeed:
  "s \<notin> TERMINAL_STATUSES \<Longrightarrow>
     \<exists>ws. (\<forall>w \<in> set ws. snd w = no_flags) \<and> replay put_status s ws = SUCCEEDED"
proof (cases s)
  assume "s \<notin> TERMINAL_STATUSES"
  let ?run = "[(RUNNING, no_flags), (SUCCEEDED, no_flags)]"
  {
    case PENDING
    show ?thesis
      by (rule exI[of _ ?run]) (simp add: PENDING put_status_def transition_def)
  next
    case RUNNING
    show ?thesis
      by (rule exI[of _ "tl ?run"]) (simp add: RUNNING put_status_def transition_def)
  next
    case BLOCKED
    show ?thesis
      by (rule exI[of _ "(PENDING, no_flags) # ?run"]) (simp add: BLOCKED put_status_def transition_def)
  next
    case DEGRADED
    show ?thesis
      by (rule exI[of _ ?run]) (simp add: DEGRADED put_status_def transition_def)
  }
qed (auto simp: status_tables)

theorem nonterminal_can_succeed_witness:
  "\<exists>ws. (\<forall>w \<in> set ws. snd w = no_flags) \<and> replay put_status BLOCKED ws = SUCCEEDED"
  by (rule nonterminal_can_succeed) (simp add: status_tables)

end
