(* ===== verification/Vocabulary.thy ===== *)
theory Vocabulary
  imports Repo_Status
begin

text \<open>
  The closed vocabularies of \<open>src/fleet/models/enums.py\<close> beyond the status machine, with the tables
  that rank or classify them. Constructors carry the names of the enum members; where two enums
  share a member name, the later one is prefixed (\<open>PR_\<close>, \<open>ECO_\<close>, \<open>CK_\<close>, \<open>CS_\<close>).
  Members of a \<open>StrEnum\<close> are ordered by their value wherever the code sorts them, so the enums the
  code sorts come with their \<open>value\<close> function.
\<close>

section \<open>Stubs and pull requests\<close>

datatype stub_state = ACTIVE | SUPERSEDED | RESOLVED | ABANDONED

datatype stub_fidelity = PUBLISHED_ARTIFACT_FIDELITY | EMPTY_FAILING

datatype pr_state = PR_DRAFTED | PR_OPEN | PR_MERGED | PR_CLOSED | PR_HELD

section \<open>Graph vocabulary\<close>

datatype node_kind = REPO | CONTRACT

fun node_kind_value :: "node_kind \<Rightarrow> string" where
  "node_kind_value REPO = ''REPO''"
| "node_kind_value CONTRACT = ''CONTRACT''"

lemma node_kind_value_inject [simp]: "node_kind_value j = node_kind_value k \<longleftrightarrow> j = k"
  by (cases j; cases k) simp_all

datatype contract_kind = CK_PROTO | CK_OPENAPI | CK_AVRO | CK_THRIFT | CK_SHARED_LIB

datatype contract_status =
    CS_DETECTED
  | CS_EXTRACTABLE
  | CS_REJECTED
  | CS_FORBIDDEN
  | CS_HOISTED
  | CS_MIGRATED
  | CS_FAILED

datatype edge_kind =
    DECLARED_DEP
  | PUBLISHED_ARTIFACT
  | INTERNAL_IMPORT
  | API_CONTRACT
  | CONTRACT_IMPL
  | CONTRACT_CONSUME
  | SHARED_RESOURCE
  | DYNAMIC_REF

fun edge_kind_value :: "edge_kind \<Rightarrow> string" where
  "edge_kind_value DECLARED_DEP = ''DECLARED_DEP''"
| "edge_kind_value PUBLISHED_ARTIFACT = ''PUBLISHED_ARTIFACT''"
| "edge_kind_value INTERNAL_IMPORT = ''INTERNAL_IMPORT''"
| "edge_kind_value API_CONTRACT = ''API_CONTRACT''"
| "edge_kind_value CONTRACT_IMPL = ''CONTRACT_IMPL''"
| "edge_kind_value CONTRACT_CONSUME = ''CONTRACT_CONSUME''"
| "edge_kind_value SHARED_RESOURCE = ''SHARED_RESOURCE''"
| "edge_kind_value DYNAMIC_REF = ''DYNAMIC_REF''"

lemma edge_kind_value_inject [simp]: "edge_kind_value j = edge_kind_value k \<longleftrightarrow> j = k"
  by (cases j; cases k) simp_all

definition CONTRACT_EDGE_KINDS :: "edge_kind list" where
  "CONTRACT_EDGE_KINDS = [CONTRACT_IMPL, CONTRACT_CONSUME]"

datatype break_strategy = CONTRACT_HOIST | EDGE_BREAK | ATOMIC_WAVE | MANUAL

datatype ecosystem =
    ECO_MAVEN
  | ECO_GRADLE
  | ECO_NPM
  | ECO_PYPI
  | ECO_GO
  | ECO_CARGO
  | ECO_UNKNOWN

fun ecosystem_value :: "ecosystem \<Rightarrow> string" where
  "ecosystem_value ECO_MAVEN = ''maven''"
| "ecosystem_value ECO_GRADLE = ''gradle''"
| "ecosystem_value ECO_NPM = ''npm''"
| "ecosystem_value ECO_PYPI = ''pypi''"
| "ecosystem_value ECO_GO = ''go''"
| "ecosystem_value ECO_CARGO = ''cargo''"
| "ecosystem_value ECO_UNKNOWN = ''unknown''"

lemma ecosystem_value_inject [simp]: "ecosystem_value j = ecosystem_value k \<longleftrightarrow> j = k"
  by (cases j; cases k) simp_all

section \<open>Transformation ladder and failures\<close>

datatype context_policy =
    EVIDENCE_ONLY
  | EVIDENCE_PLUS_REJECTED_APPROACHES
  | EVIDENCE_PLUS_PRIORS

datatype transform_tier = DETERMINISTIC | LLM_REPAIR | LLM_ESCALATION

datatype failure_class =
    PARSE_ERROR
  | RULE_MISS
  | PATCH_REJECTED
  | ANCHORED_REPEAT
  | BUILD_ERROR
  | TEST_FAILURE
  | DEP_CONFLICT
  | CYCLE
  | TIMEOUT
  | STUB_DIVERGED
  | COLLISION
  | PREFLIGHT
  | UNSAFE_SOURCE_PATH
  | BUDGET_EXHAUSTED
  | TRANSIENT_INFRA
  | BACKEND_UNAVAILABLE
  | DISK_EXHAUSTED
  | UNKNOWN

section \<open>Verification verdicts\<close>

datatype equivalence = FULL | CLOSURE_SAMPLED | STUB_LIMITED

fun EQUIVALENCE_RANK :: "equivalence \<Rightarrow> int" where
  "EQUIVALENCE_RANK STUB_LIMITED = 2"
| "EQUIVALENCE_RANK CLOSURE_SAMPLED = 1"
| "EQUIVALENCE_RANK FULL = 0"

section \<open>Repository identifiers\<close>

text \<open>\<open>RepoId\<close> of \<open>src/fleet/models/repo.py\<close>: the pattern \<open>[a-z0-9][a-z0-9._-]{0,99}\<close>, anchored at both ends.\<close>

definition id_head_char :: "char \<Rightarrow> bool" where
  "id_head_char c \<longleftrightarrow>
     (CHR ''a'' \<le> c \<and> c \<le> CHR ''z'') \<or> (CHR ''0'' \<le> c \<and> c \<le> CHR ''9'')"

definition repo_id_ok :: "string \<Rightarrow> bool" where
  "repo_id_ok v =
     (case v of
        [] \<Rightarrow> False
      | c # cs \<Rightarrow>
          id_head_char c \<and> length cs \<le> 99
          \<and> list_all (\<lambda>d. id_head_char d \<or> d = CHR ''.'' \<or> d = CHR ''_'' \<or> d = CHR ''-'') cs)"

lemma newline_not_in_repo_id: "repo_id_ok v \<Longrightarrow> CHR ''\<newline>'' \<notin> set v"
  by (cases v) (auto simp: repo_id_ok_def list_all_iff id_head_char_def)

end
