(* ===== verification/Retry_Ladder.thy ===== *)
theory Retry_Ladder
  imports Vocabulary
begin

text \<open>
  \<open>src/fleet/orchestrator/retry.py\<close> and the ladder functions of \<open>src/fleet/workers/base.py\<close>: the
  context ladder, the capped exponential backoff and \<open>RetryPolicy.decide\<close>, a pure function of the
  counters of one (repository, phase) and one worker error. \<open>drive\<close> iterates the decision over a
  stream of failures the way the runner's loop does.

  Durations are rationals: the code only adds, multiplies and compares floats here, and the model
  leaves rounding out. The random factor of the jitter is an argument, the value the generator
  returned.
\<close>

section \<open>The context ladder\<close>

definition MAX_ATTEMPTS :: int where
  "MAX_ATTEMPTS = 3"

definition DEFAULT_LADDER :: "context_policy option list" where
  "DEFAULT_LADDER = [None, Some EVIDENCE_ONLY, Some EVIDENCE_PLUS_REJECTED_APPROACHES]"

fun TIER_FOR_RUNG :: "context_policy option \<Rightarrow> transform_tier" where
  "TIER_FOR_RUNG None = DETERMINISTIC"
| "TIER_FOR_RUNG (Some EVIDENCE_ONLY) = LLM_REPAIR"
| "TIER_FOR_RUNG (Some EVIDENCE_PLUS_REJECTED_APPROACHES) = LLM_ESCALATION"
| "TIER_FOR_RUNG (Some EVIDENCE_PLUS_PRIORS) = LLM_ESCALATION"

definition context_policy_for_attempt :: "int \<Rightarrow> context_policy option list \<Rightarrow> context_policy option"
where
  "context_policy_for_attempt attempt ladder =
     (if ladder = [] then None
      else ladder ! nat (min (max attempt 1) (int (length ladder)) - 1))"

definition tier_for_attempt :: "int \<Rightarrow> context_policy option list \<Rightarrow> transform_tier" where
  "tier_for_attempt attempt ladder = TIER_FOR_RUNG (context_policy_for_attempt attempt ladder)"

definition NON_RETRYABLE :: "failure_class list" where
  "NON_RETRYABLE =
     [BUDGET_EXHAUSTED, DISK_EXHAUSTED, BACKEND_UNAVAILABLE, COLLISION, PREFLIGHT,
      UNSAFE_SOURCE_PATH, CYCLE, DEP_CONFLICT, STUB_DIVERGED]"

definition is_retryable :: "failure_class \<Rightarrow> bool" where
  "is_retryable fc \<longleftrightarrow> fc \<notin> set NON_RETRYABLE"

text \<open>
  The exit reading of a subprocess: whether a result says something about the fleet's clock rather
  than about the repository. Never-started is read before timed-out.
\<close>

definition clock_failure :: "bool \<Rightarrow> bool \<Rightarrow> (failure_class \<times> bool) option" where
  "clock_failure started timed_out =
     (if \<not> started then Some (TRANSIENT_INFRA, True)
      else if timed_out then Some (TIMEOUT, True)
      else None)"

section \<open>Decisions\<close>

record worker_error =
  err_failure_class :: failure_class
  err_retryable :: bool

datatype retry_action = RETRY_TRANSIENT | ADVANCE_LADDER | TERMINATE

record ladder_state =
  attempts :: int
  transient_retries :: int
  max_attempts :: int
  ladder :: "context_policy option list"

definition fresh_ladder :: ladder_state where
  "fresh_ladder =
     \<lparr>attempts = 0, transient_retries = 0, max_attempts = MAX_ATTEMPTS, ladder = DEFAULT_LADDER\<rparr>"

definition ladder_context_policy :: "ladder_state \<Rightarrow> int \<Rightarrow> context_policy option" where
  "ladder_context_policy st attempt = context_policy_for_attempt attempt (ladder st)"

definition ladder_tier :: "ladder_state \<Rightarrow> int \<Rightarrow> transform_tier" where
  "ladder_tier st attempt = tier_for_attempt attempt (ladder st)"

definition exhausted :: "ladder_state \<Rightarrow> bool" where
  "exhausted st \<longleftrightarrow> attempts st \<ge> max_attempts st"

record retry_decision =
  dec_action :: retry_action
  dec_state :: ladder_state
  dec_delay_s :: rat
  dec_context_policy :: "context_policy option"
  dec_tier :: transform_tier
  dec_terminal_status :: "repo_status option"

definition charges_attempt :: "retry_decision \<Rightarrow> bool" where
  "charges_attempt d \<longleftrightarrow> dec_action d = ADVANCE_LADDER"

record retry_policy =
  max_transient_retries :: int
  backoff_base_s :: rat
  backoff_cap_s :: rat

definition DEFAULT_POLICY :: retry_policy where
  "DEFAULT_POLICY = \<lparr>max_transient_retries = 4, backoff_base_s = 1 / 2, backoff_cap_s = 30\<rparr>"

text \<open>\<open>jitter\<close> is what \<open>rng.random()\<close> returned.\<close>

definition backoff_delay :: "retry_policy \<Rightarrow> rat \<Rightarrow> int \<Rightarrow> rat" where
  "backoff_delay pol jitter retry_index =
     (let growth = 2 ^ nat (max (retry_index - 1) 0);
          ceiling = min (backoff_base_s pol * growth) (backoff_cap_s pol)
      in jitter * max ceiling 0)"

definition terminal_status :: "worker_error \<Rightarrow> repo_status" where
  "terminal_status e =
     (if err_failure_class e = BACKEND_UNAVAILABLE then PENDING
      else REQUIRES_HUMAN_INTERVENTION)"

definition decide :: "retry_policy \<Rightarrow> rat \<Rightarrow> ladder_state \<Rightarrow> worker_error \<Rightarrow> retry_decision" where
  "decide pol jitter st e =
     (let this_rung = attempts st + 1;
          stop = (\<lambda>status. \<lparr>dec_action = TERMINATE, dec_state = st, dec_delay_s = 0,
            dec_context_policy = ladder_context_policy st this_rung,
            dec_tier = ladder_tier st this_rung, dec_terminal_status = Some status\<rparr>)
      in
      if \<not> err_retryable e then stop (terminal_status e)
      else if err_failure_class e = DISK_EXHAUSTED then stop PENDING
      else if err_failure_class e = BACKEND_UNAVAILABLE then stop PENDING
      else if err_failure_class e = TRANSIENT_INFRA
              \<and> transient_retries st < max_transient_retries pol then
        (let nxt = st\<lparr>transient_retries := transient_retries st + 1\<rparr>
         in \<lparr>dec_action = RETRY_TRANSIENT, dec_state = nxt,
             dec_delay_s = backoff_delay pol jitter (transient_retries nxt),
             dec_context_policy = ladder_context_policy st this_rung,
             dec_tier = ladder_tier st this_rung, dec_terminal_status = None\<rparr>)
      else
        (let charged = st\<lparr>attempts := attempts st + 1\<rparr>
         in if exhausted charged then
              \<lparr>dec_action = TERMINATE, dec_state = charged, dec_delay_s = 0,
               dec_context_policy = ladder_context_policy st (attempts charged),
               dec_tier = ladder_tier st (attempts charged),
               dec_terminal_status = Some REQUIRES_HUMAN_INTERVENTION\<rparr>
            else
              \<lparr>dec_action = ADVANCE_LADDER, dec_state = charged, dec_delay_s = 0,
               dec_context_policy = ladder_context_policy charged (attempts charged + 1),
               dec_tier = ladder_tier charged (attempts charged + 1),
               dec_terminal_status = None\<rparr>))"

text \<open>
  The runner applies the decision's state and asks again until the ladder stops. \<open>drive\<close> is that
  loop over the failures that occur; it returns the decisions taken.
\<close>

fun drive :: "retry_policy \<Rightarrow> rat \<Rightarrow> ladder_state \<Rightarrow> worker_error list \<Rightarrow> retry_decision list" where
  "drive pol jitter st [] = []"
| "drive pol jitter st (e # es) =
     (let d = decide pol jitter st e
      in d # (if dec_action d = TERMINATE then [] else drive pol jitter (dec_state d) es))"

section \<open>Lemmas\<close>

lemma decide_attempts:
  "attempts (dec_state (decide pol j st e)) \<in> {attempts st, attempts st + 1}"
  by (simp add: decide_def Let_def)

lemma decide_frame [simp]:
  "max_attempts (dec_state (decide pol j st e)) = max_attempts st"
  "ladder (dec_state (decide pol j st e)) = ladder st"
  by (simp_all add: decide_def Let_def)

lemma decide_retry_transient:
  "dec_action (decide pol j st e) = RETRY_TRANSIENT \<Longrightarrow>
     dec_state (decide pol j st e) = st\<lparr>transient_retries := transient_retries st + 1\<rparr>
     \<and> transient_retries st < max_transient_retries pol
     \<and> err_failure_class e = TRANSIENT_INFRA \<and> err_retryable e"
  by (simp add: decide_def Let_def split: if_splits)

lemma decide_advance:
  "dec_action (decide pol j st e) = ADVANCE_LADDER \<Longrightarrow>
     dec_state (decide pol j st e) = st\<lparr>attempts := attempts st + 1\<rparr>
     \<and> attempts st + 1 < max_attempts st \<and> err_retryable e"
  by (auto simp: decide_def Let_def exhausted_def split: if_splits)

text \<open>What is left of the two counters; every decision but a stop consumes one unit.\<close>

definition ladder_budget :: "retry_policy \<Rightarrow> ladder_state \<Rightarrow> nat" where
  "ladder_budget pol st =
     nat (max_attempts st - 1 - attempts st) + nat (max_transient_retries pol - transient_retries st)"

lemma decide_spends_budget:
  assumes "dec_action (decide pol j st e) \<noteq> TERMINATE"
  shows "ladder_budget pol (dec_state (decide pol j st e)) < ladder_budget pol st"
proof (cases "dec_action (decide pol j st e)")
  case RETRY_TRANSIENT
  then show ?thesis using decide_retry_transient[OF RETRY_TRANSIENT] by (simp add: ladder_budget_def)
next
  case ADVANCE_LADDER
  then show ?thesis using decide_advance[OF ADVANCE_LADDER] by (simp add: ladder_budget_def)
qed (use assms in simp)

lemma drive_length: "length (drive pol j st es) \<le> ladder_budget pol st + 1"
proof (induction pol j st es rule: drive.induct)
  case (2 pol j st e es)
  show ?case
  proof (cases "dec_action (decide pol j st e) = TERMINATE")
    case False
    then show ?thesis
      using 2 decide_spends_budget[OF False] by (simp add: Let_def)
  qed (simp add: Let_def)
qed simp

lemma drive_stops:
  "ladder_budget pol st < length es \<Longrightarrow>
     drive pol j st es \<noteq> [] \<and> dec_action (last (drive pol j st es)) = TERMINATE"
proof (induction pol j st es rule: drive.induct)
  case (2 pol j st e es)
  show ?case
  proof (cases "dec_action (decide pol j st e) = TERMINATE")
    case False
    with 2 decide_spends_budget[OF False]
    have "drive pol j (dec_state (decide pol j st e)) es \<noteq> []
      \<and> dec_action (last (drive pol j (dec_state (decide pol j st e)) es)) = TERMINATE"
      by simp
    with False show ?thesis by (simp add: Let_def)
  qed (simp add: Let_def)
qed simp

lemma drive_attempts_bounded:
  "d \<in> set (drive pol j st es) \<Longrightarrow> attempts st < max_attempts st \<Longrightarrow>
     attempts st \<le> attempts (dec_state d) \<and> attempts (dec_state d) \<le> max_attempts st"
proof (induction pol j st es arbitrary: d rule: drive.induct)
  case (2 pol j st e es)
  let ?d = "decide pol j st e"
  have here: "attempts st \<le> attempts (dec_state ?d) \<and> attempts (dec_state ?d) \<le> max_attempts st"
    using decide_attempts[of pol j st e] "2.prems"(2) by auto
  show ?case
  proof (cases "dec_action ?d = TERMINATE \<or> d = ?d")
    case True
    with "2.prems"(1) here show ?thesis by (auto simp: Let_def)
  next
    case False
    then have d: "d \<in> set (drive pol j (dec_state ?d) es)" and nt: "dec_action ?d \<noteq> TERMINATE"
      using "2.prems"(1) by (auto simp: Let_def split: if_splits)
    have "attempts (dec_state ?d) < max_attempts (dec_state ?d)"
      using nt "2.prems"(2) decide_retry_transient[of pol j st e] decide_advance[of pol j st e]
      by (cases "dec_action ?d") auto
    with 2(1)[OF refl nt d] here show ?thesis by simp
  qed
qed simp

lemma drive_transients_bounded:
  "d \<in> set (drive pol j st es) \<Longrightarrow> transient_retries st \<le> max_transient_retries pol \<Longrightarrow>
     transient_retries (dec_state d) \<le> max_transient_retries pol"
proof (induction pol j st es arbitrary: d rule: drive.induct)
  case (2 pol j st e es)
  let ?d = "decide pol j st e"
  have here: "transient_retries (dec_state ?d) \<le> max_transient_retries pol"
    using "2.prems"(2) by (simp add: decide_def Let_def)
  then show ?case
    using 2(1)[OF refl] "2.prems"(1) by (auto simp: Let_def split: if_splits)
qed simp

lemma backoff_bounds:
  assumes "0 \<le> j" and "j \<le> 1"
  shows "0 \<le> backoff_delay pol j n" and "backoff_delay pol j n \<le> max (backoff_cap_s pol) 0"
proof -
  define c where "c = min (backoff_base_s pol * 2 ^ nat (max (n - 1) 0)) (backoff_cap_s pol)"
  have d: "backoff_delay pol j n = j * max c 0"
    by (simp add: backoff_delay_def c_def Let_def)
  show "0 \<le> backoff_delay pol j n"
    using assms by (simp add: d)
  have "j * max c 0 \<le> max c 0"
    using assms by (simp add: mult_left_le_one_le)
  also have "max c 0 \<le> max (backoff_cap_s pol) 0"
    by (auto simp: c_def)
  finally show "backoff_delay pol j n \<le> max (backoff_cap_s pol) 0"
    by (simp add: d)
qed

section \<open>Properties\<close>

text \<open>
  C30: The retry loop always stops. Whatever the failures and their order, the decisions taken for
  one (repository, phase) number at most the unspent attempts plus the unspent transient retries,
  and a stream of failures longer than that ends with \<open>TERMINATE\<close>.
\<close>

theorem retry_loop_terminates:
  assumes "0 \<le> attempts st" and "attempts st < max_attempts st"
    and "0 \<le> transient_retries st" and "transient_retries st \<le> max_transient_retries pol"
  shows "int (length (drive pol j st es)) \<le>
           (max_attempts st - attempts st) + (max_transient_retries pol - transient_retries st)
     \<and> (int (length es) \<ge>
           (max_attempts st - attempts st) + (max_transient_retries pol - transient_retries st)
         \<longrightarrow> drive pol j st es \<noteq> [] \<and> dec_action (last (drive pol j st es)) = TERMINATE)"
proof (intro conjI)
  have b: "int (ladder_budget pol st) + 1 =
      (max_attempts st - attempts st) + (max_transient_retries pol - transient_retries st)"
    using assms by (simp add: ladder_budget_def)
  show "int (length (drive pol j st es)) \<le>
      (max_attempts st - attempts st) + (max_transient_retries pol - transient_retries st)"
    using drive_length[of pol j st es] by (simp flip: b)
  show "int (length es) \<ge>
        (max_attempts st - attempts st) + (max_transient_retries pol - transient_retries st)
      \<longrightarrow> drive pol j st es \<noteq> [] \<and> dec_action (last (drive pol j st es)) = TERMINATE"
    using drive_stops[of pol st es j] by (simp flip: b)
qed

theorem retry_loop_terminates_witness:
  "dec_action (last (drive DEFAULT_POLICY 1 fresh_ladder
     (replicate 7 \<lparr>err_failure_class = TRANSIENT_INFRA, err_retryable = True\<rparr>))) = TERMINATE"
  using retry_loop_terminates[of fresh_ladder DEFAULT_POLICY 1
    "replicate 7 \<lparr>err_failure_class = TRANSIENT_INFRA, err_retryable = True\<rparr>"]
  by (simp add: fresh_ladder_def DEFAULT_POLICY_def MAX_ATTEMPTS_def)

text \<open>
  A transient failure is not an attempt. A \<open>RETRY_TRANSIENT\<close> decision re-runs the same rung
  (same context policy and tier as the rung that failed), leaves the attempt counter alone, sleeps
  no longer than the cap, and over a whole run of the loop neither counter passes its limit.
\<close>

theorem transient_is_not_an_attempt:
  assumes "dec_action (decide pol j st e) = RETRY_TRANSIENT" and "0 \<le> j" and "j < 1"
    and "attempts st < max_attempts st" and "transient_retries st \<le> max_transient_retries pol"
  shows "attempts (dec_state (decide pol j st e)) = attempts st
     \<and> \<not> charges_attempt (decide pol j st e)
     \<and> dec_context_policy (decide pol j st e) = ladder_context_policy st (attempts st + 1)
     \<and> dec_tier (decide pol j st e) = ladder_tier st (attempts st + 1)
     \<and> 0 \<le> dec_delay_s (decide pol j st e)
     \<and> dec_delay_s (decide pol j st e) \<le> max (backoff_cap_s pol) 0
     \<and> (\<forall>d \<in> set (drive pol j st es).
          attempts (dec_state d) \<le> max_attempts st
          \<and> transient_retries (dec_state d) \<le> max_transient_retries pol)"
proof (intro conjI ballI)
  note t = decide_retry_transient[OF assms(1)]
  show "attempts (dec_state (decide pol j st e)) = attempts st"
    using t by simp
  show "\<not> charges_attempt (decide pol j st e)"
    using assms(1) by (simp add: charges_attempt_def)
  show "dec_context_policy (decide pol j st e) = ladder_context_policy st (attempts st + 1)"
    and "dec_tier (decide pol j st e) = ladder_tier st (attempts st + 1)"
    using t by (simp_all add: decide_def Let_def)
  have "dec_delay_s (decide pol j st e) = backoff_delay pol j (transient_retries st + 1)"
    using t by (simp add: decide_def Let_def)
  then show "0 \<le> dec_delay_s (decide pol j st e)"
    and "dec_delay_s (decide pol j st e) \<le> max (backoff_cap_s pol) 0"
    using backoff_bounds[of j pol] assms(2,3) by simp_all
next
  fix d assume d: "d \<in> set (drive pol j st es)"
  show "attempts (dec_state d) \<le> max_attempts st"
    using drive_attempts_bounded[OF d assms(4)] by simp
  show "transient_retries (dec_state d) \<le> max_transient_retries pol"
    using drive_transients_bounded[OF d assms(5)] .
qed

theorem transient_is_not_an_attempt_witness:
  "attempts (dec_state (decide DEFAULT_POLICY (1/2) fresh_ladder
     \<lparr>err_failure_class = TRANSIENT_INFRA, err_retryable = True\<rparr>)) = 0"
  using transient_is_not_an_attempt[of DEFAULT_POLICY "1/2" fresh_ladder
    "\<lparr>err_failure_class = TRANSIENT_INFRA, err_retryable = True\<rparr>" "[]"]
  by (simp add: decide_def Let_def fresh_ladder_def DEFAULT_POLICY_def MAX_ATTEMPTS_def)

text \<open>
  An outage never costs a repository anything: whatever the \<open>retryable\<close> flag says,
  \<open>BACKEND_UNAVAILABLE\<close> stops the ladder with the counters untouched and the repository \<open>PENDING\<close>.
  A full disk, which the comments treat the same way, does so only when the worker marked the
  error retryable: the flag is consulted first, so the non-retryable \<open>DISK_EXHAUSTED\<close> that the
  class's own default produces is reported as \<open>REQUIRES_HUMAN_INTERVENTION\<close>.
\<close>

theorem outage_and_full_disk:
  "decide pol j st \<lparr>err_failure_class = BACKEND_UNAVAILABLE, err_retryable = b\<rparr> =
     \<lparr>dec_action = TERMINATE, dec_state = st, dec_delay_s = 0,
      dec_context_policy = ladder_context_policy st (attempts st + 1),
      dec_tier = ladder_tier st (attempts st + 1), dec_terminal_status = Some PENDING\<rparr>
   \<and> decide pol j st \<lparr>err_failure_class = DISK_EXHAUSTED, err_retryable = b\<rparr> =
     \<lparr>dec_action = TERMINATE, dec_state = st, dec_delay_s = 0,
      dec_context_policy = ladder_context_policy st (attempts st + 1),
      dec_tier = ladder_tier st (attempts st + 1),
      dec_terminal_status = Some (if b then PENDING else REQUIRES_HUMAN_INTERVENTION)\<rparr>
   \<and> \<not> is_retryable DISK_EXHAUSTED"
  by (simp add: decide_def Let_def terminal_status_def is_retryable_def NON_RETRYABLE_def)

end
