(* ===== verification/Reentry.thy ===== *)
theory Reentry
  imports Vocabulary
begin

text \<open>
  \<open>src/fleet/orchestrator/reentry.py\<close> (and \<open>slug\<close> of \<open>src/fleet/sandbox/worktree.py\<close>): where a
  resumed repository re-enters the pipeline, which durable evidence it keeps, and which entries of
  \<open>blocked_by\<close> a resume may drop.

  The four \<open>phases\<close> rows of a repository are a partial map from phases; a missing row is \<open>PENDING\<close>.
  The file system and Git are parameters: a record of predicates and a record of queries that may
  fail.
\<close>

section \<open>Rows\<close>

record evidence_row =
  row_status :: repo_status
  post_commit_sha :: "string option"

type_synonym phase_rows = "phase \<rightharpoonup> evidence_row"

definition status_of :: "evidence_row option \<Rightarrow> repo_status" where
  "status_of row = (case row of None \<Rightarrow> PENDING | Some r \<Rightarrow> row_status r)"

definition SETTLED_FOR_DEMOTION :: "repo_status set" where
  [status_tables]: "SETTLED_FOR_DEMOTION = {SUCCEEDED, SKIPPED, DEGRADED}"

definition HARD_STOPS :: "repo_status set" where
  [status_tables]: "HARD_STOPS = {DEGRADED, SKIPPED}"

section \<open>The re-entry floor\<close>

text \<open>
  The argument \<open>evidence\<close> of \<open>phase_floor\<close> is any mapping; a lookup may raise, which is how
  \<open>resume_floor\<close> learns which phase is wanted next. \<open>frontier\<close> is the first unsettled phase and
  \<open>walk\<close> the backward search below it.
\<close>

definition frontier :: "phase_rows \<Rightarrow> phase option" where
  "frontier rows = find (\<lambda>p. status_of (rows p) \<notin> SETTLED_FOR_DEMOTION) phases"

definition phases_below :: "phase \<Rightarrow> phase list" where
  "phases_below p = rev (filter (\<lambda>q. q < p) phases)"

fun walk :: "phase_rows \<Rightarrow> (phase \<Rightarrow> 'e + bool) \<Rightarrow> phase \<Rightarrow> phase list \<Rightarrow> 'e + phase" where
  "walk rows evidence flr [] = Inr flr"
| "walk rows evidence flr (p # ps) =
     (if status_of (rows p) \<in> HARD_STOPS then Inr flr
      else rbind (evidence p) (\<lambda>holds. if holds then Inr flr else walk rows evidence p ps))"

definition phase_floor_lookup ::
  "phase_rows \<Rightarrow> (phase \<Rightarrow> 'e + bool) \<Rightarrow> 'e + phase option" where
  "phase_floor_lookup rows evidence =
     (if \<exists>p \<in> set phases. status_of (rows p) = REQUIRES_HUMAN_INTERVENTION then Inr None
      else case frontier rows of
        None \<Rightarrow> Inr None
      | Some fr \<Rightarrow> rbind (walk rows evidence fr (phases_below fr)) (\<lambda>flr. Inr (Some flr)))"

text \<open>With a plain mapping the lookup is \<open>evidence.get(phase, False)\<close>, which cannot raise.\<close>

definition phase_floor :: "phase_rows \<Rightarrow> (phase \<rightharpoonup> bool) \<Rightarrow> phase option" where
  "phase_floor rows evidence =
     (case phase_floor_lookup rows
        (\<lambda>p. Inr (case evidence p of None \<Rightarrow> False | Some b \<Rightarrow> b) :: unit + bool)
      of Inl _ \<Rightarrow> None | Inr f \<Rightarrow> f)"

definition demotable_phases :: "(phase \<rightharpoonup> repo_status) \<Rightarrow> phase \<Rightarrow> phase list" where
  "demotable_phases statuses flr =
     filter (\<lambda>p. p \<ge> flr \<and> statuses p = Some SUCCEEDED) phases"

section \<open>Evidence\<close>

text \<open>\<open>slug\<close>: runs of unsafe characters become one hyphen, outer hyphens are stripped.\<close>

definition safe_char :: "char \<Rightarrow> bool" where
  "safe_char c \<longleftrightarrow>
     (CHR ''A'' \<le> c \<and> c \<le> CHR ''Z'') \<or> (CHR ''a'' \<le> c \<and> c \<le> CHR ''z'')
     \<or> (CHR ''0'' \<le> c \<and> c \<le> CHR ''9'') \<or> c \<in> {CHR ''_'', CHR ''.'', CHR ''-''}"

fun sub_unsafe :: "bool \<Rightarrow> string \<Rightarrow> string" where
  "sub_unsafe in_run [] = []"
| "sub_unsafe in_run (c # cs) =
     (if safe_char c then c # sub_unsafe False cs
      else if in_run then sub_unsafe True cs
      else CHR ''-'' # sub_unsafe True cs)"

definition strip_hyphens :: "string \<Rightarrow> string" where
  "strip_hyphens s = rev (dropWhile (\<lambda>c. c = CHR ''-'') (rev (dropWhile (\<lambda>c. c = CHR ''-'') s)))"

definition slug :: "string \<Rightarrow> string" where
  "slug v = (let cleaned = strip_hyphens (sub_unsafe False v)
             in if cleaned = [] then ''unnamed'' else cleaned)"

text \<open>\<open>Path / segment\<close> of \<open>pathlib\<close>: an absolute right operand wins.\<close>

definition path_join :: "string \<Rightarrow> string \<Rightarrow> string" where
  "path_join a b = (if b \<noteq> [] \<and> hd b = CHR ''/'' then b else a @ ''/'' @ b)"

record repo_evidence =
  re_repo_id :: repo_id
  re_mirror :: string
  re_worktree :: string
  re_dest :: string
  re_has_verification_report :: bool
  re_branch :: string

definition migrate_branch :: "repo_evidence \<Rightarrow> string" where
  "migrate_branch r = (if re_branch r \<noteq> [] then re_branch r else ''migrate/'' @ re_repo_id r)"

definition MIRROR_CACHE_SUBDIR :: string where
  "MIRROR_CACHE_SUBDIR = ''git''"

definition for_repo :: "repo_id \<Rightarrow> string \<Rightarrow> string \<Rightarrow> string \<Rightarrow> bool \<Rightarrow> repo_evidence" where
  "for_repo repo cache_dir work_dir dst has_report =
     \<lparr>re_repo_id = repo,
      re_mirror = path_join (path_join cache_dir MIRROR_CACHE_SUBDIR) (slug repo @ ''.git''),
      re_worktree = path_join work_dir repo,
      re_dest = dst,
      re_has_verification_report = has_report,
      re_branch = []\<rparr>"

record file_system =
  fs_is_file :: "string \<Rightarrow> bool"
  fs_is_dir :: "string \<Rightarrow> bool"
  fs_exists :: "string \<Rightarrow> bool"

record 'e git_queries =
  git_resolve :: "string \<Rightarrow> string \<Rightarrow> 'e + string option"
  git_is_ancestor :: "string \<Rightarrow> string \<Rightarrow> string \<Rightarrow> 'e + bool"

definition mirror_is_initialized :: "file_system \<Rightarrow> string \<Rightarrow> bool" where
  "mirror_is_initialized fs m \<longleftrightarrow>
     fs_is_file fs (path_join m ''HEAD'') \<and> fs_is_dir fs (path_join m ''objects'')"

definition worktree_is_initialized :: "file_system \<Rightarrow> string \<Rightarrow> bool" where
  "worktree_is_initialized fs w \<longleftrightarrow> fs_exists fs (path_join w ''.git'')"

definition worktree_present :: "file_system \<Rightarrow> repo_evidence \<Rightarrow> bool" where
  "worktree_present fs r \<longleftrightarrow> fs_is_dir fs (re_worktree r)"

definition build_file_present :: "file_system \<Rightarrow> repo_evidence \<Rightarrow> bool" where
  "build_file_present fs r \<longleftrightarrow>
     fs_exists fs (path_join (path_join (re_worktree r) (re_dest r)) ''BUILD.bazel'')"

definition resolves :: "'e git_queries \<Rightarrow> string \<Rightarrow> string \<Rightarrow> 'e + bool" where
  "resolves git w revision = rbind (git_resolve git w revision) (\<lambda>s. Inr (s \<noteq> None))"

definition scan_evidence ::
  "file_system \<Rightarrow> 'e git_queries \<Rightarrow> phase_rows \<Rightarrow> repo_evidence \<Rightarrow> 'e + bool" where
  "scan_evidence fs git rows r =
     (if \<not> mirror_is_initialized fs (re_mirror r) then Inr False
      else if \<not> worktree_is_initialized fs (re_worktree r) then Inr False
      else resolves git (re_worktree r) ''HEAD'')"

text \<open>\<open>if not sha\<close>: a missing row, a \<open>None\<close> and an empty string are all falsy.\<close>

definition row_sha :: "evidence_row option \<Rightarrow> string option" where
  "row_sha row =
     (case row of None \<Rightarrow> None
      | Some x \<Rightarrow> (case post_commit_sha x of None \<Rightarrow> None
                 | Some sha \<Rightarrow> if sha = [] then None else Some sha))"

definition transform_evidence ::
  "file_system \<Rightarrow> 'e git_queries \<Rightarrow> phase_rows \<Rightarrow> repo_evidence \<Rightarrow> 'e + bool" where
  "transform_evidence fs git rows r =
     (if \<not> worktree_present fs r then Inr False
      else rbind (resolves git (re_worktree r) (migrate_branch r)) (\<lambda>on_branch.
        if \<not> on_branch then Inr False
        else case row_sha (rows TRANSFORM) of
          None \<Rightarrow> Inr False
        | Some sha \<Rightarrow>
            rbind (resolves git (re_worktree r) sha) (\<lambda>ok.
              if \<not> ok then Inr False
              else git_is_ancestor git (re_worktree r) sha (migrate_branch r))))"

definition build_evidence ::
  "file_system \<Rightarrow> 'e git_queries \<Rightarrow> phase_rows \<Rightarrow> repo_evidence \<Rightarrow> 'e + bool" where
  "build_evidence fs git rows r =
     (if \<not> worktree_present fs r then Inr False
      else case row_sha (rows BUILD) of
        None \<Rightarrow> Inr False
      | Some sha \<Rightarrow>
          rbind (resolves git (re_worktree r) sha) (\<lambda>ok.
            if \<not> ok then Inr False else Inr (build_file_present fs r)))"

definition verify_evidence ::
  "file_system \<Rightarrow> 'e git_queries \<Rightarrow> phase_rows \<Rightarrow> repo_evidence \<Rightarrow> 'e + bool" where
  "verify_evidence fs git rows r =
     Inr (status_of (rows BUILD) = SUCCEEDED \<and> re_has_verification_report r)"

fun evidence_holds ::
  "phase \<Rightarrow> file_system \<Rightarrow> 'e git_queries \<Rightarrow> phase_rows \<Rightarrow> repo_evidence \<Rightarrow> 'e + bool" where
  "evidence_holds SCAN fs git rows r = scan_evidence fs git rows r"
| "evidence_holds TRANSFORM fs git rows r = transform_evidence fs git rows r"
| "evidence_holds BUILD fs git rows r = build_evidence fs git rows r"
| "evidence_holds VERIFY fs git rows r = verify_evidence fs git rows r"

section \<open>The lazy driver\<close>

datatype 'e resume_error = ProbeFailed 'e | ReRequested phase

definition lazy_lookup :: "(phase \<rightharpoonup> bool) \<Rightarrow> phase \<Rightarrow> phase + bool" where
  "lazy_lookup known p = (case known p of None \<Rightarrow> Inl p | Some b \<Rightarrow> Inr b)"

lemma card_unknown_less:
  "known w = None \<Longrightarrow> card (- dom (known(w \<mapsto> b))) < card (- dom (known :: phase \<rightharpoonup> bool))"
  by (rule psubset_card_mono) auto

function resume_loop ::
  "phase_rows \<Rightarrow> (phase \<Rightarrow> 'e + bool) \<Rightarrow> (phase \<rightharpoonup> bool)
   \<Rightarrow> 'e resume_error + phase option \<times> (phase \<rightharpoonup> bool)" where
  "resume_loop rows probe known =
     (case phase_floor_lookup rows (lazy_lookup known) of
        Inr flr \<Rightarrow> Inr (flr, known)
      | Inl wanted \<Rightarrow>
          if known wanted \<noteq> None then Inl (ReRequested wanted)
          else (case probe wanted of
             Inl e \<Rightarrow> Inl (ProbeFailed e)
           | Inr b \<Rightarrow> resume_loop rows probe (known(wanted \<mapsto> b))))"
  by pat_completeness auto
termination
  by (relation "measure (\<lambda>(rows, probe, known). card (- dom known))")
    (simp_all only: wf_measure in_measure prod.case card_unknown_less not_not)

declare resume_loop.simps [simp del]

definition resume_floor ::
  "phase_rows \<Rightarrow> (phase \<Rightarrow> 'e + bool)
   \<Rightarrow> 'e resume_error + phase option \<times> (phase \<rightharpoonup> bool)" where
  "resume_floor rows probe = resume_loop rows probe Map.empty"

section \<open>Un-blocking\<close>

definition LANDED_STATUSES :: "repo_status set" where
  [status_tables]: "LANDED_STATUSES = {SUCCEEDED}"

record blocker_state =
  phase_statuses :: "repo_status list" \<comment> \<open>every \<open>phases\<close> row of the blocker\<close>

definition still_blocking :: "string \<Rightarrow> (string \<rightharpoonup> blocker_state) \<Rightarrow> bool" where
  "still_blocking name blockers =
     (case blockers name of
        None \<Rightarrow> True
      | Some st \<Rightarrow>
          if phase_statuses st = [] then True
          else \<not> list_all (\<lambda>s. s \<in> LANDED_STATUSES) (phase_statuses st))"

definition stub_permits_removal :: "string \<Rightarrow> (string \<rightharpoonup> blocker_state) \<Rightarrow> bool \<Rightarrow> bool" where
  "stub_permits_removal name blockers stub_blocked =
     (if \<not> stub_blocked then False
      else case blockers name of
        None \<Rightarrow> False
      | Some st \<Rightarrow> REQUIRES_HUMAN_INTERVENTION \<in> set (phase_statuses st))"

record unblocking =
  un_repo_id :: repo_id
  un_removed :: "string list"
  un_remaining :: "string list"
  un_floor :: "phase option"

definition may_remove :: "(string \<rightharpoonup> blocker_state) \<Rightarrow> bool \<Rightarrow> string \<Rightarrow> bool" where
  "may_remove blockers stub_blocked name \<longleftrightarrow>
     \<not> still_blocking name blockers \<or> stub_permits_removal name blockers stub_blocked"

definition blocked_union :: "(repo_id \<times> string list) list \<Rightarrow> repo_id \<Rightarrow> string list" where
  "blocked_union rows repo = concat (map snd (filter (\<lambda>r. fst r = repo) rows))"

definition plan_unblocking ::
  "(repo_id \<times> string list) list \<Rightarrow> (string \<rightharpoonup> blocker_state) \<Rightarrow> (repo_id \<rightharpoonup> phase) \<Rightarrow> bool
   \<Rightarrow> unblocking list" where
  "plan_unblocking rows blockers floors stub_blocked =
     map (\<lambda>repo.
        let names = sorted_set (blocked_union rows repo)
        in \<lparr>un_repo_id = repo,
            un_removed = filter (may_remove blockers stub_blocked) names,
            un_remaining = filter (\<lambda>n. \<not> may_remove blockers stub_blocked n) names,
            un_floor = floors repo\<rparr>)
       (sorted_set (map fst rows))"

section \<open>Lemmas on the walk\<close>

definition stops :: "phase_rows \<Rightarrow> (phase \<Rightarrow> bool) \<Rightarrow> phase \<Rightarrow> bool" where
  "stops rows holds p \<longleftrightarrow> status_of (rows p) \<in> HARD_STOPS \<or> holds p"

lemma walk_total:
  "walk rows (\<lambda>p. Inr (holds p)) flr ps = Inr (last (flr # takeWhile (\<lambda>p. \<not> stops rows holds p) ps))"
  by (induction ps arbitrary: flr) (auto simp: stops_def)

lemma phases_below_simps [simp]:
  "phases_below SCAN = []"
  "phases_below TRANSFORM = [SCAN]"
  "phases_below BUILD = [TRANSFORM, SCAN]"
  "phases_below VERIFY = [BUILD, TRANSFORM, SCAN]"
  by (simp_all add: phases_below_def phases_def phase_order)

lemma set_phases_below: "set (phases_below p) = {q. q < p}"
  by (auto simp: phases_below_def)

lemma all_phases: "(\<forall>p. P p) \<longleftrightarrow> P SCAN \<and> P TRANSFORM \<and> P BUILD \<and> P VERIFY"
  by (metis phase.exhaust)

lemma ex_phases: "(\<exists>p. P p) \<longleftrightarrow> P SCAN \<or> P TRANSFORM \<or> P BUILD \<or> P VERIFY"
  by (metis phase.exhaust)

text \<open>The floor as a relation on the order of the phases, with no search in it.\<close>

definition floor_from :: "phase_rows \<Rightarrow> (phase \<Rightarrow> bool) \<Rightarrow> phase \<Rightarrow> phase \<Rightarrow> bool" where
  "floor_from rows holds fr f \<longleftrightarrow>
     f \<le> fr \<and> (\<forall>q. f \<le> q \<and> q < fr \<longrightarrow> \<not> stops rows holds q)
     \<and> (\<forall>q. phase_int q + 1 = phase_int f \<longrightarrow> stops rows holds q)"

lemma walk_floor_from:
  "walk rows (\<lambda>p. Inr (holds p)) fr (phases_below fr) = Inr f \<longleftrightarrow> floor_from rows holds fr f"
  by (cases fr; cases f)
    (auto simp: walk_total floor_from_def all_phases phase_order)

lemma frontier_iff:
  "frontier rows = Some fr \<longleftrightarrow>
     status_of (rows fr) \<notin> SETTLED_FOR_DEMOTION
     \<and> (\<forall>q < fr. status_of (rows q) \<in> SETTLED_FOR_DEMOTION)"
  by (cases fr) (auto simp: frontier_def phases_def all_phases phase_order)

lemma phase_floor_Some_iff:
  "phase_floor rows evidence = Some f \<longleftrightarrow>
     (\<forall>p. status_of (rows p) \<noteq> REQUIRES_HUMAN_INTERVENTION)
     \<and> (\<exists>fr. frontier rows = Some fr \<and> floor_from rows (\<lambda>p. evidence p = Some True) fr f)"
proof -
  have e: "(\<lambda>p. Inr (case evidence p of None \<Rightarrow> False | Some b \<Rightarrow> b) :: unit + bool)
    = (\<lambda>p. Inr (evidence p = Some True))"
    by (auto split: option.splits)
  have w: "floor_from rows (\<lambda>p. evidence p = Some True) fr f \<longleftrightarrow>
      last (fr # takeWhile (\<lambda>p. \<not> stops rows (\<lambda>p. evidence p = Some True) p) (phases_below fr)) = f"
    for fr
    using walk_floor_from[of rows "\<lambda>p. evidence p = Some True" fr f] unfolding walk_total by simp
  show ?thesis
    by (cases "frontier rows")
      (simp_all add: phase_floor_def phase_floor_lookup_def e walk_total w del: last.simps)
qed

section \<open>Lemmas on the lazy driver\<close>

definition agrees :: "(phase \<rightharpoonup> bool) \<Rightarrow> (phase \<Rightarrow> bool) \<Rightarrow> bool" where
  "agrees known holds \<longleftrightarrow> (\<forall>p b. known p = Some b \<longrightarrow> b = holds p)"

lemma agreesD: "agrees known holds \<Longrightarrow> known p = Some b \<Longrightarrow> b = holds p"
  by (simp add: agrees_def)

lemma walk_lazy_Inl:
  "walk rows (lazy_lookup known) flr ps = Inl w \<Longrightarrow> w \<in> set ps \<and> known w = None"
proof (induction ps arbitrary: flr)
  case (Cons p ps)
  then show ?case
    by (cases "known p") (auto simp: lazy_lookup_def split: if_splits)
qed simp

lemma walk_lazy_Inr:
  "agrees known holds \<Longrightarrow> walk rows (lazy_lookup known) flr ps = Inr g \<Longrightarrow>
     walk rows (\<lambda>p. Inr (holds p)) flr ps = Inr g"
proof (induction ps arbitrary: flr)
  case (Cons p ps)
  then show ?case
    by (cases "known p") (auto simp: lazy_lookup_def split: if_splits dest: agreesD)
qed simp

lemma phase_floor_lookup_Inl:
  "phase_floor_lookup rows (lazy_lookup known) = Inl w \<Longrightarrow>
     known w = None \<and> (\<exists>fr. frontier rows = Some fr \<and> w < fr)"
  using walk_lazy_Inl[of rows known]
  by (fastforce simp: phase_floor_lookup_def rbind_def set_phases_below
      split: if_splits option.splits sum.splits)

lemma phase_floor_lookup_lazy:
  assumes "agrees known holds" and "phase_floor_lookup rows (lazy_lookup known) = Inr g"
  shows "g = phase_floor rows (\<lambda>p. Some (holds p))"
proof (cases "frontier rows")
  case None
  with assms(2) show ?thesis
    by (auto simp: phase_floor_lookup_def phase_floor_def split: if_splits)
next
  case (Some fr)
  let ?w = "walk rows (lazy_lookup known) fr (phases_below fr)"
  show ?thesis
  proof (cases ?w)
    case (Inl w)
    with assms(2) Some show ?thesis
      by (auto simp: phase_floor_lookup_def phase_floor_def split: if_splits)
  next
    case (Inr h)
    then have "(walk rows (\<lambda>p. Inr (holds p)) fr (phases_below fr) :: unit + phase) = Inr h"
      by (rule walk_lazy_Inr[OF assms(1)])
    with Inr assms(2) Some show ?thesis
      by (auto simp: phase_floor_lookup_def phase_floor_def split: if_splits)
  qed
qed

lemma resume_loop_done:
  "phase_floor_lookup rows (lazy_lookup known) = Inr g \<Longrightarrow> resume_loop rows probe known = Inr (g, known)"
  by (simp add: resume_loop.simps[of rows probe known])

lemma resume_loop_ask:
  assumes "phase_floor_lookup rows (lazy_lookup known) = Inl w"
  shows "resume_loop rows probe known =
    (case probe w of Inl e \<Rightarrow> Inl (ProbeFailed e)
     | Inr b \<Rightarrow> resume_loop rows probe (known(w \<mapsto> b)))"
  using phase_floor_lookup_Inl[OF assms] assms
  by (simp add: resume_loop.simps[of rows probe known])

definition asked_below :: "phase_rows \<Rightarrow> (phase \<rightharpoonup> bool) \<Rightarrow> bool" where
  "asked_below rows known \<longleftrightarrow> (\<forall>p b. known p = Some b \<longrightarrow> (\<exists>fr. frontier rows = Some fr \<and> p < fr))"

lemma resume_loop_eager:
  assumes "\<And>p. probe p = Inr (holds p)" and "agrees known holds" and "asked_below rows known"
  shows "\<exists>asked. resume_loop rows probe known = Inr (phase_floor rows (\<lambda>p. Some (holds p)), asked)
    \<and> agrees asked holds \<and> asked_below rows asked"
  using assms
proof (induction rows probe known rule: resume_loop.induct)
  case (1 rows probe known)
  show ?case
  proof (cases "phase_floor_lookup rows (lazy_lookup known)")
    case (Inr g)
    with 1(3,4) phase_floor_lookup_lazy[OF 1(3) Inr] resume_loop_done[OF Inr, of probe]
    show ?thesis by blast
  next
    case (Inl w)
    note w = phase_floor_lookup_Inl[OF Inl]
    have "agrees (known(w \<mapsto> holds w)) holds" and "asked_below rows (known(w \<mapsto> holds w))"
      using 1(3,4) w by (auto simp: agrees_def asked_below_def)
    with 1(1)[OF Inl _ 1(2)] 1(2) w show ?thesis
      by (simp add: resume_loop_ask[OF Inl] fun_upd_def)
  qed
qed

lemma resume_loop_errors:
  "resume_loop rows probe known = Inl err \<Longrightarrow> \<exists>p e. err = ProbeFailed e \<and> probe p = Inl e"
proof (induction rows probe known rule: resume_loop.induct)
  case (1 rows probe known)
  show ?case
  proof (cases "phase_floor_lookup rows (lazy_lookup known)")
    case (Inl w)
    note ask = resume_loop_ask[OF Inl, of probe]
    show ?thesis
    proof (cases "probe w")
      case (Inl e)
      with 1(2) ask show ?thesis by auto
    next
      case (Inr b)
      with 1(2) ask have "resume_loop rows probe (known(w \<mapsto> b)) = Inl err" by simp
      with 1(1)[OF \<open>phase_floor_lookup rows (lazy_lookup known) = Inl w\<close> _ Inr]
        phase_floor_lookup_Inl[OF \<open>phase_floor_lookup rows (lazy_lookup known) = Inl w\<close>]
      show ?thesis by (simp add: fun_upd_def)
    qed
  qed (use 1 in \<open>simp add: resume_loop_done\<close>)
qed

section \<open>Lemmas on un-blocking\<close>

lemma blocked_union_set: "set (blocked_union rows repo) = (\<Union>names \<in> {ns. (repo, ns) \<in> set rows}. set names)"
  by (auto simp: blocked_union_def)

lemma not_still_blocking_iff:
  "\<not> still_blocking name blockers \<longleftrightarrow>
     (\<exists>st. blockers name = Some st \<and> phase_statuses st \<noteq> []
        \<and> (\<forall>s \<in> set (phase_statuses st). s = SUCCEEDED))"
  by (auto simp: still_blocking_def list_all_iff status_tables split: option.splits)

lemma may_remove_iff:
  "may_remove blockers stub_blocked name \<longleftrightarrow>
     (\<exists>st. blockers name = Some st \<and>
        (phase_statuses st \<noteq> [] \<and> (\<forall>s \<in> set (phase_statuses st). s = SUCCEEDED)
         \<or> stub_blocked \<and> REQUIRES_HUMAN_INTERVENTION \<in> set (phase_statuses st)))"
  unfolding may_remove_def not_still_blocking_iff
  by (auto simp: stub_permits_removal_def split: option.splits)

section \<open>Properties\<close>

text \<open>
  C31: The re-entry floor is exactly the rule the documentation states. It exists iff no phase is
  abandoned and some phase is unsettled; it lies at or below that frontier, no phase from the floor
  up to the frontier holds evidence or is a hard stop, and the phase just below it does.
\<close>

theorem phase_floor_rule:
  "phase_floor rows evidence = Some f \<longleftrightarrow>
     (\<forall>p. status_of (rows p) \<noteq> REQUIRES_HUMAN_INTERVENTION)
     \<and> (\<exists>fr. status_of (rows fr) \<notin> SETTLED_FOR_DEMOTION
          \<and> (\<forall>q. q < fr \<longrightarrow> status_of (rows q) \<in> SETTLED_FOR_DEMOTION)
          \<and> f \<le> fr
          \<and> (\<forall>q. f \<le> q \<and> q < fr \<longrightarrow>
               status_of (rows q) \<notin> HARD_STOPS \<and> evidence q \<noteq> Some True)
          \<and> (\<forall>q. phase_int q + 1 = phase_int f \<longrightarrow>
               status_of (rows q) \<in> HARD_STOPS \<or> evidence q = Some True))"
  by (auto simp: phase_floor_Some_iff frontier_iff floor_from_def stops_def)

theorem phase_floor_rule_witness:
  "phase_floor [SCAN \<mapsto> \<lparr>row_status = SUCCEEDED, post_commit_sha = None\<rparr>] Map.empty = Some SCAN
   \<and> (\<exists>fr. status_of (([SCAN \<mapsto> \<lparr>row_status = SUCCEEDED, post_commit_sha = None\<rparr>]) fr)
          \<notin> SETTLED_FOR_DEMOTION \<and> SCAN \<le> fr)"
proof -
  let ?rows = "[SCAN \<mapsto> \<lparr>row_status = SUCCEEDED, post_commit_sha = None\<rparr>]"
  have f: "phase_floor ?rows Map.empty = Some SCAN"
    by code_simp
  from f show ?thesis
    unfolding phase_floor_rule by blast
qed

text \<open>
  A resume discards only landed work. Every phase between the floor and the frontier is
  \<open>SUCCEEDED\<close>, so \<open>demote\<close> accepts each of them, the span is part of what \<open>demotable_phases\<close>
  returns, and no \<open>DEGRADED\<close> or \<open>SKIPPED\<close> phase is in it or is the floor.
\<close>

theorem floor_span_demotable:
  assumes "phase_floor rows evidence = Some f" and "frontier rows = Some fr"
    and "f \<le> q" and "q < fr"
  shows "status_of (rows q) = SUCCEEDED
    \<and> demote (status_of (rows q)) repo q why =
        Inr (PENDING, \<lparr>demotion_repo_id = repo, demotion_phase = q,
          demotion_from_status = SUCCEEDED, demotion_reason = why, demotion_to_status = PENDING\<rparr>)
    \<and> q \<in> set (demotable_phases (\<lambda>p. Some (status_of (rows p))) f)
    \<and> status_of (rows f) \<notin> HARD_STOPS"
proof -
  from assms(1,2) have fl: "floor_from rows (\<lambda>p. evidence p = Some True) fr f"
    by (auto simp: phase_floor_Some_iff)
  have span: "status_of (rows p) = SUCCEEDED" if "f \<le> p" "p < fr" for p
    using that fl assms(2)
    by (auto simp: floor_from_def stops_def frontier_iff status_tables)
  have "f < fr"
    using assms(3,4) by simp
  then show ?thesis
    using span[OF assms(3,4)] span[of f] assms(3)
    by (simp add: demote_iff demotable_phases_def status_tables)
qed

theorem floor_span_demotable_witness:
  "status_of (([SCAN \<mapsto> \<lparr>row_status = SUCCEEDED, post_commit_sha = None\<rparr>]) SCAN) = SUCCEEDED
   \<and> phase_floor [SCAN \<mapsto> \<lparr>row_status = SUCCEEDED, post_commit_sha = None\<rparr>] Map.empty = Some SCAN"
proof -
  let ?rows = "[SCAN \<mapsto> \<lparr>row_status = SUCCEEDED, post_commit_sha = None\<rparr>]"
  have f: "phase_floor ?rows Map.empty = Some SCAN" and fr: "frontier ?rows = Some TRANSFORM"
    by (simp_all add: phase_floor_Some_iff frontier_def phases_def status_of_def status_tables
        all_phases ex_phases floor_from_def stops_def phase_order)
  have "SCAN \<le> (SCAN :: phase)" and "SCAN < TRANSFORM"
    by (simp_all add: phase_order)
  with floor_span_demotable[OF f fr, of SCAN] f show ?thesis
    by simp
qed

text \<open>
  Driving \<open>phase_floor\<close> with evidence computed on demand gives the answer of the eager
  computation, asks only about phases strictly below the frontier, and always returns: the only
  failure it can report is one the probe raised, never a repeated request.
\<close>

theorem resume_floor_equals_eager:
  "((\<forall>p. probe p = Inr (holds p)) \<longrightarrow>
      (\<exists>asked. resume_floor rows probe = Inr (phase_floor rows (\<lambda>p. Some (holds p)), asked)
         \<and> (\<forall>p b. asked p = Some b \<longrightarrow>
              b = holds p \<and> (\<exists>fr. frontier rows = Some fr \<and> p < fr))))
   \<and> (\<forall>err. resume_floor rows probe = Inl err \<longrightarrow> (\<exists>p e. err = ProbeFailed e \<and> probe p = Inl e))"
proof (intro conjI impI allI)
  assume "\<forall>p. probe p = Inr (holds p)"
  then show "\<exists>asked. resume_floor rows probe = Inr (phase_floor rows (\<lambda>p. Some (holds p)), asked)
       \<and> (\<forall>p b. asked p = Some b \<longrightarrow> b = holds p \<and> (\<exists>fr. frontier rows = Some fr \<and> p < fr))"
    using resume_loop_eager[of probe holds Map.empty rows]
    by (auto simp: resume_floor_def agrees_def asked_below_def)
next
  fix err assume "resume_floor rows probe = Inl err"
  then show "\<exists>p e. err = ProbeFailed e \<and> probe p = Inl e"
    unfolding resume_floor_def by (rule resume_loop_errors)
qed

theorem resume_floor_equals_eager_witness:
  "\<exists>asked. resume_floor [SCAN \<mapsto> \<lparr>row_status = SUCCEEDED, post_commit_sha = None\<rparr>]
      (\<lambda>_. Inr False :: unit + bool)
    = Inr (phase_floor [SCAN \<mapsto> \<lparr>row_status = SUCCEEDED, post_commit_sha = None\<rparr>]
        (\<lambda>_. Some False), asked)"
  using resume_floor_equals_eager
    [of "\<lambda>_. Inr False :: unit + bool" "\<lambda>_. False"
      "[SCAN \<mapsto> \<lparr>row_status = SUCCEEDED, post_commit_sha = None\<rparr>]"]
  by blast

text \<open>
  A repository that has done nothing holds no evidence at any phase and its floor is \<open>SCAN\<close>:
  with no row, no mirror and no worktree on disk every predicate answers \<open>False\<close> without asking
  Git anything, so no failure of Git can be mistaken for evidence.
\<close>

theorem fresh_repo_has_no_evidence:
  assumes "\<not> mirror_is_initialized fs (re_mirror r)" and "\<not> fs_is_dir fs (re_worktree r)"
  shows "evidence_holds p fs git Map.empty r = Inr False
    \<and> resume_floor Map.empty (\<lambda>q. evidence_holds q fs git Map.empty r) = Inr (Some SCAN, Map.empty)"
proof (intro conjI)
  show "evidence_holds p fs git Map.empty r = Inr False"
    using assms by (cases p)
      (simp_all add: scan_evidence_def transform_evidence_def build_evidence_def
        verify_evidence_def worktree_present_def status_of_def)
  have "phase_floor_lookup Map.empty (lazy_lookup Map.empty) = Inr (Some SCAN)"
    by (simp add: phase_floor_lookup_def frontier_def phases_def status_of_def status_tables)
  then show "resume_floor Map.empty (\<lambda>q. evidence_holds q fs git Map.empty r) = Inr (Some SCAN, Map.empty)"
    by (simp add: resume_floor_def resume_loop_done)
qed

theorem fresh_repo_has_no_evidence_witness:
  "evidence_holds BUILD \<lparr>fs_is_file = \<lambda>_. False, fs_is_dir = \<lambda>_. False, fs_exists = \<lambda>_. False\<rparr>
     \<lparr>git_resolve = \<lambda>_ _. Inl (), git_is_ancestor = \<lambda>_ _ _. Inl ()\<rparr> Map.empty
     (for_repo ''widget'' ''/cache'' ''/work'' ''java/widget'' False) = Inr False"
  using fresh_repo_has_no_evidence
    [of "\<lparr>fs_is_file = \<lambda>_. False, fs_is_dir = \<lambda>_. False, fs_exists = \<lambda>_. False\<rparr>"
      "for_repo ''widget'' ''/cache'' ''/work'' ''java/widget'' False" BUILD
      "\<lparr>git_resolve = \<lambda>_ _. Inl (), git_is_ancestor = \<lambda>_ _ _. Inl ()\<rparr>"]
  by (simp add: mirror_is_initialized_def)

text \<open>
  Un-blocking is fail-closed and loses nothing. The plan has one entry per repository with a
  \<open>blocked_by\<close> row, in order; its removed and remaining names partition the union of that
  repository's rows; and a name is removed only on the strength of a resolved blocker whose rows
  are all \<open>SUCCEEDED\<close> (and of which there is at least one), or, under the stub policy, of one with
  an abandoned row.
\<close>

theorem plan_unblocking_fail_closed:
  "map un_repo_id (plan_unblocking rows blockers floors sb) = sorted_set (map fst rows)
   \<and> (\<forall>u \<in> set (plan_unblocking rows blockers floors sb).
        set (un_removed u) \<union> set (un_remaining u) = (\<Union>ns \<in> {ns. (un_repo_id u, ns) \<in> set rows}. set ns)
        \<and> set (un_removed u) \<inter> set (un_remaining u) = {}
        \<and> un_floor u = floors (un_repo_id u)
        \<and> (\<forall>n. n \<in> set (un_removed u) \<longleftrightarrow>
             n \<in> (\<Union>ns \<in> {ns. (un_repo_id u, ns) \<in> set rows}. set ns)
             \<and> (\<exists>st. blockers n = Some st \<and>
                  (phase_statuses st \<noteq> [] \<and> set (phase_statuses st) = {SUCCEEDED}
                   \<or> sb \<and> REQUIRES_HUMAN_INTERVENTION \<in> set (phase_statuses st)))))"
proof (intro conjI ballI)
  show "map un_repo_id (plan_unblocking rows blockers floors sb) = sorted_set (map fst rows)"
    by (simp add: plan_unblocking_def Let_def comp_def)
next
  fix u assume "u \<in> set (plan_unblocking rows blockers floors sb)"
  then obtain repo where u: "u = \<lparr>un_repo_id = repo,
      un_removed = filter (may_remove blockers sb) (sorted_set (blocked_union rows repo)),
      un_remaining = filter (\<lambda>n. \<not> may_remove blockers sb n) (sorted_set (blocked_union rows repo)),
      un_floor = floors repo\<rparr>"
    by (auto simp: plan_unblocking_def Let_def)
  have all1: "xs \<noteq> [] \<and> (\<forall>s \<in> set xs. s = SUCCEEDED) \<longleftrightarrow> xs \<noteq> [] \<and> set xs = {SUCCEEDED}" for xs
    by (cases xs) auto
  show "set (un_removed u) \<union> set (un_remaining u) = (\<Union>ns \<in> {ns. (un_repo_id u, ns) \<in> set rows}. set ns)"
    and "set (un_removed u) \<inter> set (un_remaining u) = {}"
    and "un_floor u = floors (un_repo_id u)"
    by (auto simp: u blocked_union_set)
  show "\<forall>n. n \<in> set (un_removed u) \<longleftrightarrow>
      n \<in> (\<Union>ns \<in> {ns. (un_repo_id u, ns) \<in> set rows}. set ns)
      \<and> (\<exists>st. blockers n = Some st \<and>
           (phase_statuses st \<noteq> [] \<and> set (phase_statuses st) = {SUCCEEDED}
            \<or> sb \<and> REQUIRES_HUMAN_INTERVENTION \<in> set (phase_statuses st)))"
    unfolding u by (simp add: blocked_union_set may_remove_iff all1 conj_commute)
qed

theorem plan_unblocking_fail_closed_witness:
  "un_removed (hd (plan_unblocking [(''c'', [''dep''])]
     [''dep'' \<mapsto> \<lparr>phase_statuses = [SKIPPED, SUCCEEDED]\<rparr>] Map.empty False)) = []"
proof -
  let ?p = "plan_unblocking [(''c'', [''dep''])]
     [''dep'' \<mapsto> \<lparr>phase_statuses = [SKIPPED, SUCCEEDED]\<rparr>] Map.empty False"
  have "?p \<noteq> []"
    by (simp add: plan_unblocking_def)
  then have "hd ?p \<in> set ?p"
    by simp
  moreover have "un_repo_id (hd ?p) = ''c''"
    by (simp add: plan_unblocking_def Let_def sorted_set_def)
  ultimately have "n \<notin> set (un_removed (hd ?p))" for n
    using plan_unblocking_fail_closed
      [of "[(''c'', [''dep''])]" "[''dep'' \<mapsto> \<lparr>phase_statuses = [SKIPPED, SUCCEEDED]\<rparr>]" Map.empty False]
    by (auto split: if_splits)
  then show ?thesis
    by (metis list.set_intros(1) neq_Nil_conv)
qed

text \<open>
  A slug is never empty and uses only characters that directory and container names accept.
  It does not identify the repository: a trailing hyphen, which the pattern of repository ids
  allows, is stripped, so two enrolled repositories can be given the same mirror directory.
\<close>

lemma safe_hyphen [simp]: "safe_char (CHR ''-'')"
  by (simp add: safe_char_def)

lemma sub_unsafe_safe: "c \<in> set (sub_unsafe b v) \<Longrightarrow> safe_char c"
  by (induction b v rule: sub_unsafe.induct) (auto split: if_splits)

lemma set_dropWhile_subset: "set (dropWhile P xs) \<subseteq> set xs"
  by (induction xs) auto

lemma set_strip_hyphens: "set (strip_hyphens v) \<subseteq> set v"
  unfolding strip_hyphens_def by (metis set_dropWhile_subset set_rev subset_trans)

theorem slug_safe_not_injective:
  "slug v \<noteq> [] \<and> list_all safe_char (slug v)
   \<and> re_mirror (for_repo ''widget'' cache work d b) = re_mirror (for_repo ''widget-'' cache work d b)"
proof (intro conjI)
  show "slug v \<noteq> []"
    by (simp add: slug_def Let_def)
  have u: "list_all safe_char ''unnamed''"
    by code_simp
  have "safe_char c" if c: "c \<in> set (slug v)" for c
  proof (cases "strip_hyphens (sub_unsafe False v) = []")
    case True
    then have "slug v = ''unnamed''" by (simp add: slug_def)
    with c u show ?thesis by (simp only: list_all_iff)
  next
    case False
    with c set_strip_hyphens[of "sub_unsafe False v"] sub_unsafe_safe[of c False v]
    show ?thesis by (auto simp: slug_def Let_def)
  qed
  then show "list_all safe_char (slug v)"
    by (simp add: list_all_iff)
next
  have "slug ''widget'' = slug ''widget-''"
    by code_simp
  then show "re_mirror (for_repo ''widget'' cache work d b) = re_mirror (for_repo ''widget-'' cache work d b)"
    by (simp add: for_repo_def)
qed

end
