(* ===== verification/Stubs.thy ===== *)
theory Stubs
  imports Reentry
begin

text \<open>
  \<open>src/fleet/orchestrator/stubs.py\<close> and the two models it reads from \<open>src/fleet/models/tasks.py\<close>:
  the life of a stub row. Four transitions lead from \<open>ACTIVE\<close> and \<open>SUPERSEDED\<close> to the terminal
  states; the functions here decide them (\<open>supersede\<close>, \<open>settle_revalidation\<close>, \<open>reconcile\<close>,
  \<open>abandon_by_operator\<close>), apply a decision to a row (\<open>apply_decision\<close>), plan the revalidation tasks
  and detect which dependents of an abandoned repository need a stub.

  A decision's \<open>detail\<close> is kept as the values its message interpolates. The digest and the fresh
  identifiers the code takes from its environment are arguments.
\<close>

section \<open>The stub row\<close>

record stub_record =
  stub_id :: string
  stub_run_id :: string
  stub_coord_key :: coord_key
  stub_provider :: repo_id
  stub_consumers :: "repo_id list"
  stub_tier :: stub_fidelity
  stub_pinned :: "string option"
  stub_state_of :: stub_state
  stub_max_rounds :: int
  stub_rounds_spent :: int
  stub_created_at :: instant
  stub_changed_at :: instant

text \<open>The field constraints and \<open>_fidelity_matches_pin\<close>.\<close>

definition stub_valid :: "stub_record \<Rightarrow> bool" where
  "stub_valid r \<longleftrightarrow>
     stub_coord_key r \<noteq> [] \<and> repo_id_ok (stub_provider r) \<and> list_all repo_id_ok (stub_consumers r)
     \<and> 0 \<le> stub_max_rounds r \<and> 0 \<le> stub_rounds_spent r
     \<and> (stub_tier r = PUBLISHED_ARTIFACT_FIDELITY \<longrightarrow> stub_pinned r \<noteq> None)
     \<and> stub_rounds_spent r \<le> stub_max_rounds r"

datatype verdict = PASS | FAIL

record verification_report =
  report_run_id :: string
  report_repo_id :: repo_id
  report_build_ok :: bool
  report_test_ok :: bool
  report_rdeps_query :: string
  report_rdeps_target_count :: int
  report_rdeps_tested :: int
  report_rdeps_ok :: bool
  report_rdeps_truncated :: bool
  report_attempt_ids :: "string list"
  report_verdict :: verdict
  verified_against_stubs :: "coord_key list"
  report_stub_fidelity :: "(coord_key, stub_fidelity) dict"
  report_equivalence :: equivalence
  report_round :: int
  report_generated_at :: instant

definition derive_equivalence :: "verification_report \<Rightarrow> verification_report" where
  "derive_equivalence r =
     r\<lparr>report_equivalence :=
         if verified_against_stubs r \<noteq> [] then STUB_LIMITED
         else if report_rdeps_truncated r then CLOSURE_SAMPLED
         else FULL\<rparr>"

definition report_valid :: "verification_report \<Rightarrow> bool" where
  "report_valid r \<longleftrightarrow>
     repo_id_ok (report_repo_id r) \<and> 0 \<le> report_rdeps_target_count r \<and> 0 \<le> report_rdeps_tested r
     \<and> 0 \<le> report_round r
     \<and> set (map fst (report_stub_fidelity r)) = set (verified_against_stubs r)"

text \<open>Building a report from what a caller supplied: derive, then validate.\<close>

definition verification_report_of :: "verification_report \<Rightarrow> verification_report option" where
  "verification_report_of given =
     (let r = derive_equivalence given in if report_valid r then Some r else None)"

section \<open>Vocabulary\<close>

datatype stub_transition = T1 | T2 | T3 | T4

fun STUB_TRANSITIONS :: "stub_transition \<Rightarrow> stub_state \<times> stub_state" where
  "STUB_TRANSITIONS T1 = (ACTIVE, SUPERSEDED)"
| "STUB_TRANSITIONS T2 = (SUPERSEDED, RESOLVED)"
| "STUB_TRANSITIONS T3 = (SUPERSEDED, ABANDONED)"
| "STUB_TRANSITIONS T4 = (ACTIVE, ABANDONED)"

definition TERMINAL_STATES :: "stub_state set" where
  "TERMINAL_STATES = {RESOLVED, ABANDONED}"

definition OPEN_STATES :: "stub_state set" where
  "OPEN_STATES = {ACTIVE, SUPERSEDED}"

lemmas stub_states = TERMINAL_STATES_def OPEN_STATES_def

datatype abandon_reason =
    AR_STUB_DIVERGED
  | AR_ROUNDS_EXHAUSTED
  | AR_BUDGET_EXHAUSTED
  | AR_END_OF_RUN
  | AR_OPERATOR

datatype stub_finding =
    STUB_ROT
  | STUB_ABANDONED
  | REVALIDATION_BUDGET_EXHAUSTED
  | UNRESOLVED_STUB

datatype revalidation_policy = POLICY_EAGER | POLICY_BATCHED | POLICY_MANUAL

text \<open>One constructor per raise of \<open>InvalidStubTransition\<close>, and the two \<open>ValueError\<close>s of the key.\<close>

datatype stub_error =
    TerminalRow stub_transition
  | WrongProvider
  | MixedConsumers
  | NotSuperseded stub_state
  | NotAConsumer
  | PromotedByReconcile "coord_key list"
  | EmptyReason
  | WrongFromState stub_transition stub_state
  | ReasonIffAbandoned
  | InvalidRow
  | NotTerminal stub_state
  | RoundsExhausted int
  | NoConsumer
  | NegativeRound int
  | NoProviders

record provider_facts =
  facts_repo_id :: repo_id
  facts_status :: repo_status
  facts_pr_state :: "pr_state option"
  facts_pr_created_at :: "instant option"

definition merged :: "provider_facts \<Rightarrow> bool" where
  "merged p \<longleftrightarrow> facts_status p = SUCCEEDED \<and> facts_pr_state p = Some PR_MERGED"

definition pr_open :: "provider_facts \<Rightarrow> bool" where
  "pr_open p \<longleftrightarrow> facts_pr_state p = Some PR_DRAFTED \<or> facts_pr_state p = Some PR_OPEN"

datatype decision_detail =
    ProviderMerged repo_id bool
  | BudgetBreach string
  | StubRotDetail repo_id "string option"
  | RoundPassed int bool
  | RoundsSpent int int
  | EndOfRun repo_id
  | OperatorAbandon string

record stub_decision =
  dcn_coord_key :: coord_key
  dcn_consumer :: repo_id
  dcn_provider :: repo_id
  dcn_transition :: stub_transition
  dcn_from :: stub_state
  dcn_to :: stub_state
  dcn_consumer_status :: repo_status
  dcn_detail :: decision_detail
  dcn_abandon_reason :: "abandon_reason option"
  dcn_finding :: "stub_finding option"
  dcn_round :: int

definition promotes_consumer :: "stub_decision \<Rightarrow> bool" where
  "promotes_consumer d \<longleftrightarrow> dcn_consumer_status d = SUCCEEDED"

record revalidation_plan =
  plan_consumer :: repo_id
  plan_providers :: "repo_id list"
  plan_round :: int
  plan_key :: string
  plan_coord_keys :: "coord_key list"

record held_stub =
  held_coord_key :: coord_key
  held_consumer :: repo_id
  held_provider :: repo_id

record reconcile_outcome =
  rec_decisions :: "stub_decision list"
  rec_held :: "held_stub list"
  rec_degraded :: "repo_id list"

section \<open>Helpers\<close>

definition consumers_of :: "stub_record \<Rightarrow> stub_error + repo_id list" where
  "consumers_of stub = (if stub_consumers stub = [] then Inl NoConsumer else Inr (stub_consumers stub))"

definition refuse_terminal :: "stub_record \<Rightarrow> stub_transition \<Rightarrow> stub_error + unit" where
  "refuse_terminal stub t =
     (if stub_state_of stub \<in> TERMINAL_STATES then Inl (TerminalRow t) else Inr ())"

text \<open>Ages are compared in seconds; an instant is in microseconds.\<close>

definition awaiting_merge :: "provider_facts \<Rightarrow> instant option \<Rightarrow> rat option \<Rightarrow> bool" where
  "awaiting_merge provider now open_pr_max_age_s =
     (if \<not> pr_open provider then False
      else case (now, open_pr_max_age_s) of
        (Some t, Some age) \<Rightarrow>
          (case facts_pr_created_at provider of
             None \<Rightarrow> True
           | Some created \<Rightarrow> of_int (t - created) / 1000000 \<le> age)
      | _ \<Rightarrow> True)"

section \<open>The idempotency key\<close>

definition revalidation_key ::
  "(string \<Rightarrow> string) \<Rightarrow> int \<Rightarrow> repo_id list \<Rightarrow> stub_error + string" where
  "revalidation_key sha256_text round_index provider_repo_ids =
     (if round_index < 0 then Inl (NegativeRound round_index)
      else let ids = sorted_set provider_repo_ids in
        if ids = [] then Inl NoProviders
        else let digest = sha256_text (join CHR ''\<newline>'' ids) in
          Inr (CHR ''r'' # show_int round_index @ CHR '':'' # digest))"

section \<open>T1\<close>

definition supersede ::
  "stub_record \<Rightarrow> provider_facts \<Rightarrow> revalidation_policy \<Rightarrow> bool \<Rightarrow> stub_error + stub_decision list"
where
  "supersede stub provider policy operator_triggered =
     rbind (refuse_terminal stub T1) (\<lambda>_.
     if stub_state_of stub = SUPERSEDED then Inr []
     else if stub_provider stub \<noteq> facts_repo_id provider then Inl WrongProvider
     else if \<not> merged provider then Inr []
     else if policy = POLICY_MANUAL \<and> \<not> operator_triggered then Inr []
     else rbind (consumers_of stub) (\<lambda>consumers.
       Inr (map (\<lambda>consumer.
         \<lparr>dcn_coord_key = stub_coord_key stub, dcn_consumer = consumer,
          dcn_provider = stub_provider stub, dcn_transition = T1, dcn_from = ACTIVE,
          dcn_to = SUPERSEDED, dcn_consumer_status = DEGRADED,
          dcn_detail = ProviderMerged (facts_repo_id provider) operator_triggered,
          dcn_abandon_reason = None, dcn_finding = None,
          dcn_round = stub_rounds_spent stub + 1\<rparr>) consumers)))"

definition plan_revalidation ::
  "(string \<Rightarrow> string) \<Rightarrow> repo_id \<Rightarrow> stub_decision list \<Rightarrow> revalidation_policy \<Rightarrow> bool
   \<Rightarrow> stub_error + revalidation_plan list" where
  "plan_revalidation sha256_text consumer_repo_id superseded policy operator_triggered =
     (let rows = filter (\<lambda>d. dcn_transition d = T1) superseded in
      if rows = [] then Inr []
      else if list_ex (\<lambda>d. dcn_consumer d \<noteq> consumer_repo_id) rows then Inl MixedConsumers
      else if policy = POLICY_MANUAL \<and> \<not> operator_triggered then Inr []
      else if policy = POLICY_EAGER then
        traverse (\<lambda>d.
          rbind (revalidation_key sha256_text (dcn_round d) [dcn_provider d]) (\<lambda>key.
            Inr \<lparr>plan_consumer = consumer_repo_id, plan_providers = [dcn_provider d],
                 plan_round = dcn_round d, plan_key = key,
                 plan_coord_keys = [dcn_coord_key d]\<rparr>)) rows
      else
        let providers = sorted_set (map dcn_provider rows);
            round_index = Max (set (map dcn_round rows)) in
          rbind (revalidation_key sha256_text round_index providers) (\<lambda>key.
            Inr [\<lparr>plan_consumer = consumer_repo_id, plan_providers = providers,
                  plan_round = round_index, plan_key = key,
                  plan_coord_keys = sort (map dcn_coord_key rows)\<rparr>]))"

section \<open>T2 and T3\<close>

definition settle_revalidation ::
  "stub_record \<Rightarrow> verification_report \<Rightarrow> (coord_key, stub_state) dict option
   \<Rightarrow> failure_class option \<Rightarrow> string option \<Rightarrow> stub_error + stub_decision option" where
  "settle_revalidation stub report sibling_states failure budget_breach =
     (if stub_state_of stub \<noteq> SUPERSEDED then Inl (NotSuperseded (stub_state_of stub))
      else rbind (consumers_of stub) (\<lambda>consumers.
        if report_repo_id report \<notin> set consumers then Inl NotAConsumer
        else
          let round_index = max (stub_rounds_spent stub) (report_round report);
              base = \<lparr>dcn_coord_key = stub_coord_key stub,
                      dcn_consumer = report_repo_id report,
                      dcn_provider = stub_provider stub, dcn_transition = T3,
                      dcn_from = SUPERSEDED, dcn_to = ABANDONED, dcn_consumer_status = DEGRADED,
                      dcn_detail = RoundsSpent round_index (stub_max_rounds stub),
                      dcn_abandon_reason = Some AR_ROUNDS_EXHAUSTED,
                      dcn_finding = Some REVALIDATION_BUDGET_EXHAUSTED,
                      dcn_round = round_index\<rparr> in
          case budget_breach of
            Some breach \<Rightarrow>
              Inr (Some (base\<lparr>dcn_detail := BudgetBreach breach,
                              dcn_abandon_reason := Some AR_BUDGET_EXHAUSTED\<rparr>))
          | None \<Rightarrow>
              if failure = Some STUB_DIVERGED then
                Inr (Some (base\<lparr>dcn_consumer_status := REQUIRES_HUMAN_INTERVENTION,
                                dcn_detail := StubRotDetail (stub_provider stub) (stub_pinned stub),
                                dcn_abandon_reason := Some AR_STUB_DIVERGED,
                                dcn_finding := Some STUB_ROT\<rparr>))
              else if report_verdict report = PASS \<and> verified_against_stubs report = [] then
                let others = filter (\<lambda>e. fst e \<noteq> stub_coord_key stub)
                               (case sibling_states of None \<Rightarrow> [] | Some m \<Rightarrow> m);
                    all_clear = list_all (\<lambda>e. snd e = RESOLVED) others in
                  Inr (Some (base\<lparr>dcn_transition := T2, dcn_to := RESOLVED,
                                  dcn_consumer_status :=
                                    (if all_clear then SUCCEEDED else DEGRADED),
                                  dcn_detail := RoundPassed round_index all_clear,
                                  dcn_abandon_reason := None, dcn_finding := None\<rparr>))
              else if round_index \<ge> stub_max_rounds stub then Inr (Some base)
              else Inr None))"

section \<open>T3 and T4: reconciliation and the operator\<close>

definition end_of_run_decision :: "stub_record \<Rightarrow> repo_id \<Rightarrow> stub_decision" where
  "end_of_run_decision stub consumer =
     \<lparr>dcn_coord_key = stub_coord_key stub, dcn_consumer = consumer,
      dcn_provider = stub_provider stub,
      dcn_transition = (if stub_state_of stub = ACTIVE then T4 else T3),
      dcn_from = stub_state_of stub, dcn_to = ABANDONED,
      dcn_consumer_status = DEGRADED,
      dcn_detail = EndOfRun (stub_provider stub),
      dcn_abandon_reason = Some AR_END_OF_RUN,
      dcn_finding = Some UNRESOLVED_STUB,
      dcn_round = stub_rounds_spent stub\<rparr>"

definition held_row :: "stub_record \<Rightarrow> repo_id \<Rightarrow> held_stub" where
  "held_row stub consumer =
     \<lparr>held_coord_key = stub_coord_key stub, held_consumer = consumer,
      held_provider = stub_provider stub\<rparr>"

definition held_for_merge ::
  "(repo_id \<rightharpoonup> provider_facts) \<Rightarrow> instant option \<Rightarrow> rat option \<Rightarrow> stub_record \<Rightarrow> bool" where
  "held_for_merge providers now age stub =
     (case providers (stub_provider stub) of
        None \<Rightarrow> False | Some provider \<Rightarrow> awaiting_merge provider now age)"

text \<open>\<open>if consumer not in degraded: degraded.append(consumer)\<close>\<close>

definition append_new :: "'a \<Rightarrow> 'a list \<Rightarrow> 'a list" where
  "append_new x xs = (if x \<in> set xs then xs else xs @ [x])"

fun reconcile_loop ::
  "stub_record list \<Rightarrow> (repo_id \<rightharpoonup> provider_facts) \<Rightarrow> instant option \<Rightarrow> rat option
   \<Rightarrow> reconcile_outcome \<Rightarrow> stub_error + reconcile_outcome" where
  "reconcile_loop [] providers now age acc = Inr acc"
| "reconcile_loop (stub # rows) providers now age acc =
     (if stub_state_of stub \<notin> OPEN_STATES then reconcile_loop rows providers now age acc
      else rbind (consumers_of stub) (\<lambda>consumers.
        reconcile_loop rows providers now age
          (if held_for_merge providers now age stub then
             acc\<lparr>rec_held := rec_held acc @ map (held_row stub) consumers\<rparr>
           else
             acc\<lparr>rec_decisions := rec_decisions acc @ map (end_of_run_decision stub) consumers,
                 rec_degraded := fold append_new consumers (rec_degraded acc)\<rparr>)))"

definition reconcile ::
  "stub_record list \<Rightarrow> (repo_id \<rightharpoonup> provider_facts) \<Rightarrow> instant option \<Rightarrow> rat option
   \<Rightarrow> stub_error + reconcile_outcome" where
  "reconcile rows providers now open_pr_max_age_s =
     rbind (reconcile_loop rows providers now open_pr_max_age_s
              \<lparr>rec_decisions = [], rec_held = [], rec_degraded = []\<rparr>) (\<lambda>out.
       let promoted = map dcn_coord_key (filter promotes_consumer (rec_decisions out)) in
       if promoted \<noteq> [] then Inl (PromotedByReconcile (sort promoted)) else Inr out)"

definition abandon_by_operator ::
  "stub_record \<Rightarrow> repo_id \<Rightarrow> string \<Rightarrow> stub_error + stub_decision" where
  "abandon_by_operator stub consumer reason =
     rbind (refuse_terminal stub T4) (\<lambda>_.
     rbind (consumers_of stub) (\<lambda>consumers.
       if consumer \<notin> set consumers then Inl NotAConsumer
       else if strip reason = [] then Inl EmptyReason
       else Inr \<lparr>dcn_coord_key = stub_coord_key stub, dcn_consumer = consumer,
                 dcn_provider = stub_provider stub,
                 dcn_transition = (if stub_state_of stub = ACTIVE then T4 else T3),
                 dcn_from = stub_state_of stub, dcn_to = ABANDONED,
                 dcn_consumer_status = DEGRADED,
                 dcn_detail = OperatorAbandon (strip reason),
                 dcn_abandon_reason = Some AR_OPERATOR,
                 dcn_finding = Some STUB_ABANDONED,
                 dcn_round = stub_rounds_spent stub\<rparr>))"

section \<open>Applying a decision\<close>

definition apply_decision :: "stub_record \<Rightarrow> stub_decision \<Rightarrow> instant \<Rightarrow> stub_error + stub_record" where
  "apply_decision stub decision now =
     (let edge = STUB_TRANSITIONS (dcn_transition decision) in
      if stub_state_of stub \<noteq> fst edge
      then Inl (WrongFromState (dcn_transition decision) (stub_state_of stub))
      else if (dcn_to decision = ABANDONED) \<noteq> (dcn_abandon_reason decision \<noteq> None)
      then Inl ReasonIffAbandoned
      else
        let rounds = (if dcn_transition decision \<in> {T2, T3}
                      then max (stub_rounds_spent stub) (dcn_round decision)
                      else stub_rounds_spent stub);
            row = stub\<lparr>stub_state_of := snd edge, stub_rounds_spent := rounds,
                       stub_changed_at := now\<rparr> in
        if stub_valid row then Inr row else Inl InvalidRow)"

definition next_round_record :: "stub_record \<Rightarrow> instant \<Rightarrow> string \<Rightarrow> stub_error + stub_record" where
  "next_round_record stub now uuid4 =
     (if stub_state_of stub \<notin> TERMINAL_STATES then Inl (NotTerminal (stub_state_of stub))
      else let nxt = stub_rounds_spent stub + 1 in
        if nxt > stub_max_rounds stub then Inl (RoundsExhausted nxt)
        else Inr (stub\<lparr>stub_id := uuid4, stub_state_of := ACTIVE, stub_rounds_spent := nxt,
                       stub_created_at := now, stub_changed_at := now\<rparr>))"

section \<open>Creating stubs\<close>

record stub_trigger =
  trig_consumer :: repo_id
  trig_provider :: repo_id
  trig_coord_key :: coord_key

record inherited_stub_fact =
  inh_provider :: repo_id
  inh_coord_key :: coord_key
  inh_fidelity :: stub_fidelity

definition trigger_key :: "stub_trigger \<Rightarrow> repo_id \<times> repo_id \<times> coord_key" where
  "trigger_key t = (trig_consumer t, trig_provider t, trig_coord_key t)"

text \<open>\<open>seen\<close> holds exactly the keys of \<open>found\<close>, so one list serves for both.\<close>

definition add_trigger :: "stub_trigger \<Rightarrow> stub_trigger list \<Rightarrow> stub_trigger list" where
  "add_trigger t found = (if trigger_key t \<in> trigger_key ` set found then found else found @ [t])"

definition edge_triggers ::
  "repo_id list \<Rightarrow> (string \<rightharpoonup> blocker_state) \<Rightarrow> (string \<Rightarrow> inherited_stub_fact list)
   \<Rightarrow> string \<times> string \<times> string \<Rightarrow> stub_trigger list" where
  "edge_triggers dispatched provider_states inherited e =
     (case e of (provider_id, consumer_id, coord_key) \<Rightarrow>
        if consumer_id \<notin> set dispatched then []
        else if (case provider_states provider_id of
                   None \<Rightarrow> False
                 | Some st \<Rightarrow> REQUIRES_HUMAN_INTERVENTION \<in> set (phase_statuses st))
        then [\<lparr>trig_consumer = consumer_id, trig_provider = provider_id,
               trig_coord_key = coord_key\<rparr>]
        else map (\<lambda>fact. \<lparr>trig_consumer = consumer_id, trig_provider = inh_provider fact,
                          trig_coord_key = inh_coord_key fact\<rparr>)
               (filter (\<lambda>fact. inh_fidelity fact \<noteq> EMPTY_FAILING) (inherited provider_id)))"

definition detect_stub_triggers ::
  "repo_id list \<Rightarrow> (string \<times> string \<times> string) list \<Rightarrow> (string \<rightharpoonup> blocker_state)
   \<Rightarrow> (string \<Rightarrow> inherited_stub_fact list) \<Rightarrow> stub_trigger list" where
  "detect_stub_triggers dispatched edges provider_states inherited =
     sort_key trigger_key
       (fold (\<lambda>e found. fold add_trigger (edge_triggers dispatched provider_states inherited e) found)
          edges [])"

definition build_stub_record ::
  "string \<Rightarrow> string \<Rightarrow> repo_id \<Rightarrow> repo_id \<Rightarrow> coord_key \<Rightarrow> string option \<Rightarrow> int \<Rightarrow> instant
   \<Rightarrow> stub_error + stub_record" where
  "build_stub_record uuid4 run_id consumer provider coord pinned max_rounds now =
     (let r = \<lparr>stub_id = uuid4, stub_run_id = run_id, stub_coord_key = coord,
               stub_provider = provider, stub_consumers = [consumer],
               stub_tier = (if pinned = None then EMPTY_FAILING else PUBLISHED_ARTIFACT_FIDELITY),
               stub_pinned = pinned, stub_state_of = ACTIVE, stub_max_rounds = max_rounds,
               stub_rounds_spent = 0, stub_created_at = now, stub_changed_at = now\<rparr> in
      if stub_valid r then Inr r else Inl InvalidRow)"

section \<open>Laws of a row\<close>

lemma apply_decision_Inr_iff:
  "apply_decision stub d now = Inr row \<longleftrightarrow>
     stub_state_of stub = fst (STUB_TRANSITIONS (dcn_transition d))
     \<and> (dcn_to d = ABANDONED \<longleftrightarrow> dcn_abandon_reason d \<noteq> None)
     \<and> row = stub\<lparr>stub_state_of := snd (STUB_TRANSITIONS (dcn_transition d)),
                 stub_rounds_spent :=
                   (if dcn_transition d \<in> {T2, T3}
                    then max (stub_rounds_spent stub) (dcn_round d) else stub_rounds_spent stub),
                 stub_changed_at := now\<rparr>
     \<and> stub_valid row"
  by (auto simp: apply_decision_def Let_def)

fun life_rank :: "stub_state \<Rightarrow> nat" where
  "life_rank ACTIVE = 2"
| "life_rank SUPERSEDED = 1"
| "life_rank RESOLVED = 0"
| "life_rank ABANDONED = 0"

lemma transitions_rank:
  "life_rank (snd (STUB_TRANSITIONS t)) < life_rank (fst (STUB_TRANSITIONS t))"
  by (cases t) simp_all

lemma transitions_open: "fst (STUB_TRANSITIONS t) \<notin> TERMINAL_STATES"
  by (cases t) (simp_all add: stub_states)

type_synonym stub_write = "stub_decision \<times> instant"

definition put_stub :: "stub_record \<Rightarrow> stub_write \<Rightarrow> stub_error + stub_record" where
  "put_stub row w = apply_decision row (fst w) (snd w)"

text \<open>What no write changes about a row, and the one counter that only grows.\<close>

definition same_stub :: "stub_record \<Rightarrow> stub_record \<Rightarrow> bool" where
  "same_stub r0 r \<longleftrightarrow>
     (\<exists>st n t. stub_rounds_spent r0 \<le> n
        \<and> r = r0\<lparr>stub_state_of := st, stub_rounds_spent := n, stub_changed_at := t\<rparr>)"

lemma same_stub_refl: "same_stub r r"
  unfolding same_stub_def
  by (rule exI[of _ "stub_state_of r"], rule exI[of _ "stub_rounds_spent r"],
      rule exI[of _ "stub_changed_at r"]) simp

lemma same_stub_update:
  assumes "same_stub r0 r" and "stub_rounds_spent r \<le> n"
  shows "same_stub r0 (r\<lparr>stub_state_of := st, stub_rounds_spent := n, stub_changed_at := t\<rparr>)"
proof -
  from assms(1) obtain st' n' t' where "stub_rounds_spent r0 \<le> n'"
    and "r = r0\<lparr>stub_state_of := st', stub_rounds_spent := n', stub_changed_at := t'\<rparr>"
    unfolding same_stub_def by blast
  with assms(2) show ?thesis
    unfolding same_stub_def by (intro exI[of _ st] exI[of _ n] exI[of _ t]) simp
qed

lemma same_stub_apply:
  assumes "apply_decision r d t = Inr r'" and "same_stub r0 r"
  shows "same_stub r0 r'"
proof -
  let ?n = "if dcn_transition d \<in> {T2, T3} then max (stub_rounds_spent r) (dcn_round d)
            else stub_rounds_spent r"
  have "r' = r\<lparr>stub_state_of := snd (STUB_TRANSITIONS (dcn_transition d)),
               stub_rounds_spent := ?n, stub_changed_at := t\<rparr>"
    using assms(1) unfolding apply_decision_Inr_iff by blast
  moreover have "stub_rounds_spent r \<le> ?n"
    by simp
  ultimately show ?thesis
    using same_stub_update[OF assms(2)] by blast
qed

interpretation stub_row: ranked_gate put_stub "\<lambda>_. True"
  "\<lambda>r. stub_state_of r \<in> TERMINAL_STATES" stub_valid "\<lambda>r. life_rank (stub_state_of r)"
  by unfold_locales
     (auto simp: put_stub_def apply_decision_Inr_iff transitions_open transitions_rank)

interpretation stub_identity: write_gate put_stub "\<lambda>_. True"
  "\<lambda>r. stub_state_of r \<in> TERMINAL_STATES" "same_stub r0" for r0
  by unfold_locales
     (use stub_row.absorbing_write in blast, metis put_stub_def same_stub_apply)

lemma life_rank_le: "life_rank st \<le> 2"
  by (cases st) simp_all

text \<open>
  C33: Whatever sequence of decisions is applied to a stub row, the row stays well formed (its
  rounds within its cap), only its state, its round counter and its time stamp ever change and the
  counter never goes down, at most two decisions are accepted, and a row that has reached
  \<open>RESOLVED\<close> or \<open>ABANDONED\<close> never changes again.
\<close>

theorem stub_life_bounded:
  assumes "stub_valid row"
  shows "stub_valid (replay put_stub row ws)
    \<and> same_stub row (replay put_stub row ws)
    \<and> accepted put_stub row ws \<le> 2
    \<and> (stub_state_of (replay put_stub row us) \<in> TERMINAL_STATES \<longrightarrow>
         replay put_stub row (us @ vs) = replay put_stub row us)"
proof (intro conjI impI)
  show "stub_valid (replay put_stub row ws)"
    using assms by (rule stub_row.replay_invar) simp
  show "same_stub row (replay put_stub row ws)"
    by (rule stub_identity.replay_invar) (simp_all add: same_stub_refl)
  show "accepted put_stub row ws \<le> 2"
    using stub_row.accepted_le_rank[of ws row] life_rank_le[of "stub_state_of row"] by simp
  show "replay put_stub row (us @ vs) = replay put_stub row us"
    if "stub_state_of (replay put_stub row us) \<in> TERMINAL_STATES"
    using that by (rule stub_row.replay_frozen) simp
qed

definition sample_stub :: stub_record where
  "sample_stub =
     \<lparr>stub_id = ''s1'', stub_run_id = ''r1'', stub_coord_key = ''maven:acme:lib'',
      stub_provider = ''lib'', stub_consumers = [''app'', ''web''],
      stub_tier = PUBLISHED_ARTIFACT_FIDELITY, stub_pinned = Some ''1.2'', stub_state_of = ACTIVE,
      stub_max_rounds = 2, stub_rounds_spent = 0, stub_created_at = 0, stub_changed_at = 0\<rparr>"

lemma sample_stub_valid: "stub_valid sample_stub"
  by code_simp

theorem stub_life_bounded_witness:
  "stub_valid (replay put_stub sample_stub [(end_of_run_decision sample_stub ''app'', 5)])
   \<and> stub_state_of (replay put_stub sample_stub [(end_of_run_decision sample_stub ''app'', 5)])
       = ABANDONED"
proof
  show "stub_valid (replay put_stub sample_stub [(end_of_run_decision sample_stub ''app'', 5)])"
    using stub_life_bounded[OF sample_stub_valid] by blast
  show "stub_state_of (replay put_stub sample_stub [(end_of_run_decision sample_stub ''app'', 5)])
       = ABANDONED"
    by code_simp
qed

section \<open>Decisions\<close>

lemma consumers_of_Inr_iff [simp]:
  "consumers_of stub = Inr cs \<longleftrightarrow> stub_consumers stub \<noteq> [] \<and> cs = stub_consumers stub"
  by (auto simp: consumers_of_def)

lemma refuse_terminal_Inr_iff [simp]:
  "refuse_terminal stub t = Inr u \<longleftrightarrow> stub_state_of stub \<in> OPEN_STATES"
  by (cases "stub_state_of stub") (auto simp: refuse_terminal_def stub_states)

text \<open>The trigger of T1.\<close>

definition supersede_due :: "stub_record \<Rightarrow> provider_facts \<Rightarrow> revalidation_policy \<Rightarrow> bool \<Rightarrow> bool" where
  "supersede_due stub provider policy op \<longleftrightarrow>
     stub_state_of stub = ACTIVE \<and> merged provider \<and> (policy = POLICY_MANUAL \<longrightarrow> op)"

lemma supersede_Inr_cases:
  assumes "supersede stub provider policy op = Inr ds"
  shows "(ds = [] \<and> \<not> supersede_due stub provider policy op)
    \<or> (supersede_due stub provider policy op \<and> stub_provider stub = facts_repo_id provider
       \<and> stub_consumers stub \<noteq> []
       \<and> ds = map (\<lambda>c. \<lparr>dcn_coord_key = stub_coord_key stub, dcn_consumer = c,
            dcn_provider = stub_provider stub, dcn_transition = T1, dcn_from = ACTIVE,
            dcn_to = SUPERSEDED, dcn_consumer_status = DEGRADED,
            dcn_detail = ProviderMerged (facts_repo_id provider) op,
            dcn_abandon_reason = None, dcn_finding = None,
            dcn_round = stub_rounds_spent stub + 1\<rparr>) (stub_consumers stub))"
  using assms
  by (auto simp: supersede_def rbind_Inr_iff supersede_due_def stub_states split: if_splits)

lemma supersede_dcn:
  assumes "supersede stub provider policy op = Inr ds" and "d \<in> set ds"
  shows "dcn_transition d = T1" and "dcn_to d = SUPERSEDED" and "dcn_abandon_reason d = None"
    and "dcn_consumer_status d = DEGRADED" and "dcn_round d = stub_rounds_spent stub + 1"
    and "stub_state_of stub = ACTIVE"
  using supersede_Inr_cases[OF assms(1)] assms(2) by (auto simp: supersede_due_def)

lemma apply_T1:
  assumes "stub_valid stub" and "stub_state_of stub = ACTIVE" and "dcn_transition d = T1"
    and "dcn_to d = SUPERSEDED" and "dcn_abandon_reason d = None"
  shows "apply_decision stub d now =
    Inr (stub\<lparr>stub_state_of := SUPERSEDED, stub_changed_at := now\<rparr>)"
  using assms by (simp add: apply_decision_def stub_valid_def)

lemma settle_shape:
  assumes "settle_revalidation stub report sib failure breach = Inr (Some d)"
  shows "stub_state_of stub = SUPERSEDED"
    and "dcn_transition d \<in> {T2, T3}" and "dcn_to d = snd (STUB_TRANSITIONS (dcn_transition d))"
    and "dcn_to d = ABANDONED \<longleftrightarrow> dcn_abandon_reason d \<noteq> None"
    and "dcn_round d = max (stub_rounds_spent stub) (report_round report)"
  using assms
  by (auto simp: settle_revalidation_def rbind_Inr_iff Let_def split: if_splits option.splits)

text \<open>
  \<open>supersede\<close> acts exactly when the row is active, the provider both succeeded and has its
  pull request merged, and the policy lets it (under \<open>manual\<close>, only the operator); it then returns
  one decision per consumer row, each of which applies to the row, making it \<open>SUPERSEDED\<close> and
  leaving the round counter alone. Replaying it on the superseded row does nothing.
\<close>

theorem supersede_fires_exactly:
  assumes "stub_valid stub" and "supersede stub provider policy op = Inr ds"
    and "stub_consumers stub \<noteq> []"
  shows "(ds \<noteq> [] \<longleftrightarrow> supersede_due stub provider policy op)
    \<and> (ds \<noteq> [] \<longrightarrow> map dcn_consumer ds = stub_consumers stub)
    \<and> (\<forall>d \<in> set ds. dcn_consumer_status d = DEGRADED
         \<and> apply_decision stub d now =
             Inr (stub\<lparr>stub_state_of := SUPERSEDED, stub_changed_at := now\<rparr>))
    \<and> supersede (stub\<lparr>stub_state_of := SUPERSEDED, stub_changed_at := now\<rparr>) provider policy op
        = Inr []"
proof (intro conjI ballI)
  show "ds \<noteq> [] \<longleftrightarrow> supersede_due stub provider policy op"
    using supersede_Inr_cases[OF assms(2)] assms(3) by auto
  show "ds \<noteq> [] \<longrightarrow> map dcn_consumer ds = stub_consumers stub"
    using supersede_Inr_cases[OF assms(2)] by (auto simp: comp_def)
  show "supersede (stub\<lparr>stub_state_of := SUPERSEDED, stub_changed_at := now\<rparr>) provider policy op
        = Inr []"
    by (simp add: supersede_def refuse_terminal_def stub_states)
qed (use supersede_dcn[OF assms(2)] apply_T1[OF assms(1)] in auto)

definition merged_lib :: provider_facts where
  "merged_lib = \<lparr>facts_repo_id = ''lib'', facts_status = SUCCEEDED,
                 facts_pr_state = Some PR_MERGED, facts_pr_created_at = Some 0\<rparr>"

theorem supersede_fires_exactly_witness:
  "\<exists>ds. supersede sample_stub merged_lib POLICY_BATCHED False = Inr ds
     \<and> map dcn_consumer ds = [''app'', ''web'']"
proof -
  obtain ds where ds: "supersede sample_stub merged_lib POLICY_BATCHED False = Inr ds"
    by (simp add: supersede_def refuse_terminal_def sample_stub_def merged_lib_def merged_def
        consumers_of_def stub_states)
  have "supersede_due sample_stub merged_lib POLICY_BATCHED False"
    and "stub_consumers sample_stub = [''app'', ''web'']"
    by (simp_all add: supersede_due_def sample_stub_def merged_lib_def merged_def)
  with supersede_fires_exactly[OF sample_stub_valid ds] show ?thesis
    using ds by auto
qed

text \<open>
  C25: Only a clean round promotes. Of all decisions the module takes, the one that makes the
  consumer \<open>SUCCEEDED\<close> is a settled round with no budget breach, no divergence, a \<open>PASS\<close> that
  names no stub, and every other stub of the consumer already \<open>RESOLVED\<close>; only a divergence sends
  the consumer to a human, and superseding, reconciling or abandoning always leave it \<open>DEGRADED\<close>.
\<close>

theorem only_a_clean_round_promotes:
  "(\<forall>d. settle_revalidation stub report (Some siblings) failure breach = Inr (Some d) \<longrightarrow>
      (promotes_consumer d \<longleftrightarrow>
         breach = None \<and> failure \<noteq> Some STUB_DIVERGED \<and> report_verdict report = PASS
         \<and> verified_against_stubs report = []
         \<and> (\<forall>(k, st) \<in> set siblings. k = stub_coord_key stub \<or> st = RESOLVED))
      \<and> (dcn_consumer_status d = REQUIRES_HUMAN_INTERVENTION \<longleftrightarrow>
           breach = None \<and> failure = Some STUB_DIVERGED)
      \<and> (dcn_consumer_status d = SUCCEEDED \<longrightarrow> dcn_transition d = T2))
   \<and> (\<forall>ds. supersede stub provider policy op = Inr ds \<longrightarrow>
        (\<forall>d \<in> set ds. dcn_consumer_status d = DEGRADED))
   \<and> (\<forall>d. abandon_by_operator stub consumer reason = Inr d \<longrightarrow> dcn_consumer_status d = DEGRADED)
   \<and> dcn_consumer_status (end_of_run_decision stub consumer) = DEGRADED"
proof (intro conjI allI impI ballI)
  fix d assume *: "settle_revalidation stub report (Some siblings) failure breach = Inr (Some d)"
  show "promotes_consumer d \<longleftrightarrow>
         breach = None \<and> failure \<noteq> Some STUB_DIVERGED \<and> report_verdict report = PASS
         \<and> verified_against_stubs report = []
         \<and> (\<forall>(k, st) \<in> set siblings. k = stub_coord_key stub \<or> st = RESOLVED)"
    and "dcn_consumer_status d = REQUIRES_HUMAN_INTERVENTION \<longleftrightarrow>
           breach = None \<and> failure = Some STUB_DIVERGED"
    and "dcn_consumer_status d = SUCCEEDED \<Longrightarrow> dcn_transition d = T2"
    using * by (auto simp: settle_revalidation_def rbind_Inr_iff Let_def promotes_consumer_def
        list_all_iff split: if_splits option.splits)
next
  fix ds d assume "supersede stub provider policy op = Inr ds" and "d \<in> set ds"
  then show "dcn_consumer_status d = DEGRADED"
    by (rule supersede_dcn)
qed (auto simp: abandon_by_operator_def end_of_run_decision_def rbind_Inr_iff split: if_splits)

definition clean_report :: verification_report where
  "clean_report =
     \<lparr>report_run_id = ''r1'', report_repo_id = ''app'', report_build_ok = True,
      report_test_ok = True, report_rdeps_query = '''', report_rdeps_target_count = 0,
      report_rdeps_tested = 0, report_rdeps_ok = True, report_rdeps_truncated = False,
      report_attempt_ids = [], report_verdict = PASS, verified_against_stubs = [],
      report_stub_fidelity = [], report_equivalence = FULL, report_round = 1,
      report_generated_at = 9\<rparr>"

theorem only_a_clean_round_promotes_witness:
  "\<exists>d. settle_revalidation (sample_stub\<lparr>stub_state_of := SUPERSEDED\<rparr>) clean_report
         (Some [(''other'', ACTIVE)]) None None = Inr (Some d)
       \<and> \<not> promotes_consumer d"
proof -
  obtain d where d: "settle_revalidation (sample_stub\<lparr>stub_state_of := SUPERSEDED\<rparr>) clean_report
         (Some [(''other'', ACTIVE)]) None None = Inr (Some d)"
    by (simp add: settle_revalidation_def sample_stub_def clean_report_def consumers_of_def)
  with only_a_clean_round_promotes[of "sample_stub\<lparr>stub_state_of := SUPERSEDED\<rparr>" clean_report
         "[(''other'', ACTIVE)]" None None]
  have "\<not> promotes_consumer d"
    by (simp add: sample_stub_def)
  with d show ?thesis by blast
qed

section \<open>Rounds\<close>

lemma settle_cases:
  assumes "stub_state_of stub = SUPERSEDED"
    and "report_repo_id report \<in> set (stub_consumers stub)"
  shows "settle_revalidation stub report sib failure breach = Inr None \<longleftrightarrow>
      breach = None \<and> failure \<noteq> Some STUB_DIVERGED
      \<and> \<not> (report_verdict report = PASS \<and> verified_against_stubs report = [])
      \<and> max (stub_rounds_spent stub) (report_round report) < stub_max_rounds stub"
    and "\<exists>r. settle_revalidation stub report sib failure breach = Inr r"
proof -
  have "stub_consumers stub \<noteq> []"
    using assms(2) by auto
  note facts = this assms settle_revalidation_def consumers_of_def Let_def
  show "settle_revalidation stub report sib failure breach = Inr None \<longleftrightarrow>
      breach = None \<and> failure \<noteq> Some STUB_DIVERGED
      \<and> \<not> (report_verdict report = PASS \<and> verified_against_stubs report = [])
      \<and> max (stub_rounds_spent stub) (report_round report) < stub_max_rounds stub"
    by (cases breach) (auto simp: facts)
  show "\<exists>r. settle_revalidation stub report sib failure breach = Inr r"
    by (cases breach) (simp_all add: facts)
qed

lemma apply_settled:
  assumes "stub_valid stub"
    and "settle_revalidation stub report sib failure breach = Inr (Some d)"
  shows "apply_decision stub d now =
    (if report_round report \<le> stub_max_rounds stub
     then Inr (stub\<lparr>stub_state_of := dcn_to d,
                    stub_rounds_spent := max (stub_rounds_spent stub) (report_round report),
                    stub_changed_at := now\<rparr>)
     else Inl InvalidRow)"
proof -
  note s = settle_shape[OF assms(2)]
  have "stub_state_of stub = fst (STUB_TRANSITIONS (dcn_transition d))"
    using s by auto
  with s assms(1) show ?thesis
    by (auto simp: apply_decision_def Let_def stub_valid_def)
qed

text \<open>
  A revalidation round always ends a stub that has no round left, and its outcome can be
  recorded exactly while the round is within the cap: the row then takes the decision's target
  state and the round becomes its counter. A round that leaves the stub open is strictly below the
  cap, had no breach and no divergence, and was not clean.
\<close>

theorem settled_round_is_recorded:
  assumes "stub_valid stub" and "stub_state_of stub = SUPERSEDED"
    and "report_repo_id report \<in> set (stub_consumers stub)"
  shows "(settle_revalidation stub report sib failure breach = Inr None \<longleftrightarrow>
            breach = None \<and> failure \<noteq> Some STUB_DIVERGED
            \<and> \<not> (report_verdict report = PASS \<and> verified_against_stubs report = [])
            \<and> max (stub_rounds_spent stub) (report_round report) < stub_max_rounds stub)
    \<and> (settle_revalidation stub report sib failure breach = Inr None
       \<or> (\<exists>d. settle_revalidation stub report sib failure breach = Inr (Some d)
           \<and> (report_round report \<le> stub_max_rounds stub \<longrightarrow>
                apply_decision stub d now =
                  Inr (stub\<lparr>stub_state_of := dcn_to d,
                            stub_rounds_spent := max (stub_rounds_spent stub) (report_round report),
                            stub_changed_at := now\<rparr>))
           \<and> (report_round report > stub_max_rounds stub \<longrightarrow>
                apply_decision stub d now = Inl InvalidRow)))"
  using settle_cases[OF assms(2,3)] apply_settled[OF assms(1)]
  by (metis not_less option.exhaust)

theorem settled_round_is_recorded_witness:
  "\<exists>d. settle_revalidation (sample_stub\<lparr>stub_state_of := SUPERSEDED\<rparr>) clean_report None None None
        = Inr (Some d)
     \<and> (\<exists>row. apply_decision (sample_stub\<lparr>stub_state_of := SUPERSEDED\<rparr>) d 7 = Inr row)"
proof -
  let ?s = "sample_stub\<lparr>stub_state_of := SUPERSEDED\<rparr>"
  have "stub_valid ?s"
    by code_simp
  moreover have "report_repo_id clean_report \<in> set (stub_consumers ?s)"
    and "report_round clean_report \<le> stub_max_rounds ?s"
    and "settle_revalidation ?s clean_report None None None \<noteq> Inr None"
    by (simp_all add: sample_stub_def clean_report_def settle_revalidation_def consumers_of_def)
  ultimately show ?thesis
    using settled_round_is_recorded[of ?s clean_report None None None 7] by auto
qed

text \<open>
  The round a superseded stub is filed under can be recorded only when the row has a round to
  spend. A row re-emitted by \<open>next_round_record\<close> already carries the next round, so the one that
  reaches the cap (or any row when the cap is zero) files a round whose outcome, a pass included,
  \<open>apply_decision\<close> refuses.
\<close>

theorem filed_round_recordable_iff:
  assumes "stub_valid stub" and "supersede stub provider policy op = Inr ds" and "d \<in> set ds"
    and "apply_decision stub d now = Inr row" and "report_round report = dcn_round d"
    and "settle_revalidation row report sib failure breach = Inr (Some e)"
  shows "(\<exists>row'. apply_decision row e later = Inr row') \<longleftrightarrow>
    stub_rounds_spent stub < stub_max_rounds stub"
proof -
  have row: "row = stub\<lparr>stub_state_of := SUPERSEDED, stub_changed_at := now\<rparr>"
    using apply_T1[OF assms(1)] supersede_dcn[OF assms(2,3)] assms(4) by simp
  then have "stub_valid row"
    using assms(1) by (simp add: stub_valid_def)
  from apply_settled[OF this assms(6)] show ?thesis
    using row assms(5) supersede_dcn(5)[OF assms(2,3)] by auto
qed

theorem filed_round_recordable_iff_witness:
  "\<exists>row ds d row' e.
     next_round_record (sample_stub\<lparr>stub_state_of := ABANDONED, stub_rounds_spent := 1\<rparr>) 3 ''s2''
       = Inr row
     \<and> supersede row merged_lib POLICY_BATCHED False = Inr ds \<and> d \<in> set ds
     \<and> apply_decision row d 4 = Inr row'
     \<and> settle_revalidation row' (clean_report\<lparr>report_round := 3\<rparr>) None None None = Inr (Some e)
     \<and> promotes_consumer e
     \<and> \<not> (\<exists>row''. apply_decision row' e 5 = Inr row'')"
proof -
  let ?row = "sample_stub\<lparr>stub_id := ''s2'', stub_rounds_spent := 2, stub_created_at := 3,
                          stub_changed_at := 3\<rparr>"
  let ?row' = "?row\<lparr>stub_state_of := SUPERSEDED, stub_changed_at := 4\<rparr>"
  have re: "next_round_record (sample_stub\<lparr>stub_state_of := ABANDONED, stub_rounds_spent := 1\<rparr>)
     3 ''s2'' = Inr ?row"
    by (simp add: next_round_record_def sample_stub_def stub_states)
  have valid: "stub_valid ?row"
    by code_simp
  obtain d ds where d: "supersede ?row merged_lib POLICY_BATCHED False = Inr (d # ds)"
    by (simp add: supersede_def refuse_terminal_def sample_stub_def merged_lib_def merged_def
        consumers_of_def stub_states)
  note dd = supersede_dcn[OF d, of d, simplified]
  have app: "apply_decision ?row d 4 = Inr ?row'"
    using apply_T1[OF valid _ dd(1-3), of 4] dd(6) by (simp add: sample_stub_def)
  obtain e where e: "settle_revalidation ?row' (clean_report\<lparr>report_round := 3\<rparr>) None None None
      = Inr (Some e)" and p: "promotes_consumer e"
    by (simp add: settle_revalidation_def sample_stub_def clean_report_def consumers_of_def
        promotes_consumer_def)
  have "report_round (clean_report\<lparr>report_round := 3\<rparr>) = dcn_round d"
    using dd(5) by (simp add: sample_stub_def)
  then have "\<not> (\<exists>row''. apply_decision ?row' e 5 = Inr row'')"
    using filed_round_recordable_iff[OF valid d _ app _ e] by (simp add: sample_stub_def)
  then show ?thesis
    using re d app e p by (metis list.set_intros(1))
qed

section \<open>Reconciliation\<close>

lemma set_append_new [simp]: "set (append_new x xs) = insert x (set xs)"
  by (auto simp: append_new_def)

lemma set_fold_append_new [simp]: "set (fold append_new xs ys) = set xs \<union> set ys"
  by (induction xs arbitrary: ys) auto

lemma distinct_fold_append_new [simp]: "distinct ys \<Longrightarrow> distinct (fold append_new xs ys)"
  by (induction xs arbitrary: ys) (auto simp: append_new_def)

definition swept :: "(repo_id \<rightharpoonup> provider_facts) \<Rightarrow> instant option \<Rightarrow> rat option \<Rightarrow> stub_record \<Rightarrow> bool" where
  "swept providers now age r \<longleftrightarrow>
     stub_state_of r \<in> OPEN_STATES \<and> \<not> held_for_merge providers now age r"

definition kept :: "(repo_id \<rightharpoonup> provider_facts) \<Rightarrow> instant option \<Rightarrow> rat option \<Rightarrow> stub_record \<Rightarrow> bool" where
  "kept providers now age r \<longleftrightarrow>
     stub_state_of r \<in> OPEN_STATES \<and> held_for_merge providers now age r"

lemma reconcile_loop_spec:
  assumes "\<forall>r \<in> set rows. stub_state_of r \<in> OPEN_STATES \<longrightarrow> stub_consumers r \<noteq> []"
  shows "reconcile_loop rows providers now age acc =
    Inr \<lparr>rec_decisions = rec_decisions acc @
           concat (map (\<lambda>r. map (end_of_run_decision r) (stub_consumers r))
                     (filter (swept providers now age) rows)),
         rec_held = rec_held acc @
           concat (map (\<lambda>r. map (held_row r) (stub_consumers r))
                     (filter (kept providers now age) rows)),
         rec_degraded =
           fold append_new (concat (map stub_consumers (filter (swept providers now age) rows)))
             (rec_degraded acc)\<rparr>"
  using assms
  by (induction rows arbitrary: acc)
     (auto simp: consumers_of_def swept_def kept_def)

lemma end_of_run_decision_applies:
  assumes "stub_valid r" and "stub_state_of r \<in> OPEN_STATES"
  shows "apply_decision r (end_of_run_decision r c) now =
    Inr (r\<lparr>stub_state_of := ABANDONED, stub_changed_at := now\<rparr>)"
  using assms
  by (cases "stub_state_of r")
     (auto simp: apply_decision_def end_of_run_decision_def stub_states stub_valid_def)

text \<open>
  End-of-run reconciliation accounts for every open stub row. It succeeds on every list of
  rows that name their consumers; each open row whose provider is not awaiting a merge gets one
  decision per consumer, every other open row is reported as held once per consumer, and terminal
  rows are left out. Each decision applies to its row and abandons it at its own round; the
  degraded consumers are listed once each.
\<close>

theorem reconcile_accounts_for_every_row:
  assumes "\<forall>r \<in> set rows. stub_state_of r \<in> OPEN_STATES \<longrightarrow> stub_consumers r \<noteq> []"
    and "\<forall>r \<in> set rows. stub_valid r"
  shows "\<exists>out. reconcile rows providers now age = Inr out
    \<and> set (rec_decisions out) =
        {end_of_run_decision r c | r c. r \<in> set rows \<and> c \<in> set (stub_consumers r)
           \<and> stub_state_of r \<in> OPEN_STATES \<and> \<not> held_for_merge providers now age r}
    \<and> set (rec_held out) =
        {held_row r c | r c. r \<in> set rows \<and> c \<in> set (stub_consumers r)
           \<and> stub_state_of r \<in> OPEN_STATES \<and> held_for_merge providers now age r}
    \<and> (\<forall>r \<in> set rows. stub_state_of r \<in> OPEN_STATES \<longrightarrow>
         (\<forall>c. apply_decision r (end_of_run_decision r c) later =
            Inr (r\<lparr>stub_state_of := ABANDONED, stub_changed_at := later\<rparr>)))
    \<and> distinct (rec_degraded out) \<and> set (rec_degraded out) = dcn_consumer ` set (rec_decisions out)"
proof -
  let ?out = "\<lparr>rec_decisions = concat (map (\<lambda>r. map (end_of_run_decision r) (stub_consumers r))
                  (filter (swept providers now age) rows)),
               rec_held = concat (map (\<lambda>r. map (held_row r) (stub_consumers r))
                  (filter (kept providers now age) rows)),
               rec_degraded = fold append_new
                  (concat (map stub_consumers (filter (swept providers now age) rows))) []\<rparr>"
  have "reconcile rows providers now age = Inr ?out"
    by (auto simp: reconcile_def reconcile_loop_spec[OF assms(1)] Let_def filter_empty_conv
        promotes_consumer_def end_of_run_decision_def)
  moreover have "set (rec_degraded ?out) = dcn_consumer ` set (rec_decisions ?out)"
    by (force simp: end_of_run_decision_def)
  ultimately show ?thesis
    using assms(2) by (intro exI[of _ ?out])
      (auto simp: end_of_run_decision_applies swept_def kept_def)
qed

theorem reconcile_accounts_for_every_row_witness:
  "\<exists>out. reconcile [sample_stub] (Map.empty(''lib'' \<mapsto> merged_lib)) None None = Inr out
     \<and> end_of_run_decision sample_stub ''web'' \<in> set (rec_decisions out)"
proof -
  let ?p = "Map.empty(''lib'' \<mapsto> merged_lib)"
  have "stub_state_of sample_stub \<in> OPEN_STATES" and "\<not> held_for_merge ?p None None sample_stub"
    and "stub_consumers sample_stub = [''app'', ''web'']"
    by (simp_all add: sample_stub_def stub_states held_for_merge_def merged_lib_def
        awaiting_merge_def pr_open_def)
  then show ?thesis
    using reconcile_accounts_for_every_row[of "[sample_stub]" ?p None None] sample_stub_valid
    by fastforce
qed

section \<open>Triggers\<close>

lemma trigger_key_inject [simp]: "trigger_key s = trigger_key t \<longleftrightarrow> s = t"
  by (cases s; cases t) (simp add: trigger_key_def)

lemma add_trigger_alt: "add_trigger t found = append_new t found"
  by (auto simp: add_trigger_def append_new_def)

lemma fold_fold_append_new:
  "fold (\<lambda>e found. fold append_new (f e) found) es found = fold append_new (concat (map f es)) found"
  by (induction es arbitrary: found) simp_all

lemma detect_stub_triggers_alt:
  "detect_stub_triggers dispatched edges states inherited =
     sort_key trigger_key
       (fold append_new (concat (map (edge_triggers dispatched states inherited) edges)) [])"
proof -
  have "add_trigger = append_new"
    by (intro ext) (rule add_trigger_alt)
  then show ?thesis
    by (simp add: detect_stub_triggers_def fold_fold_append_new)
qed

text \<open>
  The stub triggers of a wave are exactly the triples (dispatched consumer, provider,
  coordinate) of an ordering edge whose provider has an abandoned phase, and otherwise the triples
  the provider itself carries from an active stub that did not fail empty, with the original
  provider and coordinate. Each triple occurs once and the list is sorted, so it does not depend
  on the order of the edges.
\<close>

theorem detect_stub_triggers_exact:
  "t \<in> set (detect_stub_triggers dispatched edges states inherited) \<longleftrightarrow>
     (\<exists>(p, c, k) \<in> set edges. c \<in> set dispatched \<and> trig_consumer t = c
        \<and> (if \<exists>st. states p = Some st \<and> REQUIRES_HUMAN_INTERVENTION \<in> set (phase_statuses st)
           then trig_provider t = p \<and> trig_coord_key t = k
           else \<exists>fact \<in> set (inherited p). inh_fidelity fact \<noteq> EMPTY_FAILING
              \<and> trig_provider t = inh_provider fact \<and> trig_coord_key t = inh_coord_key fact))"
proof -
  have eq: "t = \<lparr>trig_consumer = c, trig_provider = p, trig_coord_key = k\<rparr> \<longleftrightarrow>
      trig_consumer t = c \<and> trig_provider t = p \<and> trig_coord_key t = k" for c p k
    by (cases t) auto
  have "t \<in> set (edge_triggers dispatched states inherited e) \<longleftrightarrow>
      (case e of (p, c, k) \<Rightarrow> c \<in> set dispatched \<and> trig_consumer t = c
      \<and> (if \<exists>st. states p = Some st \<and> REQUIRES_HUMAN_INTERVENTION \<in> set (phase_statuses st)
         then trig_provider t = p \<and> trig_coord_key t = k
         else \<exists>fact \<in> set (inherited p). inh_fidelity fact \<noteq> EMPTY_FAILING
            \<and> trig_provider t = inh_provider fact \<and> trig_coord_key t = inh_coord_key fact))" for e
    by (cases e) (auto simp: edge_triggers_def eq image_iff split: option.splits)
  then show ?thesis
    by (simp only: detect_stub_triggers_alt set_sort set_fold_append_new set_concat set_map
        UN_iff bex_simps Un_iff list.set empty_iff simp_thms image_iff)
qed

text \<open>
  The trigger list is sorted by (consumer, provider, coordinate), holds no duplicate and is
  determined by the set of edges and the set of dispatched repositories.
\<close>

theorem detect_stub_triggers_canonical:
  "sorted (map trigger_key (detect_stub_triggers dispatched edges states inherited))
   \<and> distinct (detect_stub_triggers dispatched edges states inherited)
   \<and> (set edges = set edges' \<and> set dispatched = set dispatched' \<longrightarrow>
        detect_stub_triggers dispatched edges states inherited =
        detect_stub_triggers dispatched' edges' states inherited)"
  (is "?sorted \<and> ?distinct \<and> (?same \<longrightarrow> _)")
proof (intro conjI impI)
  let ?d = detect_stub_triggers
  have canon: "sorted (map trigger_key (?d ds es states inherited))"
    "distinct (map trigger_key (?d ds es states inherited))" for ds es
    by (simp_all add: detect_stub_triggers_alt distinct_map inj_on_def)
  show ?sorted and ?distinct
    using canon[of dispatched edges] by (simp_all add: distinct_map)
  assume ?same
  then have "edge_triggers dispatched = edge_triggers dispatched'"
    by (intro ext) (simp add: edge_triggers_def)
  then have "set (?d dispatched edges states inherited) = set (?d dispatched' edges' states inherited)"
    using \<open>?same\<close> by (simp add: detect_stub_triggers_alt)
  then have "map trigger_key (?d dispatched edges states inherited) =
      map trigger_key (?d dispatched' edges' states inherited)"
    using canon by (intro sorted_distinct_set_unique) auto
  then show "?d dispatched edges states inherited = ?d dispatched' edges' states inherited"
    by (rule map_injective) (simp add: inj_on_def)
qed

theorem detect_stub_triggers_canonical_witness:
  "detect_stub_triggers [''app''] [(''lib'', ''app'', ''k1''), (''lib'', ''app'', ''k2'')]
     (Map.empty(''lib'' \<mapsto> \<lparr>phase_statuses = [REQUIRES_HUMAN_INTERVENTION]\<rparr>)) (\<lambda>_. [])
   = detect_stub_triggers [''app'', ''app''] [(''lib'', ''app'', ''k2''), (''lib'', ''app'', ''k1'')]
     (Map.empty(''lib'' \<mapsto> \<lparr>phase_statuses = [REQUIRES_HUMAN_INTERVENTION]\<rparr>)) (\<lambda>_. [])"
  using detect_stub_triggers_canonical
    [of "[''app'']" "[(''lib'', ''app'', ''k1''), (''lib'', ''app'', ''k2'')]" _ _
        "[(''lib'', ''app'', ''k2''), (''lib'', ''app'', ''k1'')]" "[''app'', ''app'']"]
  by auto

section \<open>Idempotency keys and batching\<close>

lemma revalidation_key_Inr:
  "revalidation_key sha r ids = Inr k \<longleftrightarrow>
     0 \<le> r \<and> ids \<noteq> []
     \<and> k = CHR ''r'' # show_nat (nat r) @ CHR '':'' # sha (join CHR ''\<newline>'' (sorted_set ids))"
  by (auto simp: revalidation_key_def Let_def show_int_def)

lemma colon_not_digit: "CHR '':'' \<notin> set (show_nat n)"
  using show_nat_digits[of "CHR '':''" n] by auto

text \<open>
  Two revalidation requests share a key exactly when they are for the same round and the same
  set of providers, in any order and multiplicity, as long as the digest does not collide on the
  two newline-joined texts.
\<close>

theorem revalidation_key_identifies_round:
  assumes "revalidation_key sha r ids = Inr k" and "revalidation_key sha r' ids' = Inr k'"
    and "\<forall>v \<in> set ids \<union> set ids'. repo_id_ok v"
    and "sha (join CHR ''\<newline>'' (sorted_set ids)) = sha (join CHR ''\<newline>'' (sorted_set ids')) \<longrightarrow>
         join CHR ''\<newline>'' (sorted_set ids) = join CHR ''\<newline>'' (sorted_set ids')"
  shows "k = k' \<longleftrightarrow> r = r' \<and> set ids = set ids'"
proof
  assume "k = k'"
  with assms(1,2) have "show_nat (nat r) @ CHR '':'' # sha (join CHR ''\<newline>'' (sorted_set ids)) =
      show_nat (nat r') @ CHR '':'' # sha (join CHR ''\<newline>'' (sorted_set ids'))"
    by (simp add: revalidation_key_Inr)
  then have "show_nat (nat r) = show_nat (nat r')"
    and sha: "sha (join CHR ''\<newline>'' (sorted_set ids)) = sha (join CHR ''\<newline>'' (sorted_set ids'))"
    using append_sep_inject[OF colon_not_digit colon_not_digit] by blast+
  then have "r = r'"
    using assms(1,2) by (auto simp: revalidation_key_Inr nat_eq_iff)
  moreover have "sorted_set ids = sorted_set ids'"
    using assms sha
    by (intro join_inject[of "CHR ''\<newline>''"]) (auto simp: revalidation_key_Inr newline_not_in_repo_id)
  ultimately show "r = r' \<and> set ids = set ids'"
    by (simp add: sorted_set_eq_iff)
next
  assume "r = r' \<and> set ids = set ids'"
  with assms(1,2) show "k = k'"
    using sorted_set_cong[of ids ids'] by (simp add: revalidation_key_Inr)
qed

theorem revalidation_key_identifies_round_witness:
  "\<exists>k k'. revalidation_key id 1 [''a-b'', ''c''] = Inr k \<and> revalidation_key id 1 [''a'', ''b-c''] = Inr k'
     \<and> k \<noteq> k'"
proof -
  have ok: "\<forall>v \<in> set [''a-b'', ''c''] \<union> set [''a'', ''b-c'']. repo_id_ok v"
    by code_simp
  have ne: "set [''a-b'', ''c''] \<noteq> set [''a'', ''b-c'']"
    by code_simp
  obtain k k' where k: "revalidation_key id 1 [''a-b'', ''c''] = Inr k"
    and k': "revalidation_key id 1 [''a'', ''b-c''] = Inr k'"
    by (simp add: revalidation_key_Inr)
  have "k \<noteq> k'"
    using revalidation_key_identifies_round[OF k k' ok] ne by simp
  with k k' show ?thesis by blast
qed

definition batched_plan :: "(string \<Rightarrow> string) \<Rightarrow> repo_id \<Rightarrow> stub_decision list \<Rightarrow> revalidation_plan" where
  "batched_plan sha c ds =
     (let n = Max (set (map dcn_round ds)); ps = sorted_set (map dcn_provider ds) in
      \<lparr>plan_consumer = c, plan_providers = ps, plan_round = n,
       plan_key = CHR ''r'' # show_nat (nat n) @ CHR '':'' # sha (join CHR ''\<newline>'' ps),
       plan_coord_keys = sort (map dcn_coord_key ds)\<rparr>)"

lemma batched_plan_cong:
  assumes "mset ds' = mset ds"
  shows "batched_plan sha c ds' = batched_plan sha c ds"
proof -
  have s: "set ds' = set ds"
    using assms by (rule mset_eq_setD)
  have "sorted_set (map dcn_provider ds') = sorted_set (map dcn_provider ds)"
    by (rule sorted_set_cong) (simp add: s)
  moreover have "sort (map dcn_coord_key ds') = sort (map dcn_coord_key ds)"
    by (rule properties_for_sort) (simp_all add: assms)
  ultimately show ?thesis
    by (simp add: batched_plan_def s)
qed

definition one_consumer :: "repo_id \<Rightarrow> stub_decision list \<Rightarrow> bool" where
  "one_consumer c ds \<longleftrightarrow>
     ds \<noteq> [] \<and> (\<forall>d \<in> set ds. dcn_transition d = T1 \<and> dcn_consumer d = c \<and> 0 \<le> dcn_round d)"

lemma one_consumerD:
  assumes "one_consumer c ds"
  shows "filter (\<lambda>d. dcn_transition d = T1) ds = ds" and "\<not> list_ex (\<lambda>d. dcn_consumer d \<noteq> c) ds"
    and "0 \<le> Max (set (map dcn_round ds))"
proof -
  obtain d where "d \<in> set ds" and "0 \<le> dcn_round d"
    using assms by (cases ds) (auto simp: one_consumer_def)
  then show "0 \<le> Max (set (map dcn_round ds))"
    by (intro order_trans[OF _ Max_ge]) auto
qed (use assms in \<open>auto simp: one_consumer_def filter_id_conv list_ex_iff\<close>)

lemma plan_batched:
  "one_consumer c ds \<Longrightarrow> plan_revalidation sha c ds POLICY_BATCHED op = Inr [batched_plan sha c ds]"
  using one_consumerD[of c ds]
  by (auto simp: plan_revalidation_def one_consumer_def revalidation_key_def batched_plan_def
      show_int_def Let_def simp del: set_map Max_less_iff)

lemma plan_eager:
  assumes "one_consumer c ds"
  shows "\<exists>ps. plan_revalidation sha c ds POLICY_EAGER op = Inr ps \<and> length ps = length ds"
proof -
  define key where
    "key d = CHR ''r'' # show_nat (nat (dcn_round d)) @ CHR '':'' # sha (dcn_provider d)"
    for d :: stub_decision
  let ?p = "\<lambda>d. \<lparr>plan_consumer = c, plan_providers = [dcn_provider d], plan_round = dcn_round d,
                  plan_key = key d, plan_coord_keys = [dcn_coord_key d]\<rparr>"
  have "revalidation_key sha (dcn_round d) [dcn_provider d] = Inr (key d)" if "d \<in> set ds" for d
    using assms that by (auto simp: revalidation_key_Inr key_def one_consumer_def sorted_set_def)
  then have "traverse (\<lambda>d. rbind (revalidation_key sha (dcn_round d) [dcn_provider d]) (\<lambda>key.
      Inr \<lparr>plan_consumer = c, plan_providers = [dcn_provider d], plan_round = dcn_round d,
           plan_key = key, plan_coord_keys = [dcn_coord_key d]\<rparr>)) ds = Inr (map ?p ds)"
    by (intro traverse_total) simp
  then show ?thesis
    using one_consumerD[OF assms] assms
    by (simp add: plan_revalidation_def one_consumer_def Let_def)
qed

text \<open>
  The batched policy folds all of one consumer's superseded rows into one revalidation task
  that covers every provider and every coordinate at the highest round any row asks for, and the
  same rows in another order give the same task, key included. The eager policy files one task per
  row and the manual one none unless the operator asked.
\<close>

theorem batched_plan_is_one_task:
  assumes "\<forall>d \<in> set ds. dcn_transition d = T1 \<and> dcn_consumer d = c \<and> 0 \<le> dcn_round d"
    and "ds \<noteq> []"
  shows "(\<exists>p. plan_revalidation sha c ds POLICY_BATCHED op = Inr [p]
         \<and> set (plan_providers p) = dcn_provider ` set ds
         \<and> mset (plan_coord_keys p) = mset (map dcn_coord_key ds)
         \<and> (\<forall>d \<in> set ds. dcn_round d \<le> plan_round p)
         \<and> revalidation_key sha (plan_round p) (map dcn_provider ds) = Inr (plan_key p)
         \<and> (\<forall>ds'. mset ds' = mset ds \<longrightarrow>
               plan_revalidation sha c ds' POLICY_BATCHED op = Inr [p]))
    \<and> (\<exists>ps. plan_revalidation sha c ds POLICY_EAGER op = Inr ps \<and> length ps = length ds)
    \<and> plan_revalidation sha c ds POLICY_MANUAL False = Inr []"
proof (intro conjI exI[of _ "batched_plan sha c ds"] allI impI)
  have one: "one_consumer c ds"
    using assms by (simp add: one_consumer_def)
  then show "plan_revalidation sha c ds POLICY_BATCHED op = Inr [batched_plan sha c ds]"
    and "\<exists>ps. plan_revalidation sha c ds POLICY_EAGER op = Inr ps \<and> length ps = length ds"
    by (rule plan_batched, rule plan_eager)
  show "revalidation_key sha (plan_round (batched_plan sha c ds)) (map dcn_provider ds) =
      Inr (plan_key (batched_plan sha c ds))"
    using one_consumerD(3)[OF one] assms(2)
    by (simp add: revalidation_key_Inr batched_plan_def Let_def)
  show "plan_revalidation sha c ds POLICY_MANUAL False = Inr []"
    using one_consumerD[OF one] by (simp add: plan_revalidation_def Let_def)
  show "plan_revalidation sha c ds' POLICY_BATCHED op = Inr [batched_plan sha c ds]"
    if m: "mset ds' = mset ds" for ds'
  proof -
    have "one_consumer c ds'"
      using one m by (auto simp: one_consumer_def dest: mset_eq_setD)
    then show ?thesis
      by (simp add: plan_batched batched_plan_cong[OF m])
  qed
qed (auto simp: batched_plan_def Let_def)

theorem batched_plan_is_one_task_witness:
  "\<exists>p. plan_revalidation id ''app''
         [end_of_run_decision sample_stub ''app''\<lparr>dcn_transition := T1\<rparr>] POLICY_BATCHED False = Inr [p]
     \<and> set (plan_providers p) = {''lib''}"
  using batched_plan_is_one_task
    [of "[end_of_run_decision sample_stub ''app''\<lparr>dcn_transition := T1\<rparr>]" "''app''" id False]
  by (auto simp: end_of_run_decision_def sample_stub_def)

end
