(* ===== verification/Digraph.thy ===== *)
theory Digraph
  imports Prelude
begin

text \<open>
  Directed graphs as the sources use them. A \<open>networkx.DiGraph\<close> value is its nodes and its arcs in
  insertion order, each arc with its attributes. What \<open>networkx\<close> computes over a graph
  (descendants, acyclicity, strongly connected components, the lexicographic topological order) is
  not part of this program: it is a record of functions that the definitions take as an argument,
  with its documented behaviour as the assumptions of the locale \<open>networkx\<close>. The locale is
  interpreted on a reference implementation, which also serves the examples.

  The worklist \<open>visit\<close> is the loop of \<open>ordering_descendants\<close> in
  \<open>src/fleet/orchestrator/scheduler.py\<close>.
\<close>

section \<open>Graph values\<close>

record ('n, 'a) digraph =
  nodes :: "'n list"
  arcs :: "('n \<times> 'n, 'a) dict"

definition empty_graph :: "('n, 'a) digraph" where
  "empty_graph = \<lparr>nodes = [], arcs = []\<rparr>"

definition add_node :: "'n \<Rightarrow> ('n, 'a) digraph \<Rightarrow> ('n, 'a) digraph" where
  "add_node n g = (if n \<in> set (nodes g) then g else g\<lparr>nodes := nodes g @ [n]\<rparr>)"

definition add_edge :: "'n \<Rightarrow> 'n \<Rightarrow> 'a \<Rightarrow> ('n, 'a) digraph \<Rightarrow> ('n, 'a) digraph" where
  "add_edge u v a g =
     (let h = add_node v (add_node u g) in h\<lparr>arcs := dict_set (arcs h) (u, v) a\<rparr>)"

definition arc_data :: "('n, 'a) digraph \<Rightarrow> 'n \<Rightarrow> 'n \<Rightarrow> 'a option" where
  "arc_data g u v = dict_get (arcs g) (u, v)"

definition arc_set :: "('n, 'a) digraph \<Rightarrow> ('n \<times> 'n) set" where
  "arc_set g = fst ` set (arcs g)"

definition successors :: "('n, 'a) digraph \<Rightarrow> 'n \<Rightarrow> 'n list" where
  "successors g u = map snd (filter (\<lambda>e. fst e = u) (map fst (arcs g)))"

definition predecessors :: "('n, 'a) digraph \<Rightarrow> 'n \<Rightarrow> 'n list" where
  "predecessors g v = map fst (filter (\<lambda>e. snd e = v) (map fst (arcs g)))"

definition reverse :: "('n, 'a) digraph \<Rightarrow> ('n, 'a) digraph" where
  "reverse g = \<lparr>nodes = nodes g, arcs = map (\<lambda>((u, v), a). ((v, u), a)) (arcs g)\<rparr>"

definition subgraph :: "'n list \<Rightarrow> ('n, 'a) digraph \<Rightarrow> ('n, 'a) digraph" where
  "subgraph ns g =
     \<lparr>nodes = filter (\<lambda>n. n \<in> set ns) (nodes g),
      arcs = filter (\<lambda>((u, v), _). u \<in> set ns \<and> v \<in> set ns) (arcs g)\<rparr>"

text \<open>Endpoints are nodes, nothing is listed twice.\<close>

definition wf_graph :: "('n, 'a) digraph \<Rightarrow> bool" where
  "wf_graph g \<longleftrightarrow>
     distinct (nodes g) \<and> distinct (map fst (arcs g))
     \<and> (\<forall>(u, v) \<in> arc_set g. u \<in> set (nodes g) \<and> v \<in> set (nodes g))"

lemma empty_graph_simps [simp]:
  "nodes empty_graph = []" "arcs empty_graph = []" "arc_set empty_graph = {}" "wf_graph empty_graph"
  by (simp_all add: empty_graph_def arc_set_def wf_graph_def)

lemma nodes_add_node [simp]: "set (nodes (add_node n g)) = insert n (set (nodes g))"
  by (auto simp: add_node_def)

lemma arcs_add_node [simp]: "arcs (add_node n g) = arcs g"
  by (simp add: add_node_def)

lemma arc_set_add_node [simp]: "arc_set (add_node n g) = arc_set g"
  by (simp add: arc_set_def)

lemma nodes_add_edge [simp]: "set (nodes (add_edge u v a g)) = {u, v} \<union> set (nodes g)"
  by (auto simp: add_edge_def Let_def)

lemma arc_set_add_edge [simp]: "arc_set (add_edge u v a g) = insert (u, v) (arc_set g)"
  by (simp add: add_edge_def Let_def arc_set_def)

lemma arc_data_add_edge [simp]:
  "arc_data (add_edge u v a g) x y = (if x = u \<and> y = v then Some a else arc_data g x y)"
  by (simp add: add_edge_def Let_def arc_data_def)

lemma distinct_nodes_add_node [simp]: "distinct (nodes (add_node n g)) \<longleftrightarrow> distinct (nodes g)"
  by (simp add: add_node_def)

lemma wf_add_node [simp]: "wf_graph g \<Longrightarrow> wf_graph (add_node n g)"
  by (auto simp: wf_graph_def)

lemma wf_add_edge [simp]: "wf_graph g \<Longrightarrow> wf_graph (add_edge u v a g)"
  by (auto simp: wf_graph_def add_edge_def Let_def arc_set_def)

lemma arc_data_None_iff: "arc_data g u v = None \<longleftrightarrow> (u, v) \<notin> arc_set g"
  by (simp add: arc_data_def arc_set_def dict_get_None_iff)

lemma set_successors [simp]: "set (successors g u) = {v. (u, v) \<in> arc_set g}"
  by (force simp: successors_def arc_set_def)

lemma set_predecessors [simp]: "set (predecessors g v) = {u. (u, v) \<in> arc_set g}"
  by (force simp: predecessors_def arc_set_def)

lemma nodes_reverse [simp]: "nodes (reverse g) = nodes g"
  by (simp add: reverse_def)

lemma arc_set_reverse [simp]: "arc_set (reverse g) = (arc_set g)\<inverse>"
  by (force simp: reverse_def arc_set_def)

lemma distinct_flip: "distinct (map fst xs) \<Longrightarrow> distinct (map (\<lambda>x. case fst x of (u, v) \<Rightarrow> (v, u)) xs)"
  by (induction xs) (force split: prod.splits)+

lemma wf_reverse [simp]: "wf_graph g \<Longrightarrow> wf_graph (reverse g)"
  using distinct_flip[of "arcs g"]
  by (auto simp: wf_graph_def) (simp add: reverse_def comp_def split_def)

lemma nodes_subgraph [simp]: "set (nodes (subgraph ns g)) = set (nodes g) \<inter> set ns"
  by (auto simp: subgraph_def)

lemma arc_set_subgraph [simp]: "arc_set (subgraph ns g) = arc_set g \<inter> set ns \<times> set ns"
  by (force simp: subgraph_def arc_set_def)

lemma wf_subgraph [simp]: "wf_graph g \<Longrightarrow> wf_graph (subgraph ns g)"
  by (auto simp: wf_graph_def) (simp add: subgraph_def distinct_map_filter)+

lemma wf_arcD: "wf_graph g \<Longrightarrow> (u, v) \<in> arc_set g \<Longrightarrow> u \<in> set (nodes g) \<and> v \<in> set (nodes g)"
  by (auto simp: wf_graph_def)

lemma finite_arc_set [simp]: "finite (arc_set g)"
  by (simp add: arc_set_def)

section \<open>Reachability by worklist\<close>

text \<open>\<open>forward.get(n, ())\<close>\<close>

definition out :: "('n, 'n list) dict \<Rightarrow> 'n \<Rightarrow> 'n list" where
  "out fwd n = (case dict_get fwd n of None \<Rightarrow> [] | Some ms \<Rightarrow> ms)"

definition out_rel :: "('n, 'n list) dict \<Rightarrow> ('n \<times> 'n) set" where
  "out_rel fwd = {(n, m). m \<in> set (out fwd n)}"

definition targets :: "('n, 'n list) dict \<Rightarrow> 'n set" where
  "targets fwd = (\<Union>(n, ms) \<in> set fwd. set ms)"

lemma out_targets: "set (out fwd n) \<subseteq> targets fwd"
  by (cases "map_of fwd n") (auto simp: out_def targets_def dict_get_def dest: map_of_SomeD)

lemma finite_targets [simp]: "finite (targets fwd)"
  by (auto simp: targets_def)

text \<open>The stack is listed from its top; \<open>extend\<close> then \<open>pop\<close> takes the last pushed first.\<close>

function visit :: "('n, 'n list) dict \<Rightarrow> 'n list \<Rightarrow> 'n list \<Rightarrow> 'n list" where
  "visit fwd [] seen = seen"
| "visit fwd (n # stack) seen =
     (if n \<in> set seen then visit fwd stack seen
      else visit fwd (rev (out fwd n) @ stack) (n # seen))"
  by pat_completeness auto
termination
proof (relation "measures [\<lambda>(fwd, stack, seen). card ((targets fwd \<union> set stack) - set seen),
                           \<lambda>(fwd, stack, seen). length stack]")
  show "((fwd, stack, seen), fwd, n # stack, seen)
      \<in> measures [\<lambda>(fwd, stack, seen). card ((targets fwd \<union> set stack) - set seen),
                   \<lambda>(fwd, stack, seen). length stack]"
    if "n \<in> set seen" for fwd :: "('n, 'n list) dict" and n stack seen
  proof -
    have "(targets fwd \<union> set (n # stack)) - set seen = (targets fwd \<union> set stack) - set seen"
      using that by auto
    then show ?thesis by simp
  qed
  show "((fwd, rev (out fwd n) @ stack, n # seen), fwd, n # stack, seen)
      \<in> measures [\<lambda>(fwd, stack, seen). card ((targets fwd \<union> set stack) - set seen),
                   \<lambda>(fwd, stack, seen). length stack]"
    if "n \<notin> set seen" for fwd :: "('n, 'n list) dict" and n stack seen
  proof -
    have "(targets fwd \<union> set (rev (out fwd n) @ stack)) - set (n # seen)
        \<subset> (targets fwd \<union> set (n # stack)) - set seen"
      using that out_targets[of fwd n] by auto
    then show ?thesis
      using psubset_card_mono[of "(targets fwd \<union> set (n # stack)) - set seen"] by simp
  qed
qed simp

lemma visit_sound: "set (visit fwd stack seen) \<subseteq> set seen \<union> (out_rel fwd)\<^sup>* `` set stack"
proof (induction fwd stack seen rule: visit.induct)
  case (2 fwd n stack seen)
  show ?case
  proof (cases "n \<in> set seen")
    case False
    have "m \<in> (out_rel fwd)\<^sup>* `` {n}" if "m \<in> (out_rel fwd)\<^sup>* `` set (out fwd n)" for m
      using that by (auto simp: out_rel_def intro: converse_rtrancl_into_rtrancl)
    then have "(out_rel fwd)\<^sup>* `` set (out fwd n) \<subseteq> (out_rel fwd)\<^sup>* `` {n}"
      by blast
    with 2(2)[OF False] False show ?thesis
      by (simp add: Image_Un) blast
  qed (use 2 in auto)
qed auto

lemma visit_complete:
  assumes "out_rel fwd `` set seen \<subseteq> set seen \<union> set stack"
  shows "set seen \<union> set stack \<subseteq> set (visit fwd stack seen)
    \<and> out_rel fwd `` set (visit fwd stack seen) \<subseteq> set (visit fwd stack seen)"
  using assms
proof (induction fwd stack seen rule: visit.induct)
  case (2 fwd n stack seen)
  show ?case
  proof (cases "n \<in> set seen")
    case True
    with 2 show ?thesis by auto
  next
    case False
    have "out_rel fwd `` set (n # seen) \<subseteq> set (n # seen) \<union> set (rev (out fwd n) @ stack)"
      using 2(3) by (auto simp: out_rel_def)
    with 2(2)[OF False] False show ?thesis by auto
  qed
qed auto

lemma set_visit: "set (visit fwd stack []) = (out_rel fwd)\<^sup>* `` set stack"
proof
  show "set (visit fwd stack []) \<subseteq> (out_rel fwd)\<^sup>* `` set stack"
    using visit_sound[of fwd stack "[]"] by simp
  have "m \<in> set (visit fwd stack [])" if "(n, m) \<in> (out_rel fwd)\<^sup>*" "n \<in> set stack" for n m
    using that
  proof (induction rule: rtrancl_induct)
    case base
    then show ?case using visit_complete[of fwd "[]" stack] by auto
  next
    case (step x y)
    then show ?case using visit_complete[of fwd "[]" stack] by (simp add: Image_subset_eq) blast
  qed
  then show "(out_rel fwd)\<^sup>* `` set stack \<subseteq> set (visit fwd stack [])"
    by auto
qed

lemma distinct_visit: "distinct seen \<Longrightarrow> distinct (visit fwd stack seen)"
  by (induction fwd stack seen rule: visit.induct) auto

lemma set_visit_out: "set (visit fwd (rev (out fwd n)) []) = {m. (n, m) \<in> (out_rel fwd)\<^sup>+}"
  by (auto simp: set_visit out_rel_def trancl_unfold_left)

section \<open>What networkx computes\<close>

type_synonym 'n shape = "'n list \<times> ('n \<times> 'n) list"

definition shape :: "('n, 'a) digraph \<Rightarrow> 'n shape" where
  "shape g = (nodes g, map fst (arcs g))"

definition wf_shape :: "'n shape \<Rightarrow> bool" where
  "wf_shape s \<longleftrightarrow>
     distinct (fst s) \<and> distinct (snd s)
     \<and> (\<forall>(u, v) \<in> set (snd s). u \<in> set (fst s) \<and> v \<in> set (fst s))"

lemma shape_simps [simp]: "fst (shape g) = nodes g" "set (snd (shape g)) = arc_set g"
  by (simp_all add: shape_def arc_set_def)

lemma wf_shape_shape [simp]: "wf_graph g \<Longrightarrow> wf_shape (shape g)"
  by (auto simp: wf_graph_def wf_shape_def) (simp_all add: shape_def)

text \<open>
  \<open>nx.descendants\<close> (as the set of its result), \<open>nx.is_directed_acyclic_graph\<close>,
  \<open>nx.strongly_connected_components\<close> and \<open>nx.lexicographical_topological_sort\<close> with the node itself
  as key.
\<close>

record 'n nx =
  nx_descendants :: "'n shape \<Rightarrow> 'n \<Rightarrow> 'n list"
  nx_acyclic :: "'n shape \<Rightarrow> bool"
  nx_sccs :: "'n shape \<Rightarrow> 'n list list"
  nx_topo :: "'n shape \<Rightarrow> 'n list"

definition topological :: "('n \<times> 'n) set \<Rightarrow> 'n list \<Rightarrow> bool" where
  "topological E ns \<longleftrightarrow> (\<forall>xs v ys. ns = xs @ v # ys \<longrightarrow> {u. (u, v) \<in> E} \<subseteq> set xs)"

definition mutual :: "('n \<times> 'n) set \<Rightarrow> 'n \<Rightarrow> 'n \<Rightarrow> bool" where
  "mutual E m n \<longleftrightarrow> (m, n) \<in> E\<^sup>* \<and> (n, m) \<in> E\<^sup>*"

locale networkx =
  fixes nx :: "'n nx"
  assumes descendants_spec:
      "wf_shape s \<Longrightarrow> n \<in> set (fst s) \<Longrightarrow>
       distinct (nx_descendants nx s n)
       \<and> set (nx_descendants nx s n) = {m. (n, m) \<in> (set (snd s))\<^sup>+} - {n}"
    and acyclic_spec: "wf_shape s \<Longrightarrow> nx_acyclic nx s \<longleftrightarrow> acyclic (set (snd s))"
    and sccs_spec:
      "wf_shape s \<Longrightarrow>
       set ` set (nx_sccs nx s) = (\<lambda>n. {m \<in> set (fst s). mutual (set (snd s)) n m}) ` set (fst s)"
    and sccs_distinct: "wf_shape s \<Longrightarrow> distinct (map set (nx_sccs nx s)) \<and> list_all distinct (nx_sccs nx s)"
    and topo_spec:
      "wf_shape s \<Longrightarrow> acyclic (set (snd s)) \<Longrightarrow>
       distinct (nx_topo nx s) \<and> set (nx_topo nx s) = set (fst s)
       \<and> topological (set (snd s)) (nx_topo nx s)"
begin

lemma graph_descendants:
  assumes "wf_graph (g :: ('n, 'a) digraph)" and "n \<in> set (nodes g)"
  shows "set (nx_descendants nx (shape g) n) = {m. (n, m) \<in> (arc_set g)\<^sup>+} - {n}"
    and "length (nx_descendants nx (shape g) n) = card ({m. (n, m) \<in> (arc_set g)\<^sup>+} - {n})"
proof -
  have *: "distinct (nx_descendants nx (shape g) n)
    \<and> set (nx_descendants nx (shape g) n) = {m. (n, m) \<in> (arc_set g)\<^sup>+} - {n}"
    using descendants_spec[of "shape g" n] assms by simp
  then show "set (nx_descendants nx (shape g) n) = {m. (n, m) \<in> (arc_set g)\<^sup>+} - {n}"
    by simp
  with * show "length (nx_descendants nx (shape g) n) = card ({m. (n, m) \<in> (arc_set g)\<^sup>+} - {n})"
    by (metis distinct_card)
qed

lemma graph_acyclic:
  "wf_graph (g :: ('n, 'a) digraph) \<Longrightarrow> nx_acyclic nx (shape g) \<longleftrightarrow> acyclic (arc_set g)"
  using acyclic_spec[of "shape g"] by simp

lemma graph_topo:
  assumes "wf_graph (g :: ('n, 'a) digraph)" and "acyclic (arc_set g)"
  shows "distinct (nx_topo nx (shape g))" and "set (nx_topo nx (shape g)) = set (nodes g)"
    and "topological (arc_set g) (nx_topo nx (shape g))"
  using topo_spec[of "shape g"] assms by simp_all

end

section \<open>A reference implementation\<close>

definition forward_of :: "('n \<times> 'n) list \<Rightarrow> ('n, 'n list) dict" where
  "forward_of es = map (\<lambda>u. (u, map snd (filter (\<lambda>e. fst e = u) es))) (remdups (map fst es))"

lemma out_rel_forward_of [simp]: "out_rel (forward_of es) = set es"
proof -
  have "set (out (forward_of es) n) = {m. (n, m) \<in> set es}" for n
  proof (cases "n \<in> fst ` set es")
    case True
    then have "map_of (forward_of es) n = Some (map snd (filter (\<lambda>e. fst e = n) es))"
      unfolding forward_of_def by (intro map_of_is_SomeI) (auto simp: comp_def)
    then show ?thesis
      by (force simp: out_def dict_get_def)
  next
    case False
    then have "dict_get (forward_of es) n = None"
      by (force simp: dict_get_None_iff forward_of_def)
    moreover have "\<nexists>m. (n, m) \<in> set es"
      using False by (metis fst_conv imageI)
    ultimately show ?thesis
      by (auto simp: out_def)
  qed
  then show ?thesis
    by (auto simp: out_rel_def)
qed

definition reach :: "('n \<times> 'n) list \<Rightarrow> 'n \<Rightarrow> 'n list" where
  "reach es n = visit (forward_of es) (rev (out (forward_of es) n)) []"

lemma set_reach [simp]: "set (reach es n) = {m. (n, m) \<in> (set es)\<^sup>+}"
  by (simp add: reach_def set_visit_out)

lemma distinct_reach [simp]: "distinct (reach es n)"
  by (simp add: reach_def distinct_visit)

function topo_loop :: "('n::linorder \<times> 'n) list \<Rightarrow> 'n list \<Rightarrow> 'n list" where
  "topo_loop es rest =
     (let ready = filter (\<lambda>n. list_all (\<lambda>(u, v). \<not> (v = n \<and> u \<in> set rest)) es) rest in
      if ready = [] then [] else
      let n = Min (set ready) in n # topo_loop es (remove1 n rest))"
  by pat_completeness auto
termination
proof (relation "measure (\<lambda>(es, rest). length rest)")
  fix es :: "('n::linorder \<times> 'n) list" and rest :: "'n list" and ready n
  assume r: "ready = filter (\<lambda>n. list_all (\<lambda>(u, v). \<not> (v = n \<and> u \<in> set rest)) es) rest"
    and ne: "ready \<noteq> []" and n: "n = Min (set ready)"
  have "n \<in> set ready"
    using ne n by (metis List.finite_set Min_in set_empty)
  then have "n \<in> set rest"
    using r by simp
  then have "length (remove1 n rest) < length rest"
    using length_pos_if_in_set[of n rest] by (simp add: length_remove1)
  then show "((es, remove1 n rest), es, rest) \<in> measure (\<lambda>(es, rest). length rest)"
    by simp
qed simp

declare topo_loop.simps [simp del]

lemma acyclic_has_source:
  assumes "acyclic E" and "finite E" and "rest \<noteq> {}"
  shows "\<exists>n \<in> rest. \<forall>u. (u, n) \<in> E \<longrightarrow> u \<notin> rest"
  using assms finite_acyclic_wf[OF assms(2,1)] wfE_min[of E] by (metis equals0I)

lemma topo_loop_correct:
  assumes "acyclic (set es)" and "distinct rest"
  shows "distinct (topo_loop es rest) \<and> set (topo_loop es rest) = set rest
    \<and> (\<forall>xs v ys. topo_loop es rest = xs @ v # ys \<longrightarrow>
         {u \<in> set rest. (u, v) \<in> set es} \<subseteq> set xs)"
  using assms
proof (induction es rest rule: topo_loop.induct)
  case (1 es rest)
  define ready where "ready = filter (\<lambda>n. list_all (\<lambda>(u, v). \<not> (v = n \<and> u \<in> set rest)) es) rest"
  have ready: "n \<in> set ready \<longleftrightarrow> n \<in> set rest \<and> (\<forall>u. (u, n) \<in> set es \<longrightarrow> u \<notin> set rest)" for n
    by (auto simp: ready_def list_all_iff)
  show ?case
  proof (cases "ready = []")
    case True
    then have "rest = []"
      using acyclic_has_source[OF 1(2), of "set rest"] ready by auto
    with True show ?thesis
      by (simp add: topo_loop.simps)
  next
    case False
    define n where "n = Min (set ready)"
    have n: "n \<in> set rest" "\<And>u. (u, n) \<in> set es \<Longrightarrow> u \<notin> set rest"
      using False ready by (metis List.finite_set Min_in n_def set_empty)+
    have step: "topo_loop es rest = n # topo_loop es (remove1 n rest)"
      unfolding topo_loop.simps[of es rest] Let_def ready_def[symmetric] n_def using False by simp
    have IH: "distinct (topo_loop es (remove1 n rest))"
      "set (topo_loop es (remove1 n rest)) = set rest - {n}"
      "\<And>xs v ys. topo_loop es (remove1 n rest) = xs @ v # ys \<Longrightarrow>
         {u \<in> set rest - {n}. (u, v) \<in> set es} \<subseteq> set xs"
      using 1(1)[OF ready_def False n_def 1(2)] 1(3) by (simp_all add: set_remove1_eq)
    have "{u \<in> set rest. (u, v) \<in> set es} \<subseteq> set xs"
      if "n # topo_loop es (remove1 n rest) = xs @ v # ys" for xs v ys
    proof (cases xs)
      case Nil
      with that n show ?thesis by auto
    next
      case (Cons x xs')
      with that have "topo_loop es (remove1 n rest) = xs' @ v # ys" and "x = n"
        by auto
      with IH(3) Cons show ?thesis by auto
    qed
    with IH n step show ?thesis by auto
  qed
qed

definition reference_nx :: "'n::linorder nx" where
  "reference_nx =
     \<lparr>nx_descendants = (\<lambda>s n. filter (\<lambda>m. m \<noteq> n) (reach (snd s) n)),
      nx_acyclic = (\<lambda>s. list_all (\<lambda>n. n \<notin> set (reach (snd s) n)) (fst s)),
      nx_sccs = (\<lambda>s. remdups (map (\<lambda>n. filter
        (\<lambda>m. m = n \<or> m \<in> set (reach (snd s) n) \<and> n \<in> set (reach (snd s) m)) (fst s)) (fst s))),
      nx_topo = (\<lambda>s. topo_loop (snd s) (fst s))\<rparr>"

lemma mutual_trancl: "mutual E n m \<longleftrightarrow> m = n \<or> (n, m) \<in> E\<^sup>+ \<and> (m, n) \<in> E\<^sup>+"
  by (auto simp: mutual_def rtrancl_eq_or_trancl)

lemma wf_shape_trancl_node: "wf_shape s \<Longrightarrow> (n, m) \<in> (set (snd s))\<^sup>+ \<Longrightarrow> n \<in> set (fst s)"
  by (auto simp: wf_shape_def dest!: tranclD)

interpretation reference: networkx reference_nx
proof
  fix s :: "'n::linorder shape" and n
  assume wf: "wf_shape s"
  show "nx_acyclic reference_nx s \<longleftrightarrow> acyclic (set (snd s))"
    using wf_shape_trancl_node[OF wf]
    by (auto simp: reference_nx_def list_all_iff acyclic_def)
  have comp: "set (filter (\<lambda>m. m = n \<or> m \<in> set (reach (snd s) n) \<and> n \<in> set (reach (snd s) m)) (fst s))
      = {m \<in> set (fst s). mutual (set (snd s)) n m}" for n
    by (auto simp: mutual_trancl)
  show "set ` set (nx_sccs reference_nx s) =
      (\<lambda>n. {m \<in> set (fst s). mutual (set (snd s)) n m}) ` set (fst s)"
    unfolding reference_nx_def nx.simps set_remdups set_map image_image comp ..
  show "distinct (map set (nx_sccs reference_nx s)) \<and> list_all distinct (nx_sccs reference_nx s)"
  proof
    have "xs = filter (\<lambda>m. m \<in> set xs) (fst s)" if "xs \<in> set (nx_sccs reference_nx s)" for xs
      using that by (auto simp: reference_nx_def intro: filter_cong)
    then have "inj_on set (set (nx_sccs reference_nx s))"
      by (intro inj_onI) metis
    then show "distinct (map set (nx_sccs reference_nx s))"
      by (simp add: distinct_map reference_nx_def)
    show "list_all distinct (nx_sccs reference_nx s)"
      using wf by (auto simp: reference_nx_def list_all_iff wf_shape_def)
  qed
  show "distinct (nx_topo reference_nx s) \<and> set (nx_topo reference_nx s) = set (fst s)
       \<and> topological (set (snd s)) (nx_topo reference_nx s)"
    if "acyclic (set (snd s))"
  proof -
    have "distinct (fst s)" and "{u. (u, v) \<in> set (snd s)} = {u \<in> set (fst s). (u, v) \<in> set (snd s)}" for v
      using wf by (auto simp: wf_shape_def)
    with topo_loop_correct[OF that, of "fst s"] show ?thesis
      by (simp add: reference_nx_def topological_def)
  qed
qed (auto simp: reference_nx_def)

end
