(* ===== verification/Fleet_Graph.thy ===== *)
theory Fleet_Graph
  imports Vocabulary Digraph
begin

text \<open>
  The graph models of \<open>src/fleet/models/graph.py\<close> (with \<open>Coordinate\<close> of \<open>models/repo.py\<close>), the graph
  builder \<open>src/fleet/graph/build.py\<close> and the reachability queries \<open>src/fleet/graph/query.py\<close>.
  Edges run from the dependent to the dependency. Confidences are rationals; the digest behind an
  edge key is an argument.
\<close>

section \<open>Coordinates and edge keys\<close>

text \<open>\<open>str.lower()\<close> on the first 256 code points.\<close>

definition lower_char :: "char \<Rightarrow> char" where
  "lower_char c =
     (let n = of_char c :: nat in
      if (65 \<le> n \<and> n \<le> 90) \<or> (192 \<le> n \<and> n \<le> 222 \<and> n \<noteq> 215) then char_of (n + 32) else c)"

definition lower :: "string \<Rightarrow> string" where
  "lower = map lower_char"

record coordinate =
  co_ecosystem :: ecosystem
  co_group :: string
  co_name :: string
  co_version_spec :: "string option"

definition coordinate_key :: "coordinate \<Rightarrow> coord_key" where
  "coordinate_key c =
     ecosystem_value (co_ecosystem c) @ CHR '':'' # lower (co_group c) @ CHR '':'' # lower (co_name c)"

definition NO_LINE :: int where
  "NO_LINE = -1"

definition nul :: char where
  "nul = CHR 0x00"

definition edge_key_preimage ::
  "string \<Rightarrow> string \<Rightarrow> string \<Rightarrow> string \<Rightarrow> string \<Rightarrow> string \<Rightarrow> int option \<Rightarrow> string list" where
  "edge_key_preimage src_kind src_id dst_kind dst_ref kind evidence_path evidence_line =
     [src_kind, src_id, dst_kind, dst_ref, kind, evidence_path,
      show_int (case evidence_line of None \<Rightarrow> NO_LINE | Some n \<Rightarrow> n)]"

definition edge_key_for ::
  "(string \<Rightarrow> string) \<Rightarrow> string \<Rightarrow> string \<Rightarrow> string \<Rightarrow> string \<Rightarrow> string \<Rightarrow> string \<Rightarrow> int option \<Rightarrow> edge_key"
where
  "edge_key_for sha256_text src_kind src_id dst_kind dst_ref kind evidence_path evidence_line =
     sha256_text (join nul
       (edge_key_preimage src_kind src_id dst_kind dst_ref kind evidence_path evidence_line))"

section \<open>Nodes, edges, contracts, findings, waves\<close>

type_synonym node_ref = "string \<times> string"

record graph_node =
  gn_kind :: node_kind
  gn_id :: string

definition graph_node_key :: "graph_node \<Rightarrow> node_ref" where
  "graph_node_key n = (node_kind_value (gn_kind n), gn_id n)"

definition DAG_EDGE_KINDS :: "edge_kind list" where
  "DAG_EDGE_KINDS =
     [DECLARED_DEP, PUBLISHED_ARTIFACT, INTERNAL_IMPORT, API_CONTRACT, CONTRACT_IMPL,
      CONTRACT_CONSUME]"

record dependency_edge =
  de_edge_id :: "int option"
  de_edge_key :: edge_key
  de_src_kind :: node_kind
  de_src_id :: string
  de_dst_kind :: node_kind
  de_dst_coordinate :: "coordinate option"
  de_dst_id :: "string option"
  de_dst_candidates :: "repo_id list"
  de_retargeted_from :: "repo_id option"
  de_kind :: edge_kind
  de_version_spec :: "string option"
  de_base_confidence :: rat
  de_confidence :: rat
  de_confidence_factors :: "(string, rat) dict"
  de_ambiguous :: bool
  de_suppressed :: bool
  de_evidence_path :: string
  de_evidence_line :: "int option"
  de_detected_at :: instant

datatype edge_shape_error =
    SelfEdge
  | RepoWithoutCoordinate
  | UnresolvedContract
  | KindMismatch
  | ContractIntoRepo

text \<open>\<open>DependencyEdge._node_shape\<close>, in the order of its checks.\<close>

definition node_shape :: "dependency_edge \<Rightarrow> edge_shape_error option" where
  "node_shape e =
     (if de_dst_kind e = de_src_kind e \<and> de_dst_id e = Some (de_src_id e) then Some SelfEdge
      else if de_dst_kind e = REPO \<and> de_dst_coordinate e = None then Some RepoWithoutCoordinate
      else if de_dst_kind e = CONTRACT \<and> de_dst_id e = None then Some UnresolvedContract
      else if (de_kind e \<in> set CONTRACT_EDGE_KINDS) \<noteq> (de_dst_kind e = CONTRACT)
      then Some KindMismatch
      else if de_src_kind e = CONTRACT \<and> de_dst_kind e \<noteq> CONTRACT then Some ContractIntoRepo
      else None)"

definition is_internal :: "dependency_edge \<Rightarrow> bool" where
  "is_internal e \<longleftrightarrow> de_dst_id e \<noteq> None"

definition edge_orders_migration :: "dependency_edge \<Rightarrow> rat \<Rightarrow> bool" where
  "edge_orders_migration e min_confidence \<longleftrightarrow>
     is_internal e \<and> de_kind e \<in> set DAG_EDGE_KINDS \<and> \<not> de_suppressed e
     \<and> de_confidence e \<ge> min_confidence"

record contract_node =
  cn_contract_id :: contract_id
  cn_kind :: contract_kind
  cn_identifier :: string
  cn_owner :: "repo_id option"
  cn_source_paths :: "(string, string) dict list"
  cn_generated_paths :: "(string, string) dict list"
  cn_consumers :: "repo_id list"
  cn_extractable :: bool
  cn_extraction_confidence :: rat
  cn_confidence_factors :: "(string, rat) dict"
  cn_content_sha256 :: string
  cn_hoist_target_path :: "string option"
  cn_status :: contract_status
  cn_status_detail :: string
  cn_detected_at :: instant

definition hoistable_is_substantiated :: "contract_node \<Rightarrow> bool" where
  "hoistable_is_substantiated c \<longleftrightarrow>
     \<not> (cn_extractable c \<and> (cn_hoist_target_path c = None \<or> cn_owner c = None))
     \<and> \<not> (cn_status c \<in> {CS_HOISTED, CS_MIGRATED} \<and> \<not> cn_extractable c)"

definition contract_graph_node :: "contract_node \<Rightarrow> graph_node" where
  "contract_graph_node c = \<lparr>gn_kind = CONTRACT, gn_id = cn_contract_id c\<rparr>"

record cycle_finding =
  cf_scc_id :: string
  cf_members :: "repo_id list"
  cf_edges :: "edge_key list"
  cf_feedback :: "edge_key list"
  cf_proposed :: "edge_key option"
  cf_superseded_by :: "string option"
  cf_hoisted :: "contract_id list"
  cf_broken :: "edge_key list"
  cf_strategy :: break_strategy
  cf_atomic_wave :: "int option"
  cf_rationale :: string

text \<open>\<open>CycleFinding._strategy_is_substantiated\<close> and the two field bounds.\<close>

definition strategy_is_substantiated :: "cycle_finding \<Rightarrow> bool" where
  "strategy_is_substantiated f \<longleftrightarrow>
     2 \<le> length (cf_members f)
     \<and> (case cf_atomic_wave f of None \<Rightarrow> True | Some i \<Rightarrow> 0 \<le> i)
     \<and> (cf_strategy f = CONTRACT_HOIST \<longrightarrow> cf_hoisted f \<noteq> [] \<and> cf_broken f = [])
     \<and> (cf_strategy f = EDGE_BREAK \<longrightarrow> cf_broken f \<noteq> [])
     \<and> (cf_strategy f = ATOMIC_WAVE \<longrightarrow> cf_atomic_wave f \<noteq> None)"

record migration_wave =
  mw_index :: int
  mw_repo_ids :: "repo_id list"
  mw_contract_ids :: "contract_id list"
  mw_depends_on :: "int list"
  mw_atomic_scc_ids :: "string list"
  mw_synthetic :: bool

text \<open>\<open>MigrationWave._wave_is_non_empty\<close> and the bound on the index.\<close>

definition wave_is_valid :: "migration_wave \<Rightarrow> bool" where
  "wave_is_valid w \<longleftrightarrow> 0 \<le> mw_index w \<and> (mw_repo_ids w \<noteq> [] \<or> mw_contract_ids w \<noteq> [])"

section \<open>Building the graphs\<close>

record arc_attr =
  edge_keys :: "edge_key list"
  kinds :: "string list"

type_synonym ref_graph = "(node_ref, arc_attr) digraph"

datatype graph_error =
    ConfigError "string list"
  | DanglingNode edge_key node_ref

definition validate_dag_edge_kinds :: "edge_kind list \<Rightarrow> bool \<Rightarrow> graph_error + edge_kind set" where
  "validate_dag_edge_kinds ks hoist_contracts =
     (let missing = sort (map edge_kind_value (filter (\<lambda>k. k \<notin> set ks) CONTRACT_EDGE_KINDS)) in
      if hoist_contracts \<and> missing \<noteq> [] then Inl (ConfigError missing) else Inr (set ks))"

definition orders_migration :: "edge_kind set \<Rightarrow> rat \<Rightarrow> dependency_edge \<Rightarrow> bool" where
  "orders_migration dag_edge_kinds min_confidence e \<longleftrightarrow>
     is_internal e \<and> de_kind e \<in> dag_edge_kinds \<and> \<not> de_suppressed e
     \<and> de_confidence e \<ge> min_confidence"

definition node_ref_of :: "node_kind \<Rightarrow> string \<Rightarrow> node_ref" where
  "node_ref_of kind node_id = (node_kind_value kind, node_id)"

definition link :: "node_ref \<Rightarrow> node_ref \<Rightarrow> dependency_edge \<Rightarrow> ref_graph \<Rightarrow> ref_graph" where
  "link src dst e g =
     add_edge src dst
       (case arc_data g src dst of
          Some a \<Rightarrow> \<lparr>edge_keys = sorted_set (edge_keys a @ [de_edge_key e]),
                     kinds = sorted_set (kinds a @ [edge_kind_value (de_kind e)])\<rparr>
        | None \<Rightarrow> \<lparr>edge_keys = [de_edge_key e], kinds = [edge_kind_value (de_kind e)]\<rparr>) g"

record build_state =
  bs_graph :: ref_graph
  bs_dag :: ref_graph
  bs_by_key :: "(edge_key, dependency_edge) dict"
  bs_ordering :: "edge_key set"

fun build_loop ::
  "edge_kind set \<Rightarrow> rat \<Rightarrow> node_ref set \<Rightarrow> dependency_edge list \<Rightarrow> build_state \<Rightarrow> graph_error + build_state"
where
  "build_loop ks min_confidence known [] st = Inr st"
| "build_loop ks min_confidence known (e # es) st =
     (case de_dst_id e of
        None \<Rightarrow> build_loop ks min_confidence known es st
      | Some dst_id \<Rightarrow>
          let src = node_ref_of (de_src_kind e) (de_src_id e);
              dst = node_ref_of (de_dst_kind e) dst_id in
          if src \<notin> known then Inl (DanglingNode (de_edge_key e) src)
          else if dst \<notin> known then Inl (DanglingNode (de_edge_key e) dst)
          else
            let st1 = st\<lparr>bs_by_key := dict_set (bs_by_key st) (de_edge_key e) e,
                         bs_graph := link src dst e (bs_graph st)\<rparr>;
                st2 = (if orders_migration ks min_confidence e
                       then st1\<lparr>bs_ordering := insert (de_edge_key e) (bs_ordering st1),
                                bs_dag := link src dst e (bs_dag st1)\<rparr>
                       else st1) in
            build_loop ks min_confidence known es st2)"

text \<open>One iteration of the loop as a value of its own, for evaluation.\<close>

definition build_edge ::
  "edge_kind set \<Rightarrow> rat \<Rightarrow> node_ref set \<Rightarrow> dependency_edge \<Rightarrow> build_state \<Rightarrow> graph_error + build_state"
where
  "build_edge ks min_confidence known e st = build_loop ks min_confidence known [e] st"

lemma build_edge_code [code]:
  "build_edge ks min_confidence known e st =
     (case de_dst_id e of
        None \<Rightarrow> Inr st
      | Some dst_id \<Rightarrow>
          let src = node_ref_of (de_src_kind e) (de_src_id e);
              dst = node_ref_of (de_dst_kind e) dst_id in
          if src \<notin> known then Inl (DanglingNode (de_edge_key e) src)
          else if dst \<notin> known then Inl (DanglingNode (de_edge_key e) dst)
          else
            let st1 = st\<lparr>bs_by_key := dict_set (bs_by_key st) (de_edge_key e) e,
                         bs_graph := link src dst e (bs_graph st)\<rparr> in
            Inr (if orders_migration ks min_confidence e
                 then st1\<lparr>bs_ordering := insert (de_edge_key e) (bs_ordering st1),
                          bs_dag := link src dst e (bs_dag st1)\<rparr>
                 else st1))"
  by (simp add: build_edge_def Let_def split: option.split)

lemma build_loop_code [code]:
  "build_loop ks c known [] st = Inr st"
  "build_loop ks c known (e # es) st = rbind (build_edge ks c known e st) (build_loop ks c known es)"
  by (simp_all add: build_edge_code Let_def split: option.split)

record fleet_graph =
  fg_G :: ref_graph
  fg_G_rev :: ref_graph
  fg_G_dag :: ref_graph
  fg_G_order :: ref_graph
  fg_edges_by_key :: "(edge_key, dependency_edge) dict"
  fg_ordering_edge_keys :: "edge_key set"

definition build_graph ::
  "graph_node list \<Rightarrow> dependency_edge list \<Rightarrow> edge_kind list \<Rightarrow> rat \<Rightarrow> bool
   \<Rightarrow> graph_error + fleet_graph" where
  "build_graph ns es dag_edge_kinds min_confidence hoist_contracts =
     rbind (validate_dag_edge_kinds dag_edge_kinds hoist_contracts) (\<lambda>ks.
       let refs = sorted_set (map (\<lambda>n. node_ref_of (gn_kind n) (gn_id n)) ns);
           bare = \<lparr>nodes = refs, arcs = []\<rparr> in
       rbind (build_loop ks min_confidence (set refs) (sort_key de_edge_key es)
                \<lparr>bs_graph = bare, bs_dag = bare, bs_by_key = [], bs_ordering = {}\<rparr>) (\<lambda>st.
         Inr \<lparr>fg_G = bs_graph st, fg_G_rev = reverse (bs_graph st), fg_G_dag = bs_dag st,
              fg_G_order = reverse (bs_dag st),
              fg_edges_by_key = sort_key fst (bs_by_key st),
              fg_ordering_edge_keys = bs_ordering st\<rparr>))"

definition node_refs :: "fleet_graph \<Rightarrow> node_ref list" where
  "node_refs fg = sort (nodes (fg_G fg))"

text \<open>\<open>None\<close> where the source raises \<open>KeyError\<close>.\<close>

definition edge_records :: "fleet_graph \<Rightarrow> node_ref \<Rightarrow> node_ref \<Rightarrow> dependency_edge list option" where
  "edge_records fg src dst =
     (case arc_data (fg_G fg) src dst of
        None \<Rightarrow> None
      | Some a \<Rightarrow>
          (case traverse (\<lambda>k. case dict_get (fg_edges_by_key fg) k of None \<Rightarrow> Inl () | Some e \<Rightarrow> Inr e)
                  (edge_keys a) of
             Inl _ \<Rightarrow> None | Inr recs \<Rightarrow> Some recs))"

section \<open>Queries\<close>

definition descendants :: "node_ref nx \<Rightarrow> (node_ref, 'a) digraph \<Rightarrow> node_ref \<Rightarrow> node_ref list" where
  "descendants nx g n = sort (nx_descendants nx (shape g) n)"

definition blast_radius :: "node_ref nx \<Rightarrow> fleet_graph \<Rightarrow> node_ref \<Rightarrow> nat" where
  "blast_radius nx fg n = length (nx_descendants nx (shape (fg_G_order fg)) n)"

definition blast_radii :: "node_ref nx \<Rightarrow> fleet_graph \<Rightarrow> (node_ref, nat) dict" where
  "blast_radii nx fg = map (\<lambda>n. (n, blast_radius nx fg n)) (node_refs fg)"

section \<open>What the builder computes\<close>

definition src_ref :: "dependency_edge \<Rightarrow> node_ref" where
  "src_ref e = node_ref_of (de_src_kind e) (de_src_id e)"

definition dst_ref :: "dependency_edge \<Rightarrow> node_ref" where
  "dst_ref e = node_ref_of (de_dst_kind e) (the (de_dst_id e))"

text \<open>Who depends on whom, directly: the arcs that the edges of a class justify.\<close>

definition depends_on :: "(dependency_edge \<Rightarrow> bool) \<Rightarrow> dependency_edge list \<Rightarrow> (node_ref \<times> node_ref) set" where
  "depends_on P es = {(src_ref e, dst_ref e) | e. e \<in> set es \<and> is_internal e \<and> P e}"

lemma depends_on_Nil [simp]: "depends_on P [] = {}"
  by (simp add: depends_on_def)

lemma depends_on_Cons:
  "depends_on P (e # es) =
     (if is_internal e \<and> P e then insert (src_ref e, dst_ref e) (depends_on P es)
      else depends_on P es)"
  by (auto simp: depends_on_def)

lemma depends_on_orders:
  "depends_on (orders_migration ks c) es =
     {(src_ref e, dst_ref e) | e. e \<in> set es \<and> orders_migration ks c e}"
  by (auto simp: depends_on_def orders_migration_def)

lemma depends_on_sort [simp]: "depends_on P (sort_key f es) = depends_on P es"
  by (simp add: depends_on_def)

definition keys_at :: "ref_graph \<Rightarrow> node_ref \<Rightarrow> node_ref \<Rightarrow> edge_key list" where
  "keys_at g u v = (case arc_data g u v of None \<Rightarrow> [] | Some a \<Rightarrow> edge_keys a)"

lemma nodes_link [simp]: "set (nodes (link src dst e g)) = {src, dst} \<union> set (nodes g)"
  by (simp add: link_def)

lemma arc_set_link [simp]: "arc_set (link src dst e g) = insert (src, dst) (arc_set g)"
  by (simp add: link_def)

lemma wf_link [simp]: "wf_graph g \<Longrightarrow> wf_graph (link src dst e g)"
  by (simp add: link_def)

lemma set_keys_at_link [simp]:
  "set (keys_at (link src dst e g) u v) =
     (if u = src \<and> v = dst then {de_edge_key e} else {}) \<union> set (keys_at g u v)"
  by (auto simp: link_def keys_at_def split: option.splits)

lemma sorted_keys_at_link:
  "sorted (keys_at g u v) \<and> distinct (keys_at g u v) \<Longrightarrow>
   sorted (keys_at (link src dst e g) u v) \<and> distinct (keys_at (link src dst e g) u v)"
  by (auto simp: link_def keys_at_def split: option.splits)

lemma add_edge_nodes_eq:
  "u \<in> set (nodes g) \<Longrightarrow> v \<in> set (nodes g) \<Longrightarrow> nodes (add_edge u v a g) = nodes g"
  by (simp add: add_edge_def add_node_def)

lemma nodes_link_eq:
  "src \<in> set (nodes g) \<Longrightarrow> dst \<in> set (nodes g) \<Longrightarrow> nodes (link src dst e g) = nodes g"
  by (simp add: link_def add_edge_nodes_eq)

text \<open>What holds between the state of the loop and the edges it has processed.\<close>

definition built :: "edge_kind set \<Rightarrow> rat \<Rightarrow> node_ref list \<Rightarrow> dependency_edge list \<Rightarrow> build_state \<Rightarrow> bool" where
  "built ks c refs es st \<longleftrightarrow>
     nodes (bs_graph st) = refs \<and> nodes (bs_dag st) = refs
     \<and> wf_graph (bs_graph st) \<and> wf_graph (bs_dag st)
     \<and> arc_set (bs_graph st) = depends_on (\<lambda>_. True) es
     \<and> arc_set (bs_dag st) = depends_on (orders_migration ks c) es
     \<and> bs_ordering st = de_edge_key ` {e \<in> set es. orders_migration ks c e}
     \<and> fst ` set (bs_by_key st) = de_edge_key ` {e \<in> set es. is_internal e}
     \<and> distinct (map fst (bs_by_key st))
     \<and> (\<forall>k e. dict_get (bs_by_key st) k = Some e \<longrightarrow> e \<in> set es \<and> is_internal e \<and> de_edge_key e = k)
     \<and> (\<forall>u v. set (keys_at (bs_graph st) u v) =
          de_edge_key ` {e \<in> set es. is_internal e \<and> src_ref e = u \<and> dst_ref e = v}
          \<and> sorted (keys_at (bs_graph st) u v) \<and> distinct (keys_at (bs_graph st) u v))"

definition known_edge :: "node_ref set \<Rightarrow> dependency_edge \<Rightarrow> bool" where
  "known_edge known e \<longleftrightarrow> is_internal e \<longrightarrow> src_ref e \<in> known \<and> dst_ref e \<in> known"

definition build_step :: "edge_kind set \<Rightarrow> rat \<Rightarrow> dependency_edge \<Rightarrow> build_state \<Rightarrow> build_state" where
  "build_step ks c e st =
     (if \<not> is_internal e then st
      else let st1 = st\<lparr>bs_by_key := dict_set (bs_by_key st) (de_edge_key e) e,
                        bs_graph := link (src_ref e) (dst_ref e) e (bs_graph st)\<rparr> in
        if orders_migration ks c e
        then st1\<lparr>bs_ordering := insert (de_edge_key e) (bs_ordering st1),
                 bs_dag := link (src_ref e) (dst_ref e) e (bs_dag st1)\<rparr>
        else st1)"

lemma build_loop_Cons:
  "build_loop ks c known (e # es) st =
     (if known_edge known e then build_loop ks c known es (build_step ks c e st)
      else Inl (DanglingNode (de_edge_key e) (if src_ref e \<notin> known then src_ref e else dst_ref e)))"
  by (auto simp: known_edge_def build_step_def is_internal_def src_ref_def dst_ref_def Let_def
      split: option.splits)

declare build_loop.simps(2) [simp del] build_loop_Cons [simp]

lemma build_loop_Inr_iff:
  "(\<exists>st'. build_loop ks c known es st = Inr st') \<longleftrightarrow> list_all (known_edge known) es"
  by (induction es arbitrary: st) simp_all

lemma orders_internal: "orders_migration ks c e \<Longrightarrow> is_internal e"
  by (simp add: orders_migration_def)

lemma built_step:
  assumes "built ks c refs es st" and "known_edge (set refs) e"
  shows "built ks c refs (es @ [e]) (build_step ks c e st)"
proof (cases "is_internal e")
  case False
  then have "depends_on P (es @ [e]) = depends_on P es" for P
    by (auto simp: depends_on_def)
  moreover have "{f \<in> set (es @ [e]). is_internal f \<and> P f} = {f \<in> set es. is_internal f \<and> P f}" for P
    using False by auto
  moreover have "{f \<in> set (es @ [e]). orders_migration ks c f} = {f \<in> set es. orders_migration ks c f}"
    using False orders_internal by auto
  moreover have "{f \<in> set (es @ [e]). is_internal f} = {f \<in> set es. is_internal f}"
    using False by auto
  ultimately show ?thesis
    using assms False by (simp add: built_def build_step_def)
next
  case True
  have d: "depends_on P (es @ [e]) =
      (if P e then insert (src_ref e, dst_ref e) (depends_on P es) else depends_on P es)" for P
    using True by (auto simp: depends_on_def)
  have refs: "src_ref e \<in> set refs" "dst_ref e \<in> set refs"
    using assms(2) True by (simp_all add: known_edge_def)
  let ?g = "bs_graph (build_step ks c e st)"
  have g: "?g = link (src_ref e) (dst_ref e) e (bs_graph st)"
    using True by (simp add: build_step_def Let_def)
  have keys: "set (keys_at ?g u v) =
      de_edge_key ` {f \<in> set (es @ [e]). is_internal f \<and> src_ref f = u \<and> dst_ref f = v}
      \<and> sorted (keys_at ?g u v) \<and> distinct (keys_at ?g u v)" for u v
  proof -
    have "{f \<in> set (es @ [e]). is_internal f \<and> src_ref f = u \<and> dst_ref f = v} =
        (if u = src_ref e \<and> v = dst_ref e then {e} else {})
        \<union> {f \<in> set es. is_internal f \<and> src_ref f = u \<and> dst_ref f = v}"
      using True by auto
    moreover have "set (keys_at (bs_graph st) u v) =
        de_edge_key ` {e \<in> set es. is_internal e \<and> src_ref e = u \<and> dst_ref e = v}
        \<and> sorted (keys_at (bs_graph st) u v) \<and> distinct (keys_at (bs_graph st) u v)"
      using assms(1) unfolding built_def by blast
    ultimately show ?thesis
      unfolding g using sorted_keys_at_link[of "bs_graph st" u v]
      by (simp only: set_keys_at_link image_Un) auto
  qed
  have "{f \<in> set (es @ [e]). is_internal f} = insert e {f \<in> set es. is_internal f}"
    "{f \<in> set (es @ [e]). orders_migration ks c f} =
       (if orders_migration ks c e then {e} else {}) \<union> {f \<in> set es. orders_migration ks c f}"
    using True by auto
  with assms(1) keys refs True d show ?thesis
    by (auto simp: built_def build_step_def Let_def nodes_link_eq split: if_splits)
qed

lemma built_loop:
  assumes "built ks c refs done st" and "build_loop ks c (set refs) es st = Inr st'"
  shows "built ks c refs (done @ es) st'"
  using assms
proof (induction es arbitrary: "done" st)
  case (Cons e es)
  then have k: "known_edge (set refs) e"
    and l: "build_loop ks c (set refs) es (build_step ks c e st) = Inr st'"
    by (auto split: if_splits)
  from Cons.IH[OF built_step[OF Cons.prems(1) k] l] show ?case
    by simp
qed simp

lemma built_init:
  "distinct refs \<Longrightarrow>
   built ks c refs [] \<lparr>bs_graph = \<lparr>nodes = refs, arcs = []\<rparr>, bs_dag = \<lparr>nodes = refs, arcs = []\<rparr>,
     bs_by_key = [], bs_ordering = {}\<rparr>"
  by (simp add: built_def wf_graph_def arc_set_def keys_at_def arc_data_def)

definition fleet_refs :: "graph_node list \<Rightarrow> node_ref list" where
  "fleet_refs ns = sorted_set (map (\<lambda>n. node_ref_of (gn_kind n) (gn_id n)) ns)"

lemma validate_Inr_iff:
  "validate_dag_edge_kinds ks hoist = Inr k \<longleftrightarrow>
     k = set ks \<and> (hoist \<longrightarrow> CONTRACT_IMPL \<in> set ks \<and> CONTRACT_CONSUME \<in> set ks)"
  by (auto simp: validate_dag_edge_kinds_def CONTRACT_EDGE_KINDS_def Let_def)

lemma build_graph_Inr:
  assumes "build_graph ns es ks c hoist = Inr fg"
  obtains st where "built (set ks) c (fleet_refs ns) (sort_key de_edge_key es) st"
    and "fg = \<lparr>fg_G = bs_graph st, fg_G_rev = reverse (bs_graph st), fg_G_dag = bs_dag st,
              fg_G_order = reverse (bs_dag st), fg_edges_by_key = sort_key fst (bs_by_key st),
              fg_ordering_edge_keys = bs_ordering st\<rparr>"
    and "list_all (known_edge (set (fleet_refs ns))) es"
proof -
  from assms obtain st where l: "build_loop (set ks) c (set (fleet_refs ns)) (sort_key de_edge_key es)
      \<lparr>bs_graph = \<lparr>nodes = fleet_refs ns, arcs = []\<rparr>, bs_dag = \<lparr>nodes = fleet_refs ns, arcs = []\<rparr>,
       bs_by_key = [], bs_ordering = {}\<rparr> = Inr st"
    and fg: "fg = \<lparr>fg_G = bs_graph st, fg_G_rev = reverse (bs_graph st), fg_G_dag = bs_dag st,
              fg_G_order = reverse (bs_dag st), fg_edges_by_key = sort_key fst (bs_by_key st),
              fg_ordering_edge_keys = bs_ordering st\<rparr>"
    unfolding build_graph_def fleet_refs_def Let_def
    by (elim rbind_InrE) (auto simp: validate_Inr_iff)
  have "list_all (known_edge (set (fleet_refs ns))) (sort_key de_edge_key es)"
    using l build_loop_Inr_iff by blast
  then have "list_all (known_edge (set (fleet_refs ns))) es"
    by (simp add: list_all_iff)
  moreover have "built (set ks) c (fleet_refs ns) ([] @ sort_key de_edge_key es) st"
    by (rule built_loop[OF built_init l]) (simp add: fleet_refs_def)
  ultimately show ?thesis
    using that fg by simp
qed

lemma build_graph_arcs:
  assumes "build_graph ns es ks c hoist = Inr fg"
  shows "wf_graph (fg_G fg)" and "wf_graph (fg_G_dag fg)"
    and "fg_G_rev fg = reverse (fg_G fg)" and "fg_G_order fg = reverse (fg_G_dag fg)"
    and "arc_set (fg_G fg) = depends_on (\<lambda>_. True) es"
    and "arc_set (fg_G_dag fg) = depends_on (orders_migration (set ks) c) es"
    and "nodes (fg_G_dag fg) = nodes (fg_G fg)" and "node_refs fg = nodes (fg_G fg)"
    and "nodes (fg_G fg) = fleet_refs ns"
proof -
  from assms obtain st where st: "built (set ks) c (fleet_refs ns) (sort_key de_edge_key es) st"
    and fg: "fg = \<lparr>fg_G = bs_graph st, fg_G_rev = reverse (bs_graph st), fg_G_dag = bs_dag st,
              fg_G_order = reverse (bs_dag st), fg_edges_by_key = sort_key fst (bs_by_key st),
              fg_ordering_edge_keys = bs_ordering st\<rparr>"
    by (rule build_graph_Inr)
  have "sort (fleet_refs ns) = fleet_refs ns"
    by (simp add: fleet_refs_def sorted_sort_id)
  with st show "wf_graph (fg_G fg)" and "wf_graph (fg_G_dag fg)"
    and "fg_G_rev fg = reverse (fg_G fg)" and "fg_G_order fg = reverse (fg_G_dag fg)"
    and "arc_set (fg_G fg) = depends_on (\<lambda>_. True) es"
    and "arc_set (fg_G_dag fg) = depends_on (orders_migration (set ks) c) es"
    and "nodes (fg_G_dag fg) = nodes (fg_G fg)" and "node_refs fg = nodes (fg_G fg)"
    and "nodes (fg_G fg) = fleet_refs ns"
    by (simp_all add: fg built_def node_refs_def)
qed

lemma build_graph_Inr_iff:
  "(\<exists>fg. build_graph ns es ks c hoist = Inr fg) \<longleftrightarrow>
     (hoist \<longrightarrow> CONTRACT_IMPL \<in> set ks \<and> CONTRACT_CONSUME \<in> set ks)
     \<and> (\<forall>e \<in> set es. known_edge (set (fleet_refs ns)) e)"
  by (auto simp: build_graph_def rbind_Inr_iff validate_Inr_iff build_loop_Inr_iff Let_def
      list_all_iff fleet_refs_def)

lemma set_fleet_refs [simp]: "set (fleet_refs ns) = (\<lambda>n. node_ref_of (gn_kind n) (gn_id n)) ` set ns"
  by (simp add: fleet_refs_def)

lemma dict_get_sort: "distinct (map fst d) \<Longrightarrow> dict_get (sort_key fst d) k = dict_get d k"
  using map_of_inject_set[of "sort_key fst d" d] by (simp add: dict_get_def distinct_map)

lemma by_key_lookup:
  assumes "built ks c refs es st" and "e \<in> set es" and "is_internal e"
    and "\<forall>f \<in> set es. de_edge_key f = de_edge_key e \<longrightarrow> f = e"
  shows "dict_get (sort_key fst (bs_by_key st)) (de_edge_key e) = Some e"
proof -
  have "dict_get (bs_by_key st) (de_edge_key e) \<noteq> None"
    using assms(1-3) by (auto simp: dict_get_None_iff built_def)
  then obtain f where f: "dict_get (bs_by_key st) (de_edge_key e) = Some f"
    by blast
  then have "f \<in> set es \<and> de_edge_key f = de_edge_key e"
    using assms(1) unfolding built_def by blast
  then have "f = e"
    using assms(4) by blast
  moreover have "distinct (map fst (bs_by_key st))"
    using assms(1) unfolding built_def by blast
  ultimately show ?thesis
    using f by (simp only: dict_get_sort)
qed

section \<open>Properties\<close>

text \<open>
  C34: The builder succeeds exactly when every internal edge joins two known nodes and, if
  contracts are hoisted, both contract kinds order migration. Its four graphs then have the same
  nodes; an arc of \<open>G\<close> runs from the dependent to the dependency of some internal edge, \<open>G_dag\<close>
  keeps exactly the arcs of edges that order migration, and \<open>G_rev\<close> and \<open>G_order\<close> are the mirror
  images, so a dependency precedes its dependents there.
\<close>

theorem build_graph_orientation:
  "((\<exists>fg. build_graph ns es ks c hoist = Inr fg) \<longleftrightarrow>
      (hoist \<longrightarrow> CONTRACT_IMPL \<in> set ks \<and> CONTRACT_CONSUME \<in> set ks)
      \<and> (\<forall>e \<in> set es. is_internal e \<longrightarrow>
           {src_ref e, dst_ref e} \<subseteq> (\<lambda>n. node_ref_of (gn_kind n) (gn_id n)) ` set ns))
   \<and> (\<forall>fg. build_graph ns es ks c hoist = Inr fg \<longrightarrow>
        list_all (\<lambda>g. wf_graph g \<and> nodes g = node_refs fg)
          [fg_G fg, fg_G_rev fg, fg_G_dag fg, fg_G_order fg]
        \<and> arc_set (fg_G fg) = {(src_ref e, dst_ref e) | e. e \<in> set es \<and> is_internal e}
        \<and> arc_set (fg_G_dag fg) =
            {(src_ref e, dst_ref e) | e. e \<in> set es \<and> orders_migration (set ks) c e}
        \<and> arc_set (fg_G_rev fg) = (arc_set (fg_G fg))\<inverse>
        \<and> arc_set (fg_G_order fg) = (arc_set (fg_G_dag fg))\<inverse>
        \<and> arc_set (fg_G_dag fg) \<subseteq> arc_set (fg_G fg))"
proof (intro conjI allI impI)
  show "(\<exists>fg. build_graph ns es ks c hoist = Inr fg) \<longleftrightarrow>
      (hoist \<longrightarrow> CONTRACT_IMPL \<in> set ks \<and> CONTRACT_CONSUME \<in> set ks)
      \<and> (\<forall>e \<in> set es. is_internal e \<longrightarrow>
           {src_ref e, dst_ref e} \<subseteq> (\<lambda>n. node_ref_of (gn_kind n) (gn_id n)) ` set ns)"
    by (auto simp: build_graph_Inr_iff known_edge_def)
next
  fix fg assume fg: "build_graph ns es ks c hoist = Inr fg"
  note arcs = build_graph_arcs[OF fg]
  show "list_all (\<lambda>g. wf_graph g \<and> nodes g = node_refs fg)
          [fg_G fg, fg_G_rev fg, fg_G_dag fg, fg_G_order fg]"
    using arcs by simp
  show "arc_set (fg_G fg) = {(src_ref e, dst_ref e) | e. e \<in> set es \<and> is_internal e}"
    and "arc_set (fg_G_dag fg) =
            {(src_ref e, dst_ref e) | e. e \<in> set es \<and> orders_migration (set ks) c e}"
    and "arc_set (fg_G_rev fg) = (arc_set (fg_G fg))\<inverse>"
    and "arc_set (fg_G_order fg) = (arc_set (fg_G_dag fg))\<inverse>"
    and "arc_set (fg_G_dag fg) \<subseteq> arc_set (fg_G fg)"
    using arcs orders_internal by (auto simp: depends_on_def)
qed

text \<open>A two-repository fleet for the examples: \<open>app\<close> depends on \<open>lib\<close>.\<close>

definition sample_edge :: "string \<Rightarrow> string \<Rightarrow> edge_key \<Rightarrow> dependency_edge" where
  "sample_edge src dst key =
     \<lparr>de_edge_id = None, de_edge_key = key, de_src_kind = REPO, de_src_id = src,
      de_dst_kind = REPO,
      de_dst_coordinate = Some \<lparr>co_ecosystem = ECO_MAVEN, co_group = ''acme'', co_name = dst,
                                co_version_spec = None\<rparr>,
      de_dst_id = Some dst, de_dst_candidates = [], de_retargeted_from = None,
      de_kind = DECLARED_DEP, de_version_spec = None, de_base_confidence = 1, de_confidence = 1,
      de_confidence_factors = [], de_ambiguous = False, de_suppressed = False,
      de_evidence_path = ''pom.xml'', de_evidence_line = Some 7, de_detected_at = 0\<rparr>"

definition sample_nodes :: "graph_node list" where
  "sample_nodes = map (\<lambda>i. \<lparr>gn_kind = REPO, gn_id = i\<rparr>) [''app'', ''lib'']"

lemma sample_graph_builds:
  "\<exists>fg. build_graph sample_nodes [sample_edge ''app'' ''lib'' ''k''] DAG_EDGE_KINDS (1 / 2) True = Inr fg
     \<and> arc_set (fg_G_dag fg) = {((''REPO'', ''app''), (''REPO'', ''lib''))}
     \<and> (''REPO'', ''lib'') \<in> set (nodes (fg_G_dag fg))"
proof -
  let ?e = "sample_edge ''app'' ''lib'' ''k''"
  have e: "known_edge (set (fleet_refs sample_nodes)) ?e"
    by (simp add: known_edge_def fleet_refs_def sample_nodes_def sample_edge_def src_ref_def
        dst_ref_def node_ref_of_def)
  then obtain fg where fg: "build_graph sample_nodes [?e] DAG_EDGE_KINDS (1 / 2) True = Inr fg"
    using build_graph_Inr_iff[of sample_nodes "[?e]" DAG_EDGE_KINDS "1 / 2" True]
    by (auto simp: DAG_EDGE_KINDS_def)
  have "orders_migration (set DAG_EDGE_KINDS) (1 / 2) ?e"
    by (simp add: orders_migration_def sample_edge_def is_internal_def DAG_EDGE_KINDS_def)
  with build_graph_arcs[OF fg] show ?thesis
    using fg by (auto simp: depends_on_Cons orders_internal src_ref_def dst_ref_def node_ref_of_def
        fleet_refs_def sample_nodes_def, simp_all add: sample_edge_def)
qed

theorem build_graph_orientation_witness:
  "\<exists>fg. build_graph sample_nodes [sample_edge ''app'' ''lib'' ''k''] DAG_EDGE_KINDS (1 / 2) True = Inr fg
     \<and> arc_set (fg_G_order fg) = {((''REPO'', ''lib''), (''REPO'', ''app''))}"
proof -
  obtain fg where
    fg: "build_graph sample_nodes [sample_edge ''app'' ''lib'' ''k''] DAG_EDGE_KINDS (1 / 2) True = Inr fg"
    and "arc_set (fg_G_dag fg) = {((''REPO'', ''app''), (''REPO'', ''lib''))}"
    using sample_graph_builds by blast
  moreover have "arc_set (fg_G_order fg) = (arc_set (fg_G_dag fg))\<inverse>"
    using build_graph_orientation
      [of sample_nodes "[sample_edge ''app'' ''lib'' ''k'']" DAG_EDGE_KINDS "1 / 2" True] fg
    by blast
  ultimately show ?thesis by auto
qed

text \<open>
  No evidence is lost when several edges justify one arc: when edge keys identify edges, the
  records behind an arc of \<open>G\<close> are exactly the internal edges between its two nodes, in edge-key
  order and without repetition, and asking for an arc that is not there is an error.
\<close>

theorem edge_records_exact:
  assumes "build_graph ns es ks c hoist = Inr fg"
    and "\<forall>e \<in> set es. \<forall>f \<in> set es. de_edge_key e = de_edge_key f \<longrightarrow> e = f"
  shows "(edge_records fg u v = None \<longleftrightarrow> (u, v) \<notin> arc_set (fg_G fg))
    \<and> (\<forall>recs. edge_records fg u v = Some recs \<longrightarrow>
         set recs = {e \<in> set es. is_internal e \<and> src_ref e = u \<and> dst_ref e = v}
         \<and> sorted (map de_edge_key recs) \<and> distinct recs)"
proof -
  from assms(1) obtain st where st: "built (set ks) c (fleet_refs ns) (sort_key de_edge_key es) st"
    and fg: "fg = \<lparr>fg_G = bs_graph st, fg_G_rev = reverse (bs_graph st), fg_G_dag = bs_dag st,
              fg_G_order = reverse (bs_dag st), fg_edges_by_key = sort_key fst (bs_by_key st),
              fg_ordering_edge_keys = bs_ordering st\<rparr>"
    by (rule build_graph_Inr)
  let ?ks = "keys_at (bs_graph st) u v"
  have ks: "set ?ks = de_edge_key ` {e \<in> set es. is_internal e \<and> src_ref e = u \<and> dst_ref e = v}"
    "sorted ?ks" "distinct ?ks"
    using st unfolding built_def set_sort by blast+
  have get: "dict_get (sort_key fst (bs_by_key st)) (de_edge_key e) = Some e"
    if "e \<in> set es" "is_internal e" for e
    using by_key_lookup[OF st] that assms(2) by simp
  have "\<exists>f. \<forall>k \<in> set ?ks. dict_get (sort_key fst (bs_by_key st)) k = Some (f k)
      \<and> de_edge_key (f k) = k \<and> f k \<in> {e \<in> set es. is_internal e \<and> src_ref e = u \<and> dst_ref e = v}"
    using ks(1) get by (intro bchoice) auto
  then obtain f where f: "\<And>k. k \<in> set ?ks \<Longrightarrow> dict_get (sort_key fst (bs_by_key st)) k = Some (f k)"
    "\<And>k. k \<in> set ?ks \<Longrightarrow> de_edge_key (f k) = k"
    "\<And>k. k \<in> set ?ks \<Longrightarrow> f k \<in> {e \<in> set es. is_internal e \<and> src_ref e = u \<and> dst_ref e = v}"
    by blast
  have tr: "traverse (\<lambda>k. case dict_get (sort_key fst (bs_by_key st)) k of
        None \<Rightarrow> Inl () | Some e \<Rightarrow> Inr e) ?ks = Inr (map f ?ks)"
    using f(1) by (intro traverse_total) simp
  have "f ` set ?ks = {e \<in> set es. is_internal e \<and> src_ref e = u \<and> dst_ref e = v}"
    using f(2,3) ks(1) assms(2) by (auto simp: image_iff) metis
  moreover have "map de_edge_key (map f ?ks) = ?ks"
    using f(2) by (simp add: map_idI)
  then have "sorted (map de_edge_key (map f ?ks))" and "distinct (map f ?ks)"
    using ks(2,3) by (metis, metis distinct_map)
  moreover have "edge_records fg u v = (if (u, v) \<in> arc_set (fg_G fg) then Some (map f ?ks) else None)"
    using tr arc_data_None_iff[of "bs_graph st" u v]
    by (auto simp: edge_records_def fg keys_at_def split: option.splits)
  ultimately show ?thesis
    by simp
qed

theorem edge_records_exact_witness:
  "\<exists>fg. build_graph sample_nodes [sample_edge ''app'' ''lib'' ''k''] DAG_EDGE_KINDS (1 / 2) True = Inr fg
     \<and> edge_records fg (''REPO'', ''lib'') (''REPO'', ''lib'') = None"
proof -
  obtain fg where
    fg: "build_graph sample_nodes [sample_edge ''app'' ''lib'' ''k''] DAG_EDGE_KINDS (1 / 2) True = Inr fg"
    using sample_graph_builds by blast
  have "((''REPO'', ''lib''), (''REPO'', ''lib'')) \<notin> arc_set (fg_G fg)"
    using build_graph_arcs(5)[OF fg]
    by (simp add: depends_on_Cons sample_edge_def src_ref_def node_ref_of_def)
  then show ?thesis
    using edge_records_exact[OF fg] fg by auto
qed

text \<open>
  With well-formed edges a contract node never depends on a repository: every arc out of a
  contract node leads to a contract node, in \<open>G\<close> and so in \<open>G_dag\<close>.
\<close>

theorem contract_depends_on_no_repo:
  assumes "build_graph ns es ks c hoist = Inr fg" and "\<forall>e \<in> set es. node_shape e = None"
    and "((''CONTRACT'', i), (k, j)) \<in> arc_set (fg_G fg)"
  shows "k = ''CONTRACT''"
proof -
  from assms(3) obtain e where e: "e \<in> set es" "node_ref_of (de_src_kind e) (de_src_id e) = (''CONTRACT'', i)"
    "(k, j) = node_ref_of (de_dst_kind e) (the (de_dst_id e))"
    by (auto simp: build_graph_arcs(5)[OF assms(1)] depends_on_def src_ref_def dst_ref_def)
  then have "de_src_kind e = CONTRACT"
    by (cases "de_src_kind e") (auto simp: node_ref_of_def)
  moreover have "node_shape e = None"
    using assms(2) e(1) by blast
  ultimately have "de_dst_kind e = CONTRACT"
    by (auto simp: node_shape_def split: if_splits)
  with e(3) show ?thesis
    by (simp add: node_ref_of_def)
qed

theorem contract_depends_on_no_repo_witness:
  "\<exists>fg. build_graph [\<lparr>gn_kind = CONTRACT, gn_id = ''proto:a''\<rparr>, \<lparr>gn_kind = CONTRACT, gn_id = ''proto:b''\<rparr>]
          [(sample_edge ''proto:a'' ''proto:b'' ''k'')\<lparr>de_src_kind := CONTRACT, de_dst_kind := CONTRACT,
             de_kind := CONTRACT_CONSUME\<rparr>] DAG_EDGE_KINDS (1 / 2) True = Inr fg
     \<and> ((''CONTRACT'', ''proto:a''), (''CONTRACT'', ''proto:b'')) \<in> arc_set (fg_G fg)
     \<and> ''CONTRACT'' = ''CONTRACT''"
proof -
  let ?ns = "[\<lparr>gn_kind = CONTRACT, gn_id = ''proto:a''\<rparr>, \<lparr>gn_kind = CONTRACT, gn_id = ''proto:b''\<rparr>]"
  let ?e = "(sample_edge ''proto:a'' ''proto:b'' ''k'')\<lparr>de_src_kind := CONTRACT, de_dst_kind := CONTRACT,
             de_kind := CONTRACT_CONSUME\<rparr>"
  have e: "src_ref ?e = (''CONTRACT'', ''proto:a'')" "dst_ref ?e = (''CONTRACT'', ''proto:b'')"
    "is_internal ?e" "node_shape ?e = None"
    by (simp_all add: sample_edge_def src_ref_def dst_ref_def node_ref_of_def is_internal_def
        node_shape_def CONTRACT_EDGE_KINDS_def)
  then have "known_edge (set (fleet_refs ?ns)) ?e"
    by (simp add: known_edge_def node_ref_of_def)
  then obtain fg where fg: "build_graph ?ns [?e] DAG_EDGE_KINDS (1 / 2) True = Inr fg"
    using build_graph_Inr_iff[of ?ns "[?e]" DAG_EDGE_KINDS "1 / 2" True]
    by (auto simp: DAG_EDGE_KINDS_def)
  moreover have arc: "((''CONTRACT'', ''proto:a''), (''CONTRACT'', ''proto:b'')) \<in> arc_set (fg_G fg)"
    using build_graph_arcs(5)[OF fg] e by (simp add: depends_on_Cons)
  moreover have "''CONTRACT'' = ''CONTRACT''"
    by (rule contract_depends_on_no_repo[OF fg _ arc]) (use e(4) in simp)
  ultimately show ?thesis by blast
qed

text \<open>
  The blast radius of a node is the number of other nodes that transitively depend on it
  through edges that order migration. The hypothesis is what \<open>networkx\<close> documents.
\<close>

theorem blast_radius_counts_dependents:
  assumes "networkx nx" and "build_graph ns es ks c hoist = Inr fg" and "r \<in> set (node_refs fg)"
  shows "blast_radius nx fg r =
    card {n. n \<noteq> r \<and> (n, r) \<in> {(src_ref e, dst_ref e) | e. e \<in> set es \<and> orders_migration (set ks) c e}\<^sup>+}"
proof -
  note b = build_graph_arcs[OF assms(2)]
  have arcs: "arc_set (fg_G_order fg) =
      {(src_ref e, dst_ref e) | e. e \<in> set es \<and> orders_migration (set ks) c e}\<inverse>"
    using b(4,6) by (simp add: depends_on_orders)
  have "wf_graph (fg_G_order fg)" and "r \<in> set (nodes (fg_G_order fg))"
    using assms(3) b by simp_all
  from networkx.graph_descendants(2)[OF assms(1) this]
  show ?thesis
    unfolding blast_radius_def arcs by (simp add: trancl_converse set_diff_eq conj_commute)
qed

theorem blast_radius_counts_dependents_witness:
  "\<exists>fg. build_graph sample_nodes [sample_edge ''app'' ''lib'' ''k''] DAG_EDGE_KINDS (1 / 2) True = Inr fg
     \<and> blast_radius reference_nx fg (''REPO'', ''lib'') = 1"
proof -
  let ?e = "sample_edge ''app'' ''lib'' ''k''" and ?lib = "(''REPO'', ''lib'')"
  obtain fg where fg: "build_graph sample_nodes [?e] DAG_EDGE_KINDS (1 / 2) True = Inr fg"
    and arcs: "arc_set (fg_G_dag fg) = {((''REPO'', ''app''), ?lib)}"
    and n: "?lib \<in> set (nodes (fg_G_dag fg))"
    using sample_graph_builds by blast
  have E: "{(src_ref e, dst_ref e) | e. e \<in> set [?e] \<and> orders_migration (set DAG_EDGE_KINDS) (1 / 2) e}
      = {((''REPO'', ''app''), ?lib)}"
    using arcs build_graph_arcs(6)[OF fg] by (simp only: depends_on_orders)
  have one: "{((''REPO'', ''app''), ?lib)}\<^sup>+ = {((''REPO'', ''app''), ?lib)}"
    by (rule trancl_id) (simp add: trans_def)
  have "?lib \<in> set (node_refs fg)"
    using n build_graph_arcs(7,8)[OF fg] by simp
  from blast_radius_counts_dependents[OF reference.networkx_axioms fg this]
  have "blast_radius reference_nx fg ?lib = card {n. n \<noteq> ?lib \<and> (n, ?lib) \<in> {((''REPO'', ''app''), ?lib)}}"
    unfolding E one .
  also have "{n. n \<noteq> ?lib \<and> (n, ?lib) \<in> {((''REPO'', ''app''), ?lib)}} = {(''REPO'', ''app'')}"
    by auto
  finally show ?thesis
    using fg by auto
qed

text \<open>
  An edge key identifies an edge: when the digest does not collide on the two texts and no
  field contains the separator, equal keys come from equal fields, the missing line included.
\<close>

theorem edge_key_identifies_edge:
  assumes "edge_key_for sha sk si dk dr k p l = edge_key_for sha sk' si' dk' dr' k' p' l'"
    and "\<forall>x \<in> set [sk, si, dk, dr, k, p, sk', si', dk', dr', k', p']. nul \<notin> set x"
    and "\<forall>n. l = Some n \<or> l' = Some n \<longrightarrow> 1 \<le> n"
    and "sha (join nul (edge_key_preimage sk si dk dr k p l)) =
         sha (join nul (edge_key_preimage sk' si' dk' dr' k' p' l')) \<longrightarrow>
         join nul (edge_key_preimage sk si dk dr k p l) =
         join nul (edge_key_preimage sk' si' dk' dr' k' p' l')"
  shows "(sk, si, dk, dr, k, p, l) = (sk', si', dk', dr', k', p', l')"
proof -
  have "join nul (edge_key_preimage sk si dk dr k p l) =
      join nul (edge_key_preimage sk' si' dk' dr' k' p' l')"
    using assms(1,4) by (simp add: edge_key_for_def)
  then have "edge_key_preimage sk si dk dr k p l = edge_key_preimage sk' si' dk' dr' k' p' l'"
    using assms(2) nul_not_in_show_int
    by (intro join_inject[of nul]) (auto simp: edge_key_preimage_def nul_def)
  then show ?thesis
    using assms(3) by (auto simp: edge_key_preimage_def NO_LINE_def split: option.splits)
qed

theorem edge_key_identifies_edge_witness:
  "edge_key_for id ''REPO'' ''a'' ''REPO'' ''maven:x:y'' ''DECLARED_DEP'' ''pom.xml'' None
   \<noteq> edge_key_for id ''REPO'' ''a'' ''REPO'' ''maven:x:y'' ''DECLARED_DEP'' ''pom.xml'' (Some 3)"
proof
  assume *: "edge_key_for id ''REPO'' ''a'' ''REPO'' ''maven:x:y'' ''DECLARED_DEP'' ''pom.xml'' None
   = edge_key_for id ''REPO'' ''a'' ''REPO'' ''maven:x:y'' ''DECLARED_DEP'' ''pom.xml'' (Some 3)"
  have "list_all (\<lambda>x. nul \<notin> set x)
    [''REPO'', ''a'', ''REPO'', ''maven:x:y'', ''DECLARED_DEP'', ''pom.xml'']"
    by code_simp
  then have "\<forall>x \<in> set [''REPO'', ''a'', ''REPO'', ''maven:x:y'', ''DECLARED_DEP'', ''pom.xml'',
       ''REPO'', ''a'', ''REPO'', ''maven:x:y'', ''DECLARED_DEP'', ''pom.xml'']. nul \<notin> set x"
    by (simp add: list_all_iff)
  from edge_key_identifies_edge[OF * this] show False
    by simp
qed

end
