(* ===== verification/Cycles.thy ===== *)
theory Cycles
  imports Fleet_Graph
begin

text \<open>
  \<open>src/fleet/graph/cycles.py\<close>: how a strongly connected component of the ordering subgraph is
  recorded and resolved.
\<close>

section \<open>Resolutions and the report\<close>

record scc_resolution =
  res_scc_id :: string
  res_members :: "repo_id list"
  res_edge_keys :: "edge_key list"
  res_feedback :: "edge_key list"
  res_proposed :: "edge_key option"
  res_hoisted :: "contract_id list"
  res_broken :: "edge_key list"
  res_strategy :: break_strategy
  res_rationale :: string

definition is_condensable :: "scc_resolution \<Rightarrow> bool" where
  "is_condensable res \<longleftrightarrow> res_strategy res = ATOMIC_WAVE \<or> res_strategy res = MANUAL"

text \<open>\<open>None\<close> where the construction of the \<open>CycleFinding\<close> fails its validation.\<close>

definition to_finding :: "scc_resolution \<Rightarrow> int option \<Rightarrow> string option \<Rightarrow> cycle_finding option" where
  "to_finding res atomic_wave_index superseded_by =
     (let f = \<lparr>cf_scc_id = res_scc_id res, cf_members = res_members res,
               cf_edges = res_edge_keys res, cf_feedback = res_feedback res,
               cf_proposed = res_proposed res, cf_superseded_by = superseded_by,
               cf_hoisted = res_hoisted res, cf_broken = res_broken res,
               cf_strategy = res_strategy res, cf_atomic_wave = atomic_wave_index,
               cf_rationale = res_rationale res\<rparr> in
      if strategy_is_substantiated f then Some f else None)"

datatype severity = WARN | ERROR

record graph_finding =
  gf_kind :: string
  gf_severity :: severity
  gf_repo_id :: "repo_id option"
  gf_payload :: "(string, string) dict"

record cycle_report =
  rep_resolutions :: "scc_resolution list"
  rep_nodes :: "graph_node list"
  rep_edges :: "dependency_edge list"
  rep_graph :: fleet_graph
  rep_hoisted :: "contract_node list"
  rep_findings :: "graph_finding list"
  rep_rejected :: "contract_node list"

definition manual_members :: "scc_resolution list \<Rightarrow> repo_id list" where
  "manual_members rs = concat (map res_members (filter (\<lambda>r. res_strategy r = MANUAL) rs))"

definition manual_repo_ids :: "cycle_report \<Rightarrow> repo_id list" where
  "manual_repo_ids rep = sorted_set (manual_members (rep_resolutions rep))"

definition scc_id_by_member :: "cycle_report \<Rightarrow> (repo_id, string) dict" where
  "scc_id_by_member rep =
     sort_key fst
       (fold (\<lambda>r d. if is_condensable r
                    then fold (\<lambda>m d. dict_set d m (res_scc_id r)) (res_members r) d else d)
          (sort_key res_scc_id (rep_resolutions rep)) [])"

definition atomic_resolutions :: "cycle_report \<Rightarrow> scc_resolution list" where
  "atomic_resolutions rep = filter (\<lambda>r. res_strategy r = ATOMIC_WAVE) (rep_resolutions rep)"

definition resolution :: "cycle_report \<Rightarrow> string \<Rightarrow> scc_resolution option" where
  "resolution rep scc_id = find (\<lambda>r. res_scc_id r = scc_id) (rep_resolutions rep)"

end
