(* ===== verification/Sequence.thy ===== *)
theory Sequence
  imports Cycles
begin

text \<open>
  \<open>src/fleet/graph/sequence.py\<close>: the ordering subgraph with every atomic component condensed, its
  longest-path layering, the migration waves and the synthetic waves appended later. The success
  criteria of the sequencing step are in \<open>Criteria\<close>.
\<close>

section \<open>Condensation\<close>

type_synonym order_node = "string \<times> string"

definition SCC_NODE_KIND :: string where
  "SCC_NODE_KIND = ''SCC''"

definition GATED_STATUSES :: "repo_status set" where
  "GATED_STATUSES = {SKIPPED, REQUIRES_HUMAN_INTERVENTION}"

definition PREFLIGHT_FINDING_KINDS :: "string list" where
  "PREFLIGHT_FINDING_KINDS = [''PreflightFailed'', ''EmptyRepo'', ''BaselineRed'', ''OperatorQuarantine'']"

text \<open>The dictionary from a member of an atomic component to its condensed node.\<close>

definition atomic_mapping :: "scc_resolution list \<Rightarrow> (node_ref, order_node) dict" where
  "atomic_mapping rs =
     fold (\<lambda>r d. if res_strategy r = ATOMIC_WAVE
                 then fold (\<lambda>m d. dict_set d (node_kind_value REPO, m) (SCC_NODE_KIND, res_scc_id r))
                        (res_members r) d
                 else d)
       (sort_key res_scc_id rs) []"

definition map_ref :: "(node_ref, order_node) dict \<Rightarrow> node_ref \<Rightarrow> order_node" where
  "map_ref m n = (case dict_get m n of None \<Rightarrow> n | Some s \<Rightarrow> s)"

definition condense_for_ordering ::
  "ref_graph \<Rightarrow> scc_resolution list \<Rightarrow> repo_id list \<Rightarrow> bool \<Rightarrow> (order_node, unit) digraph" where
  "condense_for_ordering dag resolutions excluded condense =
     (let dropped = set (manual_members resolutions) \<union> set excluded;
          mapping = (if condense then atomic_mapping resolutions else []);
          g = fold (\<lambda>n g. if snd n \<in> dropped then g else add_node (map_ref mapping n) g)
                (sort (nodes dag)) empty_graph in
      fold (\<lambda>(src, dst) g.
              if snd src \<in> dropped \<or> snd dst \<in> dropped then g
              else let u = map_ref mapping src; v = map_ref mapping dst in
                if u \<noteq> v then add_edge u v () g else g)
        (sort (map fst (arcs dag))) g)"

definition ordering_is_acyclic :: "order_node nx \<Rightarrow> (order_node, unit) digraph \<Rightarrow> bool" where
  "ordering_is_acyclic nx condensed = nx_acyclic nx (shape condensed)"

section \<open>Layering\<close>

datatype sequence_error =
    NotADag
  | MissingIndex "string \<times> string"
  | StillCyclic
  | UnknownScc string
  | UnsubstantiatedFinding string

definition lookup_index :: "(order_node, int) dict \<Rightarrow> order_node \<Rightarrow> sequence_error + int" where
  "lookup_index waves n = (case dict_get waves n of None \<Rightarrow> Inl (MissingIndex n) | Some i \<Rightarrow> Inr i)"

fun layer_loop ::
  "(order_node, 'a) digraph \<Rightarrow> order_node list \<Rightarrow> (order_node, int) dict
   \<Rightarrow> sequence_error + (order_node, int) dict" where
  "layer_loop rg [] waves = Inr waves"
| "layer_loop rg (n # ns) waves =
     rbind (traverse (lookup_index waves) (predecessors rg n)) (\<lambda>deps.
       layer_loop rg ns
         (dict_set waves n (if deps = [] then 0 else 1 + Max (set deps))))"

text \<open>The topological sort raises on a graph with a cycle.\<close>

definition layer :: "order_node nx \<Rightarrow> (order_node, 'a) digraph \<Rightarrow> sequence_error + (order_node, int) dict" where
  "layer nx condensed =
     (let rg = reverse condensed in
      if \<not> nx_acyclic nx (shape rg) then Inl NotADag
      else layer_loop rg (nx_topo nx (shape rg)) [])"

section \<open>Waves\<close>

record wave_plan =
  wp_waves :: "migration_wave list"
  wp_index :: "(node_ref, int) dict"
  wp_findings :: "cycle_finding list"
  wp_excluded :: "repo_id list"

definition repo_wave_index :: "wave_plan \<Rightarrow> (repo_id, int) dict" where
  "repo_wave_index p =
     map (\<lambda>((k, i), w). (i, w)) (filter (\<lambda>((k, i), w). k = node_kind_value REPO) (sort (wp_index p)))"

definition repo_members :: "wave_plan \<Rightarrow> repo_id list" where
  "repo_members p = sorted_set (map fst (repo_wave_index p))"

definition contract_members :: "wave_plan \<Rightarrow> contract_id list" where
  "contract_members p =
     sort (map snd (filter (\<lambda>n. fst n = node_kind_value CONTRACT) (map fst (wp_index p))))"

definition wave :: "wave_plan \<Rightarrow> int \<Rightarrow> migration_wave option" where
  "wave p i = find (\<lambda>w. mw_index w = i) (wp_waves p)"

text \<open>\<open>d.setdefault(k, set()).add(x)\<close>, a set as the list of its elements.\<close>

definition add_to :: "'k \<Rightarrow> 'x \<Rightarrow> ('k, 'x list) dict \<Rightarrow> ('k, 'x list) dict" where
  "add_to k x d = dict_set d k (x # (case dict_get d k of None \<Rightarrow> [] | Some xs \<Rightarrow> xs))"

definition get_list :: "('k, 'x list) dict \<Rightarrow> 'k \<Rightarrow> 'x list" where
  "get_list d k = (case dict_get d k of None \<Rightarrow> [] | Some xs \<Rightarrow> xs)"

definition materialize_waves ::
  "(node_ref, int) dict \<Rightarrow> (int, string list) dict \<Rightarrow> (int, int list) dict \<Rightarrow> bool
   \<Rightarrow> migration_wave list" where
  "materialize_waves index_by_node scc_by_wave depends synthetic =
     (let items = sort index_by_node;
          repos = group_by snd (filter (\<lambda>it. fst (fst it) = node_kind_value REPO) items);
          contracts = group_by snd (filter (\<lambda>it. fst (fst it) \<noteq> node_kind_value REPO) items) in
      map (\<lambda>i. \<lparr>mw_index = i,
                mw_repo_ids = sort (map (snd \<circ> fst) (get_list repos i)),
                mw_contract_ids = sort (map (snd \<circ> fst) (get_list contracts i)),
                mw_depends_on = sorted_set (filter (\<lambda>j. j \<noteq> i) (get_list depends i)),
                mw_atomic_scc_ids = sorted_set (get_list scc_by_wave i),
                mw_synthetic = synthetic\<rparr>)
        (sorted_set (map fst repos @ map fst contracts)))"

fun index_loop ::
  "(string, repo_id list) dict \<Rightarrow> (order_node \<times> int) list \<Rightarrow> (node_ref, int) dict \<Rightarrow> (int, string list) dict
   \<Rightarrow> sequence_error + (node_ref, int) dict \<times> (int, string list) dict" where
  "index_loop scc_members [] index sccs = Inr (index, sccs)"
| "index_loop scc_members ((n, w) # rest) index sccs =
     (if fst n = SCC_NODE_KIND then
        (case dict_get scc_members (snd n) of
           None \<Rightarrow> Inl (UnknownScc (snd n))
         | Some ms \<Rightarrow>
             index_loop scc_members rest
               (fold (\<lambda>m d. dict_set d (node_kind_value REPO, m) w) ms index)
               (add_to w (snd n) sccs))
      else index_loop scc_members rest (dict_set index n w) sccs)"

definition depends_of ::
  "(order_node, 'a) digraph \<Rightarrow> (order_node, int) dict \<Rightarrow> (int, int list) dict" where
  "depends_of condensed layered =
     fold (\<lambda>(n, w) d.
             fold (\<lambda>m d. case dict_get layered m of None \<Rightarrow> d | Some j \<Rightarrow> add_to w j d)
               (successors condensed n) d)
       layered []"

definition scc_members_of :: "scc_resolution list \<Rightarrow> (string, repo_id list) dict" where
  "scc_members_of rs =
     fold (\<lambda>r d. dict_set d (res_scc_id r) (res_members r))
       (filter (\<lambda>r. res_strategy r = ATOMIC_WAVE) rs) []"

definition finding_of :: "(node_ref, int) dict \<Rightarrow> scc_resolution \<Rightarrow> sequence_error + cycle_finding" where
  "finding_of index r =
     (let i = (if res_strategy r = ATOMIC_WAVE
               then dict_get index (node_kind_value REPO, hd (res_members r)) else None) in
      case to_finding r i None of
        None \<Rightarrow> Inl (UnsubstantiatedFinding (res_scc_id r))
      | Some f \<Rightarrow> Inr f)"

definition assign_waves ::
  "order_node nx \<Rightarrow> cycle_report \<Rightarrow> repo_id list \<Rightarrow> sequence_error + wave_plan" where
  "assign_waves nx rep gated =
     (let excluded = sorted_set (gated @ manual_repo_ids rep);
          condensed = condense_for_ordering (fg_G_dag (rep_graph rep)) (rep_resolutions rep)
                        excluded True in
      if \<not> ordering_is_acyclic nx condensed then Inl StillCyclic
      else rbind (layer nx condensed) (\<lambda>layered.
        rbind (index_loop (scc_members_of (rep_resolutions rep)) (sort layered) [] []) (\<lambda>(index, sccs).
          let waves = materialize_waves index sccs (depends_of condensed layered) False in
          rbind (traverse (finding_of index) (sort_key res_scc_id (rep_resolutions rep))) (\<lambda>findings.
            Inr \<lparr>wp_waves = waves, wp_index = sort index, wp_findings = findings,
                 wp_excluded = excluded\<rparr>))))"

definition append_synthetic_waves ::
  "order_node nx \<Rightarrow> wave_plan \<Rightarrow> ref_graph \<Rightarrow> node_ref list \<Rightarrow> sequence_error + wave_plan" where
  "append_synthetic_waves nx plan dag refs =
     (let fresh = filter (\<lambda>r. dict_get (wp_index plan) r = None) (sorted_set refs) in
      if fresh = [] then Inr plan
      else
        let offset = (if wp_waves plan = [] then -1 else Max (set (map mw_index (wp_waves plan)))) + 1 in
        rbind (layer nx (subgraph fresh dag)) (\<lambda>raw.
          let layered = map (\<lambda>(n, i). (n, offset + i)) raw;
              index = fold (\<lambda>(n, i) d. dict_set d n i) layered (wp_index plan);
              depends = fold (\<lambda>(n, w) d.
                          fold (\<lambda>m d. case dict_get index m of
                                  None \<Rightarrow> d
                                | Some prior \<Rightarrow> if prior \<noteq> w then add_to w prior d else d)
                            (successors dag n) d) layered [] in
          Inr (plan\<lparr>wp_waves := wp_waves plan @ materialize_waves layered [] depends True,
                    wp_index := sort index\<rparr>)))"

section \<open>Layers are longest dependency chains\<close>

definition idx :: "('n, int) dict \<Rightarrow> 'n \<Rightarrow> int" where
  "idx L n = the (dict_get L n)"

text \<open>\<open>L\<close> assigns to exactly the nodes of \<open>S\<close> one more than the highest index of a predecessor.\<close>

definition levels :: "('n \<times> 'n) set \<Rightarrow> 'n set \<Rightarrow> ('n, int) dict \<Rightarrow> bool" where
  "levels E S L \<longleftrightarrow>
     distinct (map fst L) \<and> fst ` set L = S
     \<and> (\<forall>n \<in> S. {u. (u, n) \<in> E} \<subseteq> S
          \<and> idx L n = (if {u. (u, n) \<in> E} = {} then 0 else 1 + Max (idx L ` {u. (u, n) \<in> E})))"

lemma levels_get: "levels E S L \<Longrightarrow> dict_get L n = (if n \<in> S then Some (idx L n) else None)"
  using dict_get_None_iff[of L n] unfolding levels_def idx_def by (cases "dict_get L n") auto

lemma levels_extend:
  assumes "levels E S L" and "n \<notin> S" and "{u. (u, n) \<in> E} \<subseteq> S"
    and "i = (if {u. (u, n) \<in> E} = {} then 0 else 1 + Max (idx L ` {u. (u, n) \<in> E}))"
  shows "levels E (insert n S) (dict_set L n i)"
proof -
  have same: "idx (dict_set L n i) m = idx L m" if "m \<in> S" for m
    using that assms(2) by (auto simp: idx_def)
  have img: "idx (dict_set L n i) ` {u. (u, m) \<in> E} = idx L ` {u. (u, m) \<in> E}"
    if "{u. (u, m) \<in> E} \<subseteq> S" for m
    using that same by (intro image_cong) auto
  have new: "idx (dict_set L n i) n = i"
    by (simp add: idx_def)
  have "{u. (u, m) \<in> E} \<subseteq> insert n S
      \<and> idx (dict_set L n i) m =
          (if {u. (u, m) \<in> E} = {} then 0 else 1 + Max (idx (dict_set L n i) ` {u. (u, m) \<in> E}))"
    if "m \<in> insert n S" for m
  proof -
    have sub: "{u. (u, m) \<in> E} \<subseteq> S"
      using that assms(1,3) unfolding levels_def by blast
    moreover have "idx (dict_set L n i) m =
        (if {u. (u, m) \<in> E} = {} then 0 else 1 + Max (idx L ` {u. (u, m) \<in> E}))"
    proof (cases "m = n")
      case True
      with new assms(4) show ?thesis by simp
    next
      case False
      with that have "m \<in> S" by simp
      with same[OF this] assms(1) show ?thesis
        unfolding levels_def by auto
    qed
    ultimately show ?thesis
      using img[OF sub] by auto
  qed
  then show ?thesis
    using assms(1) by (simp add: levels_def)
qed

lemma layer_loop_levels:
  assumes "levels (arc_set rg) (set done) L" and "topological (arc_set rg) (done @ ns)"
    and "distinct (done @ ns)"
  shows "\<exists>L'. layer_loop rg ns L = Inr L' \<and> levels (arc_set rg) (set (done @ ns)) L'"
  using assms
proof (induction ns arbitrary: "done" L)
  case (Cons n ns)
  have preds: "{u. (u, n) \<in> arc_set rg} \<subseteq> set done"
    using Cons.prems(2) unfolding topological_def by blast
  have deps: "traverse (lookup_index L) (predecessors rg n) = Inr (map (idx L) (predecessors rg n))"
    using preds levels_get[OF Cons.prems(1)]
    by (intro traverse_total) (auto simp: lookup_index_def)
  let ?i = "if predecessors rg n = [] then 0 else 1 + Max (set (map (idx L) (predecessors rg n)))"
  have "predecessors rg n = [] \<longleftrightarrow> {u. (u, n) \<in> arc_set rg} = {}"
    by (metis set_empty set_predecessors)
  then have "?i = (if {u. (u, n) \<in> arc_set rg} = {} then 0
      else 1 + Max (idx L ` {u. (u, n) \<in> arc_set rg}))"
    by simp
  moreover have "n \<notin> set done"
    using Cons.prems(3) by auto
  ultimately have "levels (arc_set rg) (insert n (set done)) (dict_set L n ?i)"
    using Cons.prems(1) preds by (intro levels_extend)
  then have "levels (arc_set rg) (set (done @ [n])) (dict_set L n ?i)"
    by simp
  from Cons.IH[OF this] Cons.prems(2,3) deps show ?case
    by simp
qed simp

lemma levels_Nil: "levels E {} []"
  by (simp add: levels_def)

context networkx
begin

lemma layer_levels:
  assumes "wf_graph (g :: ('n, 'b) digraph)" and "acyclic (arc_set g)"
  shows "\<exists>ns. nx_topo nx (shape (reverse g)) = ns \<and> set ns = set (nodes g)
    \<and> distinct ns \<and> topological (arc_set (reverse g)) ns"
  using graph_topo[of "reverse g"] assms by simp

end

lemma layer_total:
  assumes "networkx nx" and "wf_graph g" and "acyclic (arc_set g)"
  shows "\<exists>L. layer nx g = Inr L \<and> levels ((arc_set g)\<inverse>) (set (nodes g)) L"
proof -
  obtain ns where ns: "nx_topo nx (shape (reverse g)) = ns" "set ns = set (nodes g)" "distinct ns"
    "topological (arc_set (reverse g)) ns"
    using networkx.layer_levels[OF assms] by blast
  moreover have "nx_acyclic nx (shape (reverse g))"
    using networkx.graph_acyclic[OF assms(1), of "reverse g"] assms(2,3) by simp
  ultimately show ?thesis
    using layer_loop_levels[of "reverse g" "[]" "[]" ns] levels_Nil[of "(arc_set g)\<inverse>"]
    by (simp add: layer_def)
qed

lemma layer_cyclic:
  assumes "networkx nx" and "wf_graph g" and "\<not> acyclic (arc_set g)"
  shows "layer nx g = Inl NotADag"
  using networkx.graph_acyclic[OF assms(1), of "reverse g"] assms(2,3) by (simp add: layer_def)

lemma levels_less:
  assumes "levels E S L" and "finite E" and "(u, n) \<in> E" and "n \<in> S"
  shows "idx L u < idx L n"
proof -
  have "finite {u. (u, n) \<in> E}"
    using assms(2) by (rule finite_subset[rotated, OF finite_imageI[of E fst]]) force
  then have "idx L u \<le> Max (idx L ` {u. (u, n) \<in> E})"
    using assms(3) by (intro Max_ge) auto
  moreover have "idx L n = 1 + Max (idx L ` {u. (u, n) \<in> E})"
    using assms(1,3,4) by (auto simp: levels_def)
  ultimately show ?thesis by simp
qed

lemma levels_pred:
  assumes "levels E S L" and "finite E" and "n \<in> S" and "idx L n \<noteq> 0"
  shows "\<exists>u \<in> S. (u, n) \<in> E \<and> idx L u = idx L n - 1"
proof -
  have ne: "{u. (u, n) \<in> E} \<noteq> {}" and eq: "idx L n = 1 + Max (idx L ` {u. (u, n) \<in> E})"
    and sub: "{u. (u, n) \<in> E} \<subseteq> S"
    using assms(1,3,4) unfolding levels_def by (auto split: if_splits)
  have "finite {u. (u, n) \<in> E}"
    using assms(2) by (rule finite_subset[rotated, OF finite_imageI[of E fst]]) force
  with ne have "Max (idx L ` {u. (u, n) \<in> E}) \<in> idx L ` {u. (u, n) \<in> E}"
    by (intro Max_in) auto
  with eq sub show ?thesis by auto
qed

lemma levels_nonneg:
  assumes "levels E S L" and "finite E" and "n \<in> S"
  shows "0 \<le> idx L n"
proof (rule ccontr)
  have "finite (idx L ` S)"
    using assms(1) by (auto simp: levels_def)
  moreover from this assms(3) have "Min (idx L ` S) \<in> idx L ` S"
    by (intro Min_in) auto
  then obtain m where "m \<in> S" "idx L m = Min (idx L ` S)"
    by force
  ultimately have m: "m \<in> S" "\<And>k. k \<in> S \<Longrightarrow> idx L m \<le> idx L k"
    by auto
  assume "\<not> 0 \<le> idx L n"
  with m(2)[OF assms(3)] have "idx L m \<noteq> 0"
    by simp
  from levels_pred[OF assms(1,2) m(1) this] obtain u where "u \<in> S" "idx L u = idx L m - 1"
    by blast
  with m(2)[of u] show False
    by simp
qed

lemma levels_chain:
  assumes "levels E S L" and "finite E" and "n \<in> S"
  shows "(u, n) \<in> E ^^ k \<Longrightarrow> idx L u + int k \<le> idx L n"
    and "0 \<le> idx L n \<and> (\<exists>u. (u, n) \<in> E ^^ nat (idx L n))"
proof -
  show "(u, n) \<in> E ^^ k \<Longrightarrow> idx L u + int k \<le> idx L n"
    using assms(3)
  proof (induction k arbitrary: n)
    case (Suc k)
    then obtain m where m: "(u, m) \<in> E ^^ k" "(m, n) \<in> E" by auto
    moreover have "m \<in> S"
      using assms(1) m(2) Suc.prems(2) by (auto simp: levels_def)
    ultimately show ?case
      using Suc.IH levels_less[OF assms(1,2) m(2) Suc.prems(2)] by fastforce
  qed simp
  have "\<exists>u. (u, n) \<in> E ^^ k" if "idx L n = int k" "n \<in> S" for k n
    using that
  proof (induction k arbitrary: n)
    case (Suc k)
    then obtain u where "u \<in> S" "(u, n) \<in> E" "idx L u = int k"
      using levels_pred[OF assms(1,2), of n] by fastforce
    with Suc.IH[of u] show ?case by auto
  qed auto
  with levels_nonneg[OF assms] assms(3) show "0 \<le> idx L n \<and> (\<exists>u. (u, n) \<in> E ^^ nat (idx L n))"
    by auto
qed

section \<open>The condensed graph\<close>

definition dropped_ids :: "scc_resolution list \<Rightarrow> repo_id list \<Rightarrow> repo_id set" where
  "dropped_ids rs excluded = set (manual_members rs) \<union> set excluded"

definition kept_refs :: "ref_graph \<Rightarrow> repo_id set \<Rightarrow> node_ref set" where
  "kept_refs dag dropped = {n \<in> set (nodes dag). snd n \<notin> dropped}"

lemma fold_add_nodes:
  "wf_graph g \<Longrightarrow>
   wf_graph (fold (\<lambda>n g. if P n then g else add_node (f n) g) ns g)
   \<and> set (nodes (fold (\<lambda>n g. if P n then g else add_node (f n) g) ns g)) =
       set (nodes g) \<union> f ` {n \<in> set ns. \<not> P n}
   \<and> arc_set (fold (\<lambda>n g. if P n then g else add_node (f n) g) ns g) = arc_set g"
  by (induction ns arbitrary: g) auto

lemma fold_arcs_filter:
  "fold (\<lambda>(u, v) g. if P u \<or> P v then g else if f u \<noteq> f v then add_edge (f u) (f v) () g else g) es g =
   fold (\<lambda>(a, b). add_edge a b ())
     (map (\<lambda>(u, v). (f u, f v)) (filter (\<lambda>(u, v). \<not> P u \<and> \<not> P v \<and> f u \<noteq> f v) es)) g"
  by (induction es arbitrary: g) auto

lemma set_map_filter_pairs:
  "set (map (\<lambda>(u, v). (f u, f v)) (filter (\<lambda>(u, v). Q u v) es)) = {(f u, f v) | u v. (u, v) \<in> set es \<and> Q u v}"
  by force

lemma fold_add_edges:
  assumes "wf_graph g" and "\<forall>(a, b) \<in> set ps. a \<in> set (nodes g) \<and> b \<in> set (nodes g)"
  shows "wf_graph (fold (\<lambda>(a, b). add_edge a b c) ps g)
    \<and> set (nodes (fold (\<lambda>(a, b). add_edge a b c) ps g)) = set (nodes g)
    \<and> arc_set (fold (\<lambda>(a, b). add_edge a b c) ps g) = arc_set g \<union> set ps"
  using assms
proof (induction ps arbitrary: g)
  case (Cons p ps)
  obtain a b where p: "p = (a, b)" by force
  let ?g = "add_edge a b c g"
  have "set (nodes ?g) = set (nodes g)" and "wf_graph ?g"
    using Cons.prems p by auto
  with Cons.IH[of ?g] Cons.prems(2) p show ?case
    by auto
qed simp

lemma condensed_graph:
  fixes rs :: "scc_resolution list" and excluded :: "repo_id list"
  assumes "wf_graph dag"
  defines "m \<equiv> map_ref (atomic_mapping rs)"
  defines "D \<equiv> dropped_ids rs excluded"
  shows "wf_graph (condense_for_ordering dag rs excluded True)"
    and "set (nodes (condense_for_ordering dag rs excluded True)) = m ` kept_refs dag D"
    and "arc_set (condense_for_ordering dag rs excluded True) =
      {(m u, m v) | u v. (u, v) \<in> arc_set dag \<and> snd u \<notin> D \<and> snd v \<notin> D \<and> m u \<noteq> m v}"
proof -
  let ?g = "fold (\<lambda>n g. if snd n \<in> D then g else add_node (m n) g) (sort (nodes dag)) empty_graph"
  have g: "wf_graph ?g" "set (nodes ?g) = m ` kept_refs dag D" "arc_set ?g = {}"
    using fold_add_nodes[of empty_graph "\<lambda>n. snd n \<in> D" m "sort (nodes dag)"]
    by (auto simp: kept_refs_def)
  have es: "set (sort (map fst (arcs dag))) = arc_set dag"
    by (simp add: arc_set_def)
  let ?ps = "map (\<lambda>(u, v). (m u, m v))
    (filter (\<lambda>(u, v). snd u \<notin> D \<and> snd v \<notin> D \<and> m u \<noteq> m v) (sort (map fst (arcs dag))))"
  have c: "condense_for_ordering dag rs excluded True = fold (\<lambda>(a, b). add_edge a b ()) ?ps ?g"
    unfolding fold_arcs_filter[of "\<lambda>n. snd n \<in> D", symmetric]
    unfolding condense_for_ordering_def Let_def m_def D_def dropped_ids_def by simp
  have ps: "set ?ps = {(m u, m v) | u v. (u, v) \<in> arc_set dag \<and> snd u \<notin> D \<and> snd v \<notin> D \<and> m u \<noteq> m v}"
    unfolding set_map_filter_pairs es ..
  have "\<forall>(a, b) \<in> set ?ps. a \<in> set (nodes ?g) \<and> b \<in> set (nodes ?g)"
    using wf_arcD[OF assms(1)] unfolding ps g(2) kept_refs_def by fast
  from fold_add_edges[OF g(1) this, of "()"]
  show "wf_graph (condense_for_ordering dag rs excluded True)"
    and "set (nodes (condense_for_ordering dag rs excluded True)) = m ` kept_refs dag D"
    and "arc_set (condense_for_ordering dag rs excluded True) =
      {(m u, m v) | u v. (u, v) \<in> arc_set dag \<and> snd u \<notin> D \<and> snd v \<notin> D \<and> m u \<noteq> m v}"
    unfolding c ps g(2,3) by simp_all
qed

section \<open>From condensed nodes back to repositories\<close>

text \<open>Atomic components have their own ids and share no member, as the components of a graph do.\<close>

definition atomic_disjoint :: "scc_resolution list \<Rightarrow> bool" where
  "atomic_disjoint rs \<longleftrightarrow>
     (\<forall>r \<in> set rs. \<forall>r' \<in> set rs.
        res_strategy r = ATOMIC_WAVE \<and> res_strategy r' = ATOMIC_WAVE
        \<and> (res_scc_id r = res_scc_id r' \<or> set (res_members r) \<inter> set (res_members r') \<noteq> {})
        \<longrightarrow> r = r')"

definition atomic_items :: "scc_resolution list \<Rightarrow> (node_ref \<times> order_node) list" where
  "atomic_items rs =
     concat (map (\<lambda>r. map (\<lambda>m. ((node_kind_value REPO, m), (SCC_NODE_KIND, res_scc_id r))) (res_members r))
       (filter (\<lambda>r. res_strategy r = ATOMIC_WAVE) (sort_key res_scc_id rs)))"

lemma fold_if_filter: "fold (\<lambda>r d. if P r then f r d else d) rs d = fold f (filter P rs) d"
  by (induction rs arbitrary: d) simp_all

lemma fold_set_members: "fold (\<lambda>m d. dict_set d (k m) v) ms d = dict_update (map (\<lambda>m. (k m, v)) ms) d"
  by (induction ms arbitrary: d) simp_all

lemma fold_dict_updates: "fold (\<lambda>r. dict_update (f r)) rs d = dict_update (concat (map f rs)) d"
  by (induction rs arbitrary: d) simp_all

lemma atomic_mapping_items: "atomic_mapping rs = dict_update (atomic_items rs) []"
  unfolding atomic_mapping_def atomic_items_def fold_if_filter fold_set_members fold_dict_updates ..

lemma atomic_mapping_iff:
  assumes "atomic_disjoint rs"
  shows "dict_get (atomic_mapping rs) n = Some s \<longleftrightarrow>
    (\<exists>r \<in> set rs. res_strategy r = ATOMIC_WAVE \<and> s = (SCC_NODE_KIND, res_scc_id r)
       \<and> (\<exists>m \<in> set (res_members r). n = (node_kind_value REPO, m)))"
proof -
  have items: "(n, s) \<in> set (atomic_items rs) \<longleftrightarrow>
      (\<exists>r \<in> set rs. res_strategy r = ATOMIC_WAVE \<and> s = (SCC_NODE_KIND, res_scc_id r)
         \<and> (\<exists>m \<in> set (res_members r). n = (node_kind_value REPO, m)))" for n s
    by (auto simp: atomic_items_def)
  have "s' = s" if "(n, s) \<in> set (atomic_items rs)" "(n, s') \<in> set (atomic_items rs)" for n s s'
    using that assms unfolding items atomic_disjoint_def by fastforce
  then have "dict_get (atomic_mapping rs) n = Some s \<longleftrightarrow> (n, s) \<in> set (atomic_items rs)"
    unfolding atomic_mapping_items
    using dict_get_update[of n "atomic_items rs" s "[]"] dict_get_updateD[of "atomic_items rs" "[]" n s]
    by auto
  then show ?thesis
    by (simp only: items)
qed

lemma scc_members_iff:
  assumes "atomic_disjoint rs"
  shows "dict_get (scc_members_of rs) k = Some ms \<longleftrightarrow>
    (\<exists>r \<in> set rs. res_strategy r = ATOMIC_WAVE \<and> k = res_scc_id r \<and> ms = res_members r)"
proof -
  let ?items = "map (\<lambda>r. (res_scc_id r, res_members r)) (filter (\<lambda>r. res_strategy r = ATOMIC_WAVE) rs)"
  have eq: "scc_members_of rs = dict_update ?items []"
    unfolding scc_members_of_def by (simp add: dict_update_def fold_map comp_def)
  have items: "(k, ms) \<in> set ?items \<longleftrightarrow>
      (\<exists>r \<in> set rs. res_strategy r = ATOMIC_WAVE \<and> k = res_scc_id r \<and> ms = res_members r)" for k ms
    by auto
  have "ms' = ms" if "(k, ms) \<in> set ?items" "(k, ms') \<in> set ?items" for k ms ms'
    using that assms unfolding items atomic_disjoint_def by fastforce
  then have "dict_get (scc_members_of rs) k = Some ms \<longleftrightarrow> (k, ms) \<in> set ?items"
    unfolding eq
    using dict_get_update[of k ?items ms "[]"] dict_get_updateD[of ?items "[]" k ms] by auto
  then show ?thesis
    by (simp only: items)
qed

lemma map_ref_scc:
  assumes "atomic_disjoint rs" and "fst n \<noteq> SCC_NODE_KIND"
  shows "fst (map_ref (atomic_mapping rs) n) = SCC_NODE_KIND \<longleftrightarrow> dict_get (atomic_mapping rs) n \<noteq> None"
proof (cases "dict_get (atomic_mapping rs) n")
  case (Some s)
  then have "fst s = SCC_NODE_KIND"
    using atomic_mapping_iff[OF assms(1), of n s] by auto
  with Some show ?thesis
    by (simp add: map_ref_def)
qed (use assms(2) in \<open>simp add: map_ref_def\<close>)

text \<open>
  The items the indexing loop visits are nodes of the condensed graph: a condensed node is the id
  of an atomic component, any other node is not a member of one.
\<close>

definition condensed_items :: "scc_resolution list \<Rightarrow> (order_node \<times> int) list \<Rightarrow> bool" where
  "condensed_items rs xs \<longleftrightarrow>
     (\<forall>(n, w) \<in> set xs.
        if fst n = SCC_NODE_KIND then dict_get (scc_members_of rs) (snd n) \<noteq> None
        else dict_get (atomic_mapping rs) n = None)"

text \<open>\<open>index'\<close> is \<open>index\<close> updated with the indices of \<open>xs\<close>, each node read through its condensed node.\<close>

definition indexed ::
  "scc_resolution list \<Rightarrow> (order_node \<times> int) list \<Rightarrow> (node_ref, int) dict \<Rightarrow> (node_ref, int) dict \<Rightarrow> bool" where
  "indexed rs xs index index' \<longleftrightarrow>
     (distinct (map fst index) \<longrightarrow> distinct (map fst index'))
     \<and> (\<forall>n. fst n \<noteq> SCC_NODE_KIND \<longrightarrow>
          dict_get index' n = (case dict_get xs (map_ref (atomic_mapping rs) n) of
                                 None \<Rightarrow> dict_get index n | Some w \<Rightarrow> Some w))
     \<and> (\<forall>n. fst n = SCC_NODE_KIND \<longrightarrow> dict_get index' n = dict_get index n)"

lemma indexed_step:
  assumes "indexed rs xs index1 index'" and "dict_get xs n = None"
    and "distinct (map fst index) \<longrightarrow> distinct (map fst index1)"
    and "\<And>k. fst k \<noteq> SCC_NODE_KIND \<Longrightarrow> dict_get index1 k =
           (if map_ref (atomic_mapping rs) k = n then Some w else dict_get index k)"
    and "\<And>k. fst k = SCC_NODE_KIND \<Longrightarrow> dict_get index1 k = dict_get index k"
  shows "indexed rs ((n, w) # xs) index index'"
  unfolding indexed_def
proof (intro conjI allI impI)
  show "distinct (map fst index')" if "distinct (map fst index)"
    using that assms(1,3) unfolding indexed_def by blast
  show "dict_get index' k = dict_get index k" if "fst k = SCC_NODE_KIND" for k
    using that assms(1,5) unfolding indexed_def by metis
  fix k :: node_ref assume k: "fst k \<noteq> SCC_NODE_KIND"
  have "dict_get index' k = (case dict_get xs (map_ref (atomic_mapping rs) k) of
      None \<Rightarrow> dict_get index1 k | Some w \<Rightarrow> Some w)"
    using assms(1) k unfolding indexed_def by blast
  then show "dict_get index' k = (case dict_get ((n, w) # xs) (map_ref (atomic_mapping rs) k) of
      None \<Rightarrow> dict_get index k | Some w \<Rightarrow> Some w)"
    using assms(2) assms(4)[OF k] by (cases "map_ref (atomic_mapping rs) k = n") (simp_all add: dict_get_Cons split: option.split)
qed

lemma indexed_plain:
  assumes "atomic_disjoint rs" and "fst n \<noteq> SCC_NODE_KIND" and "dict_get (atomic_mapping rs) n = None"
    and "dict_get xs n = None" and "indexed rs xs (dict_set index n w) index'"
  shows "indexed rs ((n, w) # xs) index index'"
proof (rule indexed_step[OF assms(5,4)])
  fix k :: node_ref assume k: "fst k \<noteq> SCC_NODE_KIND"
  have "map_ref (atomic_mapping rs) k = n \<longleftrightarrow> k = n"
    using map_ref_scc[OF assms(1) k] assms(2,3)
    by (cases "dict_get (atomic_mapping rs) k") (auto simp: map_ref_def)
  then show "dict_get (dict_set index n w) k =
      (if map_ref (atomic_mapping rs) k = n then Some w else dict_get index k)"
    by simp
qed (use assms(2) in auto)

lemma scc_member_iff:
  assumes "atomic_disjoint rs" and "dict_get (scc_members_of rs) (snd n) = Some ms"
    and "fst n = SCC_NODE_KIND" and "fst k \<noteq> SCC_NODE_KIND"
  shows "map_ref (atomic_mapping rs) k = n \<longleftrightarrow> k \<in> (\<lambda>m. (node_kind_value REPO, m)) ` set ms"
proof -
  obtain r where r: "r \<in> set rs" "res_strategy r = ATOMIC_WAVE" "snd n = res_scc_id r" "ms = res_members r"
    using assms(2) scc_members_iff[OF assms(1)] by blast
  have n: "n = (SCC_NODE_KIND, res_scc_id r)"
    using assms(3) r(3) by (metis prod.collapse)
  have "map_ref (atomic_mapping rs) k = n \<longleftrightarrow> dict_get (atomic_mapping rs) k = Some n"
    using assms(3,4) by (cases "dict_get (atomic_mapping rs) k") (auto simp: map_ref_def)
  also have "\<dots> \<longleftrightarrow> k \<in> (\<lambda>m. (node_kind_value REPO, m)) ` set ms"
  proof
    assume "dict_get (atomic_mapping rs) k = Some n"
    then obtain r' m where r': "r' \<in> set rs" "res_strategy r' = ATOMIC_WAVE"
      "res_scc_id r' = res_scc_id r" "m \<in> set (res_members r')" "k = (node_kind_value REPO, m)"
      unfolding atomic_mapping_iff[OF assms(1)] n by auto
    then have "r' = r"
      using assms(1) r(1,2) unfolding atomic_disjoint_def by blast
    with r' r(4) show "k \<in> (\<lambda>m. (node_kind_value REPO, m)) ` set ms"
      by blast
  next
    assume "k \<in> (\<lambda>m. (node_kind_value REPO, m)) ` set ms"
    with r show "dict_get (atomic_mapping rs) k = Some n"
      unfolding atomic_mapping_iff[OF assms(1)] n by blast
  qed
  finally show ?thesis .
qed

lemma get_set_members:
  "dict_get (dict_update (map (\<lambda>m. (f m, w)) ms) index) k =
     (if k \<in> f ` set ms then Some w else dict_get index k)"
proof (cases "k \<in> f ` set ms")
  case True
  then have "(k, w) \<in> set (map (\<lambda>m. (f m, w)) ms)" by auto
  moreover have "w' = w" if "(k, w') \<in> set (map (\<lambda>m. (f m, w)) ms)" for w'
    using that by auto
  ultimately show ?thesis
    using True dict_get_update[of k "map (\<lambda>m. (f m, w)) ms" w index] by simp
next
  case False
  then have "k \<notin> fst ` set (map (\<lambda>m. (f m, w)) ms)" by auto
  with False show ?thesis
    by (simp add: dict_get_update_other)
qed

lemma indexed_scc:
  assumes "atomic_disjoint rs" and "fst n = SCC_NODE_KIND"
    and "dict_get (scc_members_of rs) (snd n) = Some ms" and "dict_get xs n = None"
    and "indexed rs xs (fold (\<lambda>m d. dict_set d (node_kind_value REPO, m) w) ms index) index'"
  shows "indexed rs ((n, w) # xs) index index'"
proof (rule indexed_step[OF assms(5,4)], unfold fold_set_members get_set_members)
  fix k :: node_ref assume "fst k = SCC_NODE_KIND"
  then have "k \<notin> (\<lambda>m. (node_kind_value REPO, m)) ` set ms"
    by (auto simp: SCC_NODE_KIND_def)
  then show "(if k \<in> (\<lambda>m. (node_kind_value REPO, m)) ` set ms then Some w else dict_get index k)
      = dict_get index k"
    by simp
qed (simp_all add: distinct_dict_update scc_member_iff[OF assms(1,3,2)])

lemma index_loop_spec:
  assumes "atomic_disjoint rs" and "distinct (map fst xs)" and "condensed_items rs xs"
  shows "\<exists>index' sccs'. index_loop (scc_members_of rs) xs index sccs = Inr (index', sccs')
    \<and> indexed rs xs index index'"
  using assms(2,3)
proof (induction xs arbitrary: index sccs)
  case (Cons x xs)
  obtain n w where x: "x = (n, w)"
    by (cases x)
  have d: "distinct (map fst xs)" and c: "condensed_items rs xs" and nx: "dict_get xs n = None"
    using Cons.prems x by (auto simp: condensed_items_def dict_get_None_iff)
  show ?case
  proof (cases "fst n = SCC_NODE_KIND")
    case True
    then obtain ms where "dict_get (scc_members_of rs) (snd n) = Some ms"
      using Cons.prems(2) x by (auto simp: condensed_items_def)
    with True x show ?thesis
      using Cons.IH[OF d c, of "fold (\<lambda>m d. dict_set d (node_kind_value REPO, m) w) ms index"
          "add_to w (snd n) sccs"] indexed_scc[OF assms(1) True _ nx] by fastforce
  next
    case False
    then have "dict_get (atomic_mapping rs) n = None"
      using Cons.prems(2) x by (auto simp: condensed_items_def)
    with False x show ?thesis
      using Cons.IH[OF d c, of "dict_set index n w" sccs] indexed_plain[OF assms(1) False _ nx]
      by fastforce
  qed
qed (simp add: indexed_def)

section \<open>The plan\<close>

lemma get_list_group_by [simp]: "get_list (group_by key xs) k = filter (\<lambda>x. key x = k) xs"
  by (simp add: get_list_def dict_get_group_by Let_def)

lemma materialized_wave:
  assumes "distinct (map fst index)" and "w \<in> set (materialize_waves index sccs deps synth)"
  shows "i \<in> set (mw_repo_ids w) \<longleftrightarrow> dict_get index (node_kind_value REPO, i) = Some (mw_index w)"
    and "i \<in> set (mw_contract_ids w) \<longleftrightarrow>
      (\<exists>k. k \<noteq> node_kind_value REPO \<and> dict_get index (k, i) = Some (mw_index w))"
    and "mw_repo_ids w \<noteq> [] \<or> mw_contract_ids w \<noteq> []"
    and "mw_synthetic w = synth"
proof -
  obtain j where j: "j \<in> snd ` set index"
    and w: "mw_index w = j" "mw_synthetic w = synth"
      "set (mw_repo_ids w) = (snd \<circ> fst) ` {it \<in> set index. fst (fst it) = node_kind_value REPO \<and> snd it = j}"
      "set (mw_contract_ids w) = (snd \<circ> fst) ` {it \<in> set index. fst (fst it) \<noteq> node_kind_value REPO \<and> snd it = j}"
    using assms(2) by (force simp: materialize_waves_def Let_def keys_group_by)
  note mem = dict_get_mem[OF assms(1), symmetric]
  show "i \<in> set (mw_repo_ids w) \<longleftrightarrow> dict_get index (node_kind_value REPO, i) = Some (mw_index w)"
    unfolding w mem by force
  show "i \<in> set (mw_contract_ids w) \<longleftrightarrow>
      (\<exists>k. k \<noteq> node_kind_value REPO \<and> dict_get index (k, i) = Some (mw_index w))"
    unfolding w mem by force
  obtain it where "it \<in> set index" "snd it = j"
    using j by auto
  then have "set (mw_repo_ids w) \<union> set (mw_contract_ids w) \<noteq> {}"
    unfolding w by (cases "fst (fst it) = node_kind_value REPO") blast+
  then show "mw_repo_ids w \<noteq> [] \<or> mw_contract_ids w \<noteq> []"
    by auto
  show "mw_synthetic w = synth"
    by (rule w(2))
qed

lemma materialized_indices:
  "map mw_index (materialize_waves index sccs deps synth) = sorted_set (map snd index)"
proof -
  have "sorted_set (map fst (group_by snd (filter (\<lambda>it. fst (fst it) = node_kind_value REPO) (sort index)))
      @ map fst (group_by snd (filter (\<lambda>it. fst (fst it) \<noteq> node_kind_value REPO) (sort index))))
    = sorted_set (map snd index)"
    by (rule sorted_set_cong) (auto simp: keys_group_by)
  then show ?thesis
    by (simp add: materialize_waves_def Let_def comp_def)
qed

text \<open>What the sequencer needs of the report it is given.\<close>

definition report_ok :: "cycle_report \<Rightarrow> bool" where
  "report_ok rep \<longleftrightarrow>
     wf_graph (fg_G_dag (rep_graph rep))
     \<and> (\<forall>n \<in> set (nodes (fg_G_dag (rep_graph rep))). fst n \<noteq> SCC_NODE_KIND)
     \<and> atomic_disjoint (rep_resolutions rep)"

definition excluded_of :: "cycle_report \<Rightarrow> repo_id list \<Rightarrow> repo_id list" where
  "excluded_of rep gated = sorted_set (gated @ manual_repo_ids rep)"

definition condensed_of :: "cycle_report \<Rightarrow> repo_id list \<Rightarrow> (order_node, unit) digraph" where
  "condensed_of rep gated =
     condense_for_ordering (fg_G_dag (rep_graph rep)) (rep_resolutions rep) (excluded_of rep gated) True"

definition dropped_of :: "cycle_report \<Rightarrow> repo_id list \<Rightarrow> repo_id set" where
  "dropped_of rep gated = set gated \<union> set (manual_repo_ids rep)"

definition order_node_of :: "cycle_report \<Rightarrow> node_ref \<Rightarrow> order_node" where
  "order_node_of rep = map_ref (atomic_mapping (rep_resolutions rep))"

lemma dropped_ids_excluded: "dropped_ids (rep_resolutions rep) (excluded_of rep gated) = dropped_of rep gated"
  by (auto simp: dropped_ids_def excluded_of_def dropped_of_def manual_repo_ids_def)

lemma condensed_of:
  assumes "report_ok rep"
  shows "wf_graph (condensed_of rep gated)"
    and "set (nodes (condensed_of rep gated)) =
      order_node_of rep ` kept_refs (fg_G_dag (rep_graph rep)) (dropped_of rep gated)"
    and "arc_set (condensed_of rep gated) =
      {(order_node_of rep u, order_node_of rep v) | u v. (u, v) \<in> arc_set (fg_G_dag (rep_graph rep))
         \<and> snd u \<notin> dropped_of rep gated \<and> snd v \<notin> dropped_of rep gated
         \<and> order_node_of rep u \<noteq> order_node_of rep v}"
  using condensed_graph[of "fg_G_dag (rep_graph rep)" "rep_resolutions rep" "excluded_of rep gated"] assms
  unfolding condensed_of_def order_node_of_def dropped_ids_excluded report_ok_def by blast+

lemma condensed_of_items:
  assumes "report_ok rep" and "fst ` set xs \<subseteq> set (nodes (condensed_of rep gated))"
  shows "condensed_items (rep_resolutions rep) xs"
  unfolding condensed_items_def
proof (intro ballI, clarify)
  fix n :: order_node and w
  let ?mp = "atomic_mapping (rep_resolutions rep)"
  assume "(n, w) \<in> set xs"
  then have "n \<in> set (nodes (condensed_of rep gated))"
    using assms(2) by force
  then obtain k where k: "k \<in> set (nodes (fg_G_dag (rep_graph rep)))" "n = map_ref ?mp k"
    unfolding condensed_of(2)[OF assms(1)] order_node_of_def kept_refs_def by auto
  have disj: "atomic_disjoint (rep_resolutions rep)" and kk: "fst k \<noteq> SCC_NODE_KIND"
    using assms(1) k(1) by (auto simp: report_ok_def)
  show "if fst n = SCC_NODE_KIND then dict_get (scc_members_of (rep_resolutions rep)) (snd n) \<noteq> None
        else dict_get ?mp n = None"
  proof (cases "dict_get ?mp k")
    case None
    with k(2) kk show ?thesis by (simp add: map_ref_def)
  next
    case (Some s)
    then obtain r where "r \<in> set (rep_resolutions rep)" "res_strategy r = ATOMIC_WAVE"
      "s = (SCC_NODE_KIND, res_scc_id r)"
      unfolding atomic_mapping_iff[OF disj] by blast
    moreover from this have "dict_get (scc_members_of (rep_resolutions rep)) (res_scc_id r) = Some (res_members r)"
      unfolding scc_members_iff[OF disj] by blast
    ultimately show ?thesis
      using Some k(2) by (simp add: map_ref_def)
  qed
qed

text \<open>The layers of the condensed nodes, read back per repository.\<close>

lemma index_of_layers:
  assumes "report_ok rep"
    and "levels ((arc_set (condensed_of rep gated))\<inverse>) (set (nodes (condensed_of rep gated))) L"
  shows "\<exists>index sccs. index_loop (scc_members_of (rep_resolutions rep)) (sort L) [] [] = Inr (index, sccs)
    \<and> distinct (map fst index)
    \<and> (\<forall>n. dict_get index n = (if fst n = SCC_NODE_KIND then None else dict_get L (order_node_of rep n)))"
proof -
  have dL: "distinct (map fst L)" and keys: "fst ` set L = set (nodes (condensed_of rep gated))"
    using assms(2) by (simp_all add: levels_def)
  have disj: "atomic_disjoint (rep_resolutions rep)"
    using assms(1) by (simp add: report_ok_def)
  have "condensed_items (rep_resolutions rep) (sort L)"
    using condensed_of_items[OF assms(1), of "sort L" gated] keys by simp
  then obtain index sccs where i:
    "index_loop (scc_members_of (rep_resolutions rep)) (sort L) [] [] = Inr (index, sccs)"
    "indexed (rep_resolutions rep) (sort L) [] index"
    using index_loop_spec[OF disj, of "sort L" "[]" "[]"] dL distinct_keys_sort_key[of "\<lambda>x. x" L] by auto
  have "dict_get index n = (if fst n = SCC_NODE_KIND then None else dict_get L (order_node_of rep n))" for n
  proof (cases "fst n = SCC_NODE_KIND")
    case True
    then have "dict_get index n = dict_get [] n"
      using i(2) unfolding indexed_def by blast
    with True show ?thesis
      by simp
  next
    case False
    then have "dict_get index n = (case dict_get (sort L) (order_node_of rep n) of
        None \<Rightarrow> dict_get [] n | Some w \<Rightarrow> Some w)"
      using i(2) unfolding indexed_def order_node_of_def by blast
    also have "\<dots> = dict_get L (order_node_of rep n)"
      by (simp add: dict_get_sort_key[OF dL, of "\<lambda>x. x"] split: option.split)
    finally show ?thesis
      using False by simp
  qed
  moreover have "distinct (map fst index)"
    using i(2) unfolding indexed_def by simp
  ultimately show ?thesis using i(1) by blast
qed

text \<open>The shape of every plan.\<close>

lemma assign_waves_plan:
  assumes "networkx nx" and "report_ok rep" and "assign_waves nx rep gated = Inr plan"
  obtains L index sccs where
    "levels ((arc_set (condensed_of rep gated))\<inverse>) (set (nodes (condensed_of rep gated))) L"
    and "distinct (map fst index)" and "wp_index plan = sort index"
    and "\<And>n. dict_get index n =
           (if fst n = SCC_NODE_KIND then None else dict_get L (order_node_of rep n))"
    and "wp_waves plan =
           materialize_waves index sccs (depends_of (condensed_of rep gated) L) False"
    and "wp_excluded plan = excluded_of rep gated"
    and "\<And>r. r \<in> set (rep_resolutions rep) \<Longrightarrow> \<exists>f. finding_of index r = Inr f"
proof -
  note wf = condensed_of(1)[OF assms(2), of gated]
  have ac: "acyclic (arc_set (condensed_of rep gated))"
    using assms(3) networkx.graph_acyclic[OF assms(1) wf]
    by (auto simp: assign_waves_def ordering_is_acyclic_def condensed_of_def excluded_of_def Let_def
        split: if_splits)
  obtain L where L: "layer nx (condensed_of rep gated) = Inr L"
    "levels ((arc_set (condensed_of rep gated))\<inverse>) (set (nodes (condensed_of rep gated))) L"
    using layer_total[OF assms(1) wf ac] by blast
  obtain index sccs where i: "index_loop (scc_members_of (rep_resolutions rep)) (sort L) [] [] = Inr (index, sccs)"
    and d: "distinct (map fst index)"
    and get: "\<And>n. dict_get index n = (if fst n = SCC_NODE_KIND then None else dict_get L (order_node_of rep n))"
    using index_of_layers[OF assms(2) L(2)] by blast
  obtain fs where fs: "traverse (finding_of index) (sort_key res_scc_id (rep_resolutions rep)) = Inr fs"
    and "wp_index plan = sort index"
    and "wp_waves plan = materialize_waves index sccs (depends_of (condensed_of rep gated) L) False"
    and "wp_excluded plan = excluded_of rep gated"
    using assms(3) L(1) i unfolding assign_waves_def Let_def condensed_of_def excluded_of_def
    by (auto split: if_splits simp: rbind_Inr_iff)
  moreover have "\<exists>f. finding_of index r = Inr f" if "r \<in> set (rep_resolutions rep)" for r
    using traverse_InrD[OF fs] that by simp
  ultimately show ?thesis
    using that[OF L(2) d _ get, of sccs] by blast
qed

lemma relpow_converse: "(R\<inverse> :: ('a \<times> 'a) set) ^^ k = (R ^^ k)\<inverse>"
  by (induction k) (simp_all add: converse_relcomp relpow_commute[symmetric])

lemma index_values:
  assumes "report_ok rep" and "distinct (map fst index)"
    and "levels ((arc_set (condensed_of rep gated))\<inverse>) (set (nodes (condensed_of rep gated))) L"
    and "\<And>n. dict_get index n =
           (if fst n = SCC_NODE_KIND then None else dict_get L (order_node_of rep n))"
  shows "snd ` set index = idx L ` set (nodes (condensed_of rep gated))"
proof (intro set_eqI iffI)
  fix j assume "j \<in> snd ` set index"
  then obtain n where "dict_get index n = Some j"
    using dict_get_mem[OF assms(2)] by auto
  then have "dict_get L (order_node_of rep n) = Some j"
    using assms(4) by (auto split: if_splits)
  then show "j \<in> idx L ` set (nodes (condensed_of rep gated))"
    unfolding levels_get[OF assms(3)] by (auto split: if_splits)
next
  fix j assume "j \<in> idx L ` set (nodes (condensed_of rep gated))"
  then obtain k where k: "k \<in> kept_refs (fg_G_dag (rep_graph rep)) (dropped_of rep gated)"
    "j = idx L (order_node_of rep k)"
    unfolding condensed_of(2)[OF assms(1)] by blast
  then have "fst k \<noteq> SCC_NODE_KIND"
    using assms(1) unfolding report_ok_def kept_refs_def by blast
  moreover have "order_node_of rep k \<in> set (nodes (condensed_of rep gated))"
    using k(1) unfolding condensed_of(2)[OF assms(1)] by blast
  ultimately have "dict_get index k = Some j"
    using assms(4)[of k] levels_get[OF assms(3)] k(2) by simp
  then have "(k, j) \<in> set index"
    by (simp add: dict_get_mem[OF assms(2)])
  then show "j \<in> snd ` set index"
    by (metis imageI snd_conv)
qed

section \<open>Properties\<close>

text \<open>
  C27: On an acyclic graph the layering gives every node, and nothing else, the length of its
  longest chain of dependencies: no chain is longer, and one of that length exists. A node without
  dependencies is in layer 0 and each dependency is in an earlier layer. On a cyclic graph it raises.
\<close>

theorem layer_is_longest_chain:
  assumes "networkx nx" and "wf_graph g"
  shows "(acyclic (arc_set g) \<longrightarrow>
      (\<exists>L. layer nx g = Inr L \<and> fst ` set L = set (nodes g)
        \<and> (\<forall>n \<in> set (nodes g). \<exists>i \<ge> 0. dict_get L n = Some i
             \<and> (\<exists>d. (n, d) \<in> arc_set g ^^ nat i)
             \<and> (\<forall>k d. (n, d) \<in> arc_set g ^^ k \<longrightarrow> int k \<le> i)
             \<and> (\<forall>d. (n, d) \<in> arc_set g \<longrightarrow> (\<exists>j < i. dict_get L d = Some j)))))
    \<and> (\<not> acyclic (arc_set g) \<longrightarrow> layer nx g = Inl NotADag)"
proof (intro conjI impI)
  assume "acyclic (arc_set g)"
  then obtain L where L: "layer nx g = Inr L" "levels ((arc_set g)\<inverse>) (set (nodes g)) L"
    using layer_total[OF assms] by blast
  have fin: "finite ((arc_set g)\<inverse>)"
    by simp
  have conv: "(d, n) \<in> (arc_set g)\<inverse> ^^ k \<longleftrightarrow> (n, d) \<in> arc_set g ^^ k" for d n k
    by (simp add: relpow_converse)
  show "\<exists>L. layer nx g = Inr L \<and> fst ` set L = set (nodes g)
        \<and> (\<forall>n \<in> set (nodes g). \<exists>i \<ge> 0. dict_get L n = Some i
             \<and> (\<exists>d. (n, d) \<in> arc_set g ^^ nat i)
             \<and> (\<forall>k d. (n, d) \<in> arc_set g ^^ k \<longrightarrow> int k \<le> i)
             \<and> (\<forall>d. (n, d) \<in> arc_set g \<longrightarrow> (\<exists>j < i. dict_get L d = Some j)))"
  proof (intro exI[of _ L] conjI ballI)
    show "layer nx g = Inr L" and "fst ` set L = set (nodes g)"
      using L by (simp_all add: levels_def)
    fix n assume n: "n \<in> set (nodes g)"
    note chain = levels_chain[OF L(2) fin n, unfolded conv]
    show "\<exists>i \<ge> 0. dict_get L n = Some i \<and> (\<exists>d. (n, d) \<in> arc_set g ^^ nat i)
        \<and> (\<forall>k d. (n, d) \<in> arc_set g ^^ k \<longrightarrow> int k \<le> i)
        \<and> (\<forall>d. (n, d) \<in> arc_set g \<longrightarrow> (\<exists>j < i. dict_get L d = Some j))"
    proof (rule exI[of _ "idx L n"], intro conjI allI impI)
      show "0 \<le> idx L n" and "\<exists>d. (n, d) \<in> arc_set g ^^ nat (idx L n)"
        using chain(2) by blast+
      show "dict_get L n = Some (idx L n)"
        using levels_get[OF L(2)] n by simp
      show "int k \<le> idx L n" if "(n, d) \<in> arc_set g ^^ k" for k d
      proof -
        have "d \<in> set (nodes g)"
          using that n wf_arcD[OF assms(2)] by (cases k) auto
        with chain(1)[OF that] levels_nonneg[OF L(2) fin] show ?thesis by fastforce
      qed
      show "\<exists>j < idx L n. dict_get L d = Some j" if "(n, d) \<in> arc_set g" for d
        using that levels_less[OF L(2) fin _ n, of d] levels_get[OF L(2), of d] wf_arcD[OF assms(2) that]
        by simp
    qed
  qed
qed (rule layer_cyclic[OF assms])

lemma plan_get:
  assumes "networkx nx" and "report_ok rep" and "assign_waves nx rep gated = Inr plan"
  obtains L where
    "levels ((arc_set (condensed_of rep gated))\<inverse>) (set (nodes (condensed_of rep gated))) L"
    and "\<And>n. dict_get (wp_index plan) n =
           (if fst n = SCC_NODE_KIND then None else dict_get L (order_node_of rep n))"
proof -
  obtain L index sccs where
    "levels ((arc_set (condensed_of rep gated))\<inverse>) (set (nodes (condensed_of rep gated))) L"
    and i: "distinct (map fst index)" "wp_index plan = sort index"
    and "\<And>n. dict_get index n =
           (if fst n = SCC_NODE_KIND then None else dict_get L (order_node_of rep n))"
    using assign_waves_plan[OF assms] by (metis (no_types))
  then show ?thesis
    using that dict_get_sort_key[OF i(1), of "\<lambda>x. x"] by simp
qed

lemma plan_dependency_order:
  assumes "networkx nx" and "report_ok rep" and "assign_waves nx rep gated = Inr plan"
    and "(u, v) \<in> arc_set (fg_G_dag (rep_graph rep))"
    and "snd u \<notin> dropped_of rep gated" and "snd v \<notin> dropped_of rep gated"
  shows "\<exists>i j. dict_get (wp_index plan) u = Some i \<and> dict_get (wp_index plan) v = Some j
    \<and> (if order_node_of rep u = order_node_of rep v then j = i else j < i)"
proof -
  obtain L where
    L: "levels ((arc_set (condensed_of rep gated))\<inverse>) (set (nodes (condensed_of rep gated))) L"
    and get: "\<And>n. dict_get (wp_index plan) n =
           (if fst n = SCC_NODE_KIND then None else dict_get L (order_node_of rep n))"
    using plan_get[OF assms(1-3)] by metis
  have uv: "u \<in> kept_refs (fg_G_dag (rep_graph rep)) (dropped_of rep gated)"
    "v \<in> kept_refs (fg_G_dag (rep_graph rep)) (dropped_of rep gated)"
    using assms(2,4-6) wf_arcD unfolding report_ok_def kept_refs_def by fastforce+
  then have k: "fst u \<noteq> SCC_NODE_KIND" "fst v \<noteq> SCC_NODE_KIND"
    using assms(2) unfolding report_ok_def kept_refs_def by blast+
  have n: "order_node_of rep u \<in> set (nodes (condensed_of rep gated))"
    "order_node_of rep v \<in> set (nodes (condensed_of rep gated))"
    using uv unfolding condensed_of(2)[OF assms(2)] by blast+
  have "idx L (order_node_of rep v) < idx L (order_node_of rep u)"
    if "order_node_of rep u \<noteq> order_node_of rep v"
  proof -
    have "(order_node_of rep v, order_node_of rep u) \<in> (arc_set (condensed_of rep gated))\<inverse>"
      using assms(4-6) that unfolding condensed_of(3)[OF assms(2)] by blast
    then show ?thesis
      using levels_less[OF L _ _ n(1)] by simp
  qed
  then show ?thesis
    using get k n levels_get[OF L] by auto
qed

lemma plan_wave_members:
  assumes "networkx nx" and "report_ok rep" and "assign_waves nx rep gated = Inr plan"
  shows "(\<exists>w \<in> set (wp_waves plan). mw_index w = i \<and> r \<in> set (mw_repo_ids w)) \<longleftrightarrow>
    dict_get (wp_index plan) (node_kind_value REPO, r) = Some i"
proof -
  obtain index sccs L where i: "distinct (map fst index)" "wp_index plan = sort index"
    and w: "wp_waves plan = materialize_waves index sccs (depends_of (condensed_of rep gated) L) False"
    using assign_waves_plan[OF assms] by metis
  have get: "dict_get (wp_index plan) n = dict_get index n" for n
    using i dict_get_sort_key by simp
  have "i \<in> mw_index ` set (wp_waves plan)" if "dict_get index (node_kind_value REPO, r) = Some i"
  proof -
    have "i \<in> set (map mw_index (wp_waves plan))"
      unfolding w materialized_indices using that by (force simp: dict_get_mem[OF i(1), symmetric])
    then show ?thesis by simp
  qed
  then show ?thesis
    using materialized_wave(1)[OF i(1)] unfolding get w by blast
qed

text \<open>
  C4: Every plan respects the dependencies, outside the gated and the manual repositories. Two nodes of the ordering subgraph that are neither
  gated nor members of a manual component both have a wave, where one depends on the other; the dependency's wave is strictly
  earlier, unless both belong to one atomic component, which migrates as one unit in one wave.
\<close>

theorem waves_respect_dependencies:
  assumes "networkx nx" and "report_ok rep" and "assign_waves nx rep gated = Inr plan"
    and "(u, v) \<in> arc_set (fg_G_dag (rep_graph rep))"
    and "snd u \<notin> dropped_of rep gated" and "snd v \<notin> dropped_of rep gated"
  shows "\<exists>i j. dict_get (wp_index plan) u = Some i \<and> dict_get (wp_index plan) v = Some j
    \<and> (if order_node_of rep u = order_node_of rep v then j = i else j < i)"
  by (rule plan_dependency_order[OF assms])

text \<open>
  The waves of a plan are the classes of its index: a wave holds exactly the repositories
  whose index is the wave's, its contracts likewise, it is never empty, its index is not negative
  and no two waves share one, so every sequenced repository is in exactly one wave; the wave
  numbers have no gap, since a wave above 0 follows the one below it.
\<close>

theorem waves_partition_plan:
  assumes "networkx nx" and "report_ok rep" and "assign_waves nx rep gated = Inr plan"
  shows "distinct (map mw_index (wp_waves plan)) \<and> sorted (map mw_index (wp_waves plan))
    \<and> set (map mw_index (wp_waves plan)) = snd ` set (wp_index plan)
    \<and> (\<forall>i \<in> set (map mw_index (wp_waves plan)). i = 0 \<or> i - 1 \<in> set (map mw_index (wp_waves plan)))
    \<and> list_all (\<lambda>w. wave_is_valid w \<and> \<not> mw_synthetic w) (wp_waves plan)
    \<and> (\<forall>w \<in> set (wp_waves plan). \<forall>r. r \<in> set (mw_repo_ids w) \<longleftrightarrow>
         dict_get (wp_index plan) (node_kind_value REPO, r) = Some (mw_index w))"
proof -
  obtain L index sccs where
    L: "levels ((arc_set (condensed_of rep gated))\<inverse>) (set (nodes (condensed_of rep gated))) L"
    and i: "distinct (map fst index)" "wp_index plan = sort index"
    and get: "\<And>n. dict_get index n =
           (if fst n = SCC_NODE_KIND then None else dict_get L (order_node_of rep n))"
    and w: "wp_waves plan =
           materialize_waves index sccs (depends_of (condensed_of rep gated) L) False"
    using assign_waves_plan[OF assms] by metis
  have m: "map mw_index (wp_waves plan) = sorted_set (map snd index)"
    unfolding w by (rule materialized_indices)
  note vals = index_values[OF assms(2) i(1) L get]
  have pos: "0 \<le> j" and gap: "j = 0 \<or> j - 1 \<in> snd ` set index" if "j \<in> snd ` set index" for j
  proof -
    obtain n where n: "n \<in> set (nodes (condensed_of rep gated))" "j = idx L n"
      using \<open>j \<in> snd ` set index\<close> vals by auto
    then show "0 \<le> j"
      using levels_nonneg[OF L] by simp
    show "j = 0 \<or> j - 1 \<in> snd ` set index"
      using levels_pred[OF L _ n(1)] n(2) unfolding vals by force
  qed
  have "wave_is_valid v \<and> \<not> mw_synthetic v" if v: "v \<in> set (wp_waves plan)" for v
  proof -
    have "mw_index v \<in> set (map mw_index (wp_waves plan))"
      using v by simp
    then have "0 \<le> mw_index v"
      unfolding m using pos by simp
    then show ?thesis
      using materialized_wave(3,4)[OF i(1)] v unfolding w wave_is_valid_def by blast
  qed
  moreover have "dict_get (wp_index plan) n = dict_get index n" for n
    using i dict_get_sort_key by simp
  ultimately show ?thesis
    using materialized_wave(1)[OF i(1)] gap unfolding m i(2) by (simp add: list_all_iff w)
qed

lemma order_node_of_member:
  assumes "report_ok rep" and "r \<in> set (rep_resolutions rep)" and "res_strategy r = ATOMIC_WAVE"
    and "m \<in> set (res_members r)"
  shows "order_node_of rep (node_kind_value REPO, m) = (SCC_NODE_KIND, res_scc_id r)"
proof -
  have "dict_get (atomic_mapping (rep_resolutions rep)) (node_kind_value REPO, m) =
      Some (SCC_NODE_KIND, res_scc_id r)"
    using assms unfolding report_ok_def atomic_mapping_iff by (metis atomic_mapping_iff)
  then show ?thesis
    by (simp add: order_node_of_def map_ref_def)
qed

lemma order_node_of_other:
  assumes "report_ok rep"
    and "\<And>r. r \<in> set (rep_resolutions rep) \<Longrightarrow> res_strategy r = ATOMIC_WAVE \<Longrightarrow> snd n \<notin> set (res_members r)"
  shows "order_node_of rep n = n"
proof (cases "dict_get (atomic_mapping (rep_resolutions rep)) n")
  case (Some s)
  have "atomic_disjoint (rep_resolutions rep)"
    using assms(1) by (simp add: report_ok_def)
  from Some[unfolded atomic_mapping_iff[OF this]] assms(2) show ?thesis
    by fastforce
qed (simp add: order_node_of_def map_ref_def)

lemma finding_of_atomic_None:
  "res_strategy r = ATOMIC_WAVE \<Longrightarrow> dict_get index (node_kind_value REPO, hd (res_members r)) = None \<Longrightarrow>
   finding_of index r = Inl (UnsubstantiatedFinding (res_scc_id r))"
  by (simp add: finding_of_def to_finding_def strategy_is_substantiated_def Let_def)

lemma scc_node_kept:
  assumes "report_ok rep" and "r \<in> set (rep_resolutions rep)" and "res_strategy r = ATOMIC_WAVE"
    and "(SCC_NODE_KIND, res_scc_id r) \<in> set (nodes (condensed_of rep gated))"
  shows "\<exists>m \<in> set (res_members r). m \<notin> dropped_of rep gated"
proof -
  obtain k where k: "k \<in> kept_refs (fg_G_dag (rep_graph rep)) (dropped_of rep gated)"
    "order_node_of rep k = (SCC_NODE_KIND, res_scc_id r)"
    using assms(4) unfolding condensed_of(2)[OF assms(1)] by (metis imageE)
  have disj: "atomic_disjoint (rep_resolutions rep)" and "fst k \<noteq> SCC_NODE_KIND"
    using assms(1) k(1) unfolding report_ok_def kept_refs_def by blast+
  with k(2) have "dict_get (atomic_mapping (rep_resolutions rep)) k = Some (SCC_NODE_KIND, res_scc_id r)"
    by (cases "dict_get (atomic_mapping (rep_resolutions rep)) k") (auto simp: order_node_of_def map_ref_def)
  then obtain r' m where r': "r' \<in> set (rep_resolutions rep)" "res_strategy r' = ATOMIC_WAVE"
    "res_scc_id r' = res_scc_id r" "m \<in> set (res_members r')" "k = (node_kind_value REPO, m)"
    unfolding atomic_mapping_iff[OF disj] by auto
  then have "r' = r"
    using disj assms(2,3) unfolding atomic_disjoint_def by blast
  with r' k(1) show ?thesis
    unfolding kept_refs_def by auto
qed

text \<open>
  A repository that preflight or the configuration gated, or that belongs to a manual
  component, is never given a wave, provided it is not a member of an atomic component.
\<close>

theorem gated_never_sequenced:
  assumes "networkx nx" and "report_ok rep" and "assign_waves nx rep gated = Inr plan"
    and "g \<in> dropped_of rep gated"
    and "\<forall>r \<in> set (rep_resolutions rep). res_strategy r = ATOMIC_WAVE \<longrightarrow> g \<notin> set (res_members r)"
  shows "dict_get (wp_index plan) (k, g) = None"
proof -
  obtain L where
    L: "levels ((arc_set (condensed_of rep gated))\<inverse>) (set (nodes (condensed_of rep gated))) L"
    and get: "\<And>n. dict_get (wp_index plan) n =
           (if fst n = SCC_NODE_KIND then None else dict_get L (order_node_of rep n))"
    using plan_get[OF assms(1-3)] by metis
  have g: "order_node_of rep (k, g) = (k, g)"
    using order_node_of_other[OF assms(2), of "(k, g)"] assms(5) by simp
  have "(k, g) \<notin> set (nodes (condensed_of rep gated))" if k: "k \<noteq> SCC_NODE_KIND"
  proof
    assume "(k, g) \<in> set (nodes (condensed_of rep gated))"
    then obtain n where n: "n \<in> kept_refs (fg_G_dag (rep_graph rep)) (dropped_of rep gated)"
      "(k, g) = order_node_of rep n"
      unfolding condensed_of(2)[OF assms(2)] by blast
    then have "fst (order_node_of rep n) \<noteq> SCC_NODE_KIND" "fst n \<noteq> SCC_NODE_KIND"
      using k assms(2) unfolding report_ok_def kept_refs_def by (metis fst_conv, blast)
    moreover have "atomic_disjoint (rep_resolutions rep)"
      using assms(2) by (simp add: report_ok_def)
    ultimately have "dict_get (atomic_mapping (rep_resolutions rep)) n = None"
      unfolding order_node_of_def using map_ref_scc by blast
    then have "n = (k, g)"
      using n(2) by (simp add: order_node_of_def map_ref_def)
    with n(1) assms(4) show False
      by (simp add: kept_refs_def)
  qed
  then show ?thesis
    using get[of "(k, g)"] levels_get[OF L] g by simp
qed

text \<open>
  An atomic component migrates as one unit: all its members are given one wave. This covers
  the gated members too, and a component whose members are all gated makes the assignment fail.
\<close>

theorem atomic_component_one_wave:
  assumes "networkx nx" and "report_ok rep" and "r \<in> set (rep_resolutions rep)"
    and "res_strategy r = ATOMIC_WAVE"
  shows "(\<forall>plan. assign_waves nx rep gated = Inr plan \<longrightarrow>
      (\<exists>i. \<forall>m \<in> set (res_members r). dict_get (wp_index plan) (node_kind_value REPO, m) = Some i))
    \<and> (set (res_members r) \<subseteq> dropped_of rep gated \<longrightarrow>
         (\<nexists>plan. assign_waves nx rep gated = Inr plan))"
proof -
  let ?s = "(SCC_NODE_KIND, res_scc_id r)"
  have one: "(\<exists>m \<in> set (res_members r). m \<notin> dropped_of rep gated)
      \<and> (\<exists>i. \<forall>m \<in> set (res_members r). dict_get (wp_index plan) (node_kind_value REPO, m) = Some i)"
    if plan: "assign_waves nx rep gated = Inr plan" for plan
  proof -
    obtain L index sccs where
      L: "levels ((arc_set (condensed_of rep gated))\<inverse>) (set (nodes (condensed_of rep gated))) L"
      and i: "distinct (map fst index)" "wp_index plan = sort index"
      and get: "\<And>n. dict_get index n =
             (if fst n = SCC_NODE_KIND then None else dict_get L (order_node_of rep n))"
      and f: "\<exists>f. finding_of index r = Inr f"
      using assign_waves_plan[OF assms(1,2) plan] assms(3) by (metis (no_types))
    have member: "dict_get index (node_kind_value REPO, m) = dict_get L ?s" if "m \<in> set (res_members r)" for m
      using get[of "(node_kind_value REPO, m)"] order_node_of_member[OF assms(2-4) that]
      by (simp add: SCC_NODE_KIND_def)
    have "res_members r \<noteq> []"
      using f by (auto simp: finding_of_def to_finding_def strategy_is_substantiated_def Let_def
          split: option.splits if_splits)
    moreover have "dict_get index (node_kind_value REPO, hd (res_members r)) \<noteq> None"
      using f finding_of_atomic_None[OF assms(4), of index] by (metis Inl_Inr_False)
    ultimately have "dict_get L ?s \<noteq> None"
      using member[of "hd (res_members r)"] by simp
    then have "?s \<in> set (nodes (condensed_of rep gated))" and "\<exists>i. dict_get L ?s = Some i"
      using levels_get[OF L, of ?s] by (auto split: if_splits)
    with member i show ?thesis
      using scc_node_kept[OF assms(2-4)] dict_get_sort_key[OF i(1), of "\<lambda>x. x"] by auto
  qed
  then show ?thesis by blast
qed

section \<open>Examples\<close>

text \<open>\<open>app\<close> and \<open>web\<close> form an atomic component; \<open>app\<close> also depends on \<open>lib\<close>.\<close>

definition sample_dag :: ref_graph where
  "sample_dag =
     \<lparr>nodes = [(''REPO'', ''app''), (''REPO'', ''lib''), (''REPO'', ''web'')],
      arcs = [(((''REPO'', ''app''), (''REPO'', ''lib'')), \<lparr>edge_keys = [''k1''], kinds = [''DECLARED_DEP'']\<rparr>),
              (((''REPO'', ''app''), (''REPO'', ''web'')), \<lparr>edge_keys = [''k2''], kinds = [''DECLARED_DEP'']\<rparr>),
              (((''REPO'', ''web''), (''REPO'', ''app'')), \<lparr>edge_keys = [''k3''], kinds = [''DECLARED_DEP'']\<rparr>)]\<rparr>"

definition sample_atomic :: scc_resolution where
  "sample_atomic =
     \<lparr>res_scc_id = ''scc:1'', res_members = [''app'', ''web''], res_edge_keys = [''k2'', ''k3''],
      res_feedback = [''k3''], res_proposed = Some ''k3'', res_hoisted = [], res_broken = [],
      res_strategy = ATOMIC_WAVE, res_rationale = ''''\<rparr>"

definition sample_report :: cycle_report where
  "sample_report =
     \<lparr>rep_resolutions = [sample_atomic], rep_nodes = [], rep_edges = [],
      rep_graph = \<lparr>fg_G = sample_dag, fg_G_rev = reverse sample_dag, fg_G_dag = sample_dag,
                   fg_G_order = reverse sample_dag, fg_edges_by_key = [],
                   fg_ordering_edge_keys = {''k1'', ''k2'', ''k3''}\<rparr>,
      rep_hoisted = [], rep_findings = [], rep_rejected = []\<rparr>"

lemma sample_report_ok: "report_ok sample_report"
proof -
  have "wf_graph sample_dag \<and> (\<forall>n \<in> set (nodes sample_dag). fst n \<noteq> SCC_NODE_KIND)"
    by (simp add: wf_graph_def arc_set_def sample_dag_def SCC_NODE_KIND_def)
  then show ?thesis
    by (simp add: report_ok_def sample_report_def atomic_disjoint_def)
qed

lemma sample_plan:
  "\<exists>plan. assign_waves reference_nx sample_report [''web''] = Inr plan
     \<and> wp_index plan = [((''REPO'', ''app''), 1), ((''REPO'', ''lib''), 0), ((''REPO'', ''web''), 1)]"
proof -
  have "map_sum id wp_index (assign_waves reference_nx sample_report [''web'']) =
      Inr [((''REPO'', ''app''), 1), ((''REPO'', ''lib''), 0), ((''REPO'', ''web''), 1)]"
    by code_simp
  then show ?thesis
    by (cases "assign_waves reference_nx sample_report [''web'']") auto
qed

theorem layer_is_longest_chain_witness:
  "\<exists>L. layer reference_nx (subgraph [(''REPO'', ''app''), (''REPO'', ''lib'')] sample_dag) = Inr L
     \<and> fst ` set L = {(''REPO'', ''app''), (''REPO'', ''lib'')}"
proof -
  let ?g = "subgraph [(''REPO'', ''app''), (''REPO'', ''lib'')] sample_dag"
  have wf: "wf_graph ?g"
    using sample_report_ok by (simp add: report_ok_def sample_report_def)
  have "nx_acyclic reference_nx (shape ?g)"
    by code_simp
  then have "acyclic (arc_set ?g)"
    using reference.graph_acyclic[OF wf] by blast
  then have "\<exists>L. layer reference_nx ?g = Inr L \<and> fst ` set L = set (nodes ?g)"
    using layer_is_longest_chain[OF reference.networkx_axioms wf] by blast
  moreover have "nodes ?g = [(''REPO'', ''app''), (''REPO'', ''lib'')]"
    by code_simp
  ultimately show ?thesis by simp
qed

theorem waves_respect_dependencies_witness:
  "\<exists>plan. assign_waves reference_nx sample_report [''cli''] = Inr plan
     \<and> (\<exists>i j. dict_get (wp_index plan) (''REPO'', ''app'') = Some i
          \<and> dict_get (wp_index plan) (''REPO'', ''lib'') = Some j \<and> j < i)"
proof -
  have "map_sum id (\<lambda>_. ()) (assign_waves reference_nx sample_report [''cli'']) = Inr ()"
    by code_simp
  then obtain plan where plan: "assign_waves reference_nx sample_report [''cli''] = Inr plan"
    by (cases "assign_waves reference_nx sample_report [''cli'']") auto
  have "((''REPO'', ''app''), (''REPO'', ''lib'')) \<in> arc_set (fg_G_dag (rep_graph sample_report))"
    by (simp add: sample_report_def sample_dag_def arc_set_def)
  moreover have "dropped_of sample_report [''cli''] = {''cli''}"
    by (simp add: dropped_of_def manual_repo_ids_def manual_members_def sample_report_def sample_atomic_def)
  moreover have "order_node_of sample_report (''REPO'', ''app'') \<noteq> order_node_of sample_report (''REPO'', ''lib'')"
    by code_simp
  ultimately show ?thesis
    using waves_respect_dependencies[OF reference.networkx_axioms sample_report_ok plan, of "(''REPO'', ''app'')" "(''REPO'', ''lib'')"]
      plan by auto
qed

theorem waves_partition_plan_witness:
  "\<exists>plan. assign_waves reference_nx sample_report [''web''] = Inr plan
     \<and> set (map mw_index (wp_waves plan)) = {0, 1}"
proof -
  obtain plan where plan: "assign_waves reference_nx sample_report [''web''] = Inr plan"
    and idx: "wp_index plan = [((''REPO'', ''app''), 1), ((''REPO'', ''lib''), 0), ((''REPO'', ''web''), 1)]"
    using sample_plan by blast
  have "set (map mw_index (wp_waves plan)) = snd ` set (wp_index plan)"
    using waves_partition_plan[OF reference.networkx_axioms sample_report_ok plan] by blast
  then show ?thesis
    using plan unfolding idx by auto
qed

theorem gated_never_sequenced_witness:
  "\<exists>plan. assign_waves reference_nx sample_report [''lib''] = Inr plan
     \<and> dict_get (wp_index plan) (''REPO'', ''lib'') = None"
proof -
  have "map_sum id (\<lambda>_. ()) (assign_waves reference_nx sample_report [''lib'']) = Inr ()"
    by code_simp
  then obtain plan where plan: "assign_waves reference_nx sample_report [''lib''] = Inr plan"
    by (cases "assign_waves reference_nx sample_report [''lib'']") auto
  have "''lib'' \<in> dropped_of sample_report [''lib'']"
    by (simp add: dropped_of_def)
  from gated_never_sequenced[OF reference.networkx_axioms sample_report_ok plan this] plan
  show ?thesis
    by (auto simp: sample_report_def sample_atomic_def)
qed

theorem atomic_component_one_wave_witness:
  "\<exists>plan i. assign_waves reference_nx sample_report [''web''] = Inr plan
     \<and> dict_get (wp_index plan) (''REPO'', ''web'') = Some i
     \<and> dict_get (wp_index plan) (''REPO'', ''app'') = Some i"
proof -
  obtain plan where plan: "assign_waves reference_nx sample_report [''web''] = Inr plan"
    using sample_plan by blast
  have "\<exists>i. \<forall>m \<in> set (res_members sample_atomic). dict_get (wp_index plan) (node_kind_value REPO, m) = Some i"
    using atomic_component_one_wave[OF reference.networkx_axioms sample_report_ok, of sample_atomic "[''web'']"]
      plan by (simp add: sample_report_def) (simp add: sample_atomic_def)
  then show ?thesis
    using plan by (auto simp: sample_atomic_def)
qed

end
