(* ===== verification/Criteria.thy ===== *)
theory Criteria
  imports Sequence
begin

text \<open>
  The second half of \<open>src/fleet/graph/sequence.py\<close>: waves appended to a finished plan, and the four
  success criteria of the sequencing step. A criterion's detail is the list of its problems, each
  with the values its text interpolates; the criterion holds when there is none.
\<close>

section \<open>Success criteria\<close>

datatype problem =
    NoManifest "repo_id list"
  | CyclicOrdering bool
  | UnresolvedScc "repo_id list"
  | HoistWithoutContracts string
  | BreakWithoutEdges string
  | AtomicSpread string
  | ManualNotAbandoned string "repo_id list"
  | CountMismatch "repo_id list" "repo_id list"
  | NoExemption repo_id repo_status
  | ManyExemptions repo_id "string list"
  | ContractCount nat nat
  | DanglingEvidence "(string \<times> string) list"

record criterion_result =
  cr_name :: char
  cr_problems :: "problem list"

definition criterion_ok :: "criterion_result \<Rightarrow> bool" where
  "criterion_ok c \<longleftrightarrow> cr_problems c = []"

definition criteria_ok :: "criterion_result list \<Rightarrow> bool" where
  "criteria_ok cs \<longleftrightarrow> list_all criterion_ok cs"

definition check_criterion_a ::
  "repo_id list \<Rightarrow> repo_id list \<Rightarrow> repo_id list \<Rightarrow> criterion_result" where
  "check_criterion_a repo_ids repos_with_manifests no_manifest_repo_ids =
     (let covered = set repos_with_manifests \<union> set no_manifest_repo_ids;
          missing = sorted_set (filter (\<lambda>r. r \<notin> covered) repo_ids) in
      \<lparr>cr_name = CHR ''a'', cr_problems = (if missing = [] then [] else [NoManifest missing])\<rparr>)"

definition substantiation_problems ::
  "scc_resolution \<Rightarrow> wave_plan option \<Rightarrow> (repo_id, repo_status) dict option \<Rightarrow> problem list" where
  "substantiation_problems res plan statuses =
     (if res_strategy res = CONTRACT_HOIST \<and> res_hoisted res = []
      then [HoistWithoutContracts (res_scc_id res)] else [])
     @ (if res_strategy res = EDGE_BREAK \<and> res_broken res = []
        then [BreakWithoutEdges (res_scc_id res)] else [])
     @ (case plan of
          None \<Rightarrow> []
        | Some p \<Rightarrow>
            let indices = set (map (dict_get (repo_wave_index p)) (res_members res)) in
            if res_strategy res = ATOMIC_WAVE \<and> (card indices \<noteq> 1 \<or> None \<in> indices)
            then [AtomicSpread (res_scc_id res)] else [])
     @ (case statuses of
          None \<Rightarrow> []
        | Some st \<Rightarrow>
            let wrong = sort (filter (\<lambda>m. dict_get st m \<noteq> Some REQUIRES_HUMAN_INTERVENTION)
                                (res_members res)) in
            if res_strategy res = MANUAL \<and> wrong \<noteq> []
            then [ManualNotAbandoned (res_scc_id res) wrong] else [])"

definition check_criterion_b ::
  "order_node nx \<Rightarrow> cycle_report \<Rightarrow> wave_plan option \<Rightarrow> (repo_id, repo_status) dict option \<Rightarrow> bool
   \<Rightarrow> criterion_result" where
  "check_criterion_b nx rep plan statuses condense =
     (let dag = fg_G_dag (rep_graph rep);
          condensed = condense_for_ordering dag (rep_resolutions rep) [] condense;
          manual = set (manual_members (rep_resolutions rep));
          resolved = map (\<lambda>r. set (res_members r)) (rep_resolutions rep);
          components = map (\<lambda>c. map snd (filter (\<lambda>n. fst n = node_kind_value REPO \<and> snd n \<notin> manual) c))
                         (nx_sccs nx (shape dag)) in
      \<lparr>cr_name = CHR ''b'',
       cr_problems =
         (if ordering_is_acyclic nx condensed then [] else [CyclicOrdering condense])
         @ map (\<lambda>ms. UnresolvedScc (sorted_set ms))
             (filter (\<lambda>ms. \<not> card (set ms) < 2 \<and> set ms \<notin> set resolved) components)
         @ concat (map (\<lambda>r. substantiation_problems r plan statuses) (rep_resolutions rep))\<rparr>)"

text \<open>The five exemptions of a repository that has no wave, in their order.\<close>

definition exemptions_for ::
  "repo_id \<Rightarrow> repo_status \<Rightarrow> string list \<Rightarrow> string list \<Rightarrow> repo_id list \<Rightarrow> int option
   \<Rightarrow> failure_class option \<Rightarrow> repo_id set \<Rightarrow> string list" where
  "exemptions_for repo_id status found_kinds exempt_kinds config_skipped baseline_ok failure manual =
     (let finding = (\<lambda>kind. kind \<in> set exempt_kinds \<and> kind \<in> set found_kinds);
          skipped = (status = SKIPPED);
          abandoned = (status = REQUIRES_HUMAN_INTERVENTION) in
      (if skipped \<and> repo_id \<in> set config_skipped then [''config-skipped''] else [])
      @ (if skipped \<and> finding ''BaselineRed'' \<and> baseline_ok = Some 0 then [''baseline-red''] else [])
      @ (if skipped \<and> finding ''OperatorQuarantine'' then [''operator-quarantined''] else [])
      @ (if (abandoned \<and> finding ''PreflightFailed'') \<or> (skipped \<and> finding ''EmptyRepo'')
         then [''preflight-gated''] else [])
      @ (if abandoned \<and> failure = Some CYCLE \<and> repo_id \<in> manual
         then [''manual-scc-member''] else []))"

text \<open>The facts the criterion is given about the repositories.\<close>

record repo_facts =
  rf_finding_kinds :: "repo_id \<Rightarrow> string list"
  rf_exempt_kinds :: "string list"
  rf_config_skipped :: "repo_id list"
  rf_baseline_ok :: "repo_id \<Rightarrow> int option"
  rf_failure :: "repo_id \<Rightarrow> failure_class option"

definition exemptions :: "repo_facts \<Rightarrow> wave_plan \<Rightarrow> repo_id \<Rightarrow> repo_status \<Rightarrow> string list" where
  "exemptions facts plan r st =
     exemptions_for r st (rf_finding_kinds facts r) (rf_exempt_kinds facts)
       (rf_config_skipped facts) (rf_baseline_ok facts r) (rf_failure facts r)
       (set (concat (map cf_members (filter (\<lambda>f. cf_strategy f = MANUAL) (wp_findings plan)))))"

definition check_criterion_c ::
  "wave_plan \<Rightarrow> (repo_id, repo_status) dict \<Rightarrow> repo_facts \<Rightarrow> (contract_id, contract_status) dict
   \<Rightarrow> criterion_result" where
  "check_criterion_c plan statuses facts contract_statuses =
     (let expected = sort (map fst (filter (\<lambda>(r, st). st \<notin> GATED_STATUSES) statuses));
          members = repo_members plan;
          absent = sorted_set (filter (\<lambda>r. r \<notin> set members) (map fst statuses));
          hoisted = sort (map fst (filter (\<lambda>(c, st). st \<in> {CS_HOISTED, CS_MIGRATED}) contract_statuses)) in
      \<lparr>cr_name = CHR ''c'',
       cr_problems =
         (if length expected \<noteq> length members
          then [CountMismatch (sorted_set (filter (\<lambda>r. r \<notin> set members) expected))
                  (sorted_set (filter (\<lambda>r. r \<notin> set expected) members))] else [])
         @ concat (map (\<lambda>r. case dict_get statuses r of
               None \<Rightarrow> []
             | Some st \<Rightarrow>
                 let matched = exemptions facts plan r st in
                 if matched = [] then [NoExemption r st]
                 else if length matched > 1 then [ManyExemptions r matched] else []) absent)
         @ (if length hoisted \<noteq> length (contract_members plan)
            then [ContractCount (length hoisted) (length (contract_members plan))] else [])\<rparr>)"

definition check_criterion_d ::
  "dependency_edge list \<Rightarrow> (string \<Rightarrow> string \<Rightarrow> bool) \<Rightarrow> criterion_result" where
  "check_criterion_d es evidence_exists =
     (let dangling = sorted_set (map (\<lambda>e. (de_src_id e, de_evidence_path e))
             (filter (\<lambda>e. \<not> evidence_exists (de_src_id e) (de_evidence_path e)) es)) in
      \<lparr>cr_name = CHR ''d'',
       cr_problems = (if dangling = [] then [] else [DanglingEvidence (take 5 dangling)])\<rparr>)"

definition check_criteria ::
  "order_node nx \<Rightarrow> cycle_report \<Rightarrow> wave_plan \<Rightarrow> (repo_id, repo_status) dict \<Rightarrow> repo_id list \<Rightarrow> repo_id list
   \<Rightarrow> repo_facts \<Rightarrow> (contract_id, contract_status) dict \<Rightarrow> (string \<Rightarrow> string \<Rightarrow> bool)
   \<Rightarrow> criterion_result list" where
  "check_criteria nx rep plan statuses with_manifests no_manifests facts contract_statuses exists =
     [check_criterion_a (sort (map fst statuses)) with_manifests no_manifests,
      check_criterion_b nx rep (Some plan) (Some statuses) True,
      check_criterion_c plan statuses facts contract_statuses,
      check_criterion_d (rep_edges rep) exists]"

section \<open>Coverage\<close>

lemma exemptions_gated: "exemptions_for r st ks eks cs b f m \<noteq> [] \<Longrightarrow> st \<in> GATED_STATUSES"
  by (cases st) (auto simp: exemptions_for_def GATED_STATUSES_def Let_def)

lemma card_filter_keys:
  "distinct (map fst d) \<Longrightarrow> length (filter P d) = card (fst ` {e \<in> set d. P e})"
proof (induction d)
  case (Cons e d)
  have "{x \<in> set (e # d). P x} = (if P e then insert e {x \<in> set d. P x} else {x \<in> set d. P x})"
    by auto
  moreover have "fst e \<notin> fst ` {x \<in> set d. P x}"
    using Cons.prems by auto
  ultimately show ?case
    using Cons by simp
qed simp

lemma ungated_keys:
  "distinct (map fst statuses) \<Longrightarrow>
   fst ` {e \<in> set statuses. snd e \<notin> GATED_STATUSES} =
     {r. \<exists>st. dict_get statuses r = Some st \<and> st \<notin> GATED_STATUSES}"
  by (force simp: dict_get_mem[symmetric])

text \<open>
  Criterion (c) is as strong as it reads although it compares counts: it holds exactly when
  the repositories of the waves are the ungated ones, every gated repository matches exactly one of
  the five exemptions, and as many contracts are in waves as are hoisted or migrated.
\<close>

theorem criterion_c_is_exact_cover:
  assumes "distinct (map fst statuses)"
  shows "criterion_ok (check_criterion_c plan statuses facts cstat) \<longleftrightarrow>
    set (repo_members plan) = {r. \<exists>st. dict_get statuses r = Some st \<and> st \<notin> GATED_STATUSES}
    \<and> (\<forall>r st. dict_get statuses r = Some st \<and> st \<in> GATED_STATUSES \<longrightarrow>
         length (exemptions facts plan r st) = 1)
    \<and> length (filter (\<lambda>(c, st). st \<in> {CS_HOISTED, CS_MIGRATED}) cstat) = length (contract_members plan)"
    (is "?ok \<longleftrightarrow> set ?M = ?U \<and> ?ex \<and> ?con")
proof -
  let ?absent = "\<lambda>r st. dict_get statuses r = Some st \<and> r \<notin> set ?M"
  have len: "length (filter (\<lambda>(r, st). st \<notin> GATED_STATUSES) statuses) = card ?U"
    using card_filter_keys[OF assms, of "\<lambda>e. snd e \<notin> GATED_STATUSES"] ungated_keys[OF assms]
    by (simp add: split_def)
  have fin: "finite ?U"
    using ungated_keys[OF assms] by (metis (no_types, lifting) List.finite_set finite_imageI finite_subset mem_Collect_eq subsetI)
  have M: "length ?M = card (set ?M)"
    by (simp add: repo_members_def length_sorted_set)
  have keys: "r \<in> fst ` set statuses \<longleftrightarrow> (\<exists>st. dict_get statuses r = Some st)" for r
    using dict_get_None_iff[of statuses r] by (cases "dict_get statuses r") simp_all
  have ok: "?ok \<longleftrightarrow> card ?U = card (set ?M)
      \<and> (\<forall>r st. ?absent r st \<longrightarrow> length (exemptions facts plan r st) = 1) \<and> ?con"
  proof -
    have one: "(case dict_get statuses r of None \<Rightarrow> [] | Some st \<Rightarrow>
        let matched = exemptions facts plan r st in
        if matched = [] then [NoExemption r st]
        else if length matched > 1 then [ManyExemptions r matched] else []) = [] \<longleftrightarrow>
        (\<forall>st. dict_get statuses r = Some st \<longrightarrow> length (exemptions facts plan r st) = 1)" for r
      by (cases "dict_get statuses r") (auto simp: Let_def Suc_lessI not_less le_Suc_eq)
    have absent: "(\<forall>r \<in> set (sorted_set (filter (\<lambda>r. r \<notin> set ?M) (map fst statuses))).
          \<forall>st. dict_get statuses r = Some st \<longrightarrow> length (exemptions facts plan r st) = 1)
        \<longleftrightarrow> (\<forall>r st. ?absent r st \<longrightarrow> length (exemptions facts plan r st) = 1)"
      using keys by (simp add: image_iff) blast
    have concat: "concat (map f xs) = [] \<longleftrightarrow> (\<forall>x \<in> set xs. f x = [])" for f :: "repo_id \<Rightarrow> problem list" and xs
      by simp
    have opt: "(if b then [p] else []) = [] \<longleftrightarrow> \<not> b" for b and p :: problem
      by simp
    show ?thesis
      unfolding criterion_ok_def check_criterion_c_def Let_def criterion_result.simps append_is_Nil_conv
        concat one[unfolded Let_def] absent opt length_sort length_map len M by simp
  qed
  show ?thesis
  proof
    assume ?ok
    with ok have c: "card ?U = card (set ?M)" and ex: "\<And>r st. ?absent r st \<Longrightarrow> length (exemptions facts plan r st) = 1"
      and con: ?con by blast+
    have "r \<in> set ?M" if r: "dict_get statuses r = Some st" "st \<notin> GATED_STATUSES" for r st
    proof (rule ccontr)
      assume "r \<notin> set ?M"
      with ex r(1) have "exemptions facts plan r st \<noteq> []" by fastforce
      with exemptions_gated r(2) show False unfolding exemptions_def by blast
    qed
    then have "?U \<subseteq> set ?M" by blast
    with c fin have U: "?U = set ?M"
      using card_subset_eq[OF List.finite_set, of ?U ?M] by blast
    have ?ex
    proof (intro allI impI)
      fix r st assume r: "dict_get statuses r = Some st \<and> st \<in> GATED_STATUSES"
      then have "r \<notin> set ?M" unfolding U[symmetric] by simp
      with r show "length (exemptions facts plan r st) = 1" by (blast intro: ex)
    qed
    with U con show "set ?M = ?U \<and> ?ex \<and> ?con"
      by blast
  next
    assume rhs: "set ?M = ?U \<and> ?ex \<and> ?con"
    then have "\<forall>r st. ?absent r st \<longrightarrow> length (exemptions facts plan r st) = 1"
      by blast
    with rhs show ?ok unfolding ok by presburger
  qed
qed
theorem criterion_c_is_exact_cover_witness:
  "criterion_ok (check_criterion_c
     \<lparr>wp_waves = [], wp_index = [((''REPO'', ''app''), 0)], wp_findings = [], wp_excluded = []\<rparr>
     [(''app'', PENDING), (''old'', SKIPPED)]
     \<lparr>rf_finding_kinds = (\<lambda>_. []), rf_exempt_kinds = PREFLIGHT_FINDING_KINDS,
      rf_config_skipped = [''old''], rf_baseline_ok = (\<lambda>_. None), rf_failure = (\<lambda>_. None)\<rparr> [])
   \<and> set (repo_members \<lparr>wp_waves = [], wp_index = [((''REPO'', ''app''), 0)], wp_findings = [],
        wp_excluded = []\<rparr>) =
     {r. \<exists>st. dict_get [(''app'', PENDING), (''old'', SKIPPED)] r = Some st \<and> st \<notin> GATED_STATUSES}"
    (is "?ok \<and> _")
proof
  show ?ok
    by code_simp
  then show "set (repo_members \<lparr>wp_waves = [], wp_index = [((''REPO'', ''app''), 0)], wp_findings = [],
        wp_excluded = []\<rparr>) =
     {r. \<exists>st. dict_get [(''app'', PENDING), (''old'', SKIPPED)] r = Some st \<and> st \<notin> GATED_STATUSES}"
    by (subst (asm) criterion_c_is_exact_cover) simp_all
qed

section \<open>Appended waves\<close>

lemma levels_shift:
  assumes "levels E S L"
  shows "distinct (map fst (map (\<lambda>(n, i). (n, c + i)) L))"
    and "dict_get (map (\<lambda>(n, i). (n, c + i)) L) n = (if n \<in> S then Some (c + idx L n) else None)"
proof -
  show "distinct (map fst (map (\<lambda>(n, i). (n, c + i)) L))"
    using assms by (simp add: levels_def comp_def split_def)
  have "dict_get (map (\<lambda>(n, i). (n, c + i)) L) n = map_option ((+) c) (dict_get L n)"
    by (induction L) (auto simp: dict_get_Cons)
  then show "dict_get (map (\<lambda>(n, i). (n, c + i)) L) n = (if n \<in> S then Some (c + idx L n) else None)"
    using levels_get[OF assms] by simp
qed

lemma fold_dict_set_update: "fold (\<lambda>(n, i) d. dict_set d n i) xs d = dict_update xs d"
  by (simp add: dict_update_def)

lemma dict_get_update_distinct:
  assumes "distinct (map fst xs)"
  shows "dict_get (dict_update xs d) k = (case dict_get xs k of None \<Rightarrow> dict_get d k | Some v \<Rightarrow> Some v)"
proof (cases "dict_get xs k")
  case None
  then have "k \<notin> fst ` set xs"
    by (simp add: dict_get_None_iff)
  with None show ?thesis
    by (simp add: dict_get_update_other)
next
  case (Some v)
  then have "(k, v) \<in> set xs"
    by (simp add: dict_get_mem[OF assms])
  moreover have "v' = v" if "(k, v') \<in> set xs" for v'
    using that Some by (simp add: dict_get_mem[OF assms])
  ultimately have "dict_get (dict_update xs d) k = Some v"
    by (intro dict_get_update)
  with Some show ?thesis
    by simp
qed

definition fresh_refs :: "wave_plan \<Rightarrow> node_ref list \<Rightarrow> node_ref list" where
  "fresh_refs plan refs = filter (\<lambda>r. dict_get (wp_index plan) r = None) (sorted_set refs)"

definition next_index :: "wave_plan \<Rightarrow> int" where
  "next_index plan = (if wp_waves plan = [] then -1 else Max (set (map mw_index (wp_waves plan)))) + 1"

lemma next_index_above: "w \<in> set (wp_waves plan) \<Longrightarrow> mw_index w < next_index plan"
  by (auto simp: next_index_def intro: le_imp_less_Suc Max_ge)

lemma appended_plan:
  assumes "networkx nx" and "wf_graph dag" and "distinct (map fst (wp_index plan))"
    and "append_synthetic_waves nx plan dag refs = Inr plan'" and "fresh_refs plan refs \<noteq> []"
  obtains L deps where
    "levels ((arc_set (subgraph (fresh_refs plan refs) dag))\<inverse>)
       (set (nodes (subgraph (fresh_refs plan refs) dag))) L"
    and "wp_waves plan' = wp_waves plan
           @ materialize_waves (map (\<lambda>(n, i). (n, next_index plan + i)) L) [] deps True"
    and "\<And>n. dict_get (wp_index plan') n =
           (if n \<in> set (nodes (subgraph (fresh_refs plan refs) dag))
            then Some (next_index plan + idx L n) else dict_get (wp_index plan) n)"
proof -
  let ?g = "subgraph (fresh_refs plan refs) dag"
  have wf: "wf_graph ?g"
    using assms(2) by simp
  obtain L where layer: "layer nx ?g = Inr L"
    using assms(4,5) by (auto simp: append_synthetic_waves_def fresh_refs_def Let_def split: if_splits)
  then have "acyclic (arc_set ?g)"
    using layer_cyclic[OF assms(1) wf] by fastforce
  then have L: "levels ((arc_set ?g)\<inverse>) (set (nodes ?g)) L"
    using layer_total[OF assms(1) wf] layer by auto
  let ?layered = "map (\<lambda>(n, i). (n, next_index plan + i)) L"
  let ?index = "dict_update ?layered (wp_index plan)"
  obtain deps where p: "wp_index plan' = sort ?index"
    "wp_waves plan' = wp_waves plan @ materialize_waves ?layered [] deps True"
    using assms(4,5) layer unfolding append_synthetic_waves_def fresh_refs_def[symmetric]
      next_index_def[symmetric] Let_def fold_dict_set_update by auto
  note sh = levels_shift[OF L, of "next_index plan"]
  have d: "distinct (map fst ?index)"
    using assms(3) by (rule distinct_dict_update)
  have "dict_get (wp_index plan') n =
      (if n \<in> set (nodes ?g) then Some (next_index plan + idx L n) else dict_get (wp_index plan) n)" for n
    unfolding p(1) dict_get_sort_key[OF d, of "\<lambda>x. x"] dict_get_update_distinct[OF sh(1)] sh(2)
    by (cases "n \<in> set (nodes ?g)") (simp_all only: if_True if_False option.case)
  with that[OF L p(2)] show ?thesis
    by blast
qed

lemma appended_wave:
  assumes "levels E S L" and "finite E"
    and "w \<in> set (materialize_waves (map (\<lambda>(n, i). (n, c + i)) L) sccs deps True)"
  shows "mw_synthetic w \<and> c \<le> mw_index w"
proof
  note sh = levels_shift[OF assms(1), of c]
  show "mw_synthetic w"
    using materialized_wave(4)[OF sh(1) assms(3)] by simp
  have "mw_index w \<in> set (map mw_index (materialize_waves (map (\<lambda>(n, i). (n, c + i)) L) sccs deps True))"
    using assms(3) by simp
  then have "mw_index w \<in> snd ` set (map (\<lambda>(n, i). (n, c + i)) L)"
    unfolding materialized_indices by (simp add: image_image)
  then obtain n where "(n, mw_index w) \<in> set (map (\<lambda>(n, i). (n, c + i)) L)"
    by force
  then have "dict_get (map (\<lambda>(n, i). (n, c + i)) L) n = Some (mw_index w)"
    by (simp only: dict_get_mem[OF sh(1)])
  then show "c \<le> mw_index w"
    using levels_nonneg[OF assms(1,2), of n] unfolding sh(2) by (auto split: if_splits)
qed

text \<open>
  Appending waves never touches what is already planned. The nodes that have a wave keep it
  and the old waves stay as they are; each new wave is marked synthetic and numbered above all old
  ones; every node of the ordering subgraph that had no wave gets one of them, after each
  dependency that is appended with it; and with nothing to append the plan is returned unchanged.
\<close>

theorem append_synthetic_waves_extends:
  assumes "networkx nx" and "wf_graph dag" and "distinct (map fst (wp_index plan))"
    and "append_synthetic_waves nx plan dag refs = Inr plan'"
  shows "(\<forall>n i. dict_get (wp_index plan) n = Some i \<longrightarrow> dict_get (wp_index plan') n = Some i)
    \<and> (\<exists>new. wp_waves plan' = wp_waves plan @ new
         \<and> (\<forall>w \<in> set new. mw_synthetic w \<and> (\<forall>v \<in> set (wp_waves plan). mw_index v < mw_index w)))
    \<and> (\<forall>n \<in> set refs \<inter> set (nodes dag). dict_get (wp_index plan') n \<noteq> None)
    \<and> (\<forall>u \<in> set (fresh_refs plan refs). \<forall>v \<in> set (fresh_refs plan refs). (u, v) \<in> arc_set dag \<longrightarrow>
         (\<exists>i j. dict_get (wp_index plan') u = Some i \<and> dict_get (wp_index plan') v = Some j \<and> j < i))
    \<and> (fresh_refs plan refs = [] \<longrightarrow> plan' = plan)"
proof (cases "fresh_refs plan refs = []")
  case True
  then have "plan' = plan"
    using assms(4) by (simp add: append_synthetic_waves_def fresh_refs_def)
  moreover have "dict_get (wp_index plan) n \<noteq> None" if "n \<in> set refs" for n
    using True that unfolding fresh_refs_def filter_empty_conv set_sorted_set by blast
  ultimately show ?thesis
    using True by auto
next
  case False
  let ?g = "subgraph (fresh_refs plan refs) dag"
  obtain L deps where L: "levels ((arc_set ?g)\<inverse>) (set (nodes ?g)) L"
    and w: "wp_waves plan' = wp_waves plan
           @ materialize_waves (map (\<lambda>(n, i). (n, next_index plan + i)) L) [] deps True"
    and get: "\<And>n. dict_get (wp_index plan') n =
           (if n \<in> set (nodes ?g) then Some (next_index plan + idx L n) else dict_get (wp_index plan) n)"
    by (rule appended_plan[OF assms False], rule that; assumption)
  let ?new = "materialize_waves (map (\<lambda>(n, i). (n, next_index plan + i)) L) [] deps True"
  have fresh: "n \<in> set (nodes ?g) \<longleftrightarrow> n \<in> set (nodes dag) \<and> n \<in> set refs \<and> dict_get (wp_index plan) n = None" for n
    by (auto simp: fresh_refs_def)
  have "mw_synthetic v \<and> next_index plan \<le> mw_index v" if "v \<in> set ?new" for v
    using appended_wave[OF L _ that] by simp
  then have new: "\<exists>new. wp_waves plan' = wp_waves plan @ new
      \<and> (\<forall>w \<in> set new. mw_synthetic w \<and> (\<forall>v \<in> set (wp_waves plan). mw_index v < mw_index w))"
    using w next_index_above by (intro exI[of _ ?new]) fastforce
  have deps: "\<exists>i j. dict_get (wp_index plan') u = Some i \<and> dict_get (wp_index plan') v = Some j \<and> j < i"
    if uv: "u \<in> set (fresh_refs plan refs)" "v \<in> set (fresh_refs plan refs)" "(u, v) \<in> arc_set dag" for u v
  proof -
    have n: "u \<in> set (nodes ?g)" "v \<in> set (nodes ?g)" "(v, u) \<in> (arc_set ?g)\<inverse>"
      using uv wf_arcD[OF assms(2)] by auto
    then show ?thesis
      using get levels_less[OF L _ n(3,1)] by simp
  qed
  have kept: "dict_get (wp_index plan') n = Some i" if i: "dict_get (wp_index plan) n = Some i" for n i
  proof -
    have "n \<notin> set (nodes ?g)"
      using i fresh[of n] by (metis option.distinct(1))
    show ?thesis
      unfolding get[of n] if_not_P[OF \<open>n \<notin> set (nodes ?g)\<close>] by (rule i)
  qed
  moreover have "dict_get (wp_index plan') n \<noteq> None" if n: "n \<in> set refs \<inter> set (nodes dag)" for n
  proof (cases "dict_get (wp_index plan) n")
    case None
    then have "n \<in> set (nodes ?g)"
      using n fresh[of n] by blast
    then show ?thesis
      unfolding get[of n] if_P[OF \<open>n \<in> set (nodes ?g)\<close>] by simp
  qed (simp add: kept)
  ultimately show ?thesis
    using new deps False by blast
qed

theorem append_synthetic_waves_extends_witness:
  "\<exists>plan'. append_synthetic_waves reference_nx
       \<lparr>wp_waves = [\<lparr>mw_index = 3, mw_repo_ids = [''old''], mw_contract_ids = [], mw_depends_on = [],
                     mw_atomic_scc_ids = [], mw_synthetic = False\<rparr>],
        wp_index = [((''REPO'', ''old''), 3)], wp_findings = [], wp_excluded = []\<rparr>
       (subgraph [(''REPO'', ''app''), (''REPO'', ''lib'')] sample_dag) [(''REPO'', ''app''), (''REPO'', ''lib'')]
       = Inr plan'
     \<and> dict_get (wp_index plan') (''REPO'', ''old'') = Some 3"
    (is "\<exists>plan'. append_synthetic_waves reference_nx ?p ?g ?refs = Inr plan' \<and> _")
proof -
  have "map_sum id (\<lambda>_. ()) (append_synthetic_waves reference_nx ?p ?g ?refs) = Inr ()"
    by code_simp
  then obtain plan' where plan': "append_synthetic_waves reference_nx ?p ?g ?refs = Inr plan'"
    by (cases "append_synthetic_waves reference_nx ?p ?g ?refs") auto
  have "wf_graph ?g" and "distinct (map fst (wp_index ?p))"
    using sample_report_ok by (simp_all add: report_ok_def sample_report_def)
  from append_synthetic_waves_extends[OF reference.networkx_axioms this plan']
  have "dict_get (wp_index plan') (''REPO'', ''old'') = Some 3"
    by (auto simp: dict_get_Cons)
  with plan' show ?thesis by blast
qed

end
