(* ===== verification/Scheduler_Store.thy ===== *)
theory Scheduler_Store
  imports Criteria
begin

text \<open>
  The durable half of \<open>src/fleet/orchestrator/scheduler.py\<close>: the protocol \<open>SchedulerStore\<close> as a
  record of operations with its contract as the locale \<open>scheduler_store\<close>, and the implementation
  \<open>SqliteSchedulerStore\<close> over the tables \<open>waves\<close>, \<open>wave_members\<close>, \<open>repos\<close> and \<open>phases\<close> of
  \<open>src/fleet/state/schema.sql\<close>, with their primary keys, checks and foreign keys. A unit of work
  runs in one transaction: it returns the new tables, or an error and no new tables. A stamp
  column holds the UTC instant its text denotes, a JSON array its elements.
\<close>

section \<open>Instants\<close>

text \<open>A \<open>datetime\<close>: its clock reading in microseconds and its offset from UTC, if it is aware.\<close>

record datetime =
  dt_reading :: int
  dt_offset :: "int option"

datatype wave_state = WS_OPEN | WS_CLOSED | WS_PARTIAL

datatype scheduler_error =
    NaiveDatetime
  | MixedSubtraction
  | IntegrityError
  | NoWaveRow string int
  | UnplannedRepos string "repo_id list"
  | EarlierWaveNotClosed int int wave_state

definition iso :: "datetime \<Rightarrow> scheduler_error + instant" where
  "iso moment = (case dt_offset moment of
     None \<Rightarrow> Inl NaiveDatetime
   | Some off \<Rightarrow> Inr (dt_reading moment - off))"

definition utc :: "instant \<Rightarrow> datetime" where
  "utc t = \<lparr>dt_reading = t, dt_offset = Some 0\<rparr>"

definition parse_stamp :: "instant option \<Rightarrow> datetime option" where
  "parse_stamp = map_option utc"

section \<open>The protocol\<close>

record 's scheduler_store =
  st_record_plan :: "'s \<Rightarrow> string \<Rightarrow> wave_plan \<Rightarrow> datetime \<Rightarrow> rat \<Rightarrow> scheduler_error + 's"
  st_wave_indices :: "'s \<Rightarrow> string \<Rightarrow> int list"
  st_wave_members :: "'s \<Rightarrow> string \<Rightarrow> int \<Rightarrow> repo_id list"
  st_wave_started_at :: "'s \<Rightarrow> string \<Rightarrow> int \<Rightarrow> datetime option"
  st_begin_wave :: "'s \<Rightarrow> string \<Rightarrow> int \<Rightarrow> datetime \<Rightarrow> scheduler_error + 's \<times> datetime"
  st_blast_radii :: "'s \<Rightarrow> string \<Rightarrow> repo_id list \<Rightarrow> (repo_id, int) dict"
  st_append_blocked_by :: "'s \<Rightarrow> string \<Rightarrow> repo_id \<Rightarrow> repo_id \<Rightarrow> datetime \<Rightarrow> scheduler_error + 's \<times> nat"
  st_append_unblocked_wave ::
    "'s \<Rightarrow> string \<Rightarrow> repo_id list \<Rightarrow> datetime \<Rightarrow> rat \<Rightarrow> scheduler_error + 's \<times> int option"

section \<open>The tables\<close>

record wave_row =
  wv_computed_at :: instant
  wv_started_at :: "instant option"
  wv_synthetic :: bool
  wv_max_usd :: rat

record phase_row =
  ph_status :: repo_status
  ph_blocked_by :: "repo_id list"
  ph_updated_at :: instant

type_synonym phase_table = "(string \<times> repo_id \<times> phase, phase_row) dict"

record tables =
  tb_runs :: "string list"
  tb_waves :: "(string \<times> int, wave_row) dict"
  tb_members :: "(string \<times> string \<times> string, int) dict"
  tb_radii :: "(repo_id, int) dict"
  tb_phases :: phase_table

text \<open>What the schema's keys, checks and foreign keys say of the tables.\<close>

definition tables_ok :: "tables \<Rightarrow> bool" where
  "tables_ok db \<longleftrightarrow>
     distinct (map fst (tb_waves db)) \<and> distinct (map fst (tb_members db))
     \<and> distinct (map fst (tb_phases db))
     \<and> (\<forall>((run, i), row) \<in> set (tb_waves db). run \<in> set (tb_runs db) \<and> 0 \<le> wv_max_usd row)
     \<and> (\<forall>((run, kind, n), i) \<in> set (tb_members db). (run, i) \<in> fst ` set (tb_waves db))"

section \<open>The SQLite store\<close>

text \<open>\<open>INSERT \<dots> ON CONFLICT DO UPDATE\<close>: the update leaves \<open>wave_started_at\<close> out.\<close>

definition upsert_wave ::
  "(string \<times> int) \<times> wave_row \<Rightarrow> (string \<times> int, wave_row) dict \<Rightarrow> (string \<times> int, wave_row) dict" where
  "upsert_wave kr d =
     (case dict_get d (fst kr) of
        None \<Rightarrow> dict_set d (fst kr) (snd kr)
      | Some old \<Rightarrow> dict_set d (fst kr)
          (old\<lparr>wv_computed_at := wv_computed_at (snd kr), wv_synthetic := wv_synthetic (snd kr),
               wv_max_usd := wv_max_usd (snd kr)\<rparr>))"

definition plan_wave_rows :: "string \<Rightarrow> wave_plan \<Rightarrow> instant \<Rightarrow> rat \<Rightarrow> ((string \<times> int) \<times> wave_row) list" where
  "plan_wave_rows run_id plan stamp max_usd_per_repo =
     map (\<lambda>w. ((run_id, mw_index w),
               \<lparr>wv_computed_at = stamp, wv_started_at = None, wv_synthetic = mw_synthetic w,
                wv_max_usd = max_usd_per_repo
                  * of_nat (length (mw_repo_ids w) + length (mw_contract_ids w))\<rparr>))
       (wp_waves plan)"

definition plan_member_rows :: "string \<Rightarrow> wave_plan \<Rightarrow> ((string \<times> string \<times> string) \<times> int) list" where
  "plan_member_rows run_id plan =
     concat (map (\<lambda>w. map (\<lambda>n. ((run_id, ''REPO'', n), mw_index w)) (mw_repo_ids w)
                    @ map (\<lambda>n. ((run_id, ''CONTRACT'', n), mw_index w)) (mw_contract_ids w))
               (wp_waves plan))"

definition record_plan ::
  "tables \<Rightarrow> string \<Rightarrow> wave_plan \<Rightarrow> datetime \<Rightarrow> rat \<Rightarrow> scheduler_error + tables" where
  "record_plan db run_id plan now max_usd_per_repo =
     rbind (iso now) (\<lambda>stamp.
       let waves = plan_wave_rows run_id plan stamp max_usd_per_repo in
       if list_all (\<lambda>(k, row). fst k \<in> set (tb_runs db) \<and> 0 \<le> wv_max_usd row) waves
       then Inr (db\<lparr>tb_waves := fold upsert_wave waves (tb_waves db),
                    tb_members := dict_update (plan_member_rows run_id plan) (tb_members db)\<rparr>)
       else Inl IntegrityError)"

definition wave_indices :: "tables \<Rightarrow> string \<Rightarrow> int list" where
  "wave_indices db run_id = sort (map snd (filter (\<lambda>k. fst k = run_id) (map fst (tb_waves db))))"

definition wave_members :: "tables \<Rightarrow> string \<Rightarrow> int \<Rightarrow> repo_id list" where
  "wave_members db run_id wave_index =
     sort (map (\<lambda>((r, k, n), i). n)
       (filter (\<lambda>((r, k, n), i). r = run_id \<and> i = wave_index \<and> k = ''REPO'') (tb_members db)))"

definition wave_started_at :: "tables \<Rightarrow> string \<Rightarrow> int \<Rightarrow> datetime option" where
  "wave_started_at db run_id wave_index =
     (case dict_get (tb_waves db) (run_id, wave_index) of
        None \<Rightarrow> None
      | Some row \<Rightarrow> parse_stamp (wv_started_at row))"

definition coalesce :: "'a option \<Rightarrow> 'a \<Rightarrow> 'a" where
  "coalesce x y = (case x of None \<Rightarrow> y | Some z \<Rightarrow> z)"

definition begin_wave ::
  "tables \<Rightarrow> string \<Rightarrow> int \<Rightarrow> datetime \<Rightarrow> scheduler_error + tables \<times> datetime" where
  "begin_wave db run_id wave_index now =
     rbind (iso now) (\<lambda>stamp.
       case dict_get (tb_waves db) (run_id, wave_index) of
         None \<Rightarrow> Inl (NoWaveRow run_id wave_index)
       | Some row \<Rightarrow>
           let started = coalesce (wv_started_at row) stamp in
           Inr (db\<lparr>tb_waves := dict_set (tb_waves db) (run_id, wave_index)
                     (row\<lparr>wv_started_at := Some started\<rparr>)\<rparr>,
                utc started))"

definition read_blast_radii :: "tables \<Rightarrow> string \<Rightarrow> repo_id list \<Rightarrow> (repo_id, int) dict" where
  "read_blast_radii db run_id repo_ids = filter (\<lambda>(r, n). r \<in> set repo_ids) (tb_radii db)"

text \<open>One row of the loop of \<open>append_blocked_by\<close>: the row it writes, if it does not \<open>continue\<close>.\<close>

definition block_row :: "repo_id \<Rightarrow> instant \<Rightarrow> phase_row \<Rightarrow> phase_row option" where
  "block_row blocker stamp row =
     (if ph_status row = SUCCEEDED \<or> ph_status row \<in> TERMINAL_STATUSES then None
      else case transition (ph_status row) BLOCKED no_flags of
        Inl _ \<Rightarrow> None
      | Inr _ \<Rightarrow> Some \<lparr>ph_status = BLOCKED,
                        ph_blocked_by = sorted_set (blocker # ph_blocked_by row),
                        ph_updated_at = stamp\<rparr>)"

fun block_rows ::
  "repo_id \<Rightarrow> instant \<Rightarrow> phase_table \<Rightarrow> phase_table \<Rightarrow> nat \<Rightarrow> phase_table \<times> nat" where
  "block_rows blocker stamp [] d touched = (d, touched)"
| "block_rows blocker stamp ((k, row) # rows) d touched =
     (case block_row blocker stamp row of
        None \<Rightarrow> block_rows blocker stamp rows d touched
      | Some row' \<Rightarrow> block_rows blocker stamp rows (dict_set d k row') (touched + 1))"

definition append_blocked_by ::
  "tables \<Rightarrow> string \<Rightarrow> repo_id \<Rightarrow> repo_id \<Rightarrow> datetime \<Rightarrow> scheduler_error + tables \<times> nat" where
  "append_blocked_by db run_id repo_id blocker now =
     rbind (iso now) (\<lambda>stamp.
       let rows = filter (\<lambda>((r, n, p), row). r = run_id \<and> n = repo_id) (tb_phases db);
           (d, touched) = block_rows blocker stamp rows (tb_phases db) 0 in
       Inr (db\<lparr>tb_phases := d\<rparr>, touched))"

definition next_wave_index :: "tables \<Rightarrow> string \<Rightarrow> int" where
  "next_wave_index db run_id =
     (let is = wave_indices db run_id in if is = [] then 0 else Max (set is) + 1)"

definition append_unblocked_wave ::
  "tables \<Rightarrow> string \<Rightarrow> repo_id list \<Rightarrow> datetime \<Rightarrow> rat \<Rightarrow> scheduler_error + tables \<times> int option" where
  "append_unblocked_wave db run_id repo_ids now max_usd_per_repo =
     rbind (iso now) (\<lambda>stamp.
       let targets = sorted_set repo_ids in
       if targets = [] then Inr (db, None)
       else
         let present = map (\<lambda>(r, k, n). n) (filter (\<lambda>(r, k, n). r = run_id \<and> k = ''REPO'' \<and> n \<in> set targets)
                         (map fst (tb_members db)));
             missing = filter (\<lambda>n. n \<notin> set present) targets;
             wave_index = next_wave_index db run_id;
             ceiling = max_usd_per_repo * of_nat (length targets) in
         if missing \<noteq> [] then Inl (UnplannedRepos run_id missing)
         else if run_id \<notin> set (tb_runs db) \<or> ceiling < 0 then Inl IntegrityError
         else Inr (db\<lparr>tb_waves := dict_set (tb_waves db) (run_id, wave_index)
                        \<lparr>wv_computed_at = stamp, wv_started_at = None, wv_synthetic = True,
                         wv_max_usd = ceiling\<rparr>,
                      tb_members := map (\<lambda>((r, k, n), i).
                         ((r, k, n), if r = run_id \<and> k = ''REPO'' \<and> n \<in> set targets
                                     then wave_index else i)) (tb_members db)\<rparr>,
                   Some wave_index))"

text \<open>\<open>get_phase\<close> of \<open>src/fleet/state/repository.py\<close>; the scheduler reads the status only.\<close>

definition get_phase :: "tables \<Rightarrow> string \<Rightarrow> repo_id \<Rightarrow> phase \<Rightarrow> repo_status option" where
  "get_phase db run_id repo_id p = map_option ph_status (dict_get (tb_phases db) (run_id, repo_id, p))"

definition sqlite_store :: "tables scheduler_store" where
  "sqlite_store =
     \<lparr>st_record_plan = record_plan, st_wave_indices = wave_indices, st_wave_members = wave_members,
      st_wave_started_at = wave_started_at, st_begin_wave = begin_wave,
      st_blast_radii = read_blast_radii, st_append_blocked_by = append_blocked_by,
      st_append_unblocked_wave = append_unblocked_wave\<rparr>"

section \<open>The contract of the store\<close>

text \<open>
  What the scheduler relies on. \<open>invar\<close> is the store's own invariant; an instant the store returns
  is aware; a start stamp, once there, is there after every later operation, and it is what
  \<open>begin_wave\<close> returned; opening a wave changes nothing but its own stamp.
\<close>

datatype store_op =
    RecordPlan string wave_plan datetime rat
  | BeginWave string int datetime
  | AppendBlockedBy string repo_id repo_id datetime
  | AppendUnblockedWave string "repo_id list" datetime rat

definition store_put :: "'s scheduler_store \<Rightarrow> 's \<Rightarrow> store_op \<Rightarrow> scheduler_error + 's" where
  "store_put store s op = (case op of
     RecordPlan run plan now usd \<Rightarrow> st_record_plan store s run plan now usd
   | BeginWave run i now \<Rightarrow> map_sum id fst (st_begin_wave store s run i now)
   | AppendBlockedBy run repo blocker now \<Rightarrow> map_sum id fst (st_append_blocked_by store s run repo blocker now)
   | AppendUnblockedWave run repos now usd \<Rightarrow> map_sum id fst (st_append_unblocked_wave store s run repos now usd))"

locale scheduler_store =
  fixes store :: "'s scheduler_store"
    and phase_of :: "'s \<Rightarrow> string \<Rightarrow> repo_id \<Rightarrow> phase \<Rightarrow> repo_status option"
    and invar :: "'s \<Rightarrow> bool"
  assumes put_invar: "invar s \<Longrightarrow> store_put store s op = Inr s' \<Longrightarrow> invar s'"
    and started_aware: "st_wave_started_at store s run i = Some t \<Longrightarrow> dt_offset t = Some 0"
    and started_kept: "invar s \<Longrightarrow> st_wave_started_at store s run i = Some t
      \<Longrightarrow> store_put store s op = Inr s' \<Longrightarrow> st_wave_started_at store s' run i = Some t"
    and begin_stamps: "st_begin_wave store s run i now = Inr (s', t)
      \<Longrightarrow> st_wave_started_at store s' run i = Some t"
    and begin_members: "invar s \<Longrightarrow> st_begin_wave store s run i now = Inr (s', t)
      \<Longrightarrow> st_wave_members store s' = st_wave_members store s"
    and begin_phases: "invar s \<Longrightarrow> st_begin_wave store s run i now = Inr (s', t) \<Longrightarrow> phase_of s' = phase_of s"
    and indices_sorted: "sorted (st_wave_indices store s run)"
    and members_indexed: "invar s \<Longrightarrow> st_wave_members store s run i \<noteq> [] \<Longrightarrow> i \<in> set (st_wave_indices store s run)"
    and members_distinct: "invar s \<Longrightarrow> distinct (st_wave_members store s run i)"

section \<open>The SQLite store meets the contract\<close>

lemma iso_Inr_iff [simp]: "iso t = Inr i \<longleftrightarrow> (\<exists>off. dt_offset t = Some off \<and> i = dt_reading t - off)"
  by (auto simp: iso_def split: option.splits)

lemma dt_offset_utc [simp]: "dt_offset (utc t) = Some 0" "dt_reading (utc t) = t"
  by (simp_all add: utc_def)

lemma iso_utc [simp]: "iso (utc t) = Inr t"
  by simp

lemma dict_get_upsert_wave:
  "dict_get (upsert_wave (k, row) d) j =
     (if j = k then Some (row\<lparr>wv_started_at := (case dict_get d k of None \<Rightarrow> wv_started_at row | Some old \<Rightarrow> wv_started_at old)\<rparr>)
      else dict_get d j)"
  by (auto simp: upsert_wave_def split: option.splits)

lemma keys_upsert_wave [simp]:
  "distinct (map fst d) \<Longrightarrow> distinct (map fst (upsert_wave kr d))"
  "fst ` set (upsert_wave kr d) = insert (fst kr) (fst ` set d)"
  by (auto simp: upsert_wave_def split: option.splits)

lemma keys_fold_upsert [simp]:
  "distinct (map fst d) \<Longrightarrow> distinct (map fst (fold upsert_wave rows d))"
  "fst ` set (fold upsert_wave rows d) = fst ` set rows \<union> fst ` set d"
  by (induction rows arbitrary: d) auto

lemma fold_upsert_keeps:
  assumes "dict_get d k = Some row" and "wv_started_at row = Some t"
  shows "\<exists>row'. dict_get (fold upsert_wave rows d) k = Some row' \<and> wv_started_at row' = Some t"
  using assms
proof (induction rows arbitrary: d row)
  case (Cons r rows)
  obtain j new where r: "r = (j, new)" by fastforce
  have "\<exists>row'. dict_get (upsert_wave r d) k = Some row' \<and> wv_started_at row' = Some t"
    using Cons.prems by (auto simp: r dict_get_upsert_wave)
  then obtain row' where "dict_get (upsert_wave r d) k = Some row'" "wv_started_at row' = Some t"
    by blast
  from Cons.IH[OF this] show ?case
    by simp
qed simp

lemma fold_upsert_check:
  assumes "dict_get (fold upsert_wave rows d) k = Some row"
  shows "(\<exists>r \<in> set rows. fst r = k \<and> wv_max_usd row = wv_max_usd (snd r)) \<or> dict_get d k = Some row"
  using assms
proof (induction rows arbitrary: d)
  case (Cons r rows)
  obtain j new where r: "r = (j, new)" by fastforce
  from Cons.IH[of "upsert_wave r d"] Cons.prems show ?case
    by (auto simp: r dict_get_upsert_wave split: if_splits)
qed simp

lemma started_at_iff:
  "wave_started_at db run i = Some t \<longleftrightarrow>
     (\<exists>row s. dict_get (tb_waves db) (run, i) = Some row \<and> wv_started_at row = Some s \<and> t = utc s)"
  by (auto simp: wave_started_at_def parse_stamp_def split: option.splits)

lemma set_wave_indices: "set (wave_indices db run) = {i. (run, i) \<in> fst ` set (tb_waves db)}"
  by (force simp: wave_indices_def)

lemma set_wave_members:
  "set (wave_members db run i) = {n. ((run, ''REPO'', n), i) \<in> set (tb_members db)}"
  by (force simp: wave_members_def)

lemma set_wave_members_get:
  "tables_ok db \<Longrightarrow> n \<in> set (wave_members db run i) \<longleftrightarrow> dict_get (tb_members db) (run, ''REPO'', n) = Some i"
  by (simp add: set_wave_members tables_ok_def dict_get_mem)

lemma tables_okI:
  assumes "distinct (map fst (tb_waves db))" "distinct (map fst (tb_members db))"
    "distinct (map fst (tb_phases db))"
    and "\<And>run i row. dict_get (tb_waves db) (run, i) = Some row \<Longrightarrow> run \<in> set (tb_runs db) \<and> 0 \<le> wv_max_usd row"
    and "\<And>run k n i. dict_get (tb_members db) (run, k, n) = Some i \<Longrightarrow> (run, i) \<in> fst ` set (tb_waves db)"
  shows "tables_ok db"
  using assms unfolding tables_ok_def by (auto simp: dict_get_mem)

lemma tables_okD:
  assumes "tables_ok db"
  shows "distinct (map fst (tb_waves db))" "distinct (map fst (tb_members db))"
    "distinct (map fst (tb_phases db))"
    and "dict_get (tb_waves db) (run, i) = Some row \<Longrightarrow> run \<in> set (tb_runs db) \<and> 0 \<le> wv_max_usd row"
    and "dict_get (tb_members db) (run, k, n) = Some i \<Longrightarrow> (run, i) \<in> fst ` set (tb_waves db)"
  using assms unfolding tables_ok_def by (auto simp: dict_get_mem[symmetric])

subsection \<open>Recording a plan\<close>

lemma record_plan_Inr_iff:
  "record_plan db run plan now usd = Inr db' \<longleftrightarrow>
     (\<exists>off. dt_offset now = Some off
       \<and> (\<forall>(k, row) \<in> set (plan_wave_rows run plan (dt_reading now - off) usd).
            fst k \<in> set (tb_runs db) \<and> 0 \<le> wv_max_usd row)
       \<and> db' = db\<lparr>tb_waves := fold upsert_wave (plan_wave_rows run plan (dt_reading now - off) usd) (tb_waves db),
                   tb_members := dict_update (plan_member_rows run plan) (tb_members db)\<rparr>)"
  by (auto simp: record_plan_def iso_def Let_def list_all_iff split: option.splits if_splits)

lemma plan_member_rows_indexed:
  "(k, i) \<in> set (plan_member_rows run plan) \<Longrightarrow> (run, i) \<in> fst ` set (plan_wave_rows run plan stamp usd) \<and> fst k = run"
  by (force simp: plan_member_rows_def plan_wave_rows_def)

lemma record_plan_ok:
  assumes "tables_ok db" and "record_plan db run plan now usd = Inr db'"
  shows "tables_ok db'"
proof -
  obtain stamp where checks: "\<And>r. r \<in> set (plan_wave_rows run plan stamp usd) \<Longrightarrow>
        fst (fst r) \<in> set (tb_runs db) \<and> 0 \<le> wv_max_usd (snd r)"
    and db': "db' = db\<lparr>tb_waves := fold upsert_wave (plan_wave_rows run plan stamp usd) (tb_waves db),
                   tb_members := dict_update (plan_member_rows run plan) (tb_members db)\<rparr>"
    using assms(2) unfolding record_plan_Inr_iff by (auto simp: split_def)
  note ok = tables_okD[OF assms(1)]
  show ?thesis
  proof (rule tables_okI)
    fix r i row assume "dict_get (tb_waves db') (r, i) = Some row"
    with fold_upsert_check[of "plan_wave_rows run plan stamp usd" "tb_waves db" "(r, i)" row]
    consider x where "x \<in> set (plan_wave_rows run plan stamp usd)" "fst x = (r, i)" "wv_max_usd row = wv_max_usd (snd x)"
      | "dict_get (tb_waves db) (r, i) = Some row"
      by (auto simp: db')
    then show "r \<in> set (tb_runs db') \<and> 0 \<le> wv_max_usd row"
      using checks ok(4) by cases (auto simp: db')
  next
    fix r k n i assume "dict_get (tb_members db') (r, k, n) = Some i"
    with dict_get_updateD[of "plan_member_rows run plan" "tb_members db" "(r, k, n)" i]
    show "(r, i) \<in> fst ` set (tb_waves db')"
      using plan_member_rows_indexed[of "(r, k, n)" i run plan stamp usd] ok(5)[of r k n i] by (auto simp: db')
  qed (use ok in \<open>simp_all add: db' distinct_dict_update\<close>)
qed

lemma record_plan_started:
  "record_plan db run plan now usd = Inr db' \<Longrightarrow> wave_started_at db r i = Some t
   \<Longrightarrow> wave_started_at db' r i = Some t"
  unfolding record_plan_Inr_iff started_at_iff using fold_upsert_keeps by fastforce

subsection \<open>Opening a wave\<close>

lemma begin_wave_Inr_iff:
  "begin_wave db run i now = Inr (db', t) \<longleftrightarrow>
     (\<exists>off row. dt_offset now = Some off \<and> dict_get (tb_waves db) (run, i) = Some row
       \<and> (let s = coalesce (wv_started_at row) (dt_reading now - off) in
          t = utc s
          \<and> db' = db\<lparr>tb_waves := dict_set (tb_waves db) (run, i) (row\<lparr>wv_started_at := Some s\<rparr>)\<rparr>))"
  by (auto simp: begin_wave_def iso_def Let_def split: option.splits)

lemma begin_wave_ok: "tables_ok db \<Longrightarrow> begin_wave db run i now = Inr (db', t) \<Longrightarrow> tables_ok db'"
proof -
  assume *: "tables_ok db" "begin_wave db run i now = Inr (db', t)"
  note ok = tables_okD[OF *(1)]
  from *(2) obtain row s where row: "dict_get (tb_waves db) (run, i) = Some row"
    and db': "db' = db\<lparr>tb_waves := dict_set (tb_waves db) (run, i) (row\<lparr>wv_started_at := Some s\<rparr>)\<rparr>"
    by (auto simp: begin_wave_Inr_iff Let_def)
  show ?thesis
    using ok ok(4)[OF row] by (intro tables_okI) (auto simp: db' split: if_splits)
qed

lemma begin_wave_started:
  "begin_wave db run i now = Inr (db', s) \<Longrightarrow> wave_started_at db r j = Some t
   \<Longrightarrow> wave_started_at db' r j = Some t"
  by (auto simp: begin_wave_Inr_iff started_at_iff Let_def coalesce_def)

lemma begin_wave_frame:
  assumes "begin_wave db run i now = Inr (db', t)"
  shows "wave_members db' = wave_members db" "get_phase db' = get_phase db"
    "wave_started_at db' run i = Some t" "read_blast_radii db' = read_blast_radii db"
proof -
  show "wave_members db' = wave_members db" "get_phase db' = get_phase db" "read_blast_radii db' = read_blast_radii db"
    using assms by (auto simp: begin_wave_Inr_iff Let_def wave_members_def get_phase_def read_blast_radii_def fun_eq_iff)
  show "wave_started_at db' run i = Some t"
    using assms by (auto simp: begin_wave_Inr_iff Let_def started_at_iff)
qed

subsection \<open>Blocking\<close>

lemma block_row_SomeD:
  "block_row blocker stamp row = Some row' \<Longrightarrow> ph_status row' = BLOCKED"
  by (auto simp: block_row_def split: if_splits sum.splits)

lemma block_row_iff:
  "block_row blocker stamp row =
     (if ph_status row \<in> {PENDING, RUNNING, BLOCKED}
      then Some \<lparr>ph_status = BLOCKED, ph_blocked_by = sorted_set (blocker # ph_blocked_by row), ph_updated_at = stamp\<rparr>
      else None)"
  by (cases "ph_status row") (simp_all add: block_row_def TERMINAL_STATUSES_def transition_def no_flags_def)

lemma keys_block_rows:
  "fst ` set rows \<subseteq> fst ` set d \<Longrightarrow> map fst (fst (block_rows b s rows d n)) = map fst d"
proof (induction rows arbitrary: d n)
  case (Cons r rows)
  obtain k row where r: "r = (k, row)" by fastforce
  have *: "map fst (dict_set d k row') = map fst d" for row'
    using Cons.prems unfolding r dict_set_def by (simp add: update_keys)
  have "fst ` set rows \<subseteq> fst ` set (dict_set d k row')" for row'
    using Cons.prems by (auto simp: r)
  from Cons.IH[OF this] Cons.prems Cons.IH[of d] * show ?case
    by (auto simp: r split: option.splits)
qed simp

lemma get_block_rows:
  "distinct (map fst rows) \<Longrightarrow>
   dict_get (fst (block_rows b s rows d n)) k =
     (case dict_get rows k of
        None \<Rightarrow> dict_get d k
      | Some row \<Rightarrow> (case block_row b s row of None \<Rightarrow> dict_get d k | Some row' \<Rightarrow> Some row'))"
proof (induction rows arbitrary: d n)
  case (Cons r rows)
  obtain j row where r: "r = (j, row)" by fastforce
  have "dict_get rows j = None"
    using Cons.prems by (simp add: r dict_get_None_iff)
  with Cons show ?case
    by (auto simp: r dict_get_Cons split: option.splits)
qed simp

lemma count_block_rows:
  "snd (block_rows b s rows d n) = n + length (filter (\<lambda>r. block_row b s (snd r) \<noteq> None) rows)"
  by (induction rows arbitrary: d n) (auto split: option.splits)

lemma dict_get_filter_keys:
  "dict_get (filter (\<lambda>(k, v). P k) d) k = (if P k then dict_get d k else None)"
  by (induction d) (auto simp: dict_get_Cons)

definition blocked_rows :: "repo_id \<Rightarrow> instant \<Rightarrow> string \<Rightarrow> repo_id \<Rightarrow> phase_table \<Rightarrow> phase_table" where
  "blocked_rows blocker stamp run repo ps =
     fst (block_rows blocker stamp (filter (\<lambda>((r, n, p), row). r = run \<and> n = repo) ps) ps 0)"

lemma append_blocked_by_Inr_iff:
  "append_blocked_by db run repo blocker now = Inr (db', touched) \<longleftrightarrow>
     (\<exists>off. dt_offset now = Some off
        \<and> db' = db\<lparr>tb_phases := blocked_rows blocker (dt_reading now - off) run repo (tb_phases db)\<rparr>
        \<and> touched = length (filter (\<lambda>((r, n, p), row). r = run \<and> n = repo \<and> ph_status row \<in> {PENDING, RUNNING, BLOCKED})
                             (tb_phases db)))"
proof -
  have count: "snd (block_rows blocker s (filter (\<lambda>((r, n, p), row). r = run \<and> n = repo) ps) ps 0)
      = length (filter (\<lambda>((r, n, p), row). r = run \<and> n = repo \<and> ph_status row \<in> {PENDING, RUNNING, BLOCKED}) ps)" for s ps
    unfolding count_block_rows block_row_iff
    by (auto simp: split_def intro!: arg_cong[of _ _ length] filter_cong)
  show ?thesis
    unfolding append_blocked_by_def Let_def split_beta blocked_rows_def count
    by (cases "dt_offset now") (auto simp: iso_def)
qed

lemma keys_blocked_rows [simp]: "map fst (blocked_rows b s run repo ps) = map fst ps"
  unfolding blocked_rows_def by (rule keys_block_rows) auto

lemma get_blocked_rows:
  assumes "distinct (map fst ps)"
  shows "dict_get (blocked_rows b s run repo ps) (r, n, p) =
    (if r = run \<and> n = repo
     then map_option (\<lambda>row. if ph_status row \<in> {PENDING, RUNNING, BLOCKED}
                            then \<lparr>ph_status = BLOCKED, ph_blocked_by = sorted_set (b # ph_blocked_by row), ph_updated_at = s\<rparr>
                            else row) (dict_get ps (r, n, p))
     else dict_get ps (r, n, p))"
proof -
  have f: "filter (\<lambda>((r, n, p), row). r = run \<and> n = repo) ps = filter (\<lambda>(k, v). (\<lambda>(r, n, p). r = run \<and> n = repo) k) ps"
    by (simp add: split_def)
  show ?thesis
    unfolding blocked_rows_def f
    by (subst get_block_rows)
      (auto simp: assms distinct_map_filter dict_get_filter_keys block_row_iff split: option.splits)
qed

lemma append_blocked_by_ok:
  "tables_ok db \<Longrightarrow> append_blocked_by db run repo blocker now = Inr (db', k) \<Longrightarrow> tables_ok db'"
  by (auto simp: append_blocked_by_Inr_iff tables_ok_def)

lemma append_blocked_by_frame:
  "append_blocked_by db run repo blocker now = Inr (db', k) \<Longrightarrow>
     tb_waves db' = tb_waves db \<and> tb_members db' = tb_members db \<and> tb_runs db' = tb_runs db \<and> tb_radii db' = tb_radii db"
  by (auto simp: append_blocked_by_Inr_iff)

subsection \<open>Moving repositories into an appended wave\<close>

lemma next_wave_index_above: "i \<in> set (wave_indices db run) \<Longrightarrow> i < next_wave_index db run"
  by (auto simp: next_wave_index_def Let_def le_imp_less_Suc zle_add1_eq_le)

lemma next_wave_index_free: "dict_get (tb_waves db) (run, next_wave_index db run) = None"
  using next_wave_index_above[of "next_wave_index db run" db run]
  by (auto simp: set_wave_indices dict_get_None_iff)

definition moved :: "string \<Rightarrow> repo_id set \<Rightarrow> int \<Rightarrow> (string \<times> string \<times> string, int) dict
    \<Rightarrow> (string \<times> string \<times> string, int) dict" where
  "moved run R w ms = map (\<lambda>((r, k, n), i). ((r, k, n), if r = run \<and> k = ''REPO'' \<and> n \<in> R then w else i)) ms"

lemma keys_moved [simp]: "map fst (moved run R w ms) = map fst ms"
  by (simp add: moved_def comp_def split_def)

lemma get_moved:
  "dict_get (moved run R w ms) (r, k, n) =
     map_option (\<lambda>i. if r = run \<and> k = ''REPO'' \<and> n \<in> R then w else i) (dict_get ms (r, k, n))"
  by (induction ms) (auto simp: moved_def dict_get_Cons)

lemma append_unblocked_wave_Inr_iff:
  "append_unblocked_wave db run repos now usd = Inr (db', w) \<longleftrightarrow>
     (\<exists>off. dt_offset now = Some off \<and>
       (if repos = [] then db' = db \<and> w = None
        else (\<forall>n \<in> set repos. dict_get (tb_members db) (run, ''REPO'', n) \<noteq> None)
          \<and> run \<in> set (tb_runs db) \<and> 0 \<le> usd * of_nat (card (set repos))
          \<and> w = Some (next_wave_index db run)
          \<and> db' = db\<lparr>tb_waves := dict_set (tb_waves db) (run, next_wave_index db run)
                       \<lparr>wv_computed_at = dt_reading now - off, wv_started_at = None, wv_synthetic = True,
                        wv_max_usd = usd * of_nat (card (set repos))\<rparr>,
                     tb_members := moved run (set repos) (next_wave_index db run) (tb_members db)\<rparr>))"
proof -
  have present: "set (map (\<lambda>(r, k, n). n) (filter (\<lambda>(r, k, n). r = run \<and> k = ''REPO'' \<and> n \<in> set repos) (map fst ms)))
      = {n \<in> set repos. dict_get ms (run, ''REPO'', n) \<noteq> None}" for ms :: "(string \<times> string \<times> string, int) dict"
    by (force simp: dict_get_None_iff)
  have "(filter (\<lambda>n. n \<notin> {n \<in> set repos. dict_get (tb_members db) (run, ''REPO'', n) \<noteq> None}) (sorted_set repos) = [])
      \<longleftrightarrow> (\<forall>n \<in> set repos. dict_get (tb_members db) (run, ''REPO'', n) \<noteq> None)"
    by (auto simp: filter_empty_conv)
  then show ?thesis
    unfolding append_unblocked_wave_def Let_def set_sorted_set present sorted_set_Nil_iff length_sorted_set moved_def[symmetric]
    by (cases "dt_offset now") (auto simp: iso_def not_less)
qed

lemma append_unblocked_wave_ok:
  assumes "tables_ok db" and "append_unblocked_wave db run repos now usd = Inr (db', w)"
  shows "tables_ok db'"
proof (cases "repos = []")
  case True
  with assms show ?thesis by (simp add: append_unblocked_wave_Inr_iff)
next
  case False
  note ok = tables_okD[OF assms(1)]
  from assms(2) False show ?thesis
    using ok by (intro tables_okI) (auto simp: append_unblocked_wave_Inr_iff get_moved split: if_splits)
qed

lemma append_unblocked_wave_row:
  assumes "append_unblocked_wave db run repos now usd = Inr (db', w)"
    and "dict_get (tb_waves db) k = Some row"
  shows "dict_get (tb_waves db') k = Some row"
proof (cases "repos = []")
  case False
  have "k \<noteq> (run, next_wave_index db run)"
    using assms(2) next_wave_index_free[of db run] by auto
  with assms False show ?thesis
    by (auto simp: append_unblocked_wave_Inr_iff)
qed (use assms in \<open>simp add: append_unblocked_wave_Inr_iff\<close>)

lemma store_put_ok: "tables_ok db \<Longrightarrow> store_put sqlite_store db op = Inr db' \<Longrightarrow> tables_ok db'"
  by (cases op)
    (auto simp: store_put_def sqlite_store_def map_sum_def split: sum.splits
      dest: record_plan_ok begin_wave_ok append_blocked_by_ok append_unblocked_wave_ok)

lemma store_put_started:
  assumes "wave_started_at db run i = Some t" and "store_put sqlite_store db op = Inr db'"
  shows "wave_started_at db' run i = Some t"
proof (cases op)
  case (AppendBlockedBy r n b now)
  with assms show ?thesis
    by (auto simp: store_put_def sqlite_store_def wave_started_at_def map_sum_def
        split: sum.splits dest!: append_blocked_by_frame)
next
  case (AppendUnblockedWave r ns now usd)
  with assms show ?thesis
    by (auto simp: store_put_def sqlite_store_def map_sum_def started_at_iff
        split: sum.splits dest: append_unblocked_wave_row)
qed (use assms in \<open>auto simp: store_put_def sqlite_store_def map_sum_def
        split: sum.splits dest: record_plan_started begin_wave_started\<close>)

lemma distinct_wave_members: "tables_ok db \<Longrightarrow> distinct (wave_members db run i)"
proof -
  assume "tables_ok db"
  then have "distinct (tb_members db)" and inj: "inj_on fst (set (tb_members db))"
    by (simp_all add: tables_ok_def distinct_map)
  then show ?thesis
    unfolding wave_members_def
    by (auto simp: distinct_map inj_on_def dest: inj_onD)
qed

interpretation sqlite: scheduler_store sqlite_store get_phase tables_ok
proof unfold_locales
  show "tables_ok db \<Longrightarrow> st_wave_members sqlite_store db run i \<noteq> [] \<Longrightarrow> i \<in> set (st_wave_indices sqlite_store db run)"
    for db run i
    by (auto simp: sqlite_store_def set_wave_indices dest!: last_in_set)
      (metis (no_types, lifting) set_wave_members_get tables_okD(5))
qed (auto simp: sqlite_store_def distinct_wave_members wave_indices_def begin_wave_frame
    dest: store_put_ok[unfolded sqlite_store_def] store_put_started[unfolded sqlite_store_def]
    begin_wave_frame started_at_iff[THEN iffD1])

end
