(* ===== verification/Scheduler.thy ===== *)
theory Scheduler
  imports Scheduler_Store
begin

text \<open>
  The policy half of \<open>src/fleet/orchestrator/scheduler.py\<close>: \<open>WaveScheduler\<close> over any store that
  meets \<open>scheduler_store\<close>, and \<open>ordering_descendants\<close>. A method runs without interleaving. The
  clock is injected, so each of its readings is an argument, in the order the code takes them;
  \<open>wave_state\<close> reads it at most once and only for a wave that is not closed. The limit is in
  seconds and elapsed time is exact.
\<close>

section \<open>The scheduler\<close>

definition SETTLED_STATUSES :: "repo_status set" where
  "SETTLED_STATUSES = TERMINAL_STATUSES \<union> {BLOCKED, DEGRADED}"

record admission =
  ad_wave_index :: int
  ad_phase :: phase
  ad_admitted :: "repo_id list"
  ad_blocked :: "repo_id list"
  ad_settled :: "repo_id list"
  ad_withheld :: "repo_id list"
  ad_started_at :: "datetime option"
  ad_elapsed_s :: rat
  ad_breached :: bool

record 's wave_scheduler =
  ws_run_id :: string
  ws_phase :: phase
  ws_store :: "'s scheduler_store"
  ws_get_phase :: "'s \<Rightarrow> string \<Rightarrow> repo_id \<Rightarrow> phase \<Rightarrow> repo_status option"
  ws_max_wallclock_s :: int
  ws_descendants :: "repo_id \<Rightarrow> repo_id list"

definition status_of :: "'s wave_scheduler \<Rightarrow> 's \<Rightarrow> repo_id \<Rightarrow> repo_status" where
  "status_of ws s repo_id =
     (case ws_get_phase ws s (ws_run_id ws) repo_id (ws_phase ws) of None \<Rightarrow> PENDING | Some st \<Rightarrow> st)"

text \<open>Subtracting a naive and an aware \<open>datetime\<close> raises; otherwise the difference in microseconds.\<close>

definition datetime_sub :: "datetime \<Rightarrow> datetime \<Rightarrow> scheduler_error + int" where
  "datetime_sub a b = (case (dt_offset a, dt_offset b) of
     (Some x, Some y) \<Rightarrow> Inr ((dt_reading a - x) - (dt_reading b - y))
   | (None, None) \<Rightarrow> Inr (dt_reading a - dt_reading b)
   | _ \<Rightarrow> Inl MixedSubtraction)"

definition elapsed_s :: "'s wave_scheduler \<Rightarrow> 's \<Rightarrow> int \<Rightarrow> datetime \<Rightarrow> scheduler_error + rat" where
  "elapsed_s ws s wave_index now =
     (case st_wave_started_at (ws_store ws) s (ws_run_id ws) wave_index of
        None \<Rightarrow> Inr 0
      | Some started \<Rightarrow>
          rbind (datetime_sub now started) (\<lambda>d. Inr (max 0 (of_int d / 1000000))))"

definition breached :: "'s wave_scheduler \<Rightarrow> 's \<Rightarrow> int \<Rightarrow> datetime \<Rightarrow> scheduler_error + bool" where
  "breached ws s wave_index now =
     (case st_wave_started_at (ws_store ws) s (ws_run_id ws) wave_index of
        None \<Rightarrow> Inr False
      | Some _ \<Rightarrow> rbind (elapsed_s ws s wave_index now) (\<lambda>e. Inr (e \<ge> of_int (ws_max_wallclock_s ws))))"

definition wave_state_of :: "'s wave_scheduler \<Rightarrow> 's \<Rightarrow> int \<Rightarrow> datetime \<Rightarrow> scheduler_error + wave_state" where
  "wave_state_of ws s wave_index now =
     (case find (\<lambda>r. status_of ws s r \<notin> SETTLED_STATUSES)
             (st_wave_members (ws_store ws) s (ws_run_id ws) wave_index) of
        None \<Rightarrow> Inr WS_CLOSED
      | Some _ \<Rightarrow> rbind (breached ws s wave_index now) (\<lambda>b. Inr (if b then WS_PARTIAL else WS_OPEN)))"

fun earlier_closed ::
  "'s wave_scheduler \<Rightarrow> 's \<Rightarrow> int \<Rightarrow> datetime \<Rightarrow> int list \<Rightarrow> scheduler_error + unit" where
  "earlier_closed ws s wave_index now [] = Inr ()"
| "earlier_closed ws s wave_index now (earlier # rest) =
     (if earlier \<ge> wave_index then Inr ()
      else rbind (wave_state_of ws s earlier now) (\<lambda>st.
        if st \<noteq> WS_CLOSED then Inl (EarlierWaveNotClosed wave_index earlier st)
        else earlier_closed ws s wave_index now rest))"

definition open_wave ::
  "'s wave_scheduler \<Rightarrow> 's \<Rightarrow> int \<Rightarrow> datetime \<Rightarrow> datetime \<Rightarrow> scheduler_error + 's \<times> datetime" where
  "open_wave ws s wave_index now_state now_begin =
     rbind (earlier_closed ws s wave_index now_state
              (st_wave_indices (ws_store ws) s (ws_run_id ws)))
       (\<lambda>_. st_begin_wave (ws_store ws) s (ws_run_id ws) wave_index now_begin)"

definition admission_key :: "(repo_id, int) dict \<Rightarrow> repo_id \<Rightarrow> int \<times> repo_id" where
  "admission_key radii r = (- (case dict_get radii r of None \<Rightarrow> 0 | Some n \<Rightarrow> n), r)"

fun sort_members ::
  "('r \<Rightarrow> repo_status) \<Rightarrow> 'r list \<Rightarrow> 'r list \<times> 'r list \<times> 'r list
   \<Rightarrow> 'r list \<times> 'r list \<times> 'r list" where
  "sort_members status [] acc = acc"
| "sort_members status (r # rs) (blocked, settled, candidates) =
     sort_members status rs
       (if status r = BLOCKED then (blocked @ [r], settled, candidates)
        else if status r \<in> SETTLED_STATUSES then (blocked, settled @ [r], candidates)
        else (blocked, settled, candidates @ [r]))"

definition admit ::
  "'s wave_scheduler \<Rightarrow> 's \<Rightarrow> int \<Rightarrow> datetime \<Rightarrow> datetime \<Rightarrow> datetime \<Rightarrow> datetime
   \<Rightarrow> scheduler_error + 's \<times> admission" where
  "admit ws s wave_index now_state now_begin now_breach now_elapsed =
     rbind (open_wave ws s wave_index now_state now_begin) (\<lambda>(s', started).
       let members = st_wave_members (ws_store ws) s' (ws_run_id ws) wave_index;
           radii = st_blast_radii (ws_store ws) s' (ws_run_id ws) members;
           (blocked, settled, candidates) = sort_members (status_of ws s') members ([], [], []);
           ordered = sort_key (admission_key radii) candidates in
       rbind (breached ws s' wave_index now_breach) (\<lambda>br.
       rbind (elapsed_s ws s' wave_index now_elapsed) (\<lambda>el.
         Inr (s', \<lparr>ad_wave_index = wave_index, ad_phase = ws_phase ws,
                   ad_admitted = (if br then [] else ordered),
                   ad_blocked = blocked, ad_settled = settled,
                   ad_withheld = (if br then ordered else []),
                   ad_started_at = Some started, ad_elapsed_s = el, ad_breached = br\<rparr>))))"

definition may_admit :: "'s wave_scheduler \<Rightarrow> 's \<Rightarrow> int \<Rightarrow> datetime \<Rightarrow> scheduler_error + bool" where
  "may_admit ws s wave_index now = rbind (breached ws s wave_index now) (\<lambda>b. Inr (\<not> b))"

fun propagate_loop ::
  "'s wave_scheduler \<Rightarrow> repo_id \<Rightarrow> datetime \<Rightarrow> repo_id list \<Rightarrow> 's \<Rightarrow> repo_id list
   \<Rightarrow> scheduler_error + 's \<times> repo_id list" where
  "propagate_loop ws abandoned now [] s blocked = Inr (s, blocked)"
| "propagate_loop ws abandoned now (dep # rest) s blocked =
     (if dep = abandoned then propagate_loop ws abandoned now rest s blocked
      else rbind (st_append_blocked_by (ws_store ws) s (ws_run_id ws) dep abandoned now)
        (\<lambda>(s', touched). propagate_loop ws abandoned now rest s'
           (if touched \<noteq> 0 then blocked @ [dep] else blocked)))"

definition propagate_blocked ::
  "'s wave_scheduler \<Rightarrow> 's \<Rightarrow> repo_id \<Rightarrow> datetime \<Rightarrow> scheduler_error + 's \<times> repo_id list" where
  "propagate_blocked ws s abandoned now =
     propagate_loop ws abandoned now (sorted_set (ws_descendants ws abandoned)) s []"

text \<open>\<open>forward.setdefault(dependency, set()).add(dependent)\<close>\<close>

definition forward_map :: "(repo_id \<times> repo_id) list \<Rightarrow> (repo_id, repo_id list) dict" where
  "forward_map edges = fold (\<lambda>(dependency, dep) f.
      dict_set f dependency (List.insert dep (out f dependency))) edges []"

definition ordering_descendants :: "(repo_id \<times> repo_id) list \<Rightarrow> repo_id \<Rightarrow> repo_id list" where
  "ordering_descendants edges repo_id =
     (let forward = forward_map edges in visit forward (rev (out forward repo_id)) [])"

section \<open>Order of waves and admission\<close>

lemma sort_members_eq:
  "sort_members status rs (b, t, c) =
     (b @ filter (\<lambda>r. status r = BLOCKED) rs,
      t @ filter (\<lambda>r. status r \<in> SETTLED_STATUSES - {BLOCKED}) rs,
      c @ filter (\<lambda>r. status r \<notin> SETTLED_STATUSES) rs)"
  by (induction rs arbitrary: b t c) (auto simp: SETTLED_STATUSES_def)

lemma find_unsettled:
  "find P xs = None \<longleftrightarrow> (\<forall>x \<in> set xs. \<not> P x)"
  by (auto simp: find_None_iff)

lemma wave_state_closed_iff:
  "wave_state_of ws s i now = Inr WS_CLOSED \<longleftrightarrow>
     (\<forall>r \<in> set (st_wave_members (ws_store ws) s (ws_run_id ws) i). status_of ws s r \<in> SETTLED_STATUSES)"
  by (auto simp: wave_state_of_def find_None_iff rbind_def find_Some_iff split: option.splits sum.splits)

lemma earlier_closed_iff:
  assumes "sorted is"
  shows "earlier_closed ws s i now is = Inr () \<longleftrightarrow>
    (\<forall>j \<in> set is. j < i \<longrightarrow> wave_state_of ws s j now = Inr WS_CLOSED)"
  using assms
proof (induction "is")
  case (Cons j js)
  then show ?case
    by (cases "wave_state_of ws s j now") auto
qed simp

context scheduler_store
begin

lemma open_wave_Inr_iff:
  assumes "ws_store ws = store"
  shows "open_wave ws s i now_state now_begin = Inr (s', t) \<longleftrightarrow>
    (\<forall>j \<in> set (st_wave_indices store s (ws_run_id ws)). j < i \<longrightarrow>
       (\<forall>r \<in> set (st_wave_members store s (ws_run_id ws) j). status_of ws s r \<in> SETTLED_STATUSES))
    \<and> st_begin_wave store s (ws_run_id ws) i now_begin = Inr (s', t)"
proof -
  have "open_wave ws s i now_state now_begin = Inr (s', t) \<longleftrightarrow>
      earlier_closed ws s i now_state (st_wave_indices store s (ws_run_id ws)) = Inr ()
      \<and> st_begin_wave store s (ws_run_id ws) i now_begin = Inr (s', t)"
    unfolding open_wave_def assms
    by (cases "earlier_closed ws s i now_state (st_wave_indices store s (ws_run_id ws))") auto
  then show ?thesis
    unfolding earlier_closed_iff[OF indices_sorted] wave_state_closed_iff assms .
qed

lemma replay_started:
  "invar s \<Longrightarrow> st_wave_started_at store s run i = Some t \<Longrightarrow>
   invar (replay (store_put store) s ops)
   \<and> st_wave_started_at store (replay (store_put store) s ops) run i = Some t"
  by (induction ops arbitrary: s) (auto split: sum.split intro: put_invar started_kept)

lemma breached_iff:
  assumes "ws_store ws = store" and "dt_offset now = Some off"
    and "st_wave_started_at store s (ws_run_id ws) i = Some t"
  shows "breached ws s i now =
    Inr (of_int (ws_max_wallclock_s ws) \<le> max 0 (of_int (dt_reading now - off - dt_reading t) / 1000000 :: rat))"
  using assms started_aware[OF assms(3)]
  by (simp add: breached_def elapsed_s_def datetime_sub_def)

lemma breach_is_permanent:
  assumes "ws_store ws = store" and "invar s"
    and "breached ws s i now = Inr True" and "dt_offset now = Some off" and "dt_offset later = Some off'"
    and "dt_reading now - off \<le> dt_reading later - off'"
  shows "breached ws (replay (store_put store) s ops) i later = Inr True"
proof -
  from assms(1,3) obtain t where t: "st_wave_started_at store s (ws_run_id ws) i = Some t"
    by (auto simp: breached_def split: option.splits)
  with replay_started[OF assms(2)] have t': "st_wave_started_at store (replay (store_put store) s ops) (ws_run_id ws) i = Some t"
    by blast
  have "dt_reading now - off - dt_reading t \<le> dt_reading later - off' - dt_reading t"
    using assms(6) by simp
  then have "(of_int (dt_reading now - off - dt_reading t) / 1000000 :: rat)
      \<le> of_int (dt_reading later - off' - dt_reading t) / 1000000"
    by (intro divide_right_mono of_int_le_iff[THEN iffD2]) simp_all
  then show ?thesis
    using assms(3) unfolding breached_iff[OF assms(1,4) t] breached_iff[OF assms(1,5) t']
    by (auto simp: max_def split: if_splits)
qed

end

section \<open>Properties on the SQLite store\<close>

text \<open>A scheduler over the tables.\<close>

definition over_sqlite :: "tables wave_scheduler \<Rightarrow> bool" where
  "over_sqlite ws \<longleftrightarrow> ws_store ws = sqlite_store \<and> ws_get_phase ws = get_phase"

lemma sqlite_store_simps [simp]:
  "st_wave_started_at sqlite_store = wave_started_at" "st_wave_members sqlite_store = wave_members"
  "st_wave_indices sqlite_store = wave_indices" "st_begin_wave sqlite_store = begin_wave"
  "st_blast_radii sqlite_store = read_blast_radii" "st_append_blocked_by sqlite_store = append_blocked_by"
  "st_record_plan sqlite_store = record_plan" "st_append_unblocked_wave sqlite_store = append_unblocked_wave"
  by (simp_all add: sqlite_store_def)

lemma admit_InrD:
  assumes "over_sqlite ws" and "admit ws db i n1 n2 n3 n4 = Inr (db', a)"
  shows "\<exists>t. open_wave ws db i n1 n2 = Inr (db', t) \<and> ad_started_at a = Some t"
    and "begin_wave db (ws_run_id ws) i n2 = Inr (db', the (ad_started_at a))"
    and "breached ws db' i n3 = Inr (ad_breached a)"
    and "ad_blocked a = filter (\<lambda>r. status_of ws db r = BLOCKED) (wave_members db (ws_run_id ws) i)"
    and "ad_settled a = filter (\<lambda>r. status_of ws db r \<in> SETTLED_STATUSES - {BLOCKED}) (wave_members db (ws_run_id ws) i)"
    and "(if ad_breached a then ad_admitted a = [] else ad_withheld a = [])"
    and "ad_admitted a @ ad_withheld a =
      sort_key (admission_key (read_blast_radii db (ws_run_id ws) (wave_members db (ws_run_id ws) i)))
        (filter (\<lambda>r. status_of ws db r \<notin> SETTLED_STATUSES) (wave_members db (ws_run_id ws) i))"
proof -
  obtain s' t where o: "open_wave ws db i n1 n2 = Inr (s', t)"
    using assms(2) by (auto simp: admit_def rbind_Inr_iff)
  then have b: "begin_wave db (ws_run_id ws) i n2 = Inr (s', t)"
    using assms(1) sqlite.open_wave_Inr_iff[of ws db i n1 n2 s' t] by (simp add: over_sqlite_def)
  have "ws_get_phase ws s' = ws_get_phase ws db"
    using begin_wave_frame(2)[OF b] assms(1) by (simp add: over_sqlite_def)
  then have st: "status_of ws s' = status_of ws db"
    by (simp add: fun_eq_iff status_of_def)
  let ?ms = "wave_members db (ws_run_id ws) i"
  let ?ord = "sort_key (admission_key (read_blast_radii db (ws_run_id ws) ?ms))
        (filter (\<lambda>r. status_of ws db r \<notin> SETTLED_STATUSES) ?ms)"
  obtain br el where "breached ws s' i n3 = Inr br"
    and "db' = s' \<and> a = \<lparr>ad_wave_index = i, ad_phase = ws_phase ws,
                   ad_admitted = (if br then [] else ?ord),
                   ad_blocked = filter (\<lambda>r. status_of ws db r = BLOCKED) ?ms,
                   ad_settled = filter (\<lambda>r. status_of ws db r \<in> SETTLED_STATUSES - {BLOCKED}) ?ms,
                   ad_withheld = (if br then ?ord else []),
                   ad_started_at = Some t, ad_elapsed_s = el, ad_breached = br\<rparr>"
    using assms(2) assms(1)[unfolded over_sqlite_def]
    unfolding admit_def o rbind_simps prod.case Let_def sort_members_eq st append_Nil rbind_Inr_iff
    by (auto simp only: rbind_Inr_iff sqlite_store_simps begin_wave_frame[OF b]
        sum.inject prod.inject)
  then show "\<exists>t. open_wave ws db i n1 n2 = Inr (db', t) \<and> ad_started_at a = Some t"
    "begin_wave db (ws_run_id ws) i n2 = Inr (db', the (ad_started_at a))"
    "breached ws db' i n3 = Inr (ad_breached a)"
    "ad_blocked a = filter (\<lambda>r. status_of ws db r = BLOCKED) (wave_members db (ws_run_id ws) i)"
    "ad_settled a = filter (\<lambda>r. status_of ws db r \<in> SETTLED_STATUSES - {BLOCKED}) (wave_members db (ws_run_id ws) i)"
    "(if ad_breached a then ad_admitted a = [] else ad_withheld a = [])"
    "ad_admitted a @ ad_withheld a =
      sort_key (admission_key (read_blast_radii db (ws_run_id ws) (wave_members db (ws_run_id ws) i)))
        (filter (\<lambda>r. status_of ws db r \<notin> SETTLED_STATUSES) (wave_members db (ws_run_id ws) i))"
    using o b by simp_all
qed

text \<open>
  C22: The wall clock of a wave is cumulative. A start stamp, once written, survives every
  history of store operations, re-plans and re-openings included, so a wave found breached is
  breached at every later reading whatever was written in between, and no admission decided then
  admits anything: each member not settled is withheld.
\<close>

theorem wave_clock_is_cumulative:
  assumes "tables_ok db" and "over_sqlite ws"
    and "breached ws db i now = Inr True" and "dt_offset now = Some off" and "dt_offset later = Some off'"
    and "dt_reading now - off \<le> dt_reading later - off'"
  shows "wave_started_at (replay (store_put sqlite_store) db ops) (ws_run_id ws) i
        = wave_started_at db (ws_run_id ws) i
    \<and> wave_started_at db (ws_run_id ws) i \<noteq> None
    \<and> breached ws (replay (store_put sqlite_store) db ops) i later = Inr True
    \<and> (\<forall>n1 n2 n4 db' a. admit ws (replay (store_put sqlite_store) db ops) i n1 n2 later n4 = Inr (db', a)
         \<longrightarrow> ad_admitted a = [])"
proof -
  have store: "ws_store ws = sqlite_store"
    using assms(2) by (simp add: over_sqlite_def)
  obtain t where t: "wave_started_at db (ws_run_id ws) i = Some t"
    using assms(3) by (auto simp: breached_def store split: option.splits)
  let ?db = "replay (store_put sqlite_store) db ops"
  note kept = sqlite.replay_started[OF assms(1), of "ws_run_id ws" i t ops]
  note br = sqlite.breach_is_permanent[OF store, OF _ assms(3-6)]
  have "ad_admitted a = []" if "admit ws ?db i n1 n2 later n4 = Inr (db', a)" for n1 n2 n4 db' a
  proof -
    note d = admit_InrD[OF assms(2) that]
    have "replay (store_put sqlite_store) ?db [BeginWave (ws_run_id ws) i n2] = db'"
      using d(2) by (simp add: store_put_def)
    then have "db' = replay (store_put sqlite_store) db (ops @ [BeginWave (ws_run_id ws) i n2])"
      by (simp add: replay_append)
    with br[OF assms(1), of "ops @ [BeginWave (ws_run_id ws) i n2]"] d(3) have "ad_breached a"
      by simp
    with d(6) show ?thesis by simp
  qed
  then show ?thesis
    using t kept br[OF assms(1), of ops] by simp
qed

text \<open>
  A wave opens exactly when it was planned, the clock is aware and every member of every
  earlier wave is settled. Opening it returns the stamp of the first opening, which is this one
  only if there was none, and changes nothing else in the tables.
\<close>

theorem open_wave_exactly_when_ready:
  assumes "over_sqlite ws"
  shows "open_wave ws db i now_state now_begin = Inr (db', t) \<longleftrightarrow>
    (\<forall>j r. j < i \<and> r \<in> set (wave_members db (ws_run_id ws) j) \<and> j \<in> set (wave_indices db (ws_run_id ws))
       \<longrightarrow> status_of ws db r \<in> SETTLED_STATUSES)
    \<and> (\<exists>off row. dt_offset now_begin = Some off \<and> dict_get (tb_waves db) (ws_run_id ws, i) = Some row
         \<and> t = utc (coalesce (wv_started_at row) (dt_reading now_begin - off))
         \<and> db' = db\<lparr>tb_waves := dict_set (tb_waves db) (ws_run_id ws, i)
                      (row\<lparr>wv_started_at := Some (coalesce (wv_started_at row) (dt_reading now_begin - off))\<rparr>)\<rparr>)"
proof -
  have "ws_store ws = sqlite_store"
    using assms by (simp add: over_sqlite_def)
  from sqlite.open_wave_Inr_iff[OF this] show ?thesis
    by (simp add: begin_wave_Inr_iff Let_def) blast
qed

lemma filter_three:
  "mset (filter (\<lambda>x. f x = b) xs) + mset (filter (\<lambda>x. f x \<in> S - {b}) xs) + mset (filter (\<lambda>x. f x \<notin> S) xs) = mset xs"
  if "b \<in> S"
  using that by (induction xs) auto

text \<open>
  An admission accounts for every member of the wave once: it is admitted, blocked, settled
  or withheld. Only members that are PENDING or RUNNING are admitted, none after a breach and all
  of them otherwise, by blast radius descending and then by name.
\<close>

theorem admit_partitions_wave:
  assumes "tables_ok db" and "over_sqlite ws" and "admit ws db i n1 n2 n3 n4 = Inr (db', a)"
  shows "mset (ad_admitted a @ ad_blocked a @ ad_settled a @ ad_withheld a)
      = mset (wave_members db (ws_run_id ws) i)
    \<and> distinct (ad_admitted a @ ad_blocked a @ ad_settled a @ ad_withheld a)
    \<and> set (ad_admitted a @ ad_withheld a) =
        {r \<in> set (wave_members db (ws_run_id ws) i). status_of ws db r \<in> {PENDING, RUNNING}}
    \<and> set (ad_blocked a) = {r \<in> set (wave_members db (ws_run_id ws) i). status_of ws db r = BLOCKED}
    \<and> (if ad_breached a then ad_admitted a = [] else ad_withheld a = [])
    \<and> sorted (map (admission_key (read_blast_radii db (ws_run_id ws) (wave_members db (ws_run_id ws) i)))
                (ad_admitted a @ ad_withheld a))"
proof -
  let ?ms = "wave_members db (ws_run_id ws) i"
  note d = admit_InrD[OF assms(2,3)]
  have unsettled: "st \<notin> SETTLED_STATUSES \<longleftrightarrow> st \<in> {PENDING, RUNNING}" for st
    by (cases st) (simp_all add: SETTLED_STATUSES_def TERMINAL_STATUSES_def)
  have m: "mset (ad_admitted a @ ad_withheld a) = mset (filter (\<lambda>r. status_of ws db r \<notin> SETTLED_STATUSES) ?ms)"
    unfolding d(7) by simp
  have all: "mset (ad_admitted a @ ad_blocked a @ ad_settled a @ ad_withheld a) = mset ?ms"
  proof -
    have "BLOCKED \<in> SETTLED_STATUSES" by (simp add: SETTLED_STATUSES_def)
    from filter_three[OF this, of "status_of ws db" ?ms]
    have "mset (ad_blocked a) + mset (ad_settled a) + mset (ad_admitted a @ ad_withheld a) = mset ?ms"
      unfolding d(4,5) m .
    moreover have "mset (ad_admitted a @ ad_blocked a @ ad_settled a @ ad_withheld a)
        = mset (ad_blocked a) + mset (ad_settled a) + mset (ad_admitted a @ ad_withheld a)"
      by (simp add: ac_simps)
    ultimately show ?thesis by simp
  qed
  then have "distinct (ad_admitted a @ ad_blocked a @ ad_settled a @ ad_withheld a)"
    using distinct_wave_members[OF assms(1)] mset_eq_imp_distinct_iff by blast
  moreover have "set (ad_admitted a @ ad_withheld a) = {r \<in> set ?ms. status_of ws db r \<in> {PENDING, RUNNING}}"
    unfolding d(7) by (simp add: unsettled)
  moreover have "sorted (map (admission_key (read_blast_radii db (ws_run_id ws) ?ms)) (ad_admitted a @ ad_withheld a))"
    unfolding d(7) by simp
  ultimately show ?thesis
    using all d(4,6) by simp
qed

section \<open>Blast containment\<close>

lemma out_rel_dict_set:
  "out_rel (dict_set f n (List.insert m (out f n))) = insert (n, m) (out_rel f)"
  by (auto simp: out_rel_def out_def split: if_splits)

lemma out_rel_forward_map [simp]: "out_rel (forward_map edges) = set edges"
proof -
  have "out_rel (fold (\<lambda>(n, m) f. dict_set f n (List.insert m (out f n))) es f) = set es \<union> out_rel f" for es f
    by (induction es arbitrary: f) (auto simp: out_rel_dict_set)
  from this[of edges "[]"] show ?thesis
    by (simp only: forward_map_def) (simp add: out_rel_def out_def)
qed

lemma set_ordering_descendants:
  "set (ordering_descendants edges r) = {d. (r, d) \<in> (set edges)\<^sup>+}"
  by (simp add: ordering_descendants_def Let_def set_visit_out)

text \<open>What one propagation makes of a phase row.\<close>

definition contain :: "repo_id set \<Rightarrow> repo_id \<Rightarrow> instant \<Rightarrow> repo_id \<Rightarrow> phase_row \<Rightarrow> phase_row" where
  "contain D blocker stamp n row =
     (if n \<in> D \<and> ph_status row \<in> {PENDING, RUNNING, BLOCKED}
      then \<lparr>ph_status = BLOCKED, ph_blocked_by = sorted_set (blocker # ph_blocked_by row), ph_updated_at = stamp\<rparr>
      else row)"

lemma get_blocked_contain:
  "distinct (map fst ps) \<Longrightarrow>
   dict_get (blocked_rows b s run repo ps) (r, n, p) =
     map_option (contain (if r = run then {repo} else {}) b s n) (dict_get ps (r, n, p))"
  by (cases "dict_get ps (r, n, p)") (auto simp: get_blocked_rows contain_def)

lemma propagate_loop_spec:
  assumes "over_sqlite ws" and "dt_offset now = Some off" and "distinct (map fst (tb_phases db))" and "distinct ds"
  shows "\<exists>db' bs. propagate_loop ws ab now ds db acc = Inr (db', acc @ bs)
    \<and> db' = db\<lparr>tb_phases := tb_phases db'\<rparr> \<and> map fst (tb_phases db') = map fst (tb_phases db)
    \<and> set bs = {n \<in> set ds - {ab}. \<exists>p row. dict_get (tb_phases db) (ws_run_id ws, n, p) = Some row
                  \<and> ph_status row \<in> {PENDING, RUNNING, BLOCKED}}
    \<and> (\<forall>r n p. dict_get (tb_phases db') (r, n, p) =
         map_option (contain (if r = ws_run_id ws then set ds - {ab} else {}) ab (dt_reading now - off) n)
           (dict_get (tb_phases db) (r, n, p)))"
  using assms(3,4)
proof (induction ds arbitrary: db acc)
  case Nil
  then show ?case
    by (intro exI[of _ db] exI[of _ "[]"]) (simp add: contain_def option.map_ident cong: option.map_cong)
next
  case (Cons d ds)
  show ?case
  proof (cases "d = ab")
    case True
    then have "set (d # ds) - {ab} = set ds - {ab}" by auto
    moreover have "propagate_loop ws ab now (d # ds) db acc = propagate_loop ws ab now ds db acc"
      using True by simp
    ultimately show ?thesis
      using Cons.IH[OF Cons.prems(1), of acc] Cons.prems(2) by (simp only: distinct.simps simp_thms)
  next
    case False
    let ?ps = "tb_phases db"
    define db1 where "db1 = db\<lparr>tb_phases := blocked_rows ab (dt_reading now - off) (ws_run_id ws) d ?ps\<rparr>"
    define k where "k = length (filter (\<lambda>((r, n, p), row). r = ws_run_id ws \<and> n = d \<and> ph_status row \<in> {PENDING, RUNNING, BLOCKED}) ?ps)"
    have app: "append_blocked_by db (ws_run_id ws) d ab now = Inr (db1, k)"
      using assms(2) unfolding append_blocked_by_Inr_iff db1_def k_def by simp
    have k: "k \<noteq> 0 \<longleftrightarrow> (\<exists>p row. dict_get ?ps (ws_run_id ws, d, p) = Some row \<and> ph_status row \<in> {PENDING, RUNNING, BLOCKED})"
      unfolding k_def length_0_conv filter_empty_conv dict_get_mem[OF Cons.prems(1), symmetric] by auto
    have d1: "distinct (map fst (tb_phases db1))"
      using Cons.prems(1) by (simp add: db1_def)
    have get1: "dict_get (tb_phases db1) (r, n, p) =
        map_option (contain (if r = ws_run_id ws then {d} else {}) ab (dt_reading now - off) n) (dict_get ?ps (r, n, p))" for r n p
      using get_blocked_contain[OF Cons.prems(1)] by (simp add: db1_def)
    have step: "propagate_loop ws ab now (d # ds) db acc =
        propagate_loop ws ab now ds db1 (if k \<noteq> 0 then acc @ [d] else acc)"
      using False app assms(1) by (simp add: over_sqlite_def)
    obtain db' bs where IH: "propagate_loop ws ab now ds db1 (if k \<noteq> 0 then acc @ [d] else acc)
          = Inr (db', (if k \<noteq> 0 then acc @ [d] else acc) @ bs)"
      "db' = db1\<lparr>tb_phases := tb_phases db'\<rparr>" "map fst (tb_phases db') = map fst (tb_phases db1)"
      "set bs = {n \<in> set ds - {ab}. \<exists>p row. dict_get (tb_phases db1) (ws_run_id ws, n, p) = Some row
                  \<and> ph_status row \<in> {PENDING, RUNNING, BLOCKED}}"
      "\<And>r n p. dict_get (tb_phases db') (r, n, p) =
         map_option (contain (if r = ws_run_id ws then set ds - {ab} else {}) ab (dt_reading now - off) n)
           (dict_get (tb_phases db1) (r, n, p))"
      using Cons.IH[OF d1, of "if k \<noteq> 0 then acc @ [d] else acc"] Cons.prems(2) by auto
    have nd: "d \<notin> set ds" using Cons.prems(2) by simp
    have other: "dict_get (tb_phases db1) (ws_run_id ws, n, p) = dict_get ?ps (ws_run_id ws, n, p)" if "n \<in> set ds" for n p
      unfolding get1 using that nd by (cases "dict_get ?ps (ws_run_id ws, n, p)") (auto simp: contain_def)
    have set_bs: "set ((if k \<noteq> 0 then [d] else []) @ bs) = {n \<in> set (d # ds) - {ab}.
        \<exists>p row. dict_get ?ps (ws_run_id ws, n, p) = Some row \<and> ph_status row \<in> {PENDING, RUNNING, BLOCKED}}"
    proof -
      have "set bs = {n \<in> set ds - {ab}. \<exists>p row. dict_get ?ps (ws_run_id ws, n, p) = Some row
                  \<and> ph_status row \<in> {PENDING, RUNNING, BLOCKED}}"
        unfolding IH(4) using other by (auto 0 3)
      then show ?thesis
        using k False by (auto 0 3)
    qed
    have get: "dict_get (tb_phases db') (r, n, p) =
         map_option (contain (if r = ws_run_id ws then set (d # ds) - {ab} else {}) ab (dt_reading now - off) n)
           (dict_get ?ps (r, n, p))" for r n p
      unfolding IH(5) get1 option.map_comp using False nd
      by (intro option.map_cong) (auto simp: contain_def)
    show ?thesis
      unfolding step IH(1)
      using IH(2,3) set_bs get
      by (intro exI[of _ db'] exI[of _ "(if k \<noteq> 0 then [d] else []) @ bs"]) (auto simp: db1_def)
  qed
qed

lemma dict_eqI:
  assumes "map fst d = map fst e" and "distinct (map fst d)" and "\<And>k. dict_get d k = dict_get e k"
  shows "d = e"
  using assms
proof (induction d arbitrary: e)
  case (Cons x d)
  then obtain y e' where e: "e = y # e'" by (cases e) auto
  have fst: "fst x = fst y" and rest: "map fst d = map fst e'"
    using Cons.prems(1) by (auto simp: e)
  have "snd x = snd y"
    using Cons.prems(3)[of "fst x"] fst by (cases x; cases y) (simp add: e dict_get_Cons)
  moreover have "dict_get d k = dict_get e' k" for k
  proof (cases "k = fst x")
    case True
    with Cons.prems(2) rest fst show ?thesis
      by (metis dict_get_None_iff distinct.simps(2) list.set_map list.simps(9))
  next
    case False
    then show ?thesis
      using Cons.prems(3)[of k] fst by (cases x; cases y) (simp add: e dict_get_Cons)
  qed
  ultimately show ?case
    using Cons.IH[OF rest] Cons.prems(2) fst by (simp add: e prod_eq_iff)
qed simp

lemma touched_card:
  assumes "distinct (map fst ps)"
  shows "length (filter (\<lambda>((r, m, p), row). r = run \<and> m = n \<and> ph_status row \<in> S) ps)
    = card {key. \<exists>p row. key = (run, n, p) \<and> dict_get ps key = Some row \<and> ph_status row \<in> S}"
proof -
  have "fst ` {e \<in> set ps. (\<lambda>((r, m, p), row). r = run \<and> m = n \<and> ph_status row \<in> S) e}
      = {key. \<exists>p row. key = (run, n, p) \<and> dict_get ps key = Some row \<and> ph_status row \<in> S}"
    unfolding dict_get_mem[OF assms, symmetric] by force
  then show ?thesis
    using card_filter_keys[OF assms, of "\<lambda>((r, m, p), row). r = run \<and> m = n \<and> ph_status row \<in> S"]
    by (rule back_subst[of "\<lambda>x. _ = card x", rotated])
qed

lemma touched_again:
  assumes "distinct (map fst ps)"
  shows "length (filter (\<lambda>((r, m, p), row). r = run \<and> m = n \<and> ph_status row \<in> {PENDING, RUNNING, BLOCKED})
      (blocked_rows b s run n ps))
    = length (filter (\<lambda>((r, m, p), row). r = run \<and> m = n \<and> ph_status row \<in> {PENDING, RUNNING, BLOCKED}) ps)"
proof -
  have d: "distinct (map fst (blocked_rows b s run n ps))"
    using assms by simp
  have "(\<exists>row. dict_get (blocked_rows b s run n ps) (run, n, p) = Some row \<and> ph_status row \<in> {PENDING, RUNNING, BLOCKED})
      \<longleftrightarrow> (\<exists>row. dict_get ps (run, n, p) = Some row \<and> ph_status row \<in> {PENDING, RUNNING, BLOCKED})" for p
    unfolding get_blocked_contain[OF assms] by (cases "dict_get ps (run, n, p)") (auto simp: contain_def)
  then show ?thesis
    unfolding touched_card[OF assms] touched_card[OF d] by (intro arg_cong[of _ _ card]) blast
qed

text \<open>
  Blocking a repository is a set union. It touches exactly its PENDING, RUNNING and BLOCKED
  phases, adds the blocker to each and nothing to any other row; the order in which two blockers
  arrive does not matter, and writing the same blocker again changes nothing.
\<close>

theorem append_blocked_by_is_union:
  assumes "tables_ok db" and "append_blocked_by db run n b now = Inr (db1, k)"
    and "append_blocked_by db1 run n c now = Inr (db2, l)"
  shows "l = k
    \<and> (\<forall>r m p. map_option (set \<circ> ph_blocked_by) (dict_get (tb_phases db1) (r, m, p)) =
         map_option (\<lambda>row. if r = run \<and> m = n \<and> ph_status row \<in> {PENDING, RUNNING, BLOCKED}
                            then insert b (set (ph_blocked_by row)) else set (ph_blocked_by row))
           (dict_get (tb_phases db) (r, m, p)))
    \<and> (\<exists>db1'. append_blocked_by db run n c now = Inr (db1', k) \<and> append_blocked_by db1' run n b now = Inr (db2, k))
    \<and> (c = b \<longrightarrow> db2 = db1)"
proof -
  let ?ps = "tb_phases db"
  have d: "distinct (map fst ?ps)"
    using assms(1) by (rule tables_okD)
  obtain off where off: "dt_offset now = Some off"
    and db1: "db1 = db\<lparr>tb_phases := blocked_rows b (dt_reading now - off) run n ?ps\<rparr>"
    using assms(2) unfolding append_blocked_by_Inr_iff by blast
  let ?s = "dt_reading now - off"
  let ?C = "\<lambda>b. contain {n} b ?s n"
  have get: "dict_get (blocked_rows b ?s run n ps) (r, m, p) = map_option (contain (if r = run then {n} else {}) b ?s m) (dict_get ps (r, m, p))"
    if "distinct (map fst ps)" for b ps r m p
    by (rule get_blocked_contain[OF that])
  have d': "distinct (map fst (blocked_rows b ?s run n ?ps))" for b
    using d by simp
  have twice: "blocked_rows c ?s run n (blocked_rows b ?s run n ?ps) = blocked_rows b ?s run n (blocked_rows c ?s run n ?ps)" for b c
  proof (rule dict_eqI)
    show "dict_get (blocked_rows c ?s run n (blocked_rows b ?s run n ?ps)) key
        = dict_get (blocked_rows b ?s run n (blocked_rows c ?s run n ?ps)) key" for key
    proof -
      obtain r m p where key: "key = (r, m, p)" by (cases key) auto
      show ?thesis
        unfolding key get[OF d'] get[OF d]
        by (cases "dict_get ?ps (r, m, p)") (auto simp: contain_def intro: sorted_set_cong)
    qed
  qed (use d in simp_all)
  have again: "blocked_rows b ?s run n (blocked_rows b ?s run n ?ps) = blocked_rows b ?s run n ?ps" for b
  proof (rule dict_eqI)
    show "dict_get (blocked_rows b ?s run n (blocked_rows b ?s run n ?ps)) key
        = dict_get (blocked_rows b ?s run n ?ps) key" for key
    proof -
      obtain r m p where key: "key = (r, m, p)" by (cases key) auto
      show ?thesis
        unfolding key get[OF d'] get[OF d]
        by (cases "dict_get ?ps (r, m, p)") (auto simp: contain_def intro: sorted_set_cong)
    qed
  qed (use d in simp_all)
  have union: "map_option (set \<circ> ph_blocked_by) (dict_get (tb_phases db1) (r, m, p)) =
         map_option (\<lambda>row. if r = run \<and> m = n \<and> ph_status row \<in> {PENDING, RUNNING, BLOCKED}
                            then insert b (set (ph_blocked_by row)) else set (ph_blocked_by row))
           (dict_get ?ps (r, m, p))" for r m p
    by (cases "dict_get ?ps (r, m, p)") (auto simp: db1 get[OF d] contain_def)
  let ?n = "length (filter (\<lambda>((r, m, p), row). r = run \<and> m = n \<and> ph_status row \<in> {PENDING, RUNNING, BLOCKED}) ?ps)"
  have db2: "db2 = db\<lparr>tb_phases := blocked_rows c ?s run n (blocked_rows b ?s run n ?ps)\<rparr>" and "l = ?n" "k = ?n"
    using assms(2,3) off touched_again[OF d] unfolding append_blocked_by_Inr_iff by (auto simp: db1)
  moreover have "append_blocked_by db run n c now = Inr (db\<lparr>tb_phases := blocked_rows c ?s run n ?ps\<rparr>, ?n)"
    "append_blocked_by (db\<lparr>tb_phases := blocked_rows c ?s run n ?ps\<rparr>) run n b now = Inr (db2, ?n)"
    unfolding append_blocked_by_Inr_iff db2 using off touched_again[OF d] by (auto simp: twice[of b c])
  ultimately show ?thesis
    using union again by (auto simp: db1)
qed

text \<open>
  C26: An abandoned repository blocks exactly its transitive dependents. With an aware clock the
  propagation always returns; every phase of a dependent that may still be blocked becomes BLOCKED
  with the abandoned repository among its blockers, every other row of every run is as it was, and
  the repositories reported are those with such a phase.
\<close>

theorem propagate_blocked_exact:
  assumes "over_sqlite ws" and "tables_ok db" and "dt_offset now = Some off"
    and "ws_descendants ws = ordering_descendants edges"
  shows "\<exists>db' blocked. propagate_blocked ws db ab now = Inr (db', blocked)
    \<and> db' = db\<lparr>tb_phases := tb_phases db'\<rparr>
    \<and> set blocked = {n \<in> {d. (ab, d) \<in> (set edges)\<^sup>+} - {ab}.
         \<exists>p row. dict_get (tb_phases db) (ws_run_id ws, n, p) = Some row \<and> ph_status row \<in> {PENDING, RUNNING, BLOCKED}}
    \<and> (\<forall>r n p. dict_get (tb_phases db') (r, n, p) =
         map_option (contain (if r = ws_run_id ws then {d. (ab, d) \<in> (set edges)\<^sup>+} - {ab} else {})
           ab (dt_reading now - off) n) (dict_get (tb_phases db) (r, n, p)))"
proof -
  have D: "set (sorted_set (ws_descendants ws ab)) = {d. (ab, d) \<in> (set edges)\<^sup>+}"
    by (simp add: assms(4) set_ordering_descendants)
  show ?thesis
    using propagate_loop_spec[OF assms(1,3) tables_okD(3)[OF assms(2)] distinct_sorted_set,
        of ab "ws_descendants ws ab" "[]"]
    unfolding propagate_blocked_def append_Nil D by (elim exE conjE) (intro exI conjI, assumption+)
qed

text \<open>
  Un-blocked repositories move into one new synthetic wave above every wave of the run. No
  existing wave row changes, so no closed wave is re-budgeted or restarted; the named repositories
  leave their old waves, no other member moves and phases are untouched. Nothing is appended for no
  repository, and a repository that was never planned is refused with nothing written.
\<close>

theorem append_unblocked_wave_moves:
  assumes "tables_ok db" and "dt_offset now = Some off" and "0 \<le> usd"
  shows "(if repos = [] then append_unblocked_wave db run repos now usd = Inr (db, None)
     else if \<exists>n \<in> set repos. dict_get (tb_members db) (run, ''REPO'', n) = None
     then append_unblocked_wave db run repos now usd =
            Inl (UnplannedRepos run (filter (\<lambda>n. dict_get (tb_members db) (run, ''REPO'', n) = None) (sorted_set repos)))
     else \<exists>db' w. append_unblocked_wave db run repos now usd = Inr (db', Some w)
       \<and> list_all (\<lambda>i. i < w) (wave_indices db run)
       \<and> (\<forall>k. dict_get (tb_waves db') k =
            (if k = (run, w) then Some \<lparr>wv_computed_at = dt_reading now - off, wv_started_at = None, wv_synthetic = True,
                                        wv_max_usd = usd * of_nat (card (set repos))\<rparr>
             else dict_get (tb_waves db) k))
       \<and> set (wave_members db' run w) = set repos
       \<and> (\<forall>i. i \<noteq> w \<longrightarrow> set (wave_members db' run i) = set (wave_members db run i) - set repos)
       \<and> tb_phases db' = tb_phases db)"
proof -
  let ?w = "next_wave_index db run"
  have planned: "run \<in> set (tb_runs db)" if n: "n \<in> set repos" "dict_get (tb_members db) (run, ''REPO'', n) \<noteq> None" for n
  proof -
    obtain i where "dict_get (tb_members db) (run, ''REPO'', n) = Some i"
      using n(2) by (auto simp only: not_None_eq)
    then have "(run, i) \<in> fst ` set (tb_waves db)" by (rule tables_okD(5)[OF assms(1)])
    then obtain row where "dict_get (tb_waves db) (run, i) = Some row"
      using dict_get_None_iff by (metis option.exhaust)
    then show ?thesis using tables_okD(4)[OF assms(1)] by blast
  qed
  have unplanned: "append_unblocked_wave db run repos now usd =
      Inl (UnplannedRepos run (filter (\<lambda>n. dict_get (tb_members db) (run, ''REPO'', n) = None) (sorted_set repos)))"
    if "\<exists>n \<in> set repos. dict_get (tb_members db) (run, ''REPO'', n) = None"
  proof -
    have "set (map (\<lambda>(r, k, n). n) (filter (\<lambda>(r, k, n). r = run \<and> k = ''REPO'' \<and> n \<in> set (sorted_set repos)) (map fst (tb_members db))))
        = {n \<in> set repos. dict_get (tb_members db) (run, ''REPO'', n) \<noteq> None}"
      by (force simp: dict_get_None_iff)
    then have "filter (\<lambda>n. n \<notin> set (map (\<lambda>(r, k, n). n) (filter (\<lambda>(r, k, n). r = run \<and> k = ''REPO'' \<and> n \<in> set (sorted_set repos)) (map fst (tb_members db))))) (sorted_set repos)
        = filter (\<lambda>n. dict_get (tb_members db) (run, ''REPO'', n) = None) (sorted_set repos)"
      by (intro filter_cong) auto
    moreover have "filter (\<lambda>n. dict_get (tb_members db) (run, ''REPO'', n) = None) (sorted_set repos) \<noteq> []" "repos \<noteq> []"
      using that by (auto simp: filter_empty_conv)
    ultimately show ?thesis
      unfolding append_unblocked_wave_def Let_def using assms(2) by (simp only: iso_def option.case rbind_simps sorted_set_Nil_iff if_False if_True simp_thms)
  qed
  show ?thesis
  proof (cases "repos = [] \<or> (\<exists>n \<in> set repos. dict_get (tb_members db) (run, ''REPO'', n) = None)")
    case True
    then show ?thesis
      using unplanned assms(2) by (cases "repos = []") (auto simp: append_unblocked_wave_Inr_iff)
  next
    case False
    then have ne: "repos \<noteq> []" and all: "\<forall>n \<in> set repos. dict_get (tb_members db) (run, ''REPO'', n) \<noteq> None"
      by auto
    define db' where "db' = db\<lparr>tb_waves := dict_set (tb_waves db) (run, ?w)
                       \<lparr>wv_computed_at = dt_reading now - off, wv_started_at = None, wv_synthetic = True,
                        wv_max_usd = usd * of_nat (card (set repos))\<rparr>,
                     tb_members := moved run (set repos) ?w (tb_members db)\<rparr>"
    have run: "run \<in> set (tb_runs db)"
      using planned ne all by (cases repos) auto
    have app: "append_unblocked_wave db run repos now usd = Inr (db', Some ?w)"
      unfolding append_unblocked_wave_Inr_iff db'_def using ne all run assms(2,3) by simp
    note ok' = append_unblocked_wave_ok[OF assms(1) app]
    have mem: "n \<in> set (wave_members db' run i) \<longleftrightarrow>
        (if n \<in> set repos then i = ?w else n \<in> set (wave_members db run i))" for n i
      using all unfolding set_wave_members_get[OF ok'] set_wave_members_get[OF assms(1)]
      by (auto simp: db'_def get_moved)
    have old: "wave_members db run ?w = []"
      using sqlite.members_indexed[OF assms(1), of run ?w] next_wave_index_above[of ?w db run] by auto
    have "\<not> (\<exists>n \<in> set repos. dict_get (tb_members db) (run, ''REPO'', n) = None)"
      using all by blast
    note branch = if_not_P[OF ne] if_not_P[OF this]
    have "set (wave_members db' run ?w) = set repos"
      unfolding set_eq_iff mem old by simp
    moreover have "set (wave_members db' run i) = set (wave_members db run i) - set repos" if "i \<noteq> ?w" for i
      unfolding set_eq_iff mem using that by simp
    moreover have "list_all (\<lambda>i. i < ?w) (wave_indices db run)"
      using next_wave_index_above by (simp add: list_all_iff)
    ultimately show ?thesis
      unfolding branch using app
      by (intro exI[of _ db'] exI[of _ ?w]) (simp add: db'_def)
  qed
qed

section \<open>An instance\<close>

text \<open>A run with two planned waves: \<open>lib\<close> has landed, \<open>app\<close> depends on it and waits.\<close>

definition sample_tables :: "repo_status \<Rightarrow> tables" where
  "sample_tables lib =
     \<lparr>tb_runs = [''run''],
      tb_waves = [((''run'', 0), \<lparr>wv_computed_at = 0, wv_started_at = Some 0, wv_synthetic = False, wv_max_usd = 8\<rparr>),
                  ((''run'', 1), \<lparr>wv_computed_at = 0, wv_started_at = None, wv_synthetic = False, wv_max_usd = 8\<rparr>)],
      tb_members = [((''run'', ''REPO'', ''lib''), 0), ((''run'', ''REPO'', ''app''), 1)],
      tb_radii = [(''lib'', 1), (''app'', 0)],
      tb_phases = [((''run'', ''lib'', SCAN), \<lparr>ph_status = lib, ph_blocked_by = [], ph_updated_at = 0\<rparr>),
                   ((''run'', ''app'', SCAN), \<lparr>ph_status = PENDING, ph_blocked_by = [], ph_updated_at = 0\<rparr>)]\<rparr>"

definition sample_scheduler :: "tables wave_scheduler" where
  "sample_scheduler =
     \<lparr>ws_run_id = ''run'', ws_phase = SCAN, ws_store = sqlite_store, ws_get_phase = get_phase,
      ws_max_wallclock_s = 5, ws_descendants = ordering_descendants [(''lib'', ''app'')]\<rparr>"

lemma sample_ok: "tables_ok (sample_tables st)" "over_sqlite sample_scheduler"
  by (simp_all add: tables_ok_def sample_tables_def over_sqlite_def sample_scheduler_def)

theorem wave_clock_is_cumulative_witness:
  "breached sample_scheduler (replay (store_put sqlite_store) (sample_tables PENDING)
      [BeginWave ''run'' 0 (utc 7000000)]) 0 (utc 8000000) = Inr True"
proof -
  have "breached sample_scheduler (sample_tables PENDING) 0 (utc 6000000) = Inr True"
    by code_simp
  from wave_clock_is_cumulative[OF sample_ok this, of 0 "utc 8000000" 0 "[BeginWave ''run'' 0 (utc 7000000)]"]
  show ?thesis by simp
qed

theorem open_wave_exactly_when_ready_witness:
  "\<exists>db'. open_wave sample_scheduler (sample_tables SUCCEEDED) 1 (utc 1) (utc 2) = Inr (db', utc 2)"
  unfolding open_wave_exactly_when_ready[OF sample_ok(2)]
  by (auto simp: sample_scheduler_def sample_tables_def wave_members_def wave_indices_def status_of_def get_phase_def
      dict_get_def coalesce_def SETTLED_STATUSES_def TERMINAL_STATUSES_def split: if_splits)

theorem admit_partitions_wave_witness:
  "\<exists>db' a. admit sample_scheduler (sample_tables SUCCEEDED) 1 (utc 1) (utc 2) (utc 3) (utc 4) = Inr (db', a)
     \<and> set (ad_admitted a @ ad_withheld a) = {''app''}"
proof -
  have "map_sum id (\<lambda>_. ()) (admit sample_scheduler (sample_tables SUCCEEDED) 1 (utc 1) (utc 2) (utc 3) (utc 4)) = Inr ()"
    by code_simp
  then obtain db' a where a: "admit sample_scheduler (sample_tables SUCCEEDED) 1 (utc 1) (utc 2) (utc 3) (utc 4) = Inr (db', a)"
    by (cases "admit sample_scheduler (sample_tables SUCCEEDED) 1 (utc 1) (utc 2) (utc 3) (utc 4)") auto
  have "set (ad_admitted a @ ad_withheld a) = {''app''}"
    using admit_partitions_wave[OF sample_ok a]
    by (auto simp: sample_scheduler_def sample_tables_def wave_members_def status_of_def get_phase_def dict_get_def)
  with a show ?thesis by blast
qed

theorem append_blocked_by_is_union_witness:
  "\<exists>db1. append_blocked_by (sample_tables REQUIRES_HUMAN_INTERVENTION) ''run'' ''app'' ''lib'' (utc 1) = Inr (db1, 1)
     \<and> append_blocked_by db1 ''run'' ''app'' ''lib'' (utc 1) = Inr (db1, 1)"
proof -
  let ?db = "sample_tables REQUIRES_HUMAN_INTERVENTION"
  obtain db1 where 1: "append_blocked_by ?db ''run'' ''app'' ''lib'' (utc 1) = Inr (db1, 1)"
    by (simp add: append_blocked_by_Inr_iff) (simp add: sample_tables_def)
  obtain db2 k where 2: "append_blocked_by db1 ''run'' ''app'' ''lib'' (utc 1) = Inr (db2, k)"
    by (simp add: append_blocked_by_Inr_iff)
  from append_blocked_by_is_union[OF sample_ok(1) 1 2] 1 2 show ?thesis by auto
qed

theorem propagate_blocked_exact_witness:
  "\<exists>db' blocked. propagate_blocked sample_scheduler (sample_tables REQUIRES_HUMAN_INTERVENTION) ''lib'' (utc 1) = Inr (db', blocked)
     \<and> set blocked = {''app''} \<and> get_phase db' ''run'' ''app'' SCAN = Some BLOCKED"
proof -
  have tr: "{d. (''lib'', d) \<in> (set [(''lib'', ''app'')])\<^sup>+} = {''app''}"
    by (auto elim: tranclE dest: tranclD)
  have ds: "ws_descendants sample_scheduler = ordering_descendants [(''lib'', ''app'')]" and o: "dt_offset (utc 1) = Some 0"
    by (simp_all add: sample_scheduler_def)
  obtain db' blocked where p: "propagate_blocked sample_scheduler (sample_tables REQUIRES_HUMAN_INTERVENTION) ''lib'' (utc 1) = Inr (db', blocked)"
    "set blocked = {n \<in> {''app''} - {''lib''}.
         \<exists>p row. dict_get (tb_phases (sample_tables REQUIRES_HUMAN_INTERVENTION)) (''run'', n, p) = Some row
           \<and> ph_status row \<in> {PENDING, RUNNING, BLOCKED}}"
    "dict_get (tb_phases db') (''run'', ''app'', SCAN) = map_option (contain ({''app''} - {''lib''}) ''lib'' 1 ''app'')
       (dict_get (tb_phases (sample_tables REQUIRES_HUMAN_INTERVENTION)) (''run'', ''app'', SCAN))"
    using propagate_blocked_exact[OF sample_ok(2) sample_ok(1)[of REQUIRES_HUMAN_INTERVENTION] o ds, of "''lib''"] unfolding tr
    by (auto simp: sample_scheduler_def)
  have "set blocked = {''app''}" "get_phase db' ''run'' ''app'' SCAN = Some BLOCKED"
    unfolding p(2) get_phase_def p(3) by (auto simp: sample_tables_def dict_get_def contain_def)
  with p(1) show ?thesis by blast
qed

theorem append_unblocked_wave_moves_witness:
  "\<exists>db'. append_unblocked_wave (sample_tables SUCCEEDED) ''run'' [''app''] (utc 1) 8 = Inr (db', Some 2)
     \<and> set (wave_members db' ''run'' 2) = {''app''}"
proof -
  have o: "dt_offset (utc 1) = Some 0" "0 \<le> (8 :: rat)" by simp_all
  have "map_sum id snd (append_unblocked_wave (sample_tables SUCCEEDED) ''run'' [''app''] (utc 1) 8) = Inr (Some 2)"
    by code_simp
  then obtain db' where a: "append_unblocked_wave (sample_tables SUCCEEDED) ''run'' [''app''] (utc 1) 8 = Inr (db', Some 2)"
    by (cases "append_unblocked_wave (sample_tables SUCCEEDED) ''run'' [''app''] (utc 1) 8") auto
  have "set (wave_members db' ''run'' 2) = {''app''}"
    using append_unblocked_wave_moves[OF sample_ok(1)[of SUCCEEDED] o, of "[''app'']" "''run''"] a
    by (auto simp: sample_tables_def dict_get_def split: if_splits)
  with a show ?thesis by blast
qed

end
