(* ===== verification/Dfs.thy ===== *)
theory Dfs
  imports Digraph
begin

text \<open>
  \<open>classify_intra_scc_edges\<close> of \<open>src/fleet/graph/cycles.py\<close>: the iterative depth-first search that
  classifies the arcs inside a component. The explicit stack of iterators is the list of nodes with
  their remaining children, top first. The theorem says that the BACK arcs are a feedback set and
  that each of them closes a cycle.
\<close>

section \<open>The search\<close>

datatype edge_class = TREE | FORWARD | CROSS | BACK

record 'n dfs =
  df_classes :: "('n \<times> 'n, edge_class) dict"
  df_disc :: "('n, int) dict"
  df_gray :: "'n list"
  df_clock :: int

definition children :: "('n::linorder, 'a) digraph \<Rightarrow> 'n list \<Rightarrow> 'n \<Rightarrow> 'n list" where
  "children dag inside n = sort (filter (\<lambda>v. v \<in> set inside) (successors dag n))"

definition discover :: "'n \<Rightarrow> 'n dfs \<Rightarrow> 'n dfs" where
  "discover n st = st\<lparr>df_clock := df_clock st + 1, df_disc := dict_set (df_disc st) n (df_clock st + 1),
                       df_gray := n # df_gray st\<rparr>"

definition label :: "'n \<Rightarrow> 'n \<Rightarrow> edge_class \<Rightarrow> 'n dfs \<Rightarrow> 'n dfs" where
  "label u v c st = st\<lparr>df_classes := dict_set (df_classes st) (u, v) c\<rparr>"

definition disc_of :: "'n dfs \<Rightarrow> 'n \<Rightarrow> int" where
  "disc_of st n = (case dict_get (df_disc st) n of None \<Rightarrow> 0 | Some i \<Rightarrow> i)"

definition pending :: "'n list \<Rightarrow> ('n \<times> 'n list) list \<Rightarrow> 'n dfs \<Rightarrow> 'n set" where
  "pending inside stack st = (set inside \<union> (\<Union>(n, it) \<in> set stack. set it)) - fst ` set (df_disc st)"

lemma discover_simps [simp]:
  "df_classes (discover n st) = df_classes st" "df_gray (discover n st) = n # df_gray st"
  "df_disc (discover n st) = dict_set (df_disc st) n (df_clock st + 1)"
  by (simp_all add: discover_def)

lemma label_simps [simp]:
  "df_classes (label u v c st) = dict_set (df_classes st) (u, v) c" "df_gray (label u v c st) = df_gray st"
  "df_disc (label u v c st) = df_disc st" "df_clock (label u v c st) = df_clock st"
  by (simp_all add: label_def)

lemma set_children [simp]: "set (children dag inside n) = {v \<in> set inside. (n, v) \<in> arc_set dag}"
  by (auto simp: children_def successors_def arc_set_def image_iff)

function dfs_loop ::
  "('n::linorder, 'a) digraph \<Rightarrow> 'n list \<Rightarrow> ('n \<times> 'n list) list \<Rightarrow> 'n dfs \<Rightarrow> 'n dfs" where
  "dfs_loop dag inside [] st = st"
| "dfs_loop dag inside ((n, []) # stack) st =
     dfs_loop dag inside stack (st\<lparr>df_gray := filter (\<lambda>m. m \<noteq> n) (df_gray st)\<rparr>)"
| "dfs_loop dag inside ((n, c # it) # stack) st =
     (if dict_get (df_disc st) c = None
      then dfs_loop dag inside ((c, children dag inside c) # (n, it) # stack)
             (discover c (label n c TREE st))
      else dfs_loop dag inside ((n, it) # stack)
             (label n c (if c \<in> set (df_gray st) then BACK
                         else if disc_of st c > disc_of st n then FORWARD else CROSS) st))"
  by pat_completeness auto
termination
proof (relation "measures [\<lambda>(dag, inside, stack, st). card (pending inside stack st),
                           \<lambda>(dag, inside, stack, st). length stack + length (concat (map snd stack))]", goal_cases)
  case (2 dag inside n stack st)
  then show ?case by (simp add: pending_def)
next
  case (3 dag inside n c it stack st)
  have "pending inside ((c, children dag inside c) # (n, it) # stack) (discover c (label n c TREE st))
      \<subset> pending inside ((n, c # it) # stack) st"
    using 3 by (auto simp: pending_def dict_get_None_iff)
  then have "card (pending inside ((c, children dag inside c) # (n, it) # stack) (discover c (label n c TREE st)))
      < card (pending inside ((n, c # it) # stack) st)"
    by (intro psubset_card_mono) (auto simp: pending_def)
  then show ?case by simp
next
  case (4 dag inside n c it stack st)
  have "c \<in> fst ` set (df_disc st)"
    using 4 by (simp add: dict_get_None_iff)
  then have "pending inside ((n, it) # stack) (label n c k st) = pending inside ((n, c # it) # stack) st" for k
    by (auto simp: pending_def)
  then show ?case by simp
qed simp

fun dfs_roots :: "('n::linorder, 'a) digraph \<Rightarrow> 'n list \<Rightarrow> 'n list \<Rightarrow> 'n dfs \<Rightarrow> 'n dfs" where
  "dfs_roots dag inside [] st = st"
| "dfs_roots dag inside (r # roots) st =
     dfs_roots dag inside roots
       (if dict_get (df_disc st) r \<noteq> None then st
        else dfs_loop dag inside [(r, children dag inside r)] (discover r st))"

definition classify_intra_scc_edges ::
  "('n::linorder, 'a) digraph \<Rightarrow> 'n list \<Rightarrow> ('n \<times> 'n, edge_class) dict" where
  "classify_intra_scc_edges dag members =
     df_classes (dfs_roots dag (sorted_set members) (sorted_set members)
       \<lparr>df_classes = [], df_disc = [], df_gray = [], df_clock = 0\<rparr>)"

section \<open>The BACK arcs are a feedback set\<close>

text \<open>
  The nodes in the order in which the search leaves them: those it has left, then the stack from its
  top. A node is inserted between the two when it is discovered and the order of the others never
  changes, so every arc that is not BACK points to an earlier node.
\<close>

definition before :: "'n list \<Rightarrow> 'n \<Rightarrow> 'n \<Rightarrow> bool" where
  "before L v u \<longleftrightarrow> (\<exists>xs ys. L = xs @ v # ys \<and> u \<in> set ys)"

lemma before_insert: "before (A @ B) v u \<Longrightarrow> before (A @ c # B) v u"
proof -
  assume "before (A @ B) v u"
  then obtain xs ys where "A @ B = xs @ v # ys" and u: "u \<in> set ys"
    by (auto simp: before_def)
  then consider zs where "A = xs @ v # zs" "ys = zs @ B" | zs where "xs = A @ zs" "B = zs @ v # ys"
    by (auto simp: append_eq_append_conv2 append_eq_Cons_conv)
  then show ?thesis
  proof cases
    case 1
    then show ?thesis using u unfolding before_def by (intro exI[of _ xs] exI[of _ "zs @ c # B"]) auto
  next
    case 2
    then show ?thesis using u unfolding before_def by (intro exI[of _ "A @ c # zs"] exI[of _ ys]) auto
  qed
qed

lemma before_mem: "v \<in> set A \<Longrightarrow> u \<in> set B \<Longrightarrow> before (A @ B) v u"
proof -
  assume "v \<in> set A" "u \<in> set B"
  then obtain xs ys where "A = xs @ v # ys" by (meson split_list)
  with \<open>u \<in> set B\<close> show ?thesis
    unfolding before_def by (intro exI[of _ xs] exI[of _ "ys @ B"]) auto
qed

lemma before_head: "u \<in> set B \<Longrightarrow> before (A @ c # B) c u"
  using before_mem[of c "A @ [c]" u B] by simp

lemma acyclic_before: "distinct L \<Longrightarrow> (\<And>u v. (u, v) \<in> R \<Longrightarrow> before L v u) \<Longrightarrow> acyclic R"
proof -
  assume d: "distinct L" and R: "\<And>u v. (u, v) \<in> R \<Longrightarrow> before L v u"
  have less: "\<exists>i j. i < j \<and> j < length L \<and> L ! i = v \<and> L ! j = u" if uv: "(u, v) \<in> R" for u v
  proof -
    from R[OF uv] obtain xs ys where L: "L = xs @ v # ys" "u \<in> set ys"
      by (auto simp: before_def)
    then obtain k where "k < length ys" "ys ! k = u"
      by (auto simp: in_set_conv_nth)
    then show ?thesis
      by (intro exI[of _ "length xs"] exI[of _ "length xs + Suc k"]) (simp add: L(1) nth_append)
  qed
  define pos where "pos x = (THE i. i < length L \<and> L ! i = x)" for x
  have pos: "pos (L ! i) = i" if "i < length L" for i
    unfolding pos_def using d that by (auto simp: nth_eq_iff_index_eq)
  have "R \<subseteq> (measure pos)\<inverse>"
  proof
    fix e assume "e \<in> R"
    then obtain u v where e: "e = (u, v)" "(u, v) \<in> R" by (cases e) auto
    from less[OF e(2)] obtain i j where "i < j" "j < length L" "L ! i = v" "L ! j = u" by blast
    with pos[of i] pos[of j] show "e \<in> (measure pos)\<inverse>" by (auto simp: e(1))
  qed
  moreover have "acyclic ((measure pos)\<inverse>)"
    by (simp add: wf_acyclic)
  ultimately show ?thesis
    using acyclic_subset by blast
qed

definition inner :: "('n::linorder, 'a) digraph \<Rightarrow> 'n list \<Rightarrow> ('n \<times> 'n) set" where
  "inner dag inside = {(u, v) \<in> arc_set dag. u \<in> set inside \<and> v \<in> set inside}"

text \<open>The stack is a path of the component, each node a child of the one below it.\<close>

fun chain :: "('n \<times> 'n) set \<Rightarrow> ('n \<times> 'n list) list \<Rightarrow> bool" where
  "chain R ((c, it) # (n, it') # stack) \<longleftrightarrow> (n, c) \<in> R \<and> chain R ((n, it') # stack)"
| "chain R stack \<longleftrightarrow> True"

lemma chain_iterators [simp]: "chain R ((n, it) # stack) \<longleftrightarrow> chain R ((n, it') # stack)"
  by (cases stack) auto

lemma chain_tl: "chain R (x # stack) \<Longrightarrow> chain R stack"
  by (cases stack; cases x) auto

lemma chain_reaches: "chain R ((c, it) # stack) \<Longrightarrow> n \<in> fst ` set ((c, it) # stack) \<Longrightarrow> (n, c) \<in> R\<^sup>*"
proof (induction stack arbitrary: c it)
  case (Cons x stack)
  obtain m it' where x: "x = (m, it')" by fastforce
  show ?case
  proof (cases "n = c")
    case False
    then have "(n, m) \<in> R\<^sup>*"
      using Cons.IH[of m it'] Cons.prems by (auto simp: x)
    then show ?thesis
      using Cons.prems(1) by (auto simp: x intro: rtrancl_into_rtrancl)
  qed simp
qed simp

definition dfs_inv ::
  "('n::linorder, 'a) digraph \<Rightarrow> 'n list \<Rightarrow> ('n \<times> 'n list) list \<Rightarrow> 'n list \<Rightarrow> 'n dfs \<Rightarrow> bool" where
  "dfs_inv dag inside stack F st \<longleftrightarrow>
     distinct (F @ map fst stack) \<and> set (F @ map fst stack) = fst ` set (df_disc st)
     \<and> set (df_gray st) = fst ` set stack \<and> fst ` set (df_disc st) \<subseteq> set inside
     \<and> chain (inner dag inside) stack
     \<and> (\<forall>n it. (n, it) \<in> set stack \<longrightarrow> set it \<subseteq> set (children dag inside n)
          \<and> (\<forall>v \<in> set (children dag inside n). v \<in> set it \<or> dict_get (df_classes st) (n, v) \<noteq> None))
     \<and> (\<forall>u \<in> set F. \<forall>v \<in> set (children dag inside u). dict_get (df_classes st) (u, v) \<noteq> None)
     \<and> (\<forall>u v c. dict_get (df_classes st) (u, v) = Some c \<longrightarrow>
          (u, v) \<in> inner dag inside
          \<and> (if c = BACK then (v, u) \<in> (inner dag inside)\<^sup>* else before (F @ map fst stack) v u))"

lemma dfs_invD:
  assumes "dfs_inv dag inside stack F st"
  shows "distinct (F @ map fst stack)" "set (F @ map fst stack) = fst ` set (df_disc st)"
    "set (df_gray st) = fst ` set stack" "fst ` set (df_disc st) \<subseteq> set inside"
    "chain (inner dag inside) stack"
    "\<And>n it. (n, it) \<in> set stack \<Longrightarrow> set it \<subseteq> set (children dag inside n)"
    "\<And>n it v. (n, it) \<in> set stack \<Longrightarrow> v \<in> set (children dag inside n) \<Longrightarrow> v \<in> set it \<or> dict_get (df_classes st) (n, v) \<noteq> None"
    "\<And>u v. u \<in> set F \<Longrightarrow> v \<in> set (children dag inside u) \<Longrightarrow> dict_get (df_classes st) (u, v) \<noteq> None"
    "\<And>u v c. dict_get (df_classes st) (u, v) = Some c \<Longrightarrow> (u, v) \<in> inner dag inside"
    "\<And>u v. dict_get (df_classes st) (u, v) = Some BACK \<Longrightarrow> (v, u) \<in> (inner dag inside)\<^sup>*"
    "\<And>u v c. dict_get (df_classes st) (u, v) = Some c \<Longrightarrow> c \<noteq> BACK \<Longrightarrow> before (F @ map fst stack) v u"
  using assms unfolding dfs_inv_def by (blast, blast, blast, blast, blast, blast, blast, blast, blast, metis, metis)

lemma dfs_invI:
  assumes "distinct (F @ map fst stack)" "set (F @ map fst stack) = fst ` set (df_disc st)"
    "set (df_gray st) = fst ` set stack" "fst ` set (df_disc st) \<subseteq> set inside"
    "chain (inner dag inside) stack"
    "\<And>n it. (n, it) \<in> set stack \<Longrightarrow> set it \<subseteq> set (children dag inside n)"
    "\<And>n it v. (n, it) \<in> set stack \<Longrightarrow> v \<in> set (children dag inside n) \<Longrightarrow> v \<in> set it \<or> dict_get (df_classes st) (n, v) \<noteq> None"
    "\<And>u v. u \<in> set F \<Longrightarrow> v \<in> set (children dag inside u) \<Longrightarrow> dict_get (df_classes st) (u, v) \<noteq> None"
    "\<And>u v c. dict_get (df_classes st) (u, v) = Some c \<Longrightarrow> (u, v) \<in> inner dag inside"
    "\<And>u v. dict_get (df_classes st) (u, v) = Some BACK \<Longrightarrow> (v, u) \<in> (inner dag inside)\<^sup>*"
    "\<And>u v c. dict_get (df_classes st) (u, v) = Some c \<Longrightarrow> c \<noteq> BACK \<Longrightarrow> before (F @ map fst stack) v u"
  shows "dfs_inv dag inside stack F st"
  unfolding dfs_inv_def using assms by (intro conjI allI ballI impI) (assumption | simp | blast)+

lemma dfs_inv_pop:
  assumes "dfs_inv dag inside ((n, []) # stack) F st"
  shows "dfs_inv dag inside stack (F @ [n]) (st\<lparr>df_gray := filter (\<lambda>m. m \<noteq> n) (df_gray st)\<rparr>)"
proof -
  note d = dfs_invD[OF assms]
  have "n \<notin> fst ` set stack"
    using d(1) by auto
  then show ?thesis
    using d(1-4) chain_tl[OF d(5)] d(6)[of _ _] d(7)[of n "[]"] d(7) d(8) d(9-11)
    by (intro dfs_invI) auto
qed

lemma dfs_inv_push:
  assumes "dfs_inv dag inside ((n, c # it) # stack) F st" and "dict_get (df_disc st) c = None"
  shows "dfs_inv dag inside ((c, children dag inside c) # (n, it) # stack) F (discover c (label n c TREE st))"
proof -
  note d = dfs_invD[OF assms(1)]
  have c: "c \<in> set (children dag inside n)"
    using d(6)[of n "c # it"] by simp
  have n: "n \<in> set inside"
    using d(2,4) by auto
  have nc: "(n, c) \<in> inner dag inside"
    using c n by (auto simp: inner_def)
  have new: "c \<notin> set (F @ map fst ((n, c # it) # stack))"
    using assms(2) unfolding d(2) dict_get_None_iff .
  have it: "set it \<subseteq> set (children dag inside n)"
    using d(6)[of n "c # it"] by simp
  have top: "v = c \<or> v \<in> set it \<or> dict_get (df_classes st) (n, v) \<noteq> None" if "v \<in> set (children dag inside n)" for v
    using d(7)[of n "c # it" v] that by auto
  have rest: "\<And>m j. (m, j) \<in> set stack \<Longrightarrow> set j \<subseteq> set (children dag inside m)"
    "\<And>m j v. (m, j) \<in> set stack \<Longrightarrow> v \<in> set (children dag inside m) \<Longrightarrow> v \<in> set j \<or> dict_get (df_classes st) (m, v) \<noteq> None"
    using d(6,7) by (simp_all del: set_children)
  show ?thesis
  proof (rule dfs_invI)
    show "set j \<subseteq> set (children dag inside m)" if "(m, j) \<in> set ((c, children dag inside c) # (n, it) # stack)" for m j
      using that it rest(1) by (auto simp del: set_children)
    show "v \<in> set j \<or> dict_get (df_classes (discover c (label n c TREE st))) (m, v) \<noteq> None"
      if "(m, j) \<in> set ((c, children dag inside c) # (n, it) # stack)" "v \<in> set (children dag inside m)" for m j v
      using that top rest(2) by (auto simp del: set_children)
    show "chain (inner dag inside) ((c, children dag inside c) # (n, it) # stack)"
      using d(5) nc by (auto simp: chain_iterators[of _ n it stack "c # it"])
    show "before (F @ map fst ((c, children dag inside c) # (n, it) # stack)) v u"
      if "dict_get (df_classes (discover c (label n c TREE st))) (u, v) = Some k" "k \<noteq> BACK" for u v k
    proof (cases "(u, v) = (n, c)")
      case True
      then show ?thesis by (auto intro: before_head)
    next
      case False
      then have "before (F @ map fst ((n, c # it) # stack)) v u"
        using that d(11) by auto
      then show ?thesis by (auto intro: before_insert)
    qed
  qed (use d(1-4) d(8-10) new c nc n in \<open>auto split: if_splits\<close>)
qed

lemma dfs_inv_label:
  assumes "dfs_inv dag inside ((n, c # it) # stack) F st" and "dict_get (df_disc st) c \<noteq> None"
    and "k = BACK \<longleftrightarrow> c \<in> set (df_gray st)"
  shows "dfs_inv dag inside ((n, it) # stack) F (label n c k st)"
proof -
  note d = dfs_invD[OF assms(1)]
  have c: "c \<in> set (children dag inside n)"
    using d(6)[of n "c # it"] by simp
  have n: "n \<in> set inside"
    using d(2,4) by auto
  have nc: "(n, c) \<in> inner dag inside"
    using c n by (auto simp: inner_def)
  have closes: "(c, n) \<in> (inner dag inside)\<^sup>*" if "k = BACK"
    using chain_reaches[OF d(5), of c] that assms(3) d(3) by auto
  have fwd: "before (F @ map fst ((n, it) # stack)) c n" if "k \<noteq> BACK"
  proof -
    have "c \<in> set (F @ map fst ((n, c # it) # stack))" "c \<notin> fst ` set ((n, c # it) # stack)"
      using assms(2) that assms(3) d(2,3) by (auto simp: dict_get_None_iff)
    then have "c \<in> set F" by auto
    then show ?thesis using before_mem[of c F n "map fst ((n, it) # stack)"] by simp
  qed
  have it: "set it \<subseteq> set (children dag inside n)"
    using d(6)[of n "c # it"] by simp
  have top: "v = c \<or> v \<in> set it \<or> dict_get (df_classes st) (n, v) \<noteq> None" if "v \<in> set (children dag inside n)" for v
    using d(7)[of n "c # it" v] that by auto
  have rest: "\<And>m j. (m, j) \<in> set stack \<Longrightarrow> set j \<subseteq> set (children dag inside m)"
    "\<And>m j v. (m, j) \<in> set stack \<Longrightarrow> v \<in> set (children dag inside m) \<Longrightarrow> v \<in> set j \<or> dict_get (df_classes st) (m, v) \<noteq> None"
    using d(6,7) by (simp_all del: set_children)
  show ?thesis
  proof (rule dfs_invI)
    show "set j \<subseteq> set (children dag inside m)" if "(m, j) \<in> set ((n, it) # stack)" for m j
      using that it rest(1) by (auto simp del: set_children)
    show "v \<in> set j \<or> dict_get (df_classes (label n c k st)) (m, v) \<noteq> None"
      if "(m, j) \<in> set ((n, it) # stack)" "v \<in> set (children dag inside m)" for m j v
      using that top rest(2) by (auto simp del: set_children)
    show "chain (inner dag inside) ((n, it) # stack)"
      using d(5) by (simp add: chain_iterators[of _ n it stack "c # it"])
    show "before (F @ map fst ((n, it) # stack)) v u"
      if "dict_get (df_classes (label n c k st)) (u, v) = Some k'" "k' \<noteq> BACK" for u v k'
      using that fwd d(11)[of u v k'] by (auto split: if_splits)
  qed (use d(1-4) d(8-10) c nc closes in \<open>auto split: if_splits\<close>)
qed

lemma dfs_loop_inv:
  "dfs_inv dag inside stack F st \<Longrightarrow> \<exists>G. dfs_inv dag inside [] G (dfs_loop dag inside stack st)
     \<and> fst ` set (df_disc st) \<subseteq> fst ` set (df_disc (dfs_loop dag inside stack st))"
proof (induction dag inside stack st arbitrary: F rule: dfs_loop.induct)
  case (1 dag inside st)
  then show ?case by auto
next
  case (2 dag inside n stack st)
  from "2.IH"[OF dfs_inv_pop[OF "2.prems"]] show ?case by simp
next
  case (3 dag inside n c it stack st)
  show ?case
  proof (cases "dict_get (df_disc st) c = None")
    case True
    from "3.IH"(1)[OF True dfs_inv_push[OF "3.prems" True]] True show ?thesis by auto
  next
    case False
    have "dfs_inv dag inside ((n, it) # stack) F (label n c (if c \<in> set (df_gray st) then BACK
                         else if disc_of st c > disc_of st n then FORWARD else CROSS) st)"
      by (rule dfs_inv_label[OF "3.prems" False]) simp
    from "3.IH"(2)[OF False this] show ?thesis
      unfolding dfs_loop.simps(3) if_not_P[OF False] label_simps(3) .
  qed
qed

lemma dfs_roots_inv:
  assumes "dfs_inv dag inside [] F st" and "set roots \<subseteq> set inside"
  shows "\<exists>G. dfs_inv dag inside [] G (dfs_roots dag inside roots st)
    \<and> fst ` set (df_disc st) \<union> set roots \<subseteq> fst ` set (df_disc (dfs_roots dag inside roots st))"
  using assms
proof (induction roots arbitrary: F st)
  case (Cons r roots)
  let ?st = "if dict_get (df_disc st) r \<noteq> None then st
        else dfs_loop dag inside [(r, children dag inside r)] (discover r st)"
  have "\<exists>G. dfs_inv dag inside [] G ?st \<and> insert r (fst ` set (df_disc st)) \<subseteq> fst ` set (df_disc ?st)"
  proof (cases "dict_get (df_disc st) r = None")
    case True
    have new: "r \<notin> fst ` set (df_disc st)" using True by (simp add: dict_get_None_iff)
    note d = dfs_invD[OF Cons.prems(1)]
    have ins: "before (F @ [r]) v u" if "before F v u" for u v
      using before_insert[of F "[]" v u r] that by simp
    have "dfs_inv dag inside [(r, children dag inside r)] F (discover r st)"
      using d new Cons.prems(2) ins by (intro dfs_invI) auto
    from dfs_loop_inv[OF this] True show ?thesis by auto
  next
    case False
    then show ?thesis using Cons.prems(1) by (auto simp: dict_get_None_iff)
  qed
  then obtain G where G: "dfs_inv dag inside [] G ?st" "insert r (fst ` set (df_disc st)) \<subseteq> fst ` set (df_disc ?st)"
    by blast
  have "set roots \<subseteq> set inside" using Cons.prems(2) by simp
  from Cons.IH[OF G(1) this] G(2) show ?case
    unfolding dfs_roots.simps(2) list.set(2) by (elim exE conjE) (intro exI conjI, assumption, blast)
qed auto

lemma classify_spec:
  fixes dag :: "('n::linorder, 'a) digraph" and ms :: "'n list"
  defines "cl \<equiv> dict_get (classify_intra_scc_edges dag ms)"
  shows "(\<exists>c. cl (u, v) = Some c) \<longleftrightarrow> (u, v) \<in> inner dag ms"
    and "acyclic {(u, v) \<in> inner dag ms. cl (u, v) \<noteq> Some BACK}"
    and "cl (u, v) = Some BACK \<Longrightarrow> (v, u) \<in> (inner dag ms)\<^sup>*"
proof -
  let ?in = "sorted_set ms"
  let ?st = "dfs_roots dag ?in ?in \<lparr>df_classes = [], df_disc = [], df_gray = [], df_clock = 0\<rparr>"
  have "dfs_inv dag ?in [] [] \<lparr>df_classes = [], df_disc = [], df_gray = [], df_clock = 0\<rparr>"
    by (rule dfs_invI) auto
  from dfs_roots_inv[OF this order_refl] obtain F where F: "dfs_inv dag ?in [] F ?st"
    "set ?in \<subseteq> fst ` set (df_disc ?st)"
    by auto
  note d = dfs_invD[OF F(1)]
  have cl: "cl = dict_get (df_classes ?st)"
    by (simp add: cl_def classify_intra_scc_edges_def)
  have in_eq: "inner dag ?in = inner dag ms"
    by (simp add: inner_def)
  have all: "set F = set ms"
    using d(2,4) F(2) by auto
  have total: "cl (u, v) \<noteq> None" if "(u, v) \<in> inner dag ms" for u v
    using d(8)[of u v] that all by (auto simp: inner_def cl)
  show "(\<exists>c. cl (u, v) = Some c) \<longleftrightarrow> (u, v) \<in> inner dag ms"
    using d(9)[of u v] total[of u v] by (auto simp: cl in_eq)
  show "cl (u, v) = Some BACK \<Longrightarrow> (v, u) \<in> (inner dag ms)\<^sup>*"
    using d(10)[of u v] by (simp add: cl in_eq)
  show "acyclic {(u, v) \<in> inner dag ms. cl (u, v) \<noteq> Some BACK}"
  proof (rule acyclic_before)
    show "distinct F" using d(1) by simp
    show "before F v u" if uv: "(u, v) \<in> {(u, v) \<in> inner dag ms. cl (u, v) \<noteq> Some BACK}" for u v
    proof -
      obtain c where "cl (u, v) = Some c" "c \<noteq> BACK"
        using total[of u v] uv by (cases "cl (u, v)") auto
      then show ?thesis using d(11)[of u v c] by (simp add: cl)
    qed
  qed
qed

text \<open>
  The BACK arcs of the classification are a feedback set that wastes nothing: the arcs inside
  the component are classified, all of them and no other; without the BACK arcs the component is
  acyclic, each BACK arc closes a cycle inside it, and so there is a BACK arc exactly when the
  component has a cycle. The search always ends.
\<close>

theorem back_arcs_are_a_feedback_set:
  "{e. dict_get (classify_intra_scc_edges dag ms) e \<noteq> None} = inner dag ms
   \<and> acyclic {e \<in> inner dag ms. dict_get (classify_intra_scc_edges dag ms) e \<noteq> Some BACK}
   \<and> {e. dict_get (classify_intra_scc_edges dag ms) e = Some BACK} \<subseteq> {(u, v). (v, u) \<in> (inner dag ms)\<^sup>*}
   \<and> ({e. dict_get (classify_intra_scc_edges dag ms) e = Some BACK} = {} \<longleftrightarrow> acyclic (inner dag ms))"
proof -
  let ?cl = "dict_get (classify_intra_scc_edges dag ms)"
  note s = classify_spec[of dag ms]
  have dom: "{e. ?cl e \<noteq> None} = inner dag ms"
    using s(1) by auto
  have acy: "acyclic {e \<in> inner dag ms. ?cl e \<noteq> Some BACK}"
    using s(2) by (simp add: case_prod_unfold)
  have cyc: "{e. ?cl e = Some BACK} \<subseteq> {(u, v). (v, u) \<in> (inner dag ms)\<^sup>*}"
    using s(3) by auto
  have "acyclic (inner dag ms)" if "{e. ?cl e = Some BACK} = {}"
  proof -
    have "{e \<in> inner dag ms. ?cl e \<noteq> Some BACK} = inner dag ms" using that by auto
    with acy show ?thesis by simp
  qed
  moreover have "\<not> acyclic (inner dag ms)" if "?cl (u, v) = Some BACK" for u v
  proof -
    have "(u, v) \<in> inner dag ms" using dom that by auto
    with s(3)[OF that] show ?thesis
      by (meson acyclic_def rtrancl_into_trancl2)
  qed
  ultimately show ?thesis
    using dom acy cyc by blast
qed

end
