(* ===== verification/Py_Text.thy ===== *)
theory Py_Text
  imports Prelude
begin

text \<open>
  The string idioms the later components share: \<open>str.split\<close>, \<open>', '.join\<close>, the white space that
  a model with \<open>str_strip_whitespace\<close> removes, and a trailing newline before the end anchor of a pattern.
\<close>

text \<open>\<open>text.split(sep)\<close>: the pieces between the characters that satisfy \<open>P\<close>, empty ones included.\<close>

fun split_on :: "(char \<Rightarrow> bool) \<Rightarrow> string \<Rightarrow> string list" where
  "split_on P [] = [[]]"
| "split_on P (c # cs) = (if P c then [] # split_on P cs else (c # hd (split_on P cs)) # tl (split_on P cs))"

definition segments :: "string \<Rightarrow> string list" where
  "segments path = split_on (\<lambda>c. c = CHR ''/'') path"

text \<open>\<open>re.split(sep + '+', text)\<close> without its empty pieces.\<close>

definition pieces :: "(char \<Rightarrow> bool) \<Rightarrow> string \<Rightarrow> string list" where
  "pieces P text = filter (\<lambda>w. w \<noteq> []) (split_on P text)"

fun comma_join :: "string list \<Rightarrow> string" where
  "comma_join [] = []"
| "comma_join [x] = x"
| "comma_join (x # y # zs) = x @ '', '' @ comma_join (y # zs)"

definition model_space :: "char \<Rightarrow> bool" where
  "model_space c \<longleftrightarrow> (of_char c :: nat) \<in> {9, 10, 11, 12, 13, 32, 133, 160}"

definition model_strip :: "string \<Rightarrow> string" where
  "model_strip v = rev (dropWhile model_space (rev (dropWhile model_space v)))"

text \<open>\<open>$\<close> also matches before a newline that ends the string.\<close>

definition before_end :: "string \<Rightarrow> string list" where
  "before_end s = (if s \<noteq> [] \<and> last s = CHR 0x0A then [s, butlast s] else [s])"

definition newline :: char where
  "newline = CHR 0x0A"

definition is_digit :: "char \<Rightarrow> bool" where
  "is_digit c \<longleftrightarrow> 48 \<le> (of_char c :: nat) \<and> (of_char c :: nat) \<le> 57"

definition is_lower :: "char \<Rightarrow> bool" where
  "is_lower c \<longleftrightarrow> 97 \<le> (of_char c :: nat) \<and> (of_char c :: nat) \<le> 122"

lemma split_on_neq_Nil [simp]: "split_on P s \<noteq> []"
  by (cases s) auto

lemma split_on_code [code]:
  "split_on P [] = [[]]"
  "split_on P (c # cs) = (if P c then [] # split_on P cs else case split_on P cs of [] \<Rightarrow> [[c]] | w # ws \<Rightarrow> (c # w) # ws)"
  by (simp_all split: list.splits)

lemma split_on_append:
  "split_on P (xs @ ys) = butlast (split_on P xs) @ (last (split_on P xs) @ hd (split_on P ys)) # tl (split_on P ys)"
proof (induction xs)
  case (Cons x xs)
  then show ?case by (cases "split_on P xs") (auto simp: hd_append)
qed simp

lemma split_on_none: "(\<And>c. c \<in> set s \<Longrightarrow> \<not> P c) \<Longrightarrow> split_on P s = [s]"
  by (induction s) auto

lemma split_on_no_sep: "w \<in> set (split_on P s) \<Longrightarrow> c \<in> set w \<Longrightarrow> \<not> P c"
proof (induction s arbitrary: w)
  case (Cons x s)
  then show ?case by (cases "split_on P s") (fastforce split: if_splits)+
qed simp

lemma pieces_mem: "w \<in> set (pieces P s) \<longleftrightarrow> w \<in> set (split_on P s) \<and> w \<noteq> []"
  by (auto simp: pieces_def)

end
