(* ===== verification/Cycle_Breaking.thy ===== *)
theory Cycle_Breaking
  imports Cycles Dfs Py_Text
begin

text \<open>
  The resolution ladder of \<open>src/fleet/graph/cycles.py\<close>: component ids, break cost, materialization
  of contracts, the saturating hoist, edge breaking and the atomic fallback, composed by
  \<open>break_cycles\<close>; and \<open>infer_contract_edges\<close> of \<open>src/fleet/graph/infer.py\<close>, which it calls. The
  digest, the finding fingerprint, the detection time of new edges and networkx are arguments.
\<close>

section \<open>Configuration and state\<close>

record graph_config =
  gc_dag_edge_kinds :: "edge_kind list"
  gc_min_confidence :: rat
  gc_hoist_contracts :: bool
  gc_max_hoists_per_scc :: nat
  gc_min_extraction_confidence :: rat
  gc_max_breaks_per_scc :: nat
  gc_scc_atomic_threshold :: nat
  gc_scc_hard_max :: nat
  gc_forbidden_contract_ids :: "contract_id list"

definition default_graph_config :: graph_config where
  "default_graph_config =
     \<lparr>gc_dag_edge_kinds = DAG_EDGE_KINDS, gc_min_confidence = 1/2, gc_hoist_contracts = True,
      gc_max_hoists_per_scc = 4, gc_min_extraction_confidence = 6/10, gc_max_breaks_per_scc = 8,
      gc_scc_atomic_threshold = 8, gc_scc_hard_max = 40, gc_forbidden_contract_ids = []\<rparr>"

datatype cycle_error =
    BuildError graph_error
  | UnknownEdge edge_key
  | DissolvedWithoutHoist string

text \<open>What the rungs hand on: the nodes, the edge rows, the graph built from them, the committed contracts.\<close>

record ladder =
  ld_nodes :: "(node_ref, graph_node) dict"
  ld_edges :: "dependency_edge list"
  ld_graph :: fleet_graph
  ld_committed :: "(contract_id, contract_node) dict"

text \<open>The functions of the surroundings: digest, time of a new edge, fingerprint, networkx.\<close>

record cycle_env =
  ce_sha256 :: "string \<Rightarrow> string"
  ce_now :: instant
  ce_fingerprint :: "graph_finding \<Rightarrow> string"
  ce_nx :: "node_ref nx"

definition scc_id_for :: "cycle_env \<Rightarrow> repo_id list \<Rightarrow> string" where
  "scc_id_for env members = ''scc:'' @ take 16 (ce_sha256 env (join nul (sort members)))"

definition KIND_RANK :: "edge_kind \<Rightarrow> nat" where
  "KIND_RANK k = (case k of
     DYNAMIC_REF \<Rightarrow> 0 | API_CONTRACT \<Rightarrow> 1 | INTERNAL_IMPORT \<Rightarrow> 2 | PUBLISHED_ARTIFACT \<Rightarrow> 3
   | DECLARED_DEP \<Rightarrow> 4 | CONTRACT_CONSUME \<Rightarrow> 5 | CONTRACT_IMPL \<Rightarrow> 6 | _ \<Rightarrow> 7)"

definition ATOMIC_DECLARED_DEP_CONFIDENCE :: rat where
  "ATOMIC_DECLARED_DEP_CONFIDENCE = 95/100"

definition break_cost ::
  "cycle_env \<Rightarrow> dependency_edge \<Rightarrow> fleet_graph \<Rightarrow> rat \<times> nat \<times> nat \<times> nat \<times> edge_key" where
  "break_cost env e g =
     (let dst = (node_kind_value (de_dst_kind e), case de_dst_id e of None \<Rightarrow> ''None'' | Some d \<Rightarrow> d) in
      (de_confidence e, KIND_RANK (de_kind e),
       (if dst \<in> set (nodes (fg_G_rev g)) then length (descendants (ce_nx env) (fg_G_rev g) dst) else 0),
       (if de_ambiguous e then 0 else 1), de_edge_key e))"

section \<open>Components\<close>

definition nontrivial_sccs :: "cycle_env \<Rightarrow> ref_graph \<Rightarrow> node_ref list list" where
  "nontrivial_sccs env dag = sort (map sort (filter (\<lambda>c. length c > 1) (nx_sccs (ce_nx env) (shape dag))))"

definition shared_members :: "repo_id list \<Rightarrow> node_ref list \<Rightarrow> nat" where
  "shared_members member_ids component =
     length (filter (\<lambda>(kind, node_id). kind = ''REPO'' \<and> node_id \<in> set member_ids) component)"

fun live_loop ::
  "repo_id list \<Rightarrow> node_ref list list \<Rightarrow> (int \<times> node_ref list) option \<Rightarrow> node_ref list" where
  "live_loop member_ids [] best = (case best of None \<Rightarrow> [] | Some (_, c) \<Rightarrow> c)"
| "live_loop member_ids (component # rest) best =
     (let shared = shared_members member_ids component in
      if shared < 2 then live_loop member_ids rest best
      else
        let score = (- int shared, component) in
        live_loop member_ids rest
          (case best of None \<Rightarrow> Some score | Some b \<Rightarrow> if score < b then Some score else Some b))"

definition live_component :: "cycle_env \<Rightarrow> ref_graph \<Rightarrow> repo_id list \<Rightarrow> node_ref list" where
  "live_component env dag member_ids = live_loop member_ids (nontrivial_sccs env dag) None"

definition component_size :: "cycle_env \<Rightarrow> ref_graph \<Rightarrow> node_ref \<Rightarrow> nat" where
  "component_size env dag n =
     (if n \<notin> set (nodes dag) then 1
      else case find (\<lambda>c. n \<in> set c) (nontrivial_sccs env dag) of None \<Rightarrow> 1 | Some c \<Rightarrow> length c)"

definition intra_edge_keys :: "ref_graph \<Rightarrow> node_ref list \<Rightarrow> edge_key list" where
  "intra_edge_keys dag members =
     (let inside = sorted_set members in
      sorted_set (concat (map (\<lambda>src. concat (map (\<lambda>dst. keys_at dag src dst) (children dag inside src)))
                            inside)))"

definition feedback_edge_keys :: "ref_graph \<Rightarrow> node_ref list \<Rightarrow> edge_key list" where
  "feedback_edge_keys dag members =
     sorted_set (concat (map (\<lambda>((src, dst), k). if k = BACK then keys_at dag src dst else [])
                           (classify_intra_scc_edges dag members)))"

definition edge_of_key :: "fleet_graph \<Rightarrow> edge_key \<Rightarrow> cycle_error + dependency_edge" where
  "edge_of_key g k = (case dict_get (fg_edges_by_key g) k of None \<Rightarrow> Inl (UnknownEdge k) | Some e \<Rightarrow> Inr e)"

definition cheapest :: "cycle_env \<Rightarrow> edge_key list \<Rightarrow> fleet_graph \<Rightarrow> cycle_error + edge_key option" where
  "cheapest env ks g =
     (if ks = [] then Inr None
      else rbind (traverse (edge_of_key g) ks) (\<lambda>es.
        Inr (Some (fst (arg_min_list (\<lambda>(k, e). break_cost env e g) (zip ks es))))))"

definition is_atomic :: "node_ref list \<Rightarrow> fleet_graph \<Rightarrow> graph_config \<Rightarrow> cycle_error + bool" where
  "is_atomic live g cfg =
     (if length live > gc_scc_atomic_threshold cfg then Inr True
      else
        let feedback = feedback_edge_keys (fg_G_dag g) live in
        if feedback = [] then Inr False
        else rbind (traverse (edge_of_key g) feedback) (\<lambda>records.
          Inr (list_all (\<lambda>e. de_kind e = DECLARED_DEP \<and> de_confidence e \<ge> ATOMIC_DECLARED_DEP_CONFIDENCE)
                 records)))"

section \<open>Materializing contracts\<close>

text \<open>\<open>entry.get("repo_id"), entry.get("path")\<close> where both are non-empty.\<close>

definition entry_of :: "(string, string) dict \<Rightarrow> (repo_id \<times> string) option" where
  "entry_of entry = (case (dict_get entry ''repo_id'', dict_get entry ''path'') of
     (Some r, Some p) \<Rightarrow> if r \<noteq> '''' \<and> p \<noteq> '''' then Some (r, p) else None
   | _ \<Rightarrow> None)"

definition contract_entries :: "contract_node \<Rightarrow> (repo_id \<times> string) list" where
  "contract_entries c = List.map_filter entry_of (cn_source_paths c @ cn_generated_paths c)"

definition EDGE_BASE_CONFIDENCE :: "edge_kind \<Rightarrow> rat" where
  "EDGE_BASE_CONFIDENCE k = (case k of
     DECLARED_DEP \<Rightarrow> 1 | PUBLISHED_ARTIFACT \<Rightarrow> 95/100 | INTERNAL_IMPORT \<Rightarrow> 8/10 | API_CONTRACT \<Rightarrow> 7/10
   | SHARED_RESOURCE \<Rightarrow> 5/10 | DYNAMIC_REF \<Rightarrow> 3/10 | CONTRACT_IMPL \<Rightarrow> 1 | CONTRACT_CONSUME \<Rightarrow> 85/100)"

definition contract_edge ::
  "cycle_env \<Rightarrow> repo_id \<Rightarrow> contract_id \<Rightarrow> edge_kind \<Rightarrow> string \<Rightarrow> dependency_edge" where
  "contract_edge env src_id contract_id kind evidence_path =
     \<lparr>de_edge_id = None,
      de_edge_key = edge_key_for (ce_sha256 env) (node_kind_value REPO) src_id (node_kind_value CONTRACT)
        contract_id (edge_kind_value kind) evidence_path None,
      de_src_kind = REPO, de_src_id = src_id, de_dst_kind = CONTRACT, de_dst_coordinate = None,
      de_dst_id = Some contract_id, de_dst_candidates = [], de_retargeted_from = None, de_kind = kind,
      de_version_spec = None, de_base_confidence = EDGE_BASE_CONFIDENCE kind,
      de_confidence = EDGE_BASE_CONFIDENCE kind, de_confidence_factors = [], de_ambiguous = False,
      de_suppressed = False, de_evidence_path = evidence_path, de_evidence_line = None,
      de_detected_at = ce_now env\<rparr>"

definition edges_of_contract :: "cycle_env \<Rightarrow> contract_node \<Rightarrow> dependency_edge list" where
  "edges_of_contract env c =
     (case cn_owner c of
        None \<Rightarrow> []
      | Some owner \<Rightarrow>
          let paths = (\<lambda>r. sorted_set (map snd (filter (\<lambda>x. fst x = r) (contract_entries c)))) in
          (if paths owner = [] then []
           else [contract_edge env owner (cn_contract_id c) CONTRACT_IMPL (hd (paths owner))])
          @ concat (map (\<lambda>consumer.
              if consumer = owner then []
              else map (contract_edge env consumer (cn_contract_id c) CONTRACT_CONSUME) (paths consumer))
              (sorted_set (cn_consumers c))))"

definition infer_contract_edges :: "cycle_env \<Rightarrow> contract_node list \<Rightarrow> dependency_edge list" where
  "infer_contract_edges env contracts =
     concat (map (edges_of_contract env) (sort_key cn_contract_id contracts))"

text \<open>Which contract the evidence of a foreign file belongs to; the first contract keeps a path.\<close>

definition contract_paths :: "contract_node list \<Rightarrow> (repo_id \<times> string, contract_id) dict" where
  "contract_paths contracts =
     fold (\<lambda>c d. case cn_owner c of
               None \<Rightarrow> d
             | Some owner \<Rightarrow>
                 fold (\<lambda>(r, p) d. if r \<noteq> owner then dict_setdefault d (r, p) (cn_contract_id c) else d)
                   (contract_entries c) d)
       (sort_key cn_contract_id contracts) []"

definition retarget :: "cycle_env \<Rightarrow> contract_id \<Rightarrow> dependency_edge \<Rightarrow> dependency_edge" where
  "retarget env target e =
     e\<lparr>de_edge_key := edge_key_for (ce_sha256 env) (node_kind_value REPO) (de_src_id e)
          (node_kind_value CONTRACT) target (edge_kind_value CONTRACT_CONSUME) (de_evidence_path e)
          (de_evidence_line e),
       de_dst_kind := CONTRACT, de_dst_id := Some target, de_dst_coordinate := None,
       de_kind := CONTRACT_CONSUME, de_retargeted_from := de_dst_id e\<rparr>"

definition materialize_edge ::
  "cycle_env \<Rightarrow> (repo_id \<times> string, contract_id) dict \<Rightarrow> dependency_edge \<Rightarrow> dependency_edge" where
  "materialize_edge env paths e =
     (case (if de_src_kind e = REPO \<and> de_dst_kind e = REPO \<and> de_dst_id e \<noteq> None
            then dict_get paths (de_src_id e, de_evidence_path e) else None) of
        None \<Rightarrow> e
      | Some target \<Rightarrow> retarget env target e)"

definition materialize ::
  "cycle_env \<Rightarrow> dependency_edge list \<Rightarrow> contract_node list \<Rightarrow> dependency_edge list" where
  "materialize env edges contracts =
     (if contracts = [] then edges
      else
        let paths = contract_paths contracts;
            out = fold (\<lambda>e out. let e' = materialize_edge env paths e in dict_set out (de_edge_key e') e')
                    edges [];
            out = fold (\<lambda>e out. dict_setdefault out (de_edge_key e) e) (infer_contract_edges env contracts) out in
        map snd (sort_key fst out))"

definition suppress :: "dependency_edge list \<Rightarrow> edge_key \<Rightarrow> dependency_edge list" where
  "suppress edges k = map (\<lambda>e. if de_edge_key e = k then e\<lparr>de_suppressed := True\<rparr> else e) edges"

definition rebuild ::
  "graph_node list \<Rightarrow> dependency_edge list \<Rightarrow> graph_config \<Rightarrow> cycle_error + fleet_graph" where
  "rebuild ns es cfg =
     map_sum BuildError id
       (build_graph ns es (gc_dag_edge_kinds cfg) (gc_min_confidence cfg) (gc_hoist_contracts cfg))"

definition trial_graph ::
  "cycle_env \<Rightarrow> ladder \<Rightarrow> contract_node list \<Rightarrow> graph_config \<Rightarrow> cycle_error + fleet_graph" where
  "trial_graph env st contracts cfg =
     rebuild (map snd (ld_nodes st) @ map contract_graph_node contracts)
       (materialize env (ld_edges st) contracts) cfg"

section \<open>Hoisting\<close>

definition hoist_candidates ::
  "graph_config \<Rightarrow> repo_id list \<Rightarrow> (contract_id, contract_node) dict \<Rightarrow> (contract_id, contract_node) dict
   \<Rightarrow> contract_node list" where
  "hoist_candidates cfg member_ids contracts committed =
     filter (\<lambda>c. (case cn_owner c of None \<Rightarrow> False | Some owner \<Rightarrow> owner \<in> set member_ids)
                 \<and> cn_extractable c \<and> cn_status c = CS_EXTRACTABLE
                 \<and> dict_get committed (cn_contract_id c) = None
                 \<and> cn_extraction_confidence c \<ge> gc_min_extraction_confidence cfg
                 \<and> cn_contract_id c \<notin> set (gc_forbidden_contract_ids cfg))
       (map snd (sort_key fst contracts))"

type_synonym hoist_score = "int \<times> rat \<times> nat \<times> contract_id"

definition hoist_score ::
  "cycle_env \<Rightarrow> graph_config \<Rightarrow> ladder \<Rightarrow> node_ref list \<Rightarrow> contract_node
   \<Rightarrow> cycle_error + hoist_score \<times> contract_node" where
  "hoist_score env cfg st live c =
     rbind (trial_graph env st [c] cfg) (\<lambda>trial.
       let owner_ref = (''REPO'', case cn_owner c of None \<Rightarrow> ''None'' | Some r \<Rightarrow> r);
           freed = int (length live) - int (component_size env (fg_G_dag trial) owner_ref);
           dependents = (if owner_ref \<in> set (nodes (fg_G_rev (ld_graph st)))
                         then length (descendants (ce_nx env) (fg_G_rev (ld_graph st)) owner_ref) else 0) in
       Inr ((- freed, - cn_extraction_confidence c, length (cn_consumers c) + dependents, cn_contract_id c), c))"

definition choose_hoist ::
  "cycle_env \<Rightarrow> graph_config \<Rightarrow> ladder \<Rightarrow> node_ref list \<Rightarrow> contract_node list \<Rightarrow> cycle_error + contract_node" where
  "choose_hoist env cfg st live remaining =
     rbind (traverse (hoist_score env cfg st live) remaining) (\<lambda>scored.
       Inr (snd (hd (sort_key fst scored))))"

definition post_retarget_consumers :: "dependency_edge list \<Rightarrow> contract_id \<Rightarrow> repo_id set" where
  "post_retarget_consumers es cid =
     set (map de_src_id (filter (\<lambda>e. de_dst_kind e = CONTRACT \<and> de_dst_id e = Some cid
                                     \<and> de_kind e = CONTRACT_CONSUME) es))"

definition not_shared_finding :: "contract_node \<Rightarrow> nat \<Rightarrow> nat \<Rightarrow> graph_finding" where
  "not_shared_finding c found min_consumers =
     \<lparr>gf_kind = ''ContractNotShared'', gf_severity = WARN, gf_repo_id = cn_owner c,
      gf_payload = [(''contract_id'', cn_contract_id c),
                    (''declared_consumers'', show_nat (length (cn_consumers c))),
                    (''post_retarget_consumers'', show_nat found),
                    (''min_consumers'', show_nat min_consumers)]\<rparr>"

text \<open>What a hoist leaves behind: ids hoisted, the ladder, findings and rejected contracts.\<close>

record hoist_outcome =
  ho_hoisted :: "contract_id list"
  ho_ladder :: ladder
  ho_findings :: "graph_finding list"
  ho_rejected :: "contract_node list"

lemma traverse_length: "traverse f xs = Inr ys \<Longrightarrow> length ys = length xs"
  by (induction xs arbitrary: ys) (auto simp: rbind_Inr_iff)

lemma traverse_origin: "traverse f xs = Inr ys \<Longrightarrow> y \<in> set ys \<Longrightarrow> \<exists>x \<in> set xs. f x = Inr y"
  by (induction xs arbitrary: ys) (auto simp: rbind_Inr_iff)

lemma hoist_score_snd: "hoist_score env cfg st live x = Inr y \<Longrightarrow> snd y = x"
  by (auto simp: hoist_score_def Let_def)

lemma choose_hoist_mem:
  assumes "choose_hoist env cfg st live remaining = Inr c" and "remaining \<noteq> []"
  shows "c \<in> set remaining"
proof -
  obtain scored where s: "traverse (hoist_score env cfg st live) remaining = Inr scored"
    "c = snd (hd (sort_key fst scored))"
    using assms(1) by (auto simp: choose_hoist_def)
  have "scored \<noteq> []"
    using traverse_length[OF s(1)] assms(2) by auto
  then have "hd (sort_key fst scored) \<in> set scored"
    by (metis hd_in_set length_0_conv length_sort set_sort)
  from traverse_origin[OF s(1) this] s(2) show ?thesis
    using hoist_score_snd by metis
qed

lemma rbind_fundef_cong [fundef_cong]:
  "r = r' \<Longrightarrow> (\<And>x. r' = Inr x \<Longrightarrow> f x = g x) \<Longrightarrow> rbind r f = rbind r' g"
  by (auto simp: rbind_def split: sum.splits)

function hoist_loop ::
  "cycle_env \<Rightarrow> graph_config \<Rightarrow> nat \<Rightarrow> repo_id list \<Rightarrow> node_ref list \<Rightarrow> contract_node list \<Rightarrow> hoist_outcome
   \<Rightarrow> cycle_error + hoist_outcome" where
  "hoist_loop env cfg min_consumers member_ids live remaining acc =
     (if live = [] \<or> remaining = [] \<or> length (ho_hoisted acc) \<ge> gc_max_hoists_per_scc cfg then Inr acc
      else rbind (choose_hoist env cfg (ho_ladder acc) live remaining) (\<lambda>chosen.
        let st = ho_ladder acc;
            materialized = materialize env (ld_edges st) [chosen];
            found = card (post_retarget_consumers materialized (cn_contract_id chosen));
            remaining' = filter (\<lambda>c. cn_contract_id c \<noteq> cn_contract_id chosen) remaining in
        if found < min_consumers then
          hoist_loop env cfg min_consumers member_ids live remaining'
            (acc\<lparr>ho_rejected := ho_rejected acc @
                    [chosen\<lparr>cn_status := CS_REJECTED, cn_status_detail := ''not_shared_after_retarget''\<rparr>],
                 ho_findings := ho_findings acc @ [not_shared_finding chosen found min_consumers]\<rparr>)
        else
          let nodes' = dict_set (ld_nodes st) (graph_node_key (contract_graph_node chosen)) (contract_graph_node chosen);
              committed' = dict_set (ld_committed st) (cn_contract_id chosen) (chosen\<lparr>cn_status := CS_HOISTED\<rparr>) in
          rbind (rebuild (map snd nodes') materialized cfg) (\<lambda>g.
            hoist_loop env cfg min_consumers member_ids (live_component env (fg_G_dag g) member_ids) remaining'
              (acc\<lparr>ho_hoisted := ho_hoisted acc @ [cn_contract_id chosen],
                   ho_ladder := \<lparr>ld_nodes = nodes', ld_edges = materialized, ld_graph = g,
                                 ld_committed = committed'\<rparr>\<rparr>))))"
  by pat_completeness auto
termination
  by (relation "measure (\<lambda>(env, cfg, m, ids, live, remaining, acc). length remaining)")
    (auto intro!: length_filter_less dest: choose_hoist_mem)

declare hoist_loop.simps [simp del]

definition hoist_contracts ::
  "cycle_env \<Rightarrow> graph_config \<Rightarrow> nat \<Rightarrow> (contract_id, contract_node) dict \<Rightarrow> repo_id list \<Rightarrow> ladder
   \<Rightarrow> cycle_error + hoist_outcome" where
  "hoist_contracts env cfg min_consumers contracts member_ids st =
     (let nothing = \<lparr>ho_hoisted = [], ho_ladder = st, ho_findings = [], ho_rejected = []\<rparr>;
          candidates = hoist_candidates cfg member_ids contracts (ld_committed st) in
      if candidates = [] then Inr nothing
      else rbind (trial_graph env st candidates cfg) (\<lambda>saturated.
        if live_component env (fg_G_dag saturated) member_ids \<noteq> [] then Inr nothing
        else hoist_loop env cfg min_consumers member_ids
               (live_component env (fg_G_dag (ld_graph st)) member_ids) candidates nothing))"

section \<open>The ladder\<close>

text \<open>\<open>while live and len(broken) < max_breaks_per_scc\<close>: \<open>k\<close> breaks are still allowed.\<close>

fun break_loop ::
  "cycle_env \<Rightarrow> graph_config \<Rightarrow> repo_id list \<Rightarrow> nat \<Rightarrow> node_ref list \<Rightarrow> edge_key list \<Rightarrow> ladder
   \<Rightarrow> cycle_error + node_ref list \<times> edge_key list \<times> ladder" where
  "break_loop env cfg member_ids 0 live broken st = Inr (live, broken, st)"
| "break_loop env cfg member_ids (Suc k) live broken st =
     (if live = [] then Inr (live, broken, st)
      else rbind (is_atomic live (ld_graph st) cfg) (\<lambda>atomic.
        if atomic then Inr (live, broken, st)
        else rbind (cheapest env (feedback_edge_keys (fg_G_dag (ld_graph st)) live) (ld_graph st)) (\<lambda>best.
          case best of
            None \<Rightarrow> Inr (live, broken, st)
          | Some key \<Rightarrow>
              let edges' = suppress (ld_edges st) key in
              rbind (rebuild (map snd (ld_nodes st)) edges' cfg) (\<lambda>g.
                break_loop env cfg member_ids k (live_component env (fg_G_dag g) member_ids)
                  (broken @ [key]) (st\<lparr>ld_edges := edges', ld_graph := g\<rparr>)))))"

record scc_outcome =
  so_resolution :: scc_resolution
  so_ladder :: ladder
  so_findings :: "graph_finding list"
  so_rejected :: "contract_node list"

definition section_sign :: string where
  "section_sign = [CHR 0xA7]"

definition hoist_rationale :: "contract_id list \<Rightarrow> string" where
  "hoist_rationale hoisted =
     ''dissolved by hoisting '' @ show_nat (length hoisted) @ '' contract(s) ('' @ comma_join hoisted
     @ ''); no edge was broken ('' @ section_sign @ ''3.1 6c-H)''"

definition manual_rationale :: "nat \<Rightarrow> nat \<Rightarrow> string" where
  "manual_rationale n limit =
     show_nat n @ '' members exceeds graph.scc_hard_max='' @ show_nat limit
     @ ''; refusing beats emitting an unmergeable artifact ('' @ section_sign @ ''3.1 6e)''"

definition break_rationale :: "nat \<Rightarrow> nat \<Rightarrow> string" where
  "break_rationale broken hoisted =
     ''suppressed '' @ show_nat broken @ '' feedback edge(s) after '' @ show_nat hoisted
     @ '' hoist(s) ('' @ section_sign @ ''3.1 6d)''"

definition atomic_rationale :: "nat \<Rightarrow> nat \<Rightarrow> nat \<Rightarrow> string" where
  "atomic_rationale n hoisted broken =
     show_nat n @ '' members still cyclic after '' @ show_nat hoisted @ '' hoist(s) and '' @ show_nat broken
     @ '' break(s); migrating as one unit ('' @ section_sign @ ''3.1 6e)''"

definition resolve_scc ::
  "cycle_env \<Rightarrow> graph_config \<Rightarrow> nat \<Rightarrow> (contract_id, contract_node) dict \<Rightarrow> node_ref list \<Rightarrow> repo_id list
   \<Rightarrow> ladder \<Rightarrow> cycle_error + scc_outcome" where
  "resolve_scc env cfg min_consumers contracts members member_ids st =
     (let scc_id = scc_id_for env member_ids;
          dag = fg_G_dag (ld_graph st);
          feedback = feedback_edge_keys dag members in
      rbind (cheapest env feedback (ld_graph st)) (\<lambda>proposed.
        let base = \<lparr>res_scc_id = scc_id, res_members = member_ids,
                    res_edge_keys = intra_edge_keys dag members, res_feedback = feedback,
                    res_proposed = proposed, res_hoisted = [], res_broken = [],
                    res_strategy = EDGE_BREAK, res_rationale = ''''\<rparr> in
        if length member_ids > gc_scc_hard_max cfg then
          Inr \<lparr>so_resolution = base\<lparr>res_strategy := MANUAL,
                 res_rationale := manual_rationale (length member_ids) (gc_scc_hard_max cfg)\<rparr>,
               so_ladder = st, so_findings = [], so_rejected = []\<rparr>
        else
          rbind (if gc_hoist_contracts cfg then hoist_contracts env cfg min_consumers contracts member_ids st
                 else Inr \<lparr>ho_hoisted = [], ho_ladder = st, ho_findings = [], ho_rejected = []\<rparr>) (\<lambda>h.
            let live = live_component env (fg_G_dag (ld_graph (ho_ladder h))) member_ids in
            if live = [] \<and> ho_hoisted h = [] then Inl (DissolvedWithoutHoist scc_id)
            else if live = [] then
              Inr \<lparr>so_resolution = base\<lparr>res_hoisted := ho_hoisted h, res_strategy := CONTRACT_HOIST,
                     res_rationale := hoist_rationale (ho_hoisted h)\<rparr>,
                   so_ladder = ho_ladder h, so_findings = ho_findings h, so_rejected = ho_rejected h\<rparr>
            else
              rbind (break_loop env cfg member_ids (gc_max_breaks_per_scc cfg) live [] (ho_ladder h))
                (\<lambda>(live', broken, st').
                  Inr \<lparr>so_resolution = base\<lparr>res_hoisted := ho_hoisted h, res_broken := broken,
                         res_strategy := (if live' = [] then EDGE_BREAK else ATOMIC_WAVE),
                         res_rationale := (if live' = [] then break_rationale (length broken) (length (ho_hoisted h))
                            else atomic_rationale (length member_ids) (length (ho_hoisted h)) (length broken))\<rparr>,
                       so_ladder = st', so_findings = ho_findings h, so_rejected = ho_rejected h\<rparr>))))"

definition repo_ids_of :: "node_ref list \<Rightarrow> repo_id list" where
  "repo_ids_of members = map snd (filter (\<lambda>(kind, _). kind = node_kind_value REPO) members)"

fun resolve_all ::
  "cycle_env \<Rightarrow> graph_config \<Rightarrow> nat \<Rightarrow> (contract_id, contract_node) dict \<Rightarrow> node_ref list list \<Rightarrow> ladder
   \<Rightarrow> scc_resolution list \<Rightarrow> graph_finding list \<Rightarrow> contract_node list
   \<Rightarrow> cycle_error + ladder \<times> scc_resolution list \<times> graph_finding list \<times> contract_node list" where
  "resolve_all env cfg m contracts [] st rs fs js = Inr (st, rs, fs, js)"
| "resolve_all env cfg m contracts (members # rest) st rs fs js =
     (let member_ids = repo_ids_of members in
      if length member_ids < 2 then resolve_all env cfg m contracts rest st rs fs js
      else rbind (resolve_scc env cfg m contracts members member_ids st) (\<lambda>out1.
        resolve_all env cfg m contracts rest (so_ladder out1) (rs @ [so_resolution out1])
          (fs @ so_findings out1) (js @ so_rejected out1)))"

definition node_kind_of :: "string \<Rightarrow> node_kind" where
  "node_kind_of s = (if s = node_kind_value REPO then REPO else CONTRACT)"

text \<open>The state before the first component: contracts already hoisted are materialized.\<close>

definition initial_ladder ::
  "cycle_env \<Rightarrow> graph_config \<Rightarrow> contract_node list \<Rightarrow> fleet_graph \<Rightarrow> cycle_error + ladder" where
  "initial_ladder env cfg contracts g =
     (let ns = map (\<lambda>(kind, node_id). ((kind, node_id), \<lparr>gn_kind = node_kind_of kind, gn_id = node_id\<rparr>)) (node_refs g);
          es = map snd (fg_edges_by_key g);
          committed = fold (\<lambda>c d. dict_set d (cn_contract_id c) c)
            (filter (\<lambda>c. cn_status c \<in> {CS_HOISTED, CS_MIGRATED}) (sort_key cn_contract_id contracts)) [];
          es' = (if committed = [] then es else materialize env es (map snd committed));
          ns' = fold (\<lambda>c d. dict_set d (graph_node_key (contract_graph_node c)) (contract_graph_node c))
                  (map snd committed) ns in
      rbind (rebuild (map snd ns') es' cfg) (\<lambda>current.
        Inr \<lparr>ld_nodes = ns', ld_edges = es', ld_graph = current, ld_committed = committed\<rparr>))"

definition break_cycles ::
  "cycle_env \<Rightarrow> fleet_graph \<Rightarrow> contract_node list \<Rightarrow> graph_config option \<Rightarrow> nat option
   \<Rightarrow> cycle_error + cycle_report" where
  "break_cycles env g contracts config min_consumers =
     (let cfg = (case config of None \<Rightarrow> default_graph_config | Some c \<Rightarrow> c);
          m = (case min_consumers of None \<Rightarrow> 2 | Some n \<Rightarrow> n);
          by_id = fold (\<lambda>c d. dict_set d (cn_contract_id c) c) contracts [] in
      rbind (initial_ladder env cfg contracts g) (\<lambda>st0.
        rbind (resolve_all env cfg m by_id (nontrivial_sccs env (fg_G_dag (ld_graph st0))) st0 [] [] [])
          (\<lambda>(st, rs, fs, js).
            Inr \<lparr>rep_resolutions = sort_key res_scc_id rs,
                 rep_nodes = map snd (sort_key fst (ld_nodes st)),
                 rep_edges = sort_key de_edge_key (ld_edges st),
                 rep_graph = ld_graph st,
                 rep_hoisted = filter (\<lambda>c. cn_status c \<noteq> CS_MIGRATED) (map snd (sort_key fst (ld_committed st))),
                 rep_findings = sort_key (ce_fingerprint env) fs,
                 rep_rejected = sort_key cn_contract_id js\<rparr>)))"

end
