(* ===== verification/Cycle_Correct.thy ===== *)
theory Cycle_Correct
  imports Cycle_Breaking Criteria
begin

text \<open>
  What the resolution ladder guarantees to the sequencer: every rung only removes ordering arcs
  between repositories, so the components of the graph it starts from never merge; a component that
  is reported as dissolved is acyclic in the graph that is sequenced; and the condensation that
  \<open>assign_waves\<close> orders is therefore acyclic.
\<close>

section \<open>Ordering arcs between repositories\<close>

definition repo_sourced :: "dependency_edge list \<Rightarrow> bool" where
  "repo_sourced es \<longleftrightarrow> list_all (\<lambda>e. de_src_kind e = REPO) es"

definition repo_arcs :: "graph_config \<Rightarrow> dependency_edge list \<Rightarrow> (node_ref \<times> node_ref) set" where
  "repo_arcs cfg es = {(src_ref e, dst_ref e) | e. e \<in> set es \<and> de_dst_kind e = REPO
     \<and> orders_migration (set (gc_dag_edge_kinds cfg)) (gc_min_confidence cfg) e}"

lemma values_dict_set: "snd ` set (dict_set d k v) \<subseteq> insert v (snd ` set d)"
  unfolding dict_set_def by (induction d) auto

lemma values_dict_setdefault: "snd ` set (dict_setdefault d k v) \<subseteq> insert v (snd ` set d)"
  using values_dict_set[of d k v] by (auto simp: dict_setdefault_def dict_set_def split: option.splits)

lemma values_fold_set:
  "snd ` set (fold (\<lambda>e out. dict_set out (key e) (f e)) xs d) \<subseteq> f ` set xs \<union> snd ` set d"
proof (induction xs arbitrary: d)
  case (Cons x xs)
  from Cons[of "dict_set d (key x) (f x)"] values_dict_set[of d "key x" "f x"] show ?case by auto
qed simp

lemma values_fold_setdefault:
  "snd ` set (fold (\<lambda>e out. dict_setdefault out (key e) e) xs d) \<subseteq> set xs \<union> snd ` set d"
proof (induction xs arbitrary: d)
  case (Cons x xs)
  from Cons[of "dict_setdefault d (key x) x"] values_dict_setdefault[of d "key x" x] show ?case by auto
qed simp

lemma set_materialize:
  "set (materialize env es cs) \<subseteq> (materialize_edge env (contract_paths cs) ` set es \<union> set (infer_contract_edges env cs)) \<union> set es"
proof (cases "cs = []")
  case False
  define out1 where "out1 = fold (\<lambda>e out. dict_set out (de_edge_key (materialize_edge env (contract_paths cs) e))
      (materialize_edge env (contract_paths cs) e)) es []"
  have "snd ` set out1 \<subseteq> materialize_edge env (contract_paths cs) ` set es"
    unfolding out1_def using values_fold_set[of _ "materialize_edge env (contract_paths cs)" es "[]"] by simp
  moreover have "set (materialize env es cs) \<subseteq> set (infer_contract_edges env cs) \<union> snd ` set out1"
    using False values_fold_setdefault[of de_edge_key "infer_contract_edges env cs" out1]
    by (auto simp: materialize_def Let_def out1_def)
  ultimately show ?thesis by blast
qed (simp add: materialize_def)

lemma infer_contract_edges_shape:
  "e \<in> set (infer_contract_edges env cs) \<Longrightarrow> de_src_kind e = REPO \<and> de_dst_kind e = CONTRACT"
  by (auto simp: infer_contract_edges_def edges_of_contract_def contract_edge_def Let_def split: option.splits if_splits)

lemma materialize_edge_cases:
  "materialize_edge env ps e = e \<or> (de_src_kind (materialize_edge env ps e) = REPO \<and> de_dst_kind (materialize_edge env ps e) = CONTRACT)"
  by (auto simp: materialize_edge_def retarget_def split: option.splits if_splits)

lemma materialize_repo:
  assumes "e \<in> set (materialize env es cs)"
  shows "e \<in> set es \<or> (de_src_kind e = REPO \<and> de_dst_kind e = CONTRACT)"
proof -
  from assms set_materialize[of env es cs]
  consider "e \<in> set es" | x where "x \<in> set es" "e = materialize_edge env (contract_paths cs) x"
    | "e \<in> set (infer_contract_edges env cs)"
    by blast
  then show ?thesis
  proof cases
    case 2
    then show ?thesis using materialize_edge_cases[of env "contract_paths cs" x] by auto
  qed (use infer_contract_edges_shape in auto)
qed

lemma repo_arcs_materialize: "repo_arcs cfg (materialize env es cs) \<subseteq> repo_arcs cfg es"
  unfolding repo_arcs_def using materialize_repo[of _ env es cs] by fastforce

lemma repo_sourced_materialize: "repo_sourced es \<Longrightarrow> repo_sourced (materialize env es cs)"
  unfolding repo_sourced_def list_all_iff using materialize_repo by blast

lemma repo_arcs_suppress: "repo_arcs cfg (suppress es k) \<subseteq> repo_arcs cfg es"
  by (auto simp: repo_arcs_def suppress_def orders_migration_def src_ref_def dst_ref_def split: if_splits)

lemma repo_sourced_suppress: "repo_sourced es \<Longrightarrow> repo_sourced (suppress es k)"
  by (auto simp: repo_sourced_def suppress_def list_all_iff)

text \<open>A state of the ladder whose graph is the one built from its rows.\<close>

definition keyed :: "(node_ref, graph_node) dict \<Rightarrow> bool" where
  "keyed ns \<longleftrightarrow> (\<forall>(k, n) \<in> set ns. k = graph_node_key n)"

lemma keyed_dict_set: "keyed ns \<Longrightarrow> keyed (dict_set ns (graph_node_key n) n)"
  unfolding keyed_def dict_set_def by (induction ns) auto

lemma keyed_refs: "keyed ns \<Longrightarrow> set (fleet_refs (map snd ns)) = fst ` set ns"
  unfolding keyed_def by (force simp: node_ref_of_def graph_node_key_def)

definition ladder_ok :: "graph_config \<Rightarrow> ladder \<Rightarrow> bool" where
  "ladder_ok cfg st \<longleftrightarrow> repo_sourced (ld_edges st) \<and> keyed (ld_nodes st) \<and> rebuild (map snd (ld_nodes st)) (ld_edges st) cfg = Inr (ld_graph st)"

lemma rebuild_Inr:
  "rebuild ns es cfg = Inr g \<longleftrightarrow>
     build_graph ns es (gc_dag_edge_kinds cfg) (gc_min_confidence cfg) (gc_hoist_contracts cfg) = Inr g"
  by (cases "build_graph ns es (gc_dag_edge_kinds cfg) (gc_min_confidence cfg) (gc_hoist_contracts cfg)")
    (simp_all add: rebuild_def)

lemma ladder_nodes:
  assumes "ladder_ok cfg st"
  shows "set (nodes (fg_G_dag (ld_graph st))) = fst ` set (ld_nodes st)"
proof -
  have b: "build_graph (map snd (ld_nodes st)) (ld_edges st) (gc_dag_edge_kinds cfg) (gc_min_confidence cfg)
      (gc_hoist_contracts cfg) = Inr (ld_graph st)" and k: "keyed (ld_nodes st)"
    using assms by (simp_all add: ladder_ok_def rebuild_Inr)
  show ?thesis
    unfolding build_graph_arcs(7)[OF b] build_graph_arcs(9)[OF b] keyed_refs[OF k] ..
qed

lemma node_kind_value_inj: "node_kind_value a = node_kind_value b \<longleftrightarrow> a = b"
  by (cases a; cases b) simp_all

lemma ladder_arcs:
  assumes "ladder_ok cfg st"
  shows "wf_graph (fg_G_dag (ld_graph st))"
    and "{(u, v) \<in> arc_set (fg_G_dag (ld_graph st)). fst v = ''REPO''} = repo_arcs cfg (ld_edges st)"
    and "(u, v) \<in> arc_set (fg_G_dag (ld_graph st)) \<Longrightarrow> fst u = ''REPO''"
proof -
  have b: "build_graph (map snd (ld_nodes st)) (ld_edges st) (gc_dag_edge_kinds cfg) (gc_min_confidence cfg) (gc_hoist_contracts cfg) = Inr (ld_graph st)"
    and s: "\<And>e. e \<in> set (ld_edges st) \<Longrightarrow> de_src_kind e = REPO"
    using assms by (simp_all add: ladder_ok_def rebuild_Inr repo_sourced_def list_all_iff)
  note a = build_graph_arcs[OF b]
  have orders: "orders_migration ks c e \<Longrightarrow> is_internal e" for ks c e
    by (simp add: orders_migration_def)
  have dst: "fst (dst_ref e) = ''REPO'' \<longleftrightarrow> de_dst_kind e = REPO" for e
    by (cases "de_dst_kind e") (simp_all add: dst_ref_def node_ref_of_def)
  show "wf_graph (fg_G_dag (ld_graph st))" by (rule a)
  show "{(u, v) \<in> arc_set (fg_G_dag (ld_graph st)). fst v = ''REPO''} = repo_arcs cfg (ld_edges st)"
    unfolding a(6) depends_on_def repo_arcs_def using dst orders by blast
  show "(u, v) \<in> arc_set (fg_G_dag (ld_graph st)) \<Longrightarrow> fst u = ''REPO''"
    unfolding a(6) depends_on_def using s by (auto simp: src_ref_def node_ref_of_def)
qed

section \<open>Live components\<close>

lemma mutual_mono: "E \<subseteq> F \<Longrightarrow> mutual E u v \<Longrightarrow> mutual F u v"
  unfolding mutual_def using rtrancl_mono[of E F] by blast

lemma mutual_sym: "mutual E u v \<Longrightarrow> mutual E v u"
  by (simp add: mutual_def)

lemma mutual_trans: "mutual E u v \<Longrightarrow> mutual E v w \<Longrightarrow> mutual E u w"
  unfolding mutual_def by (meson rtrancl_trans)

context networkx
begin

lemma scc_component:
  fixes dag :: "('n, 'a) digraph"
  assumes "wf_graph dag" and "u \<in> set (nodes dag)" and "v \<in> set (nodes dag)" and "mutual (arc_set dag) u v"
  shows "\<exists>c \<in> set (nx_sccs nx (shape dag)). u \<in> set c \<and> v \<in> set c"
proof -
  have "{m \<in> set (nodes dag). mutual (arc_set dag) u m} \<in> set ` set (nx_sccs nx (shape dag))"
    using sccs_spec[of "shape dag"] assms(1,2) by auto
  then obtain c where c: "c \<in> set (nx_sccs nx (shape dag))" "set c = {m \<in> set (nodes dag). mutual (arc_set dag) u m}"
    by auto
  have "mutual (arc_set dag) u u" by (simp add: mutual_def)
  with c assms show ?thesis by (intro bexI[of _ c]) auto
qed

lemma scc_mutual:
  fixes dag :: "('n, 'a) digraph"
  assumes "wf_graph dag" and "c \<in> set (nx_sccs nx (shape dag))" and "u \<in> set c" and "v \<in> set c"
  shows "mutual (arc_set dag) u v \<and> u \<in> set (nodes dag) \<and> v \<in> set (nodes dag)"
proof -
  have "set c \<in> (\<lambda>n. {m \<in> set (nodes dag). mutual (arc_set dag) n m}) ` set (nodes dag)"
    using sccs_spec[of "shape dag"] assms(1,2) by auto
  then obtain n where "set c = {m \<in> set (nodes dag). mutual (arc_set dag) n m}" by auto
  with assms(3,4) show ?thesis
    using mutual_sym mutual_trans by (metis (mono_tags, lifting) mem_Collect_eq)
qed

lemma scc_distinct:
  fixes dag :: "('n, 'a) digraph"
  shows "wf_graph dag \<Longrightarrow> c \<in> set (nx_sccs nx (shape dag)) \<Longrightarrow> distinct c"
  using sccs_distinct[of "shape dag"] by (auto simp: list_all_iff)

end

lemma set_nontrivial_sccs:
  "c \<in> set (nontrivial_sccs env dag) \<longleftrightarrow> (\<exists>d \<in> set (nx_sccs (ce_nx env) (shape dag)). length d > 1 \<and> c = sort d)"
  by (auto simp: nontrivial_sccs_def)

lemma live_loop_Some: "live_loop ids cs (Some b) = [] \<Longrightarrow> snd b \<noteq> [] \<Longrightarrow> [] \<notin> set cs \<Longrightarrow> False"
proof (induction cs arbitrary: b)
  case (Cons c cs)
  let ?score = "(- int (shared_members ids c), c)"
  let ?b = "if shared_members ids c < 2 then b else if ?score < b then ?score else b"
  have "live_loop ids (c # cs) (Some b) = live_loop ids cs (Some ?b)"
    by (simp add: Let_def)
  moreover have "snd ?b \<noteq> []"
    using Cons.prems by auto
  ultimately show ?case
    using Cons.IH[of ?b] Cons.prems by simp
qed (auto split: prod.splits)

lemma live_loop_None:
  "[] \<notin> set cs \<Longrightarrow> live_loop ids cs None = [] \<longleftrightarrow> (\<forall>c \<in> set cs. shared_members ids c < 2)"
  by (induction cs) (auto simp: Let_def dest: live_loop_Some)

lemma two_le_length_filter:
  assumes "distinct xs"
  shows "2 \<le> length (filter P xs) \<longleftrightarrow> (\<exists>x y. x \<noteq> y \<and> x \<in> set xs \<and> y \<in> set xs \<and> P x \<and> P y)"
proof -
  have "length (filter P xs) = card {x \<in> set xs. P x}"
    using assms by (metis distinct_card distinct_filter set_filter)
  moreover have "2 \<le> card A \<longleftrightarrow> (\<exists>x y. x \<noteq> y \<and> x \<in> A \<and> y \<in> A)" if "finite A" for A :: "'a set"
  proof
    assume "2 \<le> card A"
    then show "\<exists>x y. x \<noteq> y \<and> x \<in> A \<and> y \<in> A"
      by (metis card_2_iff' obtain_subset_with_card_n subsetD)
  next
    assume "\<exists>x y. x \<noteq> y \<and> x \<in> A \<and> y \<in> A"
    then obtain x y where "x \<noteq> y" "{x, y} \<subseteq> A" by auto
    then show "2 \<le> card A" using card_mono[OF that, of "{x, y}"] by simp
  qed
  ultimately show ?thesis by auto
qed

definition cyclic_pair :: "ref_graph \<Rightarrow> repo_id list \<Rightarrow> bool" where
  "cyclic_pair dag ids \<longleftrightarrow> (\<exists>a b. a \<noteq> b \<and> a \<in> set ids \<and> b \<in> set ids
     \<and> (''REPO'', a) \<in> set (nodes dag) \<and> (''REPO'', b) \<in> set (nodes dag)
     \<and> mutual (arc_set dag) (''REPO'', a) (''REPO'', b))"

lemma live_component_empty_iff:
  assumes "networkx (ce_nx env)" and "wf_graph dag"
  shows "live_component env dag ids = [] \<longleftrightarrow> \<not> cyclic_pair dag ids"
proof -
  have ne: "[] \<notin> set (nontrivial_sccs env dag)"
    by (auto simp: set_nontrivial_sccs) (metis length_0_conv length_sort less_nat_zero_code)
  have shared: "2 \<le> shared_members ids (sort d) \<longleftrightarrow>
      (\<exists>a b. a \<noteq> b \<and> a \<in> set ids \<and> b \<in> set ids \<and> (''REPO'', a) \<in> set d \<and> (''REPO'', b) \<in> set d)"
    if "d \<in> set (nx_sccs (ce_nx env) (shape dag))" for d
  proof -
    have "distinct (sort d)" using networkx.scc_distinct[OF assms that] by simp
    from two_le_length_filter[OF this, of "\<lambda>(kind, node_id). kind = ''REPO'' \<and> node_id \<in> set ids"]
    show ?thesis unfolding shared_members_def by auto
  qed
  show ?thesis
  proof
    assume l: "live_component env dag ids = []"
    show "\<not> cyclic_pair dag ids"
    proof
      assume "cyclic_pair dag ids"
      then obtain a b where ab: "a \<noteq> b" "a \<in> set ids" "b \<in> set ids" "(''REPO'', a) \<in> set (nodes dag)"
        "(''REPO'', b) \<in> set (nodes dag)" "mutual (arc_set dag) (''REPO'', a) (''REPO'', b)"
        unfolding cyclic_pair_def by blast
      obtain d where d: "d \<in> set (nx_sccs (ce_nx env) (shape dag))" "(''REPO'', a) \<in> set d" "(''REPO'', b) \<in> set d"
        using networkx.scc_component[OF assms ab(4-6)] by blast
      have "length d > 1"
      proof (rule ccontr)
        assume "\<not> length d > 1"
        then have "length d = 1" using d(2) by (cases d) auto
        then obtain x where "d = [x]" by (cases d) auto
        with d(2,3) ab(1) show False by fastforce
      qed
      then have "sort d \<in> set (nontrivial_sccs env dag)"
        using d(1) by (auto simp: set_nontrivial_sccs)
      then have "shared_members ids (sort d) < 2"
        using l live_loop_None[OF ne] by (simp add: live_component_def)
      with shared[OF d(1)] d ab show False by auto
    qed
  next
    assume n: "\<not> cyclic_pair dag ids"
    have "shared_members ids c < 2" if "c \<in> set (nontrivial_sccs env dag)" for c
    proof (rule ccontr)
      assume "\<not> shared_members ids c < 2"
      moreover obtain d where d: "d \<in> set (nx_sccs (ce_nx env) (shape dag))" "c = sort d"
        using \<open>c \<in> _\<close> by (auto simp: set_nontrivial_sccs)
      ultimately obtain a b where "a \<noteq> b" "a \<in> set ids" "b \<in> set ids" "(''REPO'', a) \<in> set d" "(''REPO'', b) \<in> set d"
        using shared[OF d(1)] by auto
      moreover from this have "mutual (arc_set dag) (''REPO'', a) (''REPO'', b)
          \<and> (''REPO'', a) \<in> set (nodes dag) \<and> (''REPO'', b) \<in> set (nodes dag)"
        using networkx.scc_mutual[OF assms d(1)] by blast
      ultimately show False using n unfolding cyclic_pair_def by blast
    qed
    then show "live_component env dag ids = []"
      using live_loop_None[OF ne] by (simp add: live_component_def)
  qed
qed

text \<open>A path between two repositories uses arcs between repositories only: contracts are sinks.\<close>

lemma repo_path:
  assumes "\<And>u v. (u, v) \<in> E \<Longrightarrow> fst u = ''REPO''" and "(u, v) \<in> E\<^sup>*" and "fst v = ''REPO''"
  shows "(u, v) \<in> {(x, y) \<in> E. fst y = ''REPO''}\<^sup>*"
  using assms(2,3)
proof (induction rule: rtrancl_induct)
  case (step y z)
  have "fst y = ''REPO''" using assms(1) step by blast
  with step show ?case by (auto intro: rtrancl_into_rtrancl)
qed simp

lemma ladder_mutual:
  assumes "ladder_ok cfg st" and "fst u = ''REPO''" and "fst v = ''REPO''"
  shows "mutual (arc_set (fg_G_dag (ld_graph st))) u v \<longleftrightarrow> mutual (repo_arcs cfg (ld_edges st)) u v"
proof -
  let ?E = "arc_set (fg_G_dag (ld_graph st))"
  have eq: "{(x, y) \<in> ?E. fst y = ''REPO''} = repo_arcs cfg (ld_edges st)"
    by (rule ladder_arcs(2)[OF assms(1)])
  have sub: "(repo_arcs cfg (ld_edges st))\<^sup>* \<subseteq> ?E\<^sup>*"
    unfolding eq[symmetric] by (rule rtrancl_mono) auto
  have "(x, y) \<in> ?E\<^sup>* \<longleftrightarrow> (x, y) \<in> (repo_arcs cfg (ld_edges st))\<^sup>*" if y: "fst y = ''REPO''" for x y
  proof
    assume "(x, y) \<in> ?E\<^sup>*"
    from repo_path[OF ladder_arcs(3)[OF assms(1)] this y] show "(x, y) \<in> (repo_arcs cfg (ld_edges st))\<^sup>*"
      unfolding eq .
  qed (use sub in blast)
  then show ?thesis
    using assms(2,3) unfolding mutual_def by simp
qed

lemma ladder_node:
  assumes "ladder_ok cfg st" and "u \<noteq> v" and "mutual (repo_arcs cfg (ld_edges st)) u v"
  shows "u \<in> set (nodes (fg_G_dag (ld_graph st))) \<and> fst u = ''REPO''"
proof -
  obtain w where "(u, w) \<in> repo_arcs cfg (ld_edges st)"
    using assms(2,3) unfolding mutual_def by (meson converse_rtranclE)
  then have "(u, w) \<in> arc_set (fg_G_dag (ld_graph st))"
    using ladder_arcs(2)[OF assms(1)] by blast
  then show ?thesis
    using wf_arcD[OF ladder_arcs(1)[OF assms(1)]] ladder_arcs(3)[OF assms(1)] by blast
qed

lemma live_component_empty_repo:
  assumes "networkx (ce_nx env)" and "ladder_ok cfg st"
  shows "live_component env (fg_G_dag (ld_graph st)) ids = [] \<longleftrightarrow>
    \<not> (\<exists>a b. a \<noteq> b \<and> a \<in> set ids \<and> b \<in> set ids \<and> mutual (repo_arcs cfg (ld_edges st)) (''REPO'', a) (''REPO'', b))"
proof -
  let ?E = "arc_set (fg_G_dag (ld_graph st))" and ?R = "repo_arcs cfg (ld_edges st)"
  have m: "mutual ?E (''REPO'', a) (''REPO'', b) \<longleftrightarrow> mutual ?R (''REPO'', a) (''REPO'', b)" for a b
    by (rule ladder_mutual[OF assms(2)]) simp_all
  have "(''REPO'', a) \<in> set (nodes (fg_G_dag (ld_graph st))) \<and> (''REPO'', b) \<in> set (nodes (fg_G_dag (ld_graph st)))"
    if ab: "a \<noteq> b" "mutual ?R (''REPO'', a) (''REPO'', b)" for a b
  proof -
    have "(''REPO'', a) \<noteq> (''REPO'', b)" using ab(1) by simp
    with ladder_node[OF assms(2) this ab(2)] ladder_node[OF assms(2) this[symmetric] mutual_sym[OF ab(2)]]
    show ?thesis by blast
  qed
  then have "cyclic_pair (fg_G_dag (ld_graph st)) ids \<longleftrightarrow>
      (\<exists>a b. a \<noteq> b \<and> a \<in> set ids \<and> b \<in> set ids \<and> mutual ?R (''REPO'', a) (''REPO'', b))"
    unfolding cyclic_pair_def m by blast
  then show ?thesis
    using live_component_empty_iff[OF assms(1) ladder_arcs(1)[OF assms(2)]] by simp
qed

lemma live_component_shrinks:
  assumes "networkx (ce_nx env)" and "ladder_ok cfg st" and "ladder_ok cfg st'"
    and "repo_arcs cfg (ld_edges st') \<subseteq> repo_arcs cfg (ld_edges st)"
    and "live_component env (fg_G_dag (ld_graph st)) ids = []"
  shows "live_component env (fg_G_dag (ld_graph st')) ids = []"
  using assms(5) mutual_mono[OF assms(4)]
  unfolding live_component_empty_repo[OF assms(1,2)] live_component_empty_repo[OF assms(1,3)] by blast

section \<open>The rungs only remove arcs\<close>

definition shrinks :: "graph_config \<Rightarrow> ladder \<Rightarrow> ladder \<Rightarrow> bool" where
  "shrinks cfg st st' \<longleftrightarrow> ladder_ok cfg st' \<and> fst ` set (ld_nodes st) \<subseteq> fst ` set (ld_nodes st')
     \<and> repo_arcs cfg (ld_edges st') \<subseteq> repo_arcs cfg (ld_edges st)"

lemma shrinks_refl: "ladder_ok cfg st \<Longrightarrow> shrinks cfg st st"
  by (simp add: shrinks_def)

lemma shrinks_trans: "shrinks cfg a b \<Longrightarrow> shrinks cfg b c \<Longrightarrow> shrinks cfg a c"
  unfolding shrinks_def by blast

lemma shrinks_commit:
  assumes "ladder_ok cfg st"
    and "rebuild (map snd (dict_set (ld_nodes st) (graph_node_key n) n)) (materialize env (ld_edges st) cs) cfg = Inr g"
  shows "shrinks cfg st \<lparr>ld_nodes = dict_set (ld_nodes st) (graph_node_key n) n, ld_edges = materialize env (ld_edges st) cs, ld_graph = g, ld_committed = com\<rparr>"
  using assms repo_arcs_materialize repo_sourced_materialize keyed_dict_set
  by (auto simp: shrinks_def ladder_ok_def)

lemma shrinks_suppress:
  assumes "ladder_ok cfg st" and "rebuild (map snd (ld_nodes st)) (suppress (ld_edges st) k) cfg = Inr g"
  shows "shrinks cfg st (st\<lparr>ld_edges := suppress (ld_edges st) k, ld_graph := g\<rparr>)"
  using assms repo_arcs_suppress repo_sourced_suppress by (simp add: shrinks_def ladder_ok_def)

lemma hoist_loop_shrinks:
  assumes "hoist_loop env cfg m ids live remaining acc = Inr h" and "ladder_ok cfg (ho_ladder acc)"
  shows "shrinks cfg (ho_ladder acc) (ho_ladder h)"
  using assms
proof (induction env cfg m ids live remaining acc arbitrary: h rule: hoist_loop.induct)
  case (1 env cfg m ids live remaining acc)
  let ?stop = "live = [] \<or> remaining = [] \<or> length (ho_hoisted acc) \<ge> gc_max_hoists_per_scc cfg"
  show ?case
  proof (cases ?stop)
    case True
    with "1.prems" show ?thesis by (subst (asm) hoist_loop.simps) (auto simp: shrinks_refl)
  next
    case False
    let ?st = "ho_ladder acc"
    from "1.prems"(1) False obtain c where c: "choose_hoist env cfg ?st live remaining = Inr c"
      by (subst (asm) hoist_loop.simps) (auto simp: rbind_Inr_iff)
    let ?mat = "materialize env (ld_edges ?st) [c]"
    let ?found = "card (post_retarget_consumers ?mat (cn_contract_id c))"
    note loop = "1.prems"(1)[unfolded hoist_loop.simps[of env cfg m ids live remaining acc] if_not_P[OF False] c rbind_simps Let_def]
    show ?thesis
    proof (cases "?found < m")
      case True
      from "1.IH"(1)[OF False c refl refl refl refl True loop[unfolded if_P[OF True]]] "1.prems"(2)
      show ?thesis by simp
    next
      case few: False
      obtain g where g: "rebuild (map snd (dict_set (ld_nodes ?st) (graph_node_key (contract_graph_node c)) (contract_graph_node c))) ?mat cfg = Inr g"
        and cont: "hoist_loop env cfg m ids (live_component env (fg_G_dag g) ids)
              (filter (\<lambda>d. cn_contract_id d \<noteq> cn_contract_id c) remaining)
              (acc\<lparr>ho_hoisted := ho_hoisted acc @ [cn_contract_id c],
                   ho_ladder := \<lparr>ld_nodes = dict_set (ld_nodes ?st) (graph_node_key (contract_graph_node c)) (contract_graph_node c),
                      ld_edges = ?mat, ld_graph = g,
                      ld_committed = dict_set (ld_committed ?st) (cn_contract_id c) (c\<lparr>cn_status := CS_HOISTED\<rparr>)\<rparr>\<rparr>) = Inr h"
        using loop[unfolded if_not_P[OF few] rbind_Inr_iff] by blast
      note step = shrinks_commit[OF "1.prems"(2) g]
      then have ok: "ladder_ok cfg \<lparr>ld_nodes = dict_set (ld_nodes ?st) (graph_node_key (contract_graph_node c)) (contract_graph_node c),
          ld_edges = ?mat, ld_graph = g,
          ld_committed = dict_set (ld_committed ?st) (cn_contract_id c) (c\<lparr>cn_status := CS_HOISTED\<rparr>)\<rparr>"
        unfolding shrinks_def by blast
      note IH = "1.IH"(2)[OF False c refl refl refl refl few refl refl g cont, simplified]
      show ?thesis by (rule shrinks_trans[OF step IH[OF ok]])
    qed
  qed
qed

lemma hoist_contracts_shrinks:
  assumes "hoist_contracts env cfg m contracts ids st = Inr h" and "ladder_ok cfg st"
  shows "shrinks cfg st (ho_ladder h)"
  using assms hoist_loop_shrinks[of env cfg m ids _ _ "\<lparr>ho_hoisted = [], ho_ladder = st, ho_findings = [], ho_rejected = []\<rparr>" h]
  by (auto simp: hoist_contracts_def Let_def shrinks_refl split: if_splits)

lemma break_loop_length:
  "break_loop env cfg ids k live broken st = Inr (live', broken', st') \<Longrightarrow> length broken \<le> length broken'"
proof (induction k arbitrary: live broken st)
  case (Suc k)
  then show ?case
    by (auto simp: rbind_Inr_iff Let_def split: if_splits option.splits dest!: Suc.IH)
qed simp

lemma break_loop_shrinks:
  assumes "break_loop env cfg ids k live broken st = Inr (live', broken', st')" and "ladder_ok cfg st"
    and "live = live_component env (fg_G_dag (ld_graph st)) ids"
  shows "shrinks cfg st st' \<and> live' = live_component env (fg_G_dag (ld_graph st')) ids
    \<and> (live \<noteq> [] \<and> live' = [] \<longrightarrow> broken' \<noteq> []) \<and> length broken' \<le> length broken + k"
  using assms
proof (induction k arbitrary: live broken st)
  case 0
  then show ?case by (auto simp: shrinks_refl)
next
  case (Suc k)
  show ?case
  proof (cases "(live, broken, st) = (live', broken', st')")
    case True
    with Suc.prems show ?thesis by (auto simp: shrinks_refl)
  next
    case False
    then obtain key g where g: "rebuild (map snd (ld_nodes st)) (suppress (ld_edges st) key) cfg = Inr g"
      and cont: "break_loop env cfg ids k (live_component env (fg_G_dag g) ids) (broken @ [key])
          (st\<lparr>ld_edges := suppress (ld_edges st) key, ld_graph := g\<rparr>) = Inr (live', broken', st')"
      using Suc.prems(1) by (auto simp: rbind_Inr_iff Let_def split: if_splits option.splits)
    note step = shrinks_suppress[OF Suc.prems(2) g]
    have ok: "ladder_ok cfg (st\<lparr>ld_edges := suppress (ld_edges st) key, ld_graph := g\<rparr>)"
      using step by (simp add: shrinks_def)
    have "broken' \<noteq> []"
      using break_loop_length[OF cont] by auto
    with Suc.IH[OF cont ok] shrinks_trans[OF step] show ?thesis by auto
  qed
qed

text \<open>What a resolution says of its component in the state the ladder ends in.\<close>

definition resolved :: "cycle_env \<Rightarrow> ladder \<Rightarrow> repo_id list \<Rightarrow> scc_resolution \<Rightarrow> bool" where
  "resolved env st ids r \<longleftrightarrow>
     res_members r = ids \<and> res_scc_id r = scc_id_for env ids
     \<and> (res_strategy r \<in> {MANUAL, ATOMIC_WAVE} \<or> live_component env (fg_G_dag (ld_graph st)) ids = [])
     \<and> (res_strategy r = CONTRACT_HOIST \<longrightarrow> res_hoisted r \<noteq> [] \<and> res_broken r = [])
     \<and> (res_strategy r = EDGE_BREAK \<longrightarrow> res_broken r \<noteq> [])"

lemma resolve_scc_spec:
  assumes "resolve_scc env cfg m contracts members ids st = Inr o'" and "ladder_ok cfg st"
  shows "shrinks cfg st (so_ladder o') \<and> resolved env (so_ladder o') ids (so_resolution o')"
proof (cases "length ids > gc_scc_hard_max cfg")
  case True
  with assms show ?thesis
    by (auto simp: resolve_scc_def Let_def rbind_Inr_iff resolved_def shrinks_refl)
next
  case False
  obtain h where h: "(if gc_hoist_contracts cfg then hoist_contracts env cfg m contracts ids st
                 else Inr \<lparr>ho_hoisted = [], ho_ladder = st, ho_findings = [], ho_rejected = []\<rparr>) = Inr h"
    using assms(1) False by (auto simp: resolve_scc_def Let_def rbind_Inr_iff)
  have sh: "shrinks cfg st (ho_ladder h)"
    using h hoist_contracts_shrinks[OF _ assms(2)] shrinks_refl[OF assms(2)] by (auto split: if_splits)
  then have ok: "ladder_ok cfg (ho_ladder h)" by (simp add: shrinks_def)
  let ?live = "live_component env (fg_G_dag (ld_graph (ho_ladder h))) ids"
  show ?thesis
  proof (cases "?live = []")
    case True
    with assms(1) False h sh show ?thesis
      by (auto simp: resolve_scc_def Let_def rbind_Inr_iff resolved_def split: if_splits)
  next
    case live: False
    obtain live' broken st' where b: "break_loop env cfg ids (gc_max_breaks_per_scc cfg) ?live [] (ho_ladder h) = Inr (live', broken, st')"
      and o': "so_ladder o' = st'" "res_members (so_resolution o') = ids" "res_scc_id (so_resolution o') = scc_id_for env ids"
        "res_strategy (so_resolution o') = (if live' = [] then EDGE_BREAK else ATOMIC_WAVE)" "res_broken (so_resolution o') = broken"
      using assms(1) False h live by (auto simp: resolve_scc_def Let_def rbind_Inr_iff)
    from break_loop_shrinks[OF b ok refl] shrinks_trans[OF sh] live show ?thesis
      by (auto simp: resolved_def o' split: if_splits)
  qed
qed

lemma resolved_shrinks:
  assumes "networkx (ce_nx env)" and "ladder_ok cfg st" and "shrinks cfg st st'" and "resolved env st ids r"
  shows "resolved env st' ids r"
  using assms live_component_shrinks[OF assms(1,2), of st' ids] unfolding resolved_def shrinks_def by blast

lemma resolve_all_spec:
  assumes "networkx (ce_nx env)"
    and "resolve_all env cfg m contracts cs st rs fs js = Inr (st', rs', fs', js')" and "ladder_ok cfg st"
  shows "shrinks cfg st st' \<and> (\<exists>new. rs' = rs @ new
    \<and> list_all2 (resolved env st') (filter (\<lambda>ids. 2 \<le> length ids) (map repo_ids_of cs)) new)"
  using assms(2,3)
proof (induction cs arbitrary: st rs fs js)
  case Nil
  then show ?case by (auto simp: shrinks_refl)
next
  case (Cons c cs)
  show ?case
  proof (cases "length (repo_ids_of c) < 2")
    case True
    with Cons show ?thesis by (auto simp: Let_def)
  next
    case False
    then obtain o' where o': "resolve_scc env cfg m contracts c (repo_ids_of c) st = Inr o'"
      and cont: "resolve_all env cfg m contracts cs (so_ladder o') (rs @ [so_resolution o']) (fs @ so_findings o') (js @ so_rejected o')
          = Inr (st', rs', fs', js')"
      using Cons.prems(1) by (auto simp: Let_def rbind_Inr_iff)
    note r = resolve_scc_spec[OF o' Cons.prems(2)]
    have ok: "ladder_ok cfg (so_ladder o')" using r by (simp add: shrinks_def)
    from Cons.IH[OF cont ok] obtain new where new: "shrinks cfg (so_ladder o') st'" "rs' = (rs @ [so_resolution o']) @ new"
      "list_all2 (resolved env st') (filter (\<lambda>ids. 2 \<le> length ids) (map repo_ids_of cs)) new"
      by blast
    have "resolved env st' (repo_ids_of c) (so_resolution o')"
      using resolved_shrinks[OF assms(1) ok new(1)] r by blast
    with new False r show ?thesis
      by (auto intro: shrinks_trans intro!: exI[of _ "so_resolution o' # new"])
  qed
qed

section \<open>The condensation is acyclic\<close>

lemma cycle_inside:
  assumes "(x, y) \<in> R\<^sup>+" and "(y, x) \<in> R\<^sup>*"
  shows "(x, y) \<in> {(a, b) \<in> R. (x, a) \<in> R\<^sup>* \<and> (b, x) \<in> R\<^sup>*}\<^sup>+"
  using assms
proof (induction rule: trancl_induct)
  case (base y)
  then show ?case by (intro r_into_trancl) simp
next
  case (step y z)
  have yx: "(y, x) \<in> R\<^sup>*" using step.hyps(2) step.prems by (rule converse_rtrancl_into_rtrancl)
  have "(y, z) \<in> {(a, b) \<in> R. (x, a) \<in> R\<^sup>* \<and> (b, x) \<in> R\<^sup>*}"
    using step.hyps step.prems trancl_into_rtrancl[OF step.hyps(1)] by blast
  with step.IH[OF yx] show ?case by (rule trancl_into_trancl)
qed

text \<open>
  Let \<open>f\<close> merge nodes of one component of \<open>E0\<close> only, and let every arc of \<open>E\<close> be one of \<open>E0\<close>. If a
  component of \<open>E0\<close> that is not merged into one node has no node merged at all and no cycle of
  \<open>E\<close>, the quotient has no cycle.
\<close>

lemma quotient_acyclic:
  assumes sub: "E \<subseteq> E0" and field: "\<And>u v. (u, v) \<in> E \<Longrightarrow> u \<in> N \<and> v \<in> N"
    and merge: "\<And>u v. u \<in> N \<Longrightarrow> v \<in> N \<Longrightarrow> f u = f v \<Longrightarrow> u \<noteq> v \<Longrightarrow> mutual E0 u v"
    and whole: "\<And>u v w w'. u \<in> N \<Longrightarrow> v \<in> N \<Longrightarrow> w \<in> N \<Longrightarrow> w' \<in> N \<Longrightarrow> mutual E0 u v \<Longrightarrow> f u \<noteq> f v
      \<Longrightarrow> mutual E0 u w \<Longrightarrow> f w' = f w \<Longrightarrow> w' = w"
    and local: "\<And>u v. u \<in> N \<Longrightarrow> v \<in> N \<Longrightarrow> mutual E u v \<Longrightarrow> f u = f v"
  shows "acyclic {(f u, f v) | u v. (u, v) \<in> E \<and> f u \<noteq> f v}"
proof -
  define Q where "Q = {(f u, f v) | u v. (u, v) \<in> E \<and> f u \<noteq> f v}"
  have QE: "\<exists>a b. (a, b) \<in> E \<and> p = f a \<and> q = f b \<and> f a \<noteq> f b \<and> a \<in> N \<and> b \<in> N" if "(p, q) \<in> Q" for p q
    using that field unfolding Q_def by blast
  have same: "(u, v) \<in> E0\<^sup>*" if "u \<in> N" "v \<in> N" "f u = f v" for u v
    using merge[OF that] by (cases "u = v") (simp_all add: mutual_def)
  have lift: "(u, v) \<in> E0\<^sup>*" if "(f u, y) \<in> Q\<^sup>*" "u \<in> N" "v \<in> N" "y = f v" for u v y
    using that(1,3,4)
  proof (induction arbitrary: v rule: rtrancl_induct)
    case base
    then show ?case using same[OF that(2)] by blast
  next
    case (step y z)
    obtain a b where ab: "(a, b) \<in> E" "y = f a" "z = f b" "a \<in> N" "b \<in> N" using QE[OF step.hyps(2)] by blast
    have "(u, a) \<in> E0\<^sup>*" using step.IH[OF ab(4,2)] .
    moreover have "(a, b) \<in> E0\<^sup>*" using ab(1) sub by blast
    moreover have "(b, v) \<in> E0\<^sup>*" using same[OF ab(5)] ab(3) step.prems by simp
    ultimately show ?case by (meson rtrancl_trans)
  qed
  have "(x, x) \<notin> Q\<^sup>+" for x
  proof
    assume "(x, x) \<in> Q\<^sup>+"
    then obtain y where xy: "(x, y) \<in> Q" "(y, x) \<in> Q\<^sup>*" by (meson tranclD)
    obtain u v where uv: "(u, v) \<in> E" "x = f u" "y = f v" "f u \<noteq> f v" "u \<in> N" "v \<in> N" using QE[OF xy(1)] by blast
    have "(u, v) \<in> E0\<^sup>*" "(v, u) \<in> E0\<^sup>*"
      using uv(1) sub lift[of v x u] xy(2) uv(2,3,5,6) by blast+
    then have m: "mutual E0 u v" by (simp add: mutual_def)
    have alone: "w' = w" if "w \<in> N" "w' \<in> N" "mutual E0 u w" "f w' = f w" for w w'
      using whole[OF uv(5,6) that(1,2) m uv(4) that(3,4)] .
    define C where "C = {(a, b) \<in> Q. (y, a) \<in> Q\<^sup>* \<and> (b, y) \<in> Q\<^sup>*}"
    have on_cycle: "mutual E0 u a" if "(y, f a) \<in> Q\<^sup>*" "(f a, y) \<in> Q\<^sup>*" "a \<in> N" for a
    proof -
      have "(v, a) \<in> E0\<^sup>*" "(a, v) \<in> E0\<^sup>*"
        using lift[of v "f a" a] lift[of a y v] that uv(3,6) by simp_all
      then have "mutual E0 v a" by (simp add: mutual_def)
      with m show ?thesis by (rule mutual_trans)
    qed
    have path: "(v, w) \<in> E\<^sup>*" if "(y, z) \<in> C\<^sup>*" "z = f w" "mutual E0 u w" "w \<in> N" for z w
      using that
    proof (induction arbitrary: w rule: rtrancl_induct)
      case base
      then have "v = w" using alone[of w v] uv(3,6) by simp
      then show ?case by simp
    next
      case (step z z')
      have zz: "(z, z') \<in> Q" "(y, z) \<in> Q\<^sup>*" "(z', y) \<in> Q\<^sup>*" using step.hyps(2) by (auto simp: C_def)
      obtain a b where ab: "(a, b) \<in> E" "z = f a" "z' = f b" "a \<in> N" "b \<in> N" using QE[OF zz(1)] by blast
      have "(z, y) \<in> Q\<^sup>*" using zz(1,3) by (rule converse_rtrancl_into_rtrancl)
      then have "mutual E0 u a" using on_cycle[of a] zz(2) ab(2,4) by simp
      then have "(v, a) \<in> E\<^sup>*" using step.IH[of a] ab(2,4) by blast
      moreover have "b = w" using alone[of w b] step.prems ab(3,5) by simp
      ultimately show ?case using ab(1) by (auto intro: rtrancl_into_rtrancl)
    qed
    have "(y, x) \<in> C\<^sup>*"
    proof (cases "y = x")
      case False
      then have "(y, x) \<in> Q\<^sup>+" using xy(2) by (metis rtranclD)
      moreover have "(x, y) \<in> Q\<^sup>*" using xy(1) by blast
      ultimately have "(y, x) \<in> C\<^sup>+" unfolding C_def by (rule cycle_inside)
      then show ?thesis by (rule trancl_into_rtrancl)
    qed simp
    moreover have "mutual E0 u u" by (simp add: mutual_def)
    ultimately have "(v, u) \<in> E\<^sup>*" using path uv(2,5) by blast
    then have "mutual E u v" using uv(1) by (auto simp: mutual_def)
    with local[OF uv(5,6)] uv(4) show False by blast
  qed
  then show ?thesis unfolding Q_def[symmetric] acyclic_def by blast
qed

lemma acyclic_sinks:
  assumes "acyclic Q" and "\<And>a b c. (a, b) \<in> S \<Longrightarrow> (b, c) \<notin> Q \<union> S"
  shows "acyclic (Q \<union> S)"
proof -
  have "(a, b) \<in> Q\<^sup>+" if "(a, b) \<in> (Q \<union> S)\<^sup>+" "(b, c) \<in> Q \<union> S" for a b c
    using that
  proof (induction arbitrary: c rule: trancl_induct)
    case (base b)
    then show ?case using assms(2) by blast
  next
    case (step b d)
    then have "(b, d) \<in> Q" using assms(2) by blast
    with step.IH[OF step.hyps(2)] show ?case by (rule trancl_into_trancl)
  qed
  then have "(x, x) \<in> (Q \<union> S)\<^sup>+ \<Longrightarrow> (x, x) \<in> Q\<^sup>+" for x
    by (meson tranclD)
  with assms(1) show ?thesis unfolding acyclic_def by blast
qed

section \<open>Components and their resolutions\<close>

definition component_ids :: "cycle_env \<Rightarrow> ref_graph \<Rightarrow> repo_id list list" where
  "component_ids env dag = filter (\<lambda>ids. 2 \<le> length ids) (map repo_ids_of (nontrivial_sccs env dag))"

lemma set_repo_ids_of [simp]: "m \<in> set (repo_ids_of c) \<longleftrightarrow> (''REPO'', m) \<in> set c"
  by (force simp: repo_ids_of_def)

lemma sorted_repo_ids_of: "sorted c \<Longrightarrow> sorted (repo_ids_of c)"
proof (induction c)
  case (Cons x c)
  then have "sorted (repo_ids_of c)" by simp
  moreover have "snd x \<le> m" if "fst x = ''REPO''" "m \<in> set (repo_ids_of c)" for m
    using that Cons.prems by (cases x) (auto simp: less_eq_prod_def)
  ultimately show ?case
    by (cases x) (auto simp: repo_ids_of_def)
qed (simp add: repo_ids_of_def)

lemma distinct_repo_ids_of: "distinct c \<Longrightarrow> distinct (repo_ids_of c)"
  unfolding repo_ids_of_def by (auto simp: distinct_map inj_on_def)

lemma component_ids_scc:
  assumes "networkx (ce_nx env)" and "wf_graph dag" and "ids \<in> set (component_ids env dag)"
  shows "\<exists>d \<in> set (nx_sccs (ce_nx env) (shape dag)). ids = repo_ids_of (sort d) \<and> distinct ids \<and> sorted ids \<and> 2 \<le> length ids"
proof -
  obtain d where d: "d \<in> set (nx_sccs (ce_nx env) (shape dag))" "ids = repo_ids_of (sort d)" "2 \<le> length ids"
    using assms(3) by (auto simp: component_ids_def set_nontrivial_sccs)
  then show ?thesis
    using networkx.scc_distinct[OF assms(1,2) d(1)] by (auto intro: sorted_repo_ids_of distinct_repo_ids_of)
qed

lemma component_ids_mutual:
  assumes "networkx (ce_nx env)" and "wf_graph dag" and "ids \<in> set (component_ids env dag)"
    and "a \<in> set ids" and "b \<in> set ids"
  shows "mutual (arc_set dag) (''REPO'', a) (''REPO'', b) \<and> (''REPO'', a) \<in> set (nodes dag)"
proof -
  obtain d where d: "d \<in> set (nx_sccs (ce_nx env) (shape dag))" "ids = repo_ids_of (sort d)"
    using component_ids_scc[OF assms(1-3)] by blast
  with assms(4,5) networkx.scc_mutual[OF assms(1,2) d(1)] show ?thesis by simp
qed

lemma scc_class:
  assumes "networkx nx" and "wf_graph dag" and "x \<in> set (nx_sccs nx (shape dag))" and "u \<in> set x"
  shows "set x = {m \<in> set (nodes dag). mutual (arc_set dag) u m}"
proof -
  have "set x \<in> (\<lambda>n. {m \<in> set (nodes dag). mutual (arc_set dag) n m}) ` set (nodes dag)"
    using networkx.sccs_spec[OF assms(1), of "shape dag"] assms(2,3) by auto
  then obtain n where n: "set x = {m \<in> set (nodes dag). mutual (arc_set dag) n m}" by auto
  with assms(4) have "mutual (arc_set dag) n u" by blast
  then have "mutual (arc_set dag) n m \<longleftrightarrow> mutual (arc_set dag) u m" for m
    using mutual_sym mutual_trans by metis
  with n show ?thesis by simp
qed

lemma component_ids_disjoint:
  assumes "networkx (ce_nx env)" and "wf_graph dag"
    and "ids \<in> set (component_ids env dag)" and "ids' \<in> set (component_ids env dag)"
    and "a \<in> set ids" and "a \<in> set ids'"
  shows "ids = ids'"
proof -
  obtain d d' where d: "d \<in> set (nx_sccs (ce_nx env) (shape dag))" "ids = repo_ids_of (sort d)" "distinct ids" "sorted ids"
    and d': "d' \<in> set (nx_sccs (ce_nx env) (shape dag))" "ids' = repo_ids_of (sort d')" "distinct ids'" "sorted ids'"
    using component_ids_scc[OF assms(1,2)] assms(3,4) by blast
  have "set ids = set ids'"
  proof -
    have "(''REPO'', a) \<in> set d" "(''REPO'', a) \<in> set d'"
      using assms(5,6) by (simp_all add: d(2) d'(2))
    then have "set d = set d'"
      using scc_class[OF assms(1,2) d(1), of "(''REPO'', a)"] scc_class[OF assms(1,2) d'(1), of "(''REPO'', a)"] by simp
    then show ?thesis unfolding set_eq_iff by (simp add: d(2) d'(2))
  qed
  then show ?thesis using d(3,4) d'(3,4) by (simp add: sorted_distinct_set_unique)
qed

lemma distinct_component_ids:
  assumes "networkx (ce_nx env)" and "wf_graph dag"
  shows "distinct (component_ids env dag)"
proof -
  have ds: "distinct (map set (nx_sccs (ce_nx env) (shape dag)))"
    using networkx.sccs_distinct[OF assms(1), of "shape dag"] assms(2) by simp
  have "inj_on sort (set (nx_sccs (ce_nx env) (shape dag)))"
  proof (rule inj_onI)
    fix x y assume "x \<in> set (nx_sccs (ce_nx env) (shape dag))" "y \<in> set (nx_sccs (ce_nx env) (shape dag))" "sort x = sort y"
    moreover from this have "set x = set y" by (metis set_sort)
    ultimately show "x = y" using ds unfolding distinct_map by (blast dest: inj_onD)
  qed
  then have "distinct (nontrivial_sccs env dag)"
    using ds unfolding nontrivial_sccs_def distinct_sort by (auto simp: distinct_map intro: inj_on_subset)
  moreover have "inj_on repo_ids_of {c \<in> set (nontrivial_sccs env dag). 2 \<le> length (repo_ids_of c)}"
  proof (rule inj_onI)
    fix c c' assume c: "c \<in> {c \<in> set (nontrivial_sccs env dag). 2 \<le> length (repo_ids_of c)}"
      and c': "c' \<in> {c \<in> set (nontrivial_sccs env dag). 2 \<le> length (repo_ids_of c)}" and eq: "repo_ids_of c = repo_ids_of c'"
    obtain d d' where d: "d \<in> set (nx_sccs (ce_nx env) (shape dag))" "c = sort d"
      and d': "d' \<in> set (nx_sccs (ce_nx env) (shape dag))" "c' = sort d'"
      using c c' by (auto simp: set_nontrivial_sccs)
    obtain a where "a \<in> set (repo_ids_of c)"
      using c by (cases "repo_ids_of c") auto
    then have a: "(''REPO'', a) \<in> set d" "(''REPO'', a) \<in> set d'"
      using d d' eq by (metis set_repo_ids_of set_sort)+
    have "set d = set d'"
      using scc_class[OF assms d(1) a(1)] scc_class[OF assms d'(1) a(2)] by simp
    then have "d = d'" using ds d(1) d'(1) by (meson distinct_map inj_onD)
    then show "c = c'" by (simp add: d d')
  qed
  ultimately show ?thesis
    unfolding component_ids_def filter_map comp_def by (simp add: distinct_map)
qed

lemma component_of_pair:
  assumes "networkx (ce_nx env)" and "wf_graph dag" and "a \<noteq> b"
    and "(''REPO'', a) \<in> set (nodes dag)" and "(''REPO'', b) \<in> set (nodes dag)"
    and "mutual (arc_set dag) (''REPO'', a) (''REPO'', b)"
  shows "\<exists>ids \<in> set (component_ids env dag). a \<in> set ids \<and> b \<in> set ids"
proof -
  obtain d where d: "d \<in> set (nx_sccs (ce_nx env) (shape dag))" "(''REPO'', a) \<in> set d" "(''REPO'', b) \<in> set d"
    using networkx.scc_component[OF assms(1,2,4-6)] by blast
  have "2 \<le> length d" "2 \<le> length (repo_ids_of (sort d))"
    using card_mono[of "set d" "{(''REPO'', a), (''REPO'', b)}"] card_length[of d]
      card_mono[of "set (repo_ids_of (sort d))" "{a, b}"] card_length[of "repo_ids_of (sort d)"] d assms(3)
    by auto
  moreover from this d(1) have "sort d \<in> set (nontrivial_sccs env dag)"
    unfolding set_nontrivial_sccs by (intro bexI[of _ d]) simp_all
  ultimately have "repo_ids_of (sort d) \<in> set (component_ids env dag)"
    unfolding component_ids_def by simp
  with d show ?thesis by (intro bexI[of _ "repo_ids_of (sort d)"]) auto
qed


section \<open>The report of the ladder\<close>

lemma build_graph_rows:
  assumes "build_graph ns es ks c hoist = Inr g"
  shows "snd ` set (fg_edges_by_key g) \<subseteq> set es"
    and "n \<in> set (node_refs g) \<Longrightarrow> fst n \<in> {''REPO'', ''CONTRACT''}"
proof -
  from assms obtain st where st: "built (set ks) c (fleet_refs ns) (sort_key de_edge_key es) st"
    and fg: "g = \<lparr>fg_G = bs_graph st, fg_G_rev = reverse (bs_graph st), fg_G_dag = bs_dag st,
              fg_G_order = reverse (bs_dag st), fg_edges_by_key = sort_key fst (bs_by_key st),
              fg_ordering_edge_keys = bs_ordering st\<rparr>"
    by (rule build_graph_Inr)
  have "e \<in> set es" if "(k, e) \<in> set (bs_by_key st)" for k e
    using that st unfolding built_def by (auto simp: dict_get_mem)
  then show "snd ` set (fg_edges_by_key g) \<subseteq> set es"
    by (auto simp: fg)
  have kinds: "node_kind_value k \<in> {''REPO'', ''CONTRACT''}" for k by (cases k) simp_all
  assume "n \<in> set (node_refs g)"
  then obtain x :: graph_node where "n = node_ref_of (gn_kind x) (gn_id x)"
    unfolding build_graph_arcs(8)[OF assms] build_graph_arcs(9)[OF assms] set_fleet_refs by blast
  then show "fst n \<in> {''REPO'', ''CONTRACT''}"
    using kinds by (simp add: node_ref_of_def)
qed

lemma keyed_fold: "keyed d \<Longrightarrow> keyed (fold (\<lambda>c d. dict_set d (graph_node_key (f c)) (f c)) cs d)"
  by (induction cs arbitrary: d) (simp_all add: keyed_dict_set)

lemma keys_fold_contracts:
  "fst ` set (fold (\<lambda>c d. dict_set d (graph_node_key (contract_graph_node c)) v) cs d)
   \<subseteq> fst ` set d \<union> {n. fst n = ''CONTRACT''}"
proof (induction cs arbitrary: d)
  case (Cons c cs)
  from Cons[of "dict_set d (graph_node_key (contract_graph_node c)) v"] show ?case
    by (auto simp: graph_node_key_def contract_graph_node_def)
qed simp

lemma keys_fold_contract_nodes:
  "fst ` set (fold (\<lambda>c d. dict_set d (graph_node_key (contract_graph_node c)) (contract_graph_node c)) cs d)
   \<subseteq> fst ` set d \<union> {n. fst n = ''CONTRACT''}"
proof (induction cs arbitrary: d)
  case (Cons c cs)
  from Cons[of "dict_set d (graph_node_key (contract_graph_node c)) (contract_graph_node c)"] show ?case
    by (auto simp: graph_node_key_def contract_graph_node_def)
qed simp

lemma initial_ladder_ok:
  assumes "build_graph ns es ks c hoist = Inr g" and "repo_sourced es"
    and "initial_ladder env cfg contracts g = Inr st"
  shows "ladder_ok cfg st" and "(''REPO'', r) \<in> fst ` set (ld_nodes st) \<Longrightarrow> (''REPO'', r) \<in> set (node_refs g)"
proof -
  let ?ns = "map (\<lambda>(kind, node_id). ((kind, node_id), \<lparr>gn_kind = node_kind_of kind, gn_id = node_id\<rparr>)) (node_refs g)"
  let ?es = "map snd (fg_edges_by_key g)"
  have k: "keyed ?ns"
    using build_graph_rows(2)[OF assms(1)] by (fastforce simp: keyed_def graph_node_key_def node_kind_of_def)
  have s: "repo_sourced ?es"
    using build_graph_rows(1)[OF assms(1)] assms(2) by (auto simp: repo_sourced_def list_all_iff)
  define com :: "(contract_id, contract_node) dict" where "com = fold (\<lambda>c d. dict_set d (cn_contract_id c) c)
      (filter (\<lambda>c. cn_status c \<in> {CS_HOISTED, CS_MIGRATED}) (sort_key cn_contract_id contracts)) []"
  have n: "ld_nodes st = fold (\<lambda>c d. dict_set d (graph_node_key (contract_graph_node c)) (contract_graph_node c)) (map snd com) ?ns"
    and e: "ld_edges st = (if com = [] then ?es else materialize env ?es (map snd com))"
    and r: "rebuild (map snd (ld_nodes st)) (ld_edges st) cfg = Inr (ld_graph st)"
    using assms(3) unfolding initial_ladder_def Let_def com_def[symmetric] by (auto elim!: rbind_InrE)
  show "ladder_ok cfg st"
    using keyed_fold[OF k, of contract_graph_node "map snd com"] repo_sourced_materialize[OF s] s r
    by (simp add: ladder_ok_def n e)
  show "(''REPO'', r) \<in> set (node_refs g)" if "(''REPO'', r) \<in> fst ` set (ld_nodes st)"
    using that keys_fold_contract_nodes[of "map snd com" ?ns] unfolding n by force
qed

text \<open>What is known of a report: the ladder it ends in and the resolution of every component.\<close>

definition laddered :: "cycle_env \<Rightarrow> graph_config \<Rightarrow> ladder \<Rightarrow> ladder \<Rightarrow> cycle_report \<Rightarrow> bool" where
  "laddered env cfg st0 st rep \<longleftrightarrow>
     ladder_ok cfg st0 \<and> shrinks cfg st0 st \<and> rep_graph rep = ld_graph st
     \<and> (\<forall>r \<in> set (rep_resolutions rep). res_members r \<in> set (component_ids env (fg_G_dag (ld_graph st0)))
          \<and> resolved env st (res_members r) r)
     \<and> set (component_ids env (fg_G_dag (ld_graph st0))) \<subseteq> res_members ` set (rep_resolutions rep)
     \<and> inj_on res_members (set (rep_resolutions rep)) \<and> inj_on res_scc_id (set (rep_resolutions rep))"

lemma list_all2_resolved:
  assumes "list_all2 (resolved env st) cs rs"
  shows "map res_members rs = cs" and "r \<in> set rs \<Longrightarrow> resolved env st (res_members r) r"
  using assms by (induction rule: list_all2_induct) (auto simp: resolved_def)

lemma break_cycles_laddered:
  assumes "networkx (ce_nx env)" and "build_graph ns es ks c hoist = Inr g" and "repo_sourced es"
    and "distinct (map res_scc_id (rep_resolutions rep))"
    and "break_cycles env g contracts config m = Inr rep"
  shows "\<exists>cfg st0 st. laddered env cfg st0 st rep"
proof -
  define cfg where "cfg = (case config of None \<Rightarrow> default_graph_config | Some c \<Rightarrow> c)"
  obtain st0 st rs fs js M by_id where i: "initial_ladder env cfg contracts g = Inr st0"
    and a: "resolve_all env cfg M by_id (nontrivial_sccs env (fg_G_dag (ld_graph st0))) st0 [] [] [] = Inr (st, rs, fs, js)"
    and rep: "rep_resolutions rep = sort_key res_scc_id rs" "rep_graph rep = ld_graph st"
    using assms(5) unfolding break_cycles_def Let_def cfg_def[symmetric]
    by (elim rbind_InrE) (auto elim!: rbind_InrE)
  note ok = initial_ladder_ok[OF assms(2,3) i]
  note wf = ladder_arcs(1)[OF ok(1)]
  let ?cs = "component_ids env (fg_G_dag (ld_graph st0))"
  have sh: "shrinks cfg st0 st" and l: "list_all2 (resolved env st) ?cs rs"
    using resolve_all_spec[OF assms(1) a ok(1)] by (auto simp: component_ids_def)
  note res = list_all2_resolved[OF l]
  have d: "distinct (map res_members rs)"
    using distinct_component_ids[OF assms(1) wf] res(1) by simp
  have "inj_on res_scc_id (set rs)"
    using conjunct2[OF iffD1[OF distinct_map assms(4)]] unfolding rep(1) set_sort .
  with d have inj: "inj_on res_members (set rs)" "inj_on res_scc_id (set rs)"
    by (simp_all add: distinct_map)
  have cs: "set ?cs = res_members ` set rs"
    using arg_cong[OF res(1), of set] by simp
  have "laddered env cfg st0 st rep"
    unfolding laddered_def rep set_sort cs using ok(1) sh inj res(2) by blast
  then show ?thesis by blast
qed


lemma laddered_report_ok:
  assumes "networkx (ce_nx env)" and "laddered env cfg st0 st rep"
  shows "report_ok rep"
proof -
  have ok: "ladder_ok cfg st0" "ladder_ok cfg st" and g: "rep_graph rep = ld_graph st"
    using assms(2) by (auto simp: laddered_def shrinks_def)
  have b: "build_graph (map snd (ld_nodes st)) (ld_edges st) (gc_dag_edge_kinds cfg) (gc_min_confidence cfg)
      (gc_hoist_contracts cfg) = Inr (ld_graph st)"
    using ok(2) by (simp add: ladder_ok_def rebuild_Inr)
  have "fst n \<noteq> SCC_NODE_KIND" if "n \<in> set (nodes (fg_G_dag (ld_graph st)))" for n
    using build_graph_rows(2)[OF b, of n] that
    unfolding build_graph_arcs(7)[OF b] build_graph_arcs(8)[OF b] by (auto simp: SCC_NODE_KIND_def)
  moreover have "r = r'" if r: "r \<in> set (rep_resolutions rep)" "r' \<in> set (rep_resolutions rep)"
      "res_scc_id r = res_scc_id r' \<or> set (res_members r) \<inter> set (res_members r') \<noteq> {}" for r r'
  proof (cases "res_scc_id r = res_scc_id r'")
    case True
    then show ?thesis using assms(2) r unfolding laddered_def by (meson inj_onD)
  next
    case False
    then obtain a where a: "a \<in> set (res_members r)" "a \<in> set (res_members r')" using r(3) by blast
    have "res_members r = res_members r'"
      by (rule component_ids_disjoint[OF assms(1) ladder_arcs(1)[OF ok(1)] _ _ a])
        (use assms(2) r(1,2) in \<open>auto simp: laddered_def\<close>)
    then show ?thesis using assms(2) r(1,2) unfolding laddered_def by (meson inj_onD)
  qed
  ultimately show ?thesis
    unfolding report_ok_def atomic_disjoint_def g using ladder_arcs(1)[OF ok(2)] by blast
qed

text \<open>Two different repositories on a cycle of the first graph have one resolution.\<close>

lemma laddered_pair:
  assumes "networkx (ce_nx env)" and "laddered env cfg st0 st rep"
    and "u \<noteq> v" and "mutual (repo_arcs cfg (ld_edges st0)) u v"
  shows "\<exists>r \<in> set (rep_resolutions rep). \<exists>a \<in> set (res_members r). \<exists>b \<in> set (res_members r).
    u = (''REPO'', a) \<and> v = (''REPO'', b)"
proof -
  have ok: "ladder_ok cfg st0"
    using assms(2) by (simp add: laddered_def)
  have uv: "u \<in> set (nodes (fg_G_dag (ld_graph st0)))" "fst u = ''REPO''"
    "v \<in> set (nodes (fg_G_dag (ld_graph st0)))" "fst v = ''REPO''"
    using ladder_node[OF ok assms(3,4)] ladder_node[OF ok assms(3)[symmetric] mutual_sym[OF assms(4)]] by simp_all
  obtain a b where ab: "u = (''REPO'', a)" "v = (''REPO'', b)" using uv(2,4) by (metis prod.collapse)
  have "mutual (arc_set (fg_G_dag (ld_graph st0))) u v"
    using ladder_mutual[OF ok uv(2,4)] assms(4) by simp
  then obtain ids where "ids \<in> set (component_ids env (fg_G_dag (ld_graph st0)))" "a \<in> set ids" "b \<in> set ids"
    using component_of_pair[OF assms(1) ladder_arcs(1)[OF ok], of a b] uv assms(3) ab by auto
  moreover from this obtain r where "r \<in> set (rep_resolutions rep)" "res_members r = ids"
    using assms(2) unfolding laddered_def by blast
  ultimately show ?thesis using ab by blast
qed

lemma laddered_mutual:
  assumes "networkx (ce_nx env)" and "laddered env cfg st0 st rep" and "r \<in> set (rep_resolutions rep)"
    and "a \<in> set (res_members r)" and "b \<in> set (res_members r)"
  shows "mutual (repo_arcs cfg (ld_edges st0)) (''REPO'', a) (''REPO'', b)"
    and "(''REPO'', a) \<in> set (nodes (fg_G_dag (rep_graph rep)))"
proof -
  have ok: "ladder_ok cfg st0" "ladder_ok cfg st" and g: "rep_graph rep = ld_graph st"
    and sub: "fst ` set (ld_nodes st0) \<subseteq> fst ` set (ld_nodes st)"
    using assms(2) by (auto simp: laddered_def shrinks_def)
  have "res_members r \<in> set (component_ids env (fg_G_dag (ld_graph st0)))"
    using assms(2,3) by (simp add: laddered_def)
  note c = component_ids_mutual[OF assms(1) ladder_arcs(1)[OF ok(1)] this assms(4,5)]
  then show "mutual (repo_arcs cfg (ld_edges st0)) (''REPO'', a) (''REPO'', b)"
    using ladder_mutual[OF ok(1), of "(''REPO'', a)" "(''REPO'', b)"] by simp
  show "(''REPO'', a) \<in> set (nodes (fg_G_dag (rep_graph rep)))"
    using c sub unfolding g ladder_nodes[OF ok(1)] ladder_nodes[OF ok(2)] by blast
qed

lemma resolutions_disjoint:
  assumes "networkx (ce_nx env)" and "laddered env cfg st0 st rep"
    and "r \<in> set (rep_resolutions rep)" and "r' \<in> set (rep_resolutions rep)"
    and "a \<in> set (res_members r)" and "a \<in> set (res_members r')"
  shows "r = r'"
proof -
  have ok: "ladder_ok cfg st0" using assms(2) by (simp add: laddered_def)
  have "res_members r = res_members r'"
    by (rule component_ids_disjoint[OF assms(1) ladder_arcs(1)[OF ok] _ _ assms(5,6)])
      (use assms(2-4) in \<open>auto simp: laddered_def\<close>)
  then show ?thesis using assms(2-4) unfolding laddered_def by (meson inj_onD)
qed


lemma order_node_cases:
  assumes "report_ok rep"
  obtains "order_node_of rep n = n"
  | r m where "r \<in> set (rep_resolutions rep)" "res_strategy r = ATOMIC_WAVE" "m \<in> set (res_members r)"
    "n = (''REPO'', m)" "order_node_of rep n = (SCC_NODE_KIND, res_scc_id r)"
proof (cases "dict_get (atomic_mapping (rep_resolutions rep)) n")
  case (Some s)
  have disj: "atomic_disjoint (rep_resolutions rep)"
    using assms by (simp add: report_ok_def)
  obtain r m where r: "r \<in> set (rep_resolutions rep)" "res_strategy r = ATOMIC_WAVE" "s = (SCC_NODE_KIND, res_scc_id r)"
    "m \<in> set (res_members r)" "n = (node_kind_value REPO, m)"
    using Some[unfolded atomic_mapping_iff[OF disj]] by blast
  then have n: "n = (''REPO'', m)" "order_node_of rep n = (SCC_NODE_KIND, res_scc_id r)"
    using Some by (simp_all add: order_node_of_def map_ref_def)
  show ?thesis by (rule that(2)[OF r(1,2,4) n])
qed (auto simp: order_node_of_def map_ref_def intro: that(1))

lemma laddered_merge:
  assumes "networkx (ce_nx env)" and "laddered env cfg st0 st rep"
    and "fst u = ''REPO''" and "fst v = ''REPO''" and "u \<noteq> v" and "order_node_of rep u = order_node_of rep v"
  shows "\<exists>r \<in> set (rep_resolutions rep). res_strategy r = ATOMIC_WAVE
    \<and> u \<in> Pair ''REPO'' ` set (res_members r) \<and> v \<in> Pair ''REPO'' ` set (res_members r)"
proof -
  note rok = laddered_report_ok[OF assms(1,2)]
  have ne: "fst u \<noteq> SCC_NODE_KIND" "fst v \<noteq> SCC_NODE_KIND"
    using assms(3,4) by (simp_all add: SCC_NODE_KIND_def)
  obtain r m where u: "r \<in> set (rep_resolutions rep)" "res_strategy r = ATOMIC_WAVE" "m \<in> set (res_members r)"
      "u = (''REPO'', m)" "order_node_of rep u = (SCC_NODE_KIND, res_scc_id r)"
    by (rule order_node_cases[OF rok, of u], rule order_node_cases[OF rok, of v]) (use assms(5,6) ne in auto)
  obtain r' m' where v: "r' \<in> set (rep_resolutions rep)" "res_strategy r' = ATOMIC_WAVE" "m' \<in> set (res_members r')"
      "v = (''REPO'', m')" "order_node_of rep v = (SCC_NODE_KIND, res_scc_id r')"
    by (rule order_node_cases[OF rok, of v]) (use assms(6) ne u(5) in auto)
  have "res_scc_id r = res_scc_id r'" using u(5) v(5) assms(6) by simp
  then have "r = r'" using assms(2) u(1) v(1) unfolding laddered_def by (meson inj_onD)
  with u v show ?thesis by blast
qed

text \<open>A component with a merged member is merged into one node.\<close>

lemma laddered_whole:
  assumes "networkx (ce_nx env)" and "laddered env cfg st0 st rep"
    and repo: "fst w = ''REPO''" "fst w' = ''REPO''"
    and uv: "mutual (repo_arcs cfg (ld_edges st0)) u v" "order_node_of rep u \<noteq> order_node_of rep v"
    and w: "mutual (repo_arcs cfg (ld_edges st0)) u w" "order_node_of rep w' = order_node_of rep w"
  shows "w' = w"
proof (rule ccontr)
  assume "w' \<noteq> w"
  then obtain r c where r: "r \<in> set (rep_resolutions rep)" "res_strategy r = ATOMIC_WAVE" "w = (''REPO'', c)"
    "c \<in> set (res_members r)"
    using laddered_merge[OF assms(1,2) repo(2,1)] w(2) by blast
  have in_r: "\<exists>a \<in> set (res_members r). x = (''REPO'', a)" if x: "mutual (repo_arcs cfg (ld_edges st0)) x w" for x
  proof (cases "x = w")
    case False
    from laddered_pair[OF assms(1,2) this x] obtain r' a where r': "r' \<in> set (rep_resolutions rep)"
      "a \<in> set (res_members r')" "x = (''REPO'', a)" "c \<in> set (res_members r')"
      using r(3) by auto
    then have "r' = r" using resolutions_disjoint[OF assms(1,2) r'(1) r(1) r'(4) r(4)] by simp
    with r' show ?thesis by blast
  qed (use r in blast)
  have "mutual (repo_arcs cfg (ld_edges st0)) v w" using uv(1) w(1) mutual_sym mutual_trans by metis
  with in_r w(1) obtain a b where "a \<in> set (res_members r)" "u = (''REPO'', a)" "b \<in> set (res_members r)" "v = (''REPO'', b)"
    by metis
  then show False
    using order_node_of_member[OF laddered_report_ok[OF assms(1,2)] r(1,2)] uv(2) by simp
qed

text \<open>A cycle that is left in the graph lies in one merged component, or in one that is dropped.\<close>

lemma laddered_local:
  assumes "networkx (ce_nx env)" and "laddered env cfg st0 st rep"
    and m: "mutual (repo_arcs cfg (ld_edges st)) u v" and u: "snd u \<notin> dropped_of rep gated"
  shows "order_node_of rep u = order_node_of rep v"
proof (cases "u = v")
  case False
  have ok: "ladder_ok cfg st" and sub: "repo_arcs cfg (ld_edges st) \<subseteq> repo_arcs cfg (ld_edges st0)"
    using assms(2) by (auto simp: laddered_def shrinks_def)
  obtain r a b where r: "r \<in> set (rep_resolutions rep)" "a \<in> set (res_members r)" "b \<in> set (res_members r)"
    "u = (''REPO'', a)" "v = (''REPO'', b)"
    using laddered_pair[OF assms(1,2) False mutual_mono[OF sub m]] by blast
  have "res_strategy r \<noteq> MANUAL"
    using r u by (auto simp: dropped_of_def manual_repo_ids_def manual_members_def)
  moreover have "live_component env (fg_G_dag (ld_graph st)) (res_members r) \<noteq> []"
    using live_component_empty_repo[OF assms(1) ok] m r False by blast
  ultimately have "res_strategy r = ATOMIC_WAVE"
    using assms(2) r(1) unfolding laddered_def resolved_def by blast
  then show ?thesis
    using order_node_of_member[OF laddered_report_ok[OF assms(1,2)] r(1)] r by simp
qed simp

lemma condensed_sinks:
  assumes "report_ok rep" and "\<And>u v. (u, v) \<in> arc_set (fg_G_dag (rep_graph rep)) \<Longrightarrow> fst u = ''REPO''"
    and uv: "(u, v) \<in> arc_set (fg_G_dag (rep_graph rep))" "fst v \<noteq> ''REPO''"
    and xy: "(x, y) \<in> arc_set (fg_G_dag (rep_graph rep))"
  shows "order_node_of rep v \<noteq> order_node_of rep x"
proof -
  have "order_node_of rep v = v" by (rule order_node_cases[OF assms(1), of v]) (use uv in auto)
  moreover have "fst v \<noteq> SCC_NODE_KIND"
    using assms(1) wf_arcD[OF _ uv(1)] unfolding report_ok_def by blast
  moreover have "fst (order_node_of rep x) = ''REPO'' \<or> fst (order_node_of rep x) = SCC_NODE_KIND"
    by (rule order_node_cases[OF assms(1), of x]) (use assms(2)[OF xy] in auto)
  ultimately show ?thesis using uv(2) by metis
qed

lemma laddered_acyclic:
  assumes "networkx (ce_nx env)" and "laddered env cfg st0 st rep"
  shows "acyclic (arc_set (condensed_of rep gated))"
proof -
  note rok = laddered_report_ok[OF assms]
  have ok: "ladder_ok cfg st0" "ladder_ok cfg st" and g: "rep_graph rep = ld_graph st"
    and sub: "repo_arcs cfg (ld_edges st) \<subseteq> repo_arcs cfg (ld_edges st0)"
    using assms(2) by (auto simp: laddered_def shrinks_def)
  let ?A = "arc_set (fg_G_dag (rep_graph rep))" and ?D = "dropped_of rep gated" and ?f = "order_node_of rep"
  define E where "E = {(u, v) \<in> ?A. fst v = ''REPO'' \<and> snd u \<notin> ?D \<and> snd v \<notin> ?D}"
  have E: "E \<subseteq> repo_arcs cfg (ld_edges st)"
    using ladder_arcs(2)[OF ok(2)] unfolding E_def g by blast
  have kept: "snd u \<notin> ?D" if uv: "u \<noteq> v" "mutual E u v" for u v
  proof -
    obtain x where "(u, x) \<in> E" using uv unfolding mutual_def by (meson converse_rtranclE)
    then show ?thesis unfolding E_def by simp
  qed
  have local: "?f u = ?f v" if "mutual E u v" for u v
    using laddered_local[OF assms mutual_mono[OF E that] kept[OF _ that]] by (cases "u = v") simp_all
  let ?Q = "{(?f u, ?f v) | u v. (u, v) \<in> E \<and> ?f u \<noteq> ?f v}"
  let ?S = "{(?f u, ?f v) | u v. (u, v) \<in> ?A \<and> fst v \<noteq> ''REPO'' \<and> snd u \<notin> ?D \<and> snd v \<notin> ?D \<and> ?f u \<noteq> ?f v}"
  have Q: "acyclic ?Q"
  proof (rule quotient_acyclic[where f = "order_node_of rep" and E = E and N = "{n. fst n = ''REPO''}"
        and ?E0.0 = "repo_arcs cfg (ld_edges st0)"])
    show "E \<subseteq> repo_arcs cfg (ld_edges st0)" using E sub by blast
    show "u \<in> {n. fst n = ''REPO''} \<and> v \<in> {n. fst n = ''REPO''}" if "(u, v) \<in> E" for u v
      using that ladder_arcs(3)[OF ok(2)] unfolding E_def g by blast
    show "mutual (repo_arcs cfg (ld_edges st0)) u v"
      if "u \<in> {n. fst n = ''REPO''}" "v \<in> {n. fst n = ''REPO''}" "?f u = ?f v" "u \<noteq> v" for u v
      using laddered_merge[OF assms, of u v] that laddered_mutual(1)[OF assms] by blast
  qed (use laddered_whole[OF assms] local in auto)
  have arcs: "arc_set (condensed_of rep gated) = ?Q \<union> ?S"
    unfolding condensed_of(3)[OF rok] E_def by blast
  have sinks: "(b, c) \<notin> ?Q \<union> ?S" if s: "(a, b) \<in> ?S" for a b c
  proof -
    have from_repo: "fst u = ''REPO''" if "(u, v) \<in> ?A" for u v
      using ladder_arcs(3)[OF ok(2)] that unfolding g by blast
    obtain u v where uv: "(u, v) \<in> ?A" "fst v \<noteq> ''REPO''" "b = ?f v" using s by blast
    have "b \<noteq> ?f x" if "(x, y) \<in> ?A" for x y
      using condensed_sinks[OF rok from_repo uv(1,2) that] uv(3) by simp
    then show ?thesis unfolding E_def by blast
  qed
  show ?thesis unfolding arcs by (rule acyclic_sinks[OF Q sinks])
qed


section \<open>The sequencer succeeds on every report of the ladder\<close>

lemma assign_waves_iff:
  assumes "networkx nx" and "report_ok rep" and "acyclic (arc_set (condensed_of rep gated))"
  obtains L index where
    "levels ((arc_set (condensed_of rep gated))\<inverse>) (set (nodes (condensed_of rep gated))) L"
    and "\<And>n. dict_get index n = (if fst n = SCC_NODE_KIND then None else dict_get L (order_node_of rep n))"
    and "(\<exists>plan. assign_waves nx rep gated = Inr plan) \<longleftrightarrow>
      (\<forall>r \<in> set (rep_resolutions rep). \<exists>f. finding_of index r = Inr f)"
proof -
  note wf = condensed_of(1)[OF assms(2), of gated]
  obtain L where L: "layer nx (condensed_of rep gated) = Inr L"
    "levels ((arc_set (condensed_of rep gated))\<inverse>) (set (nodes (condensed_of rep gated))) L"
    using layer_total[OF assms(1) wf assms(3)] by blast
  obtain index sccs where i: "index_loop (scc_members_of (rep_resolutions rep)) (sort L) [] [] = Inr (index, sccs)"
    and get: "\<And>n. dict_get index n = (if fst n = SCC_NODE_KIND then None else dict_get L (order_node_of rep n))"
    using index_of_layers[OF assms(2) L(2)] by blast
  have ac: "ordering_is_acyclic nx (condensed_of rep gated)"
    using networkx.graph_acyclic[OF assms(1) wf] assms(3) by (simp add: ordering_is_acyclic_def)
  have "(\<exists>plan. assign_waves nx rep gated = Inr plan) \<longleftrightarrow>
      (\<exists>fs. traverse (finding_of index) (sort_key res_scc_id (rep_resolutions rep)) = Inr fs)"
    using ac L(1) i unfolding assign_waves_def Let_def condensed_of_def excluded_of_def
    by (simp add: rbind_Inr_iff)
  also have "\<dots> \<longleftrightarrow> (\<forall>r \<in> set (rep_resolutions rep). \<exists>f. finding_of index r = Inr f)"
    using traverse_ex_iff[of "finding_of index" "sort_key res_scc_id (rep_resolutions rep)"] by simp
  finally show ?thesis using that[OF L(2) get] by blast
qed


lemma resolution_finding:
  assumes "networkx (ce_nx env)" and "laddered env cfg st0 st rep" and "r \<in> set (rep_resolutions rep)"
    and "levels ((arc_set (condensed_of rep gated))\<inverse>) (set (nodes (condensed_of rep gated))) L"
    and "\<And>n. dict_get index n = (if fst n = SCC_NODE_KIND then None else dict_get L (order_node_of rep n))"
  shows "(\<exists>f. finding_of index r = Inr f) \<longleftrightarrow>
    (res_strategy r = ATOMIC_WAVE \<longrightarrow> (SCC_NODE_KIND, res_scc_id r) \<in> set (nodes (condensed_of rep gated)))"
proof -
  note rok = laddered_report_ok[OF assms(1,2)]
  have ok: "ladder_ok cfg st0" and res: "resolved env st (res_members r) r"
    and "res_members r \<in> set (component_ids env (fg_G_dag (ld_graph st0)))"
    using assms(2,3) by (simp_all add: laddered_def)
  then have two: "2 \<le> length (res_members r)"
    using component_ids_scc[OF assms(1) ladder_arcs(1)[OF ok]] by blast
  let ?i = "dict_get index (node_kind_value REPO, hd (res_members r))"
  have i: "?i = dict_get L (SCC_NODE_KIND, res_scc_id r)" if "res_strategy r = ATOMIC_WAVE"
  proof -
    have "hd (res_members r) \<in> set (res_members r)" using two by (cases "res_members r") simp_all
    from order_node_of_member[OF rok assms(3) that this] show ?thesis
      unfolding assms(5) by (simp add: SCC_NODE_KIND_def)
  qed
  have some: "dict_get L (SCC_NODE_KIND, res_scc_id r) \<noteq> None \<longleftrightarrow>
      (SCC_NODE_KIND, res_scc_id r) \<in> set (nodes (condensed_of rep gated))"
    using levels_get[OF assms(4)] by simp
  have nonneg: "0 \<le> j" if "dict_get L n = Some j" for n j
    using levels_nonneg[OF assms(4), of n] that levels_get[OF assms(4), of n] by (auto split: if_splits)
  have "(\<exists>f. finding_of index r = Inr f) \<longleftrightarrow> (res_strategy r = ATOMIC_WAVE \<longrightarrow> ?i \<noteq> None)"
    using two res i nonneg
    by (cases "res_strategy r")
      (auto simp: finding_of_def to_finding_def strategy_is_substantiated_def Let_def resolved_def split: option.splits)
  with i some show ?thesis by metis
qed

lemma laddered_kept:
  assumes "networkx (ce_nx env)" and "laddered env cfg st0 st rep" and "r \<in> set (rep_resolutions rep)"
    and "res_strategy r = ATOMIC_WAVE"
  shows "(SCC_NODE_KIND, res_scc_id r) \<in> set (nodes (condensed_of rep gated)) \<longleftrightarrow>
    \<not> set (res_members r) \<subseteq> set gated"
proof -
  note rok = laddered_report_ok[OF assms(1,2)]
  have dropped: "m \<in> dropped_of rep gated \<longleftrightarrow> m \<in> set gated" if m: "m \<in> set (res_members r)" for m
  proof -
    have "m \<notin> set (manual_repo_ids rep)"
    proof
      assume "m \<in> set (manual_repo_ids rep)"
      then obtain r' where r': "r' \<in> set (rep_resolutions rep)" "res_strategy r' = MANUAL" "m \<in> set (res_members r')"
        by (auto simp: manual_repo_ids_def manual_members_def)
      then have "r' = r" using resolutions_disjoint[OF assms(1,2) r'(1) assms(3) r'(3) m] by simp
      with r'(2) assms(4) show False by simp
    qed
    then show ?thesis by (simp add: dropped_of_def)
  qed
  show ?thesis
  proof
    assume "(SCC_NODE_KIND, res_scc_id r) \<in> set (nodes (condensed_of rep gated))"
    then show "\<not> set (res_members r) \<subseteq> set gated"
      using scc_node_kept[OF rok assms(3,4)] dropped by blast
  next
    assume "\<not> set (res_members r) \<subseteq> set gated"
    then obtain m where m: "m \<in> set (res_members r)" "m \<notin> dropped_of rep gated" using dropped by blast
    then have "(node_kind_value REPO, m) \<in> kept_refs (fg_G_dag (rep_graph rep)) (dropped_of rep gated)"
      using laddered_mutual(2)[OF assms(1-3) m(1) m(1)] by (simp add: kept_refs_def)
    from imageI[OF this, of "order_node_of rep"]
    show "(SCC_NODE_KIND, res_scc_id r) \<in> set (nodes (condensed_of rep gated))"
      unfolding condensed_of(2)[OF rok] order_node_of_member[OF rok assms(3,4) m(1)] .
  qed
qed

text \<open>
  C2: Whatever the fleet graph is, what the resolution ladder reports can be sequenced. For a graph
  built from edges that start at repositories, and a report whose component ids differ from each
  other (an id is the first sixteen hexadecimal digits of a digest of the members, and the ids of one
  report are as many as it has components): the ordering graph with the atomic components condensed and the manual ones dropped has no cycle, for
  every set of gated repositories, so \<open>assign_waves\<close> never refuses it as cyclic; and it returns a plan
  exactly when no atomic component is gated as a whole.
\<close>

theorem break_cycles_enables_sequencing:
  assumes "networkx (ce_nx env)" and "networkx nx"
    and "build_graph ns es ks c hoist = Inr g" and "\<forall>e \<in> set es. de_src_kind e = REPO"
    and "break_cycles env g contracts config min_consumers = Inr rep"
    and "distinct (map res_scc_id (rep_resolutions rep))"
  shows "acyclic (arc_set (condensed_of rep gated))
    \<and> ((\<exists>plan. assign_waves nx rep gated = Inr plan) \<longleftrightarrow>
         (\<forall>r \<in> set (rep_resolutions rep). res_strategy r = ATOMIC_WAVE \<longrightarrow> \<not> set (res_members r) \<subseteq> set gated))"
proof -
  obtain cfg st0 st where l: "laddered env cfg st0 st rep"
    using break_cycles_laddered[OF assms(1,3) _ assms(6,5)] assms(4) by (auto simp: repo_sourced_def list_all_iff)
  have ac: "acyclic (arc_set (condensed_of rep gated))" by (rule laddered_acyclic[OF assms(1) l])
  obtain L index where L: "levels ((arc_set (condensed_of rep gated))\<inverse>) (set (nodes (condensed_of rep gated))) L"
    and get: "\<And>n. dict_get index n = (if fst n = SCC_NODE_KIND then None else dict_get L (order_node_of rep n))"
    and iff: "(\<exists>plan. assign_waves nx rep gated = Inr plan) \<longleftrightarrow>
      (\<forall>r \<in> set (rep_resolutions rep). \<exists>f. finding_of index r = Inr f)"
    using assign_waves_iff[OF assms(2) laddered_report_ok[OF assms(1) l] ac] by blast
  show ?thesis
    unfolding iff using ac resolution_finding[OF assms(1) l _ L get] laddered_kept[OF assms(1) l] by simp
qed


definition sample_edge :: "edge_key \<Rightarrow> repo_id \<Rightarrow> repo_id \<Rightarrow> dependency_edge" where
  "sample_edge key src dst =
     \<lparr>de_edge_id = None, de_edge_key = key, de_src_kind = REPO, de_src_id = src, de_dst_kind = REPO,
      de_dst_coordinate = Some \<lparr>co_ecosystem = ECO_NPM, co_group = '''', co_name = dst, co_version_spec = None\<rparr>,
      de_dst_id = Some dst, de_dst_candidates = [], de_retargeted_from = None,
      de_kind = DECLARED_DEP, de_version_spec = None, de_base_confidence = 1, de_confidence = 1,
      de_confidence_factors = [], de_ambiguous = False, de_suppressed = False, de_evidence_path = ''f'',
      de_evidence_line = None, de_detected_at = 0\<rparr>"

definition sample_edges :: "dependency_edge list" where
  "sample_edges = [sample_edge ''j'' ''a'' ''b'', sample_edge ''k'' ''b'' ''a'']"

definition sample_nodes :: "graph_node list" where
  "sample_nodes = [\<lparr>gn_kind = REPO, gn_id = ''a''\<rparr>, \<lparr>gn_kind = REPO, gn_id = ''b''\<rparr>]"

definition sample_env :: cycle_env where
  "sample_env = \<lparr>ce_sha256 = (\<lambda>s. s), ce_now = 0, ce_fingerprint = gf_kind, ce_nx = reference_nx\<rparr>"

text \<open>The two repositories depend on each other; the ladder keeps them as one atomic component.\<close>

theorem break_cycles_enables_sequencing_witness:
  "\<exists>g rep plan. build_graph sample_nodes sample_edges DAG_EDGE_KINDS (1/2) True = Inr g
     \<and> break_cycles sample_env g [] None None = Inr rep
     \<and> map (\<lambda>r. (res_members r, res_strategy r)) (rep_resolutions rep) = [([''a'', ''b''], ATOMIC_WAVE)]
     \<and> acyclic (arc_set (condensed_of rep [''a''])) \<and> assign_waves reference_nx rep [''a''] = Inr plan"
proof -
  have "map_sum (\<lambda>_. ()) (\<lambda>g. (node_refs g,
          map_sum (\<lambda>_. ()) (\<lambda>rep. map (\<lambda>r. (res_members r, res_strategy r)) (rep_resolutions rep))
            (break_cycles sample_env g [] None None)))
        (build_graph sample_nodes sample_edges DAG_EDGE_KINDS (1/2) True)
      = Inr ([(''REPO'', ''a''), (''REPO'', ''b'')], Inr [([''a'', ''b''], ATOMIC_WAVE)])"
    by code_simp
  then obtain g rep where g: "build_graph sample_nodes sample_edges DAG_EDGE_KINDS (1/2) True = Inr g"
    and refs: "node_refs g = [(''REPO'', ''a''), (''REPO'', ''b'')]"
    and rep: "break_cycles sample_env g [] None None = Inr rep"
      "map (\<lambda>r. (res_members r, res_strategy r)) (rep_resolutions rep) = [([''a'', ''b''], ATOMIC_WAVE)]"
    by (cases "build_graph sample_nodes sample_edges DAG_EDGE_KINDS (1/2) True";
        cases "break_cycles sample_env (projr (build_graph sample_nodes sample_edges DAG_EDGE_KINDS (1/2) True)) [] None None") auto
  have ids: "distinct (map res_scc_id (rep_resolutions rep))"
    using arg_cong[OF rep(2), of length] by (cases "rep_resolutions rep") auto
  have "networkx (ce_nx sample_env)"
    using reference.networkx_axioms by (simp add: sample_env_def)
  moreover have "\<forall>e \<in> set sample_edges. de_src_kind e = REPO"
    by (simp add: sample_edges_def sample_edge_def)
  ultimately have "acyclic (arc_set (condensed_of rep [''a'']))
    \<and> ((\<exists>plan. assign_waves reference_nx rep [''a''] = Inr plan) \<longleftrightarrow>
         (\<forall>r \<in> set (rep_resolutions rep). res_strategy r = ATOMIC_WAVE \<longrightarrow> \<not> set (res_members r) \<subseteq> set [''a'']))"
    by (rule break_cycles_enables_sequencing[OF _ reference.networkx_axioms g _ rep(1) ids])
  with g rep show ?thesis by auto
qed


section \<open>Limits of the ladder\<close>

lemma hoist_loop_bound:
  assumes "hoist_loop env cfg m ids live remaining acc = Inr h"
    and "length (ho_hoisted acc) \<le> gc_max_hoists_per_scc cfg"
  shows "length (ho_hoisted h) \<le> gc_max_hoists_per_scc cfg"
  using assms
proof (induction env cfg m ids live remaining acc arbitrary: h rule: hoist_loop.induct)
  case (1 env cfg m ids live remaining acc)
  show ?case
  proof (cases "live = [] \<or> remaining = [] \<or> length (ho_hoisted acc) \<ge> gc_max_hoists_per_scc cfg")
    case True
    with "1.prems" show ?thesis by (subst (asm) hoist_loop.simps) auto
  next
    case False
    from "1.prems"(1) False obtain c where c: "choose_hoist env cfg (ho_ladder acc) live remaining = Inr c"
      by (subst (asm) hoist_loop.simps) (auto simp: rbind_Inr_iff)
    note loop = "1.prems"(1)[unfolded hoist_loop.simps[of env cfg m ids live remaining acc] if_not_P[OF False] c rbind_simps Let_def]
    show ?thesis
    proof (cases "card (post_retarget_consumers (materialize env (ld_edges (ho_ladder acc)) [c]) (cn_contract_id c)) < m")
      case True
      from "1.IH"(1)[OF False c refl refl refl refl True loop[unfolded if_P[OF True]]] "1.prems"(2)
      show ?thesis by simp
    next
      case few: False
      note cont = loop[unfolded if_not_P[OF few] rbind_Inr_iff]
      from cont obtain g where g: "rebuild (map snd (dict_set (ld_nodes (ho_ladder acc)) (graph_node_key (contract_graph_node c))
          (contract_graph_node c))) (materialize env (ld_edges (ho_ladder acc)) [c]) cfg = Inr g"
        by blast
      from cont[unfolded g] "1.IH"(2)[OF False c refl refl refl refl few refl refl g] False
      show ?thesis by auto
    qed
  qed
qed

lemma hoist_contracts_bound:
  "hoist_contracts env cfg m contracts ids st = Inr h \<Longrightarrow> length (ho_hoisted h) \<le> gc_max_hoists_per_scc cfg"
  by (auto simp: hoist_contracts_def Let_def split: if_splits dest!: hoist_loop_bound)

lemma break_loop_bound:
  "break_loop env cfg ids k live broken st = Inr (live', broken', st') \<Longrightarrow> length broken' \<le> length broken + k"
proof (induction k arbitrary: live broken st)
  case (Suc k)
  then show ?case
    by (fastforce simp: rbind_Inr_iff Let_def split: if_splits option.splits dest!: Suc.IH)
qed simp

definition within_limits :: "graph_config \<Rightarrow> scc_resolution \<Rightarrow> bool" where
  "within_limits cfg r \<longleftrightarrow>
     length (res_hoisted r) \<le> gc_max_hoists_per_scc cfg \<and> length (res_broken r) \<le> gc_max_breaks_per_scc cfg
     \<and> (res_strategy r = MANUAL \<longleftrightarrow> gc_scc_hard_max cfg < length (res_members r))
     \<and> (res_strategy r = MANUAL \<longrightarrow> res_hoisted r = [] \<and> res_broken r = [])
     \<and> (\<not> gc_hoist_contracts cfg \<longrightarrow> res_hoisted r = [])"

lemma resolve_scc_limits:
  assumes "resolve_scc env cfg m contracts members ids st = Inr out1"
  shows "within_limits cfg (so_resolution out1)"
proof (cases "length ids > gc_scc_hard_max cfg")
  case True
  with assms show ?thesis
    by (auto simp: resolve_scc_def Let_def rbind_Inr_iff within_limits_def)
next
  case False
  obtain h where h: "(if gc_hoist_contracts cfg then hoist_contracts env cfg m contracts ids st
                 else Inr \<lparr>ho_hoisted = [], ho_ladder = st, ho_findings = [], ho_rejected = []\<rparr>) = Inr h"
    using assms False by (auto simp: resolve_scc_def Let_def rbind_Inr_iff)
  have hb: "length (ho_hoisted h) \<le> gc_max_hoists_per_scc cfg" "\<not> gc_hoist_contracts cfg \<Longrightarrow> ho_hoisted h = []"
    using h by (auto split: if_splits dest: hoist_contracts_bound)
  let ?live = "live_component env (fg_G_dag (ld_graph (ho_ladder h))) ids"
  show ?thesis
  proof (cases "?live = []")
    case True
    with assms False h hb show ?thesis
      by (auto simp: resolve_scc_def Let_def rbind_Inr_iff within_limits_def split: if_splits)
  next
    case live: False
    obtain live' broken st' where b: "break_loop env cfg ids (gc_max_breaks_per_scc cfg) ?live [] (ho_ladder h) = Inr (live', broken, st')"
      and o': "res_members (so_resolution out1) = ids" "res_hoisted (so_resolution out1) = ho_hoisted h"
        "res_strategy (so_resolution out1) = (if live' = [] then EDGE_BREAK else ATOMIC_WAVE)" "res_broken (so_resolution out1) = broken"
      using assms False h live by (auto simp: resolve_scc_def Let_def rbind_Inr_iff)
    from break_loop_bound[OF b] hb False show ?thesis
      by (auto simp: within_limits_def o')
  qed
qed

lemma resolve_all_limits:
  "resolve_all env cfg m contracts cs st rs fs js = Inr (st', rs', fs', js') \<Longrightarrow>
   \<forall>r \<in> set rs. within_limits cfg r \<Longrightarrow> \<forall>r \<in> set rs'. within_limits cfg r"
proof (induction cs arbitrary: st rs fs js)
  case (Cons c cs)
  show ?case
  proof (cases "length (repo_ids_of c) < 2")
    case True
    with Cons show ?thesis by (simp add: Let_def)
  next
    case False
    then obtain o' where o': "resolve_scc env cfg m contracts c (repo_ids_of c) st = Inr o'"
      and cont: "resolve_all env cfg m contracts cs (so_ladder o') (rs @ [so_resolution o']) (fs @ so_findings o') (js @ so_rejected o')
          = Inr (st', rs', fs', js')"
      using Cons.prems(1) by (auto simp: Let_def rbind_Inr_iff)
    show ?thesis
      by (rule Cons.IH[OF cont]) (use Cons.prems(2) resolve_scc_limits[OF o'] in auto)
  qed
qed simp

text \<open>
  No resolution exceeds the configured limits: at most \<open>max_hoists_per_scc\<close> contracts hoisted and
  \<open>max_breaks_per_scc\<close> edges suppressed per component; a component is left to a person exactly when
  it has more than \<open>scc_hard_max\<close> repositories, and then nothing of it is hoisted or suppressed; and
  nothing is hoisted where hoisting is switched off.
\<close>

theorem resolutions_within_limits:
  assumes "break_cycles env g contracts config min_consumers = Inr rep"
    and "r \<in> set (rep_resolutions rep)"
  shows "within_limits (case config of None \<Rightarrow> default_graph_config | Some cfg \<Rightarrow> cfg) r"
proof -
  define cfg where "cfg = (case config of None \<Rightarrow> default_graph_config | Some c \<Rightarrow> c)"
  obtain st0 st rs fs js M by_id where a: "resolve_all env cfg M by_id (nontrivial_sccs env (fg_G_dag (ld_graph st0))) st0 [] [] [] = Inr (st, rs, fs, js)"
    and rep: "rep_resolutions rep = sort_key res_scc_id rs"
    using assms(1) unfolding break_cycles_def Let_def cfg_def[symmetric]
    by (elim rbind_InrE) (auto elim!: rbind_InrE)
  then show ?thesis
    using resolve_all_limits[OF a] assms(2) unfolding cfg_def by simp
qed

theorem resolutions_within_limits_witness:
  "\<exists>g rep. build_graph sample_nodes sample_edges DAG_EDGE_KINDS (1/2) True = Inr g
     \<and> break_cycles sample_env g [] (Some (default_graph_config\<lparr>gc_scc_hard_max := 1\<rparr>)) None = Inr rep
     \<and> map (\<lambda>r. (res_members r, res_strategy r, res_broken r)) (rep_resolutions rep) = [([''a'', ''b''], MANUAL, [])]"
proof -
  let ?b = "build_graph sample_nodes sample_edges DAG_EDGE_KINDS (1/2) True"
  let ?c = "Some (default_graph_config\<lparr>gc_scc_hard_max := 1\<rparr>)"
  have "map_sum (\<lambda>_. ()) (\<lambda>g. map_sum (\<lambda>_. ()) (\<lambda>rep. map res_members (rep_resolutions rep))
        (break_cycles sample_env g [] ?c None)) ?b = Inr (Inr [[''a'', ''b'']])"
    by code_simp
  then obtain g rep where g: "?b = Inr g" and rep: "break_cycles sample_env g [] ?c None = Inr rep"
      and ms: "map res_members (rep_resolutions rep) = [[''a'', ''b'']]"
    by (cases ?b; cases "break_cycles sample_env (projr ?b) [] ?c None") auto
  then obtain r where r: "rep_resolutions rep = [r]" "res_members r = [''a'', ''b'']" by auto
  from resolutions_within_limits[OF rep, of r] g rep r show ?thesis
    by (auto simp: within_limits_def)
qed


section \<open>A hoist can dissolve a later component\<close>

definition shared_contract :: contract_node where
  "shared_contract =
     \<lparr>cn_contract_id = ''c'', cn_kind = CK_PROTO, cn_identifier = ''c'', cn_owner = Some ''a'',
      cn_source_paths = [[(''repo_id'', ''a''), (''path'', ''p'')]],
      cn_generated_paths = [[(''repo_id'', ''b''), (''path'', ''p'')], [(''repo_id'', ''x''), (''path'', ''p'')]],
      cn_consumers = [''b'', ''x''], cn_extractable = True, cn_extraction_confidence = 1,
      cn_confidence_factors = [], cn_content_sha256 = ''h'', cn_hoist_target_path = Some ''t'',
      cn_status = CS_EXTRACTABLE, cn_status_detail = '''', cn_detected_at = 0\<rparr>"

definition two_components :: "dependency_edge list" where
  "two_components =
     [sample_edge ''1'' ''a'' ''b'', (sample_edge ''2'' ''b'' ''a'')\<lparr>de_evidence_path := ''p''\<rparr>,
      (sample_edge ''3'' ''x'' ''y'')\<lparr>de_evidence_path := ''p''\<rparr>, sample_edge ''4'' ''y'' ''x'']"

text \<open>
  Repositories \<open>a\<close>, \<open>b\<close> and \<open>x\<close>, \<open>y\<close> form two components. The contract of \<open>a\<close> has a generated copy
  in \<open>b\<close> and in \<open>x\<close>, and the dependency of \<open>x\<close> on \<open>y\<close> is evidenced by the copy in \<open>x\<close>. Hoisting the
  contract for the first component retargets that dependency as well, although \<open>y\<close> does not own the
  contract. The second component is then found dissolved without a hoist of its own, and
  \<open>break_cycles\<close> raises although its input is a valid graph.
\<close>

theorem hoist_dissolves_later_component:
  "\<exists>g. build_graph (map (\<lambda>r. \<lparr>gn_kind = REPO, gn_id = r\<rparr>) [''a'', ''b'', ''x'', ''y'']) two_components
         DAG_EDGE_KINDS (1/2) True = Inr g
     \<and> list_all (\<lambda>e. node_shape e = None) two_components \<and> hoistable_is_substantiated shared_contract
     \<and> break_cycles sample_env g [shared_contract] None None =
         Inl (DissolvedWithoutHoist (scc_id_for sample_env [''x'', ''y'']))"
proof -
  let ?b = "build_graph (map (\<lambda>r. \<lparr>gn_kind = REPO, gn_id = r\<rparr>) [''a'', ''b'', ''x'', ''y'']) two_components
         DAG_EDGE_KINDS (1/2) True"
  have "map_sum (\<lambda>_. ()) (\<lambda>g. map_sum (\<lambda>e. e = DissolvedWithoutHoist (scc_id_for sample_env [''x'', ''y''])) (\<lambda>_. ())
      (break_cycles sample_env g [shared_contract] None None)) ?b = Inr (Inl True)"
    by code_simp
  then obtain g where "?b = Inr g" and "break_cycles sample_env g [shared_contract] None None =
         Inl (DissolvedWithoutHoist (scc_id_for sample_env [''x'', ''y'']))"
    by (cases ?b; cases "break_cycles sample_env (projr ?b) [shared_contract] None None") auto
  moreover have "list_all (\<lambda>e. node_shape e = None) two_components \<and> hoistable_is_substantiated shared_contract"
    by code_simp
  ultimately show ?thesis by blast
qed

end
