(* ===== verification/Coarsen.thy ===== *)
theory Coarsen
  imports Cycle_Breaking
begin

text \<open>
  The two remaining operations of \<open>src/fleet/graph/cycles.py\<close>: \<open>supersede_findings\<close>, which links a
  finding of an earlier run to the component that replaced it, and \<open>coarsen_atomic_scc\<close>, which turns an
  atomic component into one library target per ecosystem.
\<close>

section \<open>Superseding earlier findings\<close>

definition shared_with :: "cycle_finding \<Rightarrow> scc_resolution \<Rightarrow> nat" where
  "shared_with f r = card (set (cf_members f) \<inter> set (res_members r))"

text \<open>\<open>tuple(-ord(c) for c in r.scc_id)\<close>\<close>

definition negated_codes :: "string \<Rightarrow> int list" where
  "negated_codes s = map (\<lambda>c. - int (of_char c)) s"

definition supersede_one :: "scc_resolution list \<Rightarrow> cycle_finding \<Rightarrow> cycle_finding" where
  "supersede_one current f =
     (if cf_scc_id f \<in> res_scc_id ` set current \<or> cf_superseded_by f \<noteq> None then f
      else case sort_key res_scc_id current of
        [] \<Rightarrow> f
      | ordered \<Rightarrow>
          let best = arg_max_list (\<lambda>r. (shared_with f r, negated_codes (res_scc_id r))) ordered in
          if shared_with f best = 0 then f else f\<lparr>cf_superseded_by := Some (res_scc_id best)\<rparr>)"

definition supersede_findings :: "cycle_finding list \<Rightarrow> scc_resolution list \<Rightarrow> cycle_finding list" where
  "supersede_findings prior current = map (supersede_one current) prior"

section \<open>Coarse targets\<close>

definition RESERVED_SCC_SEGMENT :: string where
  "RESERVED_SCC_SEGMENT = ''_scc''"

definition rstrip_slash :: "string \<Rightarrow> string" where
  "rstrip_slash s = rev (dropWhile (\<lambda>c. c = CHR ''/'') (rev s))"

definition scc_target_name :: "string \<Rightarrow> string" where
  "scc_target_name scc_id = map (\<lambda>c. if c = CHR '':'' then CHR ''_'' else c) scc_id"

definition scc_dest :: "ecosystem \<Rightarrow> string \<Rightarrow> string \<Rightarrow> string" where
  "scc_dest eco scc_id monorepo_dir =
     rstrip_slash monorepo_dir @ ''/'' @ RESERVED_SCC_SEGMENT @ ''/'' @ scc_target_name scc_id"

record member_sources =
  ms_repo_id :: repo_id
  ms_ecosystem :: ecosystem
  ms_dest :: string
  ms_srcs :: "string list"

definition monorepo_srcs :: "member_sources \<Rightarrow> string list" where
  "monorepo_srcs m = sort (map (\<lambda>src. rstrip_slash (ms_dest m) @ ''/'' @ src) (ms_srcs m))"

record coarse_target =
  ct_scc_id :: string
  ct_ecosystem :: ecosystem
  ct_package :: string
  ct_name :: string
  ct_srcs :: "string list"
  ct_member_repo_ids :: "repo_id list"

definition ct_label :: "coarse_target \<Rightarrow> string" where
  "ct_label t = ''//'' @ ct_package t @ '':'' @ ct_name t"

record coarse_plan =
  cp_targets :: "coarse_target list"
  cp_standalone :: "repo_id list"
  cp_merged :: "repo_id list"
  cp_findings :: "graph_finding list"

definition is_standalone :: "scc_resolution \<Rightarrow> ref_graph \<Rightarrow> repo_id \<Rightarrow> bool" where
  "is_standalone res dag r \<longleftrightarrow>
     (''REPO'', r) \<notin> set (nodes dag)
     \<or> filter (\<lambda>p. p \<in> Pair ''REPO'' ` set (res_members res)) (predecessors dag (''REPO'', r)) = []"

definition coarse_finding :: "scc_resolution \<Rightarrow> repo_id \<Rightarrow> graph_finding" where
  "coarse_finding res r =
     \<lparr>gf_kind = ''CoarseTarget'', gf_severity = WARN, gf_repo_id = Some r,
      gf_payload = [(''scc_id'', res_scc_id res),
        (''reason'', ''merged into the SCC's single library target; an intra-SCC inbound edge makes a per-member target cyclic in Bazel (''
          @ section_sign @ ''3.1 6e)'')]\<rparr>"

definition coarse_target_of ::
  "scc_resolution \<Rightarrow> (ecosystem, string) dict \<Rightarrow> ecosystem \<times> member_sources list \<Rightarrow> coarse_target" where
  "coarse_target_of res monorepo_dirs = (\<lambda>(eco, members).
     let monorepo_dir = (case dict_get monorepo_dirs eco of None \<Rightarrow> ecosystem_value eco | Some d \<Rightarrow> d) in
     \<lparr>ct_scc_id = res_scc_id res, ct_ecosystem = eco,
      ct_package = scc_dest eco (res_scc_id res) monorepo_dir,
      ct_name = scc_target_name (res_scc_id res),
      ct_srcs = sorted_set (concat (map monorepo_srcs members)),
      ct_member_repo_ids = sort (map ms_repo_id members)\<rparr>)"

definition coarsen_atomic_scc ::
  "scc_resolution \<Rightarrow> member_sources list \<Rightarrow> fleet_graph \<Rightarrow> (ecosystem, string) dict \<Rightarrow> coarse_plan" where
  "coarsen_atomic_scc res members g monorepo_dirs =
     (let member_ids = sorted_set (res_members res);
          standalone = filter (is_standalone res (fg_G_dag g)) member_ids;
          merged = filter (\<lambda>r. r \<notin> set standalone) member_ids;
          by_ecosystem = group_by ms_ecosystem
            (filter (\<lambda>m. ms_repo_id m \<in> set merged)
               (sort_key (\<lambda>m. (ecosystem_value (ms_ecosystem m), ms_repo_id m)) members)) in
      \<lparr>cp_targets = map (coarse_target_of res monorepo_dirs) (sort_key (ecosystem_value \<circ> fst) by_ecosystem),
       cp_standalone = standalone, cp_merged = merged,
       cp_findings = map (coarse_finding res) merged\<rparr>)"


section \<open>A superseded finding names its closest successor\<close>

lemma supersede_one_cases:
  fixes current :: "scc_resolution list" and f :: cycle_finding
  defines "settled \<equiv> \<lambda>f :: cycle_finding. cf_scc_id f \<in> res_scc_id ` set current \<or> cf_superseded_by f \<noteq> None"
  obtains "supersede_one current f = f" "settled f \<or> (\<forall>r \<in> set current. shared_with f r = 0)"
  | best where "best \<in> set current" "supersede_one current f = f\<lparr>cf_superseded_by := Some (res_scc_id best)\<rparr>"
      "\<not> settled f" "0 < shared_with f best" "\<forall>r \<in> set current. shared_with f r \<le> shared_with f best"
proof (cases "settled f \<or> current = []")
  case True
  then show ?thesis using that(1) by (auto simp: supersede_one_def settled_def)
next
  case False
  let ?key = "\<lambda>r. (shared_with f r, negated_codes (res_scc_id r))"
  let ?best = "arg_max_list ?key (sort_key res_scc_id current)"
  have ne: "sort_key res_scc_id current \<noteq> []"
    using False by (metis length_0_conv length_sort)
  then have s: "supersede_one current f =
      (if shared_with f ?best = 0 then f else f\<lparr>cf_superseded_by := Some (res_scc_id ?best)\<rparr>)"
    using False unfolding supersede_one_def settled_def by (simp add: Let_def split: list.split)
  have mem: "?best \<in> set current"
    using arg_max_list_in_set[OF ne, of ?key] by simp
  have le: "\<forall>r \<in> set current. shared_with f r \<le> shared_with f ?best"
    using arg_max_list_ge[of _ "sort_key res_scc_id current" ?key] by (fastforce simp: less_eq_prod_def)
  show ?thesis
  proof (cases "shared_with f ?best = 0")
    case True
    with s le that(1) show ?thesis by simp
  next
    case pos: False
    show ?thesis by (rule that(2)[OF mem]) (use s pos False le in auto)
  qed
qed

text \<open>
  Superseding findings of an earlier run changes nothing but the link, and that only for a finding
  that has none, whose component no longer exists and that shares a member with a current one; it then
  names a current component with the most common members. Doing it twice changes nothing more.
\<close>

theorem supersede_findings_links_successor:
  "length (supersede_findings prior current) = length prior
   \<and> supersede_findings (supersede_findings prior current) current = supersede_findings prior current
   \<and> list_all2 (\<lambda>f f'.
       f' = f \<and> (cf_scc_id f \<in> res_scc_id ` set current \<or> cf_superseded_by f \<noteq> None
                 \<or> (\<forall>r \<in> set current. set (cf_members f) \<inter> set (res_members r) = {}))
       \<or> cf_scc_id f \<notin> res_scc_id ` set current \<and> cf_superseded_by f = None
         \<and> (\<exists>best \<in> set current. f' = f\<lparr>cf_superseded_by := Some (res_scc_id best)\<rparr>
              \<and> set (cf_members f) \<inter> set (res_members best) \<noteq> {}
              \<and> (\<forall>r \<in> set current. card (set (cf_members f) \<inter> set (res_members r))
                   \<le> card (set (cf_members f) \<inter> set (res_members best)))))
     prior (supersede_findings prior current)"
proof -
  have idem: "supersede_one current (supersede_one current f) = supersede_one current f" for f
    by (cases rule: supersede_one_cases[of current f]) (simp_all add: supersede_one_def)
  have zero: "shared_with f r = 0 \<longleftrightarrow> set (cf_members f) \<inter> set (res_members r) = {}" for f r
    by (simp add: shared_with_def)
  have one: "supersede_one current f = f \<and> (cf_scc_id f \<in> res_scc_id ` set current \<or> cf_superseded_by f \<noteq> None
                 \<or> (\<forall>r \<in> set current. set (cf_members f) \<inter> set (res_members r) = {}))
       \<or> cf_scc_id f \<notin> res_scc_id ` set current \<and> cf_superseded_by f = None
         \<and> (\<exists>best \<in> set current. supersede_one current f = f\<lparr>cf_superseded_by := Some (res_scc_id best)\<rparr>
              \<and> set (cf_members f) \<inter> set (res_members best) \<noteq> {}
              \<and> (\<forall>r \<in> set current. card (set (cf_members f) \<inter> set (res_members r))
                   \<le> card (set (cf_members f) \<inter> set (res_members best))))" for f
  proof (cases rule: supersede_one_cases[of current f])
    case 1
    then show ?thesis using zero by blast
  next
    case (2 best)
    have "set (cf_members f) \<inter> set (res_members best) \<noteq> {}" using 2(4) zero[of f best] by simp
    with 2 show ?thesis unfolding shared_with_def by blast
  qed
  show ?thesis
    using idem one by (simp add: supersede_findings_def list_all2_conv_all_nth)
qed

section \<open>Coarse targets merge exactly the members another member depends on\<close>

lemma coarsen_fields:
  fixes res g
  defines "merged \<equiv> {r \<in> set (res_members res). \<exists>p \<in> set (res_members res).
      ((''REPO'', p), (''REPO'', r)) \<in> arc_set (fg_G_dag g)}"
  assumes "wf_graph (fg_G_dag g)"
  shows "set (cp_merged (coarsen_atomic_scc res members g dirs)) = merged"
    and "set (cp_standalone (coarsen_atomic_scc res members g dirs)) = set (res_members res) - merged"
    and "cp_targets (coarsen_atomic_scc res members g dirs) =
      map (coarse_target_of res dirs) (sort_key (ecosystem_value \<circ> fst) (group_by ms_ecosystem
        (filter (\<lambda>m. ms_repo_id m \<in> merged) (sort_key (\<lambda>m. (ecosystem_value (ms_ecosystem m), ms_repo_id m)) members))))"
proof -
  have alone: "is_standalone res (fg_G_dag g) r \<longleftrightarrow> r \<notin> merged" if "r \<in> set (res_members res)" for r
  proof -
    have "filter (\<lambda>p. p \<in> Pair ''REPO'' ` set (res_members res)) (predecessors (fg_G_dag g) (''REPO'', r)) = []
        \<longleftrightarrow> r \<notin> merged"
      using that unfolding filter_empty_conv set_predecessors merged_def by blast
    moreover have "(''REPO'', r) \<in> set (nodes (fg_G_dag g))" if "r \<in> merged"
      using that wf_arcD[OF assms(2)] unfolding merged_def by blast
    ultimately show ?thesis unfolding is_standalone_def by blast
  qed
  show m: "set (cp_merged (coarsen_atomic_scc res members g dirs)) = merged"
    using alone by (auto simp: coarsen_atomic_scc_def Let_def merged_def)
  show "set (cp_standalone (coarsen_atomic_scc res members g dirs)) = set (res_members res) - merged"
    using alone by (auto simp: coarsen_atomic_scc_def Let_def)
  show "cp_targets (coarsen_atomic_scc res members g dirs) =
      map (coarse_target_of res dirs) (sort_key (ecosystem_value \<circ> fst) (group_by ms_ecosystem
        (filter (\<lambda>m. ms_repo_id m \<in> merged) (sort_key (\<lambda>m. (ecosystem_value (ms_ecosystem m), ms_repo_id m)) members))))"
    unfolding m[symmetric] by (simp add: coarsen_atomic_scc_def Let_def)
qed


text \<open>
  Coarsening accounts for every member of the component once: it stays on its own exactly when no
  member depends on it, and is merged and reported otherwise. There is one target per ecosystem of a
  merged member, and it holds exactly the sources and ids of the merged members of that ecosystem.
\<close>

theorem coarse_plan_accounts_for_members:
  fixes res members g dirs
  assumes "wf_graph (fg_G_dag g)"
  defines "plan \<equiv> coarsen_atomic_scc res members g dirs"
  defines "depended_on \<equiv> {r \<in> set (res_members res). \<exists>p \<in> set (res_members res).
      ((''REPO'', p), (''REPO'', r)) \<in> arc_set (fg_G_dag g)}"
  shows "set (cp_merged plan) = depended_on \<and> set (cp_standalone plan) = set (res_members res) - depended_on
    \<and> map gf_repo_id (cp_findings plan) = map Some (cp_merged plan)
    \<and> distinct (map ct_ecosystem (cp_targets plan))
    \<and> set (map ct_ecosystem (cp_targets plan)) = ms_ecosystem ` {m \<in> set members. ms_repo_id m \<in> depended_on}
    \<and> (\<forall>t \<in> set (cp_targets plan).
         set (ct_member_repo_ids t) = ms_repo_id ` {m \<in> set members. ms_repo_id m \<in> depended_on \<and> ms_ecosystem m = ct_ecosystem t}
         \<and> set (ct_srcs t) = (\<Union>m \<in> {m \<in> set members. ms_repo_id m \<in> depended_on \<and> ms_ecosystem m = ct_ecosystem t}.
             set (monorepo_srcs m)))"
proof -
  note f = coarsen_fields[OF assms(1), of res members dirs, folded plan_def depended_on_def]
  let ?ms = "filter (\<lambda>m. ms_repo_id m \<in> depended_on) (sort_key (\<lambda>m. (ecosystem_value (ms_ecosystem m), ms_repo_id m)) members)"
  let ?gs = "sort_key (ecosystem_value \<circ> fst) (group_by ms_ecosystem ?ms)"
  have ecos: "map ct_ecosystem (cp_targets plan) = map fst ?gs"
    unfolding f(3) by (simp add: coarse_target_of_def Let_def split_beta)
  have "set (ct_member_repo_ids t) = ms_repo_id ` {m \<in> set members. ms_repo_id m \<in> depended_on \<and> ms_ecosystem m = ct_ecosystem t}
      \<and> set (ct_srcs t) = (\<Union>m \<in> {m \<in> set members. ms_repo_id m \<in> depended_on \<and> ms_ecosystem m = ct_ecosystem t}.
          set (monorepo_srcs m))" if "t \<in> set (cp_targets plan)" for t
  proof -
    obtain eco ms where "t = coarse_target_of res dirs (eco, ms)" "(eco, ms) \<in> set (group_by ms_ecosystem ?ms)"
      using \<open>t \<in> _\<close> unfolding f(3) by auto
    moreover from this have "ms = filter (\<lambda>m. ms_ecosystem m = eco) ?ms"
      using group_by_memD by fast
    ultimately show ?thesis by (auto simp: coarse_target_of_def Let_def)
  qed
  moreover have "distinct (map fst ?gs)" "fst ` set ?gs = ms_ecosystem ` set ?ms"
    using distinct_group_by[of ms_ecosystem ?ms] keys_group_by[of ms_ecosystem ?ms]
    by (simp_all add: distinct_keys_sort_key)
  moreover have "map gf_repo_id (cp_findings plan) = map Some (cp_merged plan)"
    by (simp add: plan_def coarsen_atomic_scc_def Let_def coarse_finding_def)
  ultimately show ?thesis
    using f(1,2) unfolding ecos by (simp add: set_filter)
qed

section \<open>Dependencies between the targets\<close>

text \<open>The target a member's code ends in, and the dependencies between targets of one component.\<close>

definition target_of :: "coarse_plan \<Rightarrow> (repo_id \<Rightarrow> ecosystem) \<Rightarrow> repo_id \<Rightarrow> repo_id + ecosystem" where
  "target_of plan eco r = (if r \<in> set (cp_standalone plan) then Inl r else Inr (eco r))"

definition target_arcs ::
  "scc_resolution \<Rightarrow> fleet_graph \<Rightarrow> coarse_plan \<Rightarrow> (repo_id \<Rightarrow> ecosystem) \<Rightarrow> ((repo_id + ecosystem) \<times> (repo_id + ecosystem)) set" where
  "target_arcs res g plan eco =
     {(target_of plan eco u, target_of plan eco v) | u v. u \<in> set (res_members res) \<and> v \<in> set (res_members res)
        \<and> ((''REPO'', u), (''REPO'', v)) \<in> arc_set (fg_G_dag g) \<and> target_of plan eco u \<noteq> target_of plan eco v}"

text \<open>
  Coarsening removes the cycle of a component written in one ecosystem: if the merged members share
  their ecosystem, the targets of the component have no dependency cycle.
\<close>

theorem coarse_targets_acyclic:
  assumes "wf_graph (fg_G_dag g)"
    and "\<forall>r \<in> set (cp_merged (coarsen_atomic_scc res members g dirs)). eco r = e"
  shows "acyclic (target_arcs res g (coarsen_atomic_scc res members g dirs) eco)"
proof -
  let ?plan = "coarsen_atomic_scc res members g dirs"
  note f = coarsen_fields(1,2)[OF assms(1), of res members dirs]
  have ends: "b = Inr e \<and> (\<exists>u. a = Inl u)" if ab: "(a, b) \<in> target_arcs res g ?plan eco" for a b
  proof -
    obtain u v where uv: "a = target_of ?plan eco u" "b = target_of ?plan eco v" "a \<noteq> b"
      "u \<in> set (res_members res)" "v \<in> set (res_members res)" "((''REPO'', u), (''REPO'', v)) \<in> arc_set (fg_G_dag g)"
      using ab unfolding target_arcs_def by blast
    then have "v \<in> set (cp_merged ?plan)" "v \<notin> set (cp_standalone ?plan)"
      unfolding f by blast+
    then have b: "b = Inr e" using assms(2) uv(2) by (simp add: target_of_def)
    moreover have "u \<in> set (cp_standalone ?plan) \<or> u \<in> set (cp_merged ?plan)"
      using uv(4) unfolding f by blast
    ultimately show ?thesis using uv(1,3) assms(2) by (auto simp: target_of_def split: if_splits)
  qed
  have dead: "(b, c) \<notin> target_arcs res g ?plan eco" if "(a, b) \<in> target_arcs res g ?plan eco" for a b c
    using ends[OF that] ends[of b c] by auto
  have "(target_arcs res g ?plan eco)\<^sup>+ \<subseteq> target_arcs res g ?plan eco"
    by (rule subrelI, erule trancl_induct) (use dead in auto)
  moreover have "(a, a) \<notin> target_arcs res g ?plan eco" for a
    unfolding target_arcs_def by blast
  ultimately show ?thesis unfolding acyclic_def by blast
qed


definition sample_pair_graph :: fleet_graph where
  "sample_pair_graph =
     (let dag = \<lparr>nodes = [(''REPO'', ''a''), (''REPO'', ''b'')],
                 arcs = [(((''REPO'', ''a''), (''REPO'', ''b'')), \<lparr>edge_keys = [''j''], kinds = [''DECLARED_DEP'']\<rparr>),
                         (((''REPO'', ''b''), (''REPO'', ''a'')), \<lparr>edge_keys = [''k''], kinds = [''DECLARED_DEP'']\<rparr>)]\<rparr> in
      \<lparr>fg_G = dag, fg_G_rev = reverse dag, fg_G_dag = dag, fg_G_order = reverse dag, fg_edges_by_key = [],
       fg_ordering_edge_keys = {''j'', ''k''}\<rparr>)"

definition sample_pair :: scc_resolution where
  "sample_pair =
     \<lparr>res_scc_id = ''scc:1'', res_members = [''a'', ''b''], res_edge_keys = [''j'', ''k''], res_feedback = [''k''],
      res_proposed = Some ''k'', res_hoisted = [], res_broken = [], res_strategy = ATOMIC_WAVE, res_rationale = ''''\<rparr>"

definition sample_sources :: "(repo_id \<Rightarrow> ecosystem) \<Rightarrow> member_sources list" where
  "sample_sources eco = map (\<lambda>r. \<lparr>ms_repo_id = r, ms_ecosystem = eco r, ms_dest = r @ ''/'', ms_srcs = [''m'']\<rparr>) [''a'', ''b'']"

lemma sample_pair_wf: "wf_graph (fg_G_dag sample_pair_graph)"
  by (simp add: sample_pair_graph_def Let_def wf_graph_def arc_set_def)

theorem coarse_plan_accounts_for_members_witness:
  "set (cp_merged (coarsen_atomic_scc sample_pair (sample_sources (\<lambda>_. ECO_NPM)) sample_pair_graph [])) = {''a'', ''b''}"
proof -
  have "{r \<in> set (res_members sample_pair). \<exists>p \<in> set (res_members sample_pair).
      ((''REPO'', p), (''REPO'', r)) \<in> arc_set (fg_G_dag sample_pair_graph)} = {''a'', ''b''}"
    by (auto simp: sample_pair_def sample_pair_graph_def Let_def arc_set_def)
  then show ?thesis
    using coarse_plan_accounts_for_members[OF sample_pair_wf, of sample_pair "sample_sources (\<lambda>_. ECO_NPM)" "[]"] by simp
qed

theorem coarse_targets_acyclic_witness:
  "acyclic (target_arcs sample_pair sample_pair_graph
     (coarsen_atomic_scc sample_pair (sample_sources (\<lambda>_. ECO_NPM)) sample_pair_graph []) (\<lambda>_. ECO_NPM))"
  by (rule coarse_targets_acyclic[OF sample_pair_wf, of _ _ _ _ ECO_NPM]) simp

text \<open>
  The same component written in two ecosystems keeps its cycle: both members are merged, into two
  targets, which depend on each other.
\<close>

theorem coarse_targets_stay_cyclic:
  "\<exists>eco. length (cp_targets (coarsen_atomic_scc sample_pair (sample_sources eco) sample_pair_graph [])) = 2
     \<and> \<not> acyclic (target_arcs sample_pair sample_pair_graph
           (coarsen_atomic_scc sample_pair (sample_sources eco) sample_pair_graph []) eco)"
proof -
  let ?eco = "\<lambda>r. if r = ''a'' then ECO_NPM else ECO_GO"
  let ?plan = "coarsen_atomic_scc sample_pair (sample_sources ?eco) sample_pair_graph []"
  have n: "length (cp_targets ?plan) = 2" and alone: "cp_standalone ?plan = []"
    by code_simp+
  have arc: "((''REPO'', ''a''), (''REPO'', ''b'')) \<in> arc_set (fg_G_dag sample_pair_graph)"
      "((''REPO'', ''b''), (''REPO'', ''a'')) \<in> arc_set (fg_G_dag sample_pair_graph)"
    by (simp_all add: sample_pair_graph_def Let_def arc_set_def)
  have t: "target_of ?plan ?eco ''a'' = Inr ECO_NPM" "target_of ?plan ?eco ''b'' = Inr ECO_GO"
    unfolding target_of_def alone by simp_all
  have mem: "''a'' \<in> set (res_members sample_pair)" "''b'' \<in> set (res_members sample_pair)"
    by (simp_all add: sample_pair_def)
  have "(Inr ECO_NPM, Inr ECO_GO) \<in> target_arcs sample_pair sample_pair_graph ?plan ?eco"
    unfolding target_arcs_def using arc(1) t mem by (intro CollectI exI[of _ "''a''"] exI[of _ "''b''"]) simp
  moreover have "(Inr ECO_GO, Inr ECO_NPM) \<in> target_arcs sample_pair sample_pair_graph ?plan ?eco"
    unfolding target_arcs_def using arc(2) t mem by (intro CollectI exI[of _ "''b''"] exI[of _ "''a''"]) simp
  ultimately have "\<not> acyclic (target_arcs sample_pair sample_pair_graph ?plan ?eco)"
    unfolding acyclic_def by (meson r_into_trancl trancl_trans)
  with n show ?thesis by (intro exI[of _ ?eco]) simp
qed


text \<open>A finding of the component \<open>a\<close>, \<open>b\<close>, \<open>c\<close> of an earlier run is linked to the component that is left of it.\<close>

definition sample_prior :: cycle_finding where
  "sample_prior =
     \<lparr>cf_scc_id = ''scc:0'', cf_members = [''a'', ''b'', ''c''], cf_edges = [], cf_feedback = [], cf_proposed = None,
      cf_superseded_by = None, cf_hoisted = [], cf_broken = [], cf_strategy = ATOMIC_WAVE, cf_atomic_wave = Some 0,
      cf_rationale = ''''\<rparr>"

theorem supersede_findings_links_successor_witness:
  "map cf_superseded_by (supersede_findings [sample_prior] [sample_pair]) = [Some ''scc:1'']"
proof -
  obtain f' where f': "supersede_findings [sample_prior] [sample_pair] = [f']"
    by (simp add: supersede_findings_def)
  have "cf_superseded_by f' = Some ''scc:1''"
    using supersede_findings_links_successor[of "[sample_prior]" "[sample_pair]"]
    unfolding f' by (auto simp: sample_prior_def sample_pair_def)
  then show ?thesis by (simp add: f')
qed

end
