(* ===== verification/Limiter.thy ===== *)
theory Limiter
  imports Prelude
begin

text \<open>
  \<open>ResizableLimiter\<close> of \<open>src/fleet/orchestrator/budgets.py\<close>: a counting limiter whose ceiling moves while
  slots are held. Every block between two suspension points of the source is one operation here; a
  future is its place in the queue and its state. The interleavings of the tasks that use a limiter
  are the step relation \<open>lstep\<close>.
\<close>

section \<open>The limiter\<close>

text \<open>The state of a parked waiter's future: not done, given a result, or cancelled.\<close>

datatype fut = Pending | Woken | Cancelled

type_synonym waiter_id = nat

record limiter =
  lm_floor :: int
  lm_ceiling :: int
  lm_capacity :: int
  lm_borrowed :: int
  lm_waiters :: "(waiter_id \<times> fut) list"

datatype limiter_error =
    BadCapacity int
  | BadFloor int
  | CeilingBelowFloor int int
  | ReleasedTooOften

definition new_limiter :: "int \<Rightarrow> int \<Rightarrow> int option \<Rightarrow> limiter_error + limiter" where
  "new_limiter capacity flr ceil =
     (if capacity < 1 then Inl (BadCapacity capacity)
      else if flr < 1 then Inl (BadFloor flr)
      else
        let top = (case ceil of None \<Rightarrow> capacity | Some c \<Rightarrow> c) in
        if top < flr then Inl (CeilingBelowFloor top flr)
        else Inr \<lparr>lm_floor = flr, lm_ceiling = top, lm_capacity = max flr (min top capacity),
                  lm_borrowed = 0, lm_waiters = []\<rparr>)"

definition lm_locked :: "limiter \<Rightarrow> bool" where
  "lm_locked l \<longleftrightarrow> lm_borrowed l \<ge> lm_capacity l"

fun wake_first :: "(waiter_id \<times> fut) list \<Rightarrow> (waiter_id \<times> fut) list option" where
  "wake_first [] = None"
| "wake_first ((w, f) # ws) =
     (if f = Pending then Some ((w, Woken) # ws)
      else case wake_first ws of None \<Rightarrow> None | Some ws' \<Rightarrow> Some ((w, f) # ws'))"

definition pending :: "(waiter_id \<times> fut) list \<Rightarrow> nat" where
  "pending ws = length (filter (\<lambda>w. snd w = Pending) ws)"

definition woken :: "(waiter_id \<times> fut) list \<Rightarrow> nat" where
  "woken ws = length (filter (\<lambda>w. snd w = Woken) ws)"

lemma wake_first_pending: "wake_first ws = Some ws' \<Longrightarrow> pending ws = Suc (pending ws')"
  by (induction ws arbitrary: ws' rule: wake_first.induct) (auto simp: pending_def split: if_splits option.splits)

function drain :: "limiter \<Rightarrow> limiter" where
  "drain l =
     (if lm_borrowed l < lm_capacity l then
        (case wake_first (lm_waiters l) of
           None \<Rightarrow> l
         | Some ws \<Rightarrow> drain (l\<lparr>lm_borrowed := lm_borrowed l + 1, lm_waiters := ws\<rparr>))
      else l)"
  by pat_completeness auto
termination
  by (relation "measure (\<lambda>l. pending (lm_waiters l))") (auto dest: wake_first_pending)

declare drain.simps [simp del]

text \<open>\<open>acquire\<close> up to its suspension: \<open>True\<close> when the slot is taken at once, else the waiter is parked.\<close>

definition lm_acquire :: "waiter_id \<Rightarrow> limiter \<Rightarrow> limiter \<times> bool" where
  "lm_acquire w l =
     (if \<not> lm_locked l then (l\<lparr>lm_borrowed := lm_borrowed l + 1\<rparr>, True)
      else (l\<lparr>lm_waiters := lm_waiters l @ [(w, Pending)]\<rparr>, False))"

definition remove_waiter :: "waiter_id \<Rightarrow> limiter \<Rightarrow> limiter" where
  "remove_waiter w l = l\<lparr>lm_waiters := filter (\<lambda>x. fst x \<noteq> w) (lm_waiters l)\<rparr>"

text \<open>A cancellation reaches the future: a pending one is cancelled, a done one stays as it is.\<close>

definition cancel_waiter :: "waiter_id \<Rightarrow> limiter \<Rightarrow> limiter" where
  "cancel_waiter w l =
     l\<lparr>lm_waiters := map (\<lambda>(v, f). if v = w \<and> f = Pending then (v, Cancelled) else (v, f)) (lm_waiters l)\<rparr>"

text \<open>The parked task goes on with \<open>CancelledError\<close>: a slot it was given is handed back.\<close>

definition deliver_cancel :: "waiter_id \<Rightarrow> limiter \<Rightarrow> limiter" where
  "deliver_cancel w l =
     (if (w, Cancelled) \<in> set (lm_waiters l) then remove_waiter w l
      else let l' = remove_waiter w l in drain (l'\<lparr>lm_borrowed := lm_borrowed l' - 1\<rparr>))"

definition lm_release :: "limiter \<Rightarrow> limiter_error + limiter" where
  "lm_release l =
     (if lm_borrowed l \<le> 0 then Inl ReleasedTooOften
      else Inr (drain (l\<lparr>lm_borrowed := lm_borrowed l - 1\<rparr>)))"

definition lm_resize :: "int \<Rightarrow> limiter \<Rightarrow> limiter_error + limiter" where
  "lm_resize capacity l =
     (if capacity < 1 then Inl (BadCapacity capacity)
      else Inr (drain (l\<lparr>lm_capacity := max (lm_floor l) (min (lm_ceiling l) capacity)\<rparr>)))"

text \<open>\<open>Limits.create\<close>: the limiter of a tier; an override may only lower it.\<close>

definition tier_capacity :: "int \<Rightarrow> int option \<Rightarrow> int" where
  "tier_capacity configured override =
     max 1 (min configured (case override of None \<Rightarrow> 2 ^ 30 | Some n \<Rightarrow> n))"

section \<open>Draining\<close>

text \<open>The reference: the oldest \<open>n\<close> pending waiters are woken.\<close>

fun wake :: "nat \<Rightarrow> (waiter_id \<times> fut) list \<Rightarrow> (waiter_id \<times> fut) list" where
  "wake n [] = []"
| "wake 0 ws = ws"
| "wake (Suc n) ((w, f) # ws) = (if f = Pending then (w, Woken) # wake n ws else (w, f) # wake (Suc n) ws)"

lemma wake_0 [simp]: "wake 0 ws = ws"
  by (cases ws) simp_all

lemma wake_first_None: "wake_first ws = None \<longleftrightarrow> pending ws = 0"
  by (induction ws rule: wake_first.induct) (auto simp: pending_def split: option.splits)

lemma wake_none_pending: "pending ws = 0 \<Longrightarrow> wake n ws = ws"
  by (induction n ws rule: wake.induct) (auto simp: pending_def split: if_splits)

lemma wake_Suc: "wake_first ws = Some ws' \<Longrightarrow> wake (Suc n) ws = wake n ws'"
proof (induction ws arbitrary: ws' rule: wake_first.induct)
  case (2 w f ws)
  then show ?case by (cases n) (auto split: if_splits option.splits)
qed simp

lemma drain_eq:
  "drain l = (let n = min (nat (lm_capacity l - lm_borrowed l)) (pending (lm_waiters l)) in
     l\<lparr>lm_borrowed := lm_borrowed l + int n, lm_waiters := wake n (lm_waiters l)\<rparr>)"
proof (induction l rule: drain.induct)
  case (1 l)
  show ?case
  proof (cases "lm_borrowed l < lm_capacity l \<and> pending (lm_waiters l) \<noteq> 0")
    case True
    then obtain ws where ws: "wake_first (lm_waiters l) = Some ws"
      using wake_first_None by (metis not_None_eq)
    note p = wake_first_pending[OF ws]
    have n: "min (nat (lm_capacity l - lm_borrowed l)) (pending (lm_waiters l)) =
        Suc (min (nat (lm_capacity l - (lm_borrowed l + 1))) (pending ws))"
      using True p by simp
    have "drain l = drain (l\<lparr>lm_borrowed := lm_borrowed l + 1, lm_waiters := ws\<rparr>)"
      using True ws by (simp add: drain.simps[of l])
    with "1.IH"[OF _ ws] True show ?thesis
      unfolding n by (simp add: Let_def wake_Suc[OF ws])
  next
    case False
    then have "drain l = l"
      using wake_first_None[of "lm_waiters l"] by (auto simp: drain.simps[of l] split: option.splits)
    moreover have "min (nat (lm_capacity l - lm_borrowed l)) (pending (lm_waiters l)) = 0"
      using False by auto
    ultimately show ?thesis by (simp add: Let_def)
  qed
qed


section \<open>Interleavings\<close>

text \<open>A limiter in use: how many slots are held by tasks that are past \<open>acquire\<close>.\<close>

record lsys =
  ls_limiter :: limiter
  ls_holders :: nat

inductive lstep :: "lsys \<Rightarrow> lsys \<Rightarrow> bool" where
  take_slot: "\<not> lm_locked (ls_limiter s) \<Longrightarrow>
    lstep s \<lparr>ls_limiter = fst (lm_acquire w (ls_limiter s)), ls_holders = Suc (ls_holders s)\<rparr>"
| park: "lm_locked (ls_limiter s) \<Longrightarrow> w \<notin> fst ` set (lm_waiters (ls_limiter s)) \<Longrightarrow>
    lstep s (s\<lparr>ls_limiter := fst (lm_acquire w (ls_limiter s))\<rparr>)"
| resume: "(w, Woken) \<in> set (lm_waiters (ls_limiter s)) \<Longrightarrow>
    lstep s \<lparr>ls_limiter = remove_waiter w (ls_limiter s), ls_holders = Suc (ls_holders s)\<rparr>"
| cancel: "lstep s (s\<lparr>ls_limiter := cancel_waiter w (ls_limiter s)\<rparr>)"
| cancelled: "(w, f) \<in> set (lm_waiters (ls_limiter s)) \<Longrightarrow> f \<noteq> Pending \<Longrightarrow>
    lstep s (s\<lparr>ls_limiter := deliver_cancel w (ls_limiter s)\<rparr>)"
| release_slot: "0 < ls_holders s \<Longrightarrow> lm_release (ls_limiter s) = Inr l \<Longrightarrow>
    lstep s \<lparr>ls_limiter = l, ls_holders = ls_holders s - 1\<rparr>"
| resize_to: "lm_resize c (ls_limiter s) = Inr l \<Longrightarrow> lstep s (s\<lparr>ls_limiter := l\<rparr>)"

inductive_cases lstep_cases: "lstep s s'"

text \<open>Woken waiters stand before pending ones.\<close>

definition fifo :: "(waiter_id \<times> fut) list \<Rightarrow> bool" where
  "fifo ws \<longleftrightarrow> sorted_wrt (\<lambda>x y. snd y = Woken \<longrightarrow> snd x \<noteq> Pending) ws"

definition lsys_ok :: "lsys \<Rightarrow> bool" where
  "lsys_ok s \<longleftrightarrow>
     (let l = ls_limiter s in
      lm_borrowed l = int (ls_holders s + woken (lm_waiters l))
      \<and> (pending (lm_waiters l) \<noteq> 0 \<longrightarrow> lm_capacity l \<le> lm_borrowed l)
      \<and> 1 \<le> lm_floor l \<and> lm_floor l \<le> lm_capacity l \<and> lm_capacity l \<le> lm_ceiling l
      \<and> distinct (map fst (lm_waiters l)) \<and> fifo (lm_waiters l))"

lemma counts_simps [simp]:
  "pending [] = 0" "woken [] = 0"
  "pending (ws @ vs) = pending ws + pending vs" "woken (ws @ vs) = woken ws + woken vs"
  "pending ((w, f) # ws) = (if f = Pending then 1 else 0) + pending ws"
  "woken ((w, f) # ws) = (if f = Woken then 1 else 0) + woken ws"
  by (auto simp: pending_def woken_def)

lemma wake_counts:
  "n \<le> pending ws \<Longrightarrow> pending (wake n ws) = pending ws - n \<and> woken (wake n ws) = woken ws + n"
  by (induction n ws rule: wake.induct) (auto split: if_splits)

lemma fst_wake [simp]: "map fst (wake n ws) = map fst ws"
  by (induction n ws rule: wake.induct) auto

lemma pending_0_iff: "pending ws = 0 \<longleftrightarrow> (\<forall>x \<in> set ws. snd x \<noteq> Pending)"
  by (auto simp: pending_def filter_empty_conv)

lemma fifo_Cons: "fifo ((w, f) # ws) \<longleftrightarrow> fifo ws \<and> (f = Pending \<longrightarrow> woken ws = 0)"
  by (auto simp: fifo_def woken_def filter_empty_conv)

lemma fifo_Nil [simp]: "fifo []"
  by (simp add: fifo_def)

lemma fifo_snoc: "fifo ws \<Longrightarrow> fifo (ws @ [(w, Pending)])"
  by (auto simp: fifo_def sorted_wrt_append)

lemma fifo_filter: "fifo ws \<Longrightarrow> fifo (filter P ws)"
  by (simp add: fifo_def sorted_wrt_filter)

lemma woken_wake_0: "n = 0 \<or> pending ws = 0 \<Longrightarrow> woken (wake n ws) = woken ws"
  by (auto simp: wake_none_pending)

lemma fifo_wake: "fifo ws \<Longrightarrow> n \<le> pending ws \<Longrightarrow> fifo (wake n ws)"
proof (induction n ws rule: wake.induct)
  case (3 n w f ws)
  then show ?case
    using wake_counts[of n ws] by (auto simp: fifo_Cons split: if_splits)
qed simp_all

lemma cancel_counts:
  "distinct (map fst ws) \<Longrightarrow>
   let vs = map (\<lambda>(v, f). if v = w \<and> f = Pending then (v, Cancelled) else (v, f)) ws in
   woken vs = woken ws \<and> pending vs \<le> pending ws \<and> map fst vs = map fst ws \<and> (fifo ws \<longrightarrow> fifo vs)"
  by (induction ws) (auto simp: Let_def fifo_Cons split: prod.splits)

lemma remove_counts:
  assumes "distinct (map fst ws)" and "(w, f) \<in> set ws"
  shows "woken (filter (\<lambda>x. fst x \<noteq> w) ws) = woken ws - (if f = Woken then 1 else 0)"
    and "pending (filter (\<lambda>x. fst x \<noteq> w) ws) = pending ws - (if f = Pending then 1 else 0)"
    and "f = Woken \<Longrightarrow> 0 < woken ws"
proof -
  have *: "woken ws = woken (filter (\<lambda>x. fst x \<noteq> w) ws) + (if f = Woken then 1 else 0)
      \<and> pending ws = pending (filter (\<lambda>x. fst x \<noteq> w) ws) + (if f = Pending then 1 else 0)"
    using assms
  proof (induction ws)
    case (Cons x ws)
    obtain v g where x: "x = (v, g)" by force
    show ?case
    proof (cases "v = w")
      case True
      with Cons.prems x have "w \<notin> fst ` set ws" and g: "g = f" by force+
      then have "filter (\<lambda>y. fst y \<noteq> w) ws = ws" by (auto intro!: filter_True)
      with True x g show ?thesis by simp
    next
      case False
      with Cons x show ?thesis by auto
    qed
  qed simp
  then show "woken (filter (\<lambda>x. fst x \<noteq> w) ws) = woken ws - (if f = Woken then 1 else 0)"
    and "pending (filter (\<lambda>x. fst x \<noteq> w) ws) = pending ws - (if f = Pending then 1 else 0)"
    and "f = Woken \<Longrightarrow> 0 < woken ws"
    by auto
qed

text \<open>Draining restores the invariant whatever moved the ceiling or freed a slot.\<close>

lemma drain_ok:
  assumes "lm_borrowed l = int (h + woken (lm_waiters l))"
    and "1 \<le> lm_floor l" and "lm_floor l \<le> lm_capacity l" and "lm_capacity l \<le> lm_ceiling l"
    and "distinct (map fst (lm_waiters l))" and "fifo (lm_waiters l)"
  shows "lsys_ok \<lparr>ls_limiter = drain l, ls_holders = h\<rparr>"
proof -
  let ?n = "min (nat (lm_capacity l - lm_borrowed l)) (pending (lm_waiters l))"
  note c = wake_counts[of ?n "lm_waiters l"] fifo_wake[OF assms(6), of ?n]
  have "pending (wake ?n (lm_waiters l)) \<noteq> 0 \<longrightarrow> lm_capacity l \<le> lm_borrowed l + int ?n"
    using c by auto
  then show ?thesis
    using assms c unfolding lsys_ok_def drain_eq[of l] Let_def by simp
qed


lemma lsys_okD:
  assumes "lsys_ok s"
  defines "l \<equiv> ls_limiter s"
  shows "lm_borrowed l = int (ls_holders s + woken (lm_waiters l))"
    and "pending (lm_waiters l) \<noteq> 0 \<Longrightarrow> lm_capacity l \<le> lm_borrowed l"
    and "1 \<le> lm_floor l" and "lm_floor l \<le> lm_capacity l" and "lm_capacity l \<le> lm_ceiling l"
    and "distinct (map fst (lm_waiters l))" and "fifo (lm_waiters l)"
  using assms by (simp_all add: lsys_ok_def Let_def)

lemma cancelled_ok:
  assumes "lsys_ok s" and "(w, f) \<in> set (lm_waiters (ls_limiter s))" and "f \<noteq> Pending"
  shows "lsys_ok (s\<lparr>ls_limiter := deliver_cancel w (ls_limiter s)\<rparr>)"
proof -
  let ?l = "ls_limiter s" and ?ws = "filter (\<lambda>x. fst x \<noteq> w) (lm_waiters (ls_limiter s))"
  note ok = lsys_okD[OF assms(1)]
  note r = remove_counts[OF ok(6) assms(2)]
  have d: "distinct (map fst ?ws)" and fi: "fifo ?ws"
    using ok(6,7) by (simp_all add: distinct_map_filter fifo_filter)
  show ?thesis
  proof (cases "f = Cancelled")
    case True
    with ok r d fi assms(2) show ?thesis
      by (simp add: lsys_ok_def deliver_cancel_def remove_waiter_def Let_def)
  next
    case False
    then have f: "f = Woken" using assms(3) by (cases f) auto
    then have no: "(w, Cancelled) \<notin> set (lm_waiters ?l)"
      using ok(6) assms(2) eq_key_imp_eq_value by fastforce
    have "lsys_ok \<lparr>ls_limiter = drain (?l\<lparr>lm_waiters := ?ws, lm_borrowed := lm_borrowed ?l - 1\<rparr>), ls_holders = ls_holders s\<rparr>"
      by (rule drain_ok) (use ok r d fi f in auto)
    with no show ?thesis by (cases s) (simp add: deliver_cancel_def remove_waiter_def Let_def)
  qed
qed

lemma lstep_ok: "lstep s s' \<Longrightarrow> lsys_ok s \<Longrightarrow> lsys_ok s'"
proof (induction rule: lstep.induct)
  case (take_slot s w)
  note ok = lsys_okD[OF take_slot.prems]
  from ok(2) take_slot.hyps have "pending (lm_waiters (ls_limiter s)) = 0" by (auto simp: lm_locked_def)
  with ok take_slot.hyps show ?case by (simp add: lsys_ok_def Let_def lm_acquire_def)
next
  case (park s w)
  note ok = lsys_okD[OF park.prems]
  with park.hyps show ?case by (simp add: lsys_ok_def Let_def lm_acquire_def lm_locked_def fifo_snoc)
next
  case (resume w s)
  note ok = lsys_okD[OF resume.prems]
  note r = remove_counts[OF ok(6) resume.hyps]
  with ok show ?case
    by (simp add: lsys_ok_def Let_def remove_waiter_def distinct_map_filter fifo_filter)
next
  case (cancel s w)
  note ok = lsys_okD[OF cancel.prems]
  let ?vs = "map (\<lambda>(v, f). if v = w \<and> f = Pending then (v, Cancelled) else (v, f)) (lm_waiters (ls_limiter s))"
  have c: "woken ?vs = woken (lm_waiters (ls_limiter s))" "pending ?vs \<le> pending (lm_waiters (ls_limiter s))"
    "map fst ?vs = map fst (lm_waiters (ls_limiter s))" "fifo ?vs"
    using cancel_counts[OF ok(6), of w] ok(7) unfolding Let_def by blast+
  have "distinct (map fst ?vs)" unfolding c(3) by (rule ok(6))
  with c(1,2,4) ok(1-5) show ?case
    unfolding lsys_ok_def Let_def cancel_waiter_def by fastforce
next
  case (cancelled w f s)
  then show ?case by (simp add: cancelled_ok)
next
  case (release_slot s l)
  note ok = lsys_okD[OF release_slot.prems]
  have "l = drain ((ls_limiter s)\<lparr>lm_borrowed := lm_borrowed (ls_limiter s) - 1\<rparr>)"
    using release_slot.hyps(2) by (auto simp: lm_release_def split: if_splits)
  then show ?case
    using ok release_slot.hyps(1) by (auto intro!: drain_ok)
next
  case (resize_to c s l)
  note ok = lsys_okD[OF resize_to.prems]
  have l: "l = drain ((ls_limiter s)\<lparr>lm_capacity := max (lm_floor (ls_limiter s)) (min (lm_ceiling (ls_limiter s)) c)\<rparr>)"
    using resize_to.hyps by (auto simp: lm_resize_def split: if_splits)
  have "lsys_ok \<lparr>ls_limiter = l, ls_holders = ls_holders s\<rparr>"
    unfolding l by (rule drain_ok) (use ok in auto)
  then show ?case by (cases s) simp
qed

lemma new_limiter_ok: "new_limiter capacity flr ceil = Inr l \<Longrightarrow> lsys_ok \<lparr>ls_limiter = l, ls_holders = 0\<rparr>"
  by (auto simp: new_limiter_def lsys_ok_def Let_def split: if_splits option.splits)

lemma reachable_ok:
  "lstep\<^sup>*\<^sup>* s s' \<Longrightarrow> lsys_ok s \<Longrightarrow> lsys_ok s'"
  by (induction rule: rtranclp_induct) (auto intro: lstep_ok)

lemma drain_charges:
  "lm_borrowed (drain l) \<le> max (lm_borrowed l) (lm_capacity l)" "lm_capacity (drain l) = lm_capacity l"
  by (auto simp: drain_eq Let_def)

lemma lstep_charges: "lstep s s' \<Longrightarrow> lm_borrowed (ls_limiter s') \<le> max (lm_borrowed (ls_limiter s)) (lm_capacity (ls_limiter s'))"
proof (induction rule: lstep.induct)
  case (cancelled w f s)
  let ?l = "(remove_waiter w (ls_limiter s))\<lparr>lm_borrowed := lm_borrowed (ls_limiter s) - 1\<rparr>"
  from drain_charges[of ?l] show ?case
    by (auto simp: deliver_cancel_def remove_waiter_def Let_def)
next
  case (release_slot s l)
  then show ?case
    using drain_charges[of "(ls_limiter s)\<lparr>lm_borrowed := lm_borrowed (ls_limiter s) - 1\<rparr>"]
    by (auto simp: lm_release_def split: if_splits)
next
  case (resize_to c s l)
  then show ?case
    using drain_charges[of "(ls_limiter s)\<lparr>lm_capacity := max (lm_floor (ls_limiter s)) (min (lm_ceiling (ls_limiter s)) c)\<rparr>"]
    by (auto simp: lm_resize_def split: if_splits)
qed (auto simp: lm_acquire_def lm_locked_def remove_waiter_def cancel_waiter_def)

text \<open>
  C32: Under every interleaving of acquisitions, wake-ups, cancellations, releases and resizes, the
  slots charged are exactly those held by a task or handed to a waiter that has not gone on yet; a
  waiter is parked only while no slot is free, woken waiters are older than pending ones, and the
  capacity stays between floor and ceiling. A step never charges a slot above the ceiling it leaves.
\<close>

theorem limiter_never_loses_a_slot:
  assumes "new_limiter capacity flr ceil = Inr l"
    and "lstep\<^sup>*\<^sup>* \<lparr>ls_limiter = l, ls_holders = 0\<rparr> s"
  shows "lm_borrowed (ls_limiter s) = int (ls_holders s + woken (lm_waiters (ls_limiter s)))
    \<and> (pending (lm_waiters (ls_limiter s)) \<noteq> 0 \<longrightarrow> lm_locked (ls_limiter s))
    \<and> fifo (lm_waiters (ls_limiter s))
    \<and> lm_floor (ls_limiter s) \<le> lm_capacity (ls_limiter s) \<and> lm_capacity (ls_limiter s) \<le> lm_ceiling (ls_limiter s)
    \<and> (\<forall>s'. lstep s s' \<longrightarrow>
         lm_borrowed (ls_limiter s') \<le> max (lm_borrowed (ls_limiter s)) (lm_capacity (ls_limiter s')))"
proof -
  have ok: "lsys_ok s" using reachable_ok[OF assms(2) new_limiter_ok[OF assms(1)]] .
  then show ?thesis
    using lsys_okD[OF ok] lstep_charges unfolding lm_locked_def by blast
qed

section \<open>Progress\<close>

fun releases :: "nat \<Rightarrow> limiter \<Rightarrow> limiter_error + limiter" where
  "releases 0 l = Inr l"
| "releases (Suc n) l = rbind (lm_release l) (releases n)"

lemma releases_over:
  "lm_capacity l + int n \<le> lm_borrowed l \<Longrightarrow> 0 \<le> lm_capacity l \<Longrightarrow>
   releases n l = Inr (l\<lparr>lm_borrowed := lm_borrowed l - int n\<rparr>)"
proof (induction n arbitrary: l)
  case (Suc n)
  let ?l = "l\<lparr>lm_borrowed := lm_borrowed l - 1\<rparr>"
  have "drain ?l = ?l" using Suc.prems by (simp add: drain.simps[of ?l])
  then have "lm_release l = Inr ?l" using Suc.prems by (simp add: lm_release_def)
  with Suc.IH[of ?l] Suc.prems show ?case by simp
qed simp

lemma releases_append: "releases (Suc n) l = rbind (releases n l) lm_release"
proof (induction n arbitrary: l)
  case 0
  show ?case by (cases "lm_release l") simp_all
next
  case (Suc n)
  show ?case
  proof (cases "lm_release l")
    case (Inr l')
    then show ?thesis using Suc.IH[of l'] by simp
  qed simp
qed

text \<open>
  C36: A parked waiter is not forgotten. In every reachable state with a pending waiter, as many
  releases as it takes to go below the capacity succeed, and they wake exactly the oldest pending
  waiter and leave the number of charged slots at the capacity.
\<close>

theorem oldest_waiter_is_woken:
  assumes "new_limiter capacity flr ceil = Inr l0"
    and "lstep\<^sup>*\<^sup>* \<lparr>ls_limiter = l0, ls_holders = 0\<rparr> s"
    and "pending (lm_waiters (ls_limiter s)) \<noteq> 0"
  defines "l \<equiv> ls_limiter s"
  shows "releases (Suc (nat (lm_borrowed l - lm_capacity l))) l =
    Inr (l\<lparr>lm_borrowed := lm_capacity l, lm_waiters := wake 1 (lm_waiters l)\<rparr>)"
proof -
  have ok: "lsys_ok s" using reachable_ok[OF assms(2) new_limiter_ok[OF assms(1)]] .
  have le: "lm_capacity l \<le> lm_borrowed l" and cap: "1 \<le> lm_capacity l"
    using lsys_okD(2-4)[OF ok] assms(3) unfolding l_def by auto
  let ?l = "l\<lparr>lm_borrowed := lm_capacity l\<rparr>"
  have "releases (nat (lm_borrowed l - lm_capacity l)) l = Inr ?l"
    using releases_over[of l "nat (lm_borrowed l - lm_capacity l)"] le cap by simp
  moreover have "lm_release ?l = Inr (?l\<lparr>lm_waiters := wake 1 (lm_waiters l)\<rparr>)"
    using cap assms(3) by (simp add: lm_release_def drain_eq Let_def l_def)
  ultimately show ?thesis by (simp only: releases_append rbind_simps limiter.simps)
qed


definition sample_limiter :: limiter where
  "sample_limiter = \<lparr>lm_floor = 1, lm_ceiling = 1, lm_capacity = 1, lm_borrowed = 0, lm_waiters = []\<rparr>"

text \<open>One slot, one holder, one parked waiter.\<close>

lemma sample_reachable:
  "lstep\<^sup>*\<^sup>* \<lparr>ls_limiter = sample_limiter, ls_holders = 0\<rparr>
     \<lparr>ls_limiter = sample_limiter\<lparr>lm_borrowed := 1, lm_waiters := [(7, Pending)]\<rparr>, ls_holders = 1\<rparr>"
proof -
  let ?s0 = "\<lparr>ls_limiter = sample_limiter, ls_holders = 0\<rparr>"
  let ?s1 = "\<lparr>ls_limiter = fst (lm_acquire 3 (ls_limiter ?s0)), ls_holders = Suc (ls_holders ?s0)\<rparr>"
  let ?s2 = "?s1\<lparr>ls_limiter := fst (lm_acquire 7 (ls_limiter ?s1))\<rparr>"
  have "lstep ?s0 ?s1" by (rule lstep.take_slot) (simp add: lm_locked_def sample_limiter_def)
  moreover have "lstep ?s1 ?s2" by (rule lstep.park) (simp_all add: lm_locked_def lm_acquire_def sample_limiter_def)
  ultimately have "lstep\<^sup>*\<^sup>* ?s0 ?s2" by (meson rtranclp.rtrancl_into_rtrancl rtranclp.rtrancl_refl)
  then show ?thesis by (simp add: lm_locked_def lm_acquire_def sample_limiter_def)
qed

lemma sample_new: "new_limiter 1 1 None = Inr sample_limiter"
  by (simp add: new_limiter_def sample_limiter_def)

theorem limiter_never_loses_a_slot_witness:
  "lm_locked (sample_limiter\<lparr>lm_borrowed := 1, lm_waiters := [(7, Pending)]\<rparr>)"
  using limiter_never_loses_a_slot[OF sample_new sample_reachable] by simp

theorem oldest_waiter_is_woken_witness:
  "releases 1 (sample_limiter\<lparr>lm_borrowed := 1, lm_waiters := [(7, Pending)]\<rparr>) =
     Inr (sample_limiter\<lparr>lm_borrowed := 1, lm_waiters := [(7, Woken)]\<rparr>)"
  using oldest_waiter_is_woken[OF sample_new sample_reachable] by (simp add: sample_limiter_def)

end
