(* ===== verification/Ledger_Store.thy ===== *)
theory Ledger_Store
  imports Repo_Status
begin

text \<open>
  The durable cost ledger of \<open>src/fleet/state/repository.py\<close>: the run and repository ledgers, the
  reservations behind them and the reaper, over the tables of \<open>schema.sql\<close> with their constraints. A
  write unit runs in one transaction, so a refused one returns an error and no state. Dollars are
  exact rationals; the tolerance \<open>1e-9\<close> of the guards is kept. Instants are UTC.
\<close>

section \<open>Tables\<close>

record budget_row =
  bl_spent :: rat
  bl_reserved :: rat
  bl_max :: rat
  bl_halted :: bool
  bl_expires :: "instant option"
  bl_updated :: instant
  bl_calls :: int
  bl_max_calls :: "int option"

record repo_row =
  rl_spent :: rat
  rl_reserved :: rat
  rl_max :: rat
  rl_reval :: rat
  rl_reval_max :: rat
  rl_rounds :: nat
  rl_expires :: "instant option"
  rl_updated :: instant

definition remaining_usd :: "repo_row \<Rightarrow> rat" where
  "remaining_usd r = max 0 (rl_max r - rl_spent r - rl_reserved r)"

datatype hold_state = HELD | SETTLED | EXPIRED

record reservation_row =
  rv_run :: string
  rv_repo :: repo_id
  rv_phase :: "phase option"
  rv_fence :: "int option"
  rv_amount :: rat
  rv_state :: hold_state
  rv_expires :: "instant option"
  rv_created :: instant

text \<open>The lease columns of a \<open>phases\<close> row.\<close>

record lease_row =
  pl_status :: repo_status
  pl_owner :: "string option"
  pl_fence :: int
  pl_heartbeat :: "instant option"
  pl_expires :: "instant option"
  pl_updated :: instant

record ledger_db =
  db_runs :: "string list"
  db_repos :: "repo_id list"
  db_phases :: "(string \<times> repo_id \<times> phase, lease_row) dict"
  db_budget :: "(string, budget_row) dict"
  db_repo :: "(string \<times> repo_id, repo_row) dict"
  db_res :: "(string, reservation_row) dict"

datatype ledger_error =
    BudgetRefused
  | RepoBudgetRefused
  | RunCallBudgetRefused
  | ReservationRefused
  | RepositoryError
  | IntegrityViolation
  | UsageRefused

definition USD_EPSILON :: rat where
  "USD_EPSILON = 1 / 10 ^ 9"

text \<open>The \<open>CHECK\<close> constraints.\<close>

definition budget_checks :: "budget_row \<Rightarrow> bool" where
  "budget_checks b \<longleftrightarrow> 0 \<le> bl_spent b \<and> 0 \<le> bl_reserved b \<and> bl_spent b + bl_reserved b \<le> bl_max b \<and> 0 \<le> bl_calls b"

definition repo_checks :: "repo_row \<Rightarrow> bool" where
  "repo_checks r \<longleftrightarrow> rl_reval r \<le> rl_max r \<and> 0 \<le> rl_spent r \<and> 0 \<le> rl_reserved r \<and> rl_spent r + rl_reserved r \<le> rl_max r"

definition put_budget :: "ledger_db \<Rightarrow> string \<Rightarrow> budget_row \<Rightarrow> ledger_error + ledger_db" where
  "put_budget db run b =
     (if budget_checks b then Inr (db\<lparr>db_budget := dict_set (db_budget db) run b\<rparr>) else Inl IntegrityViolation)"

definition put_repo :: "ledger_db \<Rightarrow> string \<times> repo_id \<Rightarrow> repo_row \<Rightarrow> ledger_error + ledger_db" where
  "put_repo db k r =
     (if repo_checks r then Inr (db\<lparr>db_repo := dict_set (db_repo db) k r\<rparr>) else Inl IntegrityViolation)"

section \<open>Opening, halting, reading\<close>

definition get_budget :: "ledger_db \<Rightarrow> string \<Rightarrow> budget_row option" where
  "get_budget db run = dict_get (db_budget db) run"

definition get_repo_budget :: "ledger_db \<Rightarrow> string \<Rightarrow> repo_id \<Rightarrow> repo_row option" where
  "get_repo_budget db run repo = dict_get (db_repo db) (run, repo)"

definition get_reservation :: "ledger_db \<Rightarrow> string \<Rightarrow> string \<Rightarrow> reservation_row option" where
  "get_reservation db run rid =
     (case dict_get (db_res db) rid of None \<Rightarrow> None | Some r \<Rightarrow> if rv_run r = run then Some r else None)"

text \<open>The candidate row of the upsert is checked before the conflict is looked for.\<close>

definition open_budget_ledger ::
  "ledger_db \<Rightarrow> string \<Rightarrow> rat \<Rightarrow> int option \<Rightarrow> instant \<Rightarrow> ledger_error + ledger_db" where
  "open_budget_ledger db run max_usd max_calls now =
     (let fresh = \<lparr>bl_spent = 0, bl_reserved = 0, bl_max = max_usd, bl_halted = False, bl_expires = None,
                   bl_updated = now, bl_calls = 0, bl_max_calls = max_calls\<rparr> in
      if \<not> budget_checks fresh then Inl IntegrityViolation
      else case get_budget db run of
        None \<Rightarrow> if run \<in> set (db_runs db) then put_budget db run fresh else Inl IntegrityViolation
      | Some b \<Rightarrow> put_budget db run (b\<lparr>bl_max := max_usd, bl_max_calls := max_calls, bl_updated := now\<rparr>))"

definition open_repo_ledger ::
  "ledger_db \<Rightarrow> string \<Rightarrow> repo_id \<Rightarrow> rat \<Rightarrow> instant \<Rightarrow> rat \<Rightarrow> ledger_error + ledger_db" where
  "open_repo_ledger db run repo max_usd now reval_max =
     (let fresh = \<lparr>rl_spent = 0, rl_reserved = 0, rl_max = max_usd, rl_reval = 0, rl_reval_max = reval_max,
                   rl_rounds = 0, rl_expires = None, rl_updated = now\<rparr> in
      if \<not> repo_checks fresh then Inl IntegrityViolation
      else case get_repo_budget db run repo of
        None \<Rightarrow> if run \<in> set (db_runs db) \<and> repo \<in> set (db_repos db) then put_repo db (run, repo) fresh
                else Inl IntegrityViolation
      | Some r \<Rightarrow> put_repo db (run, repo)
          (r\<lparr>rl_max := max (rl_max r) max_usd, rl_reval_max := max (rl_reval_max r) reval_max, rl_updated := now\<rparr>))"

definition halt_budget_ledger :: "ledger_db \<Rightarrow> string \<Rightarrow> instant \<Rightarrow> ledger_error + ledger_db" where
  "halt_budget_ledger db run now =
     (case get_budget db run of
        None \<Rightarrow> Inl RepositoryError
      | Some b \<Rightarrow> put_budget db run (b\<lparr>bl_halted := True, bl_updated := now\<rparr>))"

text \<open>
  The write of \<open>fleet resume --raise-budget\<close>, the only one that clears a halt: it matches a row whose committed money
  and ceiling are at most the new ceiling. Its audit row in \<open>findings\<close> is not part of the ledger.
\<close>

definition raise_run_ceiling :: "ledger_db \<Rightarrow> string \<Rightarrow> rat \<Rightarrow> instant \<Rightarrow> ledger_error + ledger_db" where
  "raise_run_ceiling db run new_max now =
     (case get_budget db run of
        None \<Rightarrow> Inl UsageRefused
      | Some b \<Rightarrow>
          if bl_spent b + bl_reserved b \<le> new_max \<and> bl_max b \<le> new_max
          then put_budget db run (b\<lparr>bl_max := new_max, bl_halted := False, bl_updated := now\<rparr>)
          else Inl UsageRefused)"

section \<open>Reserving\<close>

text \<open>\<open>MIN\<close> over a nullable column.\<close>

definition min_present :: "instant option list \<Rightarrow> instant option" where
  "min_present xs = (case List.map_filter id xs of [] \<Rightarrow> None | ys \<Rightarrow> Some (Min (set ys)))"

definition held_expiry_run :: "ledger_db \<Rightarrow> string \<Rightarrow> instant option" where
  "held_expiry_run db run =
     min_present (map rv_expires (filter (\<lambda>r. rv_run r = run \<and> rv_state r = HELD) (map snd (db_res db))))"

definition held_expiry_repo :: "ledger_db \<Rightarrow> string \<times> repo_id \<Rightarrow> instant option" where
  "held_expiry_repo db k =
     min_present (map rv_expires
       (filter (\<lambda>r. (rv_run r, rv_repo r) = k \<and> rv_state r = HELD) (map snd (db_res db))))"

text \<open>An \<open>UPDATE\<close> returns \<open>None\<close> when it matches no row.\<close>

definition insert_reservation ::
  "ledger_db \<Rightarrow> string \<Rightarrow> reservation_row \<Rightarrow> ledger_error + ledger_db option" where
  "insert_reservation db rid r =
     (if rv_amount r < 0 \<or> (rv_phase r = None) \<noteq> (rv_fence r = None) then Inl IntegrityViolation
      else if dict_get (db_res db) rid \<noteq> None then Inr None
      else if rv_run r \<in> set (db_runs db) \<and> rv_repo r \<in> set (db_repos db)
        \<and> (case rv_phase r of None \<Rightarrow> True | Some p \<Rightarrow> dict_get (db_phases db) (rv_run r, rv_repo r, p) \<noteq> None)
      then Inr (Some (db\<lparr>db_res := dict_set (db_res db) rid r\<rparr>))
      else Inl IntegrityViolation)"

definition call_fits :: "budget_row \<Rightarrow> bool" where
  "call_fits b \<longleftrightarrow> (case bl_max_calls b of None \<Rightarrow> True | Some m \<Rightarrow> bl_calls b + 1 \<le> m)"

definition reserve_run_sql ::
  "ledger_db \<Rightarrow> string \<Rightarrow> rat \<Rightarrow> instant option \<Rightarrow> instant \<Rightarrow> ledger_error + ledger_db option" where
  "reserve_run_sql db run amount expiry now =
     (case get_budget db run of
        None \<Rightarrow> Inr None
      | Some b \<Rightarrow>
          if \<not> bl_halted b \<and> bl_spent b + bl_reserved b + amount \<le> bl_max b \<and> call_fits b
          then map_sum id Some (put_budget db run
                 (b\<lparr>bl_reserved := bl_reserved b + amount, bl_expires := expiry, bl_calls := bl_calls b + 1,
                    bl_updated := now\<rparr>))
          else Inr None)"

definition reserve_repo_sql ::
  "ledger_db \<Rightarrow> string \<times> repo_id \<Rightarrow> rat \<Rightarrow> instant option \<Rightarrow> instant \<Rightarrow> ledger_error + ledger_db option" where
  "reserve_repo_sql db k amount expiry now =
     (case dict_get (db_repo db) k of
        None \<Rightarrow> Inr None
      | Some r \<Rightarrow>
          if rl_spent r + rl_reserved r + amount \<le> rl_max r
          then map_sum id Some (put_repo db k
                 (r\<lparr>rl_reserved := rl_reserved r + amount, rl_expires := expiry, rl_updated := now\<rparr>))
          else Inr None)"

definition call_ceiling_refused :: "budget_row option \<Rightarrow> bool" where
  "call_ceiling_refused probe =
     (case probe of
        None \<Rightarrow> False
      | Some b \<Rightarrow> (case bl_max_calls b of None \<Rightarrow> False | Some m \<Rightarrow> bl_calls b + 1 > m))"

definition run_refusal :: "budget_row option \<Rightarrow> ledger_error" where
  "run_refusal probe = (if call_ceiling_refused probe then RunCallBudgetRefused else BudgetRefused)"

text \<open>Zero rows are a refusal.\<close>

definition or_refuse :: "ledger_error \<Rightarrow> ledger_error + 'a option \<Rightarrow> ledger_error + 'a" where
  "or_refuse e r = rbind r (\<lambda>x. case x of None \<Rightarrow> Inl e | Some y \<Rightarrow> Inr y)"

definition reserve_budget ::
  "ledger_db \<Rightarrow> string \<Rightarrow> rat \<Rightarrow> instant \<Rightarrow> instant option \<Rightarrow> ledger_error + ledger_db" where
  "reserve_budget db run amount now expires =
     or_refuse (run_refusal (get_budget db run)) (reserve_run_sql db run amount expires now)"

definition reserve_repo_budget ::
  "ledger_db \<Rightarrow> string \<Rightarrow> repo_id \<Rightarrow> string \<Rightarrow> rat \<Rightarrow> instant \<Rightarrow> instant option \<Rightarrow> phase option \<Rightarrow> int option
   \<Rightarrow> ledger_error + ledger_db" where
  "reserve_repo_budget db run repo rid amount now expires phase fence =
     (if (phase = None) \<noteq> (fence = None) then Inl RepositoryError
      else rbind (or_refuse ReservationRefused (insert_reservation db rid
             \<lparr>rv_run = run, rv_repo = repo, rv_phase = phase, rv_fence = fence, rv_amount = amount,
              rv_state = HELD, rv_expires = expires, rv_created = now\<rparr>)) (\<lambda>db1.
        rbind (or_refuse RepoBudgetRefused
                 (reserve_repo_sql db1 (run, repo) amount (held_expiry_repo db1 (run, repo)) now)) (\<lambda>db2.
          or_refuse (run_refusal (get_budget db2 run))
            (reserve_run_sql db2 run amount (held_expiry_run db2 run) now))))"

section \<open>Settling\<close>

definition settle_reservation_sql ::
  "ledger_db \<Rightarrow> string \<Rightarrow> string \<Rightarrow> repo_id \<Rightarrow> rat \<Rightarrow> ledger_db option" where
  "settle_reservation_sql db rid run repo reserved =
     (case dict_get (db_res db) rid of
        None \<Rightarrow> None
      | Some r \<Rightarrow>
          if rv_run r = run \<and> rv_repo r = repo \<and> rv_state r = HELD \<and> \<bar>rv_amount r - reserved\<bar> \<le> USD_EPSILON
          then Some (db\<lparr>db_res := dict_set (db_res db) rid (r\<lparr>rv_state := SETTLED\<rparr>)\<rparr>)
          else None)"

definition settle_run_sql ::
  "ledger_db \<Rightarrow> string \<Rightarrow> rat \<Rightarrow> rat \<Rightarrow> instant \<Rightarrow> ledger_error + ledger_db option" where
  "settle_run_sql db run reserved actual now =
     (case get_budget db run of
        None \<Rightarrow> Inr None
      | Some b \<Rightarrow>
          if bl_reserved b \<ge> reserved - USD_EPSILON
             \<and> bl_spent b + actual + max (bl_reserved b - reserved) 0 \<le> bl_max b
          then map_sum id Some (put_budget db run
                 (b\<lparr>bl_reserved := max (bl_reserved b - reserved) 0, bl_spent := bl_spent b + actual,
                    bl_expires := held_expiry_run db run, bl_updated := now\<rparr>))
          else Inr None)"

definition settle_repo_sql ::
  "ledger_db \<Rightarrow> string \<times> repo_id \<Rightarrow> rat \<Rightarrow> rat \<Rightarrow> bool \<Rightarrow> instant \<Rightarrow> ledger_error + ledger_db option" where
  "settle_repo_sql db k reserved actual revalidation now =
     (case dict_get (db_repo db) k of
        None \<Rightarrow> Inr None
      | Some r \<Rightarrow>
          if rl_reserved r \<ge> reserved - USD_EPSILON
             \<and> rl_spent r + actual + max (rl_reserved r - reserved) 0 \<le> rl_max r
             \<and> (revalidation \<longrightarrow> rl_reval r + actual \<le> rl_reval_max r)
          then map_sum id Some (put_repo db k
                 (r\<lparr>rl_reserved := max (rl_reserved r - reserved) 0, rl_spent := rl_spent r + actual,
                    rl_reval := rl_reval r + (if revalidation then actual else 0),
                    rl_expires := held_expiry_repo db k, rl_updated := now\<rparr>))
          else Inr None)"

definition settle_budget :: "ledger_db \<Rightarrow> string \<Rightarrow> rat \<Rightarrow> rat \<Rightarrow> instant \<Rightarrow> ledger_error + ledger_db" where
  "settle_budget db run reserved actual now =
     or_refuse BudgetRefused (settle_run_sql db run reserved actual now)"

definition settle_repo_budget ::
  "ledger_db \<Rightarrow> string \<Rightarrow> repo_id \<Rightarrow> string \<Rightarrow> rat \<Rightarrow> rat \<Rightarrow> instant \<Rightarrow> bool \<Rightarrow> ledger_error + ledger_db" where
  "settle_repo_budget db run repo rid reserved actual now revalidation =
     rbind (or_refuse ReservationRefused (Inr (settle_reservation_sql db rid run repo reserved))) (\<lambda>db1.
       rbind (or_refuse RepoBudgetRefused (settle_repo_sql db1 (run, repo) reserved actual revalidation now)) (\<lambda>db2.
         or_refuse BudgetRefused (settle_run_sql db2 run reserved actual now)))"

section \<open>The reaper\<close>

definition expired_held :: "instant \<Rightarrow> reservation_row \<Rightarrow> bool" where
  "expired_held now r \<longleftrightarrow> rv_state r = HELD \<and> (case rv_expires r of None \<Rightarrow> False | Some e \<Rightarrow> e < now)"

definition reap_lease :: "instant \<Rightarrow> lease_row \<Rightarrow> lease_row" where
  "reap_lease now p =
     p\<lparr>pl_status := PENDING, pl_owner := None, pl_fence := pl_fence p + 1, pl_heartbeat := None,
       pl_expires := None, pl_updated := now\<rparr>"

definition lease_expired :: "instant \<Rightarrow> lease_row \<Rightarrow> bool" where
  "lease_expired now p \<longleftrightarrow> pl_status p = RUNNING \<and> (case pl_expires p of None \<Rightarrow> False | Some e \<Rightarrow> e < now)"

definition map_rows :: "('k \<Rightarrow> 'v \<Rightarrow> bool) \<Rightarrow> ('k \<Rightarrow> 'v \<Rightarrow> 'v) \<Rightarrow> ('k, 'v) dict \<Rightarrow> ('k, 'v) dict" where
  "map_rows P f d = map (\<lambda>(k, v). (k, if P k v then f k v else v)) d"

definition expired_rows :: "ledger_db \<Rightarrow> instant \<Rightarrow> string \<Rightarrow> reservation_row list" where
  "expired_rows db now run = filter (\<lambda>r. rv_run r = run \<and> expired_held now r) (map snd (db_res db))"

definition surviving_expiry :: "instant \<Rightarrow> reservation_row list \<Rightarrow> instant option" where
  "surviving_expiry now rs =
     min_present (map rv_expires (filter (\<lambda>r. rv_state r = HELD
       \<and> (case rv_expires r of None \<Rightarrow> True | Some e \<Rightarrow> e \<ge> now)) rs))"

definition reap_fences :: "ledger_db \<Rightarrow> string \<Rightarrow> instant \<Rightarrow> ledger_db" where
  "reap_fences db run now =
     db\<lparr>db_phases := map_rows
          (\<lambda>(ru, repo, p) _. ru = run \<and> (\<exists>r \<in> set (expired_rows db now run). rv_repo r = repo \<and> rv_phase r = Some p))
          (\<lambda>_ l. l\<lparr>pl_fence := pl_fence l + 1, pl_updated := now\<rparr>) (db_phases db)\<rparr>"

definition reap_repo_ledgers :: "ledger_db \<Rightarrow> string \<Rightarrow> instant \<Rightarrow> ledger_db" where
  "reap_repo_ledgers db run now =
     db\<lparr>db_repo := map_rows
          (\<lambda>(ru, repo) _. ru = run \<and> (\<exists>r \<in> set (expired_rows db now run). rv_repo r = repo))
          (\<lambda>(ru, repo) l. l\<lparr>rl_reserved := max (rl_reserved l -
               sum_list (map rv_amount (filter (\<lambda>r. rv_repo r = repo) (expired_rows db now run)))) 0,
             rl_expires := surviving_expiry now
               (filter (\<lambda>r. rv_run r = run \<and> rv_repo r = repo) (map snd (db_res db))),
             rl_updated := now\<rparr>) (db_repo db)\<rparr>"

definition reap_run_ledger :: "ledger_db \<Rightarrow> string \<Rightarrow> instant \<Rightarrow> ledger_db" where
  "reap_run_ledger db run now =
     db\<lparr>db_budget := map_rows (\<lambda>ru _. ru = run \<and> expired_rows db now run \<noteq> [])
          (\<lambda>_ b. b\<lparr>bl_reserved := max (bl_reserved b - sum_list (map rv_amount (expired_rows db now run))) 0,
             bl_expires := surviving_expiry now (filter (\<lambda>r. rv_run r = run) (map snd (db_res db))),
             bl_updated := now\<rparr>) (db_budget db)\<rparr>"

definition reap_reservations :: "ledger_db \<Rightarrow> string \<Rightarrow> instant \<Rightarrow> ledger_db" where
  "reap_reservations db run now =
     db\<lparr>db_res := map_rows (\<lambda>_ r. rv_run r = run \<and> expired_held now r) (\<lambda>_ r. r\<lparr>rv_state := EXPIRED\<rparr>) (db_res db)\<rparr>"

definition reap_expired_phase_leases :: "ledger_db \<Rightarrow> string \<Rightarrow> instant \<Rightarrow> ledger_db \<times> nat" where
  "reap_expired_phase_leases db run now =
     (let due = (\<lambda>(ru, _) p. ru = run \<and> lease_expired now p);
          reclaimed = length (filter (\<lambda>(k, p). due k p) (db_phases db));
          db1 = db\<lparr>db_phases := map_rows due (\<lambda>_. reap_lease now) (db_phases db)\<rparr>;
          db2 = reap_fences db1 run now;
          db3 = reap_repo_ledgers db2 run now;
          db4 = reap_run_ledger db3 run now in
      (reap_reservations db4 run now, reclaimed))"

end
