(* ===== verification/Ledger_Correct.thy ===== *)
theory Ledger_Correct
  imports Ledger_Store
begin

text \<open>
  Correctness of the durable ledger: under every history of writes the two ledgers and the reservations
  explain each other, the spend exactly and the held money up to what settlements misquote, no ceiling is
  exceeded, a halt lasts until the operator raises the ceiling, and a hold is settled or reaped at most once.
\<close>

section \<open>Sums over tables\<close>

definition sum_by :: "('k \<Rightarrow> 'v \<Rightarrow> bool) \<Rightarrow> ('v \<Rightarrow> rat) \<Rightarrow> ('k, 'v) dict \<Rightarrow> rat" where
  "sum_by P f d = sum_list (map (\<lambda>(k, v). if P k v then f v else 0) d)"

definition term_of :: "('k \<Rightarrow> 'v \<Rightarrow> bool) \<Rightarrow> ('v \<Rightarrow> rat) \<Rightarrow> 'k \<Rightarrow> 'v option \<Rightarrow> rat" where
  "term_of P f k v = (case v of None \<Rightarrow> 0 | Some w \<Rightarrow> if P k w then f w else 0)"

lemma sum_by_simps [simp]:
  "sum_by P f [] = 0" "sum_by P f ((k, v) # d) = (if P k v then f v else 0) + sum_by P f d"
  by (simp_all add: sum_by_def)

lemma sum_by_dict_set:
  "distinct (map fst d) \<Longrightarrow>
   sum_by P f (dict_set d k v) = sum_by P f d - term_of P f k (dict_get d k) + term_of P f k (Some v)"
proof (induction d)
  case (Cons x d)
  obtain j w where x: "x = (j, w)" by force
  show ?case
  proof (cases "j = k")
    case True
    with x show ?thesis by (simp add: dict_set_def dict_get_def term_of_def)
  next
    case False
    with Cons x show ?thesis by (simp add: dict_set_def dict_get_def)
  qed
qed (simp add: dict_set_def dict_get_def term_of_def)

lemma sum_by_ge_member:
  "(k, v) \<in> set d \<Longrightarrow> P k v \<Longrightarrow> (\<And>j w. (j, w) \<in> set d \<Longrightarrow> 0 \<le> f w) \<Longrightarrow> f v \<le> sum_by P f d"
  unfolding sum_by_def by (rule member_le_sum_list) (force simp: image_iff)+

lemma sum_by_cong:
  assumes "\<And>k v. (k, v) \<in> set d \<Longrightarrow> P k v = Q k v \<and> (P k v \<longrightarrow> f v = g v)"
  shows "sum_by P f d = sum_by Q g d"
  unfolding sum_by_def by (rule arg_cong[where f = sum_list], rule map_cong) (use assms in auto)

lemma sum_by_zero:
  assumes "\<And>k v. (k, v) \<in> set d \<Longrightarrow> P k v \<Longrightarrow> f v = 0"
  shows "sum_by P f d = 0"
proof -
  have "sum_by P f d = sum_by (\<lambda>_ _. True) (\<lambda>_. 0) d"
    unfolding sum_by_def by (rule arg_cong[where f = sum_list], rule map_cong) (use assms in auto)
  also have "\<dots> = 0" by (induction d) auto
  finally show ?thesis .
qed

lemma sum_by_nonneg: "(\<And>k v. (k, v) \<in> set d \<Longrightarrow> P k v \<Longrightarrow> 0 \<le> f v) \<Longrightarrow> 0 \<le> sum_by P f d"
  unfolding sum_by_def by (rule sum_list_nonneg) auto

lemma sum_by_mono:
  "(\<And>k v. (k, v) \<in> set d \<Longrightarrow> P k v \<Longrightarrow> Q k v) \<Longrightarrow> (\<And>k v. (k, v) \<in> set d \<Longrightarrow> 0 \<le> f v)
   \<Longrightarrow> sum_by P f d \<le> sum_by Q f d"
proof (induction d)
  case (Cons x d)
  obtain k v where x: "x = (k, v)" by force
  have "sum_by P f d \<le> sum_by Q f d"
    by (rule Cons.IH) (use Cons.prems in auto)
  moreover have "(if P k v then f v else 0) \<le> (if Q k v then f v else 0)"
    using Cons.prems x by auto
  ultimately show ?case unfolding x sum_by_simps by (rule add_mono[rotated])
qed simp

lemma sum_by_split:
  "sum_by P f d = sum_by (\<lambda>k v. P k v \<and> Q k v) f d + sum_by (\<lambda>k v. P k v \<and> \<not> Q k v) f d"
  by (induction d) auto

lemma sum_by_map_rows:
  "(\<And>k v. P k (if S k v then h k v else v) = P' k v) \<Longrightarrow> (\<And>k v. f (if S k v then h k v else v) = f v)
   \<Longrightarrow> sum_by P f (map_rows S h d) = sum_by P' f d"
  by (induction d) (auto simp: map_rows_def)

lemma sum_filter: "sum_list (map f (filter Q (map snd d))) = sum_by (\<lambda>_ v. Q v) f d"
  by (induction d) auto

lemma keys_map_rows [simp]: "map fst (map_rows S h d) = map fst d"
  by (auto simp: map_rows_def)

lemma dict_get_map_rows:
  "dict_get (map_rows S h d) k = map_option (\<lambda>v. if S k v then h k v else v) (dict_get d k)"
  by (induction d) (auto simp: map_rows_def dict_get_def)

section \<open>The invariant\<close>

abbreviation held_of :: "ledger_db \<Rightarrow> string \<Rightarrow> rat" where
  "held_of db run \<equiv> sum_by (\<lambda>_ v. rv_run v = run \<and> rv_state v = HELD) rv_amount (db_res db)"

abbreviation held_by :: "ledger_db \<Rightarrow> string \<times> repo_id \<Rightarrow> rat" where
  "held_by db k \<equiv> sum_by (\<lambda>_ v. (rv_run v, rv_repo v) = k \<and> rv_state v = HELD) rv_amount (db_res db)"

abbreviation spent_in :: "ledger_db \<Rightarrow> string \<Rightarrow> rat" where
  "spent_in db run \<equiv> sum_by (\<lambda>k _. fst k = run) rl_spent (db_repo db)"

definition keys_ok :: "ledger_db \<Rightarrow> bool" where
  "keys_ok db \<longleftrightarrow> distinct (map fst (db_budget db)) \<and> distinct (map fst (db_repo db)) \<and> distinct (map fst (db_res db))"

text \<open>
  A settlement names the amount it releases, and the store accepts one that is within its tolerance of the reservation's own.
  So the held column of a ledger may drift from the reservations, for each run by at most some \<open>D\<close>.
\<close>

definition rows_ok :: "(string \<Rightarrow> rat) \<Rightarrow> ledger_db \<Rightarrow> bool" where
  "rows_ok D db \<longleftrightarrow>
     (\<forall>run b. dict_get (db_budget db) run = Some b \<longrightarrow>
        budget_checks b \<and> \<bar>bl_reserved b - held_of db run\<bar> \<le> D run \<and> bl_spent b = spent_in db run)
     \<and> (\<forall>k r. dict_get (db_repo db) k = Some r \<longrightarrow> repo_checks r \<and> \<bar>rl_reserved r - held_by db k\<bar> \<le> D (fst k))"

definition holds_ok :: "ledger_db \<Rightarrow> bool" where
  "holds_ok db \<longleftrightarrow>
     (\<forall>rid v. dict_get (db_res db) rid = Some v \<longrightarrow> 0 \<le> rv_amount v
        \<and> (rv_state v = HELD \<longrightarrow> dict_get (db_repo db) (rv_run v, rv_repo v) \<noteq> None \<and> dict_get (db_budget db) (rv_run v) \<noteq> None))
     \<and> (\<forall>run repo r. dict_get (db_repo db) (run, repo) = Some r \<longrightarrow> dict_get (db_budget db) run = None \<longrightarrow> rl_spent r = 0)"

definition ledger_near :: "(string \<Rightarrow> rat) \<Rightarrow> ledger_db \<Rightarrow> bool" where
  "ledger_near D db \<longleftrightarrow> keys_ok db \<and> rows_ok D db \<and> holds_ok db"

abbreviation ledger_ok :: "ledger_db \<Rightarrow> bool" where
  "ledger_ok \<equiv> ledger_near (\<lambda>_. 0)"

text \<open>A database before the first run: no ledger row and no reservation.\<close>

definition empty_ledger :: "ledger_db \<Rightarrow> bool" where
  "empty_ledger db \<longleftrightarrow> db_budget db = [] \<and> db_repo db = [] \<and> db_res db = []"

lemma empty_ledger_ok: "empty_ledger db \<Longrightarrow> ledger_ok db"
  by (simp add: empty_ledger_def ledger_near_def keys_ok_def rows_ok_def holds_ok_def dict_get_def)


section \<open>What a successful write did\<close>

lemma or_refuse_Inr [simp]: "or_refuse e r = Inr y \<longleftrightarrow> r = Inr (Some y)"
  by (auto simp: or_refuse_def rbind_Inr_iff split: option.splits)

lemma put_budget_Inr [simp]:
  "put_budget db run b = Inr db' \<longleftrightarrow> budget_checks b \<and> db' = db\<lparr>db_budget := dict_set (db_budget db) run b\<rparr>"
  by (auto simp: put_budget_def)

lemma put_repo_Inr [simp]:
  "put_repo db k r = Inr db' \<longleftrightarrow> repo_checks r \<and> db' = db\<lparr>db_repo := dict_set (db_repo db) k r\<rparr>"
  by (auto simp: put_repo_def)

lemma map_sum_Some_Inr [simp]: "map_sum id Some r = Inr (Some y) \<longleftrightarrow> r = Inr y"
  by (cases r) auto

lemma insert_reservation_Inr:
  "insert_reservation db rid v = Inr (Some db') \<longleftrightarrow>
     0 \<le> rv_amount v \<and> (rv_phase v = None) = (rv_fence v = None) \<and> dict_get (db_res db) rid = None
     \<and> rv_run v \<in> set (db_runs db) \<and> rv_repo v \<in> set (db_repos db)
     \<and> (case rv_phase v of None \<Rightarrow> True | Some p \<Rightarrow> dict_get (db_phases db) (rv_run v, rv_repo v, p) \<noteq> None)
     \<and> db' = db\<lparr>db_res := dict_set (db_res db) rid v\<rparr>"
  by (auto simp: insert_reservation_def)

lemma reserve_repo_sql_Inr:
  "reserve_repo_sql db k amount expiry now = Inr (Some db') \<longleftrightarrow>
     (\<exists>r. dict_get (db_repo db) k = Some r \<and> rl_spent r + rl_reserved r + amount \<le> rl_max r
       \<and> repo_checks (r\<lparr>rl_reserved := rl_reserved r + amount, rl_expires := expiry, rl_updated := now\<rparr>)
       \<and> db' = db\<lparr>db_repo := dict_set (db_repo db) k
           (r\<lparr>rl_reserved := rl_reserved r + amount, rl_expires := expiry, rl_updated := now\<rparr>)\<rparr>)"
  by (auto simp: reserve_repo_sql_def split: option.splits)

lemma reserve_run_sql_Inr:
  "reserve_run_sql db run amount expiry now = Inr (Some db') \<longleftrightarrow>
     (\<exists>b. get_budget db run = Some b \<and> \<not> bl_halted b \<and> bl_spent b + bl_reserved b + amount \<le> bl_max b \<and> call_fits b
       \<and> budget_checks (b\<lparr>bl_reserved := bl_reserved b + amount, bl_expires := expiry, bl_calls := bl_calls b + 1, bl_updated := now\<rparr>)
       \<and> db' = db\<lparr>db_budget := dict_set (db_budget db) run
           (b\<lparr>bl_reserved := bl_reserved b + amount, bl_expires := expiry, bl_calls := bl_calls b + 1, bl_updated := now\<rparr>)\<rparr>)"
  by (auto simp: reserve_run_sql_def split: option.splits)

lemma settle_reservation_sql_Some:
  "settle_reservation_sql db rid run repo reserved = Some db' \<longleftrightarrow>
     (\<exists>v. dict_get (db_res db) rid = Some v \<and> rv_run v = run \<and> rv_repo v = repo \<and> rv_state v = HELD
        \<and> \<bar>rv_amount v - reserved\<bar> \<le> USD_EPSILON \<and> db' = db\<lparr>db_res := dict_set (db_res db) rid (v\<lparr>rv_state := SETTLED\<rparr>)\<rparr>)"
  by (auto simp: settle_reservation_sql_def split: option.splits)

lemma settle_repo_sql_Inr:
  "settle_repo_sql db k reserved actual reval now = Inr (Some db') \<longleftrightarrow>
     (\<exists>r. dict_get (db_repo db) k = Some r \<and> rl_reserved r \<ge> reserved - USD_EPSILON
        \<and> rl_spent r + actual + max (rl_reserved r - reserved) 0 \<le> rl_max r
        \<and> (reval \<longrightarrow> rl_reval r + actual \<le> rl_reval_max r)
        \<and> repo_checks (r\<lparr>rl_reserved := max (rl_reserved r - reserved) 0, rl_spent := rl_spent r + actual,
             rl_reval := rl_reval r + (if reval then actual else 0), rl_expires := held_expiry_repo db k, rl_updated := now\<rparr>)
        \<and> db' = db\<lparr>db_repo := dict_set (db_repo db) k (r\<lparr>rl_reserved := max (rl_reserved r - reserved) 0, rl_spent := rl_spent r + actual,
             rl_reval := rl_reval r + (if reval then actual else 0), rl_expires := held_expiry_repo db k, rl_updated := now\<rparr>)\<rparr>)"
  unfolding settle_repo_sql_def by (auto split: option.splits)

lemma settle_run_sql_Inr:
  "settle_run_sql db run reserved actual now = Inr (Some db') \<longleftrightarrow>
     (\<exists>b. get_budget db run = Some b \<and> bl_reserved b \<ge> reserved - USD_EPSILON
        \<and> bl_spent b + actual + max (bl_reserved b - reserved) 0 \<le> bl_max b
        \<and> budget_checks (b\<lparr>bl_reserved := max (bl_reserved b - reserved) 0, bl_spent := bl_spent b + actual,
             bl_expires := held_expiry_run db run, bl_updated := now\<rparr>)
        \<and> db' = db\<lparr>db_budget := dict_set (db_budget db) run (b\<lparr>bl_reserved := max (bl_reserved b - reserved) 0,
             bl_spent := bl_spent b + actual, bl_expires := held_expiry_run db run, bl_updated := now\<rparr>)\<rparr>)"
  unfolding settle_run_sql_def by (auto split: option.splits)

section \<open>The invariant is kept\<close>

text \<open>A write that replaces one row of each ledger and one reservation.\<close>

lemma ledger_nearI:
  assumes "ledger_near D db"
    and db': "db' = db\<lparr>db_res := dict_set (db_res db) rid v, db_repo := dict_set (db_repo db) (run, repo) r',
        db_budget := dict_set (db_budget db) run b'\<rparr>"
    and v: "rv_run v = run" "rv_repo v = repo" "0 \<le> rv_amount v"
    and old: "dict_get (db_res db) rid = old" "\<forall>u. old = Some u \<longrightarrow> rv_run u = run \<and> rv_repo u = repo"
    and r: "dict_get (db_repo db) (run, repo) = Some r" and b: "dict_get (db_budget db) run = Some b"
    and delta: "d = term_of (\<lambda>_ u. rv_state u = HELD) rv_amount rid (Some v)
                   - term_of (\<lambda>_ u. rv_state u = HELD) rv_amount rid old"
    and near: "\<bar>rl_reserved r' - (held_by db (run, repo) + d)\<bar> \<le> D' run" "\<bar>bl_reserved b' - (held_of db run + d)\<bar> \<le> D' run"
    and wider: "\<And>ru. D ru \<le> D' ru"
    and spent: "rl_spent r' = rl_spent r + s" "bl_spent b' = bl_spent b + s"
    and checks: "repo_checks r'" "budget_checks b'"
  shows "ledger_near D' db'"
proof -
  have k: "keys_ok db" and rows: "rows_ok D db" and holds: "holds_ok db"
    using assms(1) by (simp_all add: ledger_near_def)
  have dist: "distinct (map fst (db_res db))" "distinct (map fst (db_repo db))"
    using k by (simp_all add: keys_ok_def)
  have held: "held_of db' ru = held_of db ru + (if ru = run then d else 0)" for ru
    using sum_by_dict_set[OF dist(1), of "\<lambda>_ u. rv_run u = ru \<and> rv_state u = HELD" rv_amount rid v] v old
    by (auto simp: db' delta term_of_def split: option.splits)
  have by_repo: "held_by db' q = held_by db q + (if q = (run, repo) then d else 0)" for q
    using sum_by_dict_set[OF dist(1), of "\<lambda>_ u. (rv_run u, rv_repo u) = q \<and> rv_state u = HELD" rv_amount rid v] v old
    by (auto simp: db' delta term_of_def split: option.splits)
  have sp: "spent_in db' ru = spent_in db ru + (if ru = run then s else 0)" for ru
    using sum_by_dict_set[OF dist(2), of "\<lambda>k _. fst k = ru" rl_spent "(run, repo)" r'] r spent(1)
    by (simp add: db' term_of_def)
  have "rows_ok D' db'"
    unfolding rows_ok_def held by_repo sp
  proof (intro conjI allI impI)
    fix ru x assume x: "dict_get (db_budget db') ru = Some x"
    have "budget_checks x \<and> \<bar>bl_reserved x - (held_of db ru + (if ru = run then d else 0))\<bar> \<le> D' ru
        \<and> bl_spent x = spent_in db ru + (if ru = run then s else 0)"
    proof (cases "ru = run")
      case True
      with x near(2) spent(2) checks(2) rows b show ?thesis by (simp add: db' rows_ok_def)
    next
      case False
      then have "dict_get (db_budget db) ru = Some x" using x by (simp add: db')
      with rows wider[of ru] False show ?thesis unfolding rows_ok_def by fastforce
    qed
    then show "budget_checks x" "\<bar>bl_reserved x - (held_of db ru + (if ru = run then d else 0))\<bar> \<le> D' ru"
      "bl_spent x = spent_in db ru + (if ru = run then s else 0)" by blast+
  next
    fix q x assume x: "dict_get (db_repo db') q = Some x"
    have "repo_checks x \<and> \<bar>rl_reserved x - (held_by db q + (if q = (run, repo) then d else 0))\<bar> \<le> D' (fst q)"
    proof (cases "q = (run, repo)")
      case True
      with x near(1) checks(1) show ?thesis by (simp add: db')
    next
      case False
      then have "dict_get (db_repo db) q = Some x" using x by (simp add: db')
      then have "repo_checks x" "\<bar>rl_reserved x - held_by db q\<bar> \<le> D (fst q)"
        using rows unfolding rows_ok_def by blast+
      with wider[of "fst q"] False show ?thesis by simp
    qed
    then show "repo_checks x" "\<bar>rl_reserved x - (held_by db q + (if q = (run, repo) then d else 0))\<bar> \<le> D' (fst q)"
      by blast+
  qed
  moreover have "holds_ok db'"
    using holds v unfolding holds_ok_def by (auto simp: db') metis
  moreover have "keys_ok db'"
    using k by (simp add: keys_ok_def db')
  ultimately show ?thesis by (simp add: ledger_near_def)
qed

lemma budget_okD:
  assumes "ledger_near D db" and "dict_get (db_budget db) run = Some b"
  shows "budget_checks b" and "\<bar>bl_reserved b - held_of db run\<bar> \<le> D run" and "bl_spent b = spent_in db run"
  using assms by (simp_all add: ledger_near_def rows_ok_def)

lemma repo_okD:
  assumes "ledger_near D db" and "dict_get (db_repo db) k = Some r"
  shows "repo_checks r" and "\<bar>rl_reserved r - held_by db k\<bar> \<le> D (fst k)"
proof -
  have "rows_ok D db" using assms(1) by (simp add: ledger_near_def)
  with assms(2) show "repo_checks r" and "\<bar>rl_reserved r - held_by db k\<bar> \<le> D (fst k)" unfolding rows_ok_def by blast+
qed

lemma reserve_ok:
  assumes "ledger_near D db"
    and "reserve_repo_budget db run repo rid amount now expires phase fence = Inr db'"
  shows "ledger_near D db'"
proof -
  from assms(2) obtain db1 db2 where
    i: "insert_reservation db rid \<lparr>rv_run = run, rv_repo = repo, rv_phase = phase, rv_fence = fence, rv_amount = amount,
              rv_state = HELD, rv_expires = expires, rv_created = now\<rparr> = Inr (Some db1)"
    and p: "reserve_repo_sql db1 (run, repo) amount (held_expiry_repo db1 (run, repo)) now = Inr (Some db2)"
    and q: "reserve_run_sql db2 run amount (held_expiry_run db2 run) now = Inr (Some db')"
    by (auto simp: reserve_repo_budget_def rbind_Inr_iff split: if_splits)
  obtain x y where db': "db' = db\<lparr>db_res := dict_set (db_res db) rid \<lparr>rv_run = run, rv_repo = repo, rv_phase = phase,
          rv_fence = fence, rv_amount = amount, rv_state = HELD, rv_expires = expires, rv_created = now\<rparr>,
        db_repo := dict_set (db_repo db) (run, repo) x, db_budget := dict_set (db_budget db) run y\<rparr>"
    and x: "\<exists>r. dict_get (db_repo db) (run, repo) = Some r \<and> rl_reserved x = rl_reserved r + amount \<and> rl_spent x = rl_spent r \<and> repo_checks x"
    and y: "\<exists>b. dict_get (db_budget db) run = Some b \<and> bl_reserved y = bl_reserved b + amount \<and> bl_spent y = bl_spent b \<and> budget_checks y"
    and new: "dict_get (db_res db) rid = None" "0 \<le> amount"
    using i p q unfolding insert_reservation_Inr reserve_repo_sql_Inr reserve_run_sql_Inr
    by (auto simp: get_budget_def)
  then obtain r b where rb: "dict_get (db_repo db) (run, repo) = Some r" "rl_reserved x = rl_reserved r + amount" "rl_spent x = rl_spent r"
    "repo_checks x" "dict_get (db_budget db) run = Some b" "bl_reserved y = bl_reserved b + amount" "bl_spent y = bl_spent b" "budget_checks y"
    by blast
  show ?thesis
    by (rule ledger_nearI[OF assms(1) db' _ _ _ new(1) _ rb(1) rb(5), of amount D 0])
      (use rb new repo_okD(2)[OF assms(1) rb(1)] budget_okD(2)[OF assms(1) rb(5)] in \<open>simp_all add: term_of_def\<close>)
qed


lemma holds_okD:
  assumes "ledger_near D db" and "dict_get (db_res db) rid = Some v"
  shows "0 \<le> rv_amount v"
    and "rv_state v = HELD \<Longrightarrow> rv_amount v \<le> held_of db (rv_run v)"
    and "rv_state v = HELD \<Longrightarrow> rv_amount v \<le> held_by db (rv_run v, rv_repo v)"
proof -
  have mem: "(j, w) \<in> set (db_res db) \<Longrightarrow> dict_get (db_res db) j = Some w" for j w
    using assms(1) by (simp add: ledger_near_def keys_ok_def dict_get_mem)
  then have nonneg: "(j, w) \<in> set (db_res db) \<Longrightarrow> 0 \<le> rv_amount w" for j w
    using assms(1) by (auto simp: ledger_near_def holds_ok_def)
  have v: "(rid, v) \<in> set (db_res db)"
    using assms by (simp add: ledger_near_def keys_ok_def dict_get_mem)
  show "0 \<le> rv_amount v" using nonneg[OF v] .
  show "rv_amount v \<le> held_of db (rv_run v)" if "rv_state v = HELD"
    by (rule sum_by_ge_member[OF v]) (use that nonneg in auto)
  show "rv_amount v \<le> held_by db (rv_run v, rv_repo v)" if "rv_state v = HELD"
    by (rule sum_by_ge_member[OF v]) (use that nonneg in auto)
qed

lemma settle_rows:
  assumes "settle_repo_budget db run repo rid reserved actual now reval = Inr db'"
  obtains v r x b y where "dict_get (db_res db) rid = Some v" "rv_run v = run" "rv_repo v = repo" "rv_state v = HELD"
    and "dict_get (db_repo db) (run, repo) = Some r" "rl_reserved x = max (rl_reserved r - reserved) 0"
      "rl_spent x = rl_spent r + actual" "repo_checks x"
    and "dict_get (db_budget db) run = Some b" "bl_reserved y = max (bl_reserved b - reserved) 0"
      "bl_spent y = bl_spent b + actual" "budget_checks y" "bl_halted y = bl_halted b" "bl_calls y = bl_calls b"
    and "db' = db\<lparr>db_res := dict_set (db_res db) rid (v\<lparr>rv_state := SETTLED\<rparr>),
      db_repo := dict_set (db_repo db) (run, repo) x, db_budget := dict_set (db_budget db) run y\<rparr>"
proof -
  from assms obtain db1 db2 where
    i: "settle_reservation_sql db rid run repo reserved = Some db1"
    and p: "settle_repo_sql db1 (run, repo) reserved actual reval now = Inr (Some db2)"
    and q: "settle_run_sql db2 run reserved actual now = Inr (Some db')"
    by (auto simp: settle_repo_budget_def rbind_Inr_iff)
  obtain v where v: "dict_get (db_res db) rid = Some v" "rv_run v = run" "rv_repo v = repo" "rv_state v = HELD"
    and db1: "db1 = db\<lparr>db_res := dict_set (db_res db) rid (v\<lparr>rv_state := SETTLED\<rparr>)\<rparr>"
    using i unfolding settle_reservation_sql_Some by blast
  obtain r where r0: "dict_get (db_repo db1) (run, repo) = Some r"
      "repo_checks (r\<lparr>rl_reserved := max (rl_reserved r - reserved) 0, rl_spent := rl_spent r + actual,
         rl_reval := rl_reval r + (if reval then actual else 0), rl_expires := held_expiry_repo db1 (run, repo), rl_updated := now\<rparr>)"
    and d2: "db2 = db1\<lparr>db_repo := dict_set (db_repo db1) (run, repo) (r\<lparr>rl_reserved := max (rl_reserved r - reserved) 0,
         rl_spent := rl_spent r + actual, rl_reval := rl_reval r + (if reval then actual else 0),
         rl_expires := held_expiry_repo db1 (run, repo), rl_updated := now\<rparr>)\<rparr>"
    using p unfolding settle_repo_sql_Inr by blast
  define x where "x = r\<lparr>rl_reserved := max (rl_reserved r - reserved) 0, rl_spent := rl_spent r + actual,
         rl_reval := rl_reval r + (if reval then actual else 0), rl_expires := held_expiry_repo db1 (run, repo), rl_updated := now\<rparr>"
  have r: "dict_get (db_repo db) (run, repo) = Some r" "rl_reserved x = max (rl_reserved r - reserved) 0"
    "rl_spent x = rl_spent r + actual" "repo_checks x" and db2: "db2 = db1\<lparr>db_repo := dict_set (db_repo db) (run, repo) x\<rparr>"
    using r0 d2 unfolding x_def[symmetric] by (simp_all add: db1 x_def)
  obtain b where b0: "get_budget db2 run = Some b"
      "budget_checks (b\<lparr>bl_reserved := max (bl_reserved b - reserved) 0, bl_spent := bl_spent b + actual,
         bl_expires := held_expiry_run db2 run, bl_updated := now\<rparr>)"
    and d': "db' = db2\<lparr>db_budget := dict_set (db_budget db2) run (b\<lparr>bl_reserved := max (bl_reserved b - reserved) 0,
         bl_spent := bl_spent b + actual, bl_expires := held_expiry_run db2 run, bl_updated := now\<rparr>)\<rparr>"
    using q unfolding settle_run_sql_Inr by blast
  define y where "y = b\<lparr>bl_reserved := max (bl_reserved b - reserved) 0, bl_spent := bl_spent b + actual,
         bl_expires := held_expiry_run db2 run, bl_updated := now\<rparr>"
  have b: "dict_get (db_budget db) run = Some b" "bl_reserved y = max (bl_reserved b - reserved) 0"
    "bl_spent y = bl_spent b + actual" "budget_checks y" and db': "db' = db2\<lparr>db_budget := dict_set (db_budget db) run y\<rparr>"
    using b0 d' unfolding y_def[symmetric] by (simp_all add: db1 db2 get_budget_def y_def)
  have eq: "db' = db\<lparr>db_res := dict_set (db_res db) rid (v\<lparr>rv_state := SETTLED\<rparr>),
      db_repo := dict_set (db_repo db) (run, repo) x, db_budget := dict_set (db_budget db) run y\<rparr>"
    by (simp add: db' db2 db1)
  have "bl_halted y = bl_halted b" "bl_calls y = bl_calls b" by (simp_all add: y_def)
  from that[OF v r b this eq] show thesis .
qed

lemma settle_ok:
  assumes "ledger_near D db" and "settle_repo_budget db run repo rid reserved actual now reval = Inr db'"
    and "dict_get (db_res db) rid = Some u"
  shows "ledger_near (D(run := D run + \<bar>rv_amount u - reserved\<bar>)) db'"
proof (rule settle_rows[OF assms(2)])
  fix v r x b y
  assume v: "dict_get (db_res db) rid = Some v" "rv_run v = run" "rv_repo v = repo" "rv_state v = HELD"
    and r: "dict_get (db_repo db) (run, repo) = Some r" "rl_reserved x = max (rl_reserved r - reserved) 0"
      "rl_spent x = rl_spent r + actual" "repo_checks x"
    and b: "dict_get (db_budget db) run = Some b" "bl_reserved y = max (bl_reserved b - reserved) 0"
      "bl_spent y = bl_spent b + actual" "budget_checks y"
    and eq: "db' = db\<lparr>db_res := dict_set (db_res db) rid (v\<lparr>rv_state := SETTLED\<rparr>),
      db_repo := dict_set (db_repo db) (run, repo) x, db_budget := dict_set (db_budget db) run y\<rparr>"
  have u: "u = v" using assms(3) v(1) by simp
  have near: "\<bar>rl_reserved x - (held_by db (run, repo) + - rv_amount v)\<bar> \<le> D run + \<bar>rv_amount u - reserved\<bar>"
    "\<bar>bl_reserved y - (held_of db run + - rv_amount v)\<bar> \<le> D run + \<bar>rv_amount u - reserved\<bar>"
    using holds_okD(2,3)[OF assms(1) v(1,4)] repo_okD(2)[OF assms(1) r(1)] budget_okD(2)[OF assms(1) b(1)]
    unfolding u v(2,3) r(2) b(2) by (simp_all add: abs_if max_def split: if_splits)
  show ?thesis
    by (rule ledger_nearI[OF assms(1) eq _ _ _ v(1) _ r(1) b(1), of "- rv_amount v" _ actual])
      (use v near r b holds_okD(1)[OF assms(1) v(1)] in \<open>simp_all add: term_of_def\<close>)
qed

text \<open>A write of one run row.\<close>

lemma budget_row_ok:
  assumes "ledger_near D db" and "budget_checks b'" and "\<bar>bl_reserved b' - held_of db run\<bar> \<le> D run" and "bl_spent b' = spent_in db run"
  shows "ledger_near D (db\<lparr>db_budget := dict_set (db_budget db) run b'\<rparr>)"
proof -
  have "rows_ok D (db\<lparr>db_budget := dict_set (db_budget db) run b'\<rparr>)"
    using assms unfolding ledger_near_def rows_ok_def by simp
  moreover have "holds_ok (db\<lparr>db_budget := dict_set (db_budget db) run b'\<rparr>)"
    using assms(1) unfolding ledger_near_def holds_ok_def by simp
  ultimately show ?thesis
    using assms(1) by (simp add: ledger_near_def keys_ok_def)
qed

lemma unheld:
  assumes "ledger_near D db" and "(rid, v) \<in> set (db_res db)" and "rv_state v = HELD"
  shows "dict_get (db_budget db) (rv_run v) \<noteq> None \<and> dict_get (db_repo db) (rv_run v, rv_repo v) \<noteq> None"
proof -
  have "dict_get (db_res db) rid = Some v"
    using assms(1,2) by (simp add: ledger_near_def keys_ok_def dict_get_mem)
  then show ?thesis
    using assms(1,3) unfolding ledger_near_def holds_ok_def by blast
qed

lemma open_budget_ok:
  assumes "ledger_near D db" and "\<And>ru. 0 \<le> D ru" and "open_budget_ledger db run max_usd max_calls now = Inr db'"
  shows "ledger_near D db'"
proof -
  obtain b' where db': "db' = db\<lparr>db_budget := dict_set (db_budget db) run b'\<rparr>" and c: "budget_checks b'"
    and b': "case get_budget db run of None \<Rightarrow> bl_spent b' = 0 \<and> bl_reserved b' = 0
        | Some b \<Rightarrow> bl_spent b' = bl_spent b \<and> bl_reserved b' = bl_reserved b"
    using assms(3) by (auto simp: open_budget_ledger_def Let_def split: if_splits option.splits)
  have "\<bar>bl_reserved b' - held_of db run\<bar> \<le> D run \<and> bl_spent b' = spent_in db run"
  proof (cases "get_budget db run")
    case None
    then have "held_of db run = 0"
      using unheld[OF assms(1)] by (intro sum_by_zero) (fastforce simp: get_budget_def)
    moreover have "spent_in db run = 0"
      by (rule sum_by_zero)
        (use assms(1) None in \<open>auto simp: ledger_near_def holds_ok_def keys_ok_def dict_get_mem get_budget_def\<close>)
    ultimately show ?thesis using b' None assms(2)[of run] by simp
  next
    case (Some b)
    with assms(1) b' show ?thesis by (simp add: ledger_near_def rows_ok_def get_budget_def)
  qed
  then show ?thesis
    unfolding db' using budget_row_ok[OF assms(1) c] by blast
qed

lemma open_repo_ok:
  assumes "ledger_near D db" and "\<And>ru. 0 \<le> D ru" and "open_repo_ledger db run repo max_usd now reval_max = Inr db'"
  shows "ledger_near D db'"
proof -
  have k: "keys_ok db" and rows: "rows_ok D db" and holds: "holds_ok db"
    using assms(1) by (simp_all add: ledger_near_def)
  obtain r' where db': "db' = db\<lparr>db_repo := dict_set (db_repo db) (run, repo) r'\<rparr>" and c: "repo_checks r'"
    and r': "case dict_get (db_repo db) (run, repo) of None \<Rightarrow> rl_spent r' = 0 \<and> rl_reserved r' = 0
        | Some r \<Rightarrow> rl_spent r' = rl_spent r \<and> rl_reserved r' = rl_reserved r"
    using assms(3) by (auto simp: open_repo_ledger_def get_repo_budget_def Let_def split: if_splits option.splits)
  have held: "\<bar>rl_reserved r' - held_by db (run, repo)\<bar> \<le> D run"
  proof (cases "dict_get (db_repo db) (run, repo)")
    case None
    then have "held_by db (run, repo) = 0"
      using unheld[OF assms(1)] by (intro sum_by_zero) fastforce
    then show ?thesis using r' None assms(2)[of run] by simp
  next
    case (Some r)
    with rows r' show ?thesis unfolding rows_ok_def by fastforce
  qed
  have "spent_in db' ru = spent_in db ru" for ru
    using sum_by_dict_set[of "db_repo db" "\<lambda>k _. fst k = ru" rl_spent "(run, repo)" r'] k r'
    by (auto simp: keys_ok_def db' term_of_def split: option.splits)
  with rows c held have "rows_ok D db'" unfolding rows_ok_def by (auto simp: db')
  moreover have "holds_ok db'"
    using holds r' unfolding holds_ok_def by (auto simp: db' split: option.splits)
  moreover have "keys_ok db'" using k by (simp add: keys_ok_def db')
  ultimately show ?thesis by (simp add: ledger_near_def)
qed

lemma halt_ok:
  assumes "ledger_near D db" and "halt_budget_ledger db run now = Inr db'"
  shows "ledger_near D db'"
proof -
  obtain b where b: "dict_get (db_budget db) run = Some b"
    and db': "db' = db\<lparr>db_budget := dict_set (db_budget db) run (b\<lparr>bl_halted := True, bl_updated := now\<rparr>)\<rparr>"
    using assms(2) by (auto simp: halt_budget_ledger_def get_budget_def split: option.splits)
  show ?thesis
    unfolding db' by (rule budget_row_ok[OF assms(1)])
      (use budget_okD[OF assms(1) b] in \<open>simp_all add: budget_checks_def\<close>)
qed

lemma raise_ok:
  assumes "ledger_near D db" and "raise_run_ceiling db run new_max now = Inr db'"
  shows "ledger_near D db'"
proof -
  obtain b where b: "dict_get (db_budget db) run = Some b" and c: "bl_spent b + bl_reserved b \<le> new_max"
    and db': "db' = db\<lparr>db_budget := dict_set (db_budget db) run (b\<lparr>bl_max := new_max, bl_halted := False, bl_updated := now\<rparr>)\<rparr>"
    using assms(2) by (auto simp: raise_run_ceiling_def get_budget_def split: option.splits if_splits)
  show ?thesis
    unfolding db' by (rule budget_row_ok[OF assms(1)])
      (use budget_okD[OF assms(1) b] c in \<open>simp_all add: budget_checks_def\<close>)
qed


section \<open>The reaper\<close>

lemma expired_sum:
  "sum_list (map rv_amount (expired_rows db now run)) =
     sum_by (\<lambda>_ v. rv_run v = run \<and> expired_held now v) rv_amount (db_res db)"
  "sum_list (map rv_amount (filter (\<lambda>r. rv_repo r = repo) (expired_rows db now run))) =
     sum_by (\<lambda>_ v. rv_run v = run \<and> rv_repo v = repo \<and> expired_held now v) rv_amount (db_res db)"
  unfolding expired_rows_def filter_filter sum_filter by (auto intro: sum_by_cong)

lemma reap_fields:
  fixes db run now
  defines "db' \<equiv> fst (reap_expired_phase_leases db run now)"
  shows "db_res db' = map_rows (\<lambda>_ r. rv_run r = run \<and> expired_held now r) (\<lambda>_ r. r\<lparr>rv_state := EXPIRED\<rparr>) (db_res db)"
    and "map fst (db_repo db') = map fst (db_repo db)" and "map fst (db_budget db') = map fst (db_budget db)"
    and "map_option rl_spent (dict_get (db_repo db') k) = map_option rl_spent (dict_get (db_repo db) k)"
    and "dict_get (db_repo db) (ru, repo) = Some r \<Longrightarrow> \<exists>r'. dict_get (db_repo db') (ru, repo) = Some r'
      \<and> rl_spent r' = rl_spent r \<and> rl_max r' = rl_max r \<and> rl_reval r' = rl_reval r
      \<and> rl_reserved r' = (if ru = run \<and> (\<exists>v \<in> set (expired_rows db now run). rv_repo v = repo)
          then max (rl_reserved r - sum_list (map rv_amount (filter (\<lambda>r. rv_repo r = repo) (expired_rows db now run)))) 0
          else rl_reserved r)"
    and "dict_get (db_budget db) ru = Some b \<Longrightarrow> \<exists>b'. dict_get (db_budget db') ru = Some b'
      \<and> bl_spent b' = bl_spent b \<and> bl_max b' = bl_max b \<and> bl_halted b' = bl_halted b \<and> bl_calls b' = bl_calls b
      \<and> bl_max_calls b' = bl_max_calls b
      \<and> bl_reserved b' = (if ru = run \<and> expired_rows db now run \<noteq> []
          then max (bl_reserved b - sum_list (map rv_amount (expired_rows db now run))) 0 else bl_reserved b)"
  unfolding db'_def reap_expired_phase_leases_def Let_def reap_reservations_def reap_run_ledger_def
    reap_repo_ledgers_def reap_fences_def expired_rows_def
  by (auto simp: dict_get_map_rows option.map_comp comp_def split: prod.splits intro!: option.map_cong)

lemma reaped_held:
  fixes db now run
  defines "db' \<equiv> fst (reap_expired_phase_leases db run now)"
  shows "held_of db ru = held_of db' ru + (if ru = run then sum_list (map rv_amount (expired_rows db now run)) else 0)"
    and "held_by db (ru, repo) = held_by db' (ru, repo) + (if ru = run
        then sum_list (map rv_amount (filter (\<lambda>r. rv_repo r = repo) (expired_rows db now run))) else 0)"
proof -
  have H: "held_of db' ru = sum_by (\<lambda>_ v. rv_run v = ru \<and> rv_state v = HELD \<and> \<not> (rv_run v = run \<and> expired_held now v)) rv_amount (db_res db)"
    unfolding db'_def reap_fields(1) by (rule sum_by_map_rows) auto
  have B: "held_by db' (ru, repo) = sum_by (\<lambda>_ v. (rv_run v, rv_repo v) = (ru, repo) \<and> rv_state v = HELD \<and> \<not> (rv_run v = run \<and> expired_held now v)) rv_amount (db_res db)"
    unfolding db'_def reap_fields(1) by (rule sum_by_map_rows) auto
  have "held_of db ru = sum_by (\<lambda>_ v. (rv_run v = ru \<and> rv_state v = HELD) \<and> (rv_run v = run \<and> expired_held now v)) rv_amount (db_res db)
      + held_of db' ru"
    unfolding H by (subst sum_by_split[where Q = "\<lambda>_ v. rv_run v = run \<and> expired_held now v"]) (simp add: conj_assoc)
  moreover have "sum_by (\<lambda>_ v. (rv_run v = ru \<and> rv_state v = HELD) \<and> (rv_run v = run \<and> expired_held now v)) rv_amount (db_res db)
      = (if ru = run then sum_list (map rv_amount (expired_rows db now run)) else 0)"
    unfolding expired_sum by (auto intro!: sum_by_cong sum_by_zero simp: expired_held_def)
  ultimately show "held_of db ru = held_of db' ru + (if ru = run then sum_list (map rv_amount (expired_rows db now run)) else 0)"
    by simp
  have "held_by db (ru, repo) = sum_by (\<lambda>_ v. ((rv_run v, rv_repo v) = (ru, repo) \<and> rv_state v = HELD) \<and> (rv_run v = run \<and> expired_held now v)) rv_amount (db_res db)
      + held_by db' (ru, repo)"
    unfolding B by (subst sum_by_split[where Q = "\<lambda>_ v. rv_run v = run \<and> expired_held now v"]) (simp add: conj_assoc)
  moreover have "sum_by (\<lambda>_ v. ((rv_run v, rv_repo v) = (ru, repo) \<and> rv_state v = HELD) \<and> (rv_run v = run \<and> expired_held now v)) rv_amount (db_res db)
      = (if ru = run then sum_list (map rv_amount (filter (\<lambda>r. rv_repo r = repo) (expired_rows db now run))) else 0)"
    unfolding expired_sum by (auto intro!: sum_by_cong sum_by_zero simp: expired_held_def)
  ultimately show "held_by db (ru, repo) = held_by db' (ru, repo) + (if ru = run
        then sum_list (map rv_amount (filter (\<lambda>r. rv_repo r = repo) (expired_rows db now run))) else 0)"
    by simp
qed

text \<open>Reservations carry a nonnegative amount, so a reaped ledger holds less, and never less than nothing.\<close>

lemma reaped_amounts:
  fixes db run now
  assumes "ledger_near D db"
  defines "db' \<equiv> fst (reap_expired_phase_leases db run now)"
  shows "0 \<le> held_of db' ru" and "0 \<le> held_by db' k"
    and "held_of db' ru \<le> held_of db ru" and "held_by db' k \<le> held_by db k"
proof -
  have *: "0 \<le> rv_amount v" if "v \<in> snd ` set (db_res db)" for v
    using that holds_okD(1)[OF assms(1)] assms(1) by (auto simp: ledger_near_def keys_ok_def dict_get_mem)
  have "0 \<le> rv_amount v" if "(rid, v) \<in> set (db_res db')" for rid v
    using that * by (force simp: db'_def reap_fields(1) map_rows_def split: if_splits)
  then show "0 \<le> held_of db' ru" "0 \<le> held_by db' k" by (blast intro: sum_by_nonneg)+
  have e: "0 \<le> sum_list (map rv_amount (filter Q (expired_rows db now run)))" for Q
    by (rule sum_list_nonneg) (use * in \<open>auto simp: expired_rows_def\<close>)
  then show "held_of db' ru \<le> held_of db ru"
    unfolding reaped_held(1)[where db = db and run = run and now = now, folded db'_def] using e[of "\<lambda>_. True"] by simp
  obtain ro re where "k = (ro, re)" by force
  then show "held_by db' k \<le> held_by db k"
    using reaped_held(2)[where db = db and run = run and now = now, folded db'_def, of ro re] e by (simp split: if_splits)
qed

lemma reaped_spent: "spent_in (fst (reap_expired_phase_leases db run now)) ru = spent_in db ru"
proof -
  have "map (\<lambda>(k, v). if fst k = ru then rl_spent v else 0) (db_repo (fst (reap_expired_phase_leases db run now)))
      = map (\<lambda>(k, v). if fst k = ru then rl_spent v else 0) (db_repo db)"
    unfolding reap_expired_phase_leases_def Let_def reap_reservations_def reap_run_ledger_def
      reap_repo_ledgers_def reap_fences_def by (auto simp: map_rows_def)
  then show ?thesis by (simp add: sum_by_def)
qed

lemma reaped_rows:
  assumes "ledger_near D db"
  shows "rows_ok D (fst (reap_expired_phase_leases db run now))"
proof -
  define db' where "db' = fst (reap_expired_phase_leases db run now)"
  note F = reap_fields[where db = db and run = run and now = now, folded db'_def]
  note H = reaped_held[where db = db and run = run and now = now, folded db'_def]
  note A = reaped_amounts[OF assms, where run = run and now = now, folded db'_def]
  have "budget_checks b' \<and> \<bar>bl_reserved b' - held_of db' ru\<bar> \<le> D ru \<and> bl_spent b' = spent_in db' ru"
    if s: "dict_get (db_budget db') ru = Some b'" for ru b'
  proof -
    obtain b where b: "dict_get (db_budget db) ru = Some b"
      using s F(3) by (cases "dict_get (db_budget db) ru") (metis dict_get_None_iff list.set_map option.simps(3), blast)
    note ok = budget_okD[OF assms b]
    from F(6)[OF b] s have *: "bl_spent b' = bl_spent b" "bl_max b' = bl_max b" "bl_calls b' = bl_calls b"
      "bl_reserved b' = (if ru = run \<and> expired_rows db now run \<noteq> []
          then max (bl_reserved b - sum_list (map rv_amount (expired_rows db now run))) 0 else bl_reserved b)"
      by auto
    have r: "\<bar>bl_reserved b' - held_of db' ru\<bar> \<le> D ru" "bl_reserved b' \<le> bl_reserved b" "0 \<le> bl_reserved b'"
      using *(4) H(1)[of ru] ok(1,2) A(1,3)[of ru] by (auto simp: budget_checks_def max_def abs_if split: if_splits)
    show ?thesis
      using *(1-3) r ok A(1,3)[of ru] reaped_spent[where db = db and run = run and now = now and ru = ru, folded db'_def] by (simp add: budget_checks_def)
  qed
  moreover have "repo_checks r' \<and> \<bar>rl_reserved r' - held_by db' k\<bar> \<le> D (fst k)" if s: "dict_get (db_repo db') k = Some r'" for k r'
  proof -
    obtain ru repo where k: "k = (ru, repo)" by force
    obtain r where r: "dict_get (db_repo db) (ru, repo) = Some r"
      using s F(4)[of k] k by (cases "dict_get (db_repo db) (ru, repo)") auto
    note ok = repo_okD[OF assms r]
    from F(5)[OF r] s k have *: "rl_spent r' = rl_spent r" "rl_max r' = rl_max r" "rl_reval r' = rl_reval r"
      "rl_reserved r' = (if ru = run \<and> (\<exists>v \<in> set (expired_rows db now run). rv_repo v = repo)
          then max (rl_reserved r - sum_list (map rv_amount (filter (\<lambda>r. rv_repo r = repo) (expired_rows db now run)))) 0
          else rl_reserved r)"
      by auto
    have empty: "filter (\<lambda>r. rv_repo r = repo) (expired_rows db now run) = []"
      if "\<not> (\<exists>v \<in> set (expired_rows db now run). rv_repo v = repo)"
      using that by (simp add: filter_empty_conv)
    have e: "\<bar>rl_reserved r' - held_by db' (ru, repo)\<bar> \<le> D ru" "rl_reserved r' \<le> rl_reserved r" "0 \<le> rl_reserved r'"
      using *(4) H(2)[of ru repo] ok(1,2) A(2,4)[of "(ru, repo)"] empty
      by (auto simp: repo_checks_def max_def abs_if split: if_splits)
    show ?thesis
      using *(1-3) e ok A(2,4)[of "(ru, repo)"] k by (simp add: repo_checks_def)
  qed
  ultimately show ?thesis unfolding rows_ok_def db'_def[symmetric] by blast
qed

lemma reap_ok:
  assumes "ledger_near D db"
  shows "ledger_near D (fst (reap_expired_phase_leases db run now))"
proof -
  define db' where "db' = fst (reap_expired_phase_leases db run now)"
  note F = reap_fields[where db = db and run = run and now = now, folded db'_def]
  have none: "dict_get (db_repo db') k = None \<longleftrightarrow> dict_get (db_repo db) k = None"
    "dict_get (db_budget db') ru = None \<longleftrightarrow> dict_get (db_budget db) ru = None" for k ru
    using F(2,3) by (metis dict_get_None_iff list.set_map)+
  have holds: "holds_ok db" using assms by (simp add: ledger_near_def)
  have "holds_ok db'"
    unfolding holds_ok_def
  proof (intro conjI allI impI)
    fix rid v
    assume "dict_get (db_res db') rid = Some v"
    then obtain u where u: "dict_get (db_res db) rid = Some u" "rv_amount v = rv_amount u" "rv_run v = rv_run u"
      "rv_repo v = rv_repo u" "rv_state v = HELD \<Longrightarrow> rv_state u = HELD"
      by (auto simp: F(1) dict_get_map_rows split: if_splits)
    then show "0 \<le> rv_amount v" using holds_okD(1)[OF assms u(1)] by simp
    assume "rv_state v = HELD"
    then show "dict_get (db_repo db') (rv_run v, rv_repo v) \<noteq> None" "dict_get (db_budget db') (rv_run v) \<noteq> None"
      using holds u unfolding none holds_ok_def by auto
  next
    fix ru repo r
    assume a: "dict_get (db_repo db') (ru, repo) = Some r" "dict_get (db_budget db') ru = None"
    then obtain r0 where "dict_get (db_repo db) (ru, repo) = Some r0" "rl_spent r = rl_spent r0"
      using F(4)[of "(ru, repo)"] by (cases "dict_get (db_repo db) (ru, repo)") auto
    with a(2) holds show "rl_spent r = 0" unfolding none holds_ok_def by auto
  qed
  moreover have "keys_ok db'"
    using assms F(2,3) by (simp add: ledger_near_def keys_ok_def F(1))
  ultimately show ?thesis
    using reaped_rows[OF assms, of run now, folded db'_def] by (simp add: ledger_near_def db'_def[symmetric])
qed


section \<open>Histories of writes\<close>

text \<open>
  The write units the orchestrator and the operator issue: a refused unit is rolled back, so a history is a replay.
  \<open>reserve_budget\<close> and \<open>settle_budget\<close>, which move the run ledger alone and mint no reservation row, are not among
  them: no code of the program calls them, and \<open>CostLedger\<close> reserves and settles through the pair of ledgers only.
\<close>

datatype ledger_op =
    OpenRun string rat "int option" instant
  | OpenRepo string repo_id rat instant rat
  | Reserve string repo_id string rat instant "instant option" "phase option" "int option"
  | Settle string repo_id string rat rat instant bool
  | Halt string instant
  | Reap string instant
  | RaiseRun string rat instant

fun ledger_write :: "ledger_db \<Rightarrow> ledger_op \<Rightarrow> ledger_error + ledger_db" where
  "ledger_write db (OpenRun run max_usd max_calls now) = open_budget_ledger db run max_usd max_calls now"
| "ledger_write db (OpenRepo run repo max_usd now reval_max) = open_repo_ledger db run repo max_usd now reval_max"
| "ledger_write db (Reserve run repo rid amount now expires phase fence) =
     reserve_repo_budget db run repo rid amount now expires phase fence"
| "ledger_write db (Settle run repo rid reserved actual now reval) =
     settle_repo_budget db run repo rid reserved actual now reval"
| "ledger_write db (Halt run now) = halt_budget_ledger db run now"
| "ledger_write db (Reap run now) = Inr (fst (reap_expired_phase_leases db run now))"
| "ledger_write db (RaiseRun run new_max now) = raise_run_ceiling db run new_max now"

text \<open>The operator's write, which alone clears a halt.\<close>

definition raises :: "string \<Rightarrow> ledger_op \<Rightarrow> bool" where
  "raises run w = (case w of RaiseRun ru _ _ \<Rightarrow> ru = run | _ \<Rightarrow> False)"

text \<open>What a write does to one reservation.\<close>

lemma reserve_shape:
  assumes "reserve_repo_budget db run repo rid amount now expires phase fence = Inr db'"
  shows "dict_get (db_res db) rid = None"
    and "db_res db' = dict_set (db_res db) rid \<lparr>rv_run = run, rv_repo = repo, rv_phase = phase, rv_fence = fence,
       rv_amount = amount, rv_state = HELD, rv_expires = expires, rv_created = now\<rparr>"
    and "\<exists>b. get_budget db run = Some b \<and> \<not> bl_halted b"
    and "map_option (\<lambda>b. (bl_spent b, bl_halted b)) (get_budget db' ru) = map_option (\<lambda>b. (bl_spent b, bl_halted b)) (get_budget db ru)"
  using assms
  by (auto simp: reserve_repo_budget_def rbind_Inr_iff insert_reservation_Inr reserve_repo_sql_Inr
      reserve_run_sql_Inr get_budget_def split: if_splits)

lemma settle_effect:
  assumes "settle_repo_budget db run repo rid reserved actual now reval = Inr db'"
  obtains v b where "dict_get (db_res db) rid = Some v" "rv_state v = HELD" "get_budget db run = Some b"
    and "db_res db' = dict_set (db_res db) rid (v\<lparr>rv_state := SETTLED\<rparr>)"
    and "\<And>ru. map_option (\<lambda>b. (bl_spent b, bl_halted b)) (get_budget db' ru) =
      (if ru = run then Some (bl_spent b + actual, bl_halted b)
       else map_option (\<lambda>b. (bl_spent b, bl_halted b)) (get_budget db ru))"
proof (rule settle_rows[OF assms])
  fix v r x b y
  assume "dict_get (db_res db) rid = Some v" "rv_state v = HELD" "dict_get (db_budget db) run = Some b"
    "bl_spent y = bl_spent b + actual" "bl_halted y = bl_halted b"
    "db' = db\<lparr>db_res := dict_set (db_res db) rid (v\<lparr>rv_state := SETTLED\<rparr>),
      db_repo := dict_set (db_repo db) (run, repo) x, db_budget := dict_set (db_budget db) run y\<rparr>"
  then show thesis by (intro that[of v b]) (simp_all add: get_budget_def)
qed

lemma other_res:
  "open_budget_ledger db run max_usd max_calls now = Inr db' \<Longrightarrow> db_res db' = db_res db"
  "open_repo_ledger db run repo max_usd now reval_max = Inr db' \<Longrightarrow> db_res db' = db_res db \<and> db_budget db' = db_budget db"
  "halt_budget_ledger db run now = Inr db' \<Longrightarrow> db_res db' = db_res db"
  "raise_run_ceiling db run new_max now = Inr db' \<Longrightarrow> db_res db' = db_res db"
  by (auto simp: open_budget_ledger_def open_repo_ledger_def halt_budget_ledger_def raise_run_ceiling_def Let_def split: if_splits option.splits)

text \<open>
  By how much a write misquotes: the difference between the amount a settlement releases and the amount of its
  reservation. A caller that passes \<open>reservation.estimate.usd\<close> back, as \<open>CostLedger.settle\<close> does, misquotes nothing.
\<close>

definition misquote :: "string \<Rightarrow> ledger_db \<Rightarrow> ledger_op \<Rightarrow> rat" where
  "misquote run db w = (case w of
       Settle ru repo rid reserved actual now reval \<Rightarrow>
         if ru = run then (case dict_get (db_res db) rid of None \<Rightarrow> 0 | Some v \<Rightarrow> \<bar>rv_amount v - reserved\<bar>) else 0
     | _ \<Rightarrow> 0)"

definition settles :: "string \<Rightarrow> ledger_op \<Rightarrow> nat" where
  "settles run w = (case w of Settle ru repo rid reserved actual now reval \<Rightarrow> if ru = run then 1 else 0 | _ \<Rightarrow> 0)"

fun misquoted :: "string \<Rightarrow> ledger_db \<Rightarrow> ledger_op list \<Rightarrow> rat" where
  "misquoted run db [] = 0"
| "misquoted run db (w # ws) =
     (case ledger_write db w of Inl _ \<Rightarrow> misquoted run db ws | Inr db' \<Rightarrow> misquote run db w + misquoted run db' ws)"

fun settlements :: "string \<Rightarrow> ledger_db \<Rightarrow> ledger_op list \<Rightarrow> nat" where
  "settlements run db [] = 0"
| "settlements run db (w # ws) =
     (case ledger_write db w of Inl _ \<Rightarrow> settlements run db ws | Inr db' \<Rightarrow> settles run w + settlements run db' ws)"

lemma misquote_bounds:
  assumes "ledger_write db w = Inr db'"
  shows "0 \<le> misquote run db w" and "misquote run db w \<le> USD_EPSILON * of_nat (settles run w)"
proof -
  show "0 \<le> misquote run db w" by (auto simp: misquote_def split: ledger_op.splits option.splits)
  show "misquote run db w \<le> USD_EPSILON * of_nat (settles run w)"
  proof (cases w)
    case (Settle ru repo rid reserved actual now reval)
    then obtain db1 where "settle_reservation_sql db rid ru repo reserved = Some db1"
      using assms by (auto simp: settle_repo_budget_def rbind_Inr_iff)
    then show ?thesis
      using Settle by (auto simp: settle_reservation_sql_Some misquote_def settles_def)
  qed (simp_all add: misquote_def settles_def)
qed

lemma misquoted_bounds:
  "0 \<le> misquoted run db ws \<and> misquoted run db ws \<le> USD_EPSILON * of_nat (settlements run db ws)"
proof (induction ws arbitrary: db)
  case (Cons w ws)
  show ?case
  proof (cases "ledger_write db w")
    case (Inr db')
    have "0 \<le> misquoted run db' ws" "misquoted run db' ws \<le> USD_EPSILON * of_nat (settlements run db' ws)"
      using Cons.IH[of db'] by blast+
    with misquote_bounds[OF Inr, of run] show ?thesis
      unfolding misquoted.simps settlements.simps Inr sum.case of_nat_add distrib_left by linarith
  qed (use Cons.IH[of db] in simp)
qed simp

lemma unsettled_exact: "list_all (\<lambda>w. settles run w = 0) ws \<Longrightarrow> misquoted run db ws = 0"
proof -
  assume "list_all (\<lambda>w. settles run w = 0) ws"
  then have "settlements run db ws = 0" by (induction ws arbitrary: db) (auto split: sum.split)
  with misquoted_bounds[of run db ws] show ?thesis by simp
qed

lemma write_near:
  assumes "ledger_near D db" and "\<And>ru. 0 \<le> D ru" and "ledger_write db w = Inr db'"
  shows "ledger_near (\<lambda>ru. D ru + misquote ru db w) db'"
proof (cases w)
  case (Settle run repo rid a act now rv)
  with assms(3) have s: "settle_repo_budget db run repo rid a act now rv = Inr db'" by simp
  from s obtain v where v: "dict_get (db_res db) rid = Some v" by (rule settle_effect)
  have "(\<lambda>ru. D ru + misquote ru db w) = D(run := D run + \<bar>rv_amount v - a\<bar>)"
    using v Settle by (auto simp: misquote_def)
  with settle_ok[OF assms(1) s v] show ?thesis by simp
qed (use assms open_budget_ok[OF assms(1,2)] open_repo_ok[OF assms(1,2)] reserve_ok[OF assms(1)] halt_ok[OF assms(1)]
      reap_ok[OF assms(1)] raise_ok[OF assms(1)] in \<open>auto simp: misquote_def\<close>)

lemma replay_near:
  assumes "ledger_near D db" and "\<And>ru. 0 \<le> D ru"
  shows "ledger_near (\<lambda>ru. D ru + misquoted ru db ws) (replay ledger_write db ws)"
  using assms
proof (induction ws arbitrary: db D)
  case (Cons w ws)
  show ?case
  proof (cases "ledger_write db w")
    case (Inr db')
    have "0 \<le> D ru + misquote ru db w" for ru
      using Cons.prems(2)[of ru] misquote_bounds(1)[OF Inr, of ru] by simp
    from Cons.IH[OF write_near[OF Cons.prems Inr] this] show ?thesis by (simp add: Inr add.assoc)
  qed (use Cons.IH[OF Cons.prems] in simp)
qed simp

lemma empty_replay_near: "empty_ledger db \<Longrightarrow> ledger_near (\<lambda>ru. misquoted ru db ws) (replay ledger_write db ws)"
  using replay_near[OF empty_ledger_ok, of db ws] by simp

text \<open>The money a history charged to a run: the actual cost of its accepted settlements.\<close>

definition charge :: "string \<Rightarrow> ledger_op \<Rightarrow> rat" where
  "charge run w = (case w of Settle ru repo rid reserved actual now reval \<Rightarrow> if ru = run then actual else 0 | _ \<Rightarrow> 0)"

fun charged :: "string \<Rightarrow> ledger_db \<Rightarrow> ledger_op list \<Rightarrow> rat" where
  "charged run db [] = 0"
| "charged run db (w # ws) =
     (case ledger_write db w of Inl _ \<Rightarrow> charged run db ws | Inr db' \<Rightarrow> charge run w + charged run db' ws)"

definition spent_of :: "ledger_db \<Rightarrow> string \<Rightarrow> rat" where
  "spent_of db run = (case get_budget db run of None \<Rightarrow> 0 | Some b \<Rightarrow> bl_spent b)"

definition halted_run :: "string \<Rightarrow> ledger_db \<Rightarrow> bool" where
  "halted_run run db \<longleftrightarrow> (case get_budget db run of None \<Rightarrow> False | Some b \<Rightarrow> bl_halted b)"

definition finished_hold :: "string \<Rightarrow> ledger_db \<Rightarrow> bool" where
  "finished_hold rid db \<longleftrightarrow> (case dict_get (db_res db) rid of None \<Rightarrow> False | Some v \<Rightarrow> rv_state v \<noteq> HELD)"

lemma reap_budget:
  "map_option (\<lambda>b. (bl_spent b, bl_halted b)) (get_budget (fst (reap_expired_phase_leases db run now)) ru)
   = map_option (\<lambda>b. (bl_spent b, bl_halted b)) (get_budget db ru)"
proof (cases "get_budget db ru")
  case None
  then show ?thesis
    using reap_fields(3)[of db run now] by (simp add: get_budget_def) (metis dict_get_None_iff list.set_map)
next
  case (Some b)
  then show ?thesis using reap_fields(6)[of db ru b run now] by (auto simp: get_budget_def)
qed

lemma write_budget:
  assumes "ledger_write db w = Inr db'"
  shows "spent_of db' run = spent_of db run + charge run w" and "\<not> raises run w \<Longrightarrow> halted_run run db \<Longrightarrow> halted_run run db'"
proof -
  have *: "spent_of db' run = spent_of db run + charge run w \<and> (\<not> raises run w \<longrightarrow> halted_run run db \<longrightarrow> halted_run run db')"
  proof (cases w)
    case (OpenRun ru m c now)
    with assms show ?thesis
      by (auto simp: charge_def spent_of_def halted_run_def open_budget_ledger_def get_budget_def Let_def
          split: if_splits option.splits)
  next
    case (OpenRepo ru repo m now rm)
    with assms other_res(2)[of db ru repo m now rm db'] show ?thesis
      by (simp add: charge_def spent_of_def halted_run_def get_budget_def)
  next
    case (Reserve ru repo rid a now e p fe)
    with assms have "map_option (\<lambda>b. (bl_spent b, bl_halted b)) (get_budget db' run) = map_option (\<lambda>b. (bl_spent b, bl_halted b)) (get_budget db run)"
      by (simp add: reserve_shape(4))
    with Reserve show ?thesis
      by (auto simp: charge_def spent_of_def halted_run_def split: option.splits)
  next
    case (Settle ru repo rid a act now rv)
    with assms have s: "settle_repo_budget db ru repo rid a act now rv = Inr db'" by simp
    then obtain b where "get_budget db ru = Some b"
      and "map_option (\<lambda>b. (bl_spent b, bl_halted b)) (get_budget db' run) = (if run = ru then Some (bl_spent b + act, bl_halted b)
        else map_option (\<lambda>b. (bl_spent b, bl_halted b)) (get_budget db run))"
      by (rule settle_effect) blast
    with Settle show ?thesis
      by (auto simp: charge_def spent_of_def halted_run_def split: option.splits if_splits)
  next
    case (Halt ru now)
    with assms show ?thesis
      by (auto simp: charge_def spent_of_def halted_run_def halt_budget_ledger_def get_budget_def split: option.splits)
  next
    case (Reap ru now)
    with assms reap_budget[of db ru now run] show ?thesis
      by (auto simp: charge_def spent_of_def halted_run_def split: option.splits)
  next
    case (RaiseRun ru m now)
    with assms show ?thesis
      by (auto simp: charge_def raises_def spent_of_def halted_run_def raise_run_ceiling_def get_budget_def
          split: option.splits if_splits)
  qed
  then show "spent_of db' run = spent_of db run + charge run w" and "\<not> raises run w \<Longrightarrow> halted_run run db \<Longrightarrow> halted_run run db'" by blast+
qed

lemma write_finished:
  assumes "finished_hold rid db" and "ledger_write db w = Inr db'"
  shows "finished_hold rid db'"
proof (cases w)
  case (OpenRun ru m c now)
  with assms other_res(1)[of db ru m c now db'] show ?thesis by (simp add: finished_hold_def)
next
  case (OpenRepo ru repo m now rm)
  with assms other_res(2)[of db ru repo m now rm db'] show ?thesis by (simp add: finished_hold_def)
next
  case (Reserve ru repo r a now e p fe)
  with assms reserve_shape(1,2)[of db ru repo r a now e p fe db'] show ?thesis
    by (auto simp: finished_hold_def split: option.splits)
next
  case (Settle ru repo r a act now rv)
  with assms(2) have "settle_repo_budget db ru repo r a act now rv = Inr db'" by simp
  then show ?thesis
    by (rule settle_effect) (use assms(1) in \<open>auto simp: finished_hold_def split: option.splits\<close>)
next
  case (Halt ru now)
  with assms other_res(3)[of db ru now db'] show ?thesis by (simp add: finished_hold_def)
next
  case (Reap ru now)
  with assms show ?thesis
    by (auto simp: finished_hold_def reap_fields(1) dict_get_map_rows expired_held_def split: option.splits)
next
  case (RaiseRun ru m now)
  with assms other_res(4)[of db ru m now db'] show ?thesis by (simp add: finished_hold_def)
qed

interpretation halt: write_gate ledger_write "\<lambda>w. \<not> raises run w" "\<lambda>_. False" "halted_run run" for run
  by unfold_locales (auto intro: write_budget)

interpretation hold: write_gate ledger_write "\<lambda>_. True" "\<lambda>_. False" "finished_hold rid" for rid
  by unfold_locales (auto intro: write_finished)

lemma spent_history: "spent_of (replay ledger_write db ws) run = spent_of db run + charged run db ws"
  by (induction ws arbitrary: db) (auto simp: write_budget(1) split: sum.split)


section \<open>Properties\<close>

text \<open>
  C3: Whatever sequence of ledger writes runs against a fresh database, refused ones included, every run and repository
  ledger stays within its ceiling, and the spend of a run is exactly both the spend of its repositories and the
  cost of the settlements the history accepted. Its held money is the sum of its reservations in state \<open>HELD\<close> up to what
  those settlements misquoted, which is nothing when each passes the amount of its reservation back and at most the
  tolerance of the store for each of them otherwise. The writes are those of \<open>ledger_op\<close>: opening, reserving, settling,
  halting, reaping and raising the ceiling.
\<close>

theorem ledgers_explained_by_reservations:
  assumes "empty_ledger db"
  shows "(\<forall>b. get_budget (replay ledger_write db ws) run = Some b \<longrightarrow>
            bl_spent b + bl_reserved b \<le> bl_max b
            \<and> \<bar>bl_reserved b - held_of (replay ledger_write db ws) run\<bar> \<le> misquoted run db ws
            \<and> bl_spent b = spent_in (replay ledger_write db ws) run
            \<and> bl_spent b = charged run db ws)
       \<and> (\<forall>r. get_repo_budget (replay ledger_write db ws) run repo = Some r \<longrightarrow>
            rl_spent r + rl_reserved r \<le> rl_max r
            \<and> \<bar>rl_reserved r - held_by (replay ledger_write db ws) (run, repo)\<bar> \<le> misquoted run db ws)
       \<and> misquoted run db ws \<le> USD_EPSILON * of_nat (settlements run db ws)"
proof -
  note ok = empty_replay_near[OF assms]
  have "spent_of db run = 0"
    using assms(1) by (simp add: spent_of_def get_budget_def empty_ledger_def)
  then have "spent_of (replay ledger_write db ws) run = charged run db ws" by (simp add: spent_history)
  with budget_okD[OF ok] repo_okD[OF ok] misquoted_bounds[of run db ws] show ?thesis
    by (auto simp: get_budget_def get_repo_budget_def budget_checks_def repo_checks_def spent_of_def)
qed

text \<open>
  A halt lasts. After \<open>halt_budget_ledger\<close> no history of further writes, a reopened ledger with a higher ceiling
  included, makes a reservation of that run succeed again, until the operator raises the ceiling of the run.
\<close>

theorem halt_is_final:
  assumes "halt_budget_ledger db run t = Inr db1" and "\<forall>w \<in> set ws. \<not> raises run w"
  shows "\<exists>e. reserve_repo_budget (replay ledger_write db1 ws) run repo rid amount now expires phase fence = Inl e"
proof -
  have "halted_run run db1"
    using assms by (auto simp: halt_budget_ledger_def halted_run_def get_budget_def split: option.splits)
  then have "halted_run run (replay ledger_write db1 ws)" using assms(2) by (intro halt.replay_invar) auto
  then have "reserve_repo_budget (replay ledger_write db1 ws) run repo rid amount now expires phase fence \<noteq> Inr db'" for db'
    using reserve_shape(3) by (fastforce simp: halted_run_def)
  then show ?thesis by (cases "reserve_repo_budget (replay ledger_write db1 ws) run repo rid amount now expires phase fence") auto
qed

text \<open>
  A hold ends once. After it was settled, or reaped because it had expired, every later attempt to settle
  it is refused and its id is never granted again, whatever was written in between: a late worker
  cannot charge money it no longer holds.
\<close>

theorem hold_ends_once:
  assumes "(\<exists>ru re a act t rv. settle_repo_budget db ru re rid a act t rv = Inr db1)
      \<or> (\<exists>v t. dict_get (db_res db) rid = Some v \<and> expired_held t v \<and> db1 = fst (reap_expired_phase_leases db (rv_run v) t))"
  shows "settle_repo_budget (replay ledger_write db1 ws) run repo rid reserved actual now reval = Inl ReservationRefused
       \<and> (\<exists>e. reserve_repo_budget (replay ledger_write db1 ws) run repo rid amount now expires phase fence = Inl e)"
proof -
  have "finished_hold rid db1"
    using assms by (auto elim!: settle_effect simp: finished_hold_def reap_fields(1) dict_get_map_rows)
  then have f: "finished_hold rid (replay ledger_write db1 ws)" by (intro hold.replay_invar) auto
  then have "settle_repo_budget (replay ledger_write db1 ws) run repo rid reserved actual now reval = Inl ReservationRefused"
    by (auto simp: finished_hold_def settle_repo_budget_def settle_reservation_sql_def or_refuse_def rbind_def split: option.splits)
  moreover have "reserve_repo_budget (replay ledger_write db1 ws) run repo rid amount now expires phase fence \<noteq> Inr db'" for db'
    using f reserve_shape(1) by (fastforce simp: finished_hold_def)
  then have "\<exists>e. reserve_repo_budget (replay ledger_write db1 ws) run repo rid amount now expires phase fence = Inl e"
    by (cases "reserve_repo_budget (replay ledger_write db1 ws) run repo rid amount now expires phase fence") auto
  ultimately show ?thesis by blast
qed

text \<open>
  The reaper gives back exactly the money of the expired holds. On consistent ledgers the run's held money
  falls by their sum, its spend and every other run's rows are untouched, the expired holds are marked and every
  live hold keeps its row.
\<close>

theorem reaper_releases_expired_holds:
  assumes "ledger_ok db" and "get_budget db run = Some b"
  shows "let db' = fst (reap_expired_phase_leases db run now) in
     (\<exists>b'. get_budget db' run = Some b' \<and> bl_spent b' = bl_spent b
        \<and> bl_reserved b' = bl_reserved b - sum_list (map rv_amount (expired_rows db now run)))
     \<and> dict_get (db_res db') rid = map_option (\<lambda>v. if rv_run v = run \<and> expired_held now v then v\<lparr>rv_state := EXPIRED\<rparr> else v)
         (dict_get (db_res db) rid)
     \<and> (ru \<noteq> run \<longrightarrow> get_budget db' ru = get_budget db ru)"
proof -
  define db' where "db' = fst (reap_expired_phase_leases db run now)"
  have ok': "ledger_ok db'" unfolding db'_def by (rule reap_ok[OF assms(1)])
  obtain b' where b': "get_budget db' run = Some b'" "bl_spent b' = bl_spent b"
    using reap_budget[of db run now run, folded db'_def] assms(2) by auto
  have "bl_reserved b' = bl_reserved b - sum_list (map rv_amount (expired_rows db now run))"
    using budget_okD(2)[OF ok', of run b'] budget_okD(2)[OF assms(1), of run b] b' assms(2)
      reaped_held(1)[where db = db and run = run and now = now and ru = run, folded db'_def]
    by (simp add: get_budget_def)
  moreover have "ru \<noteq> run \<Longrightarrow> get_budget db' ru = get_budget db ru"
    unfolding db'_def get_budget_def reap_expired_phase_leases_def Let_def reap_reservations_def reap_run_ledger_def
      reap_repo_ledgers_def reap_fences_def
    by (simp add: dict_get_map_rows option.map_ident)
  ultimately show ?thesis
    using b' by (simp add: Let_def db'_def[symmetric] reap_fields(1)[of db run now, folded db'_def] dict_get_map_rows)
qed


text \<open>
  A reservation is granted exactly when the owner is given whole or not at all, the amount is not negative, the
  id is new, the run, the repository and the owning phase exist, the run is not halted, one more call and the
  amount fit the run ledger, and the amount fits the repository ledger.
\<close>

theorem reservation_granted_iff:
  assumes "ledger_ok db"
  shows "(\<exists>db'. reserve_repo_budget db run repo rid amount now expires phase fence = Inr db') \<longleftrightarrow>
     (phase = None) = (fence = None) \<and> 0 \<le> amount \<and> dict_get (db_res db) rid = None
     \<and> run \<in> set (db_runs db) \<and> repo \<in> set (db_repos db)
     \<and> (case phase of None \<Rightarrow> True | Some p \<Rightarrow> dict_get (db_phases db) (run, repo, p) \<noteq> None)
     \<and> (\<exists>r b. get_repo_budget db run repo = Some r \<and> get_budget db run = Some b
          \<and> rl_spent r + rl_reserved r + amount \<le> rl_max r
          \<and> \<not> bl_halted b \<and> bl_spent b + bl_reserved b + amount \<le> bl_max b \<and> call_fits b)"
    (is "_ \<longleftrightarrow> ?granted")
proof
  assume "\<exists>db'. reserve_repo_budget db run repo rid amount now expires phase fence = Inr db'"
  then show ?granted
    by (auto simp: reserve_repo_budget_def rbind_Inr_iff insert_reservation_Inr reserve_repo_sql_Inr
        reserve_run_sql_Inr get_budget_def get_repo_budget_def split: if_splits)
next
  assume g: ?granted
  then obtain r b where r: "dict_get (db_repo db) (run, repo) = Some r" and b: "dict_get (db_budget db) run = Some b"
    and fit: "rl_spent r + rl_reserved r + amount \<le> rl_max r" "\<not> bl_halted b"
      "bl_spent b + bl_reserved b + amount \<le> bl_max b" "call_fits b"
    by (auto simp: get_budget_def get_repo_budget_def)
  have "repo_checks (r\<lparr>rl_reserved := rl_reserved r + amount, rl_expires := x, rl_updated := now\<rparr>)" for x
    using repo_okD(1)[OF assms r] fit(1) g by (simp add: repo_checks_def)
  moreover have "budget_checks (b\<lparr>bl_reserved := bl_reserved b + amount, bl_expires := x, bl_calls := bl_calls b + 1, bl_updated := now\<rparr>)" for x
    using budget_okD(1)[OF assms b] fit(3) g by (simp add: budget_checks_def)
  ultimately show "\<exists>db'. reserve_repo_budget db run repo rid amount now expires phase fence = Inr db'"
    using g r b fit
    by (auto simp: reserve_repo_budget_def rbind_Inr_iff insert_reservation_Inr reserve_repo_sql_Inr
        reserve_run_sql_Inr get_budget_def split: option.splits)
qed

text \<open>
  C37: An expired hold takes the fence of its phase with it whoever owns the phase now: the reaper does not compare the
  fence the hold was taken under, so a worker with an unexpired lease keeps its row as \<open>RUNNING\<close> under its
  own name and is fenced out of it.
\<close>

theorem stale_hold_fences_live_owner:
  assumes "dict_get (db_phases db) (run, repo, p) = Some l" and "\<not> lease_expired now l"
    and "dict_get (db_res db) rid = Some v" and "rv_run v = run" and "rv_repo v = repo" and "rv_phase v = Some p"
    and "expired_held now v"
  shows "\<exists>l'. dict_get (db_phases (fst (reap_expired_phase_leases db run now))) (run, repo, p) = Some l'
     \<and> pl_status l' = pl_status l \<and> pl_owner l' = pl_owner l \<and> pl_expires l' = pl_expires l
     \<and> pl_fence l' = pl_fence l + 1"
proof -
  have "v \<in> snd ` set (db_res db)"
    using assms(3) by (force simp: dict_get_def dest: map_of_SomeD)
  then have "\<exists>r \<in> set (expired_rows db now run). rv_repo r = repo \<and> rv_phase r = Some p"
    using assms(4-7) by (auto simp: expired_rows_def)
  then show ?thesis
    using assms(1,2) unfolding reap_expired_phase_leases_def Let_def reap_reservations_def reap_run_ledger_def
      reap_repo_ledgers_def reap_fences_def
    by (simp add: dict_get_map_rows expired_rows_def)
qed

section \<open>Witnesses\<close>

definition demo_store :: ledger_db where
  "demo_store = \<lparr>db_runs = [''r''], db_repos = [''a''],
     db_phases = [((''r'', ''a'', SCAN), \<lparr>pl_status = RUNNING, pl_owner = Some ''w2'', pl_fence = 2,
        pl_heartbeat = None, pl_expires = Some 50, pl_updated = 0\<rparr>)],
     db_budget = [], db_repo = [], db_res = []\<rparr>"

definition demo_history :: "ledger_op list" where
  "demo_history = [OpenRun ''r'' 10 None 0, OpenRepo ''r'' ''a'' 6 0 2,
     Reserve ''r'' ''a'' ''h1'' 4 1 (Some 9) (Some SCAN) (Some 1), Reserve ''r'' ''a'' ''h2'' 3 1 None None None,
     Settle ''r'' ''a'' ''h1'' 4 1 2 False, Reserve ''r'' ''a'' ''h3'' 3 3 (Some 9) (Some SCAN) (Some 1)]"

lemma demo_empty: "empty_ledger demo_store"
  by (simp add: empty_ledger_def demo_store_def)

lemma demo_exact: "misquoted ru demo_store demo_history = 0"
proof -
  have m: "misquoted ''r'' demo_store demo_history = 0" by code_simp
  have "misquoted ru demo_store demo_history = 0" if "ru \<noteq> ''r''"
    by (rule unsettled_exact) (use that in \<open>simp add: demo_history_def settles_def\<close>)
  with m show ?thesis by (cases "ru = ''r''") simp_all
qed

lemma demo_ok: "ledger_ok (replay ledger_write demo_store demo_history)"
  using empty_replay_near[OF demo_empty, of demo_history] by (simp add: demo_exact)

lemma demo_run:
  "replay ledger_write demo_store demo_history = demo_store\<lparr>
     db_budget := [(''r'', \<lparr>bl_spent = 1, bl_reserved = 3, bl_max = 10, bl_halted = False, bl_expires = Some 9,
        bl_updated = 3, bl_calls = 2, bl_max_calls = None\<rparr>)],
     db_repo := [((''r'', ''a''), \<lparr>rl_spent = 1, rl_reserved = 3, rl_max = 6, rl_reval = 0, rl_reval_max = 2,
        rl_rounds = 0, rl_expires = Some 9, rl_updated = 3\<rparr>)],
     db_res := [(''h1'', \<lparr>rv_run = ''r'', rv_repo = ''a'', rv_phase = Some SCAN, rv_fence = Some 1, rv_amount = 4,
        rv_state = SETTLED, rv_expires = Some 9, rv_created = 1\<rparr>),
       (''h3'', \<lparr>rv_run = ''r'', rv_repo = ''a'', rv_phase = Some SCAN, rv_fence = Some 1, rv_amount = 3,
        rv_state = HELD, rv_expires = Some 9, rv_created = 3\<rparr>)]\<rparr>"
  by code_simp

theorem ledgers_explained_by_reservations_witness:
  "\<exists>b. get_budget (replay ledger_write demo_store demo_history) ''r'' = Some b \<and> bl_reserved b = 3 \<and> bl_spent b = 1
     \<and> bl_reserved b = held_of (replay ledger_write demo_store demo_history) ''r''
     \<and> bl_spent b = charged ''r'' demo_store demo_history"
proof -
  obtain b where b: "get_budget (replay ledger_write demo_store demo_history) ''r'' = Some b" "bl_reserved b = 3" "bl_spent b = 1"
    by (simp add: demo_run get_budget_def dict_get_Cons)
  from ledgers_explained_by_reservations[OF demo_empty, of demo_history "''r''" "''a''", THEN conjunct1] b(1)
  have "\<bar>bl_reserved b - held_of (replay ledger_write demo_store demo_history) ''r''\<bar> \<le> 0"
    and "bl_spent b = charged ''r'' demo_store demo_history"
    unfolding demo_exact by blast+
  with b show ?thesis by auto
qed

theorem halt_is_final_witness:
  "\<exists>db1 e. halt_budget_ledger (replay ledger_write demo_store demo_history) ''r'' 4 = Inr db1
     \<and> reserve_repo_budget (replay ledger_write db1 [OpenRun ''r'' 100 None 5]) ''r'' ''a'' ''h4'' 1 6 None None None = Inl e"
proof -
  obtain db1 where h: "halt_budget_ledger (replay ledger_write demo_store demo_history) ''r'' 4 = Inr db1"
    unfolding demo_run by (simp add: halt_budget_ledger_def get_budget_def dict_get_Cons put_budget_def budget_checks_def)
  from halt_is_final[OF h, of "[OpenRun ''r'' 100 None 5]"] h show ?thesis by (auto simp: raises_def)
qed

theorem hold_ends_once_witness:
  "settle_repo_budget (fst (reap_expired_phase_leases (replay ledger_write demo_store demo_history) ''r'' 20))
     ''r'' ''a'' ''h3'' 3 1 21 False = Inl ReservationRefused"
proof -
  have "dict_get (db_res (replay ledger_write demo_store demo_history)) ''h3'' = Some
      \<lparr>rv_run = ''r'', rv_repo = ''a'', rv_phase = Some SCAN, rv_fence = Some 1, rv_amount = 3,
        rv_state = HELD, rv_expires = Some 9, rv_created = 3\<rparr>"
    by (simp add: demo_run dict_get_Cons)
  moreover have "expired_held 20 \<lparr>rv_run = ''r'', rv_repo = ''a'', rv_phase = Some SCAN, rv_fence = Some 1, rv_amount = 3,
        rv_state = HELD, rv_expires = Some 9, rv_created = 3\<rparr>"
    by (simp add: expired_held_def)
  ultimately show ?thesis
    using hold_ends_once[where db = "replay ledger_write demo_store demo_history" and rid = "''h3''" and ws = "[]"
        and ?db1.0 = "fst (reap_expired_phase_leases (replay ledger_write demo_store demo_history) ''r'' 20)"]
    by force
qed

theorem reaper_releases_expired_holds_witness:
  "\<exists>b'. get_budget (fst (reap_expired_phase_leases (replay ledger_write demo_store demo_history) ''r'' 20)) ''r'' = Some b'
     \<and> bl_reserved b' = 0 \<and> bl_spent b' = 1"
proof -
  obtain b where "get_budget (replay ledger_write demo_store demo_history) ''r'' = Some b" "bl_reserved b = 3" "bl_spent b = 1"
    by (simp add: demo_run get_budget_def dict_get_Cons)
  moreover have "sum_list (map rv_amount (expired_rows (replay ledger_write demo_store demo_history) 20 ''r'')) = 3"
    by (simp add: demo_run expired_rows_def expired_held_def)
  ultimately show ?thesis
    using reaper_releases_expired_holds[OF demo_ok, of "''r''" b 20 "''h3''" "''r''"] by (auto simp: Let_def)
qed

theorem reservation_granted_iff_witness:
  "\<not> (\<exists>db'. reserve_repo_budget (replay ledger_write demo_store demo_history) ''r'' ''a'' ''h3'' 1 6 None None None = Inr db')
   \<and> (\<exists>db'. reserve_repo_budget (replay ledger_write demo_store demo_history) ''r'' ''a'' ''h5'' 2 6 None None None = Inr db')
   \<and> \<not> (\<exists>db'. reserve_repo_budget (replay ledger_write demo_store demo_history) ''r'' ''a'' ''h5'' 3 6 None None None = Inr db')"
  unfolding reservation_granted_iff[OF demo_ok] unfolding demo_run
  by (auto simp: get_budget_def get_repo_budget_def dict_get_Cons call_fits_def demo_store_def)

theorem stale_hold_fences_live_owner_witness:
  "\<exists>l'. dict_get (db_phases (fst (reap_expired_phase_leases (replay ledger_write demo_store demo_history) ''r'' 20))) (''r'', ''a'', SCAN) = Some l'
     \<and> pl_status l' = RUNNING \<and> pl_owner l' = Some ''w2'' \<and> pl_fence l' = 3"
  using stale_hold_fences_live_owner[of "replay ledger_write demo_store demo_history" "''r''" "''a''" SCAN
      "\<lparr>pl_status = RUNNING, pl_owner = Some ''w2'', pl_fence = 2, pl_heartbeat = None, pl_expires = Some 50, pl_updated = 0\<rparr>"
      20 "''h3''" "\<lparr>rv_run = ''r'', rv_repo = ''a'', rv_phase = Some SCAN, rv_fence = Some 1, rv_amount = 3,
        rv_state = HELD, rv_expires = Some 9, rv_created = 3\<rparr>"]
  unfolding demo_run by (auto simp: demo_store_def dict_get_Cons lease_expired_def expired_held_def)

end
