(* ===== verification/Cost_Ledger.thy ===== *)
theory Cost_Ledger
  imports Ledger_Correct
begin

text \<open>
  The cost policy of \<open>src/fleet/orchestrator/budgets.py\<close>: estimates, the six ceilings, and \<open>CostLedger\<close>, which
  reserves against the durable ledgers of \<open>Ledger_Store\<close> and keeps its own buckets per task, repository,
  revalidation and wave. Code between two suspension points is one function here; what other tasks and processes do while a call is suspended, the
  readings it takes from its clocks and the id it mints are a \<open>tick\<close>. Dollars are exact rationals, and \<open>math.log2\<close> is
  a field of the configuration.
\<close>

section \<open>Breaches\<close>

datatype budget_ceiling = TASK_CEILING | REPO_CEILING | REVALIDATION_CEILING | WAVE_CEILING | RUN_CEILING

datatype breach =
    TaskTokenBudgetExhausted
  | RepoBudgetExhausted
  | RevalidationBudgetExhausted
  | WaveBudgetExhausted
  | RunBudgetExhausted
  | RunCallBudgetExhausted
  | LedgerHalted
  | BackpressureTimeout

fun breach_ceiling :: "breach \<Rightarrow> budget_ceiling" where
  "breach_ceiling TaskTokenBudgetExhausted = TASK_CEILING"
| "breach_ceiling RepoBudgetExhausted = REPO_CEILING"
| "breach_ceiling RevalidationBudgetExhausted = REVALIDATION_CEILING"
| "breach_ceiling WaveBudgetExhausted = WAVE_CEILING"
| "breach_ceiling _ = RUN_CEILING"

fun breach_exit_code :: "breach \<Rightarrow> int option" where
  "breach_exit_code WaveBudgetExhausted = Some 10"
| "breach_exit_code RunBudgetExhausted = Some 3"
| "breach_exit_code RunCallBudgetExhausted = Some 3"
| "breach_exit_code LedgerHalted = Some 3"
| "breach_exit_code _ = None"

text \<open>What a dispatch can raise: a breach of a ceiling, or an error of the store that no handler converts.\<close>

datatype policy_error = Breach breach | StoreError ledger_error

section \<open>Estimates\<close>

datatype model_tier = HEAVY | WORKHORSE | CHEAP

datatype price = FreePrice | PerMtok rat rat

record cost_estimate =
  est_in :: int
  est_out :: int
  est_usd :: rat

definition est_tokens :: "cost_estimate \<Rightarrow> int" where
  "est_tokens e = est_in e + est_out e"

definition ZERO_COST :: cost_estimate where
  "ZERO_COST = \<lparr>est_in = 0, est_out = 0, est_usd = 0\<rparr>"

definition target_price_usd :: "price \<Rightarrow> int \<Rightarrow> int \<Rightarrow> rat" where
  "target_price_usd p n_in n_out =
     (case p of PerMtok i u \<Rightarrow> (i * of_int n_in + u * of_int n_out) / 10 ^ 6 | FreePrice \<Rightarrow> 0)"

definition estimate_cost :: "price \<Rightarrow> int \<Rightarrow> int \<Rightarrow> cost_estimate" where
  "estimate_cost p n_in n_out = \<lparr>est_in = n_in, est_out = n_out, est_usd = target_price_usd p n_in n_out\<rparr>"

definition P95_MIN_SAMPLES :: nat where
  "P95_MIN_SAMPLES = 20"

definition DEFAULT_ROLE_FLOOR :: "int \<times> int" where
  "DEFAULT_ROLE_FLOOR = (4000, 1000)"

record token_estimator =
  te_floors :: "(string \<times> model_tier, int \<times> int) dict"
  te_default_floor :: "int \<times> int"
  te_min_samples :: nat
  te_samples :: "(string \<times> model_tier, (int \<times> int) list) dict"

definition new_estimator :: "(string \<times> model_tier, int \<times> int) dict \<Rightarrow> token_estimator" where
  "new_estimator floors =
     \<lparr>te_floors = floors, te_default_floor = DEFAULT_ROLE_FLOOR, te_min_samples = P95_MIN_SAMPLES, te_samples = []\<rparr>"

definition samples_of :: "token_estimator \<Rightarrow> string \<Rightarrow> model_tier \<Rightarrow> (int \<times> int) list" where
  "samples_of t role tier = (case dict_get (te_samples t) (role, tier) of None \<Rightarrow> [] | Some s \<Rightarrow> s)"

definition observe :: "token_estimator \<Rightarrow> string \<Rightarrow> model_tier \<Rightarrow> int \<Rightarrow> int \<Rightarrow> token_estimator" where
  "observe t role tier n_in n_out =
     t\<lparr>te_samples := dict_set (te_samples t) (role, tier) (samples_of t role tier @ [(n_in, n_out)])\<rparr>"

definition sample_count :: "token_estimator \<Rightarrow> string \<Rightarrow> model_tier \<Rightarrow> nat" where
  "sample_count t role tier = length (samples_of t role tier)"

definition floor_for :: "token_estimator \<Rightarrow> string \<Rightarrow> model_tier \<Rightarrow> int \<times> int" where
  "floor_for t role tier = (case dict_get (te_floors t) (role, tier) of None \<Rightarrow> te_default_floor t | Some f \<Rightarrow> f)"

text \<open>
  \<open>math.ceil(0.95 * n)\<close> is \<open>(95 * n + 99) div 100\<close> at the sample counts of a run: the product rounds to a double
  within \<open>n * 2 ^ -53\<close> of the exact value, whose distance to an integer it does not hit is at least \<open>1/20\<close>, and
  where the exact value is an integer the double product is that integer.
\<close>

definition p95_index :: "nat \<Rightarrow> nat" where
  "p95_index n = (95 * n + 99) div 100 - 1"

text \<open>\<open>None\<close> is the \<open>IndexError\<close> of an empty list.\<close>

definition p95 :: "int list \<Rightarrow> int option" where
  "p95 values = (if values = [] then None else Some (sort values ! p95_index (length values)))"

definition estimate :: "token_estimator \<Rightarrow> price \<Rightarrow> string \<Rightarrow> model_tier \<Rightarrow> cost_estimate option" where
  "estimate t p role tier =
     (case floor_for t role tier of (floor_in, floor_out) \<Rightarrow>
      if te_min_samples t \<le> length (samples_of t role tier) then
        (case (p95 (map fst (samples_of t role tier)), p95 (map snd (samples_of t role tier))) of
           (Some p95_in, Some p95_out) \<Rightarrow> Some (estimate_cost p (max p95_in floor_in) (max p95_out floor_out))
         | _ \<Rightarrow> None)
      else Some (estimate_cost p (max 0 floor_in) (max 0 floor_out)))"

section \<open>Ceilings and scopes\<close>

record ceilings =
  run_max_usd :: rat
  run_max_calls :: "int option"
  wave_max_usd_per_repo :: rat
  repo_max_usd :: rat
  repo_max_ceiling_usd :: rat
  revalidation_max_usd :: rat
  max_revalidation_rounds :: int
  task_max_tokens :: int

definition wave_max_usd :: "ceilings \<Rightarrow> int \<Rightarrow> rat" where
  "wave_max_usd c members = wave_max_usd_per_repo c * of_int (max members 0)"

definition repo_max_usd_for :: "(int \<Rightarrow> rat) \<Rightarrow> ceilings \<Rightarrow> int \<Rightarrow> rat" where
  "repo_max_usd_for log2 c blast_radius =
     min (repo_max_usd c * (1 + log2 (1 + max blast_radius 0))) (repo_max_ceiling_usd c)"

datatype spend_kind = NORMAL | REVALIDATION

record spend_scope =
  sc_repo :: repo_id
  sc_task :: "string option"
  sc_wave :: "int option"
  sc_wave_members :: int
  sc_blast :: int
  sc_kind :: spend_kind
  sc_phase :: "phase option"
  sc_fence :: "int option"

record reservation =
  rs_id :: string
  rs_scope :: spend_scope
  rs_estimate :: cost_estimate
  rs_granted_at :: instant
  rs_actual :: "cost_estimate option"
  rs_settled :: bool

definition record_actual :: "cost_estimate \<Rightarrow> reservation \<Rightarrow> reservation" where
  "record_actual actual r = r\<lparr>rs_actual := Some actual\<rparr>"

record bucket =
  bk_spent :: rat
  bk_reserved :: rat
  bk_reserved_tokens :: int
  bk_spent_tokens :: int

definition empty_bucket :: bucket where
  "empty_bucket = \<lparr>bk_spent = 0, bk_reserved = 0, bk_reserved_tokens = 0, bk_spent_tokens = 0\<rparr>"

definition committed_usd :: "bucket \<Rightarrow> rat" where
  "committed_usd b = bk_spent b + bk_reserved b"

definition committed_tokens :: "bucket \<Rightarrow> int" where
  "committed_tokens b = bk_spent_tokens b + bk_reserved_tokens b"

text \<open>\<open>dict.get(k, _Bucket())\<close>, and an update of \<open>dict.setdefault(k, _Bucket())\<close>.\<close>

definition bucket_of :: "('k, bucket) dict \<Rightarrow> 'k \<Rightarrow> bucket" where
  "bucket_of d k = (case dict_get d k of None \<Rightarrow> empty_bucket | Some b \<Rightarrow> b)"

definition bucket_update :: "(bucket \<Rightarrow> bucket) \<Rightarrow> 'k \<Rightarrow> ('k, bucket) dict \<Rightarrow> ('k, bucket) dict" where
  "bucket_update f k d = dict_set d k (f (bucket_of d k))"

section \<open>The policy\<close>

datatype halt_reason = Requested string | DurableHalt | CeilingReached rat rat

text \<open>The constructor's arguments and \<open>math.log2\<close>.\<close>

record ledger_config =
  cf_run :: string
  cf_ceilings :: ceilings
  cf_wait_timeout :: rat
  cf_wait_poll :: rat
  cf_ttl :: "instant option"
  cf_log2 :: "int \<Rightarrow> rat"

record policy =
  ps_halted :: bool
  ps_halt_reason :: "halt_reason option"
  ps_settlements :: nat
  ps_repos :: "(repo_id, bucket) dict"
  ps_repo_ceilings :: "(repo_id, rat) dict"
  ps_waves :: "(int, bucket) dict"
  ps_tasks :: "(string, bucket) dict"
  ps_reval :: "(repo_id, bucket) dict"

definition new_policy :: policy where
  "new_policy = \<lparr>ps_halted = False, ps_halt_reason = None, ps_settlements = 0, ps_repos = [],
     ps_repo_ceilings = [], ps_waves = [], ps_tasks = [], ps_reval = []\<rparr>"

type_synonym world = "policy \<times> ledger_db"

text \<open>
  The readings of one attempt: the wall clock at each place that reads it, the monotonic clock, and the minted id; and what
  the other tasks and processes do to the policy and the ledgers while this one is suspended: from its checks to the
  store's transaction, from the transaction until the caller runs again, and while it waits for a settlement.
\<close>

record tick =
  tk_open :: instant
  tk_now :: instant
  tk_expiry :: instant
  tk_granted :: instant
  tk_halt :: instant
  tk_mono :: rat
  tk_id :: string
  tk_before_store :: "world \<Rightarrow> world"
  tk_after_store :: "world \<Rightarrow> world"
  tk_meanwhile :: "world \<Rightarrow> world"

subsection \<open>Halting and reading\<close>

definition halt_ledger :: "ledger_config \<Rightarrow> halt_reason \<Rightarrow> instant \<Rightarrow> world \<Rightarrow> world \<times> policy_error option" where
  "halt_ledger cf reason now w =
     (let ps = (fst w)\<lparr>ps_halted := True, ps_halt_reason := Some reason\<rparr> in
      case halt_budget_ledger (snd w) (cf_run cf) now of
        Inl e \<Rightarrow> ((ps, snd w), Some (StoreError e))
      | Inr db \<Rightarrow> ((ps, db), None))"

definition observe_halt :: "policy \<Rightarrow> policy" where
  "observe_halt ps =
     ps\<lparr>ps_halted := True,
        ps_halt_reason := (case ps_halt_reason ps of None \<Rightarrow> Some DurableHalt | Some r \<Rightarrow> Some r)\<rparr>"

definition refresh :: "ledger_config \<Rightarrow> world \<Rightarrow> policy_error + policy \<times> budget_row" where
  "refresh cf w =
     (case get_budget (snd w) (cf_run cf) of
        None \<Rightarrow> Inl (Breach RunBudgetExhausted)
      | Some row \<Rightarrow> Inr (if bl_halted row then observe_halt (fst w) else fst w, row))"

record call_budget =
  cb_tokens :: int
  cb_usd :: rat
  cb_deadline :: rat

definition call_budget_for :: "ledger_config \<Rightarrow> spend_scope \<Rightarrow> rat \<Rightarrow> world \<Rightarrow> policy_error + policy \<times> call_budget" where
  "call_budget_for cf sc deadline w =
     rbind (refresh cf w) (\<lambda>(ps, row).
       let remaining = task_max_tokens (cf_ceilings cf);
           tokens = (case sc_task sc of
               None \<Rightarrow> remaining
             | Some t \<Rightarrow> (case dict_get (ps_tasks ps) t of
                 None \<Rightarrow> remaining
               | Some b \<Rightarrow> max 0 (remaining - committed_tokens b))) in
       Inr (ps, \<lparr>cb_tokens = tokens, cb_usd = max 0 (bl_max row - bl_spent row - bl_reserved row),
                 cb_deadline = deadline\<rparr>))"

subsection \<open>Checks before the store\<close>

definition refuse_if_halted :: "policy \<Rightarrow> policy_error option" where
  "refuse_if_halted ps = (if ps_halted ps then Some (Breach LedgerHalted) else None)"

definition repo_ceiling :: "ledger_config \<Rightarrow> spend_scope \<Rightarrow> rat" where
  "repo_ceiling cf sc = repo_max_usd_for (cf_log2 cf) (cf_ceilings cf) (sc_blast sc)"

definition seed_buckets :: "repo_id \<Rightarrow> repo_row option \<Rightarrow> policy \<Rightarrow> policy" where
  "seed_buckets repo row ps =
     (case row of
        None \<Rightarrow> ps
      | Some r \<Rightarrow> ps\<lparr>ps_repos := bucket_update (\<lambda>b. b\<lparr>bk_spent := rl_spent r\<rparr>) repo (ps_repos ps),
                     ps_reval := bucket_update (\<lambda>b. b\<lparr>bk_spent := rl_reval r\<rparr>) repo (ps_reval ps)\<rparr>)"

definition ensure_repo_ledger :: "ledger_config \<Rightarrow> spend_scope \<Rightarrow> instant \<Rightarrow> world \<Rightarrow> ledger_error + world" where
  "ensure_repo_ledger cf sc now w =
     (let repo_max = repo_ceiling cf sc;
          opened = dict_get (ps_repo_ceilings (fst w)) (sc_repo sc) in
      if (case opened of None \<Rightarrow> False | Some m \<Rightarrow> repo_max \<le> m + USD_EPSILON) then Inr w
      else
        rbind (open_repo_ledger (snd w) (cf_run cf) (sc_repo sc) repo_max now (revalidation_max_usd (cf_ceilings cf)))
          (\<lambda>db. let ps = (fst w)\<lparr>ps_repo_ceilings := dict_set (ps_repo_ceilings (fst w)) (sc_repo sc) repo_max\<rparr> in
            Inr (if opened = None then seed_buckets (sc_repo sc) (get_repo_budget db (cf_run cf) (sc_repo sc)) ps else ps, db)))"

definition task_breached :: "ledger_config \<Rightarrow> cost_estimate \<Rightarrow> spend_scope \<Rightarrow> policy \<Rightarrow> bool" where
  "task_breached cf e sc ps =
     (case sc_task sc of
        None \<Rightarrow> False
      | Some t \<Rightarrow> committed_tokens (bucket_of (ps_tasks ps) t) + est_tokens e > task_max_tokens (cf_ceilings cf))"

definition reval_breached :: "ledger_config \<Rightarrow> cost_estimate \<Rightarrow> spend_scope \<Rightarrow> policy \<Rightarrow> bool" where
  "reval_breached cf e sc ps \<longleftrightarrow>
     sc_kind sc = REVALIDATION
     \<and> committed_usd (bucket_of (ps_reval ps) (sc_repo sc)) + est_usd e > revalidation_max_usd (cf_ceilings cf) + USD_EPSILON"

definition repo_breached :: "ledger_config \<Rightarrow> cost_estimate \<Rightarrow> spend_scope \<Rightarrow> policy \<Rightarrow> bool" where
  "repo_breached cf e sc ps \<longleftrightarrow>
     committed_usd (bucket_of (ps_repos ps) (sc_repo sc)) + est_usd e > repo_ceiling cf sc + USD_EPSILON"

definition wave_breached :: "ledger_config \<Rightarrow> cost_estimate \<Rightarrow> spend_scope \<Rightarrow> policy \<Rightarrow> bool" where
  "wave_breached cf e sc ps =
     (case sc_wave sc of
        None \<Rightarrow> False
      | Some i \<Rightarrow> committed_usd (bucket_of (ps_waves ps) i) + est_usd e
          > wave_max_usd (cf_ceilings cf) (sc_wave_members sc) + USD_EPSILON)"

definition check_subceilings :: "ledger_config \<Rightarrow> cost_estimate \<Rightarrow> spend_scope \<Rightarrow> policy \<Rightarrow> breach option" where
  "check_subceilings cf e sc ps =
     (if task_breached cf e sc ps then Some TaskTokenBudgetExhausted
      else if reval_breached cf e sc ps then Some RevalidationBudgetExhausted
      else if repo_breached cf e sc ps then Some RepoBudgetExhausted
      else if wave_breached cf e sc ps then Some WaveBudgetExhausted
      else None)"

subsection \<open>What a refusal of the store means\<close>

definition interpret_refusal :: "ledger_config \<Rightarrow> cost_estimate \<Rightarrow> instant \<Rightarrow> world \<Rightarrow> world \<times> policy_error option" where
  "interpret_refusal cf e now w =
     (case get_budget (snd w) (cf_run cf) of
        None \<Rightarrow> (w, Some (Breach RunBudgetExhausted))
      | Some row \<Rightarrow>
          if bl_halted row then ((observe_halt (fst w), snd w), Some (Breach LedgerHalted))
          else if bl_spent row + est_usd e > bl_max row + USD_EPSILON then
            if bl_spent row \<ge> bl_max row - USD_EPSILON then
              (case halt_ledger cf (CeilingReached (bl_max row) (bl_spent row)) now w of
                 (w', Some err) \<Rightarrow> (w', Some err)
               | (w', None) \<Rightarrow> (w', Some (Breach RunBudgetExhausted)))
            else (w, Some (Breach RunBudgetExhausted))
          else (w, None))"

definition interpret_repo_refusal :: "ledger_config \<Rightarrow> cost_estimate \<Rightarrow> spend_scope \<Rightarrow> ledger_db \<Rightarrow> breach option" where
  "interpret_repo_refusal cf e sc db =
     (case get_repo_budget db (cf_run cf) (sc_repo sc) of
        None \<Rightarrow> Some RepoBudgetExhausted
      | Some row \<Rightarrow>
          if sc_kind sc = REVALIDATION \<and> rl_reval row + est_usd e > rl_reval_max row + USD_EPSILON
          then Some RevalidationBudgetExhausted
          else if rl_spent row + est_usd e > rl_max row + USD_EPSILON then Some RepoBudgetExhausted
          else None)"

subsection \<open>Holding and releasing\<close>

definition hold_usd :: "cost_estimate \<Rightarrow> bucket \<Rightarrow> bucket" where
  "hold_usd e b = b\<lparr>bk_reserved := bk_reserved b + est_usd e\<rparr>"

definition hold_tokens :: "cost_estimate \<Rightarrow> bucket \<Rightarrow> bucket" where
  "hold_tokens e b = b\<lparr>bk_reserved_tokens := bk_reserved_tokens b + est_tokens e\<rparr>"

definition release_usd :: "cost_estimate \<Rightarrow> cost_estimate \<Rightarrow> bucket \<Rightarrow> bucket" where
  "release_usd e a b = b\<lparr>bk_reserved := max 0 (bk_reserved b - est_usd e), bk_spent := bk_spent b + est_usd a\<rparr>"

definition release_tokens :: "cost_estimate \<Rightarrow> cost_estimate \<Rightarrow> bucket \<Rightarrow> bucket" where
  "release_tokens e a b =
     b\<lparr>bk_reserved_tokens := max 0 (bk_reserved_tokens b - est_tokens e), bk_spent_tokens := bk_spent_tokens b + est_tokens a\<rparr>"

definition on_scope :: "spend_scope \<Rightarrow> (bucket \<Rightarrow> bucket) \<Rightarrow> (bucket \<Rightarrow> bucket) \<Rightarrow> policy \<Rightarrow> policy" where
  "on_scope sc usd tokens ps =
     ps\<lparr>ps_repos := bucket_update usd (sc_repo sc) (ps_repos ps),
        ps_reval := (if sc_kind sc = REVALIDATION then bucket_update usd (sc_repo sc) (ps_reval ps) else ps_reval ps),
        ps_waves := (case sc_wave sc of None \<Rightarrow> ps_waves ps | Some i \<Rightarrow> bucket_update usd i (ps_waves ps)),
        ps_tasks := (case sc_task sc of None \<Rightarrow> ps_tasks ps | Some t \<Rightarrow> bucket_update tokens t (ps_tasks ps))\<rparr>"

definition hold :: "reservation \<Rightarrow> policy \<Rightarrow> policy" where
  "hold r = on_scope (rs_scope r) (hold_usd (rs_estimate r)) (hold_tokens (rs_estimate r))"

definition release :: "reservation \<Rightarrow> cost_estimate \<Rightarrow> policy \<Rightarrow> policy" where
  "release r a = on_scope (rs_scope r) (release_usd (rs_estimate r) a) (release_tokens (rs_estimate r) a)"

subsection \<open>Reserve\<close>

definition expires_at :: "ledger_config \<Rightarrow> instant \<Rightarrow> instant option" where
  "expires_at cf now = map_option (\<lambda>ttl. now + ttl) (cf_ttl cf)"

text \<open>
  An attempt has three parts, and the other tasks run between them: the checks, the store's transaction, and what follows
  a grant or a refusal. Opening the repository's row, which holds its own lock, is one step with the checks.
\<close>

definition admit_dispatch :: "ledger_config \<Rightarrow> cost_estimate \<Rightarrow> spend_scope \<Rightarrow> instant \<Rightarrow> world \<Rightarrow> world \<times> policy_error option" where
  "admit_dispatch cf e sc now w =
     (case refuse_if_halted (fst w) of
        Some err \<Rightarrow> (w, Some err)
      | None \<Rightarrow>
          (case ensure_repo_ledger cf sc now w of
             Inl err \<Rightarrow> (w, Some (StoreError err))
           | Inr w' \<Rightarrow> (w', map_option Breach (check_subceilings cf e sc (fst w')))))"

definition store_reserve :: "ledger_config \<Rightarrow> cost_estimate \<Rightarrow> spend_scope \<Rightarrow> tick \<Rightarrow> ledger_db \<Rightarrow> ledger_error + ledger_db" where
  "store_reserve cf e sc t db =
     reserve_repo_budget db (cf_run cf) (sc_repo sc) (tk_id t) (est_usd e) (tk_now t) (expires_at cf (tk_expiry t))
       (sc_phase sc) (sc_fence sc)"

definition grant :: "cost_estimate \<Rightarrow> spend_scope \<Rightarrow> tick \<Rightarrow> reservation" where
  "grant e sc t = \<lparr>rs_id = tk_id t, rs_scope = sc, rs_estimate = e, rs_granted_at = tk_granted t, rs_actual = None, rs_settled = False\<rparr>"

datatype attempt = Granted reservation | Raised policy_error | Backpressure

definition after_refusal ::
  "ledger_config \<Rightarrow> cost_estimate \<Rightarrow> spend_scope \<Rightarrow> tick \<Rightarrow> ledger_error \<Rightarrow> world \<Rightarrow> world \<times> attempt" where
  "after_refusal cf e sc t err w =
     (case err of
        RunCallBudgetRefused \<Rightarrow> (w, Raised (Breach RunCallBudgetExhausted))
      | RepoBudgetRefused \<Rightarrow>
          (w, case interpret_repo_refusal cf e sc (snd w) of None \<Rightarrow> Backpressure | Some b \<Rightarrow> Raised (Breach b))
      | BudgetRefused \<Rightarrow>
          (case interpret_refusal cf e (tk_halt t) w of
             (w', None) \<Rightarrow> (w', Backpressure)
           | (w', Some x) \<Rightarrow> (w', Raised x))
      | _ \<Rightarrow> (w, Raised (StoreError err)))"

definition reserve_attempt :: "ledger_config \<Rightarrow> cost_estimate \<Rightarrow> spend_scope \<Rightarrow> tick \<Rightarrow> world \<Rightarrow> world \<times> attempt" where
  "reserve_attempt cf e sc t w =
     (case admit_dispatch cf e sc (tk_open t) w of
        (w1, Some err) \<Rightarrow> (w1, Raised err)
      | (w1, None) \<Rightarrow>
          (let w2 = tk_before_store t w1 in
           case store_reserve cf e sc t (snd w2) of
             Inl err \<Rightarrow> after_refusal cf e sc t err (tk_after_store t w2)
           | Inr db \<Rightarrow>
               (let w3 = tk_after_store t (fst w2, db) in
                ((hold (grant e sc t) (fst w3), snd w3), Granted (grant e sc t)))))"

text \<open>
  The loop, one tick for an attempt. \<open>None\<close>: the given ticks ran out while still waiting.
\<close>

fun reserve_loop ::
  "ledger_config \<Rightarrow> cost_estimate \<Rightarrow> spend_scope \<Rightarrow> rat \<Rightarrow> tick list \<Rightarrow> world \<Rightarrow> (world \<times> (policy_error + reservation)) option" where
  "reserve_loop cf e sc wait_deadline [] w = None"
| "reserve_loop cf e sc wait_deadline (t # ts) w =
     (case reserve_attempt cf e sc t w of
        (w1, Granted r) \<Rightarrow> Some (w1, Inr r)
      | (w1, Raised err) \<Rightarrow> Some (w1, Inl err)
      | (w1, Backpressure) \<Rightarrow>
          if tk_mono t \<ge> wait_deadline then Some (w1, Inl (Breach BackpressureTimeout))
          else reserve_loop cf e sc wait_deadline ts (tk_meanwhile t w1))"

definition reserve ::
  "ledger_config \<Rightarrow> cost_estimate \<Rightarrow> spend_scope \<Rightarrow> rat option \<Rightarrow> rat \<Rightarrow> tick list \<Rightarrow> world
   \<Rightarrow> (world \<times> (policy_error + reservation)) option" where
  "reserve cf e sc timeout started = reserve_loop cf e sc (started + (case timeout of None \<Rightarrow> cf_wait_timeout cf | Some t \<Rightarrow> t))"

text \<open>How long a wait may park: \<open>None\<close> when a settlement or a halt already happened.\<close>

definition wait_for_settlement :: "ledger_config \<Rightarrow> policy \<Rightarrow> nat \<Rightarrow> rat \<Rightarrow> rat \<Rightarrow> rat option" where
  "wait_for_settlement cf ps epoch wait_deadline now_s =
     (if ps_settlements ps \<noteq> epoch \<or> ps_halted ps then None
      else Some (min (cf_wait_poll cf) (max 0 (wait_deadline - now_s))))"

subsection \<open>Settle and dispatch\<close>

definition settle ::
  "ledger_config \<Rightarrow> reservation \<Rightarrow> cost_estimate option \<Rightarrow> instant \<Rightarrow> world \<Rightarrow> policy_error + world \<times> reservation" where
  "settle cf r actual now w =
     (if rs_settled r then Inl (Breach RunBudgetExhausted)
      else
        let spend = (case actual of Some a \<Rightarrow> a | None \<Rightarrow> (case rs_actual r of Some a \<Rightarrow> a | None \<Rightarrow> ZERO_COST)) in
        case settle_repo_budget (snd w) (cf_run cf) (sc_repo (rs_scope r)) (rs_id r) (est_usd (rs_estimate r)) (est_usd spend)
               now (sc_kind (rs_scope r) = REVALIDATION) of
          Inl err \<Rightarrow> Inl (StoreError err)
        | Inr db \<Rightarrow>
            let ps = release r spend (fst w) in
            Inr ((ps\<lparr>ps_settlements := ps_settlements ps + 1\<rparr>, db), r\<lparr>rs_settled := True, rs_actual := Some spend\<rparr>))"

text \<open>
  \<open>dispatch\<close> around a body, which may record the cost or settle, changes the ledgers by whatever the other tasks do
  meanwhile, and may raise: the reservation is reconciled on every way out.
\<close>

definition dispatch ::
  "ledger_config \<Rightarrow> cost_estimate \<Rightarrow> spend_scope \<Rightarrow> rat \<Rightarrow> rat option \<Rightarrow> rat \<Rightarrow> tick list \<Rightarrow> instant
   \<Rightarrow> (reservation \<Rightarrow> call_budget \<Rightarrow> world \<Rightarrow> world \<times> reservation) \<Rightarrow> world
   \<Rightarrow> (policy_error + world \<times> reservation) option" where
  "dispatch cf e sc deadline timeout started ts settle_now body w =
     (case reserve cf e sc timeout started ts w of
        None \<Rightarrow> None
      | Some (_, Inl err) \<Rightarrow> Some (Inl err)
      | Some (w1, Inr r) \<Rightarrow> Some (
          rbind (call_budget_for cf sc deadline w1) (\<lambda>(ps, budget).
            case body r budget (ps, snd w1) of (w2, r2) \<Rightarrow>
              if rs_settled r2 then Inr (w2, r2) else settle cf r2 None settle_now w2)))"

subsection \<open>Reading back\<close>

definition repo_spent_usd :: "policy \<Rightarrow> repo_id \<Rightarrow> rat" where
  "repo_spent_usd ps repo = bk_spent (bucket_of (ps_repos ps) repo)"

definition repo_headroom_usd :: "ledger_config \<Rightarrow> ledger_db \<Rightarrow> repo_id \<Rightarrow> rat" where
  "repo_headroom_usd cf db repo = (case get_repo_budget db (cf_run cf) repo of None \<Rightarrow> 0 | Some r \<Rightarrow> remaining_usd r)"

definition wave_spent_usd :: "policy \<Rightarrow> int \<Rightarrow> rat" where
  "wave_spent_usd ps i = bk_spent (bucket_of (ps_waves ps) i)"

definition task_spent_tokens :: "policy \<Rightarrow> string \<Rightarrow> int" where
  "task_spent_tokens ps t = bk_spent_tokens (bucket_of (ps_tasks ps) t)"

end
