(* ===== verification/Cost_Correct.thy ===== *)
theory Cost_Correct
  imports Cost_Ledger
begin

text \<open>
  Correctness of the cost policy: what an estimate covers, what a grant guarantees of every ceiling, when a caller waits
  and that the wait ends, that a halt stops every dispatch of every process, and where the
  policy's own checks are weaker or stricter than its documentation.
\<close>

section \<open>Estimates\<close>

lemma count_le_nth:
  assumes "sorted xs" and "i < length xs"
  shows "Suc i \<le> length (filter (\<lambda>x. x \<le> xs ! i) xs)"
proof -
  have "filter (\<lambda>x. x \<le> xs ! i) (take (Suc i) xs) = take (Suc i) xs"
    using assms by (auto simp: filter_id_conv in_set_conv_nth sorted_iff_nth_mono)
  then have "length (filter (\<lambda>x. x \<le> xs ! i) (take (Suc i) xs)) = Suc i" using assms(2) by simp
  moreover have "filter (\<lambda>x. x \<le> xs ! i) xs
      = filter (\<lambda>x. x \<le> xs ! i) (take (Suc i) xs) @ filter (\<lambda>x. x \<le> xs ! i) (drop (Suc i) xs)"
    by (metis append_take_drop_id filter_append)
  ultimately show ?thesis by simp
qed

lemma count_le_below:
  assumes "sorted xs" and "i < length xs" and "u < xs ! i"
  shows "length (filter (\<lambda>x. x \<le> u) xs) \<le> i"
proof -
  have "u < xs ! (i + j)" if "i + j < length xs" for j
    using sorted_nth_mono[OF assms(1), of i "i + j"] assms(3) that by simp
  then have "u < x" if "x \<in> set (drop i xs)" for x
    using that assms(2) by (auto simp: in_set_conv_nth)
  then have "filter (\<lambda>x. x \<le> u) (drop i xs) = []"
    by (simp add: filter_empty_conv not_le)
  then have "length (filter (\<lambda>x. x \<le> u) xs) = length (filter (\<lambda>x. x \<le> u) (take i xs))"
    by (metis append_Nil2 append_take_drop_id filter_append)
  also have "\<dots> \<le> i" using length_filter_le[of "\<lambda>x. x \<le> u" "take i xs"] by simp
  finally show ?thesis .
qed

lemma length_filter_sort: "length (filter P (sort xs)) = length (filter P xs)"
  by (metis mset_filter mset_sort size_mset)

lemma p95_rank:
  assumes "values \<noteq> []" 
  shows "p95_index (length values) < length values"
    and "95 * length values \<le> 100 * Suc (p95_index (length values))"
    and "100 * p95_index (length values) < 95 * length values"
proof -
  define k where "k = (95 * length values + 99) div 100"
  have "100 * k \<le> 95 * length values + 99" "95 * length values + 99 < 100 * k + 100" "0 < length values"
    using assms unfolding k_def by (simp_all add: dividend_less_times_div mult.commute)
  then obtain m where m: "k = Suc m" "100 * m < 95 * length values" "95 * length values \<le> 100 * Suc m"
    by (cases k) auto
  then have "p95_index (length values) = m" by (simp add: p95_index_def k_def)
  then show "p95_index (length values) < length values"
    and "95 * length values \<le> 100 * Suc (p95_index (length values))"
    and "100 * p95_index (length values) < 95 * length values"
    using m by simp_all
qed

lemma p95_least_cover:
  assumes "p95 values = Some v"
  shows "v \<in> set values" and "95 * length values \<le> 100 * length (filter (\<lambda>x. x \<le> v) values)"
    and "95 * length values \<le> 100 * length (filter (\<lambda>x. x \<le> u) values) \<Longrightarrow> v \<le> u"
proof -
  have ne: "values \<noteq> []" and v: "v = sort values ! p95_index (length values)"
    using assms by (auto simp: p95_def split: if_splits)
  note r = p95_rank[OF ne]
  show "v \<in> set values" using r(1) v by (metis length_sort nth_mem set_sort)
  show "95 * length values \<le> 100 * length (filter (\<lambda>x. x \<le> v) values)"
    using count_le_nth[of "sort values" "p95_index (length values)"] r(1,2) v by (simp add: length_filter_sort)
  assume c: "95 * length values \<le> 100 * length (filter (\<lambda>x. x \<le> u) values)"
  show "v \<le> u"
  proof (rule ccontr)
    assume "\<not> v \<le> u"
    then have "length (filter (\<lambda>x. x \<le> u) values) \<le> p95_index (length values)"
      using count_le_below[of "sort values" "p95_index (length values)" u] r(1) v by (simp add: length_filter_sort)
    with c r(3) show False by simp
  qed
qed

text \<open>
  The estimate of a role's next call. With enough samples its input and output tokens are each the
  larger of the configured floor and the least observed value that covers at least 95 of 100 samples; with fewer it is
  the floor. The price is that of the target at those counts.
\<close>

theorem estimate_is_floored_p95:
  assumes "te_min_samples t \<le> sample_count t role tier" and "0 < sample_count t role tier"
  shows "\<exists>e i u. estimate t p role tier = Some e
     \<and> est_in e = max i (fst (floor_for t role tier)) \<and> est_out e = max u (snd (floor_for t role tier))
     \<and> est_usd e = target_price_usd p (est_in e) (est_out e)
     \<and> i \<in> fst ` set (samples_of t role tier) \<and> u \<in> snd ` set (samples_of t role tier)
     \<and> (\<forall>j. 95 * sample_count t role tier \<le> 100 * length (filter (\<lambda>s. fst s \<le> j) (samples_of t role tier)) \<longleftrightarrow> i \<le> j)
     \<and> (\<forall>j. 95 * sample_count t role tier \<le> 100 * length (filter (\<lambda>s. snd s \<le> j) (samples_of t role tier)) \<longleftrightarrow> u \<le> j)"
proof -
  define ss where "ss = samples_of t role tier"
  have ne: "ss \<noteq> []" using assms(2) by (simp add: sample_count_def ss_def)
  have cover: "\<exists>v. p95 (map f ss) = Some v \<and> v \<in> f ` set ss
      \<and> (\<forall>j. 95 * length ss \<le> 100 * length (filter (\<lambda>s. f s \<le> j) ss) \<longleftrightarrow> v \<le> j)" for f :: "int \<times> int \<Rightarrow> int"
  proof -
    obtain v where v: "p95 (map f ss) = Some v" using ne by (simp add: p95_def)
    have len: "length (filter (\<lambda>x. x \<le> j) (map f ss)) = length (filter (\<lambda>s. f s \<le> j) ss)" for j
      by (simp add: filter_map comp_def)
    have mono: "length (filter (\<lambda>s. f s \<le> v) ss) \<le> length (filter (\<lambda>s. f s \<le> j) ss)" if "v \<le> j" for j
      using that by (induction ss) auto
    show ?thesis
      using p95_least_cover[OF v, unfolded len length_map] v mono by (fastforce intro: order_trans)
  qed
  obtain i where i: "p95 (map fst ss) = Some i" "i \<in> fst ` set ss"
    "\<forall>j. 95 * length ss \<le> 100 * length (filter (\<lambda>s. fst s \<le> j) ss) \<longleftrightarrow> i \<le> j" using cover by blast
  obtain u where u: "p95 (map snd ss) = Some u" "u \<in> snd ` set ss"
    "\<forall>j. 95 * length ss \<le> 100 * length (filter (\<lambda>s. snd s \<le> j) ss) \<longleftrightarrow> u \<le> j" using cover by blast
  have "estimate t p role tier = Some (estimate_cost p (max i (fst (floor_for t role tier))) (max u (snd (floor_for t role tier))))"
    using assms(1) i(1) u(1) by (simp add: estimate_def sample_count_def ss_def split: prod.split)
  with i u show ?thesis
    unfolding sample_count_def ss_def[symmetric]
    by (intro exI[of _ "estimate_cost p (max i (fst (floor_for t role tier))) (max u (snd (floor_for t role tier)))"]
        exI[of _ i] exI[of _ u]) (simp add: estimate_cost_def)
qed


section \<open>What a grant guarantees\<close>

lemma bucket_of_update: "bucket_of (bucket_update f k d) j = (if j = k then f (bucket_of d k) else bucket_of d j)"
  by (simp add: bucket_of_def bucket_update_def)

lemma admit_dispatch_None:
  assumes "admit_dispatch cf e sc now w = (w1, None)"
  shows "\<not> ps_halted (fst w)" and "ensure_repo_ledger cf sc now w = Inr w1"
    and "\<not> task_breached cf e sc (fst w1)" and "\<not> reval_breached cf e sc (fst w1)"
    and "\<not> repo_breached cf e sc (fst w1)" and "\<not> wave_breached cf e sc (fst w1)"
  using assms
  by (auto simp: admit_dispatch_def refuse_if_halted_def check_subceilings_def split: option.splits if_splits sum.splits)

lemma after_refusal_not_Granted: "after_refusal cf e sc t err w \<noteq> (w', Granted r)"
  by (auto simp: after_refusal_def split: ledger_error.splits option.splits prod.splits)

lemma attempt_cases:
  assumes "reserve_attempt cf e sc t w = (w', x)"
  obtains (stopped) err where "admit_dispatch cf e sc (tk_open t) w = (w', Some err)" and "x = Raised err"
  | (refused) w1 err where "admit_dispatch cf e sc (tk_open t) w = (w1, None)"
      and "store_reserve cf e sc t (snd (tk_before_store t w1)) = Inl err"
      and "after_refusal cf e sc t err (tk_after_store t (tk_before_store t w1)) = (w', x)"
  | (granted) w1 db w3 where "admit_dispatch cf e sc (tk_open t) w = (w1, None)"
      and "store_reserve cf e sc t (snd (tk_before_store t w1)) = Inr db"
      and "w3 = tk_after_store t (fst (tk_before_store t w1), db)"
      and "w' = (hold (grant e sc t) (fst w3), snd w3)" and "x = Granted (grant e sc t)"
proof -
  obtain w1 y where a: "admit_dispatch cf e sc (tk_open t) w = (w1, y)" by (rule prod.exhaust)
  show thesis
  proof (cases y)
    case None
    show thesis
    proof (cases "store_reserve cf e sc t (snd (tk_before_store t w1))")
      case (Inl err)
      with assms a None show thesis by (intro refused) (auto simp: reserve_attempt_def)
    next
      case (Inr db)
      with assms a None show thesis by (intro granted) (auto simp: reserve_attempt_def Let_def)
    qed
  next
    case (Some err)
    with assms a show thesis by (intro stopped) (auto simp: reserve_attempt_def)
  qed
qed

lemma attempt_Granted:
  assumes "reserve_attempt cf e sc t w = (w', Granted r)"
  obtains w1 db w3 where "admit_dispatch cf e sc (tk_open t) w = (w1, None)"
    and "store_reserve cf e sc t (snd (tk_before_store t w1)) = Inr db"
    and "w3 = tk_after_store t (fst (tk_before_store t w1), db)"
    and "w' = (hold (grant e sc t) (fst w3), snd w3)" and "r = grant e sc t"
  using assms
proof (cases rule: attempt_cases)
  case (refused w1 err)
  then show ?thesis using after_refusal_not_Granted by blast
next
  case (granted w1 db w3)
  then show ?thesis by (intro that) simp_all
qed simp_all

lemma reserve_rows:
  assumes "reserve_repo_budget db run repo rid amount now expires phase fence = Inr db'"
  shows "\<exists>r b. get_repo_budget db' run repo = Some r \<and> rl_spent r + rl_reserved r \<le> rl_max r
     \<and> get_budget db' run = Some b \<and> bl_spent b + bl_reserved b \<le> bl_max b \<and> \<not> bl_halted b"
  using assms
  by (auto simp: reserve_repo_budget_def rbind_Inr_iff insert_reservation_Inr reserve_repo_sql_Inr
      reserve_run_sql_Inr get_budget_def get_repo_budget_def split: if_splits)

text \<open>
  C6: A granted attempt fits every ceiling. The durable repository and run ledgers are within theirs, the hold of this
  attempt included, whatever other tasks and processes write in between; the run is not halted, and the hold is in the store. The
  task's tokens and the revalidation, repository and wave money of the scope had room for the estimate, up to the
  tolerance, when the attempt was checked, and the grant adds exactly the estimate to what they are when the
  attempt runs again. So the state it leaves is within those four ceilings unless another dispatch was held between
  this one's check and its hold, and beyond them by at most what was added in between.
\<close>

theorem grant_fits_every_ceiling:
  assumes "reserve_attempt cf e sc t w = (w', Granted r)"
  shows "\<exists>w1 db w3. admit_dispatch cf e sc (tk_open t) w = (w1, None)
    \<and> store_reserve cf e sc t (snd (tk_before_store t w1)) = Inr db \<and> w3 = tk_after_store t (fst (tk_before_store t w1), db)
    \<and> snd w' = snd w3 \<and> rs_estimate r = e \<and> rs_scope r = sc
    \<and> (\<exists>row b v. get_repo_budget db (cf_run cf) (sc_repo sc) = Some row \<and> rl_spent row + rl_reserved row \<le> rl_max row
         \<and> get_budget db (cf_run cf) = Some b \<and> bl_spent b + bl_reserved b \<le> bl_max b \<and> \<not> bl_halted b
         \<and> get_reservation db (cf_run cf) (rs_id r) = Some v \<and> rv_state v = HELD \<and> rv_amount v = est_usd e)
    \<and> (\<forall>i. sc_task sc = Some i \<longrightarrow>
         committed_tokens (bucket_of (ps_tasks (fst w1)) i) + est_tokens e \<le> task_max_tokens (cf_ceilings cf)
         \<and> committed_tokens (bucket_of (ps_tasks (fst w')) i) = committed_tokens (bucket_of (ps_tasks (fst w3)) i) + est_tokens e)
    \<and> (sc_kind sc = REVALIDATION \<longrightarrow>
         committed_usd (bucket_of (ps_reval (fst w1)) (sc_repo sc)) + est_usd e \<le> revalidation_max_usd (cf_ceilings cf) + USD_EPSILON
         \<and> committed_usd (bucket_of (ps_reval (fst w')) (sc_repo sc)) = committed_usd (bucket_of (ps_reval (fst w3)) (sc_repo sc)) + est_usd e)
    \<and> committed_usd (bucket_of (ps_repos (fst w1)) (sc_repo sc)) + est_usd e \<le> repo_ceiling cf sc + USD_EPSILON
    \<and> committed_usd (bucket_of (ps_repos (fst w')) (sc_repo sc)) = committed_usd (bucket_of (ps_repos (fst w3)) (sc_repo sc)) + est_usd e
    \<and> (\<forall>i. sc_wave sc = Some i \<longrightarrow>
         committed_usd (bucket_of (ps_waves (fst w1)) i) + est_usd e \<le> wave_max_usd (cf_ceilings cf) (sc_wave_members sc) + USD_EPSILON
         \<and> committed_usd (bucket_of (ps_waves (fst w')) i) = committed_usd (bucket_of (ps_waves (fst w3)) i) + est_usd e)"
proof -
  obtain w1 db w3 where a: "admit_dispatch cf e sc (tk_open t) w = (w1, None)"
    and s: "store_reserve cf e sc t (snd (tk_before_store t w1)) = Inr db"
    and w3: "w3 = tk_after_store t (fst (tk_before_store t w1), db)"
    and w': "w' = (hold (grant e sc t) (fst w3), snd w3)" and r: "r = grant e sc t"
    by (rule attempt_Granted[OF assms])
  note sub = admit_dispatch_None(3-6)[OF a]
  note s' = s[unfolded store_reserve_def]
  have d: "\<exists>row b v. get_repo_budget db (cf_run cf) (sc_repo sc) = Some row \<and> rl_spent row + rl_reserved row \<le> rl_max row
         \<and> get_budget db (cf_run cf) = Some b \<and> bl_spent b + bl_reserved b \<le> bl_max b \<and> \<not> bl_halted b
         \<and> get_reservation db (cf_run cf) (rs_id r) = Some v \<and> rv_state v = HELD \<and> rv_amount v = est_usd e"
    using reserve_rows[OF s'] reserve_shape(2)[OF s'] by (simp add: get_reservation_def r grant_def)
  show ?thesis
    apply (rule exI[of _ w1], rule exI[of _ db], rule exI[of _ w3])
    using a s w3 d sub unfolding w' r
    by (auto simp: hold_def on_scope_def grant_def bucket_of_update hold_usd_def hold_tokens_def committed_usd_def committed_tokens_def
        task_breached_def reval_breached_def repo_breached_def wave_breached_def not_less algebra_simps)
qed

section \<open>Waiting\<close>

lemma or_refuse_Inl: "or_refuse e r = Inl x \<longleftrightarrow> r = Inl x \<or> (r = Inr None \<and> x = e)"
  by (cases r) (auto simp: or_refuse_def split: option.splits)

lemma map_sum_Inl [simp]: "map_sum id Some r = Inl x \<longleftrightarrow> r = Inl x"
  by (cases r) auto

lemma repo_sql_refuses:
  assumes "reserve_repo_sql db k amount expiry now = Inr None" and "dict_get (db_repo db) k = Some r"
  shows "rl_max r < rl_spent r + rl_reserved r + amount"
  using assms by (auto simp: reserve_repo_sql_def put_repo_def split: if_splits)

lemma sql_errors:
  "insert_reservation db rid v = Inl x \<Longrightarrow> x = IntegrityViolation"
  "reserve_repo_sql db k amount expiry now = Inl x \<Longrightarrow> x = IntegrityViolation"
  "reserve_run_sql db run amount expiry now = Inl x \<Longrightarrow> x = IntegrityViolation"
  by (auto simp: insert_reservation_def reserve_repo_sql_def put_repo_def reserve_run_sql_def put_budget_def
      split: if_splits option.splits)

lemma repo_refusal:
  assumes "reserve_repo_budget db run repo rid amount now expires phase fence = Inl RepoBudgetRefused"
    and "get_repo_budget db run repo = Some r"
  shows "rl_max r < rl_spent r + rl_reserved r + amount"
proof -
  obtain db1 where i: "insert_reservation db rid \<lparr>rv_run = run, rv_repo = repo, rv_phase = phase, rv_fence = fence, rv_amount = amount,
              rv_state = HELD, rv_expires = expires, rv_created = now\<rparr> = Inr (Some db1)"
    and s: "reserve_repo_sql db1 (run, repo) amount (held_expiry_repo db1 (run, repo)) now = Inr None"
    using assms(1)
    by (auto simp: reserve_repo_budget_def rbind_Inl_iff or_refuse_Inl run_refusal_def dest: sql_errors split: if_splits)
  then show ?thesis
    using repo_sql_refuses[OF s, of r] assms(2) by (simp add: insert_reservation_Inr get_repo_budget_def)
qed

lemma run_refusal_row:
  assumes "reserve_repo_budget db run repo rid amount now expires phase fence = Inl BudgetRefused"
    and "get_budget db run = Some b" and "\<not> bl_halted b"
  shows "bl_max b < bl_spent b + bl_reserved b + amount"
proof -
  obtain db1 db2 where i: "insert_reservation db rid \<lparr>rv_run = run, rv_repo = repo, rv_phase = phase, rv_fence = fence, rv_amount = amount,
              rv_state = HELD, rv_expires = expires, rv_created = now\<rparr> = Inr (Some db1)"
    and s: "reserve_repo_sql db1 (run, repo) amount (held_expiry_repo db1 (run, repo)) now = Inr (Some db2)"
    and q: "reserve_run_sql db2 run amount (held_expiry_run db2 run) now = Inr None" "run_refusal (get_budget db2 run) = BudgetRefused"
    using assms(1)
    by (auto simp: reserve_repo_budget_def rbind_Inl_iff or_refuse_Inl dest: sql_errors split: if_splits)
  have "get_budget db2 run = Some b"
    using i s assms(2) by (auto simp: insert_reservation_Inr reserve_repo_sql_Inr get_budget_def)
  then show ?thesis
    using q assms(3)
    by (auto simp: reserve_run_sql_def run_refusal_def call_ceiling_refused_def call_fits_def put_budget_def split: if_splits option.splits)
qed


lemma after_refusal_Backpressure:
  assumes "after_refusal cf e sc t err w = (w', Backpressure)"
  shows "w' = w"
    and "err = RepoBudgetRefused \<and> interpret_repo_refusal cf e sc (snd w) = None
       \<or> err = BudgetRefused \<and> interpret_refusal cf e (tk_halt t) w = (w, None)"
  using assms
  by (auto simp: after_refusal_def interpret_refusal_def split: ledger_error.splits option.splits prod.splits if_splits)

text \<open>
  A caller waits only for money that others hold. When an attempt ends in backpressure, the store refused it because the
  repository or the run ledger had no room beside its reservations, and when the caller looked at that
  ledger again the spent money alone left room for the estimate, up to the tolerance.
\<close>

theorem waits_only_for_held_money:
  assumes "reserve_attempt cf e sc t w = (w', Backpressure)"
  shows "\<exists>v. w' = tk_after_store t v
     \<and> ((\<exists>row. get_repo_budget (snd w') (cf_run cf) (sc_repo sc) = Some row \<and> rl_spent row + est_usd e \<le> rl_max row + USD_EPSILON)
          \<and> (\<forall>row. get_repo_budget (snd v) (cf_run cf) (sc_repo sc) = Some row \<longrightarrow> rl_max row < rl_spent row + rl_reserved row + est_usd e)
        \<or> (\<exists>b. get_budget (snd w') (cf_run cf) = Some b \<and> bl_halted b = False \<and> bl_spent b + est_usd e \<le> bl_max b + USD_EPSILON)
          \<and> (\<forall>b. get_budget (snd v) (cf_run cf) = Some b \<and> bl_halted b = False \<longrightarrow> bl_max b < bl_spent b + bl_reserved b + est_usd e))"
  using assms
proof (cases rule: attempt_cases)
  case (refused w1 err)
  define v where "v = tk_before_store t w1"
  note s = refused(2)[unfolded store_reserve_def, folded v_def]
  note bp = after_refusal_Backpressure[OF refused(3)[folded v_def]]
  from bp(2) show ?thesis
  proof
    assume r: "err = RepoBudgetRefused \<and> interpret_repo_refusal cf e sc (snd (tk_after_store t v)) = None"
    then have "\<exists>row. get_repo_budget (snd w') (cf_run cf) (sc_repo sc) = Some row \<and> rl_spent row + est_usd e \<le> rl_max row + USD_EPSILON"
      unfolding bp(1) by (auto simp: interpret_repo_refusal_def not_less split: option.splits if_splits)
    with repo_refusal[of "snd v" "cf_run cf" "sc_repo sc"] s r bp(1) show ?thesis by blast
  next
    assume r: "err = BudgetRefused \<and> interpret_refusal cf e (tk_halt t) (tk_after_store t v) = (tk_after_store t v, None)"
    then have "\<exists>b. get_budget (snd w') (cf_run cf) = Some b \<and> bl_halted b = False \<and> bl_spent b + est_usd e \<le> bl_max b + USD_EPSILON"
      unfolding bp(1) by (auto simp: interpret_refusal_def not_less split: option.splits if_splits prod.splits)
    with run_refusal_row[of "snd v" "cf_run cf" "sc_repo sc"] s r bp(1) show ?thesis by blast
  qed
qed simp_all

text \<open>
  A reservation call ends. Once the monotonic clock is read at or after the deadline the loop has
  returned, with a reservation or with an error, whatever other tasks did to the ledgers while it waited.
\<close>

theorem reserve_ends_by_deadline:
  assumes "t \<in> set ts" and "started + (case timeout of None \<Rightarrow> cf_wait_timeout cf | Some s \<Rightarrow> s) \<le> tk_mono t"
  shows "\<exists>w' res. reserve cf e sc timeout started ts w = Some (w', res)"
proof -
  have "reserve_loop cf e sc d ts w \<noteq> None" if "t \<in> set ts" "d \<le> tk_mono t" for d
    using that
  proof (induction ts arbitrary: w)
    case (Cons u ts)
    obtain w1 x where a: "reserve_attempt cf e sc u w = (w1, x)" by (rule prod.exhaust)
    show ?case
      using Cons.prems Cons.IH[of "tk_meanwhile u w1"] a by (cases x) auto
  qed simp
  then have "reserve cf e sc timeout started ts w \<noteq> None" using assms unfolding reserve_def by blast
  then show ?thesis by (metis not_None_eq surj_pair)
qed

lemma attempt_never_times_out: "reserve_attempt cf e sc t w \<noteq> (w', Raised (Breach BackpressureTimeout))"
proof
  assume "reserve_attempt cf e sc t w = (w', Raised (Breach BackpressureTimeout))"
  then show False
    by (cases rule: attempt_cases)
      (auto simp: admit_dispatch_def refuse_if_halted_def check_subceilings_def after_refusal_def interpret_refusal_def halt_ledger_def
        interpret_repo_refusal_def Let_def split: option.splits sum.splits if_splits prod.splits ledger_error.splits)
qed

lemma timeout_is_late:
  "reserve_loop cf e sc d ts w = Some (w', Inl (Breach BackpressureTimeout)) \<Longrightarrow> \<exists>t \<in> set ts. d \<le> tk_mono t"
proof (induction ts arbitrary: w)
  case (Cons t ts)
  obtain w1 x where a: "reserve_attempt cf e sc t w = (w1, x)" by (rule prod.exhaust)
  show ?case
  proof (cases x)
    case Backpressure
    then show ?thesis using Cons.IH[of "tk_meanwhile t w1"] Cons.prems a by (auto split: if_splits)
  next
    case (Raised err)
    then show ?thesis using Cons.prems a attempt_never_times_out[of cf e sc t w w1] by simp
  qed (use Cons.prems a in simp)
qed simp

section \<open>A halt stops every dispatch\<close>

lemma ensure_write:
  assumes "ensure_repo_ledger cf sc now w = Inr w1"
  shows "snd w1 = snd w \<or> (\<exists>op. (\<forall>ru. \<not> raises ru op) \<and> ledger_write (snd w) op = Inr (snd w1))"
proof -
  have "snd w1 = snd w \<or> ledger_write (snd w) (OpenRepo (cf_run cf) (sc_repo sc) (repo_ceiling cf sc) now
      (revalidation_max_usd (cf_ceilings cf))) = Inr (snd w1)"
    using assms by (auto simp: ensure_repo_ledger_def Let_def rbind_Inr_iff split: if_splits)
  moreover have "\<not> raises ru (OpenRepo (cf_run cf) (sc_repo sc) (repo_ceiling cf sc) now (revalidation_max_usd (cf_ceilings cf)))" for ru
    by (simp add: raises_def)
  ultimately show ?thesis by blast
qed

lemma admit_halted:
  assumes "admit_dispatch cf e sc now w = (w1, x)" and "halted_run run (snd w)"
  shows "halted_run run (snd w1)"
proof -
  have "snd w1 = snd w \<or> ensure_repo_ledger cf sc now w = Inr w1"
    using assms(1) by (auto simp: admit_dispatch_def split: option.splits sum.splits)
  then show ?thesis
    using ensure_write[of cf sc now w w1] write_budget(2) assms(2) by metis
qed

lemma halt_ledger_halted:
  assumes "halt_ledger cf reason now w = (w1, x)" and "halted_run run (snd w)"
  shows "halted_run run (snd w1)"
proof -
  have "snd w1 = snd w \<or> ledger_write (snd w) (Halt (cf_run cf) now) = Inr (snd w1)"
    using assms(1) by (auto simp: halt_ledger_def Let_def split: sum.splits)
  moreover have "\<not> raises run (Halt (cf_run cf) now)" by (simp add: raises_def)
  ultimately show ?thesis using assms(2) write_budget(2) by metis
qed

text \<open>
  What others do to the ledgers in the pauses of an attempt are ledger writes, and the operator does not raise the
  ceiling of the run in them.
\<close>

definition others_write :: "string \<Rightarrow> (world \<Rightarrow> world) \<Rightarrow> bool" where
  "others_write run pause \<longleftrightarrow>
     (\<forall>v. \<exists>ops. list_all (\<lambda>op. \<not> raises run op) ops \<and> snd (pause v) = replay ledger_write (snd v) ops)"

definition unraised :: "string \<Rightarrow> tick \<Rightarrow> bool" where
  "unraised run t \<longleftrightarrow> others_write run (tk_before_store t) \<and> others_write run (tk_after_store t) \<and> others_write run (tk_meanwhile t)"

lemma pause_halted: "others_write run pause \<Longrightarrow> halted_run run (snd v) \<Longrightarrow> halted_run run (snd (pause v))"
proof -
  assume o: "others_write run pause" and h: "halted_run run (snd v)"
  from o obtain ops where ops: "list_all (\<lambda>op. \<not> raises run op) ops" "snd (pause v) = replay ledger_write (snd v) ops"
    unfolding others_write_def by blast
  show "halted_run run (snd (pause v))"
    unfolding ops(2) by (rule halt.replay_invar[OF h]) (use ops(1) in \<open>auto simp: list_all_iff\<close>)
qed

lemma attempt_halted:
  assumes "reserve_attempt cf e sc t w = (w', x)" and "halted_run (cf_run cf) (snd w)" and "unraised (cf_run cf) t"
  shows "halted_run (cf_run cf) (snd w')" and "x \<noteq> Granted r"
proof -
  note pauses = assms(3)[unfolded unraised_def]
  have "halted_run (cf_run cf) (snd w') \<and> x \<noteq> Granted r"
    using assms(1)
  proof (cases rule: attempt_cases)
    case (stopped err)
    then show ?thesis using admit_halted[OF stopped(1) assms(2)] by simp
  next
    case (refused w1 err)
    define w2 where "w2 = tk_after_store t (tk_before_store t w1)"
    have h: "halted_run (cf_run cf) (snd w2)"
      unfolding w2_def using admit_halted[OF refused(1) assms(2)] pauses by (blast intro: pause_halted)
    have "snd w' = snd w2 \<or> (\<exists>reason y. halt_ledger cf reason (tk_halt t) w2 = (w', y))"
      using refused(3)[folded w2_def]
      by (auto simp: after_refusal_def interpret_refusal_def split: ledger_error.splits option.splits prod.splits if_splits)
    with h have "halted_run (cf_run cf) (snd w')" using halt_ledger_halted by metis
    then show ?thesis using refused(3) after_refusal_not_Granted by blast
  next
    case (granted w1 db w3)
    have "halted_run (cf_run cf) (snd (tk_before_store t w1))"
      using admit_halted[OF granted(1) assms(2)] pauses by (blast intro: pause_halted)
    then show ?thesis
      using reserve_shape(3)[OF granted(2)[unfolded store_reserve_def]] by (auto simp: halted_run_def)
  qed
  then show "halted_run (cf_run cf) (snd w')" and "x \<noteq> Granted r" by blast+
qed

text \<open>
  C24: Once the run is halted in the store no dispatch of it is granted, in this process or another, however long the
  caller waits and whatever ledger writes of other workers, reopened ledgers included, come between its attempts and
  in the pauses of an attempt, as long as the operator does not raise the ceiling of the run, which is the
  documented way out of a halt.
\<close>

theorem halted_run_grants_nothing:
  assumes "halted_run (cf_run cf) (snd w)" and "\<forall>t \<in> set ts. unraised (cf_run cf) t"
  shows "reserve cf e sc timeout started ts w \<noteq> Some (w', Inr r)"
proof -
  have "reserve_loop cf e sc d ts w \<noteq> Some (w', Inr r)" for d
    using assms
  proof (induction ts arbitrary: w)
    case (Cons t ts)
    obtain w1 x where a: "reserve_attempt cf e sc t w = (w1, x)" by (rule prod.exhaust)
    have u: "unraised (cf_run cf) t" using Cons.prems(2) by simp
    have x: "x \<noteq> Granted r" and "halted_run (cf_run cf) (snd w1)"
      using attempt_halted[OF a Cons.prems(1) u] by blast+
    then have "halted_run (cf_run cf) (snd (tk_meanwhile t w1))" using u by (auto simp: unraised_def intro: pause_halted)
    then have "reserve_loop cf e sc d ts (tk_meanwhile t w1) \<noteq> Some (w', Inr r)" using Cons by simp
    then show ?case using a x by (cases x) auto
  qed simp
  then show ?thesis unfolding reserve_def by blast
qed


section \<open>Books of the process\<close>

lemma bucket_update_twice: "bucket_update f k (bucket_update g k d) = bucket_update (f \<circ> g) k d"
  by (simp add: bucket_update_def bucket_of_def dict_set_twice)

definition spend_usd :: "cost_estimate \<Rightarrow> bucket \<Rightarrow> bucket" where
  "spend_usd a b = b\<lparr>bk_spent := bk_spent b + est_usd a\<rparr>"

definition spend_tokens :: "cost_estimate \<Rightarrow> bucket \<Rightarrow> bucket" where
  "spend_tokens a b = b\<lparr>bk_spent_tokens := bk_spent_tokens b + est_tokens a\<rparr>"

definition scope_ok :: "spend_scope \<Rightarrow> policy \<Rightarrow> bool" where
  "scope_ok sc ps \<longleftrightarrow> 0 \<le> bk_reserved (bucket_of (ps_repos ps) (sc_repo sc)) \<and> 0 \<le> bk_reserved (bucket_of (ps_reval ps) (sc_repo sc))
     \<and> (case sc_wave sc of None \<Rightarrow> True | Some i \<Rightarrow> 0 \<le> bk_reserved (bucket_of (ps_waves ps) i))
     \<and> (case sc_task sc of None \<Rightarrow> True | Some i \<Rightarrow> 0 \<le> bk_reserved_tokens (bucket_of (ps_tasks ps) i))"

lemma bucket_update_cong: "f (bucket_of d k) = g (bucket_of d k) \<Longrightarrow> bucket_update f k d = bucket_update g k d"
  by (simp add: bucket_update_def)

text \<open>
  Releasing what was held leaves exactly the spend. A hold followed by its release at some actual cost changes
  every bucket of the scope as booking that cost alone would, whether the estimate was too high or too
  low, and no other bucket.
\<close>

theorem release_undoes_hold:
  assumes "scope_ok (rs_scope r) ps"
  shows "release r a (hold r ps) = on_scope (rs_scope r) (spend_usd a) (spend_tokens a) ps"
proof -
  have u: "bucket_update (release_usd (rs_estimate r) a \<circ> hold_usd (rs_estimate r)) k d = bucket_update (spend_usd a) k d"
    if "0 \<le> bk_reserved (bucket_of d k)" for d :: "('k, bucket) dict" and k
    using that by (intro bucket_update_cong) (simp add: release_usd_def hold_usd_def spend_usd_def)
  have t: "bucket_update (release_tokens (rs_estimate r) a \<circ> hold_tokens (rs_estimate r)) k d = bucket_update (spend_tokens a) k d"
    if "0 \<le> bk_reserved_tokens (bucket_of d k)" for d :: "('k, bucket) dict" and k
    using that by (intro bucket_update_cong) (simp add: release_tokens_def hold_tokens_def spend_tokens_def)
  show ?thesis
    using assms unfolding release_def hold_def scope_ok_def
    by (auto simp: on_scope_def bucket_update_twice u t split: option.splits)
qed

text \<open>
  A process that first touches a repository starts from what earlier processes spent on it: the
  buckets its checks use are seeded with the spend and the revalidation spend of the durable row.
\<close>

theorem first_touch_seeds_durable_spend:
  assumes "ensure_repo_ledger cf sc now w = Inr w'" and "dict_get (ps_repo_ceilings (fst w)) (sc_repo sc) = None"
  shows "\<exists>row. get_repo_budget (snd w') (cf_run cf) (sc_repo sc) = Some row
     \<and> repo_spent_usd (fst w') (sc_repo sc) = rl_spent row
     \<and> bk_spent (bucket_of (ps_reval (fst w')) (sc_repo sc)) = rl_reval row
     \<and> repo_ceiling cf sc \<le> rl_max row
     \<and> (\<forall>old. get_repo_budget (snd w) (cf_run cf) (sc_repo sc) = Some old \<longrightarrow> rl_spent row = rl_spent old \<and> rl_reval row = rl_reval old)"
proof -
  obtain db where o: "open_repo_ledger (snd w) (cf_run cf) (sc_repo sc) (repo_ceiling cf sc) now (revalidation_max_usd (cf_ceilings cf)) = Inr db"
    and w': "w' = (seed_buckets (sc_repo sc) (get_repo_budget db (cf_run cf) (sc_repo sc))
        ((fst w)\<lparr>ps_repo_ceilings := dict_set (ps_repo_ceilings (fst w)) (sc_repo sc) (repo_ceiling cf sc)\<rparr>), db)"
    using assms by (auto simp: ensure_repo_ledger_def Let_def rbind_Inr_iff)
  have "\<exists>row. get_repo_budget db (cf_run cf) (sc_repo sc) = Some row \<and> repo_ceiling cf sc \<le> rl_max row
     \<and> (\<forall>old. get_repo_budget (snd w) (cf_run cf) (sc_repo sc) = Some old \<longrightarrow> rl_spent row = rl_spent old \<and> rl_reval row = rl_reval old)"
    using o by (auto simp: open_repo_ledger_def get_repo_budget_def Let_def split: if_splits option.splits)
  then show ?thesis
    by (auto simp: w' seed_buckets_def repo_spent_usd_def bucket_of_update)
qed

text \<open>
  The repository ceiling grows with the blast radius from the configured base to the configured cap, for any
  logarithm that is monotone and \<open>0\<close> at \<open>1\<close>.
\<close>

theorem repo_ceiling_scales:
  assumes "log2 1 = 0" and "\<forall>i j. 1 \<le> i \<and> i \<le> j \<longrightarrow> log2 i \<le> log2 j" and "0 \<le> repo_max_usd c"
    and "b1 \<le> b2"
  shows "repo_max_usd_for log2 c b1 \<le> repo_max_usd_for log2 c b2
     \<and> repo_max_usd_for log2 c b2 \<le> repo_max_ceiling_usd c
     \<and> (repo_max_usd c \<le> repo_max_ceiling_usd c \<longrightarrow> repo_max_usd c \<le> repo_max_usd_for log2 c b1)
     \<and> repo_max_usd_for log2 c 0 = min (repo_max_usd c) (repo_max_ceiling_usd c)"
proof -
  have m: "log2 (1 + max b1 0) \<le> log2 (1 + max b2 0)" using assms(2,4) by simp
  have "log2 1 \<le> log2 (1 + max b1 0)" using assms(2) by simp
  then have p: "0 \<le> log2 (1 + max b1 0)" using assms(1) by simp
  have "repo_max_usd c * (1 + log2 (1 + max b1 0)) \<le> repo_max_usd c * (1 + log2 (1 + max b2 0))"
    using m assms(3) by (intro mult_left_mono) auto
  moreover have "repo_max_usd c * 1 \<le> repo_max_usd c * (1 + log2 (1 + max b1 0))"
    using p assms(3) by (intro mult_left_mono) auto
  ultimately show ?thesis
    using assms(1) unfolding repo_max_usd_for_def by (auto simp: min_def)
qed


section \<open>Dispatch and settlement\<close>

lemma settle_finishes:
  assumes "settle cf r actual now w = Inr (w', r')"
  shows "finished_hold (rs_id r) (snd w')" and "rs_settled r'" and "rs_id r' = rs_id r"
proof -
  obtain spend where s: "settle_repo_budget (snd w) (cf_run cf) (sc_repo (rs_scope r)) (rs_id r) (est_usd (rs_estimate r))
      spend now (sc_kind (rs_scope r) = REVALIDATION) = Inr (snd w')"
    and r': "rs_settled r'" "rs_id r' = rs_id r"
    using assms by (auto simp: settle_def Let_def split: if_splits sum.splits)
  show "finished_hold (rs_id r) (snd w')"
    by (rule settle_effect[OF s]) (simp add: finished_hold_def)
  show "rs_settled r'" "rs_id r' = rs_id r" by (fact r')+
qed

lemma reserve_loop_Inr:
  assumes "reserve_loop cf e sc d ts w = Some (w', Inr r)"
  shows "\<exists>t \<in> set ts. \<exists>v. reserve_attempt cf e sc t v = (w', Granted r)"
  using assms
proof (induction ts arbitrary: w)
  case (Cons t ts)
  obtain w1 x where a: "reserve_attempt cf e sc t w = (w1, x)" by (rule prod.exhaust)
  show ?case
  proof (cases x)
    case Backpressure
    then show ?thesis using Cons.IH[of "tk_meanwhile t w1"] Cons.prems a by (auto split: if_splits)
  next
    case (Granted q)
    then have "reserve_attempt cf e sc t w = (w', Granted r)" using Cons.prems a by simp
    then show ?thesis by (meson list.set_intros(1))
  qed (use Cons.prems a in simp)
qed simp

text \<open>
  A dispatch that returns leaves no hold behind. Whatever the body did, as long as it hands back the same
  unsettled reservation, the reservation that was granted under one of the minted ids is settled in the
  store and is marked settled in the process.
\<close>

theorem dispatch_leaves_no_hold:
  assumes "dispatch cf e sc deadline timeout started ts settle_now body w = Some (Inr (w', r'))"
    and "\<forall>r budget v. \<not> rs_settled r \<longrightarrow> \<not> rs_settled (snd (body r budget v)) \<and> rs_id (snd (body r budget v)) = rs_id r"
  shows "rs_settled r' \<and> rs_id r' \<in> tk_id ` set ts \<and> finished_hold (rs_id r') (snd w')"
proof -
  obtain w1 r where res: "reserve cf e sc timeout started ts w = Some (w1, Inr r)"
    using assms(1) by (auto simp: dispatch_def split: option.splits prod.splits sum.splits)
  obtain t v where t: "t \<in> set ts" "reserve_attempt cf e sc t v = (w1, Granted r)"
    using reserve_loop_Inr[OF res[unfolded reserve_def]] by blast
  have r: "r = grant e sc t" by (rule attempt_Granted[OF t(2)])
  obtain ps budget where b: "call_budget_for cf sc deadline w1 = Inr (ps, budget)"
    using assms(1) res by (auto simp: dispatch_def rbind_Inr_iff)
  define w2 where "w2 = fst (body r budget (ps, snd w1))"
  define r2 where "r2 = snd (body r budget (ps, snd w1))"
  have body: "body r budget (ps, snd w1) = (w2, r2)" by (simp add: w2_def r2_def)
  have r2: "\<not> rs_settled r2" "rs_id r2 = rs_id r"
    using assms(2) r unfolding r2_def by (simp_all add: grant_def)
  have "settle cf r2 None settle_now w2 = Inr (w', r')"
    using assms(1) res b body r2 by (simp add: dispatch_def)
  from settle_finishes[OF this] r2 r t(1) show ?thesis by (simp add: grant_def)
qed

text \<open>
  A call that costs more than the ceiling has left is not booked at all. When the actual cost does not fit the
  repository ledger beside its other holds, the settlement is refused and both ledgers stay as they were, so the
  money that was paid is missing from the spend and its hold is given back by the reaper.
\<close>

theorem overrun_is_not_booked:
  assumes "rs_settled r = False"
    and "get_repo_budget (snd w) (cf_run cf) (sc_repo (rs_scope r)) = Some row"
    and "dict_get (db_res (snd w)) (rs_id r) = Some v" and "rv_run v = cf_run cf" and "rv_repo v = sc_repo (rs_scope r)"
    and "rv_state v = HELD" and "rv_amount v = est_usd (rs_estimate r)"
    and "rl_max row < rl_spent row + est_usd a + max (rl_reserved row - est_usd (rs_estimate r)) 0"
  shows "settle cf r (Some a) now w = Inl (StoreError RepoBudgetRefused)"
proof -
  have "settle_reservation_sql (snd w) (rs_id r) (cf_run cf) (sc_repo (rs_scope r)) (est_usd (rs_estimate r))
      = Some ((snd w)\<lparr>db_res := dict_set (db_res (snd w)) (rs_id r) (v\<lparr>rv_state := SETTLED\<rparr>)\<rparr>)"
    using assms(3-7) by (simp add: settle_reservation_sql_def USD_EPSILON_def)
  then have "settle_repo_budget (snd w) (cf_run cf) (sc_repo (rs_scope r)) (rs_id r) (est_usd (rs_estimate r)) (est_usd a)
      now (sc_kind (rs_scope r) = REVALIDATION) = Inl RepoBudgetRefused"
    using assms(2,8)
    by (simp add: settle_repo_budget_def settle_repo_sql_def get_repo_budget_def or_refuse_def rbind_unfold)
  then show ?thesis using assms(1) by (simp add: settle_def Let_def)
qed

section \<open>Where the checks of the process fall short or go too far\<close>

text \<open>
  The wave ceiling is checked before the store is awaited and held after it, so it does not bind two dispatches that
  overlap. Two attempts of one wave that are both admitted before either is granted are both held, and the wave is
  committed to the sum of both estimates.
\<close>

theorem overlapping_grants_add_up:
  assumes "admit_dispatch cf e1 sc1 n1 w = (w1, None)" and "admit_dispatch cf e2 sc2 n2 w1 = (w2, None)"
    and "store_reserve cf e1 sc1 t1 (snd w2) = Inr db1" and "store_reserve cf e2 sc2 t2 db1 = Inr db2"
    and "sc_wave sc1 = Some i" and "sc_wave sc2 = Some i"
  shows "committed_usd (bucket_of (ps_waves (hold (grant e2 sc2 t2) (hold (grant e1 sc1 t1) (fst w2)))) i)
     = committed_usd (bucket_of (ps_waves (fst w)) i) + est_usd e1 + est_usd e2"
proof -
  have waves: "ps_waves (fst v') = ps_waves (fst v)" if "ensure_repo_ledger cf sc n v = Inr v'" for sc n v v'
    using that by (auto simp: ensure_repo_ledger_def Let_def seed_buckets_def rbind_Inr_iff split: if_splits option.splits)
  have "ps_waves (fst w2) = ps_waves (fst w)"
    using waves[OF admit_dispatch_None(2)[OF assms(1)]] waves[OF admit_dispatch_None(2)[OF assms(2)]] by simp
  then show ?thesis
    using assms(5,6) by (simp add: hold_def on_scope_def grant_def bucket_of_update hold_usd_def committed_usd_def)
qed

text \<open>
  The repository check counts money its own process merely holds, and gives the repository up for it. When the
  bucket's spend and holds leave no room, the call fails at once with the error that sends the
  repository to a human, even if the spend alone leaves room and the holds would be released.
\<close>

theorem own_hold_ends_the_repo:
  assumes "ps_halted (fst w) = False" and "ensure_repo_ledger cf sc (tk_open t) w = Inr w1"
    and "task_breached cf e sc (fst w1) = False" and "reval_breached cf e sc (fst w1) = False"
    and "repo_ceiling cf sc + USD_EPSILON
           < bk_spent (bucket_of (ps_repos (fst w1)) (sc_repo sc)) + bk_reserved (bucket_of (ps_repos (fst w1)) (sc_repo sc)) + est_usd e"
  shows "reserve cf e sc timeout started (t # ts) w = Some (w1, Inl (Breach RepoBudgetExhausted))"
proof -
  have "repo_breached cf e sc (fst w1)" using assms(5) by (simp add: repo_breached_def committed_usd_def)
  then have "admit_dispatch cf e sc (tk_open t) w = (w1, Some (Breach RepoBudgetExhausted))"
    using assms by (simp add: admit_dispatch_def refuse_if_halted_def check_subceilings_def)
  then have "reserve_attempt cf e sc t w = (w1, Raised (Breach RepoBudgetExhausted))"
    by (simp add: reserve_attempt_def)
  then show ?thesis by (simp add: reserve_def)
qed


section \<open>Witnesses\<close>

definition demo_log2 :: "int \<Rightarrow> rat" where
  "demo_log2 n = (if n < 2 then 0 else 1)"

definition demo_cf :: ledger_config where
  "demo_cf = \<lparr>cf_run = ''r'', cf_ceilings = \<lparr>run_max_usd = 20, run_max_calls = None, wave_max_usd_per_repo = 5, repo_max_usd = 6,
       repo_max_ceiling_usd = 30, revalidation_max_usd = 2, max_revalidation_rounds = 2, task_max_tokens = 1000\<rparr>,
     cf_wait_timeout = 10, cf_wait_poll = 1 / 4, cf_ttl = None, cf_log2 = demo_log2\<rparr>"

definition demo_scope :: spend_scope where
  "demo_scope = \<lparr>sc_repo = ''a'', sc_task = Some ''t'', sc_wave = Some 0, sc_wave_members = 1, sc_blast = 0, sc_kind = NORMAL,
     sc_phase = None, sc_fence = None\<rparr>"

definition demo_est :: "rat \<Rightarrow> cost_estimate" where
  "demo_est usd = \<lparr>est_in = 100, est_out = 50, est_usd = usd\<rparr>"

definition demo_tick :: "string \<Rightarrow> rat \<Rightarrow> tick" where
  "demo_tick rid s = \<lparr>tk_open = 1, tk_now = 1, tk_expiry = 1, tk_granted = 1, tk_halt = 1, tk_mono = s, tk_id = rid,
     tk_before_store = id, tk_after_store = id, tk_meanwhile = id\<rparr>"

definition demo_world :: "rat \<Rightarrow> world" where
  "demo_world budget = (new_policy, replay ledger_write demo_store [OpenRun ''r'' budget None 0])"

text \<open>A world in which the first call holds \<open>4\<close>.\<close>

definition demo_busy :: "rat \<Rightarrow> world" where
  "demo_busy budget = fst (reserve_attempt demo_cf (demo_est 4) demo_scope (demo_tick ''h1'' 0) (demo_world budget))"

definition is_granted :: "attempt \<Rightarrow> bool" where
  "is_granted x = (case x of Granted _ \<Rightarrow> True | _ \<Rightarrow> False)"

definition is_waiting :: "attempt \<Rightarrow> bool" where
  "is_waiting x = (case x of Backpressure \<Rightarrow> True | _ \<Rightarrow> False)"

definition demo_samples :: token_estimator where
  "demo_samples = (new_estimator [])\<lparr>te_min_samples := 2, te_samples := [((''fix'', HEAVY), [(5000, 10), (6000, 20)])]\<rparr>"

theorem estimate_is_floored_p95_witness:
  "\<exists>e. estimate demo_samples (PerMtok 3 15) ''fix'' HEAVY = Some e \<and> est_in e \<ge> 4000 \<and> est_out e \<ge> 1000"
proof -
  have "te_min_samples demo_samples \<le> sample_count demo_samples ''fix'' HEAVY" "0 < sample_count demo_samples ''fix'' HEAVY"
    and f: "floor_for demo_samples ''fix'' HEAVY = (4000, 1000)"
    by code_simp+
  from estimate_is_floored_p95[OF this(1,2), of "PerMtok 3 15"] show ?thesis unfolding f by (auto simp: max_def)
qed

theorem grant_fits_every_ceiling_witness:
  "is_granted (snd (reserve_attempt demo_cf (demo_est 4) demo_scope (demo_tick ''h1'' 0) (demo_world 20)))
   \<and> (\<exists>w1. admit_dispatch demo_cf (demo_est 4) demo_scope 1 (demo_world 20) = (w1, None)
        \<and> committed_usd (bucket_of (ps_waves (fst w1)) 0) + 4 \<le> wave_max_usd (cf_ceilings demo_cf) 1 + USD_EPSILON)"
proof -
  have g: "is_granted (snd (reserve_attempt demo_cf (demo_est 4) demo_scope (demo_tick ''h1'' 0) (demo_world 20)))"
    by code_simp
  then obtain r where "reserve_attempt demo_cf (demo_est 4) demo_scope (demo_tick ''h1'' 0) (demo_world 20) = (demo_busy 20, Granted r)"
    by (cases "reserve_attempt demo_cf (demo_est 4) demo_scope (demo_tick ''h1'' 0) (demo_world 20)")
      (auto simp: is_granted_def demo_busy_def split: attempt.splits)
  from grant_fits_every_ceiling[OF this]
  obtain w1 where "admit_dispatch demo_cf (demo_est 4) demo_scope (tk_open (demo_tick ''h1'' 0)) (demo_world 20) = (w1, None)"
    and "\<forall>i. sc_wave demo_scope = Some i \<longrightarrow> committed_usd (bucket_of (ps_waves (fst w1)) i) + est_usd (demo_est 4)
        \<le> wave_max_usd (cf_ceilings demo_cf) (sc_wave_members demo_scope) + USD_EPSILON"
    by blast
  moreover have "sc_wave demo_scope = Some 0" "sc_wave_members demo_scope = 1" "est_usd (demo_est 4) = 4" "tk_open (demo_tick ''h1'' 0) = 1"
    by (simp_all add: demo_scope_def demo_est_def demo_tick_def)
  ultimately show ?thesis using g by simp
qed

text \<open>The run has \<open>5\<close>, another process holds \<open>4\<close> of it: a call for \<open>2\<close> waits.\<close>

definition demo_shared :: world where
  "demo_shared = (new_policy, snd (demo_busy 5))"

theorem waits_only_for_held_money_witness:
  "is_waiting (snd (reserve_attempt demo_cf (demo_est 2) demo_scope (demo_tick ''h2'' 0) demo_shared))
   \<and> (\<exists>b. get_budget (snd demo_shared) ''r'' = Some b \<and> bl_spent b + 2 \<le> bl_max b \<and> bl_max b < bl_spent b + bl_reserved b + 2)"
proof -
  have p: "is_waiting (snd (reserve_attempt demo_cf (demo_est 2) demo_scope (demo_tick ''h2'' 0) demo_shared))" by code_simp
  then obtain w' where w: "reserve_attempt demo_cf (demo_est 2) demo_scope (demo_tick ''h2'' 0) demo_shared = (w', Backpressure)"
    by (cases "reserve_attempt demo_cf (demo_est 2) demo_scope (demo_tick ''h2'' 0) demo_shared")
      (auto simp: is_waiting_def split: attempt.splits)
  have "case get_budget (snd demo_shared) ''r'' of None \<Rightarrow> False
      | Some b \<Rightarrow> bl_spent b + 2 \<le> bl_max b \<and> bl_max b < bl_spent b + bl_reserved b + 2" by code_simp
  with p waits_only_for_held_money[OF w] show ?thesis by (auto split: option.splits)
qed

theorem reserve_ends_by_deadline_witness:
  "\<exists>w' res. reserve demo_cf (demo_est 2) demo_scope (Some 5) 0 [demo_tick ''h2'' 0, demo_tick ''h3'' 5] demo_shared = Some (w', res)"
  by (rule reserve_ends_by_deadline[of "demo_tick ''h3'' 5"]) (simp_all add: demo_tick_def)

definition demo_halted :: world where
  "demo_halted = (new_policy, replay ledger_write demo_store [OpenRun ''r'' 20 None 0, Halt ''r'' 1])"


theorem halted_run_grants_nothing_witness:
  "halted_run (cf_run demo_cf) (snd demo_halted)
   \<and> (\<forall>w' r. reserve demo_cf (demo_est 2) demo_scope None 0 [demo_tick ''h2'' 0] demo_halted \<noteq> Some (w', Inr r))"
proof -
  have h: "halted_run (cf_run demo_cf) (snd demo_halted)" by code_simp
  have "others_write run id" for run
    unfolding others_write_def by (intro allI exI[of _ "[]"]) simp
  then have "\<forall>t \<in> set [demo_tick ''h2'' 0]. unraised (cf_run demo_cf) t"
    by (simp add: unraised_def demo_tick_def)
  from halted_run_grants_nothing[OF h this] h show ?thesis by blast
qed

theorem release_undoes_hold_witness:
  "bk_spent (bucket_of (ps_repos (release (grant (demo_est 4) demo_scope (demo_tick ''h1'' 0)) (demo_est 1)
       (hold (grant (demo_est 4) demo_scope (demo_tick ''h1'' 0)) new_policy))) ''a'') = 1"
proof -
  have "scope_ok (rs_scope (grant (demo_est 4) demo_scope (demo_tick ''h1'' 0))) new_policy" by code_simp
  from release_undoes_hold[OF this, of "demo_est 1"] show ?thesis
    by (simp add: on_scope_def bucket_of_update spend_usd_def grant_def demo_scope_def demo_est_def new_policy_def
        bucket_of_def empty_bucket_def bucket_update_def)
qed

theorem first_touch_seeds_durable_spend_witness:
  "\<exists>w' row. ensure_repo_ledger demo_cf demo_scope 9 (new_policy, replay ledger_write demo_store demo_history) = Inr w'
     \<and> get_repo_budget (snd w') ''r'' ''a'' = Some row \<and> repo_spent_usd (fst w') ''a'' = rl_spent row"
proof -
  have "case ensure_repo_ledger demo_cf demo_scope 9 (new_policy, replay ledger_write demo_store demo_history) of Inl _ \<Rightarrow> False | Inr _ \<Rightarrow> True"
    by code_simp
  then obtain w' where w: "ensure_repo_ledger demo_cf demo_scope 9 (new_policy, replay ledger_write demo_store demo_history) = Inr w'"
    by (auto split: sum.splits)
  have "dict_get (ps_repo_ceilings (fst (new_policy, replay ledger_write demo_store demo_history))) (sc_repo demo_scope) = None"
    by (simp add: new_policy_def)
  from first_touch_seeds_durable_spend[OF w this] w show ?thesis
    by (auto simp: demo_cf_def demo_scope_def)
qed

theorem repo_ceiling_scales_witness:
  "repo_max_usd_for demo_log2 (cf_ceilings demo_cf) 0 = 6 \<and> repo_max_usd_for demo_log2 (cf_ceilings demo_cf) 7 \<le> 30"
  using repo_ceiling_scales[of demo_log2 "cf_ceilings demo_cf" 0 7]
  by (simp add: demo_log2_def demo_cf_def)

definition demo_body :: "reservation \<Rightarrow> call_budget \<Rightarrow> world \<Rightarrow> world \<times> reservation" where
  "demo_body r budget w = (w, record_actual (demo_est 1) r)"

theorem dispatch_leaves_no_hold_witness:
  "\<exists>w' r'. dispatch demo_cf (demo_est 4) demo_scope 100 None 0 [demo_tick ''h1'' 0] 2 demo_body (demo_world 20) = Some (Inr (w', r'))
     \<and> rs_settled r' \<and> finished_hold ''h1'' (snd w')"
proof -
  have "case dispatch demo_cf (demo_est 4) demo_scope 100 None 0 [demo_tick ''h1'' 0] 2 demo_body (demo_world 20) of
      Some (Inr _) \<Rightarrow> True | _ \<Rightarrow> False"
    by code_simp
  then obtain w' r' where d: "dispatch demo_cf (demo_est 4) demo_scope 100 None 0 [demo_tick ''h1'' 0] 2 demo_body (demo_world 20) = Some (Inr (w', r'))"
    by (auto split: option.splits sum.splits)
  have "\<forall>r budget v. \<not> rs_settled r \<longrightarrow> \<not> rs_settled (snd (demo_body r budget v)) \<and> rs_id (snd (demo_body r budget v)) = rs_id r"
    by (simp add: demo_body_def record_actual_def)
  from dispatch_leaves_no_hold[OF d this] d show ?thesis by (auto simp: demo_tick_def)
qed

theorem overrun_is_not_booked_witness:
  "settle demo_cf (grant (demo_est 4) demo_scope (demo_tick ''h1'' 0)) (Some (demo_est 7)) 3 (demo_busy 20)
     = Inl (StoreError RepoBudgetRefused)"
proof -
  have row: "get_repo_budget (snd (demo_busy 20)) ''r'' ''a'' = Some \<lparr>rl_spent = 0, rl_reserved = 4, rl_max = 6, rl_reval = 0,
      rl_reval_max = 2, rl_rounds = 0, rl_expires = None, rl_updated = 1\<rparr>" by code_simp
  have res: "dict_get (db_res (snd (demo_busy 20))) ''h1'' = Some \<lparr>rv_run = ''r'', rv_repo = ''a'', rv_phase = None, rv_fence = None,
      rv_amount = 4, rv_state = HELD, rv_expires = None, rv_created = 1\<rparr>" by code_simp
  show ?thesis
    by (rule overrun_is_not_booked[where row = "\<lparr>rl_spent = 0, rl_reserved = 4, rl_max = 6, rl_reval = 0,
      rl_reval_max = 2, rl_rounds = 0, rl_expires = None, rl_updated = 1\<rparr>" and v = "\<lparr>rv_run = ''r'', rv_repo = ''a'', rv_phase = None,
      rv_fence = None, rv_amount = 4, rv_state = HELD, rv_expires = None, rv_created = 1\<rparr>"])
      (simp_all add: grant_def demo_cf_def demo_scope_def demo_tick_def demo_est_def row[simplified] res[simplified])
qed

theorem own_hold_ends_the_repo_witness:
  "reserve demo_cf (demo_est 4) (demo_scope\<lparr>sc_wave := None\<rparr>) None 0 [demo_tick ''h2'' 0] (demo_busy 20)
     = Some (demo_busy 20, Inl (Breach RepoBudgetExhausted))
   \<and> repo_spent_usd (fst (demo_busy 20)) ''a'' + 4 \<le> repo_ceiling demo_cf demo_scope"
proof -
  have c: "repo_spent_usd (fst (demo_busy 20)) ''a'' + 4 \<le> repo_ceiling demo_cf demo_scope" by code_simp
  have opened: "(case dict_get (ps_repo_ceilings (fst (demo_busy 20))) (sc_repo (demo_scope\<lparr>sc_wave := None\<rparr>)) of
      None \<Rightarrow> False | Some m \<Rightarrow> repo_ceiling demo_cf (demo_scope\<lparr>sc_wave := None\<rparr>) \<le> m + USD_EPSILON)"
    by code_simp
  have e: "ensure_repo_ledger demo_cf (demo_scope\<lparr>sc_wave := None\<rparr>) (tk_open (demo_tick ''h2'' 0)) (demo_busy 20) = Inr (demo_busy 20)"
    unfolding ensure_repo_ledger_def Let_def if_P[OF opened] by (rule refl)
  have "ps_halted (fst (demo_busy 20)) = False" "task_breached demo_cf (demo_est 4) (demo_scope\<lparr>sc_wave := None\<rparr>) (fst (demo_busy 20)) = False"
    "reval_breached demo_cf (demo_est 4) (demo_scope\<lparr>sc_wave := None\<rparr>) (fst (demo_busy 20)) = False"
    "repo_ceiling demo_cf (demo_scope\<lparr>sc_wave := None\<rparr>) + USD_EPSILON
           < bk_spent (bucket_of (ps_repos (fst (demo_busy 20))) (sc_repo (demo_scope\<lparr>sc_wave := None\<rparr>)))
             + bk_reserved (bucket_of (ps_repos (fst (demo_busy 20))) (sc_repo (demo_scope\<lparr>sc_wave := None\<rparr>))) + est_usd (demo_est 4)"
    by code_simp+
  from own_hold_ends_the_repo[OF this(1) e this(2-4)] c show ?thesis by blast
qed

text \<open>Two calls for \<open>3\<close> overlap in a wave of \<open>5\<close>: both are held. One after the other, the second would be refused.\<close>

definition demo_admitted :: world where
  "demo_admitted = fst (admit_dispatch demo_cf (demo_est 3) demo_scope 1 (demo_world 20))"

theorem overlapping_grants_add_up_witness:
  "\<exists>db1 db2. store_reserve demo_cf (demo_est 3) demo_scope (demo_tick ''h1'' 0) (snd demo_admitted) = Inr db1
     \<and> store_reserve demo_cf (demo_est 3) demo_scope (demo_tick ''h2'' 0) db1 = Inr db2
     \<and> committed_usd (bucket_of (ps_waves (hold (grant (demo_est 3) demo_scope (demo_tick ''h2'' 0))
          (hold (grant (demo_est 3) demo_scope (demo_tick ''h1'' 0)) (fst demo_admitted)))) 0) = 6
     \<and> wave_max_usd (cf_ceilings demo_cf) (sc_wave_members demo_scope) = 5"
proof -
  have a1: "admit_dispatch demo_cf (demo_est 3) demo_scope 1 (demo_world 20) = (demo_admitted, None)"
    unfolding demo_admitted_def by (rule prod_eqI, simp, code_simp)
  have opened: "(case dict_get (ps_repo_ceilings (fst demo_admitted)) (sc_repo demo_scope) of
      None \<Rightarrow> False | Some m \<Rightarrow> repo_ceiling demo_cf demo_scope \<le> m + USD_EPSILON)"
    and checks: "refuse_if_halted (fst demo_admitted) = None" "check_subceilings demo_cf (demo_est 3) demo_scope (fst demo_admitted) = None"
    by code_simp+
  have "ensure_repo_ledger demo_cf demo_scope 1 demo_admitted = Inr demo_admitted"
    unfolding ensure_repo_ledger_def Let_def if_P[OF opened] by (rule refl)
  then have a2: "admit_dispatch demo_cf (demo_est 3) demo_scope 1 demo_admitted = (demo_admitted, None)"
    using checks by (simp add: admit_dispatch_def)
  have "case store_reserve demo_cf (demo_est 3) demo_scope (demo_tick ''h1'' 0) (snd demo_admitted) of
      Inl _ \<Rightarrow> False | Inr db1 \<Rightarrow> (case store_reserve demo_cf (demo_est 3) demo_scope (demo_tick ''h2'' 0) db1 of Inl _ \<Rightarrow> False | Inr _ \<Rightarrow> True)"
    by code_simp
  then obtain db1 db2 where s: "store_reserve demo_cf (demo_est 3) demo_scope (demo_tick ''h1'' 0) (snd demo_admitted) = Inr db1"
      "store_reserve demo_cf (demo_est 3) demo_scope (demo_tick ''h2'' 0) db1 = Inr db2"
    by (auto split: sum.splits)
  have "sc_wave demo_scope = Some 0" "est_usd (demo_est 3) = 3" "committed_usd (bucket_of (ps_waves (fst (demo_world 20))) 0) = 0"
    and w: "wave_max_usd (cf_ceilings demo_cf) (sc_wave_members demo_scope) = 5"
    by code_simp+
  with overlapping_grants_add_up[OF a1 a2 s this(1) this(1)] s show ?thesis by simp
qed

end
