(* ===== verification/Phase_Store.thy ===== *)
theory Phase_Store
  imports Reentry Scheduler_Store Ledger_Store Py_Text
begin

text \<open>
  The \<open>phases\<close> table of \<open>src/fleet/state/repository.py\<close>: leases with their fences, the fenced completion, the reaper's part
  on this table, the audited status corrections (demotion, stub degradation, consumer status, operator reopen) and
  un-blocking. A write unit runs in one transaction. Findings payloads are kept as the objects they
  serialize; redaction of texts and SHA-256 are arguments. Instants are UTC.
\<close>

section \<open>Tables\<close>

record lease_phase =
  lp_status :: repo_status
  lp_attempts :: int
  lp_max_attempts :: int
  lp_last_error :: "string option"
  lp_blocked_by :: "string list"
  lp_heartbeat :: "instant option"
  lp_owner :: "string option"
  lp_fence :: int
  lp_expires :: "instant option"
  lp_started :: "instant option"
  lp_updated :: instant

type_synonym phase_key = "string \<times> repo_id \<times> phase"

record audit_finding =
  af_severity :: string
  af_payload :: "(string, json_value) dict"
  af_created :: instant

record stub_db_row =
  sd_run :: string
  sd_consumer :: repo_id
  sd_state :: stub_state
  sd_fidelity :: stub_fidelity
  sd_coord :: string

record phase_db =
  pd_runs :: "string list"
  pd_repos :: "repo_id list"
  pd_phases :: "(phase_key, lease_phase) dict"
  pd_findings :: "(string \<times> repo_id \<times> string \<times> string, audit_finding) dict"
  pd_checkpoints :: "(phase_key, string) dict"
  pd_stubs :: "stub_db_row list"

datatype phase_error =
    LeaseStolen
  | PhaseTransitionRefused
  | ConstraintFailed
  | NothingToReopen
  | SeveralToReopen nat
  | FloorSnapshotStale "phase list"
  | BlockedBySnapshotStale
  | RefusedByGate status_error

definition get_row :: "phase_db \<Rightarrow> phase_key \<Rightarrow> lease_phase option" where
  "get_row st k = dict_get (pd_phases st) k"

definition put_row :: "phase_key \<Rightarrow> lease_phase \<Rightarrow> phase_db \<Rightarrow> phase_db" where
  "put_row k r st = st\<lparr>pd_phases := dict_set (pd_phases st) k r\<rparr>"

text \<open>\<open>_shift\<close>: a lease time in seconds added to an instant in microseconds.\<close>

definition shift :: "instant \<Rightarrow> int \<Rightarrow> instant" where
  "shift now seconds = now + seconds * 1000000"

section \<open>Leases\<close>

definition upsert_phase :: "string \<Rightarrow> repo_id \<Rightarrow> phase \<Rightarrow> instant \<Rightarrow> int \<Rightarrow> phase_db \<Rightarrow> phase_error + phase_db" where
  "upsert_phase run repo p now max_attempts st =
     (if max_attempts < 1 \<or> 8 < max_attempts then Inl ConstraintFailed
      else case get_row st (run, repo, p) of
        Some r \<Rightarrow> Inr (put_row (run, repo, p) (r\<lparr>lp_max_attempts := max_attempts, lp_updated := now\<rparr>) st)
      | None \<Rightarrow>
          if run \<in> set (pd_runs st) \<and> repo \<in> set (pd_repos st) then
            Inr (put_row (run, repo, p)
              \<lparr>lp_status = PENDING, lp_attempts = 0, lp_max_attempts = max_attempts, lp_last_error = None, lp_blocked_by = [],
               lp_heartbeat = None, lp_owner = None, lp_fence = 0, lp_expires = None, lp_started = None, lp_updated = now\<rparr> st)
          else Inl ConstraintFailed)"

definition acquire_phase_lease ::
  "string \<Rightarrow> repo_id \<Rightarrow> phase \<Rightarrow> string \<Rightarrow> instant \<Rightarrow> int \<Rightarrow> phase_db \<Rightarrow> phase_db \<times> int option" where
  "acquire_phase_lease run repo p owner now ttl st =
     (case get_row st (run, repo, p) of
        None \<Rightarrow> (st, None)
      | Some r \<Rightarrow>
          if lp_status r = PENDING then
            (put_row (run, repo, p)
               (r\<lparr>lp_status := RUNNING, lp_owner := Some owner, lp_fence := lp_fence r + 1, lp_expires := Some (shift now ttl),
                  lp_heartbeat := Some now, lp_started := (case lp_started r of None \<Rightarrow> Some now | Some s \<Rightarrow> Some s),
                  lp_updated := now\<rparr>) st,
             Some (lp_fence r + 1))
          else (st, None))"

definition renew_phase_lease ::
  "string \<Rightarrow> repo_id \<Rightarrow> phase \<Rightarrow> int \<Rightarrow> instant \<Rightarrow> int \<Rightarrow> phase_db \<Rightarrow> phase_error + phase_db" where
  "renew_phase_lease run repo p fence now ttl st =
     (case get_row st (run, repo, p) of
        None \<Rightarrow> Inl LeaseStolen
      | Some r \<Rightarrow>
          if lp_status r = RUNNING \<and> lp_fence r = fence then
            Inr (put_row (run, repo, p)
              (r\<lparr>lp_expires := Some (shift now ttl), lp_heartbeat := Some now, lp_updated := now\<rparr>) st)
          else Inl LeaseStolen)"

definition complete_phase ::
  "(string \<Rightarrow> string) \<Rightarrow> string \<Rightarrow> repo_id \<Rightarrow> phase \<Rightarrow> int \<Rightarrow> repo_status \<Rightarrow> instant \<Rightarrow> string option \<Rightarrow> phase_db
   \<Rightarrow> phase_error + phase_db \<times> repo_status" where
  "complete_phase redact run repo p fence status now last_error st =
     (case get_row st (run, repo, p) of
        None \<Rightarrow> Inl LeaseStolen
      | Some r \<Rightarrow>
          if lp_fence r \<noteq> fence then Inl LeaseStolen
          else
            let escalate = (status = PENDING \<and> lp_attempts r + 1 \<ge> lp_max_attempts r);
                target = (if escalate then REQUIRES_HUMAN_INTERVENTION else status) in
            (case transition (lp_status r) target no_flags of
              Inl _ \<Rightarrow> Inl PhaseTransitionRefused
            | Inr _ \<Rightarrow>
                Inr (put_row (run, repo, p)
                  (r\<lparr>lp_attempts := lp_attempts r + 1, lp_status := target, lp_last_error := map_option redact last_error,
                     lp_owner := None, lp_expires := None, lp_heartbeat := None, lp_updated := now\<rparr>) st, target)))"

text \<open>
  The reaper on this table: expired leases go back to \<open>PENDING\<close> with a new fence, then every phase named by an
  expired hold gets a new fence. The phases so named come from the \<open>reservations\<close> table.
\<close>

definition reap_row :: "instant \<Rightarrow> lease_phase \<Rightarrow> lease_phase" where
  "reap_row now r =
     r\<lparr>lp_status := PENDING, lp_owner := None, lp_fence := lp_fence r + 1, lp_heartbeat := None, lp_expires := None, lp_updated := now\<rparr>"

definition reapable :: "instant \<Rightarrow> lease_phase \<Rightarrow> bool" where
  "reapable now r \<longleftrightarrow> lp_status r = RUNNING \<and> (case lp_expires r of None \<Rightarrow> False | Some e \<Rightarrow> e < now)"

definition reap_leases :: "string \<Rightarrow> instant \<Rightarrow> (repo_id \<times> phase) list \<Rightarrow> phase_db \<Rightarrow> phase_db \<times> nat" where
  "reap_leases run now holds st =
     (let due = (\<lambda>(ru, _) r. ru = run \<and> reapable now r);
          reclaimed = length (filter (\<lambda>(k, r). due k r) (pd_phases st));
          ps1 = map_rows due (\<lambda>_. reap_row now) (pd_phases st);
          ps2 = map_rows (\<lambda>(ru, rp) _. ru = run \<and> rp \<in> set holds)
                  (\<lambda>_ r. r\<lparr>lp_fence := lp_fence r + 1, lp_updated := now\<rparr>) ps1 in
      (st\<lparr>pd_phases := ps2\<rparr>, reclaimed))"

section \<open>Audited corrections\<close>

definition PHASE_DEMOTED_KIND :: string where "PHASE_DEMOTED_KIND = ''PhaseDemoted''"
definition STUB_DEGRADED_KIND :: string where "STUB_DEGRADED_KIND = ''StubDegraded''"
definition OPERATOR_REOPENED_KIND :: string where "OPERATOR_REOPENED_KIND = ''OperatorReopened''"
definition STUB_CONSUMER_STATUS_KIND :: string where "STUB_CONSUMER_STATUS_KIND = ''StubConsumerStatusApplied''"

definition audit_fingerprint :: "(string \<Rightarrow> string) \<Rightarrow> string \<Rightarrow> repo_id \<Rightarrow> string \<Rightarrow> phase \<Rightarrow> string" where
  "audit_fingerprint sha run repo kind p = sha (join (CHR 0x00) [run, repo, kind, show_int (phase_int p)])"

definition note_finding ::
  "(string \<Rightarrow> string) \<Rightarrow> string \<Rightarrow> repo_id \<Rightarrow> string \<Rightarrow> string \<Rightarrow> phase \<Rightarrow> (string, json_value) dict \<Rightarrow> instant \<Rightarrow> phase_db \<Rightarrow> phase_db" where
  "note_finding sha run repo kind severity p payload now st =
     st\<lparr>pd_findings :=
        (let k = (run, repo, kind, audit_fingerprint sha run repo kind p) in
         dict_set (pd_findings st) k
           (case dict_get (pd_findings st) k of
              None \<Rightarrow> \<lparr>af_severity = severity, af_payload = payload, af_created = now\<rparr>
            | Some f \<Rightarrow> f\<lparr>af_payload := payload, af_created := now\<rparr>))\<rparr>"

definition repo_statuses :: "phase_db \<Rightarrow> string \<Rightarrow> repo_id \<Rightarrow> phase \<Rightarrow> repo_status option" where
  "repo_statuses st run repo p = map_option lp_status (get_row st (run, repo, p))"

text \<open>\<open>_DEMOTE_PHASE_SQL\<close> and its siblings: a compare-and-set on the status.\<close>

definition cas_status :: "repo_status \<Rightarrow> repo_status \<Rightarrow> instant \<Rightarrow> phase_key \<Rightarrow> phase_db \<Rightarrow> phase_db" where
  "cas_status old new now k st =
     (case get_row st k of
        None \<Rightarrow> st
      | Some r \<Rightarrow> if lp_status r = old then put_row k (r\<lparr>lp_status := new, lp_updated := now\<rparr>) st else st)"

definition delete_checkpoints :: "string \<Rightarrow> repo_id \<Rightarrow> phase list \<Rightarrow> phase_db \<Rightarrow> phase_db" where
  "delete_checkpoints run repo ps st =
     st\<lparr>pd_checkpoints := filter (\<lambda>((ru, re, p), _). \<not> (ru = run \<and> re = repo \<and> p \<in> set ps)) (pd_checkpoints st)\<rparr>"

definition demote_one :: "string \<Rightarrow> repo_id \<Rightarrow> string \<Rightarrow> instant \<Rightarrow> phase \<Rightarrow> phase_db \<Rightarrow> phase_error + phase_db \<times> phase_demotion" where
  "demote_one run repo reason now p st =
     (case demote SUCCEEDED repo p reason of
        Inl e \<Rightarrow> Inl (RefusedByGate e)
      | Inr (new, record) \<Rightarrow> Inr (cas_status SUCCEEDED new now (run, repo, p) st, record))"

fun demote_all :: "string \<Rightarrow> repo_id \<Rightarrow> string \<Rightarrow> instant \<Rightarrow> phase list \<Rightarrow> phase_db \<Rightarrow> phase_error + phase_db \<times> phase_demotion list" where
  "demote_all run repo reason now [] st = Inr (st, [])"
| "demote_all run repo reason now (p # ps) st =
     rbind (demote_one run repo reason now p st) (\<lambda>(st1, record).
       rbind (demote_all run repo reason now ps st1) (\<lambda>(st2, records). Inr (st2, record # records)))"

definition stale_phases :: "(phase \<Rightarrow> repo_status option) \<Rightarrow> (phase \<rightharpoonup> repo_status) \<Rightarrow> phase list" where
  "stale_phases rows observed =
     filter (\<lambda>p. (case rows p of None \<Rightarrow> PENDING | Some s \<Rightarrow> s) \<noteq> (case observed p of None \<Rightarrow> PENDING | Some s \<Rightarrow> s)) phases"

definition demote_to_floor ::
  "(string \<Rightarrow> string) \<Rightarrow> string \<Rightarrow> repo_id \<Rightarrow> phase \<Rightarrow> string \<Rightarrow> instant \<Rightarrow> (phase \<rightharpoonup> repo_status) option \<Rightarrow> phase_db
   \<Rightarrow> phase_error + phase_db \<times> phase_demotion list" where
  "demote_to_floor sha run repo flr reason now observed st =
     (let rows = repo_statuses st run repo in
      if \<exists>p \<in> set phases. rows p = Some REQUIRES_HUMAN_INTERVENTION then Inr (st, [])
      else if (case observed of None \<Rightarrow> False | Some ob \<Rightarrow> stale_phases rows ob \<noteq> [])
      then Inl (FloorSnapshotStale (case observed of None \<Rightarrow> [] | Some ob \<Rightarrow> stale_phases rows ob))
      else
        rbind (demote_all run repo reason now (demotable_phases rows flr) st) (\<lambda>(st1, records).
          let st2 = (if records = [] then st1
                     else delete_checkpoints run repo (filter (\<lambda>p. p \<ge> flr \<and> rows p \<noteq> Some DEGRADED) phases) st1) in
          Inr (fold (\<lambda>d s. note_finding sha run repo PHASE_DEMOTED_KIND ''warn'' (demotion_phase d) (phase_demotion_payload d) now s)
                 records st2, records)))"

definition qualifying_stubs :: "phase_db \<Rightarrow> string \<Rightarrow> repo_id \<Rightarrow> string list" where
  "qualifying_stubs st run repo =
     sorted_set (map sd_coord (filter (\<lambda>s. sd_run s = run \<and> sd_consumer s = repo \<and> sd_state s = ACTIVE
       \<and> sd_fidelity s = PUBLISHED_ARTIFACT_FIDELITY) (pd_stubs st)))"

definition stub_degrade_transform ::
  "(string \<Rightarrow> string) \<Rightarrow> string \<Rightarrow> repo_id \<Rightarrow> phase \<Rightarrow> instant \<Rightarrow> phase_db \<Rightarrow> phase_error + phase_db \<times> stub_degradation option" where
  "stub_degrade_transform sha run repo p now st =
     (if repo_statuses st run repo p \<noteq> Some SUCCEEDED then Inr (st, None)
      else if qualifying_stubs st run repo = [] then Inr (st, None)
      else case degrade_for_stub SUCCEEDED repo p (''ACTIVE PUBLISHED_ARTIFACT stub(s): '' @ comma_join (qualifying_stubs st run repo)) of
        Inl e \<Rightarrow> Inl (RefusedByGate e)
      | Inr (new, record) \<Rightarrow>
          Inr (note_finding sha run repo STUB_DEGRADED_KIND ''warn'' p (stub_degradation_payload record) now
                 (cas_status SUCCEEDED new now (run, repo, p) st), Some record))"

record stub_consumer_status_change =
  scs_repo_id :: repo_id
  scs_phase :: phase
  scs_reason :: string
  scs_to_status :: repo_status
  scs_from_status :: repo_status

definition stub_consumer_payload :: "stub_consumer_status_change \<Rightarrow> (string, json_value) dict" where
  "stub_consumer_payload c = audit_payload (scs_repo_id c) (scs_phase c) (scs_from_status c) (scs_to_status c) (scs_reason c)"

definition apply_stub_consumer_status ::
  "(string \<Rightarrow> string) \<Rightarrow> string \<Rightarrow> repo_id \<Rightarrow> phase \<Rightarrow> repo_status \<Rightarrow> string \<Rightarrow> instant \<Rightarrow> phase_db
   \<Rightarrow> phase_error + phase_db \<times> stub_consumer_status_change option" where
  "apply_stub_consumer_status sha run repo p new reason now st =
     (case transition DEGRADED new no_flags of
        Inl e \<Rightarrow> Inl (RefusedByGate e)
      | Inr _ \<Rightarrow>
          if repo_statuses st run repo p \<noteq> Some DEGRADED then Inr (st, None)
          else
            let record = \<lparr>scs_repo_id = repo, scs_phase = p, scs_reason = reason, scs_to_status = new, scs_from_status = DEGRADED\<rparr> in
            Inr (note_finding sha run repo STUB_CONSUMER_STATUS_KIND ''info'' p (stub_consumer_payload record) now
                   (cas_status DEGRADED new now (run, repo, p) st), Some record))"

definition reopen_to_pending ::
  "(string \<Rightarrow> string) \<Rightarrow> string \<Rightarrow> repo_id \<Rightarrow> string \<Rightarrow> instant \<Rightarrow> phase_db \<Rightarrow> phase_error + phase_db \<times> operator_reopen" where
  "reopen_to_pending sha run repo reason now st =
     (case filter (\<lambda>p. repo_statuses st run repo p = Some REQUIRES_HUMAN_INTERVENTION) phases of
        [] \<Rightarrow> Inl NothingToReopen
      | [p] \<Rightarrow>
          (case reopen_abandoned REQUIRES_HUMAN_INTERVENTION repo p reason of
             Inl e \<Rightarrow> Inl (RefusedByGate e)
           | Inr (new, record) \<Rightarrow>
               Inr (note_finding sha run repo OPERATOR_REOPENED_KIND ''warn'' p (operator_reopen_payload record) now
                      (cas_status REQUIRES_HUMAN_INTERVENTION new now (run, repo, p) st), record))
      | p # q # ps \<Rightarrow> Inl (SeveralToReopen (length (p # q # ps))))"

section \<open>Blocking and un-blocking\<close>

text \<open>\<open>append_blocked_by\<close> of the scheduler's store on these rows: it writes only the columns it knows.\<close>

definition block_lease :: "repo_id \<Rightarrow> instant \<Rightarrow> lease_phase \<Rightarrow> lease_phase" where
  "block_lease blocker now r =
     (case block_row blocker now \<lparr>ph_status = lp_status r, ph_blocked_by = lp_blocked_by r, ph_updated_at = lp_updated r\<rparr> of
        None \<Rightarrow> r
      | Some v \<Rightarrow> r\<lparr>lp_status := ph_status v, lp_blocked_by := ph_blocked_by v, lp_updated := ph_updated_at v\<rparr>)"

definition block_phases :: "string \<Rightarrow> repo_id \<Rightarrow> repo_id \<Rightarrow> instant \<Rightarrow> phase_db \<Rightarrow> phase_db" where
  "block_phases run repo blocker now st =
     st\<lparr>pd_phases := map_rows (\<lambda>(ru, re, _) _. ru = run \<and> re = repo) (\<lambda>_. block_lease blocker now) (pd_phases st)\<rparr>"

definition clear_row :: "string list \<Rightarrow> instant \<Rightarrow> lease_phase \<Rightarrow> lease_phase" where
  "clear_row removed now r =
     (let names = sorted_set (lp_blocked_by r);
          keep = filter (\<lambda>n. n \<notin> set removed) names in
      if length keep = length names then r
      else
        r\<lparr>lp_blocked_by := keep,
          lp_status := (if keep = [] \<and> lp_status r = BLOCKED then PENDING else lp_status r),
          lp_updated := now\<rparr>)"

definition clear_blocked_by ::
  "string \<Rightarrow> repo_id \<Rightarrow> unblocking \<Rightarrow> (repo_id \<rightharpoonup> phase) \<Rightarrow> (phase_db \<Rightarrow> string set \<Rightarrow> string \<rightharpoonup> blocker_state) \<Rightarrow> instant \<Rightarrow> bool \<Rightarrow> phase_db
   \<Rightarrow> phase_error + phase_db \<times> phase list" where
  "clear_blocked_by run repo observed floors resolve now stub_blocked st =
     (let rows = filter (\<lambda>((ru, re, _), _). ru = run \<and> re = repo) (pd_phases st);
          live = List.map_filter (\<lambda>(_, r). if lp_blocked_by r = [] then None else Some (repo, sorted_set (lp_blocked_by r))) rows;
          fresh = plan_unblocking live (resolve st (set (concat (map snd live)))) floors stub_blocked in
      if fresh \<noteq> [observed] then Inl BlockedBySnapshotStale
      else
        Inr (st\<lparr>pd_phases := map_rows (\<lambda>(ru, re, _) _. ru = run \<and> re = repo) (\<lambda>_. clear_row (un_removed observed) now) (pd_phases st)\<rparr>,
             map (\<lambda>((_, _, p), _). p) (filter (\<lambda>(_, r). set (lp_blocked_by r) \<inter> set (un_removed observed) \<noteq> {}) rows)))"

end
