(* ===== verification/Phase_Correct.thy ===== *)
theory Phase_Correct
  imports Phase_Store Ledger_Correct
begin

text \<open>
  Correctness of the \<open>phases\<close> table under histories of the writes of \<open>src/fleet/state/repository.py\<close>: fences exclude a
  superseded holder, every change of status is an allowed transition or leaves a finding, only an operator takes a
  phase out of human intervention, a demotion is exact, and the reaper is the one of the cost ledger.

  Other modules write the \<open>status\<close> column with statements of their own, which are not modelled: the runner's
  uncharged terminal write (\<open>PhaseRunner._terminate_uncharged\<close>), and in \<open>cli.py\<close> the gates for excluded, empty and red
  repositories, the failed pre-flight, \<open>fleet quarantine\<close> and the reset of \<open>fleet abort\<close> and \<open>fleet resume\<close>. Some of them move a
  row along an edge \<open>ALLOWED_TRANSITIONS\<close> does not have. The properties of this theory speak of the
  operations of \<open>phase_op\<close> only.
\<close>

section \<open>Histories\<close>

text \<open>The operations of the state repository that write a \<open>phases\<close> row.\<close>

datatype phase_op =
    UpsertPhase string repo_id phase instant int
  | AcquireLease string repo_id phase string instant int
  | RenewLease string repo_id phase int instant int
  | CompletePhase string repo_id phase int repo_status instant "string option"
  | ReapLeases string instant "(repo_id \<times> phase) list"
  | DemoteToFloor string repo_id phase string instant "(phase \<rightharpoonup> repo_status) option"
  | DegradeForStub string repo_id phase instant
  | ConsumerStatus string repo_id phase repo_status string instant
  | ReopenRepo string repo_id string instant
  | BlockRepo string repo_id repo_id instant
  | UnblockRepo string repo_id unblocking "repo_id \<rightharpoonup> phase" "phase_db \<Rightarrow> string set \<Rightarrow> string \<rightharpoonup> blocker_state" instant bool

fun phase_write :: "(string \<Rightarrow> string) \<Rightarrow> (string \<Rightarrow> string) \<Rightarrow> phase_db \<Rightarrow> phase_op \<Rightarrow> phase_error + phase_db" where
  "phase_write rd sha st (UpsertPhase run repo p now m) = upsert_phase run repo p now m st"
| "phase_write rd sha st (AcquireLease run repo p owner now ttl) = Inr (fst (acquire_phase_lease run repo p owner now ttl st))"
| "phase_write rd sha st (RenewLease run repo p fence now ttl) = renew_phase_lease run repo p fence now ttl st"
| "phase_write rd sha st (CompletePhase run repo p fence s now err) = map_sum id fst (complete_phase rd run repo p fence s now err st)"
| "phase_write rd sha st (ReapLeases run now holds) = Inr (fst (reap_leases run now holds st))"
| "phase_write rd sha st (DemoteToFloor run repo flr why now ob) = map_sum id fst (demote_to_floor sha run repo flr why now ob st)"
| "phase_write rd sha st (DegradeForStub run repo p now) = map_sum id fst (stub_degrade_transform sha run repo p now st)"
| "phase_write rd sha st (ConsumerStatus run repo p new why now) = map_sum id fst (apply_stub_consumer_status sha run repo p new why now st)"
| "phase_write rd sha st (ReopenRepo run repo why now) = map_sum id fst (reopen_to_pending sha run repo why now st)"
| "phase_write rd sha st (BlockRepo run repo blocker now) = Inr (block_phases run repo blocker now st)"
| "phase_write rd sha st (UnblockRepo run repo ob floors resolve now sb) = map_sum id fst (clear_blocked_by run repo ob floors resolve now sb st)"

section \<open>What each write does to one row\<close>

lemma get_put_row [simp]: "get_row (put_row k r st) j = (if j = k then Some r else get_row st j)"
  by (simp add: get_row_def put_row_def)

lemma get_row_note_finding [simp]: "get_row (note_finding sha run repo kind sev p payload now st) k = get_row st k"
  by (simp add: note_finding_def get_row_def)

lemma get_row_delete_checkpoints [simp]: "get_row (delete_checkpoints run repo ps st) k = get_row st k"
  by (simp add: delete_checkpoints_def get_row_def)

lemma get_row_fold_note: "get_row (fold (\<lambda>d. note_finding sha run repo kind sev (f d) (g d) now) ds st) k = get_row st k"
  by (induction ds arbitrary: st) auto

lemma get_row_map_rows [simp]:
  "get_row (st\<lparr>pd_phases := map_rows S h (pd_phases st)\<rparr>) k = map_option (\<lambda>r. if S k r then h k r else r) (get_row st k)"
  by (simp add: get_row_def dict_get_map_rows)

lemma get_cas_status:
  "get_row (cas_status old new now k st) j =
     (if j = k then map_option (\<lambda>r. if lp_status r = old then r\<lparr>lp_status := new, lp_updated := now\<rparr> else r) (get_row st k)
      else get_row st j)"
  by (auto simp: cas_status_def split: option.splits)

lemma map_sum_fst_Inr [simp]: "map_sum id fst x = Inr y \<longleftrightarrow> (\<exists>z. x = Inr (y, z))"
  by (cases x) auto

definition demotion_of :: "repo_id \<Rightarrow> string \<Rightarrow> phase \<Rightarrow> phase_demotion" where
  "demotion_of repo why p = \<lparr>demotion_repo_id = repo, demotion_phase = p, demotion_from_status = SUCCEEDED,
     demotion_reason = why, demotion_to_status = PENDING\<rparr>"

lemma demote_succeeded: "demote SUCCEEDED repo p why = Inr (PENDING, demotion_of repo why p)"
  by (simp add: demote_iff demotion_of_def)

lemma demote_all_spec:
  "\<exists>st'. demote_all run repo why now ps st = Inr (st', map (demotion_of repo why) ps)
     \<and> st'\<lparr>pd_phases := pd_phases st\<rparr> = st
     \<and> (\<forall>k. get_row st' k = (if k \<in> (\<lambda>p. (run, repo, p)) ` set ps
          then map_option (\<lambda>r. if lp_status r = SUCCEEDED then r\<lparr>lp_status := PENDING, lp_updated := now\<rparr> else r) (get_row st k)
          else get_row st k))"
proof (induction ps arbitrary: st)
  case (Cons p ps)
  define st1 where "st1 = cas_status SUCCEEDED PENDING now (run, repo, p) st"
  have one: "demote_one run repo why now p st = Inr (st1, demotion_of repo why p)"
    by (simp add: demote_one_def demote_succeeded st1_def)
  have frame: "st1\<lparr>pd_phases := pd_phases st\<rparr> = st"
    by (auto simp: st1_def cas_status_def put_row_def split: option.splits)
  obtain st' where st': "demote_all run repo why now ps st1 = Inr (st', map (demotion_of repo why) ps)"
    "st'\<lparr>pd_phases := pd_phases st1\<rparr> = st1"
    and rows: "\<And>k. get_row st' k = (if k \<in> (\<lambda>p. (run, repo, p)) ` set ps
          then map_option (\<lambda>r. if lp_status r = SUCCEEDED then r\<lparr>lp_status := PENDING, lp_updated := now\<rparr> else r) (get_row st1 k)
          else get_row st1 k)"
    using Cons.IH[of st1] by blast
  have fields: "st'\<lparr>pd_phases := pd_phases st\<rparr> = st1\<lparr>pd_phases := pd_phases st\<rparr>"
    by (subst st'(2)[symmetric]) simp
  have "demote_all run repo why now (p # ps) st = Inr (st', map (demotion_of repo why) (p # ps))"
    using one st'(1) by simp
  moreover have "get_row st' k = (if k \<in> (\<lambda>p. (run, repo, p)) ` set (p # ps)
          then map_option (\<lambda>r. if lp_status r = SUCCEEDED then r\<lparr>lp_status := PENDING, lp_updated := now\<rparr> else r) (get_row st k)
          else get_row st k)" for k
    unfolding rows st1_def get_cas_status by (cases "get_row st k") auto
  ultimately show ?case using fields frame by auto
qed simp

lemma checkpoints_fold_note:
  "pd_checkpoints (fold (\<lambda>d. note_finding sha run repo kind sev (f d) (g d) now) ds s) = pd_checkpoints s"
  by (induction ds arbitrary: s) (auto simp: note_finding_def)

lemma findings_fold_note:
  "pd_findings s = pd_findings s' \<Longrightarrow>
   pd_findings (fold (\<lambda>d. note_finding sha run repo kind sev (f d) (g d) now) ds s)
   = pd_findings (fold (\<lambda>d. note_finding sha run repo kind sev (f d) (g d) now) ds s')"
proof (induction ds arbitrary: s s')
  case (Cons d ds)
  show ?case
    unfolding fold_simps(2) comp_apply by (rule Cons.IH) (simp add: note_finding_def Cons.prems)
qed simp

lemma statuses_of_repo: "repo_statuses st run repo p = Some s \<longleftrightarrow> (\<exists>r. get_row st (run, repo, p) = Some r \<and> lp_status r = s)"
  by (auto simp: repo_statuses_def)

lemma demote_to_floor_Inr:
  assumes "demote_to_floor sha run repo flr why now ob st = Inr (st', ds)"
  shows "(\<exists>p. repo_statuses st run repo p = Some REQUIRES_HUMAN_INTERVENTION) \<and> st' = st \<and> ds = []
      \<or> (\<forall>p. repo_statuses st run repo p \<noteq> Some REQUIRES_HUMAN_INTERVENTION)
        \<and> ds = map (demotion_of repo why) (demotable_phases (repo_statuses st run repo) flr)
        \<and> (\<forall>k. get_row st' k = (if k \<in> (\<lambda>p. (run, repo, p)) ` set (demotable_phases (repo_statuses st run repo) flr)
          then map_option (\<lambda>r. r\<lparr>lp_status := PENDING, lp_updated := now\<rparr>) (get_row st k) else get_row st k))
        \<and> pd_checkpoints st' = (if ds = [] then pd_checkpoints st else filter (\<lambda>((ru, re, p), _).
            \<not> (ru = run \<and> re = repo \<and> p \<ge> flr \<and> repo_statuses st run repo p \<noteq> Some DEGRADED)) (pd_checkpoints st))
        \<and> pd_findings st' = pd_findings (fold (\<lambda>d. note_finding sha run repo PHASE_DEMOTED_KIND ''warn'' (demotion_phase d)
            (phase_demotion_payload d) now) ds st)"
proof (cases "\<exists>p. repo_statuses st run repo p = Some REQUIRES_HUMAN_INTERVENTION")
  case True
  then show ?thesis using assms by (auto simp: demote_to_floor_def)
next
  case False
  define ps where "ps = demotable_phases (repo_statuses st run repo) flr"
  define span where "span = filter (\<lambda>p. p \<ge> flr \<and> repo_statuses st run repo p \<noteq> Some DEGRADED) phases"
  obtain st1 where all: "demote_all run repo why now ps st = Inr (st1, map (demotion_of repo why) ps)"
    and frame: "st1\<lparr>pd_phases := pd_phases st\<rparr> = st"
    and rows: "\<And>k. get_row st1 k = (if k \<in> (\<lambda>p. (run, repo, p)) ` set ps
          then map_option (\<lambda>r. if lp_status r = SUCCEEDED then r\<lparr>lp_status := PENDING, lp_updated := now\<rparr> else r) (get_row st k)
          else get_row st k)"
    using demote_all_spec[of run repo why now ps st] by blast
  define st2 where "st2 = (if ps = [] then st1 else delete_checkpoints run repo span st1)"
  have ds: "ds = map (demotion_of repo why) ps"
    and st': "st' = fold (\<lambda>d. note_finding sha run repo PHASE_DEMOTED_KIND ''warn'' (demotion_phase d) (phase_demotion_payload d) now) ds st2"
    using assms all False by (auto simp: demote_to_floor_def Let_def ps_def span_def st2_def split: if_splits)
  have succ: "lp_status r = SUCCEEDED" if "p \<in> set ps" "get_row st (run, repo, p) = Some r" for p r
    using that by (auto simp: ps_def demotable_phases_def repo_statuses_def)
  have same: "pd_findings st2 = pd_findings st" "pd_checkpoints st1 = pd_checkpoints st"
    using frame by (auto simp: st2_def delete_checkpoints_def) (metis phase_db.select_convs phase_db.surjective phase_db.update_convs(3))+
  have "pd_checkpoints st' = (if ds = [] then pd_checkpoints st else filter (\<lambda>((ru, re, p), _).
            \<not> (ru = run \<and> re = repo \<and> p \<ge> flr \<and> repo_statuses st run repo p \<noteq> Some DEGRADED)) (pd_checkpoints st))"
    unfolding st' checkpoints_fold_note using same(2)
    by (auto simp: st2_def ds delete_checkpoints_def span_def intro!: filter_cong)
  moreover have "get_row st' k = (if k \<in> (\<lambda>p. (run, repo, p)) ` set ps
          then map_option (\<lambda>r. r\<lparr>lp_status := PENDING, lp_updated := now\<rparr>) (get_row st k) else get_row st k)" for k
  proof -
    have "get_row st' k = get_row st1 k"
      unfolding st' get_row_fold_note st2_def by simp
    then show ?thesis unfolding rows using succ by (auto simp: option.map_sel intro!: option.map_cong)
  qed
  moreover have "pd_findings st' = pd_findings (fold (\<lambda>d. note_finding sha run repo PHASE_DEMOTED_KIND ''warn'' (demotion_phase d)
            (phase_demotion_payload d) now) ds st)"
    unfolding st' by (rule findings_fold_note[OF same(1)])
  ultimately show ?thesis using False ds unfolding ps_def[symmetric] by blast
qed


section \<open>Every write, row by row\<close>

text \<open>The status changes outside \<open>ALLOWED_TRANSITIONS\<close> that an operation may make.\<close>

fun doors :: "phase_op \<Rightarrow> (repo_status \<times> repo_status) set" where
  "doors (DemoteToFloor run repo flr why now ob) = {(SUCCEEDED, PENDING)}"
| "doors (DegradeForStub run repo p now) = {(SUCCEEDED, DEGRADED)}"
| "doors (ReopenRepo run repo why now) = {(REQUIRES_HUMAN_INTERVENTION, PENDING)}"
| "doors _ = {}"

definition row_step :: "phase_op \<Rightarrow> lease_phase \<Rightarrow> lease_phase \<Rightarrow> bool" where
  "row_step op r r' \<longleftrightarrow> lp_fence r \<le> lp_fence r' \<and> lp_attempts r \<le> lp_attempts r'
     \<and> (lp_status r' = lp_status r \<or> lp_status r' \<in> ALLOWED_TRANSITIONS (lp_status r) \<or> (lp_status r, lp_status r') \<in> doors op)"

lemma row_step_refl [simp]: "row_step op r r"
  by (simp add: row_step_def)

lemma gate_allows: "transition old new no_flags = Inr s \<Longrightarrow> new = old \<or> new \<in> ALLOWED_TRANSITIONS old"
  by (auto simp: transition_def no_flags_def split: if_splits)

lemma block_lease_step: "row_step op r (block_lease blocker now r)"
  by (auto simp: row_step_def block_lease_def block_row_def dest!: gate_allows split: option.splits if_splits sum.splits)

lemma degrade_Inr: "degrade_for_stub SUCCEEDED repo p why = Inr (new, d) \<Longrightarrow> new = DEGRADED"
  by (auto simp: degrade_for_stub_def transition_def no_flags_def status_tables split: if_splits)

lemma reopen_Inr: "reopen_abandoned REQUIRES_HUMAN_INTERVENTION repo p why = Inr (new, d) \<Longrightarrow> new = PENDING"
  by (auto simp: reopen_abandoned_def transition_def no_flags_def status_tables split: if_splits)

lemma cas_step:
  assumes "get_row st k = Some r" and "(old, new) \<in> doors op \<or> new = old \<or> new \<in> ALLOWED_TRANSITIONS old"
  shows "\<exists>r'. get_row (cas_status old new now j st) k = Some r' \<and> row_step op r r'"
proof (cases "k = j \<and> lp_status r = old")
  case True
  then have "get_row (cas_status old new now j st) k = Some (r\<lparr>lp_status := new, lp_updated := now\<rparr>)"
    using assms(1) by (simp add: get_cas_status)
  then show ?thesis using True assms(2) by (auto simp: row_step_def)
next
  case False
  then have "get_row (cas_status old new now j st) k = Some r" using assms(1) by (auto simp: get_cas_status)
  then show ?thesis by (simp add: row_step_def)
qed

lemma write_row:
  assumes "phase_write rd sha st op = Inr st'" and "get_row st k = Some r"
  shows "\<exists>r'. get_row st' k = Some r' \<and> row_step op r r'"
proof (cases op)
  case (UpsertPhase run repo p now m)
  with assms show ?thesis by (auto simp: upsert_phase_def row_step_def split: if_splits option.splits)
next
  case (AcquireLease run repo p owner now ttl)
  with assms show ?thesis
    by (cases "get_row st (run, repo, p)") (auto simp: acquire_phase_lease_def row_step_def)
next
  case (RenewLease run repo p fence now ttl)
  with assms show ?thesis by (auto simp: renew_phase_lease_def row_step_def split: if_splits option.splits)
next
  case (CompletePhase run repo p fence s now err)
  with assms show ?thesis
    by (auto simp: complete_phase_def row_step_def Let_def dest!: gate_allows split: if_splits option.splits sum.splits)
next
  case (ReapLeases run now holds)
  with assms show ?thesis
    by (cases k) (auto simp: reap_leases_def Let_def get_row_def dict_get_map_rows row_step_def reap_row_def reapable_def)
next
  case (DemoteToFloor run repo flr why now ob)
  with assms(1) obtain ds where "demote_to_floor sha run repo flr why now ob st = Inr (st', ds)" by auto
  from demote_to_floor_Inr[OF this] have "st' = st \<or> get_row st' k =
      (if k \<in> (\<lambda>p. (run, repo, p)) ` set (demotable_phases (repo_statuses st run repo) flr)
       then map_option (\<lambda>r. r\<lparr>lp_status := PENDING, lp_updated := now\<rparr>) (get_row st k) else get_row st k)"
    by blast
  moreover have "lp_status r = SUCCEEDED" if "k \<in> (\<lambda>p. (run, repo, p)) ` set (demotable_phases (repo_statuses st run repo) flr)"
    using that assms(2) by (auto simp: demotable_phases_def repo_statuses_def)
  ultimately show ?thesis using assms(2) by (auto simp: DemoteToFloor row_step_def split: if_splits)
next
  case (DegradeForStub run repo p now)
  with assms(1) have "st' = st \<or> (\<exists>b. st' = note_finding sha run repo STUB_DEGRADED_KIND ''warn'' p b now
      (cas_status SUCCEEDED DEGRADED now (run, repo, p) st))"
    by (auto simp: stub_degrade_transform_def dest!: degrade_Inr split: if_splits sum.splits)
  with cas_step[OF assms(2), of SUCCEEDED DEGRADED op now "(run, repo, p)"] assms(2) show ?thesis
    by (auto simp: DegradeForStub row_step_def)
next
  case (ConsumerStatus run repo p new why now)
  with assms(1) have "st' = st \<or> (new = DEGRADED \<or> new \<in> ALLOWED_TRANSITIONS DEGRADED)
      \<and> (\<exists>b. st' = note_finding sha run repo STUB_CONSUMER_STATUS_KIND ''info'' p b now (cas_status DEGRADED new now (run, repo, p) st))"
    by (auto simp: apply_stub_consumer_status_def Let_def dest: gate_allows split: if_splits sum.splits)
  with cas_step[OF assms(2), of DEGRADED new op now "(run, repo, p)"] assms(2) show ?thesis
    by (auto simp: row_step_def)
next
  case (ReopenRepo run repo why now)
  with assms(1) obtain p b where "st' = note_finding sha run repo OPERATOR_REOPENED_KIND ''warn'' p b now
      (cas_status REQUIRES_HUMAN_INTERVENTION PENDING now (run, repo, p) st)"
    by (auto simp: reopen_to_pending_def dest!: reopen_Inr split: list.splits sum.splits)
  with cas_step[OF assms(2), of REQUIRES_HUMAN_INTERVENTION PENDING op now "(run, repo, p)"] show ?thesis
    by (simp add: ReopenRepo)
next
  case (BlockRepo run repo blocker now)
  with assms block_lease_step show ?thesis by (auto simp: block_phases_def)
next
  case (UnblockRepo run repo ob floors resolve now sb)
  with assms show ?thesis
    by (auto simp: clear_blocked_by_def Let_def clear_row_def row_step_def split: if_splits)
qed

section \<open>Fences\<close>

definition fence_at_least :: "phase_key \<Rightarrow> int \<Rightarrow> phase_db \<Rightarrow> bool" where
  "fence_at_least k f st \<longleftrightarrow> (case get_row st k of None \<Rightarrow> False | Some r \<Rightarrow> f \<le> lp_fence r)"

lemma write_fence: "fence_at_least k f st \<Longrightarrow> phase_write rd sha st op = Inr st' \<Longrightarrow> fence_at_least k f st'"
  using write_row[of rd sha st op st' k] by (fastforce simp: fence_at_least_def row_step_def split: option.splits)

interpretation fence: write_gate "phase_write rd sha" "\<lambda>_. True" "\<lambda>_. False" "fence_at_least k f" for rd sha k f
  by unfold_locales (auto intro: write_fence)

lemma reaped_fence:
  assumes "get_row st (run, repo, p) = Some r" and "reapable now r \<or> (repo, p) \<in> set holds"
  shows "fence_at_least (run, repo, p) (lp_fence r + 1) (fst (reap_leases run now holds st))"
  using assms by (auto simp: fence_at_least_def reap_leases_def Let_def get_row_def dict_get_map_rows reap_row_def)

lemma below_fence_stolen:
  assumes "fence_at_least (run, repo, p) f' (replay (phase_write rd sha) st us)" and "f < f'"
  shows "renew_phase_lease run repo p f now ttl (replay (phase_write rd sha) st us) = Inl LeaseStolen"
    and "complete_phase rd run repo p f s now err (replay (phase_write rd sha) st us) = Inl LeaseStolen"
  using assms by (auto simp: fence_at_least_def renew_phase_lease_def complete_phase_def split: option.splits)

definition holds_status :: "phase_key \<Rightarrow> repo_status set \<Rightarrow> phase_db \<Rightarrow> bool" where
  "holds_status k S st \<longleftrightarrow> (case get_row st k of None \<Rightarrow> False | Some r \<Rightarrow> lp_status r \<in> S)"

fun is_reopen :: "phase_op \<Rightarrow> bool" where
  "is_reopen (ReopenRepo run repo why now) = True"
| "is_reopen _ = False"

lemma write_abandoned:
  assumes "s \<in> {REQUIRES_HUMAN_INTERVENTION, SKIPPED}" and "holds_status k {s} st" and "\<not> is_reopen op"
    and "phase_write rd sha st op = Inr st'"
  shows "holds_status k {s} st'"
proof -
  obtain r where r: "get_row st k = Some r" "lp_status r = s"
    using assms(2) by (auto simp: holds_status_def split: option.splits)
  obtain r' where r': "get_row st' k = Some r'" "row_step op r r'" using write_row[OF assms(4) r(1)] by blast
  have "lp_status r' = s" using r'(2) r(2) assms(1,3) by (cases op) (auto simp: row_step_def)
  then show ?thesis using r'(1) by (simp add: holds_status_def)
qed

interpretation abandoned: write_gate "phase_write rd sha" "\<lambda>op. \<not> is_reopen op" "\<lambda>_. False"
  "holds_status k {REQUIRES_HUMAN_INTERVENTION}" for rd sha k
  by unfold_locales (auto intro: write_abandoned)

interpretation skipped: write_gate "phase_write rd sha" "\<lambda>op. \<not> is_reopen op" "\<lambda>_. False" "holds_status k {SKIPPED}" for rd sha k
  by unfold_locales (auto intro: write_abandoned)


section \<open>Properties\<close>

text \<open>
  The two ways a phase is taken from its holder: it is leased again, or the reaper finds its lease expired or a hold that
  names it.
\<close>

definition taken_over :: "string \<Rightarrow> repo_id \<Rightarrow> phase \<Rightarrow> phase_db \<Rightarrow> phase_db \<Rightarrow> bool" where
  "taken_over run repo p st st' \<longleftrightarrow>
     (\<exists>owner t ttl f. acquire_phase_lease run repo p owner t ttl st = (st', Some f))
     \<or> (\<exists>r t holds. get_row st (run, repo, p) = Some r \<and> (reapable t r \<or> (repo, p) \<in> set holds) \<and> st' = fst (reap_leases run t holds st))"

text \<open>
  C7: A superseded lease holder cannot write. If a phase was leased under one fence and, after any history of operations of the
  state repository, leased again or reaped, the fence of the row is larger from then on, a second lease has a
  larger fence than the first, and whatever operations follow, the first holder's renewals and completions are refused as stolen.
\<close>

theorem superseded_holder_is_fenced_out:
  assumes "acquire_phase_lease run repo p o1 t1 ttl1 st = (st1, Some f1)"
    and "taken_over run repo p (replay (phase_write rd sha) st1 ws) st2"
  shows "(\<exists>r. get_row st2 (run, repo, p) = Some r \<and> f1 < lp_fence r)
    \<and> (\<forall>o2 t2 ttl2 f2. acquire_phase_lease run repo p o2 t2 ttl2 (replay (phase_write rd sha) st1 ws) = (st2, Some f2) \<longrightarrow> f1 < f2)
    \<and> renew_phase_lease run repo p f1 now ttl (replay (phase_write rd sha) st2 us) = Inl LeaseStolen
    \<and> complete_phase rd run repo p f1 s now err (replay (phase_write rd sha) st2 us) = Inl LeaseStolen"
proof -
  have granted: "fence_at_least (run, repo, p) f st' \<and> (\<exists>r. get_row st'' (run, repo, p) = Some r \<and> f = lp_fence r + 1)"
    if "acquire_phase_lease run repo p ow t ttl st'' = (st', Some f)" for ow t ttl st'' st' f
    using that by (auto simp: acquire_phase_lease_def fence_at_least_def split: option.splits if_splits)
  have f1: "fence_at_least (run, repo, p) f1 (replay (phase_write rd sha) st1 ws)"
    using granted[OF assms(1)] by (intro fence.replay_invar) auto
  have less: "f1 < f2" if "acquire_phase_lease run repo p o2 t2 ttl2 (replay (phase_write rd sha) st1 ws) = (st2, Some f2)" for o2 t2 ttl2 f2
    using f1 granted[OF that] by (auto simp: fence_at_least_def)
  have st2: "fence_at_least (run, repo, p) (f1 + 1) st2"
  proof -
    consider ow t ttl f where "acquire_phase_lease run repo p ow t ttl (replay (phase_write rd sha) st1 ws) = (st2, Some f)"
      | r t holds where "get_row (replay (phase_write rd sha) st1 ws) (run, repo, p) = Some r" "reapable t r \<or> (repo, p) \<in> set holds"
        "st2 = fst (reap_leases run t holds (replay (phase_write rd sha) st1 ws))"
      using assms(2) unfolding taken_over_def by blast
    then show ?thesis
    proof cases
      case 1
      show ?thesis using granted[OF 1] less[OF 1] by (auto simp: fence_at_least_def split: option.splits)
    next
      case 2
      show ?thesis using reaped_fence[OF 2(1,2)] f1 2(1) unfolding 2(3) by (auto simp: fence_at_least_def split: option.splits)
    qed
  qed
  then have "fence_at_least (run, repo, p) (f1 + 1) (replay (phase_write rd sha) st2 us)"
    by (intro fence.replay_invar) auto
  from below_fence_stolen[OF this, of f1] st2 less show ?thesis
    by (auto simp: fence_at_least_def split: option.splits)
qed

text \<open>
  C9: Of the operations of the state repository only the operator's reopen takes a phase out of human intervention. A phase in
  \<open>REQUIRES_HUMAN_INTERVENTION\<close> keeps that status under every history of leases, completions, reaps, demotions, stub
  corrections, blocking and un-blocking; a skipped phase even keeps it when the repository is reopened. The operator's
  quarantine and the gates of \<open>cli.py\<close>, which skip such a phase by statements of their own, are not among these operations.
\<close>

theorem no_sweep_leaves_human_intervention:
  assumes "get_row st k = Some r" and "lp_status r = s" and "s \<in> {REQUIRES_HUMAN_INTERVENTION, SKIPPED}"
    and "\<forall>op \<in> set ws. is_reopen op \<longrightarrow> s = SKIPPED"
  shows "\<exists>r'. get_row (replay (phase_write rd sha) st ws) k = Some r' \<and> lp_status r' = s"
proof -
  have "holds_status k {s} (replay (phase_write rd sha) st ws)"
    using assms
  proof (induction ws arbitrary: st r)
    case Nil
    then show ?case by (simp add: holds_status_def)
  next
    case (Cons op ws)
    show ?case
    proof (cases "phase_write rd sha st op")
      case (Inl e)
      then show ?thesis using Cons by simp
    next
      case (Inr st')
      obtain r' where r': "get_row st' k = Some r'" "row_step op r r'" using write_row[OF Inr Cons.prems(1)] by blast
      have "lp_status r' = s" using r'(2) Cons.prems(2-4) by (cases op) (auto simp: row_step_def)
      then show ?thesis using Cons.IH[OF r'(1)] Cons.prems Inr by simp
    qed
  qed
  then show ?thesis by (auto simp: holds_status_def split: option.splits)
qed

lemma note_finding_get:
  "\<exists>f. dict_get (pd_findings (note_finding sha run repo kind sev p payload now st)) (run, repo, kind, audit_fingerprint sha run repo kind p) = Some f
     \<and> af_payload f = payload"
  by (simp add: note_finding_def Let_def split: option.splits)

lemma note_finding_other:
  "k \<noteq> (run, repo, kind, audit_fingerprint sha run repo kind p) \<Longrightarrow>
   dict_get (pd_findings (note_finding sha run repo kind sev p payload now st)) k = dict_get (pd_findings st) k"
  by (simp add: note_finding_def Let_def)

lemma fingerprint_inj:
  assumes "inj sha" and "audit_fingerprint sha run repo kind p = audit_fingerprint sha run repo kind q"
  shows "p = q"
proof -
  have "show_int (phase_int p) = show_int (phase_int q)"
    using assms by (simp add: audit_fingerprint_def inj_eq)
  then show ?thesis by (simp add: show_int_inject)
qed

lemma fold_note_get:
  assumes "inj sha" and "d \<in> set ds" and "distinct (map f ds)"
  shows "\<exists>x. dict_get (pd_findings (fold (\<lambda>d. note_finding sha run repo kind sev (f d) (g d) now) ds st))
       (run, repo, kind, audit_fingerprint sha run repo kind (f d)) = Some x \<and> af_payload x = g d"
  using assms(2,3)
proof (induction ds rule: rev_induct)
  case (snoc e ds)
  show ?case
  proof (cases "f d = f e")
    case True
    with snoc.prems have "d = e" by (auto simp: image_iff)
    then show ?thesis using note_finding_get by simp
  next
    case False
    then have "(run, repo, kind, audit_fingerprint sha run repo kind (f d)) \<noteq> (run, repo, kind, audit_fingerprint sha run repo kind (f e))"
      using fingerprint_inj[OF assms(1)] by blast
    moreover have "d \<in> set ds" using snoc.prems False by auto
    ultimately show ?thesis using snoc by (simp add: note_finding_other)
  qed
qed simp

text \<open>The finding that goes with a change through one of the audited doors.\<close>

definition recorded :: "(string \<Rightarrow> string) \<Rightarrow> phase_db \<Rightarrow> phase_key \<Rightarrow> repo_status \<Rightarrow> repo_status \<Rightarrow> bool" where
  "recorded sha st k old new \<longleftrightarrow> (case k of (run, repo, p) \<Rightarrow>
     \<exists>kind \<in> {PHASE_DEMOTED_KIND, STUB_DEGRADED_KIND, OPERATOR_REOPENED_KIND}. \<exists>f why.
       dict_get (pd_findings st) (run, repo, kind, audit_fingerprint sha run repo kind p) = Some f
       \<and> af_payload f = audit_payload repo p old new why)"

lemma demotion_recorded:
  assumes "demote_to_floor sha run repo flr why now ob st = Inr (st', ds)" and "inj sha"
    and "get_row st k = Some r" and "get_row st' k = Some r'" and "lp_status r' \<noteq> lp_status r"
  shows "recorded sha st' k SUCCEEDED PENDING"
proof -
  define ps where "ps = demotable_phases (repo_statuses st run repo) flr"
  have "st' \<noteq> st" using assms(3-5) by auto
  then have ds: "ds = map (demotion_of repo why) ps"
    and row: "get_row st' k = (if k \<in> (\<lambda>p. (run, repo, p)) ` set ps
      then map_option (\<lambda>r. r\<lparr>lp_status := PENDING, lp_updated := now\<rparr>) (get_row st k) else get_row st k)"
    and fs: "pd_findings st' = pd_findings (fold (\<lambda>d. note_finding sha run repo PHASE_DEMOTED_KIND ''warn'' (demotion_phase d)
            (phase_demotion_payload d) now) ds st)"
    using demote_to_floor_Inr[OF assms(1)] unfolding ps_def[symmetric] by blast+
  obtain p where p: "k = (run, repo, p)" "p \<in> set ps"
    using row assms(3-5) by (auto split: if_splits)
  have "distinct (map demotion_phase ds)"
    by (simp add: ds demotion_of_def comp_def ps_def demotable_phases_def distinct_phases)
  then obtain f where "dict_get (pd_findings st') (run, repo, PHASE_DEMOTED_KIND, audit_fingerprint sha run repo PHASE_DEMOTED_KIND p) = Some f"
    "af_payload f = phase_demotion_payload (demotion_of repo why p)"
    using fold_note_get[OF assms(2), of "demotion_of repo why p" ds demotion_phase run repo PHASE_DEMOTED_KIND "''warn''" phase_demotion_payload now st]
      p(2) unfolding fs by (auto simp: ds demotion_of_def)
  then show ?thesis
    by (auto simp: recorded_def p(1) phase_demotion_payload_def demotion_of_def)
qed

lemma note_recorded:
  assumes "kind \<in> {PHASE_DEMOTED_KIND, STUB_DEGRADED_KIND, OPERATOR_REOPENED_KIND}"
  shows "recorded sha (note_finding sha run repo kind sev p (audit_payload repo p old new why) now st) (run, repo, p) old new"
  unfolding recorded_def prod.case using assms note_finding_get[of sha run repo kind sev p "audit_payload repo p old new why" now st] by blast

lemma door_recorded:
  assumes "phase_write rd sha st op = Inr st'" and "inj sha" and "get_row st k = Some r" and "get_row st' k = Some r'"
    and "lp_status r' \<noteq> lp_status r" and "(lp_status r, lp_status r') \<in> doors op"
  shows "recorded sha st' k (lp_status r) (lp_status r')"
proof (cases op)
  case (DemoteToFloor ru re flr why now ob)
  then obtain ds where "demote_to_floor sha ru re flr why now ob st = Inr (st', ds)" using assms(1) by auto
  with assms(2-6) demotion_recorded show ?thesis by (auto simp: DemoteToFloor)
next
  case (DegradeForStub ru re q now)
  with assms(1,3-5) obtain why where st': "st' = note_finding sha ru re STUB_DEGRADED_KIND ''warn'' q (audit_payload re q SUCCEEDED DEGRADED why) now
      (cas_status SUCCEEDED DEGRADED now (ru, re, q) st)"
    by (auto simp: stub_degrade_transform_def degrade_for_stub_def transition_def no_flags_def status_tables stub_degradation_payload_def
        split: if_splits)
  have "k = (ru, re, q)" using assms(3-5) by (auto simp: st' get_cas_status split: if_splits)
  then show ?thesis using assms(6) note_recorded by (simp add: st' DegradeForStub)
next
  case (ReopenRepo ru re why now)
  with assms(1) obtain q where st': "st' = note_finding sha ru re OPERATOR_REOPENED_KIND ''warn'' q
      (audit_payload re q REQUIRES_HUMAN_INTERVENTION PENDING why) now (cas_status REQUIRES_HUMAN_INTERVENTION PENDING now (ru, re, q) st)"
    by (auto simp: reopen_to_pending_def reopen_abandoned_def transition_def no_flags_def status_tables operator_reopen_payload_def
        split: if_splits list.splits)
  have "k = (ru, re, q)" using assms(3-5) by (auto simp: st' get_cas_status split: if_splits)
  then show ?thesis using assms(6) note_recorded by (simp add: st' ReopenRepo)
qed (use assms(6) in auto)

text \<open>
  C8: Every status change by an operation of the state repository is legal or recorded. One such write changes the status of a
  phase only along \<open>ALLOWED_TRANSITIONS\<close>, unless it demotes, degrades for a stub or reopens; then a finding for that phase,
  with the old and the new status in its payload, is in the store when the write returns. Fences and attempt counts
  never go down.
\<close>

theorem status_changes_are_legal_or_recorded:
  assumes "phase_write rd sha st op = Inr st'" and "inj sha" and "get_row st k = Some r"
  shows "\<exists>r'. get_row st' k = Some r' \<and> lp_fence r \<le> lp_fence r' \<and> lp_attempts r \<le> lp_attempts r'
    \<and> (lp_status r' = lp_status r \<or> lp_status r' \<in> ALLOWED_TRANSITIONS (lp_status r)
       \<or> recorded sha st' k (lp_status r) (lp_status r'))"
proof -
  obtain r' where r': "get_row st' k = Some r'" "row_step op r r'" using write_row[OF assms(1,3)] by blast
  with door_recorded[OF assms r'(1)] show ?thesis by (auto simp: row_step_def)
qed


text \<open>
  A demotion is exact. If no phase of the repository is with a human and the observed snapshot is still true, the
  write demotes exactly the succeeded phases from the floor upward, keeps every other column and row, returns one
  record per demoted phase in order, and, if there is any, deletes the checkpoints from the floor upward except
  those of degraded phases.
\<close>

theorem demotion_is_exact:
  assumes "\<forall>p. repo_statuses st run repo p \<noteq> Some REQUIRES_HUMAN_INTERVENTION"
    and "\<forall>o' p. ob = Some o' \<longrightarrow> (case repo_statuses st run repo p of None \<Rightarrow> PENDING | Some s \<Rightarrow> s) = (case o' p of None \<Rightarrow> PENDING | Some s \<Rightarrow> s)"
  shows "\<exists>st' ds. demote_to_floor sha run repo flr why now ob st = Inr (st', ds)
    \<and> map demotion_phase ds = filter (\<lambda>p. flr \<le> p \<and> repo_statuses st run repo p = Some SUCCEEDED) phases
    \<and> (\<forall>k. get_row st' k = (if \<exists>p. k = (run, repo, p) \<and> flr \<le> p \<and> repo_statuses st run repo p = Some SUCCEEDED
         then map_option (\<lambda>r. r\<lparr>lp_status := PENDING, lp_updated := now\<rparr>) (get_row st k) else get_row st k))
    \<and> pd_checkpoints st' = (if ds = [] then pd_checkpoints st else filter (\<lambda>((ru, re, p), _).
         \<not> (ru = run \<and> re = repo \<and> flr \<le> p \<and> repo_statuses st run repo p \<noteq> Some DEGRADED)) (pd_checkpoints st))"
proof -
  have "stale_phases (repo_statuses st run repo) o' = []" if "ob = Some o'" for o'
    using assms(2) that by (simp add: stale_phases_def filter_empty_conv)
  then have fresh: "\<not> (case ob of None \<Rightarrow> False | Some o' \<Rightarrow> stale_phases (repo_statuses st run repo) o' \<noteq> [])"
    by (cases ob) simp_all
  obtain st1 where "demote_all run repo why now (demotable_phases (repo_statuses st run repo) flr) st
      = Inr (st1, map (demotion_of repo why) (demotable_phases (repo_statuses st run repo) flr))"
    using demote_all_spec by blast
  with fresh assms(1) obtain st' ds where d: "demote_to_floor sha run repo flr why now ob st = Inr (st', ds)"
    by (simp add: demote_to_floor_def Let_def)
  have image: "k \<in> (\<lambda>p. (run, repo, p)) ` set (demotable_phases (repo_statuses st run repo) flr) \<longleftrightarrow>
      (\<exists>p. k = (run, repo, p) \<and> flr \<le> p \<and> repo_statuses st run repo p = Some SUCCEEDED)" for k
    by (auto simp: demotable_phases_def)
  note D = demote_to_floor_Inr[OF d, unfolded image]
  have "map demotion_phase ds = filter (\<lambda>p. flr \<le> p \<and> repo_statuses st run repo p = Some SUCCEEDED) phases"
    using D assms(1) by (auto simp: demotable_phases_def demotion_of_def comp_def)
  then show ?thesis using d D assms(1) by blast
qed

text \<open>
  A completion can undo a block. When a phase was blocked while a worker held it, the worker's hand-back for another
  attempt is accepted under its fence: the phase is \<open>PENDING\<close> again with all its blockers still listed, and can be
  leased at once.
\<close>

theorem handback_forgets_the_block:
  assumes "get_row st (run, repo, p) = Some r" and "lp_status r = BLOCKED" and "lp_fence r = f"
    and "lp_attempts r + 1 < lp_max_attempts r"
  shows "\<exists>st' r'. complete_phase rd run repo p f PENDING now err st = Inr (st', PENDING)
    \<and> get_row st' (run, repo, p) = Some r' \<and> lp_status r' = PENDING \<and> lp_blocked_by r' = lp_blocked_by r
    \<and> snd (acquire_phase_lease run repo p worker later ttl st') = Some (f + 1)"
  using assms by (simp add: complete_phase_def Let_def transition_def acquire_phase_lease_def)

section \<open>The reaper of the ledger\<close>

definition lease_of :: "lease_phase \<Rightarrow> lease_row" where
  "lease_of r = \<lparr>pl_status = lp_status r, pl_owner = lp_owner r, pl_fence = lp_fence r, pl_heartbeat = lp_heartbeat r,
     pl_expires = lp_expires r, pl_updated = lp_updated r\<rparr>"

definition leases_view :: "phase_db \<Rightarrow> (phase_key, lease_row) dict" where
  "leases_view st = map (\<lambda>(k, r). (k, lease_of r)) (pd_phases st)"

definition expired_holds :: "ledger_db \<Rightarrow> string \<Rightarrow> instant \<Rightarrow> (repo_id \<times> phase) list" where
  "expired_holds db run now =
     List.map_filter (\<lambda>v. map_option (\<lambda>p. (rv_repo v, p)) (rv_phase v)) (expired_rows db now run)"

lemma set_expired_holds:
  "(repo, p) \<in> set (expired_holds db run now) \<longleftrightarrow> (\<exists>v \<in> set (expired_rows db now run). rv_repo v = repo \<and> rv_phase v = Some p)"
  by (force simp: expired_holds_def map_filter_def)

lemma map_rows_view:
  assumes "\<And>k r. S k (lease_of r) = T k r" and "\<And>k r. T k r \<Longrightarrow> h k (lease_of r) = lease_of (g k r)"
  shows "map_rows S h (map (\<lambda>(k, r). (k, lease_of r)) d) = map (\<lambda>(k, r). (k, lease_of r)) (map_rows T g d)"
  using assms by (induction d) (auto simp: map_rows_def)

text \<open>
  The two tables share one reaper. On the lease columns the ledger's reaper does exactly what the reaper of the phase rows
  does when it is given the phases named by the expired holds, and reports the same number of reclaimed leases.
\<close>

theorem ledger_reaper_is_phase_reaper:
  assumes "db_phases db = leases_view st"
  shows "db_phases (fst (reap_expired_phase_leases db run now)) = leases_view (fst (reap_leases run now (expired_holds db run now) st))
    \<and> snd (reap_expired_phase_leases db run now) = snd (reap_leases run now (expired_holds db run now) st)"
proof -
  let ?view = "map (\<lambda>(k, r). (k, lease_of r))"
  have due: "lease_expired now (lease_of r) = reapable now r" "reap_lease now (lease_of r) = lease_of (reap_row now r)" for r
    by (simp_all add: lease_expired_def reapable_def lease_of_def reap_lease_def reap_row_def)
  have one: "map_rows (\<lambda>(ru, _) p. ru = run \<and> lease_expired now p) (\<lambda>_. reap_lease now) (?view d)
      = ?view (map_rows (\<lambda>(ru, _) r. ru = run \<and> reapable now r) (\<lambda>_. reap_row now) d)" for d
    by (rule map_rows_view) (auto simp: due)
  have two: "map_rows (\<lambda>(ru, repo, p) _. ru = run \<and> (\<exists>v \<in> set (expired_rows db now run). rv_repo v = repo \<and> rv_phase v = Some p))
        (\<lambda>_ l. l\<lparr>pl_fence := pl_fence l + 1, pl_updated := now\<rparr>) (?view d)
      = ?view (map_rows (\<lambda>(ru, rp) _. ru = run \<and> rp \<in> set (expired_holds db run now))
          (\<lambda>_ r. r\<lparr>lp_fence := lp_fence r + 1, lp_updated := now\<rparr>) d)" for d
    by (rule map_rows_view) (auto simp: set_expired_holds lease_of_def)
  have rows: "expired_rows (db\<lparr>db_phases := x\<rparr>) now run = expired_rows db now run" for x
    by (simp add: expired_rows_def)
  have count: "length (filter (\<lambda>((ru, _), l). ru = run \<and> lease_expired now l) (?view d))
      = length (filter (\<lambda>((ru, _), r). ru = run \<and> reapable now r) d)" for d
    by (induction d) (auto simp: due)
  have "db_phases (fst (reap_expired_phase_leases db run now)) =
      map_rows (\<lambda>(ru, repo, p) _. ru = run \<and> (\<exists>v \<in> set (expired_rows db now run). rv_repo v = repo \<and> rv_phase v = Some p))
        (\<lambda>_ l. l\<lparr>pl_fence := pl_fence l + 1, pl_updated := now\<rparr>)
        (map_rows (\<lambda>(ru, _) p. ru = run \<and> lease_expired now p) (\<lambda>_. reap_lease now) (?view (pd_phases st)))"
    using assms by (simp add: reap_expired_phase_leases_def Let_def reap_reservations_def reap_run_ledger_def reap_repo_ledgers_def
        reap_fences_def rows leases_view_def)
  moreover have "snd (reap_expired_phase_leases db run now) = length (filter (\<lambda>((ru, _), l). ru = run \<and> lease_expired now l) (?view (pd_phases st)))"
    using assms by (simp add: reap_expired_phase_leases_def Let_def leases_view_def case_prod_unfold)
  ultimately show ?thesis
    unfolding one two count by (simp add: reap_leases_def Let_def leases_view_def case_prod_unfold)
qed

text \<open>
  Un-blocking removes exactly what was planned. It writes only if the plan made outside the transaction is the
  plan made inside it; then every phase of the repository loses the planned names and no other, a blocked
  phase becomes \<open>PENDING\<close> exactly when that emptied its list, no other row or column that matters changes,
  and the phases reported are those that lost a name.
\<close>

theorem unblocking_is_exact:
  assumes "clear_blocked_by run repo ob floors resolve now sb st = Inr (st', ps)" and "get_row st k = Some r"
  shows "\<exists>r'. get_row st' k = Some r' \<and> lp_fence r' = lp_fence r \<and> lp_attempts r' = lp_attempts r
    \<and> (if fst k = run \<and> fst (snd k) = repo then
         set (lp_blocked_by r') = set (lp_blocked_by r) - set (un_removed ob)
         \<and> lp_status r' = (if lp_status r = BLOCKED \<and> lp_blocked_by r \<noteq> [] \<and> set (lp_blocked_by r) \<subseteq> set (un_removed ob)
              then PENDING else lp_status r)
       else r' = r)"
proof -
  have row: "get_row st' k = Some (if fst k = run \<and> fst (snd k) = repo then clear_row (un_removed ob) now r else r)"
    using assms by (auto simp: clear_blocked_by_def Let_def case_prod_unfold split: if_splits)
  have len: "length (filter P xs) = length xs \<longleftrightarrow> (\<forall>x \<in> set xs. P x)" for P and xs :: "string list"
    using length_filter_less[of _ xs P] by (metis filter_True less_irrefl)
  show ?thesis
    unfolding row clear_row_def Let_def len set_sorted_set
    by (auto simp: filter_empty_conv sorted_set_Nil_iff)
qed


section \<open>Witnesses\<close>

definition demo_phase_db :: phase_db where
  "demo_phase_db = \<lparr>pd_runs = [''r''], pd_repos = [''a''], pd_phases = [], pd_findings = [],
     pd_checkpoints = [((''r'', ''a'', SCAN), ''x'')], pd_stubs = []\<rparr>"

definition demo_leased :: phase_db where
  "demo_leased = replay (phase_write id id) demo_phase_db [UpsertPhase ''r'' ''a'' SCAN 0 3, AcquireLease ''r'' ''a'' SCAN ''w1'' 1 60]"

theorem superseded_holder_is_fenced_out_witness:
  "let st1 = fst (acquire_phase_lease ''r'' ''a'' SCAN ''w1'' 1 60 (replay (phase_write id id) demo_phase_db [UpsertPhase ''r'' ''a'' SCAN 0 3]));
       st2 = fst (reap_leases ''r'' 70000000 [] st1) in
     snd (acquire_phase_lease ''r'' ''a'' SCAN ''w2'' 70000001 60 st2) = Some 3
     \<and> complete_phase id ''r'' ''a'' SCAN 1 SUCCEEDED 70000002 None st2 = Inl LeaseStolen"
proof -
  define a where "a = acquire_phase_lease ''r'' ''a'' SCAN ''w1'' 1 60 (replay (phase_write id id) demo_phase_db [UpsertPhase ''r'' ''a'' SCAN 0 3])"
  define st2 where "st2 = fst (reap_leases ''r'' 70000000 [] (fst a))"
  have "snd a = Some 1" and again: "snd (acquire_phase_lease ''r'' ''a'' SCAN ''w2'' 70000001 60 st2) = Some 3"
    and row: "case get_row (fst a) (''r'', ''a'', SCAN) of None \<Rightarrow> False | Some r \<Rightarrow> reapable 70000000 r"
    unfolding st2_def a_def by code_simp+
  then have g: "acquire_phase_lease ''r'' ''a'' SCAN ''w1'' 1 60 (replay (phase_write id id) demo_phase_db [UpsertPhase ''r'' ''a'' SCAN 0 3])
      = (fst a, Some 1)"
    by (metis a_def prod.collapse)
  have "taken_over ''r'' ''a'' SCAN (replay (phase_write id id) (fst a) []) st2"
    unfolding taken_over_def using row by (auto simp: st2_def split: option.splits)
  from superseded_holder_is_fenced_out[OF g this, of 70000002 0 "[]" SUCCEEDED None] again show ?thesis
    unfolding a_def[symmetric] Let_def st2_def[symmetric] by simp
qed

definition demo_abandoned :: phase_db where
  "demo_abandoned = replay (phase_write id id) demo_leased [CompletePhase ''r'' ''a'' SCAN 1 REQUIRES_HUMAN_INTERVENTION 2 None]"

theorem no_sweep_leaves_human_intervention_witness:
  "\<exists>r'. get_row (replay (phase_write id id) demo_abandoned [ReapLeases ''r'' 99 [], DemoteToFloor ''r'' ''a'' SCAN ''lost'' 99 None]) (''r'', ''a'', SCAN) = Some r'
     \<and> lp_status r' = REQUIRES_HUMAN_INTERVENTION"
proof -
  have "case get_row demo_abandoned (''r'', ''a'', SCAN) of None \<Rightarrow> False | Some r \<Rightarrow> lp_status r = REQUIRES_HUMAN_INTERVENTION" by code_simp
  then obtain r where "get_row demo_abandoned (''r'', ''a'', SCAN) = Some r" "lp_status r = REQUIRES_HUMAN_INTERVENTION"
    by (auto split: option.splits)
  then show ?thesis by (rule no_sweep_leaves_human_intervention) auto
qed

definition demo_done :: phase_db where
  "demo_done = replay (phase_write id id) demo_leased [CompletePhase ''r'' ''a'' SCAN 1 SUCCEEDED 2 None]"

theorem status_changes_are_legal_or_recorded_witness:
  "\<exists>st'. phase_write id id demo_done (DemoteToFloor ''r'' ''a'' SCAN ''lost'' 3 None) = Inr st'
     \<and> recorded id st' (''r'', ''a'', SCAN) SUCCEEDED PENDING"
proof -
  have c: "case (get_row demo_done (''r'', ''a'', SCAN), phase_write id id demo_done (DemoteToFloor ''r'' ''a'' SCAN ''lost'' 3 None)) of
      (Some r, Inr st') \<Rightarrow> lp_status r = SUCCEEDED \<and> (case get_row st' (''r'', ''a'', SCAN) of None \<Rightarrow> False | Some r' \<Rightarrow> lp_status r' = PENDING)
    | _ \<Rightarrow> False" by code_simp
  then obtain r st' r' where r: "get_row demo_done (''r'', ''a'', SCAN) = Some r" "lp_status r = SUCCEEDED"
    and w: "phase_write id id demo_done (DemoteToFloor ''r'' ''a'' SCAN ''lost'' 3 None) = Inr st'"
    and r': "get_row st' (''r'', ''a'', SCAN) = Some r'" "lp_status r' = PENDING"
    by (auto simp del: phase_write.simps split: option.splits sum.splits)
  from status_changes_are_legal_or_recorded[OF w inj_on_id r(1)] r(2) r' w show ?thesis by auto
qed

theorem demotion_is_exact_witness:
  "\<exists>st' ds. demote_to_floor id ''r'' ''a'' SCAN ''lost'' 3 None demo_done = Inr (st', ds) \<and> map demotion_phase ds = [SCAN]"
proof -
  have "list_all (\<lambda>p. repo_statuses demo_done ''r'' ''a'' p \<noteq> Some REQUIRES_HUMAN_INTERVENTION) phases"
    and f: "filter (\<lambda>p. SCAN \<le> p \<and> repo_statuses demo_done ''r'' ''a'' p = Some SUCCEEDED) phases = [SCAN]" by code_simp+
  then have "\<forall>p. repo_statuses demo_done ''r'' ''a'' p \<noteq> Some REQUIRES_HUMAN_INTERVENTION" by (simp add: list_all_iff)
  from demotion_is_exact[OF this, of None id SCAN "''lost''" 3] f show ?thesis by auto
qed

definition demo_blocked :: phase_db where
  "demo_blocked = replay (phase_write id id) demo_leased [BlockRepo ''r'' ''a'' ''b'' 2]"

theorem handback_forgets_the_block_witness:
  "\<exists>st' r'. complete_phase id ''r'' ''a'' SCAN 1 PENDING 3 None demo_blocked = Inr (st', PENDING)
    \<and> get_row st' (''r'', ''a'', SCAN) = Some r' \<and> lp_status r' = PENDING \<and> lp_blocked_by r' = [''b'']"
proof -
  have "case get_row demo_blocked (''r'', ''a'', SCAN) of None \<Rightarrow> False | Some r \<Rightarrow>
      lp_status r = BLOCKED \<and> lp_fence r = 1 \<and> lp_attempts r + 1 < lp_max_attempts r \<and> lp_blocked_by r = [''b'']" by code_simp
  then obtain r where r: "get_row demo_blocked (''r'', ''a'', SCAN) = Some r" "lp_status r = BLOCKED" "lp_fence r = 1"
      "lp_attempts r + 1 < lp_max_attempts r" and b: "lp_blocked_by r = [''b'']"
    by (auto split: option.splits)
  from handback_forgets_the_block[OF r, of id 3 None "''w2''" 4 60] b show ?thesis by auto
qed

theorem ledger_reaper_is_phase_reaper_witness:
  "snd (reap_expired_phase_leases (demo_store\<lparr>db_phases := leases_view demo_leased\<rparr>) ''r'' 99000000) = 1"
proof -
  have "snd (reap_leases ''r'' 99000000 (expired_holds (demo_store\<lparr>db_phases := leases_view demo_leased\<rparr>) ''r'' 99000000) demo_leased) = 1"
    by code_simp
  with ledger_reaper_is_phase_reaper[of "demo_store\<lparr>db_phases := leases_view demo_leased\<rparr>" demo_leased "''r''" 99000000] show ?thesis by simp
qed

definition demo_resolve :: "phase_db \<Rightarrow> string set \<Rightarrow> string \<rightharpoonup> blocker_state" where
  "demo_resolve st names n = Some \<lparr>phase_statuses = [SUCCEEDED]\<rparr>"

theorem unblocking_is_exact_witness:
  "\<exists>st' ps r'. clear_blocked_by ''r'' ''a'' \<lparr>un_repo_id = ''a'', un_removed = [''b''], un_remaining = [], un_floor = None\<rparr>
       Map.empty demo_resolve 4 False demo_blocked = Inr (st', ps)
     \<and> get_row st' (''r'', ''a'', SCAN) = Some r' \<and> lp_status r' = PENDING \<and> lp_blocked_by r' = []"
proof -
  let ?c = "clear_blocked_by ''r'' ''a'' \<lparr>un_repo_id = ''a'', un_removed = [''b''], un_remaining = [], un_floor = None\<rparr>
       Map.empty demo_resolve 4 False demo_blocked"
  have "case ?c of Inl _ \<Rightarrow> False | Inr _ \<Rightarrow> True"
    and "case get_row demo_blocked (''r'', ''a'', SCAN) of None \<Rightarrow> False | Some r \<Rightarrow> lp_status r = BLOCKED \<and> lp_blocked_by r = [''b'']"
    by code_simp+
  then obtain st' ps r where c: "?c = Inr (st', ps)" and r: "get_row demo_blocked (''r'', ''a'', SCAN) = Some r"
    and b: "lp_status r = BLOCKED" "lp_blocked_by r = [''b'']"
    by (auto split: sum.splits option.splits)
  from unblocking_is_exact[OF c r] b c show ?thesis by auto
qed

end
