(* ===== verification/Collisions.thy ===== *)
theory Collisions
  imports Coarsen Py_Text
begin

text \<open>
  The pre-transformation audit of \<open>src/fleet/graph/collisions.py\<close>: five detectors over claim records, each with its
  findings, the destination rewrites and the dropped paths. The three patterns of the module are written
  out as recognizers on their strings. The fingerprint of a finding, a digest of its JSON, is an argument; the
  \<open>detected_at\<close> stamp of a row is left out. Two entries of an input sequence are two objects.
\<close>

section \<open>Claims and rows\<close>

record coordinate_claim =
  cc_coord_key :: coord_key
  cc_repo_id :: repo_id
  cc_ecosystem :: ecosystem
  cc_depth :: int
  cc_commit_count :: int

record contract_claim =
  kc_contract_id :: contract_id
  kc_repo_id :: repo_id
  kc_blob_sha :: string
  kc_vendored :: bool
  kc_owner :: bool

record dest_claim =
  dc_node_id :: string
  dc_dest :: string
  dc_node_kind :: node_kind
  dc_explicit :: bool
  dc_hoisted :: bool
  dc_inbound :: int

record file_claim =
  fc_path :: string
  fc_repo_id :: repo_id
  fc_blob_sha :: string
  fc_wave_index :: int
  fc_contract_id :: "contract_id option"
  fc_hoisted :: bool

record version_requirement =
  vr_coord_key :: coord_key
  vr_repo_id :: repo_id
  vr_spec :: string

record collision_input =
  ci_coordinates :: "coordinate_claim list"
  ci_contracts :: "contract_claim list"
  ci_dests :: "dest_claim list"
  ci_files :: "file_claim list"
  ci_versions :: "version_requirement list"
  ci_owns_hints :: "(string, repo_id) dict"
  ci_vendor_repo_ids :: "repo_id list"

datatype collision_kind = COORDINATE | CONTRACT_KEY | DEST_PATH | FILE_PATH | DEP_VERSION

fun collision_kind_value :: "collision_kind \<Rightarrow> string" where
  "collision_kind_value COORDINATE = ''COORDINATE''"
| "collision_kind_value CONTRACT_KEY = ''CONTRACT''"
| "collision_kind_value DEST_PATH = ''DEST_PATH''"
| "collision_kind_value FILE_PATH = ''FILE_PATH''"
| "collision_kind_value DEP_VERSION = ''DEP_VERSION''"

record collision_finding =
  cf_kind :: collision_kind
  cf_key :: string
  cf_repo_ids :: "repo_id list"
  cf_blob_shas :: "string list"
  cf_severity :: severity
  cf_resolution :: "string option"

datatype collision_error = InvalidCollision

text \<open>The constructor of the row: texts are stripped, then the key must not be empty and there are two valid repository ids.\<close>

definition collision_finding_of ::
  "collision_kind \<Rightarrow> string \<Rightarrow> repo_id list \<Rightarrow> string list \<Rightarrow> severity \<Rightarrow> string option \<Rightarrow> collision_error + collision_finding" where
  "collision_finding_of kind key repo_ids shas sev res =
     (if model_strip key \<noteq> [] \<and> length repo_ids \<ge> 2 \<and> list_all (repo_id_ok \<circ> model_strip) repo_ids
      then Inr \<lparr>cf_kind = kind, cf_key = model_strip key, cf_repo_ids = map model_strip repo_ids,
                cf_blob_shas = map model_strip shas, cf_severity = sev, cf_resolution = map_option model_strip res\<rparr>
      else Inl InvalidCollision)"

record collision_report =
  cr_collisions :: "collision_finding list"
  cr_findings :: "graph_finding list"
  cr_dest_rewrites :: "(string, string) dict"
  cr_dropped_paths :: "(repo_id, string list) dict"

definition blocking :: "collision_report \<Rightarrow> collision_finding list" where
  "blocking rep = filter (\<lambda>c. cf_severity c = ERROR \<and> cf_resolution c = None) (cr_collisions rep)"

definition audit_ok :: "collision_report \<Rightarrow> bool" where
  "audit_ok rep \<longleftrightarrow> blocking rep = []"

definition ownership_rank :: "bool \<Rightarrow> int \<Rightarrow> int \<Rightarrow> repo_id \<Rightarrow> bool \<times> int \<times> int \<times> repo_id" where
  "ownership_rank publishes depth commit_count repo = (\<not> publishes, depth, - commit_count, repo)"

section \<open>Coordinates and contracts\<close>

definition claim_rank :: "coordinate_claim \<Rightarrow> bool \<times> int \<times> int \<times> repo_id" where
  "claim_rank c = ownership_rank True (cc_depth c) (cc_commit_count c) (cc_repo_id c)"

definition coordinate_winner :: "collision_input \<Rightarrow> coord_key \<Rightarrow> coordinate_claim list \<Rightarrow> repo_id \<times> string" where
  "coordinate_winner data key claims =
     (case dict_get (ci_owns_hints data) key of
        Some hinted \<Rightarrow>
          if hinted \<in> cc_repo_id ` set claims then (hinted, ''owns-hint'')
          else (cc_repo_id (arg_min_list claim_rank claims), ''ladder:depth,commit-count,repo-id'')
      | None \<Rightarrow> (cc_repo_id (arg_min_list claim_rank claims), ''ladder:depth,commit-count,repo-id''))"

definition coordinate_collision :: "collision_input \<Rightarrow> coord_key \<times> coordinate_claim list \<Rightarrow> (collision_error + collision_finding) option" where
  "coordinate_collision data = (\<lambda>(key, claims).
     let repo_ids = sorted_set (map cc_repo_id claims);
         divergent = (length (remdups (map cc_ecosystem claims)) > 1);
         (winner, rule) = coordinate_winner data key claims in
     if length repo_ids < 2 then None
     else Some (collision_finding_of COORDINATE key repo_ids [] (if divergent then ERROR else WARN)
            (if divergent then None else Some (rule @ '':'' @ winner))))"

definition coordinate_collisions :: "collision_input \<Rightarrow> (collision_error + collision_finding) list" where
  "coordinate_collisions data =
     List.map_filter (coordinate_collision data)
       (sort_key fst (group_by cc_coord_key (sort_key (\<lambda>c. (cc_coord_key c, cc_repo_id c)) (ci_coordinates data))))"

definition contract_owner :: "collision_input \<Rightarrow> contract_id \<Rightarrow> contract_claim list \<Rightarrow> repo_id" where
  "contract_owner data key claims =
     (let fallback = (case find kc_owner claims of Some c \<Rightarrow> kc_repo_id c | None \<Rightarrow> hd (sorted_set (map kc_repo_id claims))) in
      case dict_get (ci_owns_hints data) key of
        Some hinted \<Rightarrow> if hinted = [] then fallback else hinted
      | None \<Rightarrow> fallback)"

definition contract_collision :: "collision_input \<Rightarrow> contract_id \<times> contract_claim list \<Rightarrow> (collision_error + collision_finding) option" where
  "contract_collision data = (\<lambda>(key, claims).
     let repo_ids = sorted_set (map kc_repo_id claims);
         shas = sorted_set (filter (\<lambda>s. s \<noteq> []) (map kc_blob_sha claims));
         identical = (length shas \<le> 1);
         outside = map kc_repo_id (filter (\<lambda>c. \<not> kc_vendored c \<and> kc_repo_id c \<notin> set (ci_vendor_repo_ids data)) claims) in
     if length repo_ids < 2 then None
     else Some (collision_finding_of CONTRACT_KEY key repo_ids shas
            (if identical \<or> length (remdups outside) < 2 then WARN else ERROR)
            (Some (''owner:'' @ contract_owner data key claims @ ''; losers become consumers ('' @ section_sign @ ''3.1 5b iv)''))))"

definition contract_collisions :: "collision_input \<Rightarrow> (collision_error + collision_finding) list" where
  "contract_collisions data =
     List.map_filter (contract_collision data)
       (sort_key fst (group_by kc_contract_id (sort_key (\<lambda>c. (kc_contract_id c, kc_repo_id c)) (ci_contracts data))))"

section \<open>Destinations\<close>

definition is_reserved :: "string \<Rightarrow> bool" where
  "is_reserved dest \<longleftrightarrow> RESERVED_SCC_SEGMENT \<in> set (filter (\<lambda>s. s \<noteq> []) (segments dest))"

definition moved_dest :: "string \<Rightarrow> string \<Rightarrow> string" where
  "moved_dest dest node = rstrip_slash dest @ ''-'' @ node"

definition evicted :: "dest_claim \<Rightarrow> bool" where
  "evicted c \<longleftrightarrow> dc_node_kind c = REPO \<and> is_reserved (dc_dest c)"

definition evict :: "dest_claim \<Rightarrow> (string, string) dict \<times> graph_finding list \<Rightarrow> (string, string) dict \<times> graph_finding list" where
  "evict c = (\<lambda>(rewrites, findings).
     if evicted c then
       (dict_set rewrites (dc_node_id c) (moved_dest (dc_dest c) (dc_node_id c)),
        findings @ [\<lparr>gf_kind = ''ReservedDestPath'', gf_severity = ERROR, gf_repo_id = Some (dc_node_id c),
          gf_payload = [(''dest'', dc_dest c), (''reserved'', RESERVED_SCC_SEGMENT),
                        (''rewritten_to'', moved_dest (dc_dest c) (dc_node_id c))]\<rparr>])
     else (rewrites, findings))"

definition dest_after :: "(string, string) dict \<Rightarrow> dest_claim \<Rightarrow> string" where
  "dest_after rewrites c = (case dict_get rewrites (dc_node_id c) of None \<Rightarrow> dc_dest c | Some d \<Rightarrow> d)"

definition dest_winner :: "dest_claim list \<Rightarrow> dest_claim" where
  "dest_winner grp = arg_min_list (\<lambda>c. (if dc_hoisted c then 0 else 1 :: int, - dc_inbound c, dc_node_id c)) grp"

definition dest_losers :: "dest_claim list \<Rightarrow> dest_claim list" where
  "dest_losers grp = filter (\<lambda>c. dc_node_id c \<noteq> dc_node_id (dest_winner grp)) grp"

definition group_severity :: "dest_claim list \<Rightarrow> severity" where
  "group_severity grp = (if \<exists>c \<in> set grp. dc_explicit c then ERROR else WARN)"

definition move_loser ::
  "string \<Rightarrow> dest_claim list \<Rightarrow> dest_claim \<Rightarrow> (string, string) dict \<times> graph_finding list \<Rightarrow> (string, string) dict \<times> graph_finding list" where
  "move_loser dest grp c = (\<lambda>(rewrites, findings).
     (dict_set rewrites (dc_node_id c) (moved_dest dest (dc_node_id c)),
      findings @ [\<lparr>gf_kind = ''DestPathRewritten'', gf_severity = group_severity grp,
        gf_repo_id = (if dc_node_kind c = REPO then Some (dc_node_id c) else None),
        gf_payload = [(''dest'', dest), (''winner'', dc_node_id (dest_winner grp)),
                      (''rewritten_to'', moved_dest dest (dc_node_id c))]\<rparr>]))"

definition dest_collision :: "string \<Rightarrow> dest_claim list \<Rightarrow> (collision_error + collision_finding) option" where
  "dest_collision dest grp =
     (let repo_ids = sorted_set (map dc_node_id (filter (\<lambda>c. dc_node_kind c = REPO) grp)) in
      if length repo_ids < 2 then None
      else Some (collision_finding_of DEST_PATH dest repo_ids [] (group_severity grp)
             (Some (''keep:'' @ dc_node_id (dest_winner grp) @ ''; ''
                @ comma_join (map (\<lambda>c. dc_node_id c @ ''->'' @ moved_dest dest (dc_node_id c)) (dest_losers grp))))))"

type_synonym dest_state = "((string, string) dict \<times> graph_finding list) \<times> (collision_error + collision_finding) list"

definition settle_dest :: "string \<times> dest_claim list \<Rightarrow> dest_state \<Rightarrow> dest_state" where
  "settle_dest = (\<lambda>(dest, grp) (st, rows).
     if length grp < 2 then (st, rows)
     else (fold (move_loser dest grp) (dest_losers grp) st,
           rows @ (case dest_collision dest grp of None \<Rightarrow> [] | Some r \<Rightarrow> [r])))"

definition sorted_dests :: "collision_input \<Rightarrow> dest_claim list" where
  "sorted_dests data = sort_key (\<lambda>d. (dc_dest d, node_kind_value (dc_node_kind d), dc_node_id d)) (ci_dests data)"

definition dest_collisions :: "collision_input \<Rightarrow> graph_finding list \<Rightarrow> (string, string) dict \<Rightarrow> dest_state" where
  "dest_collisions data findings rewrites =
     (let claims = sorted_dests data;
          (rewrites1, findings1) = fold evict claims (rewrites, findings) in
      fold settle_dest (sort_key fst (group_by (dest_after rewrites1) claims)) ((rewrites1, findings1), []))"

section \<open>Files\<close>

definition WARN_DIVERGENT_BASENAMES :: "string list" where
  "WARN_DIVERGENT_BASENAMES = [''.gitignore'', ''.gitattributes'', ''.editorconfig'', ''.dockerignore'']"

definition warn_name :: "string \<Rightarrow> bool" where
  "warn_name name \<longleftrightarrow>
     list_ex (\<lambda>s. list_ex (\<lambda>stem.
        let rest = drop (length stem) (lower s) in
        take (length stem) (lower s) = stem
        \<and> (rest = [] \<or> hd rest = CHR ''.'' \<and> tl rest \<noteq> [] \<and> list_all is_lower (tl rest)))
       [''license'', ''licence'', ''copying'', ''notice'', ''authors'']) (before_end name)"

definition warn_dir :: "string \<Rightarrow> bool" where
  "warn_dir path \<longleftrightarrow>
     list_ex (\<lambda>s. list_ex (\<lambda>d. d \<in> set (segments s)) [''.github'', ''.circleci'', ''.gitlab'', ''ci'', ''.buildkite'']) (before_end path)"

definition divergent_severity :: "string \<Rightarrow> severity" where
  "divergent_severity path =
     (let segs = filter (\<lambda>s. s \<noteq> []) (segments path);
          basename = (if segs = [] then path else last segs) in
      if ''src'' \<in> set segs then ERROR
      else if basename \<in> set WARN_DIVERGENT_BASENAMES then WARN
      else if warn_name basename \<or> warn_dir path then WARN
      else ERROR)"

definition hoisted_index :: "file_claim list \<Rightarrow> nat option" where
  "hoisted_index grp =
     find (\<lambda>i. fc_hoisted (grp ! i) \<and> fc_contract_id (grp ! i) \<noteq> None \<and> fc_contract_id (grp ! i) \<noteq> Some []) [0..<length grp]"

definition later_claim :: "file_claim list \<Rightarrow> file_claim" where
  "later_claim grp = arg_max_list (\<lambda>c. (fc_wave_index c, fc_repo_id c)) grp"

definition drop_path :: "string \<Rightarrow> file_claim \<Rightarrow> (repo_id, string set) dict \<Rightarrow> (repo_id, string set) dict" where
  "drop_path path c d =
     dict_set d (fc_repo_id c) (insert path (case dict_get d (fc_repo_id c) of None \<Rightarrow> {} | Some ps \<Rightarrow> ps))"

definition blob_shas :: "file_claim list \<Rightarrow> string list" where
  "blob_shas grp = sorted_set (filter (\<lambda>s. s \<noteq> []) (map fc_blob_sha grp))"

type_synonym file_state = "graph_finding list \<times> (repo_id, string set) dict \<times> (collision_error + collision_finding) list"

definition suffixed :: "string \<Rightarrow> file_claim \<Rightarrow> string" where
  "suffixed path c = path @ ''.'' @ fc_repo_id c"

definition resolve_file ::
  "string \<Rightarrow> file_claim list \<Rightarrow> graph_finding list \<Rightarrow> (repo_id, string set) dict
   \<Rightarrow> (string \<times> severity) \<times> graph_finding list \<times> (repo_id, string set) dict" where
  "resolve_file path grp findings dropped =
     (case hoisted_index grp of
        Some i \<Rightarrow>
          ((''hoisted:'' @ the (fc_contract_id (grp ! i)), WARN), findings,
           fold (\<lambda>j. drop_path path (grp ! j)) (filter (\<lambda>j. j \<noteq> i) [0..<length grp]) dropped)
      | None \<Rightarrow>
          if length (blob_shas grp) \<le> 1
          then ((''dedupe:identical-blob; written once, both targets reference it'', WARN), findings, dropped)
          else
            let later = later_claim grp; sev = divergent_severity path in
            ((''suffix:'' @ fc_repo_id later @ ''->'' @ suffixed path later, sev),
             findings @ [\<lparr>gf_kind = ''DuplicateDivergent'', gf_severity = sev, gf_repo_id = Some (fc_repo_id later),
               gf_payload = [(''path'', path), (''rewritten_to'', suffixed path later)]\<rparr>], dropped))"

definition settle_file :: "string \<times> file_claim list \<Rightarrow> file_state \<Rightarrow> file_state" where
  "settle_file = (\<lambda>(path, grp) (findings, dropped, rows).
     if length (remdups (map (\<lambda>c. (fc_repo_id c, fc_contract_id c)) grp)) < 2 then (findings, dropped, rows)
     else
       let repo_ids = sorted_set (map fc_repo_id grp);
           ((resolution, sev), findings1, dropped1) = resolve_file path grp findings dropped in
       (findings1, dropped1,
        if length repo_ids < 2 then rows
        else rows @ [collision_finding_of FILE_PATH path repo_ids (blob_shas grp) sev (Some resolution)]))"

definition file_groups :: "collision_input \<Rightarrow> (string, file_claim list) dict" where
  "file_groups data =
     sort_key fst (group_by fc_path (sort_key (\<lambda>f. (fc_path f, fc_repo_id f, fc_blob_sha f)) (ci_files data)))"

definition file_collisions :: "collision_input \<Rightarrow> graph_finding list \<Rightarrow> (repo_id, string set) dict \<Rightarrow> file_state" where
  "file_collisions data findings dropped = fold settle_file (file_groups data) (findings, dropped, [])"

section \<open>Versions\<close>

type_synonym version = "nat list"
type_synonym bound = "version \<times> bool"

text \<open>\<open>_parse\<close>: the components, padded to three, and how many were written (at most three).\<close>

definition parse_version :: "string \<Rightarrow> version \<times> nat" where
  "parse_version text =
     (let parts = map read_nat (split_on (\<lambda>c. c = CHR ''.'') text) in
      (parts @ replicate (3 - length parts) 0, min (length parts) 3))"

definition caret_ceiling :: "version \<Rightarrow> version" where
  "caret_ceiling v =
     (if v ! 0 \<noteq> 0 then [v ! 0 + 1, 0, 0] else if v ! 1 \<noteq> 0 then [0, v ! 1 + 1, 0] else [0, 0, v ! 2 + 1])"

definition widen_ceiling :: "version \<Rightarrow> nat \<Rightarrow> nat \<Rightarrow> version" where
  "widen_ceiling v precision floor_precision =
     (if precision \<le> floor_precision then [v ! 0 + 1, 0, 0] else [v ! 0, v ! 1 + 1, 0])"

definition tilde_ceiling :: "version \<Rightarrow> nat \<Rightarrow> version" where
  "tilde_ceiling v precision = widen_ceiling v precision 1"

definition compatible_release_ceiling :: "version \<Rightarrow> nat \<Rightarrow> version" where
  "compatible_release_ceiling v precision = widen_ceiling v precision 2"

text \<open>\<open>_VERSION_ATOM\<close>: an optional operator, optional white space, an optional \<open>v\<close> and dotted digits.\<close>

definition VERSION_OPS :: "string list" where
  "VERSION_OPS = [''=='', ''>='', ''<='', ''~='', ''='', ''>'', ''<'', ''^'', ''~>'', ''~'']"

definition version_text :: "string \<Rightarrow> string option" where
  "version_text s =
     (let body = dropWhile py_space s;
          digits = (if body \<noteq> [] \<and> hd body = CHR ''v'' then tl body else body) in
      if list_all (\<lambda>w. w \<noteq> [] \<and> list_all is_digit w) (split_on (\<lambda>c. c = CHR ''.'') digits) then Some digits else None)"

definition match_atom :: "string \<Rightarrow> (string \<times> string) option" where
  "match_atom atom =
     (let tries = map (\<lambda>op. (op, drop (length op) atom)) (filter (\<lambda>op. take (length op) atom = op) VERSION_OPS) @ [([], atom)] in
      case List.map_filter (\<lambda>(op, rest). map_option (Pair op) (version_text rest)) tries of
        [] \<Rightarrow> None
      | m # _ \<Rightarrow> Some m)"

definition atom_bounds :: "string \<Rightarrow> string \<Rightarrow> bound option \<times> bound option \<Rightarrow> bound option \<times> bound option" where
  "atom_bounds op0 text = (\<lambda>(low, high).
     let op = (if op0 = [] then ''=='' else op0); (v, precision) = parse_version text in
     if op = ''=='' \<or> op = ''='' then (Some (v, True), Some (v, True))
     else if op = ''>='' then (Some (v, True), high)
     else if op = ''>'' then (Some (v, False), high)
     else if op = ''<='' then (low, Some (v, True))
     else if op = ''<'' then (low, Some (v, False))
     else if op = ''^'' then (Some (v, True), Some (caret_ceiling v, False))
     else if op = ''~='' then (Some (v, True), Some (compatible_release_ceiling v precision, False))
     else (Some (v, True), Some (tilde_ceiling v precision, False)))"

fun bounds_loop :: "string list \<Rightarrow> bound option \<times> bound option \<Rightarrow> (bound option \<times> bound option) option" where
  "bounds_loop [] acc = Some acc"
| "bounds_loop (atom # atoms) acc =
     (case match_atom atom of
        None \<Rightarrow> None
      | Some (op, text) \<Rightarrow> bounds_loop atoms (atom_bounds op text acc))"

definition spec_atoms :: "string \<Rightarrow> string list" where
  "spec_atoms spec = pieces (\<lambda>c. c = CHR '','' \<or> py_space c) (strip spec)"

definition spec_bounds :: "string \<Rightarrow> (bound option \<times> bound option) option" where
  "spec_bounds spec = (if spec_atoms spec = [] then None else bounds_loop (spec_atoms spec) (None, None))"

definition tighter_low :: "bound \<Rightarrow> bound \<Rightarrow> bool" where
  "tighter_low a b \<longleftrightarrow> (fst a, \<not> snd a) > (fst b, \<not> snd b)"

definition tighter_high :: "bound \<Rightarrow> bound \<Rightarrow> bool" where
  "tighter_high a b \<longleftrightarrow> (fst a, snd a) < (fst b, snd b)"

definition narrow :: "(bound \<Rightarrow> bound \<Rightarrow> bool) \<Rightarrow> bound option \<Rightarrow> bound option \<Rightarrow> bound option" where
  "narrow tighter new old =
     (case new of
        None \<Rightarrow> old
      | Some n \<Rightarrow> (case old of None \<Rightarrow> Some n | Some m \<Rightarrow> if tighter n m then Some n else Some m))"

fun intersect_loop :: "string list \<Rightarrow> bound option \<times> bound option \<Rightarrow> bound option \<times> bound option" where
  "intersect_loop [] acc = acc"
| "intersect_loop (spec # specs) (lo, hi) =
     (case spec_bounds spec of
        None \<Rightarrow> intersect_loop specs (lo, hi)
      | Some (low, high) \<Rightarrow> intersect_loop specs (narrow tighter_low low lo, narrow tighter_high high hi))"

definition meets :: "bound option \<Rightarrow> bound option \<Rightarrow> bool" where
  "meets lo hi =
     (case (lo, hi) of
        (Some (l, li), Some (h, hincl)) \<Rightarrow> if l > h then False else \<not> (l = h \<and> \<not> (li \<and> hincl))
      | _ \<Rightarrow> True)"

definition intersects :: "string list \<Rightarrow> bool" where
  "intersects specs = (let (lo, hi) = intersect_loop specs (None, None) in meets lo hi)"

definition version_collision :: "coord_key \<times> version_requirement list \<Rightarrow> (collision_error + collision_finding) option" where
  "version_collision = (\<lambda>(key, reqs).
     let repo_ids = sorted_set (map vr_repo_id reqs); specs = sorted_set (map vr_spec reqs) in
     if length repo_ids < 2 \<or> length specs < 2 then None
     else Some (collision_finding_of DEP_VERSION key repo_ids [] (if intersects specs then WARN else ERROR)
            (if intersects specs then Some ''mvs:bazel_dep selects the minimum version satisfying every spec'' else None)))"

definition version_collisions :: "collision_input \<Rightarrow> (collision_error + collision_finding) list" where
  "version_collisions data =
     List.map_filter version_collision
       (sort_key fst (group_by vr_coord_key (sort_key (\<lambda>r. (vr_coord_key r, vr_repo_id r, vr_spec r)) (ci_versions data))))"

section \<open>The audit\<close>

definition audit_collisions :: "(graph_finding \<Rightarrow> string) \<Rightarrow> collision_input \<Rightarrow> collision_error + collision_report" where
  "audit_collisions fingerprint data =
     (let ((rewrites, findings1), dest_rows) = dest_collisions data [] [];
          (findings, dropped, file_rows) = file_collisions data findings1 [] in
      rbind (traverse id (coordinate_collisions data @ contract_collisions data @ dest_rows @ file_rows @ version_collisions data))
        (\<lambda>collisions. Inr
          \<lparr>cr_collisions = sort_key (\<lambda>c. (collision_kind_value (cf_kind c), cf_key c)) collisions,
           cr_findings = sort_key (\<lambda>f. (gf_kind f, case gf_repo_id f of None \<Rightarrow> [] | Some r \<Rightarrow> r, fingerprint f)) findings,
           cr_dest_rewrites = sort_key fst rewrites,
           cr_dropped_paths = sort_key fst (map (\<lambda>(r, ps). (r, sorted_list_of_set ps)) dropped)\<rparr>))"

end
