(* ===== verification/Version_Correct.thy ===== *)
theory Version_Correct
  imports Collisions
begin

text \<open>
  The version arithmetic of \<open>src/fleet/graph/collisions.py\<close>: the bounds read off a requirement contain every version it admits,
  and the intersection test compares the tightest of them.
\<close>

section \<open>Version bounds\<close>

definition low_key :: "bound \<Rightarrow> version \<times> bool" where
  "low_key b = (fst b, \<not> snd b)"

lemma meets_mono:
  assumes "meets (Some l) (Some h)" and "low_key l' \<le> low_key l" and "h \<le> h'"
  shows "meets (Some l') (Some h')"
  using assms by (cases l; cases l'; cases h; cases h') (auto simp: meets_def low_key_def less_eq_prod_def split: if_splits)

definition lows :: "string list \<Rightarrow> bound set" where
  "lows specs = {l. \<exists>s \<in> set specs. \<exists>h. spec_bounds s = Some (Some l, h)}"

definition highs :: "string list \<Rightarrow> bound set" where
  "highs specs = {h. \<exists>s \<in> set specs. \<exists>l. spec_bounds s = Some (l, Some h)}"

lemma lows_Cons: "lows (s # specs) = {l. \<exists>h. spec_bounds s = Some (Some l, h)} \<union> lows specs"
  by (auto simp: lows_def)

lemma highs_Cons: "highs (s # specs) = {h. \<exists>l. spec_bounds s = Some (l, Some h)} \<union> highs specs"
  by (auto simp: highs_def)

definition best_low :: "bound set \<Rightarrow> bound option \<Rightarrow> bool" where
  "best_low bs b = (case b of None \<Rightarrow> bs = {} | Some x \<Rightarrow> x \<in> bs \<and> (\<forall>y \<in> bs. low_key y \<le> low_key x))"

definition best_high :: "bound set \<Rightarrow> bound option \<Rightarrow> bool" where
  "best_high bs b = (case b of None \<Rightarrow> bs = {} | Some x \<Rightarrow> x \<in> bs \<and> (\<forall>y \<in> bs. x \<le> y))"

lemma best_low_narrow:
  assumes "best_low bs b"
  shows "best_low (set_option new \<union> bs) (narrow tighter_low new b)"
proof (cases new)
  case (Some n)
  show ?thesis
  proof (cases b)
    case (Some m)
    have le: "low_key y \<le> low_key m" if "y \<in> bs" for y using assms Some that by (simp add: best_low_def)
    have "tighter_low n m \<longleftrightarrow> low_key m < low_key n" by (simp add: tighter_low_def low_key_def)
    then show ?thesis
      using assms Some \<open>new = Some n\<close> le by (fastforce simp: best_low_def narrow_def dest: le)
  qed (use assms \<open>new = Some n\<close> in \<open>simp add: best_low_def narrow_def\<close>)
qed (use assms in \<open>simp add: narrow_def\<close>)

lemma best_high_narrow:
  assumes "best_high bs b"
  shows "best_high (set_option new \<union> bs) (narrow tighter_high new b)"
proof (cases new)
  case (Some n)
  show ?thesis
  proof (cases b)
    case (Some m)
    have le: "m \<le> y" if "y \<in> bs" for y using assms Some that by (simp add: best_high_def)
    have "tighter_high n m \<longleftrightarrow> n < m" by (simp add: tighter_high_def)
    then show ?thesis
      using assms Some \<open>new = Some n\<close> by (fastforce simp: best_high_def narrow_def dest: le)
  qed (use assms \<open>new = Some n\<close> in \<open>simp add: best_high_def narrow_def\<close>)
qed (use assms in \<open>simp add: narrow_def\<close>)

lemma intersect_loop_best:
  assumes "best_low ls (fst acc)" and "best_high hs (snd acc)"
  shows "best_low (lows specs \<union> ls) (fst (intersect_loop specs acc))
       \<and> best_high (highs specs \<union> hs) (snd (intersect_loop specs acc))"
  using assms
proof (induction specs acc arbitrary: ls hs rule: intersect_loop.induct)
  case (1 acc)
  then show ?case by (simp add: lows_def highs_def)
next
  case (2 spec specs lo hi)
  show ?case
  proof (cases "spec_bounds spec")
    case None
    then show ?thesis using 2 by (simp add: lows_Cons highs_Cons)
  next
    case (Some b)
    obtain low high where b: "b = (low, high)" by (cases b)
    have "{l. \<exists>h. spec_bounds spec = Some (Some l, h)} = set_option low"
      "{h. \<exists>l. spec_bounds spec = Some (l, Some h)} = set_option high"
      using Some b by auto
    moreover have "best_low (lows specs \<union> (set_option low \<union> ls)) (fst (intersect_loop specs (narrow tighter_low low lo, narrow tighter_high high hi)))
      \<and> best_high (highs specs \<union> (set_option high \<union> hs)) (snd (intersect_loop specs (narrow tighter_low low lo, narrow tighter_high high hi)))"
      using 2 Some b by (intro "2.IH") (auto intro: best_low_narrow best_high_narrow)
    ultimately show ?thesis
      using Some b by (simp add: lows_Cons highs_Cons Un_ac)
  qed
qed

lemma intersects_iff: "intersects specs \<longleftrightarrow> (\<forall>l \<in> lows specs. \<forall>h \<in> highs specs. meets (Some l) (Some h))"
proof -
  obtain lo hi where loop: "intersect_loop specs (None, None) = (lo, hi)" by (rule prod.exhaust)
  have "best_low (lows specs) lo \<and> best_high (highs specs) hi"
    using intersect_loop_best[of "{}" "(None, None)" "{}" specs] loop by (simp add: best_low_def best_high_def)
  moreover have "meets None h" "meets h None" for h by (simp_all add: meets_def split: option.splits)
  ultimately show ?thesis
    using loop by (cases lo; cases hi) (auto simp: intersects_def best_low_def best_high_def intro: meets_mono)
qed

text \<open>What an atom asks of a version: the reference reading of each operator.\<close>

fun atom_holds :: "string \<times> string \<Rightarrow> version \<Rightarrow> bool" where
  "atom_holds (op, text) v =
     (let (w, precision) = parse_version text in
      if op \<in> {[], ''=='', ''=''} then v = w
      else if op = ''>='' then w \<le> v
      else if op = ''>'' then w < v
      else if op = ''<='' then v \<le> w
      else if op = ''<'' then v < w
      else if op = ''^'' then w \<le> v \<and> v < caret_ceiling w
      else if op = ''~='' then w \<le> v \<and> v < compatible_release_ceiling w precision
      else w \<le> v \<and> v < tilde_ceiling w precision)"

definition admits :: "string \<Rightarrow> version \<Rightarrow> bool" where
  "admits spec v \<longleftrightarrow> (\<forall>atom \<in> set (spec_atoms spec). \<exists>m. match_atom atom = Some m \<and> atom_holds m v)"

definition inside :: "version \<Rightarrow> bound option \<times> bound option \<Rightarrow> bool" where
  "inside v = (\<lambda>(low, high).
     (case low of None \<Rightarrow> True | Some (l, incl) \<Rightarrow> l < v \<or> incl \<and> l = v)
     \<and> (case high of None \<Rightarrow> True | Some (h, incl) \<Rightarrow> v < h \<or> incl \<and> v = h))"

lemma inside_low: "inside v (Some (l, incl), None) \<longleftrightarrow> l < v \<or> incl \<and> l = v"
  and inside_high: "inside v (None, Some (h, incl)) \<longleftrightarrow> v < h \<or> incl \<and> v = h"
  and inside_split: "inside v (x, y) \<longleftrightarrow> inside v (x, None) \<and> inside v (None, y)"
  and inside_none: "inside v (None, None)"
  by (simp_all add: inside_def)

lemma atom_bounds_inside:
  assumes "atom_holds (op, num) v" and "inside v (low, high)"
  shows "inside v (atom_bounds op num (low, high))"
proof -
  obtain w k where p: "parse_version num = (w, k)" by (rule prod.exhaust)
  have "inside v (low, None)" "inside v (None, high)" using assms(2) by (simp_all add: inside_def)
  then show ?thesis
    using assms(1) unfolding atom_bounds_def
    by (simp add: p Let_def inside_low inside_high inside_split[of v "Some _" "Some _"] inside_split[of v "Some _" high]
        inside_split[of v low "Some _"] le_less split: if_splits)
qed

lemma bounds_loop_inside:
  "bounds_loop atoms acc = Some b \<Longrightarrow> inside v acc \<Longrightarrow> (\<forall>atom \<in> set atoms. \<exists>m. match_atom atom = Some m \<and> atom_holds m v) \<Longrightarrow> inside v b"
proof (induction atoms acc rule: bounds_loop.induct)
  case (2 atom atoms acc)
  then obtain op num where m: "match_atom atom = Some (op, num)" "atom_holds (op, num) v" by auto
  then have "inside v (atom_bounds op num acc)" using 2 by (cases acc) (simp del: atom_holds.simps add: atom_bounds_inside)
  then show ?case using 2 m by (intro "2.IH"[OF m(1) refl]) simp_all
qed simp

lemma spec_bounds_inside: "spec_bounds spec = Some b \<Longrightarrow> admits spec v \<Longrightarrow> inside v b"
  using bounds_loop_inside[of "spec_atoms spec" "(None, None)" b v]
  by (auto simp: spec_bounds_def admits_def inside_def split: if_splits)

lemma inside_meets: "inside v (Some l, x) \<Longrightarrow> inside v (y, Some h) \<Longrightarrow> meets (Some l) (Some h)"
  by (cases l; cases h) (auto simp: inside_def meets_def)


text \<open>\<open>>=2,<3\<close> and \<open>^1.4\<close> exclude each other, whatever the third requirement is.\<close>

lemma demo_specs:
  "spec_bounds ''>=2,<3'' = Some (Some ([2, 0, 0], True), Some ([3, 0, 0], False))"
  "spec_bounds ''^1.4'' = Some (Some ([1, 4, 0], True), Some ([2, 0, 0], False))"
  "spec_bounds ''latest'' = None"
  by code_simp+


end
