(* ===== verification/Collision_Correct.thy ===== *)
theory Collision_Correct
  imports Version_Correct
begin

text \<open>
  What the audit of \<open>src/fleet/graph/collisions.py\<close> decides: which findings block the run, who keeps a contested destination, and where a moved node ends up.
\<close>

section \<open>What blocks the run\<close>

lemma set_map_filter: "set (List.map_filter f xs) = {y. \<exists>x \<in> set xs. f x = Some y}"
  by (force simp: List.map_filter_def)

lemma traverse_id: "traverse id xs = Inr ys \<longleftrightarrow> xs = map Inr ys"
  by (induction xs arbitrary: ys) (auto simp: rbind_Inr_iff)

definition blocks :: "collision_finding \<Rightarrow> bool" where
  "blocks c \<longleftrightarrow> cf_severity c = ERROR \<and> cf_resolution c = None"

lemma row_blocks_iff:
  "collision_finding_of kind key ids shas sev res = Inr c \<Longrightarrow> blocks c \<longleftrightarrow> sev = ERROR \<and> res = None"
  by (auto simp: collision_finding_of_def blocks_def split: if_splits)

text \<open>Rows of the other three detectors always carry a resolution.\<close>

lemma resolved_row:
  "collision_finding_of kind key ids shas sev (Some r) = Inr c \<Longrightarrow> \<not> blocks c"
  "Inr c = collision_finding_of kind key ids shas sev (Some r) \<Longrightarrow> \<not> blocks c"
  by (auto simp: row_blocks_iff dest!: sym[of "Inr c"])

lemma contract_rows_resolved: "Inr c \<in> set (contract_collisions data) \<Longrightarrow> \<not> blocks c"
  by (auto simp: contract_collisions_def set_map_filter contract_collision_def Let_def resolved_row split: if_splits)

lemma dest_rows_resolved:
  "(\<And>c. Inr c \<in> set (snd st) \<Longrightarrow> \<not> blocks c) \<Longrightarrow> Inr c \<in> set (snd (fold settle_dest gs st)) \<Longrightarrow> \<not> blocks c"
proof (induction gs arbitrary: st)
  case (Cons g gs)
  have "\<not> blocks d" if "Inr d \<in> set (snd (settle_dest g st))" for d
    using that Cons.prems(1)
    by (auto simp: settle_dest_def dest_collision_def Let_def resolved_row split: prod.splits if_splits)
  then show ?case using Cons.IH[of "settle_dest g st"] Cons.prems(2) by simp
qed simp

lemma dest_rows: "fold settle_dest gs (p, []) = (st, rows) \<Longrightarrow> Inr c \<in> set rows \<Longrightarrow> \<not> blocks c"
  using dest_rows_resolved[of "(p, [])" c gs] by simp

lemma file_rows_resolved:
  "(\<And>c. Inr c \<in> set (snd (snd st)) \<Longrightarrow> \<not> blocks c) \<Longrightarrow> Inr c \<in> set (snd (snd (fold settle_file gs st))) \<Longrightarrow> \<not> blocks c"
proof (induction gs arbitrary: st)
  case (Cons g gs)
  have "\<not> blocks d" if "Inr d \<in> set (snd (snd (settle_file g st)))" for d
    using that Cons.prems(1)
    by (auto simp: settle_file_def Let_def resolved_row split: prod.splits if_splits)
  then show ?case using Cons.IH[of "settle_file g st"] Cons.prems(2) by simp
qed simp

lemma file_rows: "fold settle_file gs (p, q, []) = (fs, d, rows) \<Longrightarrow> Inr c \<in> set rows \<Longrightarrow> \<not> blocks c"
  using file_rows_resolved[of "(p, q, [])" c gs] by simp

lemma two_members: "2 \<le> length (sorted_set xs) \<longleftrightarrow> (\<exists>a \<in> set xs. \<exists>b \<in> set xs. a \<noteq> b)"
proof -
  have "2 \<le> card (set xs) \<longleftrightarrow> (\<exists>a \<in> set xs. \<exists>b \<in> set xs. a \<noteq> b)"
    using card_le_Suc0_iff_eq[of "set xs"] by (auto simp: not_less_eq_eq[symmetric] numeral_2_eq_2)
  then show ?thesis by (simp add: length_sorted_set)
qed

lemma two_kinds: "Suc 0 < length (remdups xs) \<longleftrightarrow> (\<exists>a \<in> set xs. \<exists>b \<in> set xs. a \<noteq> b)"
  using card_le_Suc0_iff_eq[of "set xs"] by (auto simp: length_remdups_card_conv not_less[symmetric])

lemma group_items: "(k, ys) \<in> set (group_by key xs) \<longleftrightarrow> ys = filter (\<lambda>x. key x = k) xs \<and> ys \<noteq> []"
  using dict_get_mem[OF distinct_group_by, of k ys key xs] by (auto simp: dict_get_group_by Let_def split: if_splits)

definition contested :: "collision_input \<Rightarrow> bool" where
  "contested data \<longleftrightarrow> (\<exists>a \<in> set (ci_coordinates data). \<exists>b \<in> set (ci_coordinates data).
     cc_coord_key a = cc_coord_key b \<and> cc_repo_id a \<noteq> cc_repo_id b \<and> cc_ecosystem a \<noteq> cc_ecosystem b)"

lemma contested_pair:
  assumes "\<exists>a \<in> S. \<exists>b \<in> S. f a \<noteq> f b" and "\<exists>a \<in> S. \<exists>b \<in> S. g a \<noteq> g b"
  shows "\<exists>a \<in> S. \<exists>b \<in> S. f a \<noteq> f b \<and> g a \<noteq> g b"
  using assms by metis

lemma coordinate_blocks:
  assumes "\<forall>r \<in> set (coordinate_collisions data). \<exists>c. r = Inr c"
  shows "(\<exists>c. Inr c \<in> set (coordinate_collisions data) \<and> blocks c) \<longleftrightarrow> contested data"
proof
  assume "\<exists>c. Inr c \<in> set (coordinate_collisions data) \<and> blocks c"
  then obtain c key claims where c: "blocks c" "coordinate_collision data (key, claims) = Some (Inr c)"
      and g: "set claims \<subseteq> {x \<in> set (ci_coordinates data). cc_coord_key x = key}"
    by (fastforce simp: coordinate_collisions_def set_map_filter group_items)
  then have "2 \<le> length (sorted_set (map cc_repo_id claims)) \<and> Suc 0 < length (remdups (map cc_ecosystem claims))"
    by (auto simp: coordinate_collision_def Let_def not_less row_blocks_iff split: prod.splits if_splits)
  then have "\<exists>a \<in> set claims. \<exists>b \<in> set claims. cc_repo_id a \<noteq> cc_repo_id b"
      "\<exists>a \<in> set claims. \<exists>b \<in> set claims. cc_ecosystem a \<noteq> cc_ecosystem b"
    by (auto simp: two_members two_kinds)
  from contested_pair[OF this] g show "contested data" unfolding contested_def by blast
next
  assume "contested data"
  then obtain a b where ab: "a \<in> set (ci_coordinates data)" "b \<in> set (ci_coordinates data)" "cc_coord_key a = cc_coord_key b"
      "cc_repo_id a \<noteq> cc_repo_id b" "cc_ecosystem a \<noteq> cc_ecosystem b"
    by (auto simp: contested_def)
  define claims where "claims = filter (\<lambda>x. cc_coord_key x = cc_coord_key a) (sort_key (\<lambda>c. (cc_coord_key c, cc_repo_id c)) (ci_coordinates data))"
  have mem: "a \<in> set claims" "b \<in> set claims" using ab by (auto simp: claims_def)
  then have sizes: "2 \<le> length (sorted_set (map cc_repo_id claims))" "Suc 0 < length (remdups (map cc_ecosystem claims))"
    using ab by (auto simp: two_members two_kinds)
  let ?row = "collision_finding_of COORDINATE (cc_coord_key a) (sorted_set (map cc_repo_id claims)) [] ERROR None"
  have "coordinate_collision data (cc_coord_key a, claims) = Some ?row"
    using sizes by (simp add: coordinate_collision_def Let_def split: prod.splits)
  moreover have "(cc_coord_key a, claims) \<in> set (sort_key fst (group_by cc_coord_key (sort_key (\<lambda>c. (cc_coord_key c, cc_repo_id c)) (ci_coordinates data))))"
    using mem by (auto simp: group_items claims_def filter_empty_conv)
  ultimately have "?row \<in> set (coordinate_collisions data)"
    by (auto simp: coordinate_collisions_def set_map_filter)
  moreover from this obtain c where "?row = Inr c" using assms by blast
  ultimately show "\<exists>c. Inr c \<in> set (coordinate_collisions data) \<and> blocks c"
    using row_blocks_iff by fastforce
qed

text \<open>
  At least two different requirements on one coordinate, of at least two repositories, of which one sets a lower bound and one an upper bound that
  leave no version between them. The bounds of a requirement are those the parser reads; a requirement it cannot read sets none.
\<close>

definition excludes :: "bound \<Rightarrow> bound \<Rightarrow> bool" where
  "excludes low high \<longleftrightarrow> fst high < fst low \<or> fst high = fst low \<and> \<not> (snd low \<and> snd high)"

definition unsatisfiable :: "collision_input \<Rightarrow> coord_key \<Rightarrow> bool" where
  "unsatisfiable data key \<longleftrightarrow>
     (let reqs = filter (\<lambda>r. vr_coord_key r = key) (ci_versions data) in
      (\<exists>a \<in> set reqs. \<exists>b \<in> set reqs. vr_repo_id a \<noteq> vr_repo_id b)
      \<and> (\<exists>a \<in> set reqs. \<exists>b \<in> set reqs. vr_spec a \<noteq> vr_spec b)
      \<and> (\<exists>a \<in> set reqs. \<exists>b \<in> set reqs. \<exists>low high x y. spec_bounds (vr_spec a) = Some (Some low, x)
            \<and> spec_bounds (vr_spec b) = Some (y, Some high) \<and> excludes low high))"

lemma meets_excludes: "meets (Some l) (Some h) \<longleftrightarrow> \<not> excludes l h"
  by (cases l; cases h) (auto simp: meets_def excludes_def)

lemma excluded_specs:
  "\<not> intersects (sorted_set (map vr_spec reqs)) \<longleftrightarrow>
     (\<exists>a \<in> set reqs. \<exists>b \<in> set reqs. \<exists>low high x y. spec_bounds (vr_spec a) = Some (Some low, x)
        \<and> spec_bounds (vr_spec b) = Some (y, Some high) \<and> excludes low high)"
  unfolding intersects_iff lows_def highs_def meets_excludes by (simp add: sorted_set_def) blast

lemma unsatisfiable_real:
  assumes "unsatisfiable data key"
  shows "\<exists>req \<in> set (ci_versions data). vr_coord_key req = key \<and> spec_bounds (vr_spec req) \<noteq> None \<and> \<not> admits (vr_spec req) v"
proof -
  have "\<exists>a \<in> set (filter (\<lambda>r. vr_coord_key r = key) (ci_versions data)). \<exists>b \<in> set (filter (\<lambda>r. vr_coord_key r = key) (ci_versions data)).
      \<exists>low high x y. spec_bounds (vr_spec a) = Some (Some low, x) \<and> spec_bounds (vr_spec b) = Some (y, Some high) \<and> excludes low high"
    using assms unfolding unsatisfiable_def Let_def by (elim conjE)
  then obtain a b l h x y where ab: "a \<in> set (ci_versions data)" "b \<in> set (ci_versions data)" "vr_coord_key a = key" "vr_coord_key b = key"
    and bounds: "spec_bounds (vr_spec a) = Some (Some l, x)" "spec_bounds (vr_spec b) = Some (y, Some h)" and ex: "excludes l h"
    unfolding set_filter by blast
  have "\<not> admits (vr_spec a) v \<or> \<not> admits (vr_spec b) v"
  proof (rule ccontr)
    assume "\<not> (\<not> admits (vr_spec a) v \<or> \<not> admits (vr_spec b) v)"
    then have "admits (vr_spec a) v" "admits (vr_spec b) v" by simp_all
    from inside_meets[OF spec_bounds_inside[OF bounds(1) this(1)] spec_bounds_inside[OF bounds(2) this(2)]]
    show False using ex by (simp add: meets_excludes)
  qed
  then show ?thesis
  proof
    assume "\<not> admits (vr_spec a) v"
    with ab bounds(1) show ?thesis by (intro bexI[of _ a]) simp_all
  next
    assume "\<not> admits (vr_spec b) v"
    with ab bounds(2) show ?thesis by (intro bexI[of _ b]) simp_all
  qed
qed

lemma version_blocks:
  assumes "\<forall>r \<in> set (version_collisions data). \<exists>c. r = Inr c"
  shows "(\<exists>c. Inr c \<in> set (version_collisions data) \<and> blocks c) \<longleftrightarrow> (\<exists>key. unsatisfiable data key)"
proof -
  let ?xs = "sort_key (\<lambda>r. (vr_coord_key r, vr_repo_id r, vr_spec r)) (ci_versions data)"
  let ?reqs = "\<lambda>key. filter (\<lambda>r. vr_coord_key r = key) ?xs"
  have same: "sorted_set (map vr_spec (?reqs key)) = sorted_set (map vr_spec (filter (\<lambda>r. vr_coord_key r = key) (ci_versions data)))" for key
    by (intro sorted_set_cong) auto
  have rows: "r \<in> set (version_collisions data) \<longleftrightarrow> (\<exists>key. ?reqs key \<noteq> [] \<and> version_collision (key, ?reqs key) = Some r)" for r
    by (auto simp: version_collisions_def set_map_filter group_items)
  have unsat: "unsatisfiable data key \<longleftrightarrow> 2 \<le> length (sorted_set (map vr_repo_id (?reqs key)))
      \<and> 2 \<le> length (sorted_set (map vr_spec (?reqs key))) \<and> \<not> intersects (sorted_set (map vr_spec (?reqs key)))" for key
    unfolding same excluded_specs unsatisfiable_def Let_def two_members by auto
  have "(\<exists>c. version_collision (key, ?reqs key) = Some (Inr c) \<and> blocks c) \<longleftrightarrow> unsatisfiable data key" if "?reqs key \<noteq> []" for key
  proof -
    have "\<exists>c. r = Inr c" if "version_collision (key, ?reqs key) = Some r" for r
      using assms rows that \<open>?reqs key \<noteq> []\<close> by blast
    then show ?thesis
      unfolding unsat by (auto simp: version_collision_def Let_def not_less row_blocks_iff split: if_splits)
  qed
  moreover have "?reqs key \<noteq> []" if "unsatisfiable data key" for key
    using that unfolding unsat by (auto simp: sorted_set_def)
  ultimately show ?thesis using rows by blast
qed

text \<open>
  C10: An audit stops the run for exactly two reasons: two repositories claim one coordinate under different ecosystems, or, of
  different requirements of at least two repositories on one external coordinate, the lower bound of one and the upper bound of one exclude
  each other. The bounds are those the parser reads: a requirement it cannot read, such as one with a space after its
  operator, sets none. In the second case no version satisfies all the requirements that were read. No contest over a
  contract, a destination or a file stops the run.
\<close>

theorem audit_blocks_exactly:
  assumes "audit_collisions fingerprint data = Inr rep"
  shows "(\<not> audit_ok rep \<longleftrightarrow> contested data \<or> (\<exists>key. unsatisfiable data key))
    \<and> (\<forall>key v. unsatisfiable data key \<longrightarrow>
         (\<exists>req \<in> set (ci_versions data). vr_coord_key req = key \<and> spec_bounds (vr_spec req) \<noteq> None \<and> \<not> admits (vr_spec req) v))"
proof -
  obtain st dest_rows where d: "dest_collisions data [] [] = (st, dest_rows)" by (rule prod.exhaust)
  obtain fs dropped file_rows where f: "file_collisions data (snd st) [] = (fs, dropped, file_rows)" by (rule prod_cases3)
  obtain cs where cs: "coordinate_collisions data @ contract_collisions data @ dest_rows @ file_rows @ version_collisions data = map Inr cs"
      and rep: "set (cr_collisions rep) = set cs"
    using assms d f by (auto simp: audit_collisions_def Let_def traverse_id split: prod.splits)
  have all: "\<exists>c. r = Inr c" if "r \<in> set (coordinate_collisions data) \<union> set (version_collisions data)" for r
    using that arg_cong[OF cs, of set] by auto
  have "\<not> blocks c" if "Inr c \<in> set dest_rows" for c
    using that d by (auto simp: dest_collisions_def Let_def split: prod.splits dest: dest_rows)
  moreover have "\<not> blocks c" if "Inr c \<in> set file_rows" for c
    using that f by (auto simp: file_collisions_def dest: file_rows)
  moreover have "c \<in> set cs \<longleftrightarrow> Inr c \<in> set (coordinate_collisions data @ contract_collisions data @ dest_rows @ file_rows @ version_collisions data)" for c
    unfolding cs by auto
  ultimately have "(\<exists>c \<in> set cs. blocks c) \<longleftrightarrow>
      (\<exists>c. Inr c \<in> set (coordinate_collisions data) \<and> blocks c) \<or> (\<exists>c. Inr c \<in> set (version_collisions data) \<and> blocks c)"
    using contract_rows_resolved[of _ data] by (auto 0 4)
  then have "(\<exists>c \<in> set cs. blocks c) \<longleftrightarrow> contested data \<or> (\<exists>key. unsatisfiable data key)"
    using coordinate_blocks[of data] version_blocks[of data] all by blast
  then have "\<not> audit_ok rep \<longleftrightarrow> contested data \<or> (\<exists>key. unsatisfiable data key)"
    by (auto simp: audit_ok_def blocking_def blocks_def filter_empty_conv rep)
  with unsatisfiable_real show ?thesis by blast
qed

text \<open>Two repositories publish one coordinate, one of them as an npm package.\<close>

definition demo_coordinates :: collision_input where
  "demo_coordinates =
     \<lparr>ci_coordinates =
        [\<lparr>cc_coord_key = ''k'', cc_repo_id = ''a'', cc_ecosystem = ECO_NPM, cc_depth = 0, cc_commit_count = 3\<rparr>,
         \<lparr>cc_coord_key = ''k'', cc_repo_id = ''b'', cc_ecosystem = ECO_PYPI, cc_depth = 0, cc_commit_count = 9\<rparr>],
      ci_contracts = [], ci_dests = [], ci_files = [], ci_versions = [], ci_owns_hints = [], ci_vendor_repo_ids = []\<rparr>"

theorem audit_blocks_exactly_witness:
  "case audit_collisions (\<lambda>_. []) demo_coordinates of Inl _ \<Rightarrow> False | Inr rep \<Rightarrow> \<not> audit_ok rep"
proof -
  have ok: "case audit_collisions (\<lambda>_. []) demo_coordinates of Inl _ \<Rightarrow> False | Inr rep \<Rightarrow> True" by code_simp
  then obtain rep where rep: "audit_collisions (\<lambda>_. []) demo_coordinates = Inr rep" by (auto split: sum.splits)
  have "contested demo_coordinates" by (auto simp: contested_def demo_coordinates_def)
  then show ?thesis using conjunct1[OF audit_blocks_exactly[OF rep]] rep by simp
qed

section \<open>Contested destinations\<close>

definition dest_rank :: "dest_claim \<Rightarrow> int \<times> int \<times> string" where
  "dest_rank c = (if dc_hoisted c then 0 else 1, - dc_inbound c, dc_node_id c)"

lemma dict_get_move_losers:
  "dict_get (fst (fold (move_loser dest grp) ls st)) n =
     (if n \<in> dc_node_id ` set ls then Some (moved_dest dest n) else dict_get (fst st) n)"
  by (induction ls arbitrary: st) (auto simp: move_loser_def split: prod.splits)

lemma evict_step:
  "dict_get (fst (evict c st)) n =
     (if evicted c \<and> n = dc_node_id c then Some (moved_dest (dc_dest c) n) else dict_get (fst st) n)"
  by (simp add: evict_def split: prod.splits)

lemma evict_other: "n \<notin> dc_node_id ` set cs \<Longrightarrow> dict_get (fst (fold evict cs st)) n = dict_get (fst st) n"
  by (induction cs arbitrary: st) (auto simp: evict_step)

lemma evict_get:
  assumes "distinct (map dc_node_id cs)" and "c \<in> set cs"
  shows "dict_get (fst (fold evict cs st)) (dc_node_id c) =
     (if evicted c then Some (moved_dest (dc_dest c) (dc_node_id c)) else dict_get (fst st) (dc_node_id c))"
  using assms
proof (induction cs arbitrary: st)
  case (Cons x xs)
  then show ?case
    by (cases "c = x") (auto simp: evict_other evict_step dest: image_eqI[of "dc_node_id x" dc_node_id c, OF sym])
qed simp

text \<open>The destination a claim contests: its own, or the one it was evicted to.\<close>

definition claimed_dest :: "dest_claim \<Rightarrow> string" where
  "claimed_dest c = (if evicted c then moved_dest (dc_dest c) (dc_node_id c) else dc_dest c)"

lemma dest_after_evict:
  "distinct (map dc_node_id cs) \<Longrightarrow> c \<in> set cs \<Longrightarrow> dest_after (fst (fold evict cs ([], fs))) c = claimed_dest c"
  by (simp add: dest_after_def evict_get claimed_dest_def)

lemma losers_small: "length grp < 2 \<Longrightarrow> dest_losers grp = []"
  by (cases grp) (auto simp: dest_losers_def dest_winner_def)

lemma settle_get:
  "dict_get (fst (fst (settle_dest (dest, grp) st))) n =
     (if n \<in> dc_node_id ` set (dest_losers grp) then Some (moved_dest dest n) else dict_get (fst (fst st)) n)"
  by (auto simp: settle_dest_def dict_get_move_losers losers_small split: prod.splits)

definition loses :: "(string \<times> dest_claim list) list \<Rightarrow> string \<Rightarrow> bool" where
  "loses gs n \<longleftrightarrow> list_ex (\<lambda>(_, grp). n \<in> dc_node_id ` set (dest_losers grp)) gs"

lemma settle_all_get:
  assumes "\<And>dest grp. (dest, grp) \<in> set gs \<Longrightarrow> n \<in> dc_node_id ` set (dest_losers grp) \<Longrightarrow> dest = d"
  shows "dict_get (fst (fst (fold settle_dest gs st))) n =
     (if loses gs n then Some (moved_dest d n) else dict_get (fst (fst st)) n)"
  using assms
proof (induction gs arbitrary: st)
  case (Cons g gs)
  obtain dest grp where g: "g = (dest, grp)" by (rule prod.exhaust)
  have "dict_get (fst (fst (fold settle_dest gs (settle_dest g st)))) n =
     (if loses gs n then Some (moved_dest d n) else dict_get (fst (fst (settle_dest g st))) n)"
    using Cons.prems by (intro Cons.IH) auto
  moreover have "n \<in> dc_node_id ` set (dest_losers grp) \<Longrightarrow> dest = d" using Cons.prems[of dest grp] g by auto
  ultimately show ?case by (simp add: g settle_get loses_def)
qed (simp add: loses_def)

lemma loser_iff:
  assumes "distinct (map dc_node_id grp)" and "c \<in> set grp"
  shows "dc_node_id c \<in> dc_node_id ` set (dest_losers grp) \<longleftrightarrow> \<not> (\<forall>d \<in> set grp. dest_rank c \<le> dest_rank d)"
proof -
  have inj: "dc_node_id x = dc_node_id y \<Longrightarrow> x = y" if "x \<in> set grp" "y \<in> set grp" for x y
    using assms(1) that by (auto simp: distinct_map inj_on_def)
  have "dest_winner grp = arg_min_list dest_rank grp"
    unfolding dest_winner_def by (rule arg_cong[where f = "\<lambda>f. arg_min_list f grp"]) (simp add: dest_rank_def fun_eq_iff)
  then have w: "dest_winner grp \<in> set grp" "\<And>d. d \<in> set grp \<Longrightarrow> dest_rank (dest_winner grp) \<le> dest_rank d"
    using arg_min_list_in_set[of grp dest_rank] list.set_sel arg_min_list_le[of _ grp dest_rank] assms(2) by (auto dest: length_pos_if_in_set)
  have "dest_rank c = dest_rank (dest_winner grp) \<Longrightarrow> c = dest_winner grp"
    using inj[OF assms(2) w(1)] by (simp add: dest_rank_def)
  then have "(\<forall>d \<in> set grp. dest_rank c \<le> dest_rank d) \<longleftrightarrow> c = dest_winner grp"
    using w assms(2) by (auto intro: order_antisym)
  moreover have "dc_node_id c \<in> dc_node_id ` set (dest_losers grp) \<longleftrightarrow> c \<noteq> dest_winner grp"
    using assms(2) w(1) inj by (auto simp: dest_losers_def image_iff)
  ultimately show ?thesis by simp
qed

definition final_dest :: "collision_report \<Rightarrow> dest_claim \<Rightarrow> string" where
  "final_dest rep c = dest_after (cr_dest_rewrites rep) c"

definition keeps :: "collision_input \<Rightarrow> dest_claim \<Rightarrow> bool" where
  "keeps data c \<longleftrightarrow> (\<forall>d \<in> set (ci_dests data). claimed_dest d = claimed_dest c \<longrightarrow> dest_rank c \<le> dest_rank d)"

lemma distinct_keys_moves:
  "distinct (map fst (fst st)) \<Longrightarrow> distinct (map fst (fst (fold (move_loser dest grp) ls st)))"
  by (induction ls arbitrary: st) (auto simp: move_loser_def split: prod.splits)

lemma distinct_keys_settle:
  "distinct (map fst (fst (fst st))) \<Longrightarrow> distinct (map fst (fst (fst (fold settle_dest gs st))))"
proof (induction gs arbitrary: st)
  case (Cons g gs)
  have "distinct (map fst (fst (fst (settle_dest g st))))"
    using Cons.prems distinct_keys_moves[of "fst st"] by (auto simp: settle_dest_def split: prod.splits)
  then show ?case using Cons.IH by simp
qed simp

lemma distinct_keys_evict: "distinct (map fst (fst st)) \<Longrightarrow> distinct (map fst (fst (fold evict cs st)))"
proof (induction cs arbitrary: st)
  case (Cons c cs)
  have "distinct (map fst (fst (evict c st)))" using Cons.prems by (cases st) (simp add: evict_def)
  then show ?case using Cons.IH by simp
qed simp

lemma dest_rewrites_get:
  assumes "audit_collisions fingerprint data = Inr rep"
  shows "dict_get (cr_dest_rewrites rep) n = dict_get (fst (fst (dest_collisions data [] []))) n"
proof -
  have "distinct (map fst (fst (fst (dest_collisions data [] []))))"
    using distinct_keys_evict[of "([], [])" "sorted_dests data"]
    by (auto simp: dest_collisions_def Let_def split: prod.splits intro!: distinct_keys_settle)
  then show ?thesis
    using assms by (auto simp: audit_collisions_def Let_def dict_get_sort_key split: prod.splits)
qed

lemma final_dest_eq:
  assumes "audit_collisions fingerprint data = Inr rep" and "distinct (map dc_node_id (ci_dests data))" and "c \<in> set (ci_dests data)"
  shows "final_dest rep c = (if keeps data c then claimed_dest c else moved_dest (claimed_dest c) (dc_node_id c))"
proof -
  let ?cs = "sorted_dests data"
  obtain R F where R: "fold evict ?cs ([], []) = (R, F)" by (rule prod.exhaust)
  let ?gs = "sort_key fst (group_by (dest_after R) ?cs)"
  have cs: "distinct (map dc_node_id ?cs)" "set ?cs = set (ci_dests data)"
    using assms(2) by (simp_all add: sorted_dests_def distinct_map)
  have key: "dest_after R x = claimed_dest x" if "x \<in> set ?cs" for x
    using dest_after_evict[OF cs(1) that, of "[]"] R by simp
  have grp: "(d, g) \<in> set ?gs \<longleftrightarrow> g = filter (\<lambda>x. claimed_dest x = d) ?cs \<and> g \<noteq> []" for d g
    using key by (auto simp: group_items cong: filter_cong)
  have node: "x = c" if "x \<in> set ?cs" "dc_node_id x = dc_node_id c" for x
    using that assms(2,3) cs(2) by (auto simp: distinct_map inj_on_def)
  have loser: "dc_node_id c \<in> dc_node_id ` set (dest_losers g) \<longleftrightarrow> d = claimed_dest c \<and> \<not> keeps data c" if "(d, g) \<in> set ?gs" for d g
  proof -
    have g: "g = filter (\<lambda>x. claimed_dest x = d) ?cs" using that unfolding grp by blast
    show ?thesis
    proof (cases "d = claimed_dest c")
      case True
      then have "c \<in> set g" "distinct (map dc_node_id g)"
        using g assms(3) cs by (auto simp: distinct_map_filter)
      then show ?thesis using loser_iff[of g c] g True cs(2) by (auto simp: keeps_def)
    next
      case False
      then have "x \<noteq> c" if "x \<in> set (dest_losers g)" for x using g that by (auto simp: dest_losers_def)
      moreover have "x \<in> set ?cs" if "x \<in> set (dest_losers g)" for x using g that by (auto simp: dest_losers_def)
      ultimately show ?thesis using False node by (metis imageE)
    qed
  qed
  have "(claimed_dest c, filter (\<lambda>x. claimed_dest x = claimed_dest c) ?cs) \<in> set ?gs"
    using assms(3) cs(2) unfolding grp by (auto simp: filter_empty_conv)
  then have "loses ?gs (dc_node_id c) \<longleftrightarrow> \<not> keeps data c"
    unfolding loses_def list_ex_iff using loser by blast
  then have "dict_get (fst (fst (dest_collisions data [] []))) (dc_node_id c) =
      (if keeps data c then dict_get R (dc_node_id c) else Some (moved_dest (claimed_dest c) (dc_node_id c)))"
    using settle_all_get[of ?gs "dc_node_id c" "claimed_dest c" "((R, F), [])"] loser R by (simp add: dest_collisions_def)
  moreover have "dest_after R c = claimed_dest c" using key assms(3) cs(2) by simp
  ultimately show ?thesis
    by (auto simp: final_dest_def dest_after_def dest_rewrites_get[OF assms(1)])
qed

text \<open>
  Of the nodes that claim one destination exactly the best-ranked one keeps it, a hoisted contract before any repository, then the
  one with more inbound edges; every other is moved next to it under its own name, and no two nodes that keep their destination share it.
\<close>

theorem dest_contest_has_one_keeper:
  assumes "audit_collisions fingerprint data = Inr rep" and "distinct (map dc_node_id (ci_dests data))" and "c \<in> set (ci_dests data)"
  shows "final_dest rep c = (if keeps data c then claimed_dest c else moved_dest (claimed_dest c) (dc_node_id c))
     \<and> (\<exists>!k. k \<in> set (ci_dests data) \<and> claimed_dest k = claimed_dest c \<and> keeps data k)"
proof
  let ?grp = "filter (\<lambda>x. claimed_dest x = claimed_dest c) (ci_dests data)"
  have "?grp \<noteq> []" using assms(3) by (auto simp: filter_empty_conv)
  then have k: "arg_min_list dest_rank ?grp \<in> set ?grp" by (rule arg_min_list_in_set)
  have "keeps data (arg_min_list dest_rank ?grp)"
    using k arg_min_list_le[of _ ?grp dest_rank] by (auto simp: keeps_def)
  moreover have "x = y" if "keeps data x" "keeps data y" "claimed_dest x = claimed_dest y" "x \<in> set (ci_dests data)" "y \<in> set (ci_dests data)" for x y
  proof -
    have "dest_rank x = dest_rank y" using that by (intro order_antisym) (auto simp: keeps_def)
    then show ?thesis using that assms(2) by (auto simp: dest_rank_def distinct_map inj_on_def)
  qed
  ultimately show "\<exists>!k. k \<in> set (ci_dests data) \<and> claimed_dest k = claimed_dest c \<and> keeps data k"
    using k by (intro ex1I[of _ "arg_min_list dest_rank ?grp"]) auto
qed (rule final_dest_eq[OF assms])

text \<open>The hoisted contract \<open>p\<close> keeps \<open>x\<close>, although the repository \<open>a\<close> has more inbound edges.\<close>

definition demo_dest :: "string \<Rightarrow> string \<Rightarrow> bool \<Rightarrow> int \<Rightarrow> dest_claim" where
  "demo_dest n d hoisted inbound =
     \<lparr>dc_node_id = n, dc_dest = d, dc_node_kind = (if hoisted then CONTRACT else REPO), dc_explicit = False,
      dc_hoisted = hoisted, dc_inbound = inbound\<rparr>"

definition demo_dests :: "dest_claim list \<Rightarrow> collision_input" where
  "demo_dests ds =
     \<lparr>ci_coordinates = [], ci_contracts = [], ci_dests = ds, ci_files = [], ci_versions = [], ci_owns_hints = [], ci_vendor_repo_ids = []\<rparr>"

definition audited :: "collision_input \<Rightarrow> collision_report option" where
  "audited data = (case audit_collisions (\<lambda>_. []) data of Inl _ \<Rightarrow> None | Inr rep \<Rightarrow> Some rep)"

lemma audited_Some: "audited data = Some rep \<longleftrightarrow> audit_collisions (\<lambda>_. []) data = Inr rep"
  by (auto simp: audited_def split: sum.splits)

theorem dest_contest_has_one_keeper_witness:
  "let p = demo_dest ''p'' ''x'' True 0; a = demo_dest ''a'' ''x'' False 5; data = demo_dests [p, a] in
   case audited data of None \<Rightarrow> False | Some rep \<Rightarrow> final_dest rep p = ''x'' \<and> final_dest rep a = ''x-a''"
proof -
  let ?p = "demo_dest ''p'' ''x'' True 0" and ?a = "demo_dest ''a'' ''x'' False 5"
  have "audited (demo_dests [?p, ?a]) \<noteq> None" by code_simp
  then obtain rep where rep: "audit_collisions (\<lambda>_. []) (demo_dests [?p, ?a]) = Inr rep" by (auto simp: audited_Some)
  have d: "distinct (map dc_node_id (ci_dests (demo_dests [?p, ?a])))" "set (ci_dests (demo_dests [?p, ?a])) = {?p, ?a}"
    by (simp_all add: demo_dests_def demo_dest_def)
  have k: "claimed_dest ?p = ''x''" "claimed_dest ?a = ''x''" "moved_dest ''x'' (dc_node_id ?a) = ''x-a''" by code_simp+
  have "keeps (demo_dests [?p, ?a]) ?p" "\<not> keeps (demo_dests [?p, ?a]) ?a" by code_simp+
  then show ?thesis
    using dest_contest_has_one_keeper[OF rep d(1), of ?p] dest_contest_has_one_keeper[OF rep d(1), of ?a] rep
    by (simp add: d(2) k audited_def)
qed

section \<open>Where a moved node lands\<close>

lemma rstrip_slash_id: "xs \<noteq> [] \<Longrightarrow> last xs \<noteq> CHR ''/'' \<Longrightarrow> rstrip_slash xs = xs"
  by (cases xs rule: rev_cases) (auto simp: rstrip_slash_def)

lemma segments_moved:
  assumes "CHR ''/'' \<notin> set node"
  shows "segments (moved_dest d node) = butlast (segments (rstrip_slash d)) @ [last (segments (rstrip_slash d)) @ ''-'' @ node]"
proof -
  have "split_on (\<lambda>c. c = CHR ''/'') (''-'' @ node) = [''-'' @ node]" using assms by (intro split_on_none) auto
  then show ?thesis by (simp add: segments_def moved_dest_def split_on_append)
qed

lemma moved_reserved_iff:
  assumes "CHR ''/'' \<notin> set node"
  shows "is_reserved (moved_dest d node) \<longleftrightarrow> RESERVED_SCC_SEGMENT \<in> set (butlast (segments (rstrip_slash d)))"
proof -
  have "CHR ''-'' \<notin> set RESERVED_SCC_SEGMENT" by (simp add: RESERVED_SCC_SEGMENT_def)
  then have "last (segments (rstrip_slash d)) @ ''-'' @ node \<noteq> RESERVED_SCC_SEGMENT" by (metis append_Cons in_set_conv_decomp)
  then show ?thesis
    by (auto simp: is_reserved_def segments_moved[OF assms] RESERVED_SCC_SEGMENT_def)
qed

lemma moved_again:
  assumes "CHR ''/'' \<notin> set node"
  shows "RESERVED_SCC_SEGMENT \<in> set (butlast (segments (rstrip_slash (moved_dest d node)))) \<longleftrightarrow> is_reserved (moved_dest d node)"
proof -
  have "last (''-'' @ node) \<noteq> CHR ''/''" using assms last_in_set[of node] by (cases node) auto
  then have "rstrip_slash (moved_dest d node) = moved_dest d node"
    by (intro rstrip_slash_id) (simp_all add: moved_dest_def)
  then show ?thesis by (simp add: segments_moved[OF assms] moved_reserved_iff[OF assms])
qed

text \<open>
  A repository whose destination lies below a reserved segment is reported and rewritten, and still ends up below that segment:
  the rewrite only changes the last segment of the path.
\<close>

theorem evicted_repo_stays_reserved:
  assumes "audit_collisions fingerprint data = Inr rep" and "distinct (map dc_node_id (ci_dests data))" and "c \<in> set (ci_dests data)"
    and "dc_node_kind c = REPO" and "CHR ''/'' \<notin> set (dc_node_id c)"
    and "RESERVED_SCC_SEGMENT \<in> set (butlast (segments (rstrip_slash (dc_dest c))))"
  shows "is_reserved (final_dest rep c)"
proof -
  have "\<exists>ys. dc_dest c = rstrip_slash (dc_dest c) @ ys"
    by (metis rev_append rev_rev_ident rstrip_slash_def takeWhile_dropWhile_id)
  then have "set (butlast (segments (rstrip_slash (dc_dest c)))) \<subseteq> set (segments (dc_dest c))"
    by (metis Un_upper1 segments_def set_append split_on_append)
  then have "evicted c" using assms(4,6) by (auto simp: evicted_def is_reserved_def RESERVED_SCC_SEGMENT_def)
  moreover have moved: "is_reserved (moved_dest (dc_dest c) (dc_node_id c))" using assms(6) by (simp add: moved_reserved_iff[OF assms(5)])
  moreover have "is_reserved (moved_dest (moved_dest (dc_dest c) (dc_node_id c)) (dc_node_id c))"
    using moved by (simp add: moved_reserved_iff[OF assms(5), of "moved_dest _ _"] moved_again[OF assms(5)])
  ultimately show ?thesis
    by (simp add: final_dest_eq[OF assms(1-3)] claimed_dest_def)
qed

theorem evicted_repo_stays_reserved_witness:
  "let c = demo_dest ''a'' ''npm/_scc/ui'' False 0 in
   case audited (demo_dests [c]) of None \<Rightarrow> False | Some rep \<Rightarrow> is_reserved (final_dest rep c)"
proof -
  let ?c = "demo_dest ''a'' ''npm/_scc/ui'' False 0"
  have "audited (demo_dests [?c]) \<noteq> None" by code_simp
  then obtain rep where rep: "audit_collisions (\<lambda>_. []) (demo_dests [?c]) = Inr rep" by (auto simp: audited_Some)
  have "RESERVED_SCC_SEGMENT \<in> set (butlast (segments (rstrip_slash (dc_dest ?c))))" by code_simp
  then show ?thesis
    using evicted_repo_stays_reserved[OF rep, of ?c] rep by (simp add: demo_dests_def audited_def demo_dest_def)
qed

text \<open>
  Two limits of the rewrites. The name a loser moves to is not compared with the other claims, so it can land on the destination of a third
  node; and of three divergent copies of one file only one is renamed.
\<close>

theorem moved_node_lands_on_another:
  "let a = demo_dest ''a'' ''x'' False 0; b = demo_dest ''b'' ''x'' False 0; c = demo_dest ''c'' ''x-b'' False 0 in
   case audited (demo_dests [a, b, c]) of
     None \<Rightarrow> False
   | Some rep \<Rightarrow> audit_ok rep \<and> final_dest rep b = ''x-b'' \<and> final_dest rep c = ''x-b''"
  by code_simp

definition demo_file :: "repo_id \<Rightarrow> string \<Rightarrow> file_claim" where
  "demo_file repo sha =
     \<lparr>fc_path = ''lib/u.py'', fc_repo_id = repo, fc_blob_sha = sha, fc_wave_index = 0, fc_contract_id = None, fc_hoisted = False\<rparr>"

theorem third_copy_is_not_renamed:
  "let data = (demo_dests [])\<lparr>ci_files := [demo_file ''a'' ''1'', demo_file ''b'' ''2'', demo_file ''c'' ''3'']\<rparr> in
   case audited data of
     None \<Rightarrow> False
   | Some rep \<Rightarrow> audit_ok rep \<and> map gf_repo_id (cr_findings rep) = [Some ''c''] \<and> cr_dropped_paths rep = []"
  by code_simp

text \<open>
  A requirement with a space after its operator is taken apart into an operator without a version and a version, so it is ignored and its
  conflict with another requirement is not seen; and a version of four components never equals one of three.
\<close>

lemma demo_bounds:
  "spec_bounds ''>= 3'' = None"
  "spec_bounds ''>=3'' = Some (Some ([3, 0, 0], True), None)"
  "spec_bounds ''<2'' = Some (None, Some ([2, 0, 0], False))"
  "spec_bounds ''1.0.0'' = Some (Some ([1, 0, 0], True), Some ([1, 0, 0], True))"
  "spec_bounds ''1.0.0.0'' = Some (Some ([1, 0, 0, 0], True), Some ([1, 0, 0, 0], True))"
  by code_simp+

theorem spaced_requirement_is_ignored:
  "intersects [''>= 3'', ''<2''] \<and> \<not> intersects [''>=3'', ''<2''] \<and> \<not> intersects [''1.0.0'', ''1.0.0.0'']"
  by (simp add: intersects_def demo_bounds narrow_def tighter_low_def tighter_high_def meets_def)

end
