(* ===== verification/Breaker.thy ===== *)
theory Breaker
  imports Cost_Ledger
begin

text \<open>
  The circuit breaker of \<open>src/fleet/llm/failover.py\<close>, one state per endpoint, with the target it is keyed by
  (\<open>src/fleet/models/tasks.py\<close>). Each method is one atomic step: the code has no suspension point inside. The reading of the
  clock is an argument, also where the code would not look at it. Transitions are returned instead of passed to a callback.
\<close>

section \<open>Targets\<close>

record backend_target =
  bt_backend :: string
  bt_model_id :: string
  bt_base_url :: "string option"
  bt_base_urls :: "string list option"
  bt_effort :: "string option"
  bt_price :: price
  bt_override :: "(string, string) dict"

definition target_ok :: "backend_target \<Rightarrow> bool" where
  "target_ok t \<longleftrightarrow>
     bt_backend t \<noteq> [] \<and> bt_model_id t \<noteq> []
     \<and> (case bt_price t of FreePrice \<Rightarrow> True | PerMtok i u \<Rightarrow> 0 \<le> i \<and> 0 \<le> u \<and> (i \<noteq> 0 \<or> u \<noteq> 0))
     \<and> (case bt_base_urls t of
          None \<Rightarrow> True
        | Some urls \<Rightarrow> bt_base_url t = None \<and> 2 \<le> length urls \<and> distinct urls \<and> list_all (\<lambda>u. strip u \<noteq> []) urls)"

section \<open>The breaker\<close>

datatype health_state = UP | DOWN | HALF_OPEN

record target_state =
  ts_state :: health_state
  ts_failures :: int
  ts_down_since :: "rat option"

definition fresh_target :: target_state where
  "fresh_target = \<lparr>ts_state = UP, ts_failures = 0, ts_down_since = None\<rparr>"

datatype transition_reason =
    CooldownElapsed
  | ProbeSucceeded
  | Recovered
  | ProbeFailed
  | TooManyFailures int int
  | ProbeAbandoned

record health_transition =
  ht_tier :: model_tier
  ht_backend :: string
  ht_model_id :: string
  ht_from :: health_state
  ht_to :: health_state
  ht_reason :: transition_reason

record breaker =
  br_open_after :: int
  br_cooldown_s :: rat
  br_targets :: "(string, target_state) dict"

definition breaker_key :: "backend_target \<Rightarrow> string" where
  "breaker_key t =
     bt_backend t @ '':'' @ bt_model_id t @ (case bt_base_url t of None \<Rightarrow> [] | Some u \<Rightarrow> ''@'' @ u)"

definition state_for :: "breaker \<Rightarrow> backend_target \<Rightarrow> target_state" where
  "state_for b t = (case dict_get (br_targets b) (breaker_key t) of None \<Rightarrow> fresh_target | Some s \<Rightarrow> s)"

definition put_state :: "backend_target \<Rightarrow> target_state \<Rightarrow> breaker \<Rightarrow> breaker" where
  "put_state t s b = b\<lparr>br_targets := dict_set (br_targets b) (breaker_key t) s\<rparr>"

definition transition_of :: "backend_target \<Rightarrow> model_tier \<Rightarrow> target_state \<Rightarrow> health_state \<Rightarrow> transition_reason \<Rightarrow> health_transition" where
  "transition_of t tier s to_state reason =
     \<lparr>ht_tier = tier, ht_backend = bt_backend t, ht_model_id = bt_model_id t, ht_from = ts_state s, ht_to = to_state, ht_reason = reason\<rparr>"

definition may_call :: "backend_target \<Rightarrow> model_tier \<Rightarrow> rat \<Rightarrow> breaker \<Rightarrow> breaker \<times> bool \<times> health_transition list" where
  "may_call t tier now b =
     (let s = state_for b t; b0 = put_state t s b in
      case ts_state s of
        UP \<Rightarrow> (b0, True, [])
      | HALF_OPEN \<Rightarrow> (b0, False, [])
      | DOWN \<Rightarrow>
          (case ts_down_since s of
             None \<Rightarrow> (b0, False, [])
           | Some since \<Rightarrow>
               if now - since < br_cooldown_s b then (b0, False, [])
               else (put_state t (s\<lparr>ts_state := HALF_OPEN\<rparr>) b, True, [transition_of t tier s HALF_OPEN CooldownElapsed])))"

definition record_success :: "backend_target \<Rightarrow> model_tier \<Rightarrow> breaker \<Rightarrow> breaker \<times> health_transition list" where
  "record_success t tier b =
     (let s = state_for b t in
      (put_state t \<lparr>ts_state = UP, ts_failures = 0, ts_down_since = None\<rparr> b,
       if ts_state s \<noteq> UP then [transition_of t tier s UP (if ts_state s = HALF_OPEN then ProbeSucceeded else Recovered)] else []))"

definition record_failure :: "backend_target \<Rightarrow> model_tier \<Rightarrow> rat \<Rightarrow> breaker \<Rightarrow> breaker \<times> health_transition list" where
  "record_failure t tier now b =
     (let s = state_for b t in
      if ts_state s = HALF_OPEN then
        (put_state t \<lparr>ts_state = DOWN, ts_failures = max (ts_failures s) (br_open_after b), ts_down_since = Some now\<rparr> b,
         [transition_of t tier s DOWN ProbeFailed])
      else
        let s1 = s\<lparr>ts_failures := ts_failures s + 1\<rparr> in
        if br_open_after b \<le> ts_failures s1 \<and> ts_state s1 \<noteq> DOWN then
          (put_state t (s1\<lparr>ts_state := DOWN, ts_down_since := Some now\<rparr>) b,
           [transition_of t tier s1 DOWN (TooManyFailures (ts_failures s1) (br_open_after b))])
        else (put_state t s1 b, []))"

definition abandon_probe :: "backend_target \<Rightarrow> model_tier \<Rightarrow> breaker \<Rightarrow> breaker \<times> health_transition list" where
  "abandon_probe t tier b =
     (let s = state_for b t in
      if ts_state s \<noteq> HALF_OPEN then (put_state t s b, [])
      else (put_state t (s\<lparr>ts_state := DOWN\<rparr>) b, [transition_of t tier s DOWN ProbeAbandoned]))"

end
