(* ===== verification/Model_Client.thy ===== *)
theory Model_Client
  imports Breaker Py_Text Retry_Ladder
begin

text \<open>
  The reference client of \<open>src/fleet/llm/client.py\<close>: replicas, capability negotiation, the budget gate, the life of one target
  (rate-limit backoff, truncation raises, schema repairs) and the failover walk over the tier behind the breaker. What is injected is
  the record \<open>client_env\<close>: the readings of the clock, the replies of the backends by position, what a backend declares, the
  JSON and schema library, and the two instruction texts with their argument. All event sinks are present; the request log is what the backends receive. Streaming heartbeats
  are not modelled, nor is a cancellation during the back-off sleep. One call of \<open>complete\<close> runs here without interleaving; interleavings of the breaker
  are in its own theory.
\<close>

section \<open>Data\<close>

datatype finish_reason = FR_STOP | FR_LENGTH | FR_REFUSAL | FR_TOOL_CALL | FR_FILTERED

datatype failover_trigger = CONNECTION | SERVER_ERROR | RATE_LIMIT | SCHEMA_UNSATISFIED

datatype structured_output_mode = JSON_SCHEMA | TOOL_CALL | CONSTRAINED | PROMPTED

datatype message_role = SystemRole | UserRole | AssistantRole | ToolRole

record message =
  msg_role :: message_role
  msg_content :: string

record model_capabilities =
  cap_tools :: bool
  cap_json_schema :: bool
  cap_system_prompt :: bool
  cap_constrained :: bool
  cap_max_output_tokens :: int
  cap_modes :: "structured_output_mode list"

record token_usage =
  tu_role :: string
  tu_tier :: "model_tier option"
  tu_backend :: string
  tu_model_id :: string
  tu_input_tokens :: int
  tu_output_tokens :: int
  tu_cost_usd :: rat
  tu_llm_failovers :: nat

record 'j backend_reply =
  br_text :: "string option"
  br_tool_arguments :: "'j option"
  br_usage :: token_usage
  br_finish :: finish_reason

record 'v model_response =
  mr_value :: 'v
  mr_usage :: token_usage
  mr_mode :: structured_output_mode
  mr_finish :: finish_reason
  mr_repairs :: nat

datatype llm_error =
    UnknownBackend string
  | BudgetExhausted
  | SchemaUnsatisfied nat
  | ModelRefused finish_reason
  | TransportError failover_trigger
  | TierUnavailable model_tier "string list"
  | InvalidCapabilities
  | BackendRaised

datatype 'j invoke_outcome = Replied "'j backend_reply" | TransportFailed failover_trigger | Raised

record call_policy =
  cp_max_schema_repairs :: nat
  cp_max_targets_per_call :: nat
  cp_max_truncation_retries :: nat
  cp_truncation_growth :: rat
  cp_default_max_output_tokens :: int

record llm_call =
  lc_role :: string
  lc_tier :: model_tier
  lc_backend :: string
  lc_model_id :: string
  lc_mode :: structured_output_mode
  lc_input_tokens :: int
  lc_output_tokens :: int
  lc_cost_usd :: rat
  lc_latency_ms :: int
  lc_error :: bool
  lc_base_url :: "string option"

datatype client_event =
    CapabilityDrift string model_tier string string structured_output_mode structured_output_mode
  | BackendFailover string model_tier backend_target backend_target failover_trigger
  | LlmCall llm_call
  | HealthChanged health_transition

record request =
  rq_target :: backend_target
  rq_messages :: "message list"
  rq_with_schema :: bool
  rq_mode :: structured_output_mode
  rq_max_output_tokens :: int

record ('j, 'v) client_env =
  env_clock :: "nat \<Rightarrow> rat"
  env_invoke :: "nat \<Rightarrow> request \<Rightarrow> 'j invoke_outcome"
  env_backends :: "string list"
  env_declared :: "backend_target \<Rightarrow> model_capabilities"
  env_override :: "model_capabilities \<Rightarrow> (string, string) dict \<Rightarrow> model_capabilities option"
  env_loads :: "string \<Rightarrow> string + 'j"
  env_dumps :: "'j \<Rightarrow> string"
  env_empty_object :: 'j
  env_validate :: "'j \<Rightarrow> string + 'v"
  env_schema_text :: string
  env_prompted :: "string \<Rightarrow> string"
  env_repair :: "string \<Rightarrow> string"

record client_state =
  cs_breaker :: breaker
  cs_reads :: nat
  cs_requests :: "request list"
  cs_events :: "client_event list"

section \<open>Replicas and routes\<close>

text \<open>\<open>affinity\<close> is the number read from the first eight bytes of the digest of the repository id.\<close>

definition replica_index :: "(repo_id \<Rightarrow> nat) \<Rightarrow> repo_id \<Rightarrow> nat \<Rightarrow> nat option" where
  "replica_index affinity repo n = (if n < 1 then None else Some (affinity repo mod n))"

definition resolve_replicas :: "(repo_id \<Rightarrow> nat) \<Rightarrow> repo_id option \<Rightarrow> backend_target \<Rightarrow> backend_target list" where
  "resolve_replicas affinity repo t =
     (case bt_base_urls t of
        None \<Rightarrow> [t]
      | Some [] \<Rightarrow> [t]
      | Some urls \<Rightarrow>
          let start = (case repo of None \<Rightarrow> 0 | Some r \<Rightarrow> affinity r mod length urls) in
          map (\<lambda>u. t\<lparr>bt_base_url := Some u, bt_base_urls := None\<rparr>) (drop start urls @ take start urls))"

record tier_route =
  tr_tier :: model_tier
  tr_targets :: "backend_target list"

fun one_effort :: "backend_target list \<Rightarrow> (string \<times> string, string option) dict \<Rightarrow> bool" where
  "one_effort [] seen = True"
| "one_effort (t # ts) seen =
     (let k = (bt_backend t, bt_model_id t) in
      case dict_get seen k of
        Some e \<Rightarrow> e = bt_effort t \<and> one_effort ts (dict_set seen k (bt_effort t))
      | None \<Rightarrow> one_effort ts (dict_set seen k (bt_effort t)))"

definition route_ok :: "tier_route \<Rightarrow> bool" where
  "route_ok r \<longleftrightarrow> tr_targets r \<noteq> [] \<and> one_effort (tr_targets r) []"

section \<open>Pricing and negotiation\<close>

definition LADDER :: "structured_output_mode list" where
  "LADDER = [JSON_SCHEMA, TOOL_CALL, CONSTRAINED, PROMPTED]"

fun mode_rank :: "structured_output_mode \<Rightarrow> nat" where
  "mode_rank JSON_SCHEMA = 0"
| "mode_rank TOOL_CALL = 1"
| "mode_rank CONSTRAINED = 2"
| "mode_rank PROMPTED = 3"

definition estimate_cost_usd :: "backend_target \<Rightarrow> int \<Rightarrow> int \<Rightarrow> rat" where
  "estimate_cost_usd t n_in n_out =
     (case bt_price t of PerMtok i u \<Rightarrow> (i * of_int n_in + u * of_int n_out) / 10 ^ 6 | FreePrice \<Rightarrow> 0)"

definition negotiate :: "model_capabilities \<Rightarrow> structured_output_mode" where
  "negotiate caps =
     (if cap_json_schema caps then JSON_SCHEMA
      else if cap_tools caps then TOOL_CALL
      else if cap_constrained caps then CONSTRAINED
      else PROMPTED)"

definition promised_mode :: "model_capabilities \<Rightarrow> structured_output_mode" where
  "promised_mode caps = (if cap_modes caps = [] then last LADDER else arg_min_list mode_rank (cap_modes caps))"

definition merge_capabilities :: "('j, 'v) client_env \<Rightarrow> model_capabilities \<Rightarrow> backend_target \<Rightarrow> llm_error + model_capabilities" where
  "merge_capabilities env declared t =
     (if bt_override t = [] then Inr declared
      else case env_override env declared (bt_override t) of None \<Rightarrow> Inl InvalidCapabilities | Some caps \<Rightarrow> Inr caps)"

definition estimate_input_tokens :: "message list \<Rightarrow> int" where
  "estimate_input_tokens ms = int (sum_list (map (length \<circ> msg_content) ms) div 4 + 8 * length ms)"

section \<open>Messages and replies\<close>

definition NL :: char where
  "NL = CHR 0x0A"

fun join_blank :: "string list \<Rightarrow> string" where
  "join_blank [] = []"
| "join_blank [x] = x"
| "join_blank (x # y # zs) = x @ [NL, NL] @ join_blank (y # zs)"

definition fold_systems :: "message list \<Rightarrow> message list" where
  "fold_systems ms =
     (let systems = map msg_content (filter (\<lambda>m. msg_role m = SystemRole) ms);
          rest = filter (\<lambda>m. msg_role m \<noteq> SystemRole) ms;
          folded = join_blank systems in
      if systems = [] then rest
      else case rest of
        m # ms' \<Rightarrow>
          if msg_role m = UserRole then \<lparr>msg_role = UserRole, msg_content = folded @ [NL, NL] @ msg_content m\<rparr> # ms'
          else \<lparr>msg_role = UserRole, msg_content = folded\<rparr> # rest
      | [] \<Rightarrow> [\<lparr>msg_role = UserRole, msg_content = folded\<rparr>])"

definition prepare_messages :: "('j, 'v) client_env \<Rightarrow> message list \<Rightarrow> model_capabilities \<Rightarrow> structured_output_mode \<Rightarrow> message list" where
  "prepare_messages env ms caps mode =
     (let prepared = (if cap_system_prompt caps then ms else fold_systems ms) in
      if mode = PROMPTED
      then prepared @ [\<lparr>msg_role = UserRole, msg_content = env_prompted env (env_schema_text env)\<rparr>]
      else prepared)"

definition repair_turns :: "('j, 'v) client_env \<Rightarrow> 'j backend_reply \<Rightarrow> structured_output_mode \<Rightarrow> string \<Rightarrow> message list" where
  "repair_turns env reply mode detail =
     [if mode = TOOL_CALL
      then \<lparr>msg_role = ToolRole,
            msg_content = env_dumps env (case br_tool_arguments reply of None \<Rightarrow> env_empty_object env | Some j \<Rightarrow> j)\<rparr>
      else \<lparr>msg_role = AssistantRole, msg_content = (case br_text reply of None \<Rightarrow> [] | Some s \<Rightarrow> s)\<rparr>,
      \<lparr>msg_role = UserRole, msg_content = env_repair env detail\<rparr>]"

definition FENCE :: string where
  "FENCE = ''```''"

text \<open>\<open>body.rsplit(FENCE, 1)[0]\<close>: what stands before the last fence, or everything.\<close>

fun before_last_fence :: "string \<Rightarrow> string option" where
  "before_last_fence [] = None"
| "before_last_fence (c # cs) =
     (case before_last_fence cs of
        Some s \<Rightarrow> Some (c # s)
      | None \<Rightarrow> if take 3 (c # cs) = FENCE then Some [] else None)"

definition strip_fence :: "string \<Rightarrow> string" where
  "strip_fence s =
     (let stripped = strip s in
      if take 3 stripped \<noteq> FENCE then stripped
      else
        let body = (if NL \<in> set stripped then tl (dropWhile (\<lambda>c. c \<noteq> NL) stripped) else []) in
        strip (case before_last_fence body of None \<Rightarrow> body | Some b \<Rightarrow> b))"

text \<open>A rejected reply carries the text of the exception.\<close>

definition validate_reply :: "('j, 'v) client_env \<Rightarrow> 'j backend_reply \<Rightarrow> structured_output_mode \<Rightarrow> string + 'v" where
  "validate_reply env reply mode =
     (if mode = TOOL_CALL then
        (case br_tool_arguments reply of
           None \<Rightarrow> Inl ''TOOL_CALL rung returned no tool_arguments object''
         | Some j \<Rightarrow> env_validate env j)
      else
        let s = strip_fence (case br_text reply of None \<Rightarrow> [] | Some s \<Rightarrow> s) in
        if s = [] then Inl ''empty reply text'' else rbind (env_loads env s) (env_validate env))"

definition stamp :: "token_usage \<Rightarrow> string \<Rightarrow> model_tier \<Rightarrow> backend_target \<Rightarrow> token_usage" where
  "stamp u role tier t =
     u\<lparr>tu_role := role, tu_tier := Some tier, tu_backend := bt_backend t,
       tu_model_id := (if tu_model_id u = [] then bt_model_id t else tu_model_id u),
       tu_cost_usd := estimate_cost_usd t (tu_input_tokens u) (tu_output_tokens u)\<rparr>"

section \<open>The budget gate\<close>

definition read_clock :: "('j, 'v) client_env \<Rightarrow> client_state \<Rightarrow> client_state \<times> rat" where
  "read_clock env st = (st\<lparr>cs_reads := cs_reads st + 1\<rparr>, env_clock env (cs_reads st))"

definition log_event :: "client_event \<Rightarrow> client_state \<Rightarrow> client_state" where
  "log_event e st = st\<lparr>cs_events := cs_events st @ [e]\<rparr>"

definition check_budget ::
  "('j, 'v) client_env \<Rightarrow> call_budget option \<Rightarrow> backend_target \<Rightarrow> int \<Rightarrow> int \<Rightarrow> client_state \<Rightarrow> client_state \<times> (llm_error + unit)" where
  "check_budget env budget t n_in n_out st =
     (case budget of
        None \<Rightarrow> (st, Inr ())
      | Some b \<Rightarrow>
          let (st1, now) = read_clock env st in
          if cb_deadline b \<le> now then (st1, Inl BudgetExhausted)
          else if cb_tokens b < n_in + n_out then (st1, Inl BudgetExhausted)
          else if cb_usd b < estimate_cost_usd t n_in n_out then (st1, Inl BudgetExhausted)
          else (st1, Inr ()))"

definition emit_drift :: "string \<Rightarrow> model_tier \<Rightarrow> backend_target \<Rightarrow> model_capabilities \<Rightarrow> structured_output_mode \<Rightarrow> client_state \<Rightarrow> client_state" where
  "emit_drift role tier t caps actual st =
     (if mode_rank actual \<le> mode_rank (promised_mode caps) then st
      else log_event (CapabilityDrift role tier (bt_backend t) (bt_model_id t) (promised_mode caps) actual) st)"

section \<open>One target\<close>

record target_call =
  tc_role :: string
  tc_tier :: model_tier
  tc_target :: backend_target
  tc_caps :: model_capabilities
  tc_messages :: "message list"
  tc_mode :: structured_output_mode
  tc_budget :: "call_budget option"

definition emit_llm_call :: "('j, 'v) client_env \<Rightarrow> target_call \<Rightarrow> 'j backend_reply \<Rightarrow> rat \<Rightarrow> client_state \<Rightarrow> client_state" where
  "emit_llm_call env tc reply started st =
     (let (st1, now) = read_clock env st; u = br_usage reply; t = tc_target tc in
      log_event (LlmCall \<lparr>lc_role = tc_role tc, lc_tier = tc_tier tc, lc_backend = bt_backend t,
        lc_model_id = (if tu_model_id u = [] then bt_model_id t else tu_model_id u), lc_mode = tc_mode tc,
        lc_input_tokens = tu_input_tokens u, lc_output_tokens = tu_output_tokens u,
        lc_cost_usd = estimate_cost_usd t (tu_input_tokens u) (tu_output_tokens u),
        lc_latency_ms = max (\<lfloor>(now - started) * 1000\<rfloor>) 0,
        lc_error = (br_finish reply \<in> {FR_REFUSAL, FR_FILTERED}), lc_base_url = bt_base_url t\<rparr>) st1)"

definition raise_cap :: "call_policy \<Rightarrow> target_call \<Rightarrow> int \<Rightarrow> nat \<Rightarrow> llm_error + int" where
  "raise_cap pol tc current truncations =
     (if cp_max_truncation_retries pol < truncations then Inl BudgetExhausted
      else
        let grown = min (\<lfloor>of_int current * cp_truncation_growth pol\<rfloor>) (cap_max_output_tokens (tc_caps tc));
            want = (case tc_budget tc of
                      None \<Rightarrow> grown
                    | Some b \<Rightarrow> min grown (max (cb_tokens b - estimate_input_tokens (tc_messages tc)) 0)) in
        if want \<le> current then Inl BudgetExhausted else Inr want)"

definition request_of :: "target_call \<Rightarrow> message list \<Rightarrow> int \<Rightarrow> request" where
  "request_of tc conversation cap =
     \<lparr>rq_target = tc_target tc, rq_messages = conversation, rq_with_schema = (tc_mode tc \<noteq> PROMPTED),
      rq_mode = tc_mode tc, rq_max_output_tokens = cap\<rparr>"

definition invoke :: "('j, 'v) client_env \<Rightarrow> request \<Rightarrow> client_state \<Rightarrow> client_state \<times> 'j invoke_outcome" where
  "invoke env rq st = (st\<lparr>cs_requests := cs_requests st @ [rq]\<rparr>, env_invoke env (length (cs_requests st)) rq)"

function call_loop ::
  "('j, 'v) client_env \<Rightarrow> call_policy \<Rightarrow> retry_policy \<Rightarrow> target_call \<Rightarrow> message list \<Rightarrow> message list \<Rightarrow> nat \<Rightarrow> nat \<Rightarrow> nat \<Rightarrow> int
   \<Rightarrow> client_state \<Rightarrow> client_state \<times> (llm_error + 'v model_response)" where
  "call_loop env pol rp tc base conversation repairs truncations rate_limited cap st =
     (let (st1, started) = read_clock env st;
          (st2, outcome) = invoke env (request_of tc conversation cap) st1 in
      case outcome of
        Raised \<Rightarrow> (st2, Inl BackendRaised)
      | TransportFailed trigger \<Rightarrow>
          if trigger \<noteq> RATE_LIMIT \<or> max_transient_retries rp \<le> int rate_limited then (st2, Inl (TransportError trigger))
          else call_loop env pol rp tc base conversation repairs truncations (rate_limited + 1) cap st2
      | Replied reply \<Rightarrow>
          let st3 = emit_llm_call env tc reply started st2 in
          if br_finish reply = FR_LENGTH then
            (case raise_cap pol tc cap (truncations + 1) of
               Inl e \<Rightarrow> (st3, Inl e)
             | Inr want \<Rightarrow> call_loop env pol rp tc base conversation repairs (truncations + 1) rate_limited want st3)
          else if br_finish reply = FR_REFUSAL \<or> br_finish reply = FR_FILTERED then (st3, Inl (ModelRefused (br_finish reply)))
          else
            (case validate_reply env reply (tc_mode tc) of
               Inl detail \<Rightarrow>
                 if cp_max_schema_repairs pol \<le> repairs then (st3, Inl (SchemaUnsatisfied repairs))
                 else call_loop env pol rp tc base (base @ repair_turns env reply (tc_mode tc) detail) (repairs + 1) truncations
                        rate_limited cap st3
             | Inr value \<Rightarrow>
                 (st3, Inr \<lparr>mr_value = value, mr_usage = stamp (br_usage reply) (tc_role tc) (tc_tier tc) (tc_target tc),
                   mr_mode = tc_mode tc, mr_finish = br_finish reply, mr_repairs = repairs\<rparr>)))"
  by pat_completeness auto
termination
  by (relation "measure (\<lambda>(env, pol, rp, tc, base, conversation, repairs, truncations, rate_limited, cap, st).
        (cp_max_schema_repairs pol - repairs) + (cp_max_truncation_retries pol - truncations)
        + nat (max_transient_retries rp - int rate_limited))")
     (auto simp: raise_cap_def split: if_splits)

declare call_loop.simps [simp del]

definition call_target ::
  "('j, 'v) client_env \<Rightarrow> call_policy \<Rightarrow> retry_policy \<Rightarrow> target_call \<Rightarrow> int \<Rightarrow> client_state \<Rightarrow> client_state \<times> (llm_error + 'v model_response)" where
  "call_target env pol rp tc cap st =
     (let base = prepare_messages env (tc_messages tc) (tc_caps tc) (tc_mode tc) in
      call_loop env pol rp tc base base 0 0 0 cap st)"

section \<open>The failover walk\<close>

definition with_breaker :: "(breaker \<Rightarrow> breaker \<times> health_transition list) \<Rightarrow> client_state \<Rightarrow> client_state" where
  "with_breaker f st =
     (let (b, ts) = f (cs_breaker st) in st\<lparr>cs_breaker := b, cs_events := cs_events st @ map HealthChanged ts\<rparr>)"

definition gate :: "('j, 'v) client_env \<Rightarrow> backend_target \<Rightarrow> model_tier \<Rightarrow> client_state \<Rightarrow> client_state \<times> bool" where
  "gate env t tier st =
     (let (st1, now) = read_clock env st; (b, ok, ts) = may_call t tier now (cs_breaker st1) in
      (st1\<lparr>cs_breaker := b, cs_events := cs_events st1 @ map HealthChanged ts\<rparr>, ok))"

definition fail_target :: "('j, 'v) client_env \<Rightarrow> backend_target \<Rightarrow> model_tier \<Rightarrow> client_state \<Rightarrow> client_state" where
  "fail_target env t tier st = (let (st1, now) = read_clock env st in with_breaker (record_failure t tier now) st1)"

record complete_call =
  cm_role :: string
  cm_route :: tier_route
  cm_messages :: "message list"
  cm_max_output_tokens :: "int option"
  cm_budget :: "call_budget option"

definition attempt_target ::
  "('j, 'v) client_env \<Rightarrow> call_policy \<Rightarrow> retry_policy \<Rightarrow> complete_call \<Rightarrow> backend_target \<Rightarrow> client_state
   \<Rightarrow> client_state \<times> (llm_error + 'v model_response)" where
  "attempt_target env pol rp cm t st =
     (if bt_backend t \<notin> set (env_backends env) then (st, Inl (UnknownBackend (bt_backend t)))
      else case merge_capabilities env (env_declared env t) t of
        Inl e \<Rightarrow> (st, Inl e)
      | Inr caps \<Rightarrow>
          let requested = (case cm_max_output_tokens cm of None \<Rightarrow> cp_default_max_output_tokens pol | Some n \<Rightarrow> n);
              cap = min requested (cap_max_output_tokens caps);
              (st1, ok) = check_budget env (cm_budget cm) t (estimate_input_tokens (cm_messages cm)) cap st in
          (case ok of
             Inl e \<Rightarrow> (st1, Inl e)
           | Inr _ \<Rightarrow>
               let mode = negotiate caps;
                   tc = \<lparr>tc_role = cm_role cm, tc_tier = tr_tier (cm_route cm), tc_target = t, tc_caps = caps,
                         tc_messages = cm_messages cm, tc_mode = mode, tc_budget = cm_budget cm\<rparr> in
               call_target env pol rp tc cap (emit_drift (cm_role cm) (tr_tier (cm_route cm)) t caps mode st1)))"

fun trigger_of :: "llm_error \<Rightarrow> failover_trigger option" where
  "trigger_of (TransportError trigger) = Some trigger"
| "trigger_of (SchemaUnsatisfied _) = Some SCHEMA_UNSATISFIED"
| "trigger_of _ = None"

definition target_name :: "backend_target \<Rightarrow> string" where
  "target_name t = bt_backend t @ '':'' @ bt_model_id t"

fun walk_targets ::
  "('j, 'v) client_env \<Rightarrow> call_policy \<Rightarrow> retry_policy \<Rightarrow> complete_call \<Rightarrow> nat \<Rightarrow> string list \<Rightarrow> backend_target list \<Rightarrow> client_state
   \<Rightarrow> client_state \<times> (llm_error + 'v model_response)" where
  "walk_targets env pol rp cm index tried [] st = (st, Inl (TierUnavailable (tr_tier (cm_route cm)) tried))"
| "walk_targets env pol rp cm index tried (t # ts) st =
     (let tier = tr_tier (cm_route cm);
          tried1 = tried @ [target_name t];
          (st1, ok) = gate env t tier st in
      if \<not> ok then walk_targets env pol rp cm (index + 1) tried1 ts st1
      else
        let (st2, result) = attempt_target env pol rp cm t st1 in
        (case result of
           Inr response \<Rightarrow>
             (with_breaker (record_success t tier) st2,
              Inr (if index > 0 then response\<lparr>mr_usage := (mr_usage response)\<lparr>tu_llm_failovers := index\<rparr>\<rparr> else response))
         | Inl e \<Rightarrow>
             (case trigger_of e of
                None \<Rightarrow> (with_breaker (abandon_probe t tier) st2, Inl e)
              | Some trigger \<Rightarrow>
                  let st3 = (case e of TransportError _ \<Rightarrow> fail_target env t tier st2 | _ \<Rightarrow> with_breaker (abandon_probe t tier) st2);
                      st4 = (case ts of [] \<Rightarrow> st3 | u # _ \<Rightarrow> log_event (BackendFailover (cm_role cm) tier t u trigger) st3) in
                  walk_targets env pol rp cm (index + 1) tried1 ts st4)))"

definition call_targets :: "(repo_id \<Rightarrow> nat) \<Rightarrow> call_policy \<Rightarrow> repo_id option \<Rightarrow> tier_route \<Rightarrow> backend_target list" where
  "call_targets affinity pol repo route =
     concat (map (resolve_replicas affinity repo) (take (cp_max_targets_per_call pol) (tr_targets route)))"

definition complete ::
  "('j, 'v) client_env \<Rightarrow> call_policy \<Rightarrow> retry_policy \<Rightarrow> (repo_id \<Rightarrow> nat) \<Rightarrow> repo_id option \<Rightarrow> complete_call \<Rightarrow> client_state
   \<Rightarrow> client_state \<times> (llm_error + 'v model_response)" where
  "complete env pol rp affinity repo cm st = walk_targets env pol rp cm 0 [] (call_targets affinity pol repo (cm_route cm)) st"

end
