(* ===== verification/Breaker_Correct.thy ===== *)
theory Breaker_Correct
  imports Breaker
begin

text \<open>
  The breaker of \<open>src/fleet/llm/failover.py\<close> under every interleaving of its methods: an endpoint is closed off exactly
  by an unbroken streak of failures, and it is always probed again.
\<close>

section \<open>Histories\<close>

datatype breaker_op =
    MayCall backend_target model_tier rat
  | Succeeded backend_target model_tier
  | Failed backend_target model_tier rat
  | Abandoned backend_target model_tier

fun breaker_step :: "breaker_op \<Rightarrow> breaker \<Rightarrow> breaker" where
  "breaker_step (MayCall t tier now) b = fst (may_call t tier now b)"
| "breaker_step (Succeeded t tier) b = fst (record_success t tier b)"
| "breaker_step (Failed t tier now) b = fst (record_failure t tier now b)"
| "breaker_step (Abandoned t tier) b = fst (abandon_probe t tier b)"

definition new_breaker :: "int \<Rightarrow> rat \<Rightarrow> breaker" where
  "new_breaker n cooldown = \<lparr>br_open_after = n, br_cooldown_s = cooldown, br_targets = []\<rparr>"

text \<open>The failures of an endpoint since its last success, over a history in reverse order.\<close>

fun streak :: "string \<Rightarrow> breaker_op list \<Rightarrow> int" where
  "streak k [] = 0"
| "streak k (Succeeded t tier # ops) = (if breaker_key t = k then 0 else streak k ops)"
| "streak k (Failed t tier now # ops) = (if breaker_key t = k then streak k ops + 1 else streak k ops)"
| "streak k (MayCall t tier now # ops) = streak k ops"
| "streak k (Abandoned t tier # ops) = streak k ops"

definition target_state_at :: "breaker \<Rightarrow> string \<Rightarrow> target_state" where
  "target_state_at b k = (case dict_get (br_targets b) k of None \<Rightarrow> fresh_target | Some s \<Rightarrow> s)"

lemma state_for_at: "state_for b t = target_state_at b (breaker_key t)"
  by (simp add: state_for_def target_state_at_def)

lemma put_state_at [simp]: "target_state_at (put_state t s b) k = (if k = breaker_key t then s else target_state_at b k)"
  by (simp add: put_state_def target_state_at_def)

lemma put_state_fields [simp]: "br_open_after (put_state t s b) = br_open_after b" "br_cooldown_s (put_state t s b) = br_cooldown_s b"
  by (simp_all add: put_state_def)

lemma step_fields [simp]: "br_open_after (breaker_step op b) = br_open_after b" "br_cooldown_s (breaker_step op b) = br_cooldown_s b"
  by (cases op; simp add: may_call_def record_success_def record_failure_def abandon_probe_def Let_def split: health_state.splits option.splits)+

definition op_key :: "breaker_op \<Rightarrow> string" where
  "op_key op = (case op of MayCall t _ _ \<Rightarrow> breaker_key t | Succeeded t _ \<Rightarrow> breaker_key t | Failed t _ _ \<Rightarrow> breaker_key t | Abandoned t _ \<Rightarrow> breaker_key t)"

lemma step_other: "op_key op \<noteq> k \<Longrightarrow> target_state_at (breaker_step op b) k = target_state_at b k"
  by (cases op) (auto simp: op_key_def may_call_def record_success_def record_failure_def abandon_probe_def Let_def
      split: health_state.splits option.splits)

text \<open>What the state of one endpoint says about its streak.\<close>

definition tracks :: "int \<Rightarrow> int \<Rightarrow> target_state \<Rightarrow> bool" where
  "tracks n f s \<longleftrightarrow>
     (case ts_state s of
        UP \<Rightarrow> ts_failures s = f \<and> f < n \<and> ts_down_since s = None
      | _ \<Rightarrow> n \<le> f \<and> ts_down_since s \<noteq> None)"

lemma step_tracks:
  assumes "tracks (br_open_after b) (streak k ops) (target_state_at b k)" and "1 \<le> br_open_after b"
  shows "tracks (br_open_after b) (streak k (op # ops)) (target_state_at (breaker_step op b) k)"
proof (cases "op_key op = k")
  case True
  then show ?thesis
    using assms
    by (cases op)
      (auto simp: op_key_def tracks_def may_call_def record_success_def record_failure_def abandon_probe_def Let_def state_for_at
        split: health_state.splits option.splits if_splits)
next
  case False
  then have "streak k (op # ops) = streak k ops" by (cases op) (auto simp: op_key_def)
  then show ?thesis using assms(1) by (simp add: step_other[OF False])
qed

lemma history_tracks:
  "1 \<le> n \<Longrightarrow> br_open_after (foldr breaker_step ops (new_breaker n c)) = n
     \<and> tracks n (streak k ops) (target_state_at (foldr breaker_step ops (new_breaker n c)) k)"
proof (induction ops)
  case Nil
  then show ?case by (simp add: tracks_def target_state_at_def new_breaker_def fresh_target_def)
next
  case (Cons op ops)
  then show ?case using step_tracks[of "foldr breaker_step ops (new_breaker n c)" k ops op] by simp
qed

text \<open>
  Since when an endpoint is closed off and whether a probe is under way, read off the history alone. The cooldown starts with the failure that brings the
  streak to the limit and starts again with the failure of a probe; a check at or after its end begins a probe; a success opens the
  endpoint, and a failure, a success or an abandonment ends the probe.
\<close>

fun closure :: "int \<Rightarrow> rat \<Rightarrow> string \<Rightarrow> breaker_op list \<Rightarrow> rat option \<times> bool" where
  "closure n cooldown k [] = (None, False)"
| "closure n cooldown k (Succeeded t tier # ops) = (if breaker_key t = k then (None, False) else closure n cooldown k ops)"
| "closure n cooldown k (Failed t tier now # ops) =
     (case closure n cooldown k ops of (since, probing) \<Rightarrow>
      if breaker_key t = k \<and> (probing \<or> streak k ops + 1 = n) then (Some now, False) else (since, probing))"
| "closure n cooldown k (Abandoned t tier # ops) =
     (case closure n cooldown k ops of (since, probing) \<Rightarrow> (since, if breaker_key t = k then False else probing))"
| "closure n cooldown k (MayCall t tier now # ops) =
     (case closure n cooldown k ops of (since, probing) \<Rightarrow>
      (since, probing \<or> breaker_key t = k \<and> (case since of None \<Rightarrow> False | Some start \<Rightarrow> start + cooldown \<le> now)))"

definition closed_as :: "rat option \<times> bool \<Rightarrow> target_state \<Rightarrow> bool" where
  "closed_as = (\<lambda>(since, probing) s. ts_down_since s = since
     \<and> ts_state s = (case since of None \<Rightarrow> UP | Some _ \<Rightarrow> if probing then HALF_OPEN else DOWN) \<and> (since = None \<longrightarrow> \<not> probing))"

lemma step_closure:
  assumes "closed_as (closure (br_open_after b) (br_cooldown_s b) k ops) (target_state_at b k)"
    and "tracks (br_open_after b) (streak k ops) (target_state_at b k)" and "1 \<le> br_open_after b"
  shows "closed_as (closure (br_open_after b) (br_cooldown_s b) k (op # ops)) (target_state_at (breaker_step op b) k)"
proof (cases "op_key op = k")
  case True
  obtain since probing where c: "closure (br_open_after b) (br_cooldown_s b) k ops = (since, probing)" by (rule prod.exhaust)
  have "closed_as (since, probing) (target_state_at b k)" using assms(1) c by simp
  then show ?thesis
    using True assms(2,3) c
    by (cases op; cases since; cases probing)
      (auto simp: op_key_def tracks_def closed_as_def may_call_def record_success_def record_failure_def abandon_probe_def Let_def state_for_at
        split: health_state.splits option.splits if_splits)
next
  case False
  then have "closure (br_open_after b) (br_cooldown_s b) k (op # ops) = closure (br_open_after b) (br_cooldown_s b) k ops"
    by (cases op) (auto simp: op_key_def split: prod.splits)
  then show ?thesis using assms(1) by (simp add: step_other[OF False])
qed

lemma history_cooldown: "br_cooldown_s (foldr breaker_step ops (new_breaker n c)) = c"
  by (induction ops) (simp_all add: new_breaker_def)

lemma history_closure:
  assumes "1 \<le> n"
  shows "closed_as (closure n c k ops) (target_state_at (foldr breaker_step ops (new_breaker n c)) k)"
proof (induction ops)
  case Nil
  then show ?case by (simp add: closed_as_def target_state_at_def new_breaker_def fresh_target_def)
next
  case (Cons op ops)
  then show ?case
    using step_closure[of "foldr breaker_step ops (new_breaker n c)" k ops op] history_tracks[OF assms, of ops c k] assms
    by (simp add: history_cooldown)
qed

text \<open>While a probe is under way no check of the endpoint lets a caller through, until something is reported for it.\<close>

lemma probe_is_alone:
  assumes "ts_state (target_state_at b k) = HALF_OPEN"
    and "\<forall>op \<in> set ops. op_key op = k \<longrightarrow> (\<exists>t tier now. op = MayCall t tier now)"
  shows "ts_state (target_state_at (foldr breaker_step ops b) k) = HALF_OPEN"
  using assms(2)
proof (induction ops)
  case (Cons op ops)
  then have IH: "ts_state (target_state_at (foldr breaker_step ops b) k) = HALF_OPEN" by simp
  show ?case
  proof (cases "op_key op = k")
    case True
    then obtain t tier now where "op = MayCall t tier now" "breaker_key t = k" using Cons.prems by (auto simp: op_key_def)
    with IH show ?thesis by (auto simp: may_call_def Let_def state_for_at)
  next
    case False
    with IH show ?thesis by (simp add: step_other)
  qed
qed (use assms(1) in simp)

text \<open>
  C21: After any interleaving of checks, successes, failures and abandoned probes an endpoint is open exactly when its failures since its last
  success have not reached the limit; whoever else failed, throttled or gave up in between does not matter. It is closed off since the
  failure that reached the limit or, if later, the last failed probe. A check of an open endpoint is let through; one of a closed endpoint
  exactly when the cooldown from that moment has passed and no probe is under way. Once a check was let through there, every further check is
  refused, whatever happens at other endpoints, until something is reported for this one.
\<close>

theorem closed_exactly_by_a_streak:
  assumes "1 \<le> n" and "b = foldr breaker_step ops (new_breaker n cooldown)"
    and "closure n cooldown (breaker_key t) ops = (since, probing)"
  shows "(ts_state (state_for b t) = UP \<longleftrightarrow> streak (breaker_key t) ops < n)
     \<and> (since = None \<longleftrightarrow> streak (breaker_key t) ops < n) \<and> ts_down_since (state_for b t) = since
     \<and> (fst (snd (may_call t tier now b)) \<longleftrightarrow>
          (case since of None \<Rightarrow> True | Some start \<Rightarrow> \<not> probing \<and> start + cooldown \<le> now))
     \<and> (since \<noteq> None \<and> fst (snd (may_call t tier now b))
          \<and> (\<forall>op \<in> set later. op_key op = breaker_key t \<longrightarrow> (\<exists>u tier' now'. op = MayCall u tier' now'))
        \<longrightarrow> \<not> fst (snd (may_call t tier'' now'' (foldr breaker_step later (fst (may_call t tier now b))))))"
proof -
  have b: "br_open_after b = n" "br_cooldown_s b = cooldown" "tracks n (streak (breaker_key t) ops) (state_for b t)"
    "closed_as (since, probing) (state_for b t)"
    using history_tracks[OF assms(1), of ops cooldown "breaker_key t"] history_closure[OF assms(1), of cooldown "breaker_key t" ops]
      assms(2,3) by (simp_all add: state_for_at history_cooldown)
  have answer: "fst (snd (may_call t tier now b)) \<longleftrightarrow>
      (case since of None \<Rightarrow> True | Some start \<Rightarrow> \<not> probing \<and> start + cooldown \<le> now)"
    using b by (auto simp: closed_as_def may_call_def Let_def split: option.splits)
  have alone: "\<not> fst (snd (may_call t tier'' now'' (foldr breaker_step later (fst (may_call t tier now b)))))"
    if "since \<noteq> None" "fst (snd (may_call t tier now b))"
      "\<forall>op \<in> set later. op_key op = breaker_key t \<longrightarrow> (\<exists>u tier' now'. op = MayCall u tier' now')"
  proof -
    have "ts_state (target_state_at (fst (may_call t tier now b)) (breaker_key t)) = HALF_OPEN"
      using b that(1,2) unfolding answer
      by (auto simp: closed_as_def may_call_def Let_def state_for_at split: option.splits)
    from probe_is_alone[OF this that(3)] show ?thesis by (simp add: may_call_def Let_def state_for_at)
  qed
  show ?thesis
    using b(3,4) answer alone by (auto simp: tracks_def closed_as_def split: health_state.splits option.splits if_splits)
qed

section \<open>Late reports\<close>

text \<open>While an endpoint is closed, reports of calls that began before it closed do not prolong the cooldown.\<close>

theorem late_failures_keep_cooldown:
  assumes "ts_state (state_for b t) = DOWN" and "\<forall>op \<in> set ops. case op of Failed _ _ _ \<Rightarrow> True | Abandoned _ _ \<Rightarrow> True | _ \<Rightarrow> False"
  shows "ts_state (state_for (foldr breaker_step ops b) t) = DOWN
     \<and> ts_down_since (state_for (foldr breaker_step ops b) t) = ts_down_since (state_for b t)"
  using assms(2)
proof (induction ops)
  case (Cons op ops)
  let ?b = "foldr breaker_step ops b"
  have d: "ts_state (target_state_at ?b (breaker_key t)) = DOWN" "ts_down_since (target_state_at ?b (breaker_key t)) = ts_down_since (state_for b t)"
    using Cons by (auto simp: state_for_at)
  have "op_key op = breaker_key t \<or> op_key op \<noteq> breaker_key t" by blast
  then show ?case
    using Cons.prems d step_other[of op "breaker_key t" ?b]
    by (cases op) (auto simp: op_key_def record_failure_def abandon_probe_def Let_def state_for_at)
qed (use assms(1) in simp)

text \<open>
  The breaker does not know which call is the probe: a call that began before the endpoint closed and ends in an outcome that says nothing about it
  gives up the probe of another caller, and a second probe is let through while the first is still running.
\<close>

definition demo_target :: backend_target where
  "demo_target = \<lparr>bt_backend = ''vllm'', bt_model_id = ''m'', bt_base_url = None, bt_base_urls = None, bt_effort = None,
     bt_price = FreePrice, bt_override = []\<rparr>"

theorem stale_call_gives_up_the_probe:
  "let early = fst (may_call demo_target CHEAP 0 (new_breaker 1 10));
       closed = fst (record_failure demo_target CHEAP 1 early);
       probe1 = may_call demo_target CHEAP 20 closed;
       abandoned = fst (abandon_probe demo_target CHEAP (fst probe1));
       probe2 = may_call demo_target CHEAP 21 abandoned in
   fst (snd probe1) \<and> fst (snd probe2)"
  by code_simp

text \<open>One failure closes the endpoint at \<open>1\<close>; the probe let through at \<open>20\<close> fails at \<open>25\<close>, so the next one is due at \<open>35\<close>.\<close>

theorem closed_exactly_by_a_streak_witness:
  "let b = foldr breaker_step [Failed demo_target CHEAP 25, MayCall demo_target CHEAP 20, Failed demo_target CHEAP 1] (new_breaker 1 10) in
   ts_down_since (state_for b demo_target) = Some 25
   \<and> \<not> fst (snd (may_call demo_target CHEAP 34 b)) \<and> fst (snd (may_call demo_target CHEAP 35 b))"
proof -
  have c: "closure 1 10 (breaker_key demo_target) [Failed demo_target CHEAP 25, MayCall demo_target CHEAP 20, Failed demo_target CHEAP 1]
      = (Some 25, False)" by code_simp
  show ?thesis
    using closed_exactly_by_a_streak[OF _ refl c, of CHEAP 34 "[]" CHEAP 0] closed_exactly_by_a_streak[OF _ refl c, of CHEAP 35 "[]" CHEAP 0]
    by (simp add: Let_def)
qed

end
