(* ===== verification/Client_Correct.thy ===== *)
theory Client_Correct
  imports Model_Client Breaker_Correct
begin

text \<open>
  The client of \<open>src/fleet/llm/client.py\<close>: how many requests a call can send and within which budget, which errors reach the caller, and that the
  breaker is left without an unresolved probe.
\<close>

section \<open>The life of one target\<close>

text \<open>What every run of the loop has in common: it adds requests of one shape and leaves the breaker alone.\<close>

definition adds :: "(request \<Rightarrow> bool) \<Rightarrow> nat \<Rightarrow> client_state \<Rightarrow> client_state \<Rightarrow> bool" where
  "adds P n st st' \<longleftrightarrow> (\<exists>new. cs_requests st' = cs_requests st @ new \<and> length new \<le> n \<and> (\<forall>r \<in> set new. P r))"

definition sends :: "(request \<Rightarrow> bool) \<Rightarrow> nat \<Rightarrow> client_state \<Rightarrow> client_state \<Rightarrow> bool" where
  "sends P n st st' \<longleftrightarrow>
     cs_breaker st' = cs_breaker st \<and> adds P n st st'"

lemma adds_refl [simp]: "adds P n st st"
  by (simp add: adds_def)

lemma adds_trans: "adds P m st st1 \<Longrightarrow> adds P n st1 st2 \<Longrightarrow> adds P (m + n) st st2"
  unfolding adds_def by (fastforce intro: add_mono)

lemma adds_more: "adds P m st st' \<Longrightarrow> m \<le> n \<Longrightarrow> adds P n st st'"
  unfolding adds_def by (meson order_trans)

lemma adds_mono: "adds P n st st' \<Longrightarrow> (\<And>r. P r \<Longrightarrow> Q r) \<Longrightarrow> adds Q n st st'"
  unfolding adds_def by blast

lemma adds_none: "cs_requests st' = cs_requests st \<Longrightarrow> adds P 0 st st'"
  by (simp add: adds_def)

lemma sends_refl [simp]: "sends P n st st"
  by (simp add: sends_def)

lemma sends_trans: "sends P m st st1 \<Longrightarrow> sends P n st1 st2 \<Longrightarrow> sends P (m + n) st st2"
  by (auto simp: sends_def intro: adds_trans)

lemma sends_more: "sends P m st st' \<Longrightarrow> m \<le> n \<Longrightarrow> sends P n st st'"
  by (auto simp: sends_def intro: adds_more)

lemma sends_read: "sends P 0 st (fst (read_clock env st))"
  by (simp add: sends_def adds_def read_clock_def)

lemma sends_log: "sends P 0 st (log_event e st)"
  by (simp add: sends_def adds_def log_event_def)

lemma sends_invoke: "P rq \<Longrightarrow> sends P 1 st (fst (invoke env rq st))"
  by (simp add: sends_def adds_def invoke_def)

lemma sends_emit: "sends P 0 st (emit_llm_call env tc reply started st)"
  by (simp add: sends_def adds_def emit_llm_call_def read_clock_def log_event_def Let_def)

definition cap_fits :: "target_call \<Rightarrow> int \<Rightarrow> bool" where
  "cap_fits tc cap \<longleftrightarrow> 0 \<le> cap \<and> cap \<le> cap_max_output_tokens (tc_caps tc)
     \<and> (case tc_budget tc of None \<Rightarrow> True | Some b \<Rightarrow> estimate_input_tokens (tc_messages tc) + cap \<le> cb_tokens b)"

lemma raise_cap_fits: "raise_cap pol tc current k = Inr want \<Longrightarrow> cap_fits tc current \<Longrightarrow> cap_fits tc want \<and> current < want \<and> k \<le> cp_max_truncation_retries pol"
  by (auto simp: raise_cap_def cap_fits_def Let_def split: if_splits option.splits)

text \<open>A conversation is the prepared messages, or these and the two turns of the last repair.\<close>

definition shaped :: "('j, 'v) client_env \<Rightarrow> structured_output_mode \<Rightarrow> message list \<Rightarrow> message list \<Rightarrow> bool" where
  "shaped env mode base conv \<longleftrightarrow> conv = base \<or> (\<exists>reply detail. conv = base @ repair_turns env reply mode detail)"

definition good_request :: "('j, 'v) client_env \<Rightarrow> target_call \<Rightarrow> message list \<Rightarrow> request \<Rightarrow> bool" where
  "good_request env tc base r \<longleftrightarrow> rq_target r = tc_target tc \<and> rq_mode r = tc_mode tc \<and> cap_fits tc (rq_max_output_tokens r)
     \<and> shaped env (tc_mode tc) base (rq_messages r)"

definition target_errors :: "llm_error \<Rightarrow> bool" where
  "target_errors e \<longleftrightarrow> (case e of TierUnavailable _ _ \<Rightarrow> False | _ \<Rightarrow> True)"

lemma call_loop_step:
  assumes "call_loop env pol rp tc base conv rep trunc rl cap st = (st', result)" and "cap_fits tc cap"
    and "shaped env (tc_mode tc) base conv"
  obtains (ends) "sends (good_request env tc base) 1 st st'" "\<And>e. result = Inl e \<Longrightarrow> target_errors e"
  | (again) conv' rep' trunc' rl' cap' st2 where "sends (good_request env tc base) 1 st st2" "cap_fits tc cap'" "shaped env (tc_mode tc) base conv'"
      "call_loop env pol rp tc base conv' rep' trunc' rl' cap' st2 = (st', result)"
      "(cp_max_schema_repairs pol - rep') + (cp_max_truncation_retries pol - trunc') + nat (max_transient_retries rp - int rl')
        < (cp_max_schema_repairs pol - rep) + (cp_max_truncation_retries pol - trunc) + nat (max_transient_retries rp - int rl)"
proof -
  obtain st1 started where r: "read_clock env st = (st1, started)" by (rule prod.exhaust)
  obtain st2 outcome where i: "invoke env (request_of tc conv cap) st1 = (st2, outcome)" by (rule prod.exhaust)
  have "good_request env tc base (request_of tc conv cap)" using assms(2,3) by (simp add: good_request_def request_of_def)
  then have s2: "sends (good_request env tc base) 1 st st2"
    using sends_trans[OF sends_read[of "good_request env tc base" st env] sends_invoke, of "request_of tc conv cap" env] r i by simp
  note eq = assms(1)[unfolded call_loop.simps[of env pol rp tc base conv rep trunc rl cap st] r i Let_def prod.case]
  show thesis
  proof (cases outcome)
    case Raised
    then show thesis using eq s2 by (intro ends) (auto simp: target_errors_def)
  next
    case (TransportFailed trigger)
    then show thesis
    proof (cases "trigger \<noteq> RATE_LIMIT \<or> max_transient_retries rp \<le> int rl")
      case True
      then show thesis using eq s2 TransportFailed by (intro ends) (auto simp: target_errors_def)
    next
      case False
      then show thesis using eq s2 TransportFailed assms(2,3) by (intro again[of st2 cap conv rep trunc "rl + 1"]) auto
    qed
  next
    case (Replied reply)
    let ?st3 = "emit_llm_call env tc reply started st2"
    have s3: "sends (good_request env tc base) 1 st ?st3" using sends_trans[OF s2 sends_emit] by simp
    note eq3 = eq[unfolded Replied invoke_outcome.case]
    show thesis
    proof (cases "br_finish reply = FR_LENGTH")
      case True
      show thesis
      proof (cases "raise_cap pol tc cap (trunc + 1)")
        case (Inl e)
        then have "target_errors e" by (auto simp: raise_cap_def target_errors_def Let_def split: if_splits)
        then show thesis using eq3 True Inl s3 by (intro ends) auto
      next
        case (Inr want)
        then show thesis
          using eq3 True s3 raise_cap_fits[OF Inr assms(2)] assms(3) by (intro again[of ?st3 want conv rep "trunc + 1" rl]) auto
      qed
    next
      case False
      show thesis
      proof (cases "br_finish reply = FR_REFUSAL \<or> br_finish reply = FR_FILTERED")
        case True
        then show thesis using eq3 False s3 by (intro ends) (auto simp: target_errors_def)
      next
        case no: False
        show thesis
        proof (cases "validate_reply env reply (tc_mode tc)")
          case (Inl detail)
          show thesis
          proof (cases "cp_max_schema_repairs pol \<le> rep")
            case True
            then show thesis using eq3 False no Inl s3 by (intro ends) (auto simp: target_errors_def)
          next
            case more: False
            have "shaped env (tc_mode tc) base (base @ repair_turns env reply (tc_mode tc) detail)" by (auto simp: shaped_def)
            with more show thesis
              using eq3 False no Inl s3 assms(2)
              by (intro again[of ?st3 cap "base @ repair_turns env reply (tc_mode tc) detail" "rep + 1" trunc rl]) auto
          qed
        next
          case (Inr v)
          then show thesis using eq3 False no s3 by (intro ends) auto
        qed
      qed
    qed
  qed
qed

lemma call_loop_sends:
  assumes "call_loop env pol rp tc base conv rep trunc rl cap st = (st', result)" and "cap_fits tc cap" and "shaped env (tc_mode tc) base conv"
  shows "sends (good_request env tc base) (1 + (cp_max_schema_repairs pol - rep) + (cp_max_truncation_retries pol - trunc)
           + nat (max_transient_retries rp - int rl)) st st'
     \<and> (\<forall>e. result = Inl e \<longrightarrow> target_errors e)"
  using assms
proof (induction "(cp_max_schema_repairs pol - rep) + (cp_max_truncation_retries pol - trunc) + nat (max_transient_retries rp - int rl)"
    arbitrary: conv rep trunc rl cap st rule: less_induct)
  case less
  from less.prems show ?case
  proof (cases rule: call_loop_step)
    case ends
    then show ?thesis by (auto intro: sends_more)
  next
    case (again conv' rep' trunc' rl' cap' st2)
    from less.hyps[OF again(5) again(4) again(2,3)] again(1,5) show ?thesis
      by (auto intro: sends_more[OF sends_trans])
  qed
qed

section \<open>The walk over the targets\<close>

definition per_target :: "call_policy \<Rightarrow> retry_policy \<Rightarrow> nat" where
  "per_target pol rp = 1 + cp_max_schema_repairs pol + cp_max_truncation_retries pol + nat (max_transient_retries rp)"

text \<open>
  A request of a call: sent to one of its targets behind a registered backend, at the rung its capabilities negotiate, with the call's messages
  prepared for that rung and at most one round of repair turns. The budget is compared with the estimate of the messages the caller
  gave, as the client does: what preparation and repairs add to a prompt, and what earlier requests used, is not in the comparison.
\<close>

definition allowed_request :: "('j, 'v) client_env \<Rightarrow> complete_call \<Rightarrow> backend_target list \<Rightarrow> request \<Rightarrow> bool" where
  "allowed_request env cm ts r \<longleftrightarrow>
     rq_target r \<in> set ts \<and> bt_backend (rq_target r) \<in> set (env_backends env) \<and> 0 \<le> rq_max_output_tokens r
     \<and> (case cm_budget cm of None \<Rightarrow> True | Some b \<Rightarrow> estimate_input_tokens (cm_messages cm) + rq_max_output_tokens r \<le> cb_tokens b)
     \<and> (\<exists>caps. merge_capabilities env (env_declared env (rq_target r)) (rq_target r) = Inr caps
          \<and> rq_mode r = negotiate caps \<and> rq_max_output_tokens r \<le> cap_max_output_tokens caps
          \<and> shaped env (rq_mode r) (prepare_messages env (cm_messages cm) caps (rq_mode r)) (rq_messages r))"

definition sane_caps :: "('j, 'v) client_env \<Rightarrow> complete_call \<Rightarrow> call_policy \<Rightarrow> bool" where
  "sane_caps env cm pol \<longleftrightarrow>
     (case cm_max_output_tokens cm of None \<Rightarrow> 0 \<le> cp_default_max_output_tokens pol | Some n \<Rightarrow> 0 \<le> n)
     \<and> (\<forall>t caps. merge_capabilities env (env_declared env t) t = Inr caps \<longrightarrow> 0 < cap_max_output_tokens caps)"

lemma sends_check: "sends P 0 st (fst (check_budget env budget t n_in n_out st))"
  by (auto simp: check_budget_def sends_def adds_def read_clock_def Let_def split: option.splits)

lemma check_budget_Inr:
  "check_budget env (Some b) t n_in n_out st = (st1, Inr u) \<Longrightarrow> n_in + n_out \<le> cb_tokens b"
  by (auto simp: check_budget_def Let_def split: prod.splits if_splits)

lemma check_budget_Inl: "check_budget env budget t n_in n_out st = (st1, Inl e) \<Longrightarrow> e = BudgetExhausted"
  by (auto simp: check_budget_def Let_def split: prod.splits if_splits option.splits)

lemma sends_drift: "sends P 0 st (emit_drift role tier t caps mode st)"
  using sends_log by (simp add: emit_drift_def)

lemma attempt_sends:
  assumes "attempt_target env pol rp cm t st = (st', result)" and "sane_caps env cm pol" and "t \<in> set ts"
  shows "sends (allowed_request env cm ts) (per_target pol rp) st st' \<and> (\<forall>e. result = Inl e \<longrightarrow> target_errors e)"
proof (cases "bt_backend t \<in> set (env_backends env)")
  case False
  then show ?thesis using assms(1) by (auto simp: attempt_target_def target_errors_def)
next
  case known: True
  show ?thesis
  proof (cases "merge_capabilities env (env_declared env t) t")
    case (Inl e)
    then have "e = InvalidCapabilities" by (auto simp: merge_capabilities_def split: if_splits option.splits)
    then show ?thesis using assms(1) known Inl by (auto simp: attempt_target_def target_errors_def)
  next
    case (Inr caps)
    define requested where "requested = (case cm_max_output_tokens cm of None \<Rightarrow> cp_default_max_output_tokens pol | Some n \<Rightarrow> n)"
    define cap where "cap = min requested (cap_max_output_tokens caps)"
    obtain st1 ok where c: "check_budget env (cm_budget cm) t (estimate_input_tokens (cm_messages cm)) cap st = (st1, ok)" by (rule prod.exhaust)
    have s1: "sends P 0 st st1" for P
      using sends_check[of P st env "cm_budget cm" t "estimate_input_tokens (cm_messages cm)" cap] c by simp
    show ?thesis
    proof (cases ok)
      case bad: (Inl e)
      then have "target_errors e" using check_budget_Inl c by (fastforce simp: target_errors_def)
      then show ?thesis
        using assms(1) known Inr c s1 bad unfolding attempt_target_def by (auto simp: cap_def requested_def Let_def intro: sends_more)
    next
      case good: (Inr u)
      define tc where "tc = \<lparr>tc_role = cm_role cm, tc_tier = tr_tier (cm_route cm), tc_target = t, tc_caps = caps,
        tc_messages = cm_messages cm, tc_mode = negotiate caps, tc_budget = cm_budget cm\<rparr>"
      define st2 where "st2 = emit_drift (cm_role cm) (tr_tier (cm_route cm)) t caps (negotiate caps) st1"
      have call: "call_target env pol rp tc cap st2 = (st', result)"
        using assms(1) known Inr c good unfolding attempt_target_def by (simp add: cap_def requested_def tc_def st2_def Let_def)
      have "0 \<le> cap" using assms(2) Inr by (fastforce simp: sane_caps_def cap_def requested_def split: option.splits intro: less_imp_le)
      then have fits: "cap_fits tc cap"
        using c good check_budget_Inr[of env _ t _ cap st st1 u] by (auto simp: cap_fits_def tc_def cap_def split: option.splits)
      define base where "base = prepare_messages env (cm_messages cm) caps (negotiate caps)"
      have "call_loop env pol rp tc base base 0 0 0 cap st2 = (st', result)"
        using call by (simp add: call_target_def base_def tc_def Let_def)
      from call_loop_sends[OF this fits] have "sends (good_request env tc base) (per_target pol rp) st2 st' \<and> (\<forall>e. result = Inl e \<longrightarrow> target_errors e)"
        by (simp add: shaped_def per_target_def)
      moreover have "allowed_request env cm ts r" if "good_request env tc base r" for r
        using that assms(3) known Inr by (auto simp: allowed_request_def good_request_def cap_fits_def tc_def base_def split: option.splits)
      moreover have "sends P 0 st st2" for P
        using sends_trans[OF s1 sends_drift] by (simp add: st2_def)
      ultimately show ?thesis
        using sends_trans[of "allowed_request env cm ts" 0 st st2 "per_target pol rp" st'] by (auto simp: sends_def intro: adds_mono)
    qed
  qed
qed

definition no_probe :: "breaker \<Rightarrow> bool" where
  "no_probe b \<longleftrightarrow> (\<forall>k. ts_state (target_state_at b k) \<noteq> HALF_OPEN)"

text \<open>At most the target itself is being probed once its gate opened, and each of the three reports ends that.\<close>

definition probing_only :: "backend_target \<Rightarrow> breaker \<Rightarrow> bool" where
  "probing_only t b \<longleftrightarrow> (\<forall>k. k \<noteq> breaker_key t \<longrightarrow> ts_state (target_state_at b k) \<noteq> HALF_OPEN)"

lemma gate_probe:
  assumes "gate env t tier st = (st1, ok)" and "no_probe (cs_breaker st)"
  shows "probing_only t (cs_breaker st1) \<and> (\<not> ok \<longrightarrow> no_probe (cs_breaker st1)) \<and> cs_requests st1 = cs_requests st"
proof -
  have "ts_state (target_state_at (cs_breaker st) (breaker_key t)) \<noteq> HALF_OPEN" using assms(2) by (simp add: no_probe_def)
  then show ?thesis
    using assms
    by (auto simp: gate_def read_clock_def may_call_def no_probe_def probing_only_def Let_def state_for_at
        split: prod.splits health_state.splits option.splits if_splits)
qed

lemma report_resolves:
  assumes "probing_only t (cs_breaker st)"
  shows "no_probe (cs_breaker (with_breaker (record_success t tier) st))"
    and "no_probe (cs_breaker (with_breaker (abandon_probe t tier) st))"
    and "no_probe (cs_breaker (fail_target env t tier st))"
  using assms
  by (auto simp: with_breaker_def fail_target_def read_clock_def record_success_def abandon_probe_def record_failure_def probing_only_def
      no_probe_def Let_def state_for_at split: if_splits)

lemma report_requests [simp]:
  "cs_requests (with_breaker f st) = cs_requests st"
  "cs_requests (fail_target env t tier st) = cs_requests st"
  "cs_requests (log_event e st) = cs_requests st"
  "cs_breaker (log_event e st) = cs_breaker st"
  by (simp_all add: with_breaker_def fail_target_def read_clock_def log_event_def split: prod.splits)

definition final_error :: "complete_call \<Rightarrow> string list \<Rightarrow> llm_error \<Rightarrow> bool" where
  "final_error cm names e \<longleftrightarrow> e = TierUnavailable (tr_tier (cm_route cm)) names \<or> target_errors e \<and> trigger_of e = None"

lemma walk_step:
  assumes "walk_targets env pol rp cm index tried (t # ts) st = (st', result)" and "sane_caps env cm pol" and "t \<in> set all"
  obtains (ends) "adds (allowed_request env cm all) (per_target pol rp) st st'" "no_probe (cs_breaker st) \<Longrightarrow> no_probe (cs_breaker st')"
      "\<And>e. result = Inl e \<Longrightarrow> target_errors e \<and> trigger_of e = None"
  | (moves_on) st1 where "adds (allowed_request env cm all) (per_target pol rp) st st1" "no_probe (cs_breaker st) \<Longrightarrow> no_probe (cs_breaker st1)"
      "walk_targets env pol rp cm (index + 1) (tried @ [target_name t]) ts st1 = (st', result)"
proof -
  obtain st1 ok where g: "gate env t (tr_tier (cm_route cm)) st = (st1, ok)" by (rule prod.exhaust)
  have req: "cs_requests st1 = cs_requests st" using g by (auto simp: gate_def read_clock_def Let_def split: prod.splits)
  note probe = gate_probe[OF g]
  show thesis
  proof (cases ok)
    case False
    then show thesis
      using assms(1) g probe req adds_more[OF adds_none[OF req]] by (intro moves_on[of st1]) auto
  next
    case ok: True
    obtain st2 r where a: "attempt_target env pol rp cm t st1 = (st2, r)" by (rule prod.exhaust)
    have s: "cs_breaker st2 = cs_breaker st1" "adds (allowed_request env cm all) (per_target pol rp) st st2"
        "\<And>e. r = Inl e \<Longrightarrow> target_errors e"
      using attempt_sends[OF a assms(2,3)] req by (auto simp: sends_def adds_def)
    have p2: "no_probe (cs_breaker st) \<Longrightarrow> probing_only t (cs_breaker st2)" using probe s(1) by simp
    note eq = assms(1)[unfolded walk_targets.simps g a Let_def prod.case]
    show thesis
    proof (cases r)
      case (Inr v)
      then show thesis
        using eq ok s(2) report_resolves(1)[OF p2] by (intro ends) (auto simp: adds_def)
    next
      case (Inl e)
      show thesis
      proof (cases "trigger_of e")
        case None
        then show thesis
          using eq ok Inl s(2,3) report_resolves(2)[OF p2] by (intro ends) (auto simp: adds_def)
      next
        case (Some trigger)
        define st3 where "st3 = (case e of TransportError _ \<Rightarrow> fail_target env t (tr_tier (cm_route cm)) st2
           | _ \<Rightarrow> with_breaker (abandon_probe t (tr_tier (cm_route cm))) st2)"
        define st4 where "st4 = (case ts of [] \<Rightarrow> st3 | u # _ \<Rightarrow> log_event (BackendFailover (cm_role cm) (tr_tier (cm_route cm)) t u trigger) st3)"
        have "cs_requests st4 = cs_requests st2" "cs_breaker st4 = cs_breaker st3"
          by (simp_all add: st4_def st3_def split: list.splits llm_error.splits)
        moreover have "no_probe (cs_breaker st3)" if "no_probe (cs_breaker st)"
          using report_resolves(2,3)[OF p2[OF that]] by (auto simp: st3_def split: llm_error.splits)
        moreover have "walk_targets env pol rp cm (index + 1) (tried @ [target_name t]) ts st4 = (st', result)"
          unfolding st4_def st3_def using eq ok Inl Some by simp
        ultimately show thesis
          using s(2) by (intro moves_on[of st4]) (simp_all add: adds_def)
      qed
    qed
  qed
qed

lemma walk_spec:
  assumes "walk_targets env pol rp cm index tried ts st = (st', result)" and "sane_caps env cm pol" and "set ts \<subseteq> set all"
  shows "adds (allowed_request env cm all) (length ts * per_target pol rp) st st'
     \<and> (no_probe (cs_breaker st) \<longrightarrow> no_probe (cs_breaker st'))
     \<and> (\<forall>e. result = Inl e \<longrightarrow> final_error cm (tried @ map target_name ts) e)"
  using assms
proof (induction ts arbitrary: index tried st)
  case Nil
  then show ?case by (auto simp: final_error_def)
next
  case (Cons t ts)
  from Cons.prems(1,2) have "t \<in> set all" using Cons.prems(3) by auto
  from Cons.prems(1,2) this show ?case
  proof (cases rule: walk_step)
    case ends
    then show ?thesis by (auto simp: final_error_def intro: adds_more)
  next
    case (moves_on st1)
    from Cons.IH[OF moves_on(3) Cons.prems(2)] Cons.prems(3) moves_on(1,2) show ?thesis
      by (auto intro: adds_trans)
  qed
qed

text \<open>
  C29: A call sends at most a fixed number of requests per endpoint: one, plus the repairs, the truncation raises and the rate-limit retries. Every
  request goes to an endpoint of the call behind a registered backend, at the negotiated rung, with the caller's messages prepared for that
  rung and at most one round of repair turns behind them. Its output cap is not negative, is within what the endpoint can put out, and fits
  into the tokens left together with the estimate of the messages the caller gave. The tokens that preparation and
  repairs add to a prompt are not counted, and earlier requests of the call are not deducted (\<open>prepared_prompt_overruns\<close>).
\<close>

theorem requests_are_bounded:
  assumes "complete env pol rp affinity repo cm st = (st', result)" and "sane_caps env cm pol"
  shows "\<exists>new. cs_requests st' = cs_requests st @ new
     \<and> length new \<le> length (call_targets affinity pol repo (cm_route cm))
         * (1 + cp_max_schema_repairs pol + cp_max_truncation_retries pol + nat (max_transient_retries rp))
     \<and> (\<forall>r \<in> set new. allowed_request env cm (call_targets affinity pol repo (cm_route cm)) r)"
  using walk_spec[OF assms[unfolded complete_def] subset_refl] by (simp add: adds_def per_target_def)

text \<open>
  C20: A call that runs alone and begins with no probe in flight ends with none, whether it returns or raises, whatever the backends answer. A failed
  connection, a server error, a rate limit and a schema that stays unsatisfied never reach the caller as such: the error of a call is that the tier
  is unavailable, naming every endpoint in order, or an unknown backend, an exhausted budget, a refusal of the model, a
  capability override that is not valid, or an exception of the backend's own that is none of the transport failures.
\<close>

theorem no_probe_left_behind:
  assumes "complete env pol rp affinity repo cm st = (st', result)" and "sane_caps env cm pol"
    and "no_probe (cs_breaker st)"
  shows "no_probe (cs_breaker st')
     \<and> (\<forall>e. result = Inl e \<longrightarrow>
          e = TierUnavailable (tr_tier (cm_route cm)) (map target_name (call_targets affinity pol repo (cm_route cm)))
          \<or> (\<exists>backend. e = UnknownBackend backend) \<or> e = BudgetExhausted \<or> (\<exists>reason. e = ModelRefused reason)
          \<or> e = InvalidCapabilities \<or> e = BackendRaised)"
proof -
  have explicit: "(\<exists>backend. e = UnknownBackend backend) \<or> e = BudgetExhausted \<or> (\<exists>reason. e = ModelRefused reason)
      \<or> e = InvalidCapabilities \<or> e = BackendRaised" if "target_errors e" "trigger_of e = None" for e
    using that by (cases e) (simp_all add: target_errors_def)
  have "no_probe (cs_breaker st')" and "\<And>e. result = Inl e \<Longrightarrow>
      final_error cm ([] @ map target_name (call_targets affinity pol repo (cm_route cm))) e"
    using walk_spec[OF assms(1,2)[unfolded complete_def] subset_refl] assms(3) by blast+
  then show ?thesis using explicit by (auto simp: final_error_def)
qed

section \<open>Concrete calls\<close>

text \<open>
  An environment with two backends. The first one answers as a list says, by position in the request log; prices are a dollar per million output
  tokens, and the clock counts its readings.
\<close>

definition demo_caps :: model_capabilities where
  "demo_caps = \<lparr>cap_tools = False, cap_json_schema = True, cap_system_prompt = True, cap_constrained = False,
     cap_max_output_tokens = 8000, cap_modes = [JSON_SCHEMA]\<rparr>"

definition demo_reply :: "finish_reason \<Rightarrow> unit backend_reply" where
  "demo_reply reason = \<lparr>br_text = Some ''x'', br_tool_arguments = None,
     br_usage = \<lparr>tu_role = [], tu_tier = None, tu_backend = [], tu_model_id = [], tu_input_tokens = 10, tu_output_tokens = 10, tu_cost_usd = 0, tu_llm_failovers = 0\<rparr>,
     br_finish = reason\<rparr>"

definition demo_env :: "unit invoke_outcome list \<Rightarrow> (unit, unit) client_env" where
  "demo_env outcomes =
     \<lparr>env_clock = of_nat, env_invoke = (\<lambda>i _. if i < length outcomes then outcomes ! i else Replied (demo_reply FR_STOP)),
      env_backends = [''vllm''], env_declared = (\<lambda>_. demo_caps), env_override = (\<lambda>_ _. None), env_loads = (\<lambda>_. Inr ()), env_dumps = (\<lambda>_. ''{}''),
      env_empty_object = (), env_validate = (\<lambda>_. Inr ()), env_schema_text = ''{}'', env_prompted = id, env_repair = id\<rparr>"

definition demo_policy :: call_policy where
  "demo_policy = \<lparr>cp_max_schema_repairs = 1, cp_max_targets_per_call = 3, cp_max_truncation_retries = 2, cp_truncation_growth = 2,
     cp_default_max_output_tokens = 4096\<rparr>"

definition demo_call :: "backend_target list \<Rightarrow> call_budget option \<Rightarrow> complete_call" where
  "demo_call ts budget = \<lparr>cm_role = ''repair'', cm_route = \<lparr>tr_tier = CHEAP, tr_targets = ts\<rparr>,
     cm_messages = [\<lparr>msg_role = UserRole, msg_content = ''hi''\<rparr>], cm_max_output_tokens = None, cm_budget = budget\<rparr>"

definition demo_start :: client_state where
  "demo_start = \<lparr>cs_breaker = new_breaker 1 100, cs_reads = 0, cs_requests = [], cs_events = []\<rparr>"

definition demo_priced :: "string \<Rightarrow> backend_target" where
  "demo_priced m = demo_target\<lparr>bt_model_id := m, bt_price := PerMtok 0 1\<rparr>"

lemma demo_sane: "sane_caps (demo_env os) (demo_call ts budget) demo_policy"
  by (simp add: sane_caps_def demo_env_def demo_call_def demo_policy_def merge_capabilities_def demo_caps_def)

theorem requests_are_bounded_witness:
  "\<exists>new. cs_requests (fst (complete (demo_env [TransportFailed RATE_LIMIT]) demo_policy DEFAULT_POLICY (\<lambda>_. 0) None (demo_call [demo_priced ''a''] None) demo_start)) = new
     \<and> length new \<le> 8"
proof -
  have "length (call_targets (\<lambda>_. 0) demo_policy None (cm_route (demo_call [demo_priced ''a''] None))) = 1" "cs_requests demo_start = []"
      "cp_max_schema_repairs demo_policy = 1" "cp_max_truncation_retries demo_policy = 2" "max_transient_retries DEFAULT_POLICY = 4"
    by code_simp+
  then show ?thesis
    using requests_are_bounded[OF prod.collapse[symmetric] demo_sane[of "[TransportFailed RATE_LIMIT]" "[demo_priced ''a'']" None],
        of DEFAULT_POLICY "\<lambda>_. 0" None demo_start] by auto
qed

theorem no_probe_left_behind_witness:
  "no_probe (cs_breaker (fst (complete (demo_env [TransportFailed CONNECTION]) demo_policy DEFAULT_POLICY (\<lambda>_. 0) None
      (demo_call [demo_priced ''a'', demo_priced ''b''] None) demo_start)))"
proof -
  have "no_probe (cs_breaker demo_start)" by (simp add: no_probe_def demo_start_def new_breaker_def target_state_at_def fresh_target_def)
  then show ?thesis
    using no_probe_left_behind[OF prod.collapse[symmetric] demo_sane] by blast
qed

text \<open>
  The budget is compared with the messages of the call, before they are prepared: at the last rung the rendered schema is part of the prompt, so a
  request of 116 estimated prompt tokens and a cap of 4096 is sent with 4110 tokens left.
\<close>

definition prompted_env :: "(unit, unit) client_env" where
  "prompted_env = (demo_env [])\<lparr>env_declared := (\<lambda>_. demo_caps\<lparr>cap_json_schema := False\<rparr>), env_prompted := (\<lambda>_. replicate 400 (CHR ''x''))\<rparr>"

theorem prepared_prompt_overruns:
  "let b = \<lparr>cb_tokens = 4110, cb_usd = 1, cb_deadline = 1000\<rparr>;
       st = fst (complete prompted_env demo_policy DEFAULT_POLICY (\<lambda>_. 0) None (demo_call [demo_priced ''a''] (Some b)) demo_start) in
   map (\<lambda>r. (estimate_input_tokens (rq_messages r), rq_max_output_tokens r)) (cs_requests st) = [(116, 4096)] \<and> cb_tokens b < 116 + 4096"
  by code_simp

text \<open>
  Two limits. The output cap is raised after a truncation within the tokens left, but the price of the larger request is not compared with the
  dollars left; and an endpoint that is skipped because it is closed counts as a failover of the response, although no failover event names it.
\<close>

theorem raised_cap_breaks_usd:
  "let b = \<lparr>cb_tokens = 20000, cb_usd = 5 / 1000, cb_deadline = 1000\<rparr>;
       st = fst (complete (demo_env [Replied (demo_reply FR_LENGTH)]) demo_policy DEFAULT_POLICY (\<lambda>_. 0) None (demo_call [demo_priced ''a''] (Some b)) demo_start) in
   map rq_max_output_tokens (cs_requests st) = [4096, 8000]
   \<and> cb_usd b < estimate_cost_usd (demo_priced ''a'') 8 8000"
  by code_simp

theorem skipped_endpoint_counts_as_failover:
  "let st1 = fst (complete (demo_env [TransportFailed CONNECTION]) demo_policy DEFAULT_POLICY (\<lambda>_. 0) None (demo_call [demo_priced ''a''] None) demo_start);
       (st2, r) = complete (demo_env []) demo_policy DEFAULT_POLICY (\<lambda>_. 0) None (demo_call [demo_priced ''a'', demo_priced ''b''] None) st1 in
   (case r of Inl _ \<Rightarrow> False | Inr v \<Rightarrow> tu_llm_failovers (mr_usage v) = 1)
   \<and> list_all (\<lambda>e. case e of BackendFailover _ _ _ _ _ \<Rightarrow> False | _ \<Rightarrow> True) (cs_events st2)"
  by code_simp

end
