(* ===== verification/Inference.thy ===== *)
theory Inference
  imports Cycle_Breaking
begin

text \<open>
  Edge inference, \<open>src/fleet/graph/infer.py\<close>: path globs, the pinned-version pattern, the owner index, the score and the six
  rules, then the deduplication and the total order of \<open>infer_edges\<close>. The two patterns are written out as recognizers.
  Confidences are rationals. The digest and the detection time come from the environment of the cycle breaker, whose
  \<open>infer_contract_edges\<close> is the last rule. The input records hold the fields the rules read. A set of published coordinates is given as the list in which Python iterates over it.
\<close>

section \<open>Patterns\<close>

definition token_char :: "char \<Rightarrow> bool" where
  "token_char c \<longleftrightarrow> is_digit c \<or> is_lower c"

definition tokens :: "string \<Rightarrow> string list" where
  "tokens s = pieces (\<lambda>c. \<not> token_char c) (lower s)"

datatype glob_atom = AnyDirs | AnyRun | SegmentRun | OneChar | Literally char

fun glob_atoms :: "string \<Rightarrow> glob_atom list" where
  "glob_atoms [] = []"
| "glob_atoms (c # cs) =
     (if c = CHR ''*'' then
        (case cs of
           d # ds \<Rightarrow>
             if d = CHR ''*'' then
               (case ds of
                  e # es \<Rightarrow> if e = CHR ''/'' then AnyDirs # glob_atoms es else AnyRun # glob_atoms ds
                | [] \<Rightarrow> [AnyRun])
             else SegmentRun # glob_atoms cs
         | [] \<Rightarrow> [SegmentRun])
      else if c = CHR ''?'' then OneChar # glob_atoms cs
      else Literally c # glob_atoms cs)"

text \<open>The rests of a string after a prefix whose characters all satisfy \<open>P\<close>.\<close>

fun rests :: "(char \<Rightarrow> bool) \<Rightarrow> string \<Rightarrow> string list" where
  "rests P [] = [[]]"
| "rests P (c # cs) = (c # cs) # (if P c then rests P cs else [])"

fun glob_match :: "glob_atom list \<Rightarrow> string \<Rightarrow> bool" where
  "glob_match [] s \<longleftrightarrow> s = []"
| "glob_match (AnyDirs # as) s \<longleftrightarrow>
     glob_match as s \<or> list_ex (\<lambda>r. r \<noteq> [] \<and> hd r = CHR ''/'' \<and> glob_match as (tl r)) (rests (\<lambda>c. c \<noteq> newline) s)"
| "glob_match (AnyRun # as) s \<longleftrightarrow> list_ex (glob_match as) (rests (\<lambda>c. c \<noteq> newline) s)"
| "glob_match (SegmentRun # as) s \<longleftrightarrow> list_ex (glob_match as) (rests (\<lambda>c. c \<noteq> CHR ''/'') s)"
| "glob_match (OneChar # as) s \<longleftrightarrow> s \<noteq> [] \<and> hd s \<noteq> CHR ''/'' \<and> glob_match as (tl s)"
| "glob_match (Literally c # as) s \<longleftrightarrow> s \<noteq> [] \<and> hd s = c \<and> glob_match as (tl s)"

definition path_matches :: "string \<Rightarrow> string list \<Rightarrow> bool" where
  "path_matches path globs \<longleftrightarrow> list_ex (\<lambda>g. glob_match (glob_atoms g) path) globs"

text \<open>\<open>_PINNED_RE\<close>: an optional \<open>v\<close>, dotted digits, and an optional suffix after a dot, a plus or a hyphen.\<close>

definition dotted_digits :: "string \<Rightarrow> bool" where
  "dotted_digits s \<longleftrightarrow> list_all (\<lambda>w. w \<noteq> [] \<and> list_all is_digit w) (split_on (\<lambda>c. c = CHR ''.'') s)"

definition suffix_char :: "char \<Rightarrow> bool" where
  "suffix_char c \<longleftrightarrow> is_digit c \<or> is_lower c \<or> (65 \<le> (of_char c :: nat) \<and> (of_char c :: nat) \<le> 90) \<or> c \<in> {CHR ''.'', CHR ''+'', CHR ''-''}"

definition version_suffix :: "string \<Rightarrow> bool" where
  "version_suffix s \<longleftrightarrow>
     s = [] \<or> hd s \<in> {CHR ''.'', CHR ''+'', CHR ''-''} \<and> tl s \<noteq> [] \<and> list_all suffix_char (tl s)"

definition pinned_text :: "string \<Rightarrow> bool" where
  "pinned_text s \<longleftrightarrow>
     (let body = (if s \<noteq> [] \<and> hd s \<in> {CHR ''v'', CHR ''V''} then tl s else s) in
      list_ex (\<lambda>i. dotted_digits (take i body) \<and> version_suffix (drop i body)) [0..<length body + 1])"

definition is_pinned :: "string option \<Rightarrow> bool" where
  "is_pinned spec =
     (case spec of
        None \<Rightarrow> False
      | Some s \<Rightarrow>
          let t0 = strip s;
              t = (if t0 \<noteq> [] \<and> hd t0 = CHR ''['' \<and> last t0 = CHR '']'' \<and> CHR '','' \<notin> set t0
                   then strip (butlast (tl t0)) else t0) in
          t \<noteq> [] \<and> pinned_text t)"

section \<open>Inputs\<close>

datatype symbol_kind =
    SYM_CLASS | SYM_FUNCTION | SYM_INTERFACE | SYM_MODULE | SYM_GRPC_SERVICE | SYM_PROTO_MESSAGE | SYM_HTTP_OPERATION
  | SYM_DB_TABLE | SYM_QUEUE_TOPIC | SYM_IMPORT | SYM_DYNAMIC_REF

fun symbol_kind_value :: "symbol_kind \<Rightarrow> string" where
  "symbol_kind_value SYM_CLASS = ''class''"
| "symbol_kind_value SYM_FUNCTION = ''function''"
| "symbol_kind_value SYM_INTERFACE = ''interface''"
| "symbol_kind_value SYM_MODULE = ''module''"
| "symbol_kind_value SYM_GRPC_SERVICE = ''grpc_service''"
| "symbol_kind_value SYM_PROTO_MESSAGE = ''proto_message''"
| "symbol_kind_value SYM_HTTP_OPERATION = ''http_operation''"
| "symbol_kind_value SYM_DB_TABLE = ''db_table''"
| "symbol_kind_value SYM_QUEUE_TOPIC = ''queue_topic''"
| "symbol_kind_value SYM_IMPORT = ''import''"
| "symbol_kind_value SYM_DYNAMIC_REF = ''dynamic_ref''"

record symbol_ref =
  sy_repo_id :: repo_id
  sy_fqn :: string
  sy_kind :: symbol_kind
  sy_path :: string
  sy_line :: int
  sy_is_definition :: bool

record raw_dependency =
  rd_raw_id :: string
  rd_version_spec :: "string option"
  rd_scope :: "string option"
  rd_optional :: bool
  rd_source_line :: "int option"

record manifest_ref =
  mf_repo_id :: repo_id
  mf_path :: string
  mf_low_confidence :: bool

record manifest_dependency =
  md_manifest :: manifest_ref
  md_raw :: raw_dependency
  md_coordinate :: coordinate

record owner_index =
  oi_owners :: "(coord_key, repo_id list) dict"
  oi_published :: "(repo_id, coordinate) dict"
  oi_prefixes :: "(string list, coordinate) dict"

record inference_input =
  in_owners :: owner_index
  in_dependencies :: "manifest_dependency list"
  in_symbols :: "symbol_ref list"
  in_contracts :: "contract_node list"
  in_truncated :: "repo_id list"
  in_vendor_globs :: "string list"
  in_generated_globs :: "string list"

definition TEST_SCOPES :: "string list" where
  "TEST_SCOPES = [''test'', ''dev'', ''devDependencies'', ''optional'', ''testAnnotationProcessor'', ''testCompile'', ''testCompileOnly'',
     ''testImplementation'', ''testRuntimeOnly'']"

definition API_SYMBOL_KINDS :: "symbol_kind list" where
  "API_SYMBOL_KINDS = [SYM_GRPC_SERVICE, SYM_PROTO_MESSAGE, SYM_HTTP_OPERATION]"

definition RESOURCE_SYMBOL_KINDS :: "symbol_kind list" where
  "RESOURCE_SYMBOL_KINDS = [SYM_DB_TABLE, SYM_QUEUE_TOPIC]"

definition SYMBOL_DERIVED_KINDS :: "edge_kind list" where
  "SYMBOL_DERIVED_KINDS = [INTERNAL_IMPORT, API_CONTRACT, SHARED_RESOURCE, DYNAMIC_REF]"

section \<open>The owner index\<close>

definition insert_once :: "'a \<Rightarrow> 'a list \<Rightarrow> 'a list" where
  "insert_once x xs = (if x \<in> set xs then xs else xs @ [x])"

definition holders_of :: "('k, 'a list) dict \<Rightarrow> 'k \<Rightarrow> 'a list" where
  "holders_of d k = (case dict_get d k of None \<Rightarrow> [] | Some xs \<Rightarrow> xs)"

definition add_holder :: "'k \<Rightarrow> 'a \<Rightarrow> ('k, 'a list) dict \<Rightarrow> ('k, 'a list) dict" where
  "add_holder k x d = dict_set d k (insert_once x (holders_of d k))"

definition keep_least :: "'k \<Rightarrow> coordinate \<Rightarrow> ('k, coordinate) dict \<Rightarrow> ('k, coordinate) dict" where
  "keep_least k c d =
     (case dict_get d k of
        None \<Rightarrow> dict_set d k c
      | Some best \<Rightarrow> if coordinate_key c < coordinate_key best then dict_set d k c else d)"

definition coordinate_tokens :: "coordinate \<Rightarrow> string list" where
  "coordinate_tokens c = tokens (co_group c) @ tokens (co_name c)"

definition index_row :: "repo_id \<times> coordinate \<Rightarrow> owner_index \<Rightarrow> owner_index" where
  "index_row = (\<lambda>(r, c) oi.
     oi\<lparr>oi_owners := add_holder (coordinate_key c) r (oi_owners oi),
        oi_published := keep_least r c (oi_published oi),
        oi_prefixes := (if coordinate_tokens c = [] then oi_prefixes oi else keep_least (coordinate_tokens c) c (oi_prefixes oi))\<rparr>)"

definition from_published :: "(repo_id \<times> coordinate) list \<Rightarrow> owner_index" where
  "from_published published =
     (let oi = fold index_row (sort_key (\<lambda>(r, c). (r, coordinate_key c)) (remdups published))
                 \<lparr>oi_owners = [], oi_published = [], oi_prefixes = []\<rparr> in
      \<lparr>oi_owners = map (\<lambda>(k, rs). (k, sort rs)) (sort_key fst (oi_owners oi)),
       oi_published = sort_key fst (oi_published oi), oi_prefixes = sort_key fst (oi_prefixes oi)\<rparr>)"

definition owners_of :: "owner_index \<Rightarrow> coord_key \<Rightarrow> repo_id list" where
  "owners_of oi k = holders_of (oi_owners oi) k"

definition coordinate_of :: "owner_index \<Rightarrow> repo_id \<Rightarrow> coordinate" where
  "coordinate_of oi r =
     (case dict_get (oi_published oi) r of
        Some c \<Rightarrow> c
      | None \<Rightarrow> \<lparr>co_ecosystem = ECO_UNKNOWN, co_group = [], co_name = r, co_version_spec = None\<rparr>)"

fun longest_prefix :: "(string list, coordinate) dict \<Rightarrow> string list \<Rightarrow> nat \<Rightarrow> coordinate option" where
  "longest_prefix d ts 0 = None"
| "longest_prefix d ts (Suc n) =
     (case dict_get d (take (Suc n) ts) of Some c \<Rightarrow> Some c | None \<Rightarrow> longest_prefix d ts n)"

definition match_import :: "owner_index \<Rightarrow> string \<Rightarrow> coordinate option" where
  "match_import oi fqn = longest_prefix (oi_prefixes oi) (tokens fqn) (length (tokens fqn))"

section \<open>Scoring\<close>

fun modifier :: "string \<Rightarrow> rat" where
  "modifier name =
     (if name = ''open_range'' then 9/10 else if name = ''ambiguous'' then 8/10 else if name = ''vendored'' then 4/10
      else if name = ''generated'' then 6/10 else if name = ''test_scope'' then 7/10 else 8/10)"

definition TRUNCATED_INDEX_CAP :: rat where
  "TRUNCATED_INDEX_CAP = 6/10"

definition factor_product :: "rat \<Rightarrow> (string, rat) dict \<Rightarrow> rat" where
  "factor_product base factors = fold (\<lambda>(_, v) acc. acc * v) (sort_key fst factors) base"

definition score :: "edge_kind \<Rightarrow> (string, rat) dict \<Rightarrow> bool \<Rightarrow> rat \<times> rat \<times> (string, rat) dict" where
  "score kind factors truncated =
     (let base = EDGE_BASE_CONFIDENCE kind;
          product = factor_product base factors;
          factors1 = (if truncated \<and> product > TRUNCATED_INDEX_CAP
                      then dict_set factors ''truncated_index'' (TRUNCATED_INDEX_CAP / product) else factors) in
      (base, min (max (factor_product base factors1) 0) 1, factors1))"

definition with_factor :: "string \<Rightarrow> bool \<Rightarrow> (string, rat) dict \<Rightarrow> (string, rat) dict" where
  "with_factor name on factors = (if on then dict_set factors name (modifier name) else factors)"

definition evidence_factors :: "string \<Rightarrow> inference_input \<Rightarrow> (string, rat) dict" where
  "evidence_factors path inp =
     with_factor ''generated'' (path_matches path (in_generated_globs inp))
       (with_factor ''vendored'' (path_matches path (in_vendor_globs inp)) [])"

definition repo_edge ::
  "cycle_env \<Rightarrow> repo_id \<Rightarrow> repo_id \<Rightarrow> coordinate \<Rightarrow> edge_kind \<Rightarrow> string \<Rightarrow> int option \<Rightarrow> (string, rat) dict \<Rightarrow> repo_id list \<Rightarrow> string option \<Rightarrow> bool
   \<Rightarrow> dependency_edge" where
  "repo_edge env src dst coord kind path line factors candidates spec truncated =
     (let (base, confidence, factors1) = score kind factors truncated in
      \<lparr>de_edge_id = None,
       de_edge_key = edge_key_for (ce_sha256 env) (node_kind_value REPO) src (node_kind_value REPO) (coordinate_key coord)
         (edge_kind_value kind) path line,
       de_src_kind = REPO, de_src_id = src, de_dst_kind = REPO, de_dst_coordinate = Some coord, de_dst_id = Some dst,
       de_dst_candidates = candidates, de_retargeted_from = None, de_kind = kind, de_version_spec = spec,
       de_base_confidence = base, de_confidence = confidence, de_confidence_factors = sort_key fst factors1,
       de_ambiguous = (length candidates > 1), de_suppressed = False, de_evidence_path = path, de_evidence_line = line,
       de_detected_at = ce_now env\<rparr>)"

section \<open>The rules\<close>

definition line_or_none :: "int option \<Rightarrow> int" where
  "line_or_none l = (case l of None \<Rightarrow> NO_LINE | Some n \<Rightarrow> n)"

definition sorted_dependencies :: "inference_input \<Rightarrow> manifest_dependency list" where
  "sorted_dependencies inp =
     sort_key (\<lambda>d. (mf_repo_id (md_manifest d), mf_path (md_manifest d), coordinate_key (md_coordinate d),
                    line_or_none (rd_source_line (md_raw d)), rd_raw_id (md_raw d))) (in_dependencies inp)"

definition sorted_symbols :: "inference_input \<Rightarrow> symbol_ref list" where
  "sorted_symbols inp =
     sort_key (\<lambda>s. (sy_repo_id s, sy_path s, sy_line s, sy_fqn s, symbol_kind_value (sy_kind s))) (in_symbols inp)"

definition or_spec :: "string option \<Rightarrow> string option \<Rightarrow> string option" where
  "or_spec a b = (case a of None \<Rightarrow> b | Some s \<Rightarrow> if s = [] then b else a)"

definition dependency_edges :: "cycle_env \<Rightarrow> inference_input \<Rightarrow> manifest_dependency \<Rightarrow> dependency_edge list" where
  "dependency_edges env inp dep =
     (let mf = md_manifest dep; raw = md_raw dep; coord = md_coordinate dep;
          owners = owners_of (in_owners inp) (coordinate_key coord);
          spec = or_spec (co_version_spec coord) (rd_version_spec raw);
          pinned = is_pinned spec;
          kind = (if pinned then PUBLISHED_ARTIFACT else DECLARED_DEP);
          scope = (case rd_scope raw of None \<Rightarrow> [] | Some s \<Rightarrow> s);
          factors = with_factor ''llm_extracted'' (mf_low_confidence mf)
            (with_factor ''test_scope'' (scope \<in> set TEST_SCOPES \<or> rd_optional raw)
              (with_factor ''ambiguous'' (length owners > 1)
                (with_factor ''open_range'' (\<not> pinned) (evidence_factors (mf_path mf) inp)))) in
      map (\<lambda>owner. repo_edge env (mf_repo_id mf) owner coord kind (mf_path mf) (rd_source_line raw) factors owners spec False)
        (filter (\<lambda>owner. owner \<noteq> mf_repo_id mf) owners))"

definition manifest_edges :: "cycle_env \<Rightarrow> inference_input \<Rightarrow> dependency_edge list" where
  "manifest_edges env inp = concat (map (dependency_edges env inp) (sorted_dependencies inp))"

text \<open>The edges of one symbol to the owners other than its own repository.\<close>

definition symbol_edges ::
  "cycle_env \<Rightarrow> inference_input \<Rightarrow> edge_kind \<Rightarrow> symbol_ref \<Rightarrow> (repo_id \<Rightarrow> coordinate) \<Rightarrow> bool \<Rightarrow> repo_id list \<Rightarrow> repo_id list \<Rightarrow> dependency_edge list" where
  "symbol_edges env inp kind sy coord ambiguous candidates owners =
     map (\<lambda>owner. repo_edge env (sy_repo_id sy) owner (coord owner) kind (sy_path sy) (Some (sy_line sy))
            (with_factor ''ambiguous'' ambiguous (evidence_factors (sy_path sy) inp)) candidates None
            (sy_repo_id sy \<in> set (in_truncated inp)))
       (filter (\<lambda>owner. owner \<noteq> sy_repo_id sy) owners)"

definition import_edges :: "cycle_env \<Rightarrow> inference_input \<Rightarrow> dependency_edge list" where
  "import_edges env inp =
     (let declared = map (\<lambda>d. (mf_repo_id (md_manifest d), coordinate_key (md_coordinate d))) (in_dependencies inp) in
      concat (map (\<lambda>sy.
        if sy_kind sy \<noteq> SYM_IMPORT \<or> sy_is_definition sy then []
        else case match_import (in_owners inp) (sy_fqn sy) of
          None \<Rightarrow> []
        | Some coord \<Rightarrow>
            if (sy_repo_id sy, coordinate_key coord) \<in> set declared then []
            else
              let owners = owners_of (in_owners inp) (coordinate_key coord) in
              symbol_edges env inp INTERNAL_IMPORT sy (\<lambda>_. coord) (length owners > 1) owners owners)
        (sorted_symbols inp)))"

definition defined_in :: "(symbol_ref \<Rightarrow> bool) \<Rightarrow> inference_input \<Rightarrow> (string, repo_id list) dict" where
  "defined_in P inp =
     fold (\<lambda>s d. if P s \<and> sy_is_definition s then add_holder (sy_fqn s) (sy_repo_id s) d else d) (sorted_symbols inp) []"

definition api_contract_edges :: "cycle_env \<Rightarrow> inference_input \<Rightarrow> dependency_edge list" where
  "api_contract_edges env inp =
     (let definitions = defined_in (\<lambda>s. sy_kind s \<in> set API_SYMBOL_KINDS) inp in
      concat (map (\<lambda>sy.
        if sy_kind sy \<notin> set API_SYMBOL_KINDS \<or> sy_is_definition sy then []
        else symbol_edges env inp API_CONTRACT sy (coordinate_of (in_owners inp)) False [] (holders_of definitions (sy_fqn sy)))
        (sorted_symbols inp)))"

definition shared_resource_edges :: "cycle_env \<Rightarrow> inference_input \<Rightarrow> dependency_edge list" where
  "shared_resource_edges env inp =
     concat (map (\<lambda>(_, syms).
       let repos = sorted_set (map sy_repo_id syms) in
       if length repos < 2 then []
       else concat (map (\<lambda>sy. symbol_edges env inp SHARED_RESOURCE sy (coordinate_of (in_owners inp)) False [] repos) syms))
       (sort_key fst (group_by sy_fqn (filter (\<lambda>s. sy_kind s \<in> set RESOURCE_SYMBOL_KINDS) (sorted_symbols inp)))))"

definition dynamic_ref_edges :: "cycle_env \<Rightarrow> inference_input \<Rightarrow> dependency_edge list" where
  "dynamic_ref_edges env inp =
     (let defined = defined_in (\<lambda>_. True) inp in
      concat (map (\<lambda>sy.
        if sy_kind sy \<noteq> SYM_DYNAMIC_REF then []
        else
          let hit = match_import (in_owners inp) (sy_fqn sy);
              owned = (case hit of None \<Rightarrow> [] | Some c \<Rightarrow> owners_of (in_owners inp) (coordinate_key c));
              targets = (if owned = [] then holders_of defined (sy_fqn sy) else owned) in
          symbol_edges env inp DYNAMIC_REF sy (\<lambda>owner. case hit of None \<Rightarrow> coordinate_of (in_owners inp) owner | Some c \<Rightarrow> c)
            (length targets > 1) (if length targets > 1 then targets else []) targets)
        (sorted_symbols inp)))"

section \<open>The entry point\<close>

definition found_edges :: "cycle_env \<Rightarrow> inference_input \<Rightarrow> dependency_edge list" where
  "found_edges env inp =
     manifest_edges env inp @ import_edges env inp @ api_contract_edges env inp @ shared_resource_edges env inp
     @ dynamic_ref_edges env inp @ infer_contract_edges env (in_contracts inp)"

definition edge_sort_key :: "dependency_edge \<Rightarrow> string \<times> string \<times> string \<times> string \<times> string \<times> string \<times> int \<times> string" where
  "edge_sort_key e =
     (node_kind_value (de_src_kind e), de_src_id e, node_kind_value (de_dst_kind e),
      (case de_dst_id e of None \<Rightarrow> [] | Some d \<Rightarrow> d), edge_kind_value (de_kind e), de_evidence_path e,
      line_or_none (de_evidence_line e), de_edge_key e)"

fun first_by_key :: "edge_key list \<Rightarrow> dependency_edge list \<Rightarrow> dependency_edge list" where
  "first_by_key seen [] = []"
| "first_by_key seen (e # es) =
     (if de_edge_key e \<in> set seen then first_by_key seen es else e # first_by_key (de_edge_key e # seen) es)"

definition infer_edges :: "cycle_env \<Rightarrow> inference_input \<Rightarrow> dependency_edge list" where
  "infer_edges env inp = first_by_key [] (sort_key edge_sort_key (found_edges env inp))"

end
