(* ===== verification/Inference_Correct.thy ===== *)
theory Inference_Correct
  imports Inference Cycle_Correct
begin

text \<open>
  What edge inference promises and keeps: every row is well-formed and its score can be recomputed from its factors, rows are unique by key, a
  dependency on the only owner of a coordinate orders the migration, and what the shared key of several owners costs.
\<close>

section \<open>Scores\<close>

lemma fold_factors: "fold (\<lambda>(_, v) acc. acc * v) xs b = b * prod_list (map snd xs)" for b :: rat
  by (induction xs arbitrary: b) (auto simp: mult.assoc)

lemma factor_product_eq: "factor_product b d = b * prod_list (map snd d)"
proof -
  have "mset (map snd (sort_key fst d)) = mset (map snd d)" by simp
  then have "prod_list (map snd (sort_key fst d)) = prod_list (map snd d)" by (metis prod_mset_prod_list)
  then show ?thesis by (simp add: factor_product_def fold_factors)
qed

definition factors_ok :: "(string, rat) dict \<Rightarrow> bool" where
  "factors_ok d \<longleftrightarrow> (\<forall>v \<in> snd ` set d. 0 < v \<and> v \<le> 1) \<and> ''truncated_index'' \<notin> fst ` set d"

lemma dict_set_new: "k \<notin> fst ` set d \<Longrightarrow> dict_set d k v = d @ [(k, v)]"
  unfolding dict_set_def by (induction d) auto

lemma dict_set_values: "snd ` set (dict_set d k v) \<subseteq> insert v (snd ` set d)"
  unfolding dict_set_def by (induction d) auto

lemma modifier_bounds: "0 < modifier name \<and> modifier name \<le> 1"
  by simp

lemma factors_with [intro]:
  assumes "factors_ok d" and "name \<noteq> ''truncated_index''"
  shows "factors_ok (with_factor name on d)"
proof -
  have "0 < v \<and> v \<le> 1" if "v \<in> snd ` set (dict_set d name (modifier name))" for v
  proof -
    from that have "v = modifier name \<or> v \<in> snd ` set d" using dict_set_values[of d name "modifier name"] by blast
    then show ?thesis using assms(1) modifier_bounds[of name] unfolding factors_ok_def by blast
  qed
  then show ?thesis using assms by (simp add: factors_ok_def with_factor_def del: modifier.simps)
qed

lemma factors_evidence [intro]: "factors_ok (evidence_factors path inp)"
  unfolding evidence_factors_def by (intro factors_with) (simp_all add: factors_ok_def)

lemma prod_factors: "\<forall>v \<in> set vs. 0 < v \<and> v \<le> (1::rat) \<Longrightarrow> 0 < prod_list vs \<and> prod_list vs \<le> 1"
proof (induction vs)
  case (Cons v vs)
  then show ?case using mult_mono[of v 1 "prod_list vs" 1] by auto
qed simp

lemma base_confidence: "0 < EDGE_BASE_CONFIDENCE k \<and> EDGE_BASE_CONFIDENCE k \<le> 1"
  by (cases k) (auto simp: EDGE_BASE_CONFIDENCE_def)

lemma score_spec:
  assumes "factors_ok d" and "score k d truncated = (base, c, d1)"
  shows "base = EDGE_BASE_CONFIDENCE k \<and> c = base * prod_list (map snd d1) \<and> 0 < c \<and> c \<le> 1 \<and> (truncated \<longrightarrow> c \<le> TRUNCATED_INDEX_CAP)"
proof -
  let ?b = "EDGE_BASE_CONFIDENCE k" and ?p = "EDGE_BASE_CONFIDENCE k * prod_list (map snd d)"
  have "0 < prod_list (map snd d) \<and> prod_list (map snd d) \<le> 1" using assms(1) by (intro prod_factors) (auto simp: factors_ok_def)
  then have p: "0 < ?p" "?p \<le> 1" using base_confidence[of k] mult_mono[of ?b 1 "prod_list (map snd d)" 1] by auto
  show ?thesis
  proof (cases "truncated \<and> ?p > TRUNCATED_INDEX_CAP")
    case True
    then have "d1 = d @ [(''truncated_index'', TRUNCATED_INDEX_CAP / ?p)]"
      using assms by (auto simp: score_def Let_def factor_product_eq factors_ok_def dict_set_new)
    moreover from this have "?b * prod_list (map snd d1) = TRUNCATED_INDEX_CAP" using p base_confidence[of k] by auto
    ultimately show ?thesis
      using assms(2) True p by (auto simp: score_def Let_def factor_product_eq TRUNCATED_INDEX_CAP_def)
  next
    case False
    then show ?thesis using assms(2) p by (auto simp: score_def Let_def factor_product_eq)
  qed
qed

section \<open>Where a row comes from\<close>

definition from_repo_rule :: "cycle_env \<Rightarrow> inference_input \<Rightarrow> dependency_edge \<Rightarrow> bool" where
  "from_repo_rule env inp e \<longleftrightarrow> (\<exists>src dst coord kind path line factors candidates spec tr.
     e = repo_edge env src dst coord kind path line factors candidates spec tr \<and> src \<noteq> dst \<and> factors_ok factors
     \<and> kind \<notin> set CONTRACT_EDGE_KINDS \<and> (kind \<in> set SYMBOL_DERIVED_KINDS \<longrightarrow> tr = (src \<in> set (in_truncated inp)))
     \<and> (kind \<notin> set SYMBOL_DERIVED_KINDS \<longrightarrow> dst \<in> set (owners_of (in_owners inp) (coordinate_key coord))))"

lemma from_dependency: "e \<in> set (dependency_edges env inp dep) \<Longrightarrow> from_repo_rule env inp e"
  unfolding dependency_edges_def from_repo_rule_def Let_def set_map
  by (elim imageE) (rule exI conjI | assumption | auto simp: CONTRACT_EDGE_KINDS_def SYMBOL_DERIVED_KINDS_def intro!: factors_with)+

lemma from_symbol:
  assumes "e \<in> set (symbol_edges env inp kind sy coord amb cands owners)" and "kind \<in> set SYMBOL_DERIVED_KINDS"
  shows "from_repo_rule env inp e"
proof -
  obtain owner where "owner \<noteq> sy_repo_id sy" "e = repo_edge env (sy_repo_id sy) owner (coord owner) kind (sy_path sy) (Some (sy_line sy))
      (with_factor ''ambiguous'' amb (evidence_factors (sy_path sy) inp)) cands None (sy_repo_id sy \<in> set (in_truncated inp))"
    using assms(1) by (auto simp: symbol_edges_def)
  moreover have "factors_ok (with_factor ''ambiguous'' amb (evidence_factors (sy_path sy) inp))" by (intro factors_with factors_evidence) simp
  moreover have "kind \<notin> set CONTRACT_EDGE_KINDS" using assms(2) by (auto simp: SYMBOL_DERIVED_KINDS_def CONTRACT_EDGE_KINDS_def)
  ultimately show ?thesis using assms(2) unfolding from_repo_rule_def by blast
qed

lemma found_cases:
  assumes "e \<in> set (found_edges env inp)"
  shows "from_repo_rule env inp e \<or> e \<in> set (infer_contract_edges env (in_contracts inp))"
proof -
  have "from_repo_rule env inp e" if "e \<in> set (manifest_edges env inp)"
    using that from_dependency by (auto simp: manifest_edges_def)
  moreover have "from_repo_rule env inp e" if "e \<in> set (import_edges env inp)"
    using that from_symbol by (auto simp: import_edges_def Let_def SYMBOL_DERIVED_KINDS_def split: if_splits option.splits)
  moreover have "from_repo_rule env inp e" if "e \<in> set (api_contract_edges env inp)"
    using that from_symbol by (auto simp: api_contract_edges_def Let_def SYMBOL_DERIVED_KINDS_def split: if_splits)
  moreover have "from_repo_rule env inp e" if "e \<in> set (shared_resource_edges env inp)"
    using that from_symbol by (auto simp: shared_resource_edges_def Let_def SYMBOL_DERIVED_KINDS_def split: if_splits)
  moreover have "from_repo_rule env inp e" if "e \<in> set (dynamic_ref_edges env inp)"
    using that from_symbol by (auto simp: dynamic_ref_edges_def Let_def SYMBOL_DERIVED_KINDS_def split: if_splits)
  ultimately show ?thesis using assms by (auto simp: found_edges_def)
qed

definition auditable :: "inference_input \<Rightarrow> dependency_edge \<Rightarrow> bool" where
  "auditable inp e \<longleftrightarrow>
     node_shape e = None \<and> de_base_confidence e = EDGE_BASE_CONFIDENCE (de_kind e)
     \<and> de_confidence e = de_base_confidence e * prod_list (map snd (de_confidence_factors e))
     \<and> 0 < de_confidence e \<and> de_confidence e \<le> 1
     \<and> (de_kind e \<in> set SYMBOL_DERIVED_KINDS \<and> de_src_id e \<in> set (in_truncated inp) \<longrightarrow> de_confidence e \<le> TRUNCATED_INDEX_CAP)"

lemma repo_edge_fields [simp]:
  "de_src_kind (repo_edge env src dst coord kind path line factors cands spec tr) = REPO"
  "de_src_id (repo_edge env src dst coord kind path line factors cands spec tr) = src"
  "de_dst_kind (repo_edge env src dst coord kind path line factors cands spec tr) = REPO"
  "de_dst_id (repo_edge env src dst coord kind path line factors cands spec tr) = Some dst"
  "de_dst_coordinate (repo_edge env src dst coord kind path line factors cands spec tr) = Some coord"
  "de_kind (repo_edge env src dst coord kind path line factors cands spec tr) = kind"
  "de_evidence_path (repo_edge env src dst coord kind path line factors cands spec tr) = path"
  "de_evidence_line (repo_edge env src dst coord kind path line factors cands spec tr) = line"
  "de_edge_key (repo_edge env src dst coord kind path line factors cands spec tr) =
     edge_key_for (ce_sha256 env) ''REPO'' src ''REPO'' (coordinate_key coord) (edge_kind_value kind) path line"
  by (simp_all add: repo_edge_def split: prod.splits)

lemma repo_rule_auditable:
  assumes "from_repo_rule env inp e"
  shows "auditable inp e"
proof -
  obtain src dst coord kind path line d cands spec tr where e: "e = repo_edge env src dst coord kind path line d cands spec tr"
      "src \<noteq> dst" "factors_ok d" "kind \<notin> set CONTRACT_EDGE_KINDS" "kind \<in> set SYMBOL_DERIVED_KINDS \<longrightarrow> tr = (src \<in> set (in_truncated inp))"
    using assms unfolding from_repo_rule_def by blast
  obtain base c d1 where s: "score kind d tr = (base, c, d1)" by (rule prod_cases3)
  have "prod_list (map snd (sort_key fst d1)) = prod_list (map snd d1)"
    by (metis mset_map mset_sort prod_mset_prod_list)
  then have "de_base_confidence e = base" "de_confidence e = c" "prod_list (map snd (de_confidence_factors e)) = prod_list (map snd d1)"
    using s by (simp_all add: e(1) repo_edge_def)
  moreover have "node_shape e = None" using e(2,4) by (simp add: e(1) node_shape_def)
  ultimately show ?thesis using score_spec[OF e(3) s] e(1,5) by (auto simp: auditable_def)
qed

lemma contract_rule:
  assumes "e \<in> set (infer_contract_edges env cs)"
  shows "\<exists>src c kind path. e = contract_edge env src c kind path \<and> kind \<in> {CONTRACT_IMPL, CONTRACT_CONSUME}"
  using assms by (auto simp: infer_contract_edges_def edges_of_contract_def Let_def split: option.splits if_splits)

lemma contract_rule_auditable:
  assumes "e \<in> set (infer_contract_edges env cs)"
  shows "auditable inp e"
proof -
  obtain src c kind path where e: "e = contract_edge env src c kind path" "kind \<in> {CONTRACT_IMPL, CONTRACT_CONSUME}"
    using contract_rule[OF assms] by blast
  then have "kind \<in> set CONTRACT_EDGE_KINDS" "kind \<notin> set SYMBOL_DERIVED_KINDS"
    by (auto simp: CONTRACT_EDGE_KINDS_def SYMBOL_DERIVED_KINDS_def)
  then show ?thesis using base_confidence[of kind] by (simp add: e(1) auditable_def contract_edge_def node_shape_def)
qed

section \<open>Deduplication\<close>

lemma first_by_key_spec:
  assumes "sorted (map edge_sort_key es)"
  shows "distinct (map de_edge_key (first_by_key seen es)) \<and> sorted (map edge_sort_key (first_by_key seen es))
     \<and> set (first_by_key seen es) \<subseteq> set es \<and> (\<forall>e \<in> set (first_by_key seen es). de_edge_key e \<notin> set seen)
     \<and> (\<forall>x \<in> set es. de_edge_key x \<notin> set seen \<longrightarrow>
          (\<exists>e \<in> set (first_by_key seen es). de_edge_key e = de_edge_key x \<and> edge_sort_key e \<le> edge_sort_key x))"
  using assms
proof (induction seen es rule: first_by_key.induct)
  case (2 seen e es)
  show ?case
  proof (cases "de_edge_key e \<in> set seen")
    case True
    then show ?thesis using 2 by auto
  next
    case False
    note IH = "2.IH"(2)[OF False]
    have tail: "sorted (map edge_sort_key es)" "\<forall>x \<in> set es. edge_sort_key e \<le> edge_sort_key x" using "2.prems" by auto
    then show ?thesis using IH[OF tail(1)] False by (auto 0 3)
  qed
qed simp

text \<open>
  C17: Inference returns well-formed rows only. Their confidence is the base of their kind times the recorded factors, above zero and at most one, and at most the cap for a
  symbol-derived row of a repository with a truncated index. There is one row per key, each a row some rule found, the least of its key in the output order.
\<close>

theorem inferred_edges_are_auditable:
  "(\<forall>e \<in> set (infer_edges env inp). auditable inp e \<and> e \<in> set (found_edges env inp))
   \<and> distinct (map de_edge_key (infer_edges env inp)) \<and> sorted (map edge_sort_key (infer_edges env inp))
   \<and> (\<forall>x \<in> set (found_edges env inp). \<exists>e \<in> set (infer_edges env inp). de_edge_key e = de_edge_key x \<and> edge_sort_key e \<le> edge_sort_key x)"
proof -
  have "auditable inp e" if "e \<in> set (found_edges env inp)" for e
    using found_cases[OF that] repo_rule_auditable contract_rule_auditable by blast
  then show ?thesis
    using first_by_key_spec[of "sort_key edge_sort_key (found_edges env inp)" "[]"] by (auto simp: infer_edges_def)
qed

section \<open>The owner index\<close>

lemma holders_add: "holders_of (add_holder k x d) j = (if j = k then insert_once x (holders_of d k) else holders_of d j)"
  by (simp add: holders_of_def add_holder_def)

lemma index_holders:
  "distinct (map fst (oi_owners oi)) \<Longrightarrow> (\<And>j. distinct (holders_of (oi_owners oi) j)) \<Longrightarrow>
   distinct (map fst (oi_owners (fold index_row rows oi)))
   \<and> distinct (holders_of (oi_owners (fold index_row rows oi)) k)
   \<and> set (holders_of (oi_owners (fold index_row rows oi)) k) =
       set (holders_of (oi_owners oi) k) \<union> {r. \<exists>c. (r, c) \<in> set rows \<and> coordinate_key c = k}"
proof (induction rows arbitrary: oi)
  case (Cons row rows)
  obtain r c where row: "row = (r, c)" by (rule prod.exhaust)
  let ?oi = "index_row (r, c) oi"
  have own: "oi_owners ?oi = add_holder (coordinate_key c) r (oi_owners oi)" by (simp add: index_row_def)
  have "distinct (map fst (oi_owners ?oi))" using Cons.prems(1) by (simp add: own add_holder_def)
  moreover have "distinct (holders_of (oi_owners ?oi) j)" for j using Cons.prems(2) by (auto simp: own holders_add insert_once_def)
  ultimately show ?case unfolding row using Cons.IH[of ?oi] by (auto simp: own holders_add insert_once_def)
qed simp

lemma owners_from_published:
  "set (owners_of (from_published rows) k) = {r. \<exists>c. (r, c) \<in> set rows \<and> coordinate_key c = k} \<and> distinct (owners_of (from_published rows) k)"
proof -
  define oi where "oi = fold index_row (sort_key (\<lambda>(r, c). (r, coordinate_key c)) (remdups rows)) \<lparr>oi_owners = [], oi_published = [], oi_prefixes = []\<rparr>"
  have oi: "distinct (map fst (oi_owners oi))" "distinct (holders_of (oi_owners oi) k)"
      "set (holders_of (oi_owners oi) k) = {r. \<exists>c. (r, c) \<in> set rows \<and> coordinate_key c = k}"
    using index_holders[of "\<lparr>oi_owners = [], oi_published = [], oi_prefixes = []\<rparr>" "sort_key (\<lambda>(r, c). (r, coordinate_key c)) (remdups rows)" k]
    by (simp_all add: oi_def holders_of_def)
  have "dict_get (map (\<lambda>(k, rs). (k, sort rs)) d) k = map_option sort (dict_get d k)" for d :: "(coord_key, repo_id list) dict"
    by (induction d) (auto simp: dict_get_Cons)
  then have "owners_of (from_published rows) k = sort (holders_of (oi_owners oi) k)"
    using oi(1) by (simp add: owners_of_def from_published_def Let_def oi_def[symmetric] holders_of_def dict_get_sort_key split: option.splits)
  then show ?thesis using oi by simp
qed

section \<open>Declared dependencies\<close>

text \<open>The text a row's key names its destination by.\<close>

definition dst_text :: "dependency_edge \<Rightarrow> string" where
  "dst_text e = (case de_dst_coordinate e of Some c \<Rightarrow> coordinate_key c | None \<Rightarrow> (case de_dst_id e of None \<Rightarrow> [] | Some d \<Rightarrow> d))"

definition clean_row :: "dependency_edge \<Rightarrow> bool" where
  "clean_row e \<longleftrightarrow> nul \<notin> set (de_src_id e) \<and> nul \<notin> set (dst_text e) \<and> nul \<notin> set (de_evidence_path e) \<and> (\<forall>n. de_evidence_line e = Some n \<longrightarrow> 1 \<le> n)"

lemma found_key:
  assumes "e \<in> set (found_edges env inp)"
  shows "de_edge_key e = edge_key_for (ce_sha256 env) (node_kind_value (de_src_kind e)) (de_src_id e) (node_kind_value (de_dst_kind e)) (dst_text e)
     (edge_kind_value (de_kind e)) (de_evidence_path e) (de_evidence_line e)"
  using found_cases[OF assms] contract_rule[of e env "in_contracts inp"]
  by (auto simp: from_repo_rule_def dst_text_def contract_edge_def)

lemma kind_value_clean: "nul \<notin> set (edge_kind_value k)" "nul \<notin> set (node_kind_value n)"
  by (cases k; simp add: nul_def) (cases n; simp add: nul_def)

lemma same_key_same_row:
  assumes "inj (ce_sha256 env)" and "\<forall>e \<in> set (found_edges env inp). clean_row e"
    and "x \<in> set (found_edges env inp)" and "y \<in> set (found_edges env inp)" and "de_edge_key x = de_edge_key y"
  shows "de_src_id x = de_src_id y \<and> dst_text x = dst_text y \<and> de_kind x = de_kind y"
proof -
  let ?f = "\<lambda>e. (node_kind_value (de_src_kind e), de_src_id e, node_kind_value (de_dst_kind e), dst_text e, edge_kind_value (de_kind e),
    de_evidence_path e, de_evidence_line e)"
  have "?f x = ?f y"
    using assms(2-5)
    by (intro edge_key_identifies_edge[of "ce_sha256 env"])
      (auto simp: found_key kind_value_clean clean_row_def dest: injD[OF assms(1)])
  then show ?thesis by simp
qed

lemma dependency_found:
  assumes "dep \<in> set (in_dependencies inp)" and "owner \<in> set (owners_of (in_owners inp) (coordinate_key (md_coordinate dep)))"
    and "owner \<noteq> mf_repo_id (md_manifest dep)"
  shows "\<exists>e \<in> set (dependency_edges env inp dep). e \<in> set (found_edges env inp) \<and> de_src_id e = mf_repo_id (md_manifest dep) \<and> de_dst_id e = Some owner
     \<and> dst_text e = coordinate_key (md_coordinate dep) \<and> de_kind e \<in> {DECLARED_DEP, PUBLISHED_ARTIFACT}"
proof -
  have "\<exists>e \<in> set (dependency_edges env inp dep). de_src_id e = mf_repo_id (md_manifest dep) \<and> de_dst_id e = Some owner
     \<and> dst_text e = coordinate_key (md_coordinate dep) \<and> de_kind e \<in> {DECLARED_DEP, PUBLISHED_ARTIFACT}"
    using assms(2,3) by (force simp: dependency_edges_def Let_def dst_text_def)
  moreover have "set (dependency_edges env inp dep) \<subseteq> set (found_edges env inp)"
    using assms(1) by (auto simp: found_edges_def manifest_edges_def sorted_dependencies_def)
  ultimately show ?thesis by blast
qed

text \<open>
  C16: A declared dependency on a coordinate that exactly one other repository publishes always yields a row from the dependent to that repository, whatever
  other rules find and whatever rows share its evidence.
\<close>

theorem sole_owner_is_ordered:
  assumes "in_owners inp = from_published rows" and "dep \<in> set (in_dependencies inp)"
    and "\<exists>c. (owner, c) \<in> set rows \<and> coordinate_key c = coordinate_key (md_coordinate dep)"
    and "\<forall>(r, c) \<in> set rows. coordinate_key c = coordinate_key (md_coordinate dep) \<longrightarrow> r = owner"
    and "owner \<noteq> mf_repo_id (md_manifest dep)"
    and "inj (ce_sha256 env)" and "\<forall>e \<in> set (found_edges env inp). clean_row e"
  shows "\<exists>e \<in> set (infer_edges env inp). de_src_id e = mf_repo_id (md_manifest dep) \<and> de_dst_id e = Some owner
     \<and> de_kind e \<in> {DECLARED_DEP, PUBLISHED_ARTIFACT}"
proof -
  have owners: "set (owners_of (in_owners inp) (coordinate_key (md_coordinate dep))) = {owner}"
    using owners_from_published[of rows "coordinate_key (md_coordinate dep)"] assms(1,3,4) by auto
  obtain x where x: "x \<in> set (found_edges env inp)" "de_src_id x = mf_repo_id (md_manifest dep)" "dst_text x = coordinate_key (md_coordinate dep)"
      "de_kind x \<in> {DECLARED_DEP, PUBLISHED_ARTIFACT}"
    using dependency_found[OF assms(2) _ assms(5), of env] owners by blast
  have "\<exists>e \<in> set (infer_edges env inp). de_edge_key e = de_edge_key x" "set (infer_edges env inp) \<subseteq> set (found_edges env inp)"
    using first_by_key_spec[of "sort_key edge_sort_key (found_edges env inp)" "[]"] x(1) unfolding infer_edges_def by auto
  then obtain e where e: "e \<in> set (infer_edges env inp)" "de_edge_key e = de_edge_key x" "e \<in> set (found_edges env inp)"
    by blast
  note same = same_key_same_row[OF assms(6,7) e(3) x(1) e(2)]
  have "de_kind e \<notin> set SYMBOL_DERIVED_KINDS" "de_kind e \<notin> {CONTRACT_IMPL, CONTRACT_CONSUME}"
    using same x(4) by (auto simp: SYMBOL_DERIVED_KINDS_def)
  then have "\<exists>dst. de_dst_id e = Some dst \<and> dst \<in> set (owners_of (in_owners inp) (dst_text e))"
    using found_cases[OF e(3)] contract_rule[of e env "in_contracts inp"]
    by (auto simp: from_repo_rule_def dst_text_def contract_edge_def)
  then show ?thesis using owners same x e(1) by auto
qed

text \<open>
  C35: A coordinate with several owners is meant to order the dependent after each of them, but the rows of one dependency share their key, so at most one of
  them is returned: every other owner is left without the row.
\<close>

theorem ambiguous_owner_is_dropped:
  assumes "x \<in> set (dependency_edges env inp dep)" and "y \<in> set (dependency_edges env inp dep)" and "de_dst_id x \<noteq> de_dst_id y"
  shows "x \<notin> set (infer_edges env inp) \<or> y \<notin> set (infer_edges env inp)"
proof -
  have "de_edge_key x = de_edge_key y" using assms(1,2) by (auto simp: dependency_edges_def Let_def)
  moreover have "distinct (map de_edge_key (infer_edges env inp))"
    using first_by_key_spec[of "sort_key edge_sort_key (found_edges env inp)" "[]"] by (simp add: infer_edges_def)
  ultimately show ?thesis using assms(3) by (auto simp: distinct_map inj_on_def)
qed

section \<open>Concrete inputs\<close>

definition lib_coordinate :: coordinate where
  "lib_coordinate = \<lparr>co_ecosystem = ECO_NPM, co_group = ''acme'', co_name = ''lib'', co_version_spec = None\<rparr>"

definition app_dependency :: manifest_dependency where
  "app_dependency = \<lparr>md_manifest = \<lparr>mf_repo_id = ''app'', mf_path = ''package.json'', mf_low_confidence = False\<rparr>,
     md_raw = \<lparr>rd_raw_id = ''lib'', rd_version_spec = Some ''1.2'', rd_scope = None, rd_optional = False, rd_source_line = Some 3\<rparr>,
     md_coordinate = lib_coordinate\<rparr>"

definition app_input :: "(repo_id \<times> coordinate) list \<Rightarrow> inference_input" where
  "app_input rows = \<lparr>in_owners = from_published rows, in_dependencies = [app_dependency],
     in_symbols = [],
     in_contracts = [], in_truncated = [''app''], in_vendor_globs = [''**/vendor/**''], in_generated_globs = []\<rparr>"

definition sole_rows :: "(repo_id \<times> coordinate) list" where
  "sole_rows = [(''lib'', lib_coordinate)]"

definition shared_rows :: "(repo_id \<times> coordinate) list" where
  "shared_rows = [(''lib'', lib_coordinate), (''fork'', lib_coordinate)]"

lemma dependency_destinations:
  "map de_dst_id (dependency_edges env inp dep) =
     map Some (filter (\<lambda>owner. owner \<noteq> mf_repo_id (md_manifest dep)) (owners_of (in_owners inp) (coordinate_key (md_coordinate dep))))"
  by (simp add: dependency_edges_def Let_def)

lemma app_found: "found_edges env (app_input rows) = dependency_edges env (app_input rows) app_dependency"
  by (simp add: found_edges_def manifest_edges_def sorted_dependencies_def sorted_symbols_def app_input_def import_edges_def
      api_contract_edges_def shared_resource_edges_def dynamic_ref_edges_def infer_contract_edges_def group_by_def)

lemma app_rows_clean: "\<forall>e \<in> set (found_edges env (app_input rows)). clean_row e"
proof -
  have "nul \<notin> set (coordinate_key lib_coordinate)" by code_simp
  then show ?thesis
    unfolding app_found by (auto simp: dependency_edges_def Let_def clean_row_def dst_text_def app_dependency_def nul_def)
qed

text \<open>Declared by one repository, published by another: one row, with the score of an open range.\<close>

theorem inferred_edges_are_auditable_witness:
  "list_all (\<lambda>e. de_confidence e \<le> 1 \<and> node_shape e = None) (infer_edges sample_env (app_input sole_rows))"
  using inferred_edges_are_auditable[of sample_env "app_input sole_rows"] by (auto simp: auditable_def list_all_iff)

theorem sole_owner_is_ordered_witness:
  "\<exists>e \<in> set (infer_edges sample_env (app_input sole_rows)). de_src_id e = ''app'' \<and> de_dst_id e = Some ''lib''"
proof -
  have "in_owners (app_input sole_rows) = from_published sole_rows" "app_dependency \<in> set (in_dependencies (app_input sole_rows))"
    by (simp_all add: app_input_def)
  moreover have "\<exists>c. (''lib'', c) \<in> set sole_rows \<and> coordinate_key c = coordinate_key (md_coordinate app_dependency)"
      "\<forall>(r, c) \<in> set sole_rows. coordinate_key c = coordinate_key (md_coordinate app_dependency) \<longrightarrow> r = ''lib''"
    by (simp_all add: sole_rows_def app_dependency_def)
  moreover have src: "mf_repo_id (md_manifest app_dependency) = ''app''" by (simp add: app_dependency_def)
  moreover have "inj (ce_sha256 sample_env)" by (simp add: sample_env_def inj_on_def)
  ultimately show ?thesis
    using sole_owner_is_ordered[of "app_input sole_rows" sole_rows app_dependency "''lib''" sample_env] app_rows_clean[of sample_env sole_rows]
    by auto
qed

theorem ambiguous_owner_is_dropped_witness:
  "\<exists>x y. de_dst_id x = Some ''fork'' \<and> de_dst_id y = Some ''lib'' \<and> {x, y} \<subseteq> set (found_edges sample_env (app_input shared_rows))
     \<and> (x \<notin> set (infer_edges sample_env (app_input shared_rows)) \<or> y \<notin> set (infer_edges sample_env (app_input shared_rows)))"
proof -
  let ?es = "dependency_edges sample_env (app_input shared_rows) app_dependency"
  have owners: "set (owners_of (from_published shared_rows) (coordinate_key lib_coordinate)) = {''lib'', ''fork''}"
    using owners_from_published[of shared_rows "coordinate_key lib_coordinate"] by (auto simp: shared_rows_def)
  have input: "in_owners (app_input shared_rows) = from_published shared_rows" "mf_repo_id (md_manifest app_dependency) = ''app''"
      "md_coordinate app_dependency = lib_coordinate" by (simp_all add: app_input_def app_dependency_def)
  have row: "\<exists>e. e \<in> set ?es \<and> de_dst_id e = Some r" if "r = ''lib'' \<or> r = ''fork''" "r \<noteq> ''app''" for r
  proof -
    have "Some r \<in> set (map de_dst_id ?es)" unfolding dependency_destinations input set_map set_filter owners using that by blast
    then show ?thesis unfolding set_map by (metis imageE)
  qed
  obtain x where x: "x \<in> set ?es" "de_dst_id x = Some ''fork''" using row[of "''fork''"] by auto
  obtain y where y: "y \<in> set ?es" "de_dst_id y = Some ''lib''" using row[of "''lib''"] by auto
  have "de_dst_id x \<noteq> de_dst_id y" unfolding x(2) y(2) by simp
  from ambiguous_owner_is_dropped[OF x(1) y(1) this] show ?thesis using x y unfolding app_found by blast
qed

end
