(* ===== verification/Py_Difflib.thy ===== *)
theory Py_Difflib
  imports Py_Text
begin

text \<open>
  The functions of Python's \<open>difflib\<close> and \<open>str.splitlines\<close> that the diff module calls: the longest match by rows of run
  lengths, the matching blocks, the operation codes, their grouping with context, and the unified format. The work list of the
  matching blocks is a recursion, since its result is sorted. Lines of long texts that occur too often are not looked up, as in the
  library. The lemmas show what the callers rely on: the codes lead from one text to the other, and the groups leave out equal lines only.
\<close>

section \<open>Lines\<close>

definition is_break :: "char \<Rightarrow> bool" where
  "is_break c \<longleftrightarrow> (of_char c :: nat) \<in> {10, 11, 12, 13, 28, 29, 30, 133}"

fun splitlines_keep :: "string \<Rightarrow> string list" where
  "splitlines_keep [] = []"
| "splitlines_keep (c # cs) =
     (if c = CHR 0x0D \<and> cs \<noteq> [] \<and> hd cs = newline then [c, newline] # splitlines_keep (tl cs)
      else if is_break c then [c] # splitlines_keep cs
      else case splitlines_keep cs of [] \<Rightarrow> [[c]] | l # ls \<Rightarrow> (c # l) # ls)"

definition chop_break :: "string \<Rightarrow> string" where
  "chop_break l =
     (if l \<noteq> [] \<and> last l = newline \<and> butlast l \<noteq> [] \<and> last (butlast l) = CHR 0x0D then butlast (butlast l)
      else if l \<noteq> [] \<and> is_break (last l) then butlast l else l)"

definition splitlines :: "string \<Rightarrow> string list" where
  "splitlines s = map chop_break (splitlines_keep s)"

section \<open>Matching\<close>

type_synonym block = "nat \<times> nat \<times> nat"

definition popular :: "'a list \<Rightarrow> 'a \<Rightarrow> bool" where
  "popular b x \<longleftrightarrow> 200 \<le> length b \<and> length (filter (\<lambda>y. y = x) b) > length b div 100 + 1"

definition positions :: "'a list \<Rightarrow> 'a \<Rightarrow> nat list" where
  "positions b x = (if popular b x then [] else filter (\<lambda>j. b ! j = x) [0..<length b])"

definition run_length :: "(nat, nat) dict \<Rightarrow> nat \<Rightarrow> nat" where
  "run_length d j = (if j = 0 then 1 else case dict_get d (j - 1) of None \<Rightarrow> 1 | Some k \<Rightarrow> k + 1)"

definition scan_cell :: "(nat, nat) dict \<Rightarrow> nat \<Rightarrow> nat \<Rightarrow> (nat, nat) dict \<times> block \<Rightarrow> (nat, nat) dict \<times> block" where
  "scan_cell j2len i j = (\<lambda>(new, (besti, bestj, bestsize)).
     let k = run_length j2len j in
     (dict_set new j k, if k > bestsize then (i + 1 - k, j + 1 - k, k) else (besti, bestj, bestsize)))"

definition scan_row :: "'a list \<Rightarrow> 'a list \<Rightarrow> nat \<Rightarrow> nat \<Rightarrow> nat \<Rightarrow> (nat, nat) dict \<times> block \<Rightarrow> (nat, nat) dict \<times> block" where
  "scan_row a b blo bhi i = (\<lambda>(j2len, best).
     fold (scan_cell j2len i) (filter (\<lambda>j. blo \<le> j \<and> j < bhi) (positions b (a ! i))) ([], best))"

definition longest_run :: "'a list \<Rightarrow> 'a list \<Rightarrow> nat \<Rightarrow> nat \<Rightarrow> nat \<Rightarrow> nat \<Rightarrow> block" where
  "longest_run a b alo ahi blo bhi = snd (fold (scan_row a b blo bhi) [alo..<ahi] ([], (alo, blo, 0)))"

fun extend_back :: "'a list \<Rightarrow> 'a list \<Rightarrow> nat \<Rightarrow> nat \<Rightarrow> block \<Rightarrow> block" where
  "extend_back a b alo blo (0, j, k) = (0, j, k)"
| "extend_back a b alo blo (Suc i, j, k) =
     (if alo < Suc i \<and> blo < j \<and> a ! i = b ! (j - 1) then extend_back a b alo blo (i, j - 1, k + 1) else (Suc i, j, k))"

function extend_forth :: "'a list \<Rightarrow> 'a list \<Rightarrow> nat \<Rightarrow> nat \<Rightarrow> block \<Rightarrow> block" where
  "extend_forth a b ahi bhi (i, j, k) =
     (if i + k < ahi \<and> j + k < bhi \<and> a ! (i + k) = b ! (j + k) then extend_forth a b ahi bhi (i, j, k + 1) else (i, j, k))"
  by pat_completeness auto
termination by (relation "measure (\<lambda>(a, b, ahi, bhi, (i, j, k)). ahi - (i + k))") auto

declare extend_forth.simps [simp del]

definition find_longest_match :: "'a list \<Rightarrow> 'a list \<Rightarrow> nat \<Rightarrow> nat \<Rightarrow> nat \<Rightarrow> nat \<Rightarrow> block" where
  "find_longest_match a b alo ahi blo bhi = extend_forth a b ahi bhi (extend_back a b alo blo (longest_run a b alo ahi blo bhi))"

text \<open>The block lies between the bounds and the two texts agree on it.\<close>

definition block_in :: "'a list \<Rightarrow> 'a list \<Rightarrow> nat \<Rightarrow> nat \<Rightarrow> nat \<Rightarrow> nat \<Rightarrow> block \<Rightarrow> bool" where
  "block_in a b alo ahi blo bhi = (\<lambda>(i, j, k).
     k = 0 \<and> i = alo \<and> j = blo \<or> 0 < k \<and> alo \<le> i \<and> i + k \<le> ahi \<and> blo \<le> j \<and> j + k \<le> bhi \<and> (\<forall>t < k. a ! (i + t) = b ! (j + t)))"

text \<open>A row of run lengths after position \<open>i\<close>.\<close>

definition row_ok :: "'a list \<Rightarrow> 'a list \<Rightarrow> nat \<Rightarrow> nat \<Rightarrow> nat \<Rightarrow> nat \<Rightarrow> (nat, nat) dict \<Rightarrow> bool" where
  "row_ok a b alo blo bhi i d \<longleftrightarrow>
     (\<forall>j k. dict_get d j = Some k \<longrightarrow> 0 < k \<and> alo + k \<le> i \<and> blo + k \<le> Suc j \<and> j < bhi \<and> (\<forall>t < k. a ! (i - k + t) = b ! (Suc j - k + t)))"

lemma scan_cell_ok:
  assumes "row_ok a b alo blo bhi i old" and "row_ok a b alo blo bhi (Suc i) new" and "block_in a b alo ahi blo bhi best"
    and "alo \<le> i" "i < ahi" "blo \<le> j" "j < bhi" "a ! i = b ! j"
    and "scan_cell old i j (new, best) = (new', best')"
  shows "row_ok a b alo blo bhi (Suc i) new' \<and> block_in a b alo ahi blo bhi best'"
proof -
  obtain bi bj bs where best: "best = (bi, bj, bs)" by (rule prod_cases3)
  define k where "k = run_length old j"
  have run: "0 < k \<and> alo + k \<le> Suc i \<and> blo + k \<le> Suc j \<and> (\<forall>t < k. a ! (Suc i - k + t) = b ! (Suc j - k + t))"
  proof (cases "j = 0 \<or> dict_get old (j - 1) = None")
    case True
    then have "k = 1" by (auto simp: k_def run_length_def)
    then show ?thesis using assms(4-8) by auto
  next
    case False
    then obtain m where m: "dict_get old (j - 1) = Some m" "k = Suc m" "0 < j" by (auto simp: k_def run_length_def)
    then have old: "0 < m" "alo + m \<le> i" "blo + m \<le> j" "\<forall>t < m. a ! (i - m + t) = b ! (j - m + t)"
      using assms(1) unfolding row_ok_def by fastforce+
    have "a ! (Suc i - k + t) = b ! (Suc j - k + t)" if "t < k" for t
    proof (cases "t < m")
      case True
      then show ?thesis using old(4) m(2) by simp
    next
      case False
      then have "t = m" using that m(2) by simp
      then show ?thesis using old m(2) assms(8) by simp
    qed
    then show ?thesis using old m by auto
  qed
  have "new' = dict_set new j k" "best' = (if k > bs then (Suc i - k, Suc j - k, k) else best)"
    using assms(9) by (auto simp: scan_cell_def best k_def Let_def)
  moreover have "block_in a b alo ahi blo bhi (Suc i - k, Suc j - k, k)" using run assms(5,7) by (auto simp: block_in_def)
  ultimately show ?thesis using assms(2,3,7) run by (auto simp: row_ok_def)
qed

lemma scan_cells_ok:
  assumes "row_ok a b alo blo bhi i old" and "alo \<le> i" "i < ahi"
    and "\<forall>j \<in> set js. blo \<le> j \<and> j < bhi \<and> a ! i = b ! j"
    and "row_ok a b alo blo bhi (Suc i) (fst st)" and "block_in a b alo ahi blo bhi (snd st)"
  shows "row_ok a b alo blo bhi (Suc i) (fst (fold (scan_cell old i) js st)) \<and> block_in a b alo ahi blo bhi (snd (fold (scan_cell old i) js st))"
  using assms(4-6)
proof (induction js arbitrary: st)
  case (Cons j js)
  obtain new' best' where st': "scan_cell old i j st = (new', best')" by (rule prod.exhaust)
  then have "row_ok a b alo blo bhi (Suc i) new' \<and> block_in a b alo ahi blo bhi best'"
    using scan_cell_ok[OF assms(1) Cons.prems(2,3) assms(2,3), of j new' best'] Cons.prems(1) by simp
  then show ?case using Cons.IH[of "(new', best')"] Cons.prems(1) st' by simp
qed simp

lemma positions_mem: "j \<in> set (positions b x) \<Longrightarrow> b ! j = x"
  by (auto simp: positions_def split: if_splits)

lemma longest_run_ok: "block_in a b alo ahi blo bhi (longest_run a b alo ahi blo bhi)"
proof -
  define st where "st n = fold (scan_row a b blo bhi) [alo..<n] ([], (alo, blo, 0))" for n
  have "row_ok a b alo blo bhi n (fst (st n)) \<and> block_in a b alo ahi blo bhi (snd (st n))" if "alo \<le> n" "n \<le> ahi \<or> n = alo" for n
    using that
  proof (induction n rule: dec_induct)
    case base
    then show ?case by (simp add: st_def row_ok_def block_in_def)
  next
    case (step n)
    then have IH: "row_ok a b alo blo bhi n (fst (st n))" "block_in a b alo ahi blo bhi (snd (st n))" by auto
    let ?js = "filter (\<lambda>j. blo \<le> j \<and> j < bhi) (positions b (a ! n))"
    have "st (Suc n) = scan_row a b blo bhi n (st n)" using step by (simp add: st_def)
    then have next_st: "st (Suc n) = fold (scan_cell (fst (st n)) n) ?js ([], snd (st n))" by (cases "st n") (simp add: scan_row_def)
    have js: "\<forall>j \<in> set ?js. blo \<le> j \<and> j < bhi \<and> a ! n = b ! j" using positions_mem by fastforce
    have empty: "row_ok a b alo blo bhi (Suc n) (fst ([], snd (st n)))" by (simp add: row_ok_def)
    have n: "alo \<le> n" "n < ahi" using step by auto
    show ?case unfolding next_st by (rule scan_cells_ok[OF IH(1) n js empty]) (simp add: IH(2))
  qed
  from this[of ahi] show ?thesis by (cases "alo \<le> ahi") (auto simp: longest_run_def st_def block_in_def)
qed

lemma extend_back_ok: "block_in a b alo ahi blo bhi (i, j, k) \<Longrightarrow> block_in a b alo ahi blo bhi (extend_back a b alo blo (i, j, k))"
proof (induction i arbitrary: j k)
  case (Suc i)
  show ?case
  proof (cases "alo < Suc i \<and> blo < j \<and> a ! i = b ! (j - 1)")
    case True
    then have old: "0 < k" "Suc i + k \<le> ahi" "j + k \<le> bhi" "\<And>t. t < k \<Longrightarrow> a ! (Suc i + t) = b ! (j + t)"
      using Suc.prems by (auto simp: block_in_def)
    have "a ! (i + t) = b ! (j - 1 + t)" if "t < Suc k" for t
      using True old(4)[of "t - 1"] that by (cases t) auto
    then have "block_in a b alo ahi blo bhi (i, j - 1, Suc k)" using True old by (auto simp: block_in_def)
    then show ?thesis using Suc.IH True by simp
  qed (use Suc.prems in auto)
qed auto

lemma extend_forth_ok:
  "block_in a b alo ahi blo bhi (i, j, k) \<Longrightarrow> block_in a b alo ahi blo bhi (extend_forth a b ahi bhi (i, j, k))"
proof (induction a b ahi bhi "(i, j, k)" arbitrary: i j k rule: extend_forth.induct)
  case (1 a b ahi bhi i j k)
  show ?case
  proof (cases "i + k < ahi \<and> j + k < bhi \<and> a ! (i + k) = b ! (j + k)")
    case True
    then have "block_in a b alo ahi blo bhi (i, j, Suc k)" using "1.prems" by (auto simp: block_in_def less_Suc_eq)
    then show ?thesis using "1.hyps"[OF True] True by (simp add: extend_forth.simps[of a b ahi bhi i j k])
  next
    case False
    then have "extend_forth a b ahi bhi (i, j, k) = (i, j, k)" by (subst extend_forth.simps) auto
    then show ?thesis using "1.prems" by simp
  qed
qed

lemma find_longest_match_ok: "block_in a b alo ahi blo bhi (find_longest_match a b alo ahi blo bhi)"
proof -
  obtain i j k where r: "longest_run a b alo ahi blo bhi = (i, j, k)" by (rule prod_cases3)
  obtain i1 j1 k1 where e: "extend_back a b alo blo (i, j, k) = (i1, j1, k1)" by (rule prod_cases3)
  have "block_in a b alo ahi blo bhi (i1, j1, k1)" using extend_back_ok[of a b alo ahi blo bhi i j k] longest_run_ok[of a b alo ahi blo bhi] r e by simp
  then show ?thesis using extend_forth_ok by (simp add: find_longest_match_def r e)
qed

function match_blocks :: "'a list \<Rightarrow> 'a list \<Rightarrow> nat \<Rightarrow> nat \<Rightarrow> nat \<Rightarrow> nat \<Rightarrow> block list" where
  "match_blocks a b alo ahi blo bhi =
     (case find_longest_match a b alo ahi blo bhi of (i, j, k) \<Rightarrow>
        if k = 0 then []
        else (if alo < i \<and> blo < j then match_blocks a b alo i blo j else [])
             @ [(i, j, k)]
             @ (if i + k < ahi \<and> j + k < bhi then match_blocks a b (i + k) ahi (j + k) bhi else []))"
  by pat_completeness auto
termination
proof (relation "measure (\<lambda>(a, b, alo, ahi, blo, bhi). ahi - alo)"; clarsimp)
  fix a b :: "'a list" and alo ahi blo bhi i j k
  assume "(i, j, k) = find_longest_match a b alo ahi blo bhi" "0 < k" "alo < i"
  then show "i - alo < ahi - alo" using find_longest_match_ok[of a b alo ahi blo bhi] by (auto simp: block_in_def)
next
  fix a b :: "'a list" and alo ahi blo bhi i j k
  assume "(i, j, k) = find_longest_match a b alo ahi blo bhi" "0 < k" "i + k < ahi"
  then show "ahi - (i + k) < ahi - alo" using find_longest_match_ok[of a b alo ahi blo bhi] by (auto simp: block_in_def)
qed

declare match_blocks.simps [simp del]

fun merge_blocks :: "block \<Rightarrow> block list \<Rightarrow> block list" where
  "merge_blocks (i1, j1, k1) [] = (if k1 = 0 then [] else [(i1, j1, k1)])"
| "merge_blocks (i1, j1, k1) ((i2, j2, k2) # bs) =
     (if i1 + k1 = i2 \<and> j1 + k1 = j2 then merge_blocks (i1, j1, k1 + k2) bs
      else (if k1 = 0 then [] else [(i1, j1, k1)]) @ merge_blocks (i2, j2, k2) bs)"

definition get_matching_blocks :: "'a list \<Rightarrow> 'a list \<Rightarrow> block list" where
  "get_matching_blocks a b = merge_blocks (0, 0, 0) (match_blocks a b 0 (length a) 0 (length b)) @ [(length a, length b, 0)]"

text \<open>Blocks in order, each after the last, on which the texts agree.\<close>

fun block_chain :: "'a list \<Rightarrow> 'a list \<Rightarrow> nat \<Rightarrow> nat \<Rightarrow> nat \<Rightarrow> nat \<Rightarrow> block list \<Rightarrow> bool" where
  "block_chain a b alo ahi blo bhi [] \<longleftrightarrow> alo \<le> ahi \<and> blo \<le> bhi"
| "block_chain a b alo ahi blo bhi ((i, j, k) # bs) \<longleftrightarrow>
     alo \<le> i \<and> blo \<le> j \<and> (\<forall>t < k. a ! (i + t) = b ! (j + t)) \<and> block_chain a b (i + k) ahi (j + k) bhi bs"

lemma block_chain_bounds: "block_chain a b alo ahi blo bhi bs \<Longrightarrow> alo \<le> ahi \<and> blo \<le> bhi"
  by (induction bs arbitrary: alo blo) (auto, fastforce+)

lemma block_chain_append:
  "block_chain a b alo mi blo mj xs \<Longrightarrow> block_chain a b mi ahi mj bhi ys \<Longrightarrow> block_chain a b alo ahi blo bhi (xs @ ys)"
proof (induction xs arbitrary: alo blo)
  case Nil
  then show ?case
  proof (cases ys)
    case Nil
    then show ?thesis using Nil.prems by auto
  next
    case (Cons y ys')
    then show ?thesis using Nil.prems by (cases y) auto
  qed
qed auto

lemma match_blocks_chain: "alo \<le> ahi \<Longrightarrow> blo \<le> bhi \<Longrightarrow> block_chain a b alo ahi blo bhi (match_blocks a b alo ahi blo bhi)"
proof (induction a b alo ahi blo bhi rule: match_blocks.induct)
  case (1 a b alo ahi blo bhi)
  obtain i j k where m: "find_longest_match a b alo ahi blo bhi = (i, j, k)" by (rule prod_cases3)
  show ?case
  proof (cases "k = 0")
    case True
    then show ?thesis using "1.prems" by (simp add: match_blocks.simps[of a b alo] m)
  next
    case False
    then have blk: "alo \<le> i" "i + k \<le> ahi" "blo \<le> j" "j + k \<le> bhi" "\<forall>t < k. a ! (i + t) = b ! (j + t)"
      using find_longest_match_ok[of a b alo ahi blo bhi] m by (auto simp: block_in_def)
    have left: "block_chain a b alo i blo j (if alo < i \<and> blo < j then match_blocks a b alo i blo j else [])"
      using "1.IH"(1)[OF m[symmetric] refl False] blk by auto
    have right: "block_chain a b (i + k) ahi (j + k) bhi (if i + k < ahi \<and> j + k < bhi then match_blocks a b (i + k) ahi (j + k) bhi else [])"
      using "1.IH"(2)[OF m[symmetric] refl False] blk by auto
    have "block_chain a b i ahi j bhi ((i, j, k) # (if i + k < ahi \<and> j + k < bhi then match_blocks a b (i + k) ahi (j + k) bhi else []))"
      using right blk(5) by simp
    from block_chain_append[OF left this] show ?thesis using False by (simp add: match_blocks.simps[of a b alo] m)
  qed
qed

lemma merge_blocks_chain:
  "block_chain a b alo ahi blo bhi ((i, j, k) # bs) \<Longrightarrow> block_chain a b alo ahi blo bhi (merge_blocks (i, j, k) bs)"
proof (induction "(i, j, k)" bs arbitrary: i j k alo blo rule: merge_blocks.induct)
  case (2 i1 j1 k1 i2 j2 k2 bs)
  show ?case
  proof (cases "i1 + k1 = i2 \<and> j1 + k1 = j2")
    case True
    have eqs: "\<And>t. t < k1 \<Longrightarrow> a ! (i1 + t) = b ! (j1 + t)" "\<And>t. t < k2 \<Longrightarrow> a ! (i1 + k1 + t) = b ! (j1 + k1 + t)"
      using "2.prems" True by auto
    have "a ! (i1 + t) = b ! (j1 + t)" if "t < k1 + k2" for t
      using eqs(1)[of t] eqs(2)[of "t - k1"] that by (cases "t < k1") auto
    then have "block_chain a b alo ahi blo bhi ((i1, j1, k1 + k2) # bs)" using "2.prems" True by (auto simp: add.assoc)
    from "2.hyps"(1)[OF True this] show ?thesis using True by simp
  next
    case False
    have "block_chain a b (i1 + k1) ahi (j1 + k1) bhi ((i2, j2, k2) # bs)" using "2.prems" by simp
    from "2.hyps"(2)[OF False this] have tail: "block_chain a b (i1 + k1) ahi (j1 + k1) bhi (merge_blocks (i2, j2, k2) bs)" .
    show ?thesis
    proof (cases "k1 = 0")
      case True
      have "block_chain a b alo (i1 + k1) blo (j1 + k1) []" using "2.prems" by simp
      from block_chain_append[OF this tail] show ?thesis using False True by auto
    next
      case k1: False
      then show ?thesis using False tail "2.prems" by auto
    qed
  qed
qed (auto dest: block_chain_bounds)

lemma get_matching_blocks_chain: "block_chain a b 0 (length a) 0 (length b) (get_matching_blocks a b)"
proof -
  have "block_chain a b 0 (length a) 0 (length b) (merge_blocks (0, 0, 0) (match_blocks a b 0 (length a) 0 (length b)))"
    using merge_blocks_chain[of a b 0 "length a" 0 "length b" 0 0 0] match_blocks_chain[of 0 "length a" 0 "length b" a b] by simp
  then show ?thesis unfolding get_matching_blocks_def by (rule block_chain_append) simp
qed

section \<open>Operation codes\<close>

datatype op_tag = OpEqual | OpReplace | OpDelete | OpInsert

type_synonym opcode = "op_tag \<times> nat \<times> nat \<times> nat \<times> nat"

fun opcodes_from :: "nat \<Rightarrow> nat \<Rightarrow> block list \<Rightarrow> opcode list" where
  "opcodes_from i j [] = []"
| "opcodes_from i j ((ai, bj, sz) # bs) =
     (if i < ai \<and> j < bj then [(OpReplace, i, ai, j, bj)] else if i < ai then [(OpDelete, i, ai, j, bj)]
      else if j < bj then [(OpInsert, i, ai, j, bj)] else [])
     @ (if sz = 0 then [] else [(OpEqual, ai, ai + sz, bj, bj + sz)])
     @ opcodes_from (ai + sz) (bj + sz) bs"

definition get_opcodes :: "'a list \<Rightarrow> 'a list \<Rightarrow> opcode list" where
  "get_opcodes a b = opcodes_from 0 0 (get_matching_blocks a b)"

fun trim_first :: "nat \<Rightarrow> opcode list \<Rightarrow> opcode list" where
  "trim_first n ((OpEqual, i1, i2, j1, j2) # ops) = (OpEqual, max i1 (i2 - n), i2, max j1 (j2 - n), j2) # ops"
| "trim_first n ops = ops"

definition trim_last :: "nat \<Rightarrow> opcode list \<Rightarrow> opcode list" where
  "trim_last n ops =
     (case rev ops of
        (OpEqual, i1, i2, j1, j2) # rest \<Rightarrow> rev rest @ [(OpEqual, i1, min i2 (i1 + n), j1, min j2 (j1 + n))]
      | _ \<Rightarrow> ops)"

fun group_ops :: "nat \<Rightarrow> opcode list \<Rightarrow> opcode list \<Rightarrow> opcode list list" where
  "group_ops n grp [] = (if grp = [] \<or> length grp = 1 \<and> fst (hd grp) = OpEqual then [] else [grp])"
| "group_ops n grp ((tag, i1, i2, j1, j2) # ops) =
     (if tag = OpEqual \<and> i2 - i1 > n + n
      then (grp @ [(tag, i1, min i2 (i1 + n), j1, min j2 (j1 + n))])
           # group_ops n [(tag, max i1 (i2 - n), i2, max j1 (j2 - n), j2)] ops
      else group_ops n (grp @ [(tag, i1, i2, j1, j2)]) ops)"

definition get_grouped_opcodes :: "nat \<Rightarrow> 'a list \<Rightarrow> 'a list \<Rightarrow> opcode list list" where
  "get_grouped_opcodes n a b =
     (let codes = get_opcodes a b;
          codes = (if codes = [] then [(OpEqual, 0, 1, 0, 1)] else codes) in
      group_ops n [] (trim_last n (trim_first n codes)))"

definition slice :: "'a list \<Rightarrow> nat \<Rightarrow> nat \<Rightarrow> 'a list" where
  "slice xs i j = take (j - i) (drop i xs)"

text \<open>The codes lead from one position to another, and an equal code spans equal lines.\<close>

fun op_ok :: "'a list \<Rightarrow> 'a list \<Rightarrow> opcode \<Rightarrow> bool" where
  "op_ok a b (tag, i1, i2, j1, j2) \<longleftrightarrow>
     i1 \<le> i2 \<and> i2 \<le> length a \<and> j1 \<le> j2 \<and> j2 \<le> length b \<and> (tag = OpDelete \<longrightarrow> j1 = j2) \<and> (tag = OpInsert \<longrightarrow> i1 = i2)
     \<and> (tag = OpEqual \<longrightarrow> i2 - i1 = j2 - j1 \<and> (\<forall>t < i2 - i1. a ! (i1 + t) = b ! (j1 + t)))"

fun script :: "'a list \<Rightarrow> 'a list \<Rightarrow> nat \<times> nat \<Rightarrow> opcode list \<Rightarrow> nat \<times> nat \<Rightarrow> bool" where
  "script a b p [] q \<longleftrightarrow> p = q"
| "script a b p ((tag, i1, i2, j1, j2) # ops) q \<longleftrightarrow> p = (i1, j1) \<and> op_ok a b (tag, i1, i2, j1, j2) \<and> script a b (i2, j2) ops q"

lemma script_append: "script a b p (xs @ ys) q \<longleftrightarrow> (\<exists>r. script a b p xs r \<and> script a b r ys q)"
proof (induction xs arbitrary: p)
  case (Cons x xs)
  obtain tag i1 i2 j1 j2 where "x = (tag, i1, i2, j1, j2)" by (rule prod_cases5)
  then show ?case using Cons.IH by (auto simp del: op_ok.simps split_paired_Ex)
qed simp

lemma opcodes_script:
  "block_chain a b i (length a) j (length b) (bs @ [(length a, length b, 0)]) \<Longrightarrow>
   script a b (i, j) (opcodes_from i j (bs @ [(length a, length b, 0)])) (length a, length b)"
proof (induction bs arbitrary: i j)
  case (Cons x bs)
  obtain ai bj k where x: "x = (ai, bj, k)" by (rule prod_cases3)
  have chain: "i \<le> ai" "j \<le> bj" "\<forall>t < k. a ! (ai + t) = b ! (bj + t)"
      "block_chain a b (ai + k) (length a) (bj + k) (length b) (bs @ [(length a, length b, 0)])"
    using Cons.prems by (auto simp: x)
  note rest = Cons.IH[OF chain(4)] and ends = block_chain_bounds[OF chain(4)]
  show ?case using chain(1-3) rest ends by (auto simp: x script_append)
qed auto

lemma get_opcodes_script: "script a b (0, 0) (get_opcodes a b) (length a, length b)"
  using opcodes_script[of a b 0 0 "merge_blocks (0, 0, 0) (match_blocks a b 0 (length a) 0 (length b))"] get_matching_blocks_chain[of a b]
  by (simp add: get_opcodes_def get_matching_blocks_def)

text \<open>The texts agree between two pairs of positions.\<close>

definition same_span :: "'a list \<Rightarrow> 'a list \<Rightarrow> nat \<times> nat \<Rightarrow> nat \<times> nat \<Rightarrow> bool" where
  "same_span a b = (\<lambda>(i, j) (i', j').
     i \<le> i' \<and> i' \<le> length a \<and> j \<le> j' \<and> j' \<le> length b \<and> i' - i = j' - j \<and> (\<forall>t < i' - i. a ! (i + t) = b ! (j + t)))"

lemma same_span_slice: "same_span a b (i, j) (i', j') \<Longrightarrow> slice a i i' = slice b j j'"
  by (auto simp: same_span_def slice_def intro!: nth_equalityI)

fun groups_ok :: "'a list \<Rightarrow> 'a list \<Rightarrow> nat \<times> nat \<Rightarrow> opcode list list \<Rightarrow> bool" where
  "groups_ok a b p [] \<longleftrightarrow> same_span a b p (length a, length b)"
| "groups_ok a b p (g # gs) \<longleftrightarrow> g \<noteq> [] \<and> (\<exists>q r. same_span a b p q \<and> script a b q g r \<and> groups_ok a b r gs)"

lemma script_single_equal: "script a b p [(OpEqual, i1, i2, j1, j2)] q \<longleftrightarrow> p = (i1, j1) \<and> q = (i2, j2) \<and> op_ok a b (OpEqual, i1, i2, j1, j2)"
  by auto

lemma same_span_refl: "i \<le> length a \<Longrightarrow> j \<le> length b \<Longrightarrow> same_span a b (i, j) (i, j)"
  by (auto simp: same_span_def)

lemma same_span_trans: "same_span a b p q \<Longrightarrow> same_span a b q r \<Longrightarrow> same_span a b p r"
proof -
  assume pq: "same_span a b p q" and qr: "same_span a b q r"
  obtain i j i' j' i2 j2 where p: "p = (i, j)" and q: "q = (i', j')" and r: "r = (i2, j2)" by (metis surj_pair)
  have "a ! (i + t) = b ! (j + t)" if "t < i2 - i" for t
  proof (cases "t < i' - i")
    case True
    then show ?thesis using pq by (auto simp: p q same_span_def)
  next
    case False
    have qr': "\<And>s. s < i2 - i' \<Longrightarrow> a ! (i' + s) = b ! (j' + s)" using qr by (simp add: q r same_span_def)
    have "t - (i' - i) < i2 - i'" using False that pq qr by (auto simp: p q r same_span_def)
    then have "a ! (i' + (t - (i' - i))) = b ! (j' + (t - (i' - i)))" by (rule qr')
    moreover have "i' + (t - (i' - i)) = i + t" "j' + (t - (i' - i)) = j + t" using False pq by (auto simp: p q same_span_def)
    ultimately show ?thesis by (simp only:)
  qed
  then show ?thesis using pq qr by (auto simp: p q r same_span_def)
qed

lemma equal_op_span: "op_ok a b (OpEqual, i1, i2, j1, j2) \<Longrightarrow> same_span a b (i1, j1) (i2, j2)"
  by (auto simp: same_span_def)

text \<open>A prefix and a suffix of an equal code, with the span they leave out.\<close>

lemma equal_op_head:
  assumes "op_ok a b (OpEqual, i1, i2, j1, j2)"
  shows "op_ok a b (OpEqual, i1, min i2 (i1 + n), j1, min j2 (j1 + n)) \<and> same_span a b (min i2 (i1 + n), min j2 (j1 + n)) (i2, j2)"
proof -
  have "a ! (min i2 (i1 + n) + t) = b ! (min j2 (j1 + n) + t)" if "t < i2 - min i2 (i1 + n)" for t
  proof -
    have "a ! (i1 + (n + t)) = b ! (j1 + (n + t))" using assms that by auto
    moreover have "min i2 (i1 + n) = i1 + n" "min j2 (j1 + n) = j1 + n" using assms that by auto
    ultimately show ?thesis by (simp add: add.assoc)
  qed
  then show ?thesis using assms by (auto simp: same_span_def)
qed

lemma equal_op_tail:
  assumes "op_ok a b (OpEqual, i1, i2, j1, j2)"
  shows "op_ok a b (OpEqual, max i1 (i2 - n), i2, max j1 (j2 - n), j2) \<and> same_span a b (i1, j1) (max i1 (i2 - n), max j1 (j2 - n))"
proof -
  have eq: "max i1 (i2 - n) - i1 = max j1 (j2 - n) - j1" using assms by auto
  have "a ! (max i1 (i2 - n) + t) = b ! (max j1 (j2 - n) + t)" if "t < i2 - max i1 (i2 - n)" for t
  proof -
    have eqs: "\<And>s. s < i2 - i1 \<Longrightarrow> a ! (i1 + s) = b ! (j1 + s)" using assms by simp
    have "max i1 (i2 - n) - i1 + t < i2 - i1" using that assms by auto
    from eqs[OF this] have "a ! (i1 + (max i1 (i2 - n) - i1 + t)) = b ! (j1 + (max j1 (j2 - n) - j1 + t))" unfolding eq .
    moreover have "i1 + (max i1 (i2 - n) - i1 + t) = max i1 (i2 - n) + t" "j1 + (max j1 (j2 - n) - j1 + t) = max j1 (j2 - n) + t" by auto
    ultimately show ?thesis by (simp only:)
  qed
  moreover have "i2 - max i1 (i2 - n) = j2 - max j1 (j2 - n)" using assms by (cases "n \<le> i2 - i1") auto
  moreover have "max i1 (i2 - n) \<le> i2" "max j1 (j2 - n) \<le> j2" "i2 \<le> length a" "j2 \<le> length b"
      "i2 - n \<le> length a" "j2 - n \<le> length b" using assms by auto
  moreover have "\<forall>t < max i1 (i2 - n) - i1. a ! (i1 + t) = b ! (j1 + t)" using assms by auto
  ultimately show ?thesis using eq by (simp add: same_span_def)
qed

lemma equal_op_middle:
  assumes "op_ok a b (OpEqual, i1, i2, j1, j2)" and "n + n < i2 - i1"
  shows "same_span a b (min i2 (i1 + n), min j2 (j1 + n)) (max i1 (i2 - n), max j1 (j2 - n))"
proof -
  have eqs: "\<And>s. s < i2 - i1 \<Longrightarrow> a ! (i1 + s) = b ! (j1 + s)" using assms(1) by simp
  have "a ! (i1 + n + t) = b ! (j1 + n + t)" if "t < i2 - n - (i1 + n)" for t
    using eqs[of "n + t"] that by (simp add: add.assoc)
  moreover have "min i2 (i1 + n) = i1 + n" "min j2 (j1 + n) = j1 + n" "max i1 (i2 - n) = i2 - n" "max j1 (j2 - n) = j2 - n"
    using assms by auto
  ultimately show ?thesis using assms by (auto simp: same_span_def)
qed

lemma group_ops_ok:
  "same_span a b p q \<Longrightarrow> script a b q grp r \<Longrightarrow> script a b r ops s \<Longrightarrow> same_span a b s (length a, length b) \<Longrightarrow>
   groups_ok a b p (group_ops n grp ops)"
proof (induction n grp ops arbitrary: p q r rule: group_ops.induct)
  case (1 n grp)
  show ?case
  proof (cases "grp = [] \<or> length grp = 1 \<and> fst (hd grp) = OpEqual")
    case True
    then have "same_span a b q r"
    proof
      assume "grp = []"
      then show ?thesis using "1.prems" by (cases q) (auto simp: same_span_def split: prod.splits)
    next
      assume "length grp = 1 \<and> fst (hd grp) = OpEqual"
      then obtain x where x: "grp = [x]" "fst x = OpEqual" by (auto simp: length_Suc_conv)
      obtain tag i1 i2 j1 j2 where "x = (tag, i1, i2, j1, j2)" by (rule prod_cases5)
      then have "grp = [(OpEqual, i1, i2, j1, j2)]" using x by simp
      then show ?thesis using "1.prems"(2) equal_op_span by (auto simp del: op_ok.simps)
    qed
    then have "same_span a b p (length a, length b)" using "1.prems" by (auto intro: same_span_trans)
    then show ?thesis using True by simp
  next
    case False
    then show ?thesis using "1.prems" by (auto simp del: split_paired_Ex)
  qed
next
  case (2 n grp tag i1 i2 j1 j2 ops)
  have r: "r = (i1, j1)" and ok: "op_ok a b (tag, i1, i2, j1, j2)" and tl_ok: "script a b (i2, j2) ops s"
    using "2.prems"(3) by (auto simp del: op_ok.simps)
  show ?case
  proof (cases "tag = OpEqual \<and> i2 - i1 > n + n")
    case True
    let ?h = "(OpEqual, i1, min i2 (i1 + n), j1, min j2 (j1 + n))" and ?t = "(OpEqual, max i1 (i2 - n), i2, max j1 (j2 - n), j2)"
    have parts: "op_ok a b ?h" "op_ok a b ?t" using equal_op_head[of a b i1 i2 j1 j2 n] equal_op_tail[of a b i1 i2 j1 j2 n] ok True by blast+
    have "script a b q (grp @ [?h]) (min i2 (i1 + n), min j2 (j1 + n))"
      using "2.prems"(2) parts(1) r unfolding script_append by (auto simp del: op_ok.simps)
    moreover have "groups_ok a b (min i2 (i1 + n), min j2 (j1 + n)) (group_ops n [?t] ops)"
      using "2.IH"(1)[of "(min i2 (i1 + n), min j2 (j1 + n))" "(max i1 (i2 - n), max j1 (j2 - n))" "(i2, j2)"] True
        equal_op_middle[of a b i1 i2 j1 j2 n] ok parts(2) tl_ok "2.prems"(4) by (simp del: op_ok.simps)
    ultimately show ?thesis using "2.prems"(1) True by (auto simp del: split_paired_Ex op_ok.simps)
  next
    case False
    have "script a b q (grp @ [(tag, i1, i2, j1, j2)]) (i2, j2)"
      using "2.prems"(2) ok r unfolding script_append by (auto simp del: op_ok.simps)
    with "2.IH"(2)[OF False "2.prems"(1) this tl_ok "2.prems"(4)] False show ?thesis by auto
  qed
qed

lemma trim_first_ok: "script a b p ops s \<Longrightarrow> p \<in> {..length a} \<times> {..length b} \<Longrightarrow> \<exists>q. same_span a b p q \<and> script a b q (trim_first n ops) s"
proof (cases ops)
  case (Cons x ops')
  assume script: "script a b p ops s" and p: "p \<in> {..length a} \<times> {..length b}"
  obtain tag i1 i2 j1 j2 where x: "x = (tag, i1, i2, j1, j2)" by (rule prod_cases5)
  have ok: "p = (i1, j1)" "op_ok a b (tag, i1, i2, j1, j2)" "script a b (i2, j2) ops' s" using script by (auto simp: Cons x simp del: op_ok.simps)
  show ?thesis
  proof (cases "tag = OpEqual")
    case True
    then show ?thesis using ok equal_op_tail[of a b i1 i2 j1 j2 n]
      by (intro exI[of _ "(max i1 (i2 - n), max j1 (j2 - n))"]) (simp add: Cons x del: op_ok.simps)
  next
    case False
    then have "trim_first n ops = ops" by (cases tag) (simp_all add: Cons x)
    then show ?thesis using script p ok(1) same_span_refl[of i1 a j1 b] by auto
  qed
qed (use same_span_refl in fastforce)

lemma trim_last_ok: "script a b p ops s \<Longrightarrow> s \<in> {..length a} \<times> {..length b} \<Longrightarrow> \<exists>q. same_span a b q s \<and> script a b p (trim_last n ops) q"
proof -
  assume script: "script a b p ops s" and s: "s \<in> {..length a} \<times> {..length b}"
  have keep: ?thesis if "trim_last n ops = ops" using that script s same_span_refl by fastforce
  show ?thesis
  proof (cases ops rule: rev_cases)
    case (snoc ops' x)
    obtain tag i1 i2 j1 j2 where x: "x = (tag, i1, i2, j1, j2)" by (rule prod_cases5)
    show ?thesis
    proof (cases "tag = OpEqual")
      case True
      then have "script a b p ops' (i1, j1)" "op_ok a b (OpEqual, i1, i2, j1, j2)" "s = (i2, j2)"
        using script by (auto simp: snoc x script_append simp del: op_ok.simps)
      then show ?thesis using equal_op_head[of a b i1 i2 j1 j2 n] True
        by (intro exI[of _ "(min i2 (i1 + n), min j2 (j1 + n))"]) (auto simp: trim_last_def snoc x script_append simp del: op_ok.simps)
    next
      case False
      then show ?thesis by (intro keep) (cases tag; simp add: trim_last_def snoc x)
    qed
  qed (intro keep, simp add: trim_last_def)
qed

lemma grouped_opcodes_ok: "groups_ok a b (0, 0) (get_grouped_opcodes n a b)"
proof (cases "get_opcodes a b = []")
  case True
  then have "length a = 0" "length b = 0" using get_opcodes_script[of a b] by auto
  moreover have "get_grouped_opcodes n a b = []" using True by (cases n) (auto simp: get_grouped_opcodes_def trim_last_def)
  ultimately show ?thesis by (simp add: same_span_def)
next
  case False
  obtain q where q: "same_span a b (0, 0) q" "script a b q (trim_first n (get_opcodes a b)) (length a, length b)"
    using trim_first_ok[OF get_opcodes_script, of a b n] by auto
  obtain s where s: "same_span a b s (length a, length b)" "script a b q (trim_last n (trim_first n (get_opcodes a b))) s"
    using trim_last_ok[OF q(2), of n] by auto
  have "script a b q [] q" by simp
  from group_ops_ok[OF q(1) this s(2,1)] show ?thesis using False by (simp add: get_grouped_opcodes_def)
qed

section \<open>The unified format\<close>

definition range_text :: "nat \<Rightarrow> nat \<Rightarrow> string" where
  "range_text start stop =
     (if stop - start = 1 then show_nat (start + 1)
      else show_nat (if stop - start = 0 then start else start + 1) @ '','' @ show_nat (stop - start))"

definition op_lines :: "string list \<Rightarrow> string list \<Rightarrow> opcode \<Rightarrow> string list" where
  "op_lines a b = (\<lambda>(tag, i1, i2, j1, j2).
     case tag of
       OpEqual \<Rightarrow> map (Cons (CHR '' '')) (slice a i1 i2)
     | OpReplace \<Rightarrow> map (Cons (CHR ''-'')) (slice a i1 i2) @ map (Cons (CHR ''+'')) (slice b j1 j2)
     | OpDelete \<Rightarrow> map (Cons (CHR ''-'')) (slice a i1 i2)
     | OpInsert \<Rightarrow> map (Cons (CHR ''+'')) (slice b j1 j2))"

fun group_ends :: "opcode list \<Rightarrow> nat \<times> nat \<times> nat \<times> nat" where
  "group_ends ops = (case (hd ops, last ops) of ((_, i1, _, j1, _), (_, _, i2, _, j2)) \<Rightarrow> (i1, i2, j1, j2))"

definition hunk_header :: "opcode list \<Rightarrow> string" where
  "hunk_header ops = (case group_ends ops of (i1, i2, j1, j2) \<Rightarrow>
     ''@@ -'' @ range_text i1 i2 @ '' +'' @ range_text j1 j2 @ '' @@'')"

definition group_lines :: "string list \<Rightarrow> string list \<Rightarrow> opcode list \<Rightarrow> string list" where
  "group_lines a b ops = (hunk_header ops @ [newline]) # concat (map (op_lines a b) ops)"

definition unified_diff :: "string list \<Rightarrow> string list \<Rightarrow> string \<Rightarrow> string \<Rightarrow> nat \<Rightarrow> string list" where
  "unified_diff a b fromfile tofile n =
     (let groups = get_grouped_opcodes n a b in
      if groups = [] then []
      else [''--- '' @ fromfile @ [newline], ''+++ '' @ tofile @ [newline]] @ concat (map (group_lines a b) groups))"

end
