(* ===== verification/Unified_Diff.thy ===== *)
theory Unified_Diff
  imports Py_Difflib
begin

text \<open>
  The unified diff as the only patch representation, \<open>src/fleet/rewrite/apply.py\<close>: construction over the model of \<open>difflib\<close>, the
  parser as a fold over lines with its nested flushes, application in memory without fuzz, the check of the written paths, and
  \<open>apply_patch\<close> over Git as a parameter. Error texts are kept as constructors. The parser sees a file only where its section has header lines; a section that only renames is not seen. \<open>PurePosixPath\<close> is its tuple of parts.
\<close>

section \<open>Strings\<close>

definition starts_with :: "string \<Rightarrow> string \<Rightarrow> bool" where
  "starts_with p s \<longleftrightarrow> take (length p) s = p"

definition ends_with :: "string \<Rightarrow> string \<Rightarrow> bool" where
  "ends_with p s \<longleftrightarrow> length p \<le> length s \<and> drop (length s - length p) s = p"

definition NO_NEWLINE_MARKER :: string where
  "NO_NEWLINE_MARKER = [CHR 0x5C] @ '' No newline at end of file''"

section \<open>Data\<close>

record hunk =
  hk_old_start :: nat
  hk_old_len :: nat
  hk_new_start :: nat
  hk_new_len :: nat
  hk_lines :: "string list"

record file_diff =
  fd_old_path :: string
  fd_new_path :: string
  fd_hunks :: "hunk list"

datatype diff_error =
    NoFileHeaders | PlusHeaderWithoutMinus | UnparseableHunkHeader | HunkBeforeFileHeader
  | NotSingleFile nat | HunkOverlaps nat | HunkPastEnd nat | HunkMismatch nat

definition old_span :: "hunk \<Rightarrow> nat \<times> nat" where
  "old_span h = (if hk_old_len h = 0 then (hk_old_start h, hk_old_start h) else (hk_old_start h - 1, hk_old_start h - 1 + hk_old_len h))"

definition dev_null :: string where
  "dev_null = ''/dev/null''"

definition fd_path :: "file_diff \<Rightarrow> string" where
  "fd_path f = (if fd_new_path f \<noteq> dev_null then fd_new_path f else fd_old_path f)"

definition strip_prefix :: "string \<Rightarrow> string" where
  "strip_prefix header =
     (let path = strip (hd (split_on (\<lambda>c. c = CHR 0x09) header)) in
      if path = dev_null then path
      else if length path > 2 \<and> path ! 1 = CHR ''/'' \<and> path ! 0 \<in> set ''abiwco'' then drop 2 path
      else path)"

section \<open>Construction\<close>

definition emit_line :: "string \<Rightarrow> string list" where
  "emit_line l =
     (if ends_with [newline] l then [l]
      else (l @ [newline])
           # (if l \<noteq> [] \<and> \<not> starts_with ''---'' l \<and> \<not> starts_with ''+++'' l \<and> \<not> starts_with ''@@'' l
              then [NO_NEWLINE_MARKER @ [newline]] else []))"

definition make_unified_diff :: "string \<Rightarrow> string \<Rightarrow> string \<Rightarrow> nat \<Rightarrow> string" where
  "make_unified_diff path txt_before txt_after context =
     (if txt_before = txt_after then []
      else concat (concat (map emit_line
             (unified_diff (splitlines_keep txt_before) (splitlines_keep txt_after) (''a/'' @ path) (''b/'' @ path) context))))"

section \<open>Parsing\<close>

record parse_state =
  ps_files :: "file_diff list"
  ps_old :: "string option"
  ps_new :: "string option"
  ps_hunks :: "hunk list"
  ps_current :: "(hunk \<times> string list) option"

definition parse_start :: parse_state where
  "parse_start = \<lparr>ps_files = [], ps_old = None, ps_new = None, ps_hunks = [], ps_current = None\<rparr>"

definition flush_hunk :: "parse_state \<Rightarrow> parse_state" where
  "flush_hunk s =
     (case ps_current s of
        None \<Rightarrow> s
      | Some (header, lines) \<Rightarrow> s\<lparr>ps_hunks := ps_hunks s @ [header\<lparr>hk_lines := lines\<rparr>], ps_current := None\<rparr>)"

definition flush_file :: "parse_state \<Rightarrow> parse_state" where
  "flush_file s0 =
     (let s = flush_hunk s0 in
      s\<lparr>ps_files := (case (ps_old s, ps_new s) of
           (Some old, Some new) \<Rightarrow> ps_files s @ [\<lparr>fd_old_path = old, fd_new_path = new, fd_hunks = ps_hunks s\<rparr>]
         | _ \<Rightarrow> ps_files s),
        ps_old := None, ps_new := None, ps_hunks := []\<rparr>)"

text \<open>One range of a hunk header, \<open>(\d+)(?:,(\d+))?\<close>, with what follows it.\<close>

definition parse_range :: "string \<Rightarrow> (nat \<times> nat \<times> string) option" where
  "parse_range s =
     (let ds = takeWhile is_digit s; rest = dropWhile is_digit s in
      if ds = [] then None
      else if starts_with '','' rest \<and> takeWhile is_digit (tl rest) \<noteq> []
      then Some (read_nat ds, read_nat (takeWhile is_digit (tl rest)), dropWhile is_digit (tl rest))
      else Some (read_nat ds, 1, rest))"

definition parse_header :: "string \<Rightarrow> hunk option" where
  "parse_header raw =
     (if \<not> starts_with ''@@ -'' raw then None
      else case parse_range (drop 4 raw) of
        None \<Rightarrow> None
      | Some (os, ol, rest) \<Rightarrow>
          if \<not> starts_with '' +'' rest then None
          else case parse_range (drop 2 rest) of
            None \<Rightarrow> None
          | Some (ns, nl, rest2) \<Rightarrow>
              if starts_with '' @@'' rest2
              then Some \<lparr>hk_old_start = os, hk_old_len = ol, hk_new_start = ns, hk_new_len = nl, hk_lines = []\<rparr> else None)"

definition body_line :: "string \<Rightarrow> bool" where
  "body_line raw \<longleftrightarrow> raw = [] \<or> hd raw \<in> {CHR '' '', CHR ''+'', CHR ''-'', CHR 0x5C}"

definition parse_line :: "string \<Rightarrow> parse_state \<Rightarrow> diff_error + parse_state" where
  "parse_line raw s =
     (if starts_with ''--- '' raw then Inr ((flush_file s)\<lparr>ps_old := Some (strip_prefix (drop 4 raw))\<rparr>)
      else if starts_with ''+++ '' raw then
        (if ps_old s = None then Inl PlusHeaderWithoutMinus else Inr (s\<lparr>ps_new := Some (strip_prefix (drop 4 raw))\<rparr>))
      else if starts_with ''@@'' raw then
        (case parse_header raw of
           None \<Rightarrow> Inl UnparseableHunkHeader
         | Some header \<Rightarrow>
             if ps_new s = None then Inl HunkBeforeFileHeader
             else Inr ((flush_hunk s)\<lparr>ps_current := Some (header, [])\<rparr>))
      else case ps_current s of
        Some (header, lines) \<Rightarrow>
          if body_line raw then Inr (s\<lparr>ps_current := Some (header, lines @ [if raw = [] then '' '' else raw])\<rparr>) else Inr s
      | None \<Rightarrow> Inr s)"

fun parse_lines :: "string list \<Rightarrow> parse_state \<Rightarrow> diff_error + parse_state" where
  "parse_lines [] s = Inr s"
| "parse_lines (raw # raws) s = rbind (parse_line raw s) (parse_lines raws)"

definition parse_unified_diff :: "string \<Rightarrow> diff_error + file_diff list" where
  "parse_unified_diff diff =
     rbind (parse_lines (splitlines diff) parse_start)
       (\<lambda>s. let files = ps_files (flush_file s) in if files = [] then Inl NoFileHeaders else Inr files)"

section \<open>Application in memory\<close>

fun hunk_payload :: "string list \<Rightarrow> string list \<times> string list" where
  "hunk_payload [] = ([], [])"
| "hunk_payload (l # ls) =
     (let (pre, post) = hunk_payload ls;
          no_newline = ls \<noteq> [] \<and> starts_with [CHR 0x5C] (hd ls);
          body = tl l @ (if no_newline then [] else [newline]) in
      if starts_with [CHR 0x5C] l then (pre, post)
      else if starts_with '' '' l then (body # pre, body # post)
      else if starts_with ''-'' l then (body # pre, post)
      else if starts_with ''+'' l then (pre, body # post)
      else (pre, post))"

text \<open>The line a hunk starts at, counted from zero; minus one for a header that claims lines before the first.\<close>

definition hunk_start :: "hunk \<Rightarrow> int" where
  "hunk_start h = (if hk_old_len h \<noteq> 0 then int (hk_old_start h) - 1 else int (hk_old_start h))"

fun apply_hunks :: "string list \<Rightarrow> nat \<Rightarrow> hunk list \<Rightarrow> diff_error + string list" where
  "apply_hunks lines cursor [] = Inr (drop cursor lines)"
| "apply_hunks lines cursor (h # hs) =
     (let (pre, post) = hunk_payload (hk_lines h); start = hunk_start h in
      if start < int cursor then Inl (HunkOverlaps (hk_old_start h))
      else if start + int (length pre) > int (length lines) then Inl (HunkPastEnd (hk_old_start h))
      else if slice lines (nat start) (nat start + length pre) \<noteq> pre then Inl (HunkMismatch (hk_old_start h))
      else rbind (apply_hunks lines (nat start + length pre) hs) (\<lambda>rest. Inr (slice lines cursor (nat start) @ post @ rest)))"

definition apply_in_memory :: "string \<Rightarrow> string \<Rightarrow> diff_error + string" where
  "apply_in_memory txt diff =
     rbind (parse_unified_diff diff)
       (\<lambda>files. case files of
          [f] \<Rightarrow> rbind (apply_hunks (splitlines_keep txt) 0 (sort_key hk_old_start (fd_hunks f))) (\<lambda>out. Inr (concat out))
        | _ \<Rightarrow> Inl (NotSingleFile (length files)))"

definition diff_paths :: "string \<Rightarrow> diff_error + string list" where
  "diff_paths diff = rbind (parse_unified_diff diff) (\<lambda>files. Inr (map fd_path files))"

section \<open>The check of a diff\<close>

definition path_root :: "string \<Rightarrow> string" where
  "path_root p = (let slashes = takeWhile (\<lambda>c. c = CHR ''/'') p in if length slashes = 2 then slashes else take 1 slashes)"

definition path_parts :: "string \<Rightarrow> string list" where
  "path_parts p = (if path_root p = [] then [] else [path_root p]) @ filter (\<lambda>w. w \<noteq> [] \<and> w \<noteq> ''.'') (segments p)"

definition escapes :: "string \<Rightarrow> string \<Rightarrow> bool" where
  "escapes path subtree \<longleftrightarrow>
     path_root path \<noteq> [] \<or> ''..'' \<in> set (path_parts path)
     \<or> subtree \<noteq> [] \<and> take (length (path_parts subtree)) (path_parts path) \<noteq> path_parts subtree"

definition utf8_length :: "string \<Rightarrow> nat" where
  "utf8_length s = sum_list (map (\<lambda>c. if (of_char c :: nat) < 128 then 1 else 2) s)"

datatype refusal =
    TooLarge nat | NotParseable diff_error | NamesNoFiles | DeclaredElsewhere string "string list" | PathsEscape "string list"
  | CheckRefused | ApplyFailed | ProbeFailed

definition check_diff :: "string \<Rightarrow> string \<Rightarrow> nat option \<Rightarrow> bool \<Rightarrow> string option \<Rightarrow> refusal option" where
  "check_diff diff dest_subtree max_bytes allow_outside declared_path =
     (if max_bytes \<noteq> None \<and> utf8_length diff > the max_bytes then Some (TooLarge (the max_bytes))
      else case diff_paths diff of
        Inl e \<Rightarrow> Some (NotParseable e)
      | Inr paths \<Rightarrow>
          if paths = [] then Some NamesNoFiles
          else if declared_path \<noteq> None \<and> the declared_path \<notin> set paths then Some (DeclaredElsewhere (the declared_path) paths)
          else if allow_outside then None
          else
            let outside = sort (filter (\<lambda>p. escapes p dest_subtree) paths) in
            if outside \<noteq> [] then Some (PathsEscape outside) else None)"

definition validate_diff :: "string \<Rightarrow> string \<Rightarrow> bool" where
  "validate_diff diff dest_subtree \<longleftrightarrow> check_diff diff dest_subtree None False None = None"

section \<open>Writing\<close>

definition terminated :: "string \<Rightarrow> string" where
  "terminated diff = (if ends_with [newline] diff then diff else diff @ [newline])"

record file_patch =
  fp_path :: string
  fp_diff :: string
  fp_parse_probe_ok :: bool
  fp_rule_id :: "string option"

text \<open>A \<open>FilePatch\<close> strips the white space at both ends of its texts when it is built.\<close>

definition new_file_patch :: "string \<Rightarrow> string \<Rightarrow> bool \<Rightarrow> string option \<Rightarrow> file_patch" where
  "new_file_patch path diff probe_ok rule_id =
     \<lparr>fp_path = model_strip path, fp_diff = model_strip diff, fp_parse_probe_ok = probe_ok, fp_rule_id = map_option model_strip rule_id\<rparr>"

record apply_result =
  ar_ok :: bool
  ar_path :: string
  ar_reason :: "refusal option"
  ar_parse_probe_ok :: bool
  ar_already_applied :: bool

text \<open>
  Git on a worktree. A check, forward or in reverse, answers whether a patch applies, or settles nothing (None: the call was never started or was
  killed at its deadline, and \<open>GitCommandError\<close> is raised). Applying a patch says what is left and whether the call succeeded: a call that was killed may
  have written.
\<close>

record 'w git =
  git_check :: "'w \<Rightarrow> bool \<Rightarrow> string \<Rightarrow> bool option"
  git_apply :: "'w \<Rightarrow> string \<Rightarrow> 'w \<times> bool"

definition refused :: "string \<Rightarrow> refusal \<Rightarrow> apply_result" where
  "refused path reason = \<lparr>ar_ok = False, ar_path = path, ar_reason = Some reason, ar_parse_probe_ok = False, ar_already_applied = False\<rparr>"

text \<open>The writer. Without a result, the exception of a check has left it; nothing was written then.\<close>

definition apply_patch ::
  "'w git \<Rightarrow> ('w \<Rightarrow> string \<Rightarrow> bool) option \<Rightarrow> file_patch \<Rightarrow> string \<Rightarrow> nat option \<Rightarrow> bool \<Rightarrow> 'w \<Rightarrow> 'w \<times> apply_result option" where
  "apply_patch git probe patch dest_subtree max_bytes allow_outside w =
     (let path = fp_path patch; file = terminated (fp_diff patch) in
      case check_diff (fp_diff patch) dest_subtree max_bytes allow_outside (Some path) of
        Some reason \<Rightarrow> (w, Some (refused path reason))
      | None \<Rightarrow>
          (case git_check git w True file of
            None \<Rightarrow> (w, None)
          | Some True \<Rightarrow>
              (w, Some \<lparr>ar_ok = True, ar_path = path, ar_reason = None, ar_parse_probe_ok = False, ar_already_applied = True\<rparr>)
          | Some False \<Rightarrow>
              (case git_check git w False file of
                None \<Rightarrow> (w, None)
              | Some False \<Rightarrow> (w, Some (refused path CheckRefused))
              | Some True \<Rightarrow>
                  (case git_apply git w file of
                    (w', False) \<Rightarrow> (w', Some (refused path ApplyFailed))
                  | (w', True) \<Rightarrow>
                      if (case probe of None \<Rightarrow> True | Some p \<Rightarrow> p w' path)
                      then (w', Some \<lparr>ar_ok = True, ar_path = path, ar_reason = None, ar_parse_probe_ok = True, ar_already_applied = False\<rparr>)
                      else (w', Some (refused path ProbeFailed))))))"

end
