(* ===== verification/Rewrite_Pipeline.thy ===== *)
theory Rewrite_Pipeline
  imports Unified_Diff Inference
begin

text \<open>
  The deterministic rewrite pipeline: rules and the engine registry of \<open>src/fleet/rewrite/rules.py\<close>, and \<open>RewritePipeline\<close> of
  \<open>src/fleet/rewrite/pipeline.py\<close>, which runs the ordered rules over one buffer, tracks which lines of the start of the pass each
  rule rewrote, and repeats to a fixpoint. An engine is a function from rule, path, text and parameters to a patch, or it raises. The rule
  files come parsed. Fingerprints and log fields are left out.
\<close>

section \<open>Rules\<close>

record rewrite_rule =
  rr_id :: string
  rr_engine :: string
  rr_languages :: "string list"
  rr_applies_to :: "string list"
  rr_inline :: bool \<comment> \<open>an inline rule is given\<close>
  rr_rule_file :: "string option"
  rr_params :: "(string, string) dict"
  rr_priority :: int

definition exactly_one_rule_source :: "rewrite_rule \<Rightarrow> bool" where
  "exactly_one_rule_source r \<longleftrightarrow> rr_inline r \<noteq> (rr_rule_file r \<noteq> None)"

definition rule_sort_key :: "rewrite_rule \<Rightarrow> int \<times> string" where
  "rule_sort_key r = (rr_priority r, rr_id r)"

definition LANGUAGE_BY_SUFFIX :: "(string, string) dict" where
  "LANGUAGE_BY_SUFFIX =
     [(''.c'', ''c''), (''.cc'', ''cpp''), (''.cpp'', ''cpp''), (''.cs'', ''csharp''), (''.go'', ''go''), (''.h'', ''c''), (''.hpp'', ''cpp''),
      (''.java'', ''java''), (''.js'', ''javascript''), (''.jsx'', ''jsx''), (''.kt'', ''kotlin''), (''.kts'', ''kotlin''),
      (''.mjs'', ''javascript''), (''.php'', ''php''), (''.py'', ''python''), (''.pyi'', ''python''), (''.rb'', ''ruby''), (''.rs'', ''rust''),
      (''.scala'', ''scala''), (''.swift'', ''swift''), (''.ts'', ''typescript''), (''.tsx'', ''tsx'')]"

text \<open>\<open>PurePosixPath(path).suffix\<close>: from the last dot of the name, unless it begins or ends the name.\<close>

definition path_suffix :: "string \<Rightarrow> string" where
  "path_suffix path =
     (let names = filter (\<lambda>w. w \<noteq> [] \<and> w \<noteq> ''.'') (segments path);
          name = (if names = [] then [] else last names);
          ext = rev (takeWhile (\<lambda>c. c \<noteq> CHR ''.'') (rev name)) in
      if ext \<noteq> [] \<and> length ext + 1 < length name then CHR ''.'' # ext else [])"

definition language_for_path :: "string \<Rightarrow> string option" where
  "language_for_path path = dict_get LANGUAGE_BY_SUFFIX (lower (path_suffix path))"

text \<open>The rests of a string after any number of directories, \<open>(?:[^/]+/)*\<close>.\<close>

fun after_segment :: "string \<Rightarrow> string option" where
  "after_segment [] = None"
| "after_segment (c # cs) = (if c = CHR ''/'' then Some cs else after_segment cs)"

lemma after_segment_shorter: "after_segment s = Some r \<Longrightarrow> length r < length s"
  by (induction s) (auto split: if_splits)

function dir_rests :: "string \<Rightarrow> string list" where
  "dir_rests s = s # (if s \<noteq> [] \<and> hd s \<noteq> CHR ''/'' then (case after_segment s of None \<Rightarrow> [] | Some r \<Rightarrow> dir_rests r) else [])"
  by pat_completeness auto
termination by (relation "measure length") (auto dest: after_segment_shorter)

declare dir_rests.simps [simp del]

fun rule_glob_match :: "glob_atom list \<Rightarrow> string \<Rightarrow> bool" where
  "rule_glob_match [] s \<longleftrightarrow> s = []"
| "rule_glob_match (AnyDirs # as) s \<longleftrightarrow> list_ex (rule_glob_match as) (dir_rests s)"
| "rule_glob_match (AnyRun # as) s \<longleftrightarrow> list_ex (rule_glob_match as) (rests (\<lambda>c. c \<noteq> newline) s)"
| "rule_glob_match (SegmentRun # as) s \<longleftrightarrow> list_ex (rule_glob_match as) (rests (\<lambda>c. c \<noteq> CHR ''/'') s)"
| "rule_glob_match (OneChar # as) s \<longleftrightarrow> s \<noteq> [] \<and> hd s \<noteq> CHR ''/'' \<and> rule_glob_match as (tl s)"
| "rule_glob_match (Literally c # as) s \<longleftrightarrow> s \<noteq> [] \<and> hd s = c \<and> rule_glob_match as (tl s)"

definition rule_matches_path :: "rewrite_rule \<Rightarrow> string \<Rightarrow> bool" where
  "rule_matches_path r path \<longleftrightarrow>
     (case language_for_path path of
        None \<Rightarrow> False
      | Some lang \<Rightarrow> lang \<in> set (rr_languages r) \<and> list_ex (\<lambda>g. rule_glob_match (glob_atoms g) path) (rr_applies_to r))"

datatype pipeline_error =
    InvalidRule string | DuplicateRule string | DuplicateEngine string | UnresolvedEngine string | BadMaxPasses
  | EngineRaised string | PatchForOtherPath string | MultiFileDiff nat | MalformedDiff diff_error | DiffDoesNotApply diff_error
  | Desynchronised nat nat | PythonError

text \<open>\<open>load_rules\<close> over the entries of the rule files, in sorted order of the files.\<close>

fun collect_rules :: "string list \<Rightarrow> rewrite_rule list \<Rightarrow> pipeline_error + rewrite_rule list" where
  "collect_rules seen [] = Inr []"
| "collect_rules seen (r # rs) =
     (if \<not> exactly_one_rule_source r then Inl (InvalidRule (rr_id r))
      else if rr_id r \<in> set seen then Inl (DuplicateRule (rr_id r))
      else rbind (collect_rules (rr_id r # seen) rs) (\<lambda>out. Inr (r # out)))"

definition load_rules :: "rewrite_rule list \<Rightarrow> pipeline_error + rewrite_rule list" where
  "load_rules entries = rbind (collect_rules [] entries) (\<lambda>rs. Inr (sort_key rule_sort_key rs))"

type_synonym engine_apply = "rewrite_rule \<Rightarrow> string \<Rightarrow> string \<Rightarrow> (string, string) dict \<Rightarrow> string + file_patch option"

type_synonym engine_registry = "(string, engine_apply) dict"

fun new_registry :: "(string \<times> engine_apply) list \<Rightarrow> engine_registry \<Rightarrow> pipeline_error + engine_registry" where
  "new_registry [] table = Inr table"
| "new_registry ((name, run) # rs) table =
     (if dict_get table name \<noteq> None then Inl (DuplicateEngine name) else new_registry rs (dict_set table name run))"

definition require :: "engine_registry \<Rightarrow> string \<Rightarrow> pipeline_error + engine_apply" where
  "require reg name = (case dict_get reg name of None \<Rightarrow> Inl (UnresolvedEngine name) | Some run \<Rightarrow> Inr run)"

definition validate_rules :: "engine_registry \<Rightarrow> rewrite_rule list \<Rightarrow> pipeline_error + unit" where
  "validate_rules reg rules = rbind (traverse (\<lambda>r. require reg (rr_engine r)) rules) (\<lambda>_. Inr ())"

section \<open>Spans\<close>

type_synonym span = "int \<times> int"
type_synonym edit = "int \<times> int \<times> int"

fun edits_loop :: "string list \<Rightarrow> int \<Rightarrow> edit option \<Rightarrow> edit list" where
  "edits_loop [] old run = (case run of None \<Rightarrow> [] | Some e \<Rightarrow> [e])"
| "edits_loop (l # ls) old run =
     (let tag = take 1 l in
      if tag = [CHR 0x5C] then edits_loop ls old run
      else if tag = '' '' then (case run of None \<Rightarrow> [] | Some e \<Rightarrow> [e]) @ edits_loop ls (old + 1) None
      else
        let (start, stop, added) = (case run of None \<Rightarrow> (old, old, 0) | Some e \<Rightarrow> e) in
        if tag = ''-'' then edits_loop ls (old + 1) (Some (start, old + 1, added))
        else if tag = ''+'' then edits_loop ls old (Some (start, stop, added + 1))
        else edits_loop ls old (Some (start, stop, added)))"

definition edits_of :: "hunk \<Rightarrow> edit list" where
  "edits_of h = edits_loop (hk_lines h) (hunk_start h) None"

text \<open>Python's slices and subscripts, which count from the end below zero.\<close>

definition py_pos :: "'a list \<Rightarrow> int \<Rightarrow> nat" where
  "py_pos xs i = (if i < 0 then nat (int (length xs) + i) else min (nat i) (length xs))"

definition py_slice :: "'a list \<Rightarrow> int \<Rightarrow> int \<Rightarrow> 'a list" where
  "py_slice xs i j = slice xs (py_pos xs i) (py_pos xs j)"

definition py_nth :: "'a list \<Rightarrow> int \<Rightarrow> 'a option" where
  "py_nth xs i =
     (let k = (if i < 0 then int (length xs) + i else i) in if 0 \<le> k \<and> k < int (length xs) then Some (xs ! nat k) else None)"

definition origin_span :: "span list \<Rightarrow> int \<Rightarrow> int \<Rightarrow> pipeline_error + span" where
  "origin_span origin start stop =
     (if stop > start then
        (let window = py_slice origin start stop in
         if window = [] then Inl PythonError else Inr (Min (fst ` set window), Max (snd ` set window)))
      else if start < int (length origin) then
        (case py_nth origin start of None \<Rightarrow> Inl PythonError | Some s \<Rightarrow> Inr (fst s, fst s))
      else if origin \<noteq> [] then Inr (snd (last origin), snd (last origin))
      else Inr (0, 0))"

definition overlap :: "span \<Rightarrow> span \<Rightarrow> bool" where
  "overlap a b =
     (let a_empty = (fst a = snd a); b_empty = (fst b = snd b) in
      if a_empty \<and> b_empty then fst a = fst b
      else if a_empty then fst b \<le> fst a \<and> fst a < snd b
      else if b_empty then fst a \<le> fst b \<and> fst b < snd a
      else fst a < snd b \<and> fst b < snd a)"

definition claims_of :: "string \<Rightarrow> span list \<Rightarrow> pipeline_error + (edit list \<times> span list)" where
  "claims_of diff origin =
     (case parse_unified_diff diff of
        Inl e \<Rightarrow> Inl (MalformedDiff e)
      | Inr [f] \<Rightarrow>
          let edits = sort (concat (map edits_of (sort_key hk_old_start (fd_hunks f)))) in
          rbind (traverse (\<lambda>(start, stop, _). origin_span origin start stop) edits) (\<lambda>spans. Inr (edits, spans))
      | Inr files \<Rightarrow> Inl (MultiFileDiff (length files)))"

fun remap_loop :: "span list \<Rightarrow> int \<Rightarrow> (edit \<times> span) list \<Rightarrow> span list" where
  "remap_loop origin cursor [] = drop (py_pos origin cursor) origin"
| "remap_loop origin cursor (((start, stop, added), sp) # rest) =
     py_slice origin cursor start @ replicate (nat added) sp @ remap_loop origin stop rest"

definition remap :: "span list \<Rightarrow> edit list \<Rightarrow> span list \<Rightarrow> span list" where
  "remap origin edits spans = remap_loop origin 0 (zip edits spans)"

section \<open>One pass\<close>

record pass_state =
  pt_buffer :: string
  pt_origin :: "span list"
  pt_claims :: "(string \<times> span) list"
  pt_fired :: "string list"

record conflict =
  cf_first :: string
  cf_second :: string
  cf_span :: span

record pass_result =
  pr_text :: string
  pr_rule_ids :: "string list"
  pr_conflict :: "conflict option"

definition find_conflict :: "(string \<times> span) list \<Rightarrow> string \<Rightarrow> span list \<Rightarrow> conflict option" where
  "find_conflict claims rule_id spans =
     (case concat (map (\<lambda>(other_id, other). map (\<lambda>sp. (other_id, other, sp)) (filter (\<lambda>sp. overlap sp other) spans)) claims) of
        [] \<Rightarrow> None
      | (other_id, other, sp) # _ \<Rightarrow>
          Some \<lparr>cf_first = other_id, cf_second = rule_id, cf_span = (min (fst sp) (fst other), max (snd sp) (snd other))\<rparr>)"

definition run_rule ::
  "engine_registry \<Rightarrow> string \<Rightarrow> (string, string) dict \<Rightarrow> rewrite_rule \<Rightarrow> pass_state \<Rightarrow> pipeline_error + (conflict option \<times> pass_state)" where
  "run_rule reg path params r st =
     rbind (require reg (rr_engine r)) (\<lambda>run.
     case run r path (pt_buffer st) (dict_update params (rr_params r)) of
       Inl e \<Rightarrow> Inl (EngineRaised e)
     | Inr None \<Rightarrow> Inr (None, st)
     | Inr (Some patch) \<Rightarrow>
         if fp_diff patch = [] then Inr (None, st)
         else if fp_path patch \<noteq> path then Inl (PatchForOtherPath (fp_path patch))
         else
           rbind (claims_of (fp_diff patch) (pt_origin st)) (\<lambda>(edits, spans).
           case find_conflict (pt_claims st) (rr_id r) spans of
             Some c \<Rightarrow> Inr (Some c, st)
           | None \<Rightarrow>
               (case apply_in_memory (pt_buffer st) (fp_diff patch) of
                  Inl e \<Rightarrow> Inl (DiffDoesNotApply e)
                | Inr buffer \<Rightarrow>
                    let origin = remap (pt_origin st) edits spans; expected = length (splitlines_keep buffer) in
                    if length origin \<noteq> expected then Inl (Desynchronised (length origin) expected)
                    else Inr (None, \<lparr>pt_buffer = buffer, pt_origin = origin,
                                     pt_claims = pt_claims st @ map (Pair (rr_id r)) spans, pt_fired = pt_fired st @ [rr_id r]\<rparr>))))"

fun run_rules ::
  "engine_registry \<Rightarrow> string \<Rightarrow> (string, string) dict \<Rightarrow> rewrite_rule list \<Rightarrow> pass_state \<Rightarrow> pipeline_error + pass_result" where
  "run_rules reg path params [] st = Inr \<lparr>pr_text = pt_buffer st, pr_rule_ids = pt_fired st, pr_conflict = None\<rparr>"
| "run_rules reg path params (r # rs) st =
     rbind (run_rule reg path params r st) (\<lambda>(c, st').
       case c of
         Some _ \<Rightarrow> Inr \<lparr>pr_text = pt_buffer st', pr_rule_ids = [], pr_conflict = c\<rparr>
       | None \<Rightarrow> run_rules reg path params rs st')"

definition pass_start :: "string \<Rightarrow> pass_state" where
  "pass_start buffer =
     \<lparr>pt_buffer = buffer, pt_origin = map (\<lambda>i. (int i, int i + 1)) [0..<length (splitlines_keep buffer)], pt_claims = [], pt_fired = []\<rparr>"

section \<open>The pipeline\<close>

record pipeline =
  pl_rules :: "rewrite_rule list"
  pl_registry :: engine_registry
  pl_max_passes :: int
  pl_params :: "(string, string) dict"
  pl_probe :: "(string \<Rightarrow> string \<Rightarrow> bool) option"

definition new_pipeline ::
  "rewrite_rule list \<Rightarrow> engine_registry \<Rightarrow> int \<Rightarrow> (string, string) dict \<Rightarrow> (string \<Rightarrow> string \<Rightarrow> bool) option \<Rightarrow> pipeline_error + pipeline" where
  "new_pipeline rules reg max_passes params probe =
     (if max_passes < 1 then Inl BadMaxPasses
      else
        let ordered = sort_key rule_sort_key rules in
        rbind (validate_rules reg ordered) (\<lambda>_. Inr
          \<lparr>pl_rules = ordered, pl_registry = reg, pl_max_passes = max_passes, pl_params = params, pl_probe = probe\<rparr>))"

definition rules_for :: "pipeline \<Rightarrow> string \<Rightarrow> rewrite_rule list" where
  "rules_for p path = filter (\<lambda>r. rule_matches_path r path) (pl_rules p)"

definition run_pass :: "pipeline \<Rightarrow> string \<Rightarrow> string \<Rightarrow> (string, string) dict \<Rightarrow> pipeline_error + pass_result" where
  "run_pass p path buffer params = run_rules (pl_registry p) path params (rules_for p path) (pass_start buffer)"

datatype rewrite_finding =
    RuleConflict string string string span
  | RuleOscillation string int "string list"

record rewrite_outcome =
  ro_path :: string
  ro_text :: string
  ro_patch :: "file_patch option"
  ro_findings :: "rewrite_finding list"
  ro_applied_rule_ids :: "string list"
  ro_passes :: nat
  ro_advance_ladder :: bool

definition conflict_outcome :: "string \<Rightarrow> string \<Rightarrow> conflict \<Rightarrow> nat \<Rightarrow> rewrite_outcome" where
  "conflict_outcome path source c passes =
     \<lparr>ro_path = path, ro_text = source, ro_patch = None, ro_findings = [RuleConflict path (cf_first c) (cf_second c) (cf_span c)],
      ro_applied_rule_ids = [], ro_passes = passes, ro_advance_ladder = False\<rparr>"

definition finish :: "pipeline \<Rightarrow> string \<Rightarrow> string \<Rightarrow> string \<Rightarrow> string list \<Rightarrow> nat \<Rightarrow> rewrite_finding list \<Rightarrow> rewrite_outcome" where
  "finish p path source buffer applied passes findings =
     (let diff = make_unified_diff path source buffer 3 in
      if diff = [] then
        \<lparr>ro_path = path, ro_text = source, ro_patch = None, ro_findings = findings, ro_applied_rule_ids = [], ro_passes = passes,
         ro_advance_ladder = True\<rparr>
      else
        let probe_ok = (case pl_probe p of None \<Rightarrow> False | Some f \<Rightarrow> f path buffer);
            patch = new_file_patch path diff probe_ok (if length applied = 1 then Some (hd applied) else None) in
        \<lparr>ro_path = path, ro_text = buffer, ro_patch = Some patch, ro_findings = findings, ro_applied_rule_ids = applied, ro_passes = passes,
         ro_advance_ladder = True\<rparr>)"

fun pass_loop :: "pipeline \<Rightarrow> string \<Rightarrow> string \<Rightarrow> (string, string) dict \<Rightarrow> nat \<Rightarrow> string \<Rightarrow> string list \<Rightarrow> nat \<Rightarrow> pipeline_error + rewrite_outcome" where
  "pass_loop p path source params 0 buffer applied passes =
     Inr (finish p path source buffer applied passes [RuleOscillation path (pl_max_passes p) (sort applied)])"
| "pass_loop p path source params (Suc left) buffer applied passes =
     rbind (run_pass p path buffer params) (\<lambda>res.
       case pr_conflict res of
         Some c \<Rightarrow> Inr (conflict_outcome path source c (passes + 1))
       | None \<Rightarrow>
           if pr_text res = buffer then Inr (finish p path source buffer applied (passes + 1) [])
           else pass_loop p path source params left (pr_text res) (fold insert_once (pr_rule_ids res) applied) (passes + 1))"

definition rewrite_file :: "pipeline \<Rightarrow> string \<Rightarrow> string \<Rightarrow> (string, string) dict \<Rightarrow> pipeline_error + rewrite_outcome" where
  "rewrite_file p path source params =
     pass_loop p path source (dict_update params (pl_params p)) (nat (pl_max_passes p)) source [] 0"

definition rewrite_files :: "pipeline \<Rightarrow> (string, string) dict \<Rightarrow> (string, string) dict \<Rightarrow> pipeline_error + rewrite_outcome list" where
  "rewrite_files p sources params =
     traverse (\<lambda>path. rewrite_file p path (the (dict_get sources path)) params) (sorted_set (map fst sources))"

end
