(* ===== verification/Diff_Correct.thy ===== *)
theory Diff_Correct
  imports Unified_Diff
begin

text \<open>
  The diff module: what is printed is read back hunk by hunk and applied to the old text gives the new one; application without fuzz; the
  accepted paths; and the texts and lines for which the format is not read back.
\<close>

section \<open>Lines\<close>

definition plain :: "string \<Rightarrow> bool" where
  "plain l \<longleftrightarrow> (\<forall>c \<in> set l. \<not> is_break c)"

text \<open>A text whose lines all end in a newline, except possibly the last.\<close>

definition lf_text :: "string \<Rightarrow> bool" where
  "lf_text s \<longleftrightarrow> (\<forall>c \<in> set s. is_break c \<longrightarrow> c = newline)"

definition line_ok :: "string \<Rightarrow> bool" where
  "line_ok l \<longleftrightarrow> (\<exists>m. plain m \<and> (l = m @ [newline] \<or> l = m \<and> m \<noteq> []))"

lemma plain_simps [simp]: "plain []" "plain (c # l) \<longleftrightarrow> \<not> is_break c \<and> plain l" "plain (l @ m) \<longleftrightarrow> plain l \<and> plain m"
  by (auto simp: plain_def)

lemma break_newline [simp]: "is_break newline" "newline \<noteq> CHR 0x0D"
  by (simp_all add: is_break_def newline_def)

lemma break_cr [simp]: "is_break (CHR 0x0D)"
  by (simp add: is_break_def)

lemma splitlines_keep_plain: "plain l \<Longrightarrow> l \<noteq> [] \<Longrightarrow> splitlines_keep l = [l]"
proof (induction l)
  case (Cons c l)
  then show ?case by (cases "l = []") (auto simp: plain_def)
qed simp

lemma splitlines_keep_line: "plain l \<Longrightarrow> splitlines_keep (l @ newline # rest) = (l @ [newline]) # splitlines_keep rest"
proof (induction l)
  case (Cons c l)
  then have "c \<noteq> CHR 0x0D" by (auto simp: plain_def)
  then show ?case using Cons by auto
qed simp

lemma chop_line: "plain l \<Longrightarrow> chop_break (l @ [newline]) = l"
proof -
  assume "plain l"
  then have "l \<noteq> [] \<Longrightarrow> last l \<noteq> CHR 0x0D" unfolding plain_def by (metis break_cr last_in_set)
  then show ?thesis by (auto simp: chop_break_def)
qed

lemma splitlines_printed: "\<forall>l \<in> set ls. plain l \<Longrightarrow> splitlines (concat (map (\<lambda>l. l @ [newline]) ls)) = ls"
  by (induction ls) (auto simp: splitlines_def splitlines_keep_line chop_line)

lemma concat_splitlines_keep [simp]: "concat (splitlines_keep s) = s"
proof (induction s rule: splitlines_keep.induct)
  case (2 c cs)
  show ?case
  proof (cases "c = CHR 0x0D \<and> cs \<noteq> [] \<and> hd cs = newline")
    case True
    then show ?thesis using 2 by (cases cs) auto
  next
    case False
    then show ?thesis using 2 by (auto split: list.splits)
  qed
qed simp

text \<open>The lines of a text with newlines only; all but the last are terminated.\<close>

lemma lf_lines:
  assumes "lf_text s"
  shows "(\<forall>l \<in> set (splitlines_keep s). line_ok l) \<and> (\<forall>l \<in> set (butlast (splitlines_keep s)). ends_with [newline] l)"
  using assms
proof (induction s rule: length_induct)
  case (1 s)
  show ?case
  proof (cases "newline \<in> set s")
    case True
    then obtain l rest where s: "s = l @ newline # rest" "newline \<notin> set l" using split_list_first by metis
    then have l: "plain l" using "1.prems" by (auto simp: lf_text_def plain_def)
    have "lf_text rest" using "1.prems" by (auto simp: s lf_text_def)
    then have IH: "(\<forall>l \<in> set (splitlines_keep rest). line_ok l) \<and> (\<forall>l \<in> set (butlast (splitlines_keep rest)). ends_with [newline] l)"
      using "1.IH"[rule_format, of rest] by (simp add: s(1))
    moreover have "line_ok (l @ [newline])" "ends_with [newline] (l @ [newline])" using l by (auto simp: line_ok_def ends_with_def)
    ultimately show ?thesis unfolding s(1) splitlines_keep_line[OF l] by auto
  next
    case False
    then have "plain s" using "1.prems" by (auto simp: lf_text_def plain_def)
    then show ?thesis by (cases "s = []") (auto simp: splitlines_keep_plain line_ok_def)
  qed
qed

section \<open>Printing\<close>

definition op_cells :: "string list \<Rightarrow> string list \<Rightarrow> opcode \<Rightarrow> (char \<times> string) list" where
  "op_cells a b = (\<lambda>(tag, i1, i2, j1, j2).
     case tag of
       OpEqual \<Rightarrow> map (Pair (CHR '' '')) (slice a i1 i2)
     | OpReplace \<Rightarrow> map (Pair (CHR ''-'')) (slice a i1 i2) @ map (Pair (CHR ''+'')) (slice b j1 j2)
     | OpDelete \<Rightarrow> map (Pair (CHR ''-'')) (slice a i1 i2)
     | OpInsert \<Rightarrow> map (Pair (CHR ''+'')) (slice b j1 j2))"

definition group_cells :: "string list \<Rightarrow> string list \<Rightarrow> opcode list \<Rightarrow> (char \<times> string) list" where
  "group_cells a b ops = concat (map (op_cells a b) ops)"

lemma op_lines_cells: "op_lines a b x = map (\<lambda>(c, l). c # l) (op_cells a b x)"
  by (cases x) (auto simp: op_lines_def op_cells_def split: op_tag.splits)

lemma group_lines_cells: "group_lines a b ops = (hunk_header ops @ [newline]) # map (\<lambda>(c, l). c # l) (group_cells a b ops)"
proof -
  have "concat (map (op_lines a b) ops) = map (\<lambda>(c, l). c # l) (group_cells a b ops)"
    by (induction ops) (simp_all add: group_cells_def op_lines_cells)
  then show ?thesis by (simp add: group_lines_def)
qed

definition raw_lines :: "char \<times> string \<Rightarrow> string list" where
  "raw_lines = (\<lambda>(c, l). if ends_with [newline] l then [c # butlast l] else [c # l, NO_NEWLINE_MARKER])"

text \<open>The lines that can be printed with the sign \<open>c\<close> and read back.\<close>

definition printable :: "char \<times> string \<Rightarrow> bool" where
  "printable = (\<lambda>(c, l). line_ok l \<and> (c = CHR '' ''
     \<or> c = CHR ''-'' \<and> \<not> starts_with ''-- '' l \<and> (\<not> ends_with [newline] l \<longrightarrow> \<not> starts_with ''--'' l)
     \<or> c = CHR ''+'' \<and> \<not> starts_with ''++ '' l \<and> (\<not> ends_with [newline] l \<longrightarrow> \<not> starts_with ''++'' l)))"

lemma ends_with_snoc [simp]: "ends_with [x] (l @ [y]) \<longleftrightarrow> x = y"
  by (auto simp: ends_with_def)

lemma ends_with_newline: "ends_with [newline] l \<longleftrightarrow> l \<noteq> [] \<and> last l = newline"
  by (cases l rule: rev_cases) (auto simp: ends_with_def)

lemma starts_with_simps [simp]:
  "starts_with [] s" "\<not> starts_with (p # ps) []" "starts_with (p # ps) (c # s) \<longleftrightarrow> p = c \<and> starts_with ps s"
  by (auto simp: starts_with_def)

lemma starts_with_append: "starts_with p s \<Longrightarrow> starts_with p (s @ t)"
proof (induction p arbitrary: s)
  case (Cons x p)
  then show ?case by (cases s) auto
qed simp

lemma printableE:
  assumes "printable (c, l)"
  obtains (terminated) m where "plain m" "l = m @ [newline]" "raw_lines (c, l) = [c # m]"
  | (unterminated) "plain l" "l \<noteq> []" "\<not> ends_with [newline] l" "raw_lines (c, l) = [c # l, NO_NEWLINE_MARKER]"
proof -
  obtain m where m: "plain m" "l = m @ [newline] \<or> l = m \<and> m \<noteq> []" using assms by (auto simp: printable_def line_ok_def)
  show thesis
  proof (cases "ends_with [newline] l")
    case True
    then have "l = m @ [newline]" using m unfolding ends_with_newline plain_def by (metis break_newline(1) last_in_set)
    then show thesis using terminated m(1) by (simp add: raw_lines_def)
  next
    case False
    then have "l = m" "m \<noteq> []" using m(2) by (auto simp: ends_with_newline)
    then show thesis using unterminated m(1) False by (simp add: raw_lines_def)
  qed
qed

lemma printable_sign: "printable (c, l) \<Longrightarrow> c \<in> {CHR '' '', CHR ''-'', CHR ''+''}"
  by (auto simp: printable_def)

lemma emit_cell:
  assumes "printable (c, l)"
  shows "emit_line (c # l) = map (\<lambda>r. r @ [newline]) (raw_lines (c, l))"
  using assms
proof (cases rule: printableE)
  case (terminated m)
  then show ?thesis by (simp add: emit_line_def ends_with_newline)
next
  case unterminated
  then have "\<not> ends_with [newline] (c # l)" by (auto simp: ends_with_newline)
  moreover have "\<not> starts_with ''---'' (c # l) \<and> \<not> starts_with ''+++'' (c # l) \<and> \<not> starts_with ''@@'' (c # l)"
    using assms unterminated(3) by (auto simp: printable_def)
  ultimately show ?thesis using unterminated(4) by (simp add: emit_line_def)
qed

lemma marker_plain: "plain NO_NEWLINE_MARKER"
  by code_simp

lemma sign_plain: "c \<in> {CHR '' '', CHR ''-'', CHR ''+''} \<Longrightarrow> \<not> is_break c"
  by (auto simp: is_break_def)

lemma raw_plain:
  assumes "printable (c, l)" and "r \<in> set (raw_lines (c, l))"
  shows "plain r"
  using assms(1)
  by (cases rule: printableE) (use assms marker_plain sign_plain[OF printable_sign[OF assms(1)]] in auto)

text \<open>A raw line that the parser adds to the current hunk.\<close>

definition inert :: "string \<Rightarrow> bool" where
  "inert r \<longleftrightarrow> r \<noteq> [] \<and> body_line r \<and> \<not> starts_with ''--- '' r \<and> \<not> starts_with ''+++ '' r \<and> \<not> starts_with ''@@'' r"

lemma raw_inert:
  assumes "printable (c, l)" and "r \<in> set (raw_lines (c, l))"
  shows "inert r"
proof -
  have marker: "inert NO_NEWLINE_MARKER" by code_simp
  have cell: "inert (c # m)" if "\<not> starts_with ''-- '' m \<or> c \<noteq> CHR ''-''" "\<not> starts_with ''++ '' m \<or> c \<noteq> CHR ''+''" for m
    using that printable_sign[OF assms(1)] by (auto simp: inert_def body_line_def)
  show ?thesis using assms(1)
  proof (cases rule: printableE)
    case (terminated m)
    then have "\<not> starts_with ''-- '' m \<or> c \<noteq> CHR ''-''" "\<not> starts_with ''++ '' m \<or> c \<noteq> CHR ''+''"
      using assms(1) starts_with_append by (auto simp: printable_def)
    then show ?thesis using cell assms(2) terminated(3) by auto
  next
    case unterminated
    then have "\<not> starts_with ''-- '' l \<or> c \<noteq> CHR ''-''" "\<not> starts_with ''++ '' l \<or> c \<noteq> CHR ''+''"
      using assms(1) by (auto simp: printable_def)
    then show ?thesis using cell marker assms(2) unterminated(4) by auto
  qed
qed

section \<open>Reading back\<close>

lemma parse_inert:
  "ps_current s = Some (h, ls) \<Longrightarrow> \<forall>r \<in> set rs. inert r \<Longrightarrow>
   parse_lines (rs @ rest) s = parse_lines rest (s\<lparr>ps_current := Some (h, ls @ rs)\<rparr>)"
proof (induction rs arbitrary: s ls)
  case (Cons r rs)
  then have "parse_line r s = Inr (s\<lparr>ps_current := Some (h, ls @ [r])\<rparr>)" by (simp add: parse_line_def inert_def)
  then show ?case using Cons.IH[of "s\<lparr>ps_current := Some (h, ls @ [r])\<rparr>" "ls @ [r]"] Cons.prems by simp
next
  case Nil
  then show ?case by (cases s) simp
qed

lemma show_nat_is_digit: "c \<in> set (show_nat n) \<Longrightarrow> is_digit c"
  using show_nat_digits by (simp add: is_digit_def)

lemma show_nat_nonempty [simp]: "show_nat n \<noteq> []"
  by (subst show_nat.simps) simp

lemma takeWhile_digits:
  assumes "rest = [] \<or> \<not> is_digit (hd rest)"
  shows "takeWhile is_digit (show_nat n @ rest) = show_nat n \<and> dropWhile is_digit (show_nat n @ rest) = rest"
proof -
  have "takeWhile is_digit rest = [] \<and> dropWhile is_digit rest = rest" using assms by (cases rest) auto
  then show ?thesis using show_nat_is_digit by (simp add: takeWhile_append dropWhile_append)
qed

definition old_start_of :: "nat \<Rightarrow> nat \<Rightarrow> nat" where
  "old_start_of i j = (if j - i = 0 then i else i + 1)"

lemma parse_range_text: "parse_range (range_text i j @ CHR '' '' # rest) = Some (old_start_of i j, j - i, CHR '' '' # rest)"
proof -
  have blank: "\<not> is_digit (CHR '' '')" "\<not> is_digit (CHR '','')" by code_simp+
  have d: "takeWhile is_digit (show_nat n @ CHR '' '' # rest) = show_nat n" "dropWhile is_digit (show_nat n @ CHR '' '' # rest) = CHR '' '' # rest"
      "takeWhile is_digit (show_nat n @ CHR '','' # ys) = show_nat n" "dropWhile is_digit (show_nat n @ CHR '','' # ys) = CHR '','' # ys" for n ys
    using takeWhile_digits[of "CHR '' '' # rest" n] takeWhile_digits[of "CHR '','' # ys" n] blank by simp_all
  show ?thesis by (cases "j - i = 1") (simp_all add: range_text_def parse_range_def old_start_of_def d Let_def)
qed

definition hunk_of :: "string list \<Rightarrow> string list \<Rightarrow> opcode list \<Rightarrow> hunk" where
  "hunk_of a b ops = (case group_ends ops of (i1, i2, j1, j2) \<Rightarrow>
     \<lparr>hk_old_start = old_start_of i1 i2, hk_old_len = i2 - i1, hk_new_start = old_start_of j1 j2, hk_new_len = j2 - j1,
      hk_lines = concat (map raw_lines (group_cells a b ops))\<rparr>)"

lemma parse_hunk_header: "parse_header (hunk_header ops) = Some ((hunk_of a b ops)\<lparr>hk_lines := []\<rparr>)"
proof -
  obtain i1 i2 j1 j2 where e: "group_ends ops = (i1, i2, j1, j2)" by (rule prod_cases4)
  show ?thesis
    using parse_range_text[of i1 i2 "CHR ''+'' # range_text j1 j2 @ '' @@''"] parse_range_text[of j1 j2 "''@@''"]
    by (simp add: hunk_header_def parse_header_def hunk_of_def e del: group_ends.simps)
qed

definition group_raws :: "string list \<Rightarrow> string list \<Rightarrow> opcode list \<Rightarrow> string list" where
  "group_raws a b ops = hunk_header ops # concat (map raw_lines (group_cells a b ops))"

lemma cells_inert: "\<forall>x \<in> set xs. printable x \<Longrightarrow> \<forall>r \<in> set (concat (map raw_lines xs)). inert r \<and> plain r"
  using raw_inert raw_plain by fastforce

lemma flush_hunk_idle [simp]: "ps_current (flush_hunk s) = None" "flush_hunk (flush_hunk s) = flush_hunk s" "ps_new (flush_hunk s) = ps_new s"
    "ps_old (flush_hunk s) = ps_old s" "ps_files (flush_hunk s) = ps_files s"
  by (auto simp: flush_hunk_def split: option.splits)

lemma parse_groups:
  assumes "\<forall>g \<in> set gs. \<forall>x \<in> set (group_cells a b g). printable x" and "ps_new s \<noteq> None"
  shows "\<exists>s'. parse_lines (concat (map (group_raws a b) gs)) s = Inr s'
     \<and> flush_hunk s' = (flush_hunk s)\<lparr>ps_hunks := ps_hunks (flush_hunk s) @ map (hunk_of a b) gs\<rparr>"
  using assms
proof (induction gs arbitrary: s)
  case (Cons g gs)
  let ?h = "(hunk_of a b g)\<lparr>hk_lines := []\<rparr>" and ?raws = "concat (map raw_lines (group_cells a b g))"
  let ?rest = "concat (map (group_raws a b) gs)" and ?s = "(flush_hunk s)\<lparr>ps_current := Some (?h, ?raws)\<rparr>"
  have "parse_line (hunk_header g) s = Inr ((flush_hunk s)\<lparr>ps_current := Some (?h, [])\<rparr>)"
    using Cons.prems(2) parse_hunk_header[of g a b] by (auto simp: parse_line_def hunk_header_def split: prod.splits)
  then have "parse_lines (concat (map (group_raws a b) (g # gs))) s = parse_lines ?rest ?s"
    using parse_inert[of "(flush_hunk s)\<lparr>ps_current := Some (?h, [])\<rparr>" ?h "[]" ?raws ?rest] cells_inert[of "group_cells a b g"] Cons.prems(1)
    by (simp add: group_raws_def)
  moreover have "flush_hunk ?s = (flush_hunk s)\<lparr>ps_hunks := ps_hunks (flush_hunk s) @ [hunk_of a b g]\<rparr>"
    by (simp add: flush_hunk_def hunk_of_def split: option.splits prod.splits)
  ultimately show ?case using Cons.IH[of ?s] Cons.prems by auto
qed simp

lemma hunk_header_plain: "plain (hunk_header ops)"
proof -
  have digits: "plain (show_nat n)" for n
    using show_nat_digits unfolding plain_def is_break_def by fastforce
  then have "plain (range_text i j)" for i j by (simp add: range_text_def is_break_def)
  then show ?thesis by (simp add: hunk_header_def is_break_def split: prod.splits)
qed

lemma make_unified_diff_text:
  assumes "\<forall>g \<in> set (get_grouped_opcodes n (splitlines_keep x) (splitlines_keep y)). \<forall>c \<in> set (group_cells (splitlines_keep x) (splitlines_keep y) g). printable c"
    and "x \<noteq> y" and "get_grouped_opcodes n (splitlines_keep x) (splitlines_keep y) \<noteq> []"
  shows "make_unified_diff path x y n = concat (map (\<lambda>r. r @ [newline])
     ([''--- a/'' @ path, ''+++ b/'' @ path]
      @ concat (map (group_raws (splitlines_keep x) (splitlines_keep y)) (get_grouped_opcodes n (splitlines_keep x) (splitlines_keep y)))))"
proof -
  let ?a = "splitlines_keep x" and ?b = "splitlines_keep y"
  let ?gs = "get_grouped_opcodes n ?a ?b"
  have cells: "concat (map emit_line (map (\<lambda>(c, l). c # l) cs)) = map (\<lambda>r. r @ [newline]) (concat (map raw_lines cs))"
    if "\<forall>c \<in> set cs. printable c" for cs
    using that by (induction cs) (auto simp: emit_cell split: prod.splits)
  have nl: "emit_line (l @ [newline]) = [l @ [newline]]" for l by (simp add: emit_line_def)
  have grp: "concat (map emit_line (group_lines ?a ?b g)) = map (\<lambda>r. r @ [newline]) (group_raws ?a ?b g)" if "g \<in> set ?gs" for g
    using cells[of "group_cells ?a ?b g"] assms(1) that nl by (simp add: group_lines_cells group_raws_def)
  have "concat (map emit_line (concat (map (group_lines ?a ?b) gs))) = map (\<lambda>r. r @ [newline]) (concat (map (group_raws ?a ?b) gs))"
    if "set gs \<subseteq> set ?gs" for gs
    using that grp by (induction gs) auto
  then show ?thesis using assms(2,3) nl[of "''--- a/'' @ path"] nl[of "''+++ b/'' @ path"]
    by (simp add: make_unified_diff_def unified_diff_def Let_def)
qed

section \<open>Payloads\<close>

lemma raw_head: "printable (c, l) \<Longrightarrow> \<exists>r. raw_lines (c, l) = (c # r) # tl (raw_lines (c, l))"
  by (auto simp: raw_lines_def split: if_splits)

lemma sign_not_marker: "printable (c, l) \<Longrightarrow> c \<noteq> CHR 0x5C"
  using printable_sign by fastforce

lemma payload_cell:
  assumes "printable (c, l)" and "rest = [] \<or> \<not> starts_with [CHR 0x5C] (hd rest)" and "hunk_payload rest = (pre, post)"
  shows "hunk_payload (raw_lines (c, l) @ rest) =
     ((if c \<noteq> CHR ''+'' then l # pre else pre), (if c \<noteq> CHR ''-'' then l # post else post))"
proof -
  have marker: "starts_with [CHR 0x5C] NO_NEWLINE_MARKER" by code_simp
  show ?thesis using assms(1)
  proof (cases rule: printableE)
    case (terminated m)
    then show ?thesis using assms(2,3) printable_sign[OF assms(1)] by (auto simp: Let_def)
  next
    case unterminated
    then show ?thesis using assms(2,3) printable_sign[OF assms(1)] marker by (auto simp: Let_def)
  qed
qed

lemma payload_cells:
  "\<forall>x \<in> set cs. printable x \<Longrightarrow>
   hunk_payload (concat (map raw_lines cs)) = (map snd (filter (\<lambda>x. fst x \<noteq> CHR ''+'') cs), map snd (filter (\<lambda>x. fst x \<noteq> CHR ''-'') cs))"
proof (induction cs)
  case (Cons x cs)
  obtain c l where x: "x = (c, l)" by (rule prod.exhaust)
  let ?rest = "concat (map raw_lines cs)"
  have "?rest = [] \<or> \<not> starts_with [CHR 0x5C] (hd ?rest)"
  proof (cases cs)
    case (Cons y ys)
    obtain d m where y: "y = (d, m)" by (rule prod.exhaust)
    then have "printable (d, m)" using Cons.prems Cons by auto
    then obtain r where "raw_lines (d, m) = (d # r) # tl (raw_lines (d, m))" "d \<noteq> CHR 0x5C" using raw_head sign_not_marker by blast
    then have "hd ?rest = d # r" by (simp add: Cons y) (metis append_Cons list.sel(1))
    then show ?thesis using \<open>d \<noteq> CHR 0x5C\<close> by simp
  qed simp
  then show ?case using Cons.IH Cons.prems payload_cell[of c l ?rest] x by auto
qed simp

lemma slice_append:
  assumes "i \<le> j" and "j \<le> k"
  shows "slice xs i j @ slice xs j k = slice xs i k"
proof -
  obtain m n where "j = i + m" "k = i + m + n" using assms by (metis le_Suc_ex)
  then show ?thesis by (simp add: slice_def take_add add.commute)
qed

lemma slice_empty [simp]: "slice xs i i = []"
  by (simp add: slice_def)

lemma op_cells_sides:
  assumes "op_ok a b (tag, i1, i2, j1, j2)"
  shows "map snd (filter (\<lambda>x. fst x \<noteq> CHR ''+'') (op_cells a b (tag, i1, i2, j1, j2))) = slice a i1 i2
    \<and> map snd (filter (\<lambda>x. fst x \<noteq> CHR ''-'') (op_cells a b (tag, i1, i2, j1, j2))) = slice b j1 j2"
proof -
  have "map snd (filter (\<lambda>x. fst x \<noteq> d) (map (Pair c) ls)) = (if c \<noteq> d then ls else [])" for c d :: char and ls :: "string list"
    by (induction ls) auto
  moreover have "slice a i1 i2 = slice b j1 j2" if "tag = OpEqual" using same_span_slice[OF equal_op_span] assms that by blast
  ultimately show ?thesis using assms by (cases tag) (auto simp: op_cells_def comp_def)
qed

lemma script_mono: "script a b (i1, j1) ops (i2, j2) \<Longrightarrow> i1 \<le> i2 \<and> j1 \<le> j2"
proof (induction ops arbitrary: i1 j1)
  case (Cons x ops)
  then show ?case by (cases x) fastforce
qed simp

lemma group_cells_sides:
  "script a b (i1, j1) ops (i2, j2) \<Longrightarrow>
   map snd (filter (\<lambda>x. fst x \<noteq> CHR ''+'') (group_cells a b ops)) = slice a i1 i2
   \<and> map snd (filter (\<lambda>x. fst x \<noteq> CHR ''-'') (group_cells a b ops)) = slice b j1 j2"
proof (induction ops arbitrary: i1 j1)
  case (Cons x ops)
  obtain tag k1 k2 l1 l2 where x: "x = (tag, k1, k2, l1, l2)" by (rule prod_cases5)
  have s: "k1 = i1" "l1 = j1" "op_ok a b (tag, i1, k2, j1, l2)" "script a b (k2, l2) ops (i2, j2)"
    using Cons.prems by (auto simp: x simp del: op_ok.simps)
  have "slice a i1 k2 @ slice a k2 i2 = slice a i1 i2" "slice b j1 l2 @ slice b l2 j2 = slice b j1 j2"
    using script_mono[OF s(4)] s(3) by (auto intro!: slice_append)
  then show ?case using Cons.IH[OF s(4)] op_cells_sides[OF s(3)] s(1,2) by (simp add: group_cells_def x)
qed (simp add: group_cells_def)

lemma script_ends:
  assumes "script a b (i1, j1) ops (i2, j2)" and "ops \<noteq> []"
  shows "group_ends ops = (i1, i2, j1, j2)"
proof -
  have last: "(case last ops of (_, _, i, _, j) \<Rightarrow> (i, j)) = (i2, j2)" using assms
  proof (induction ops arbitrary: i1 j1)
    case (Cons x ops)
    then show ?case by (cases x; cases ops) auto
  qed simp
  moreover have "(case hd ops of (_, i, _, j, _) \<Rightarrow> (i, j)) = (i1, j1)" using assms by (cases ops) auto
  ultimately show ?thesis by (auto split: prod.splits)
qed

text \<open>A hunk of the printed diff: its header counts its lines, which are the two sides of the group.\<close>

lemma hunk_of_script:
  assumes "script a b (i1, j1) g (i2, j2)" and "g \<noteq> []" and "\<forall>x \<in> set (group_cells a b g). printable x"
  shows "hunk_payload (hk_lines (hunk_of a b g)) = (slice a i1 i2, slice b j1 j2)" "hunk_start (hunk_of a b g) = int i1"
    "hk_old_start (hunk_of a b g) = old_start_of i1 i2" "hk_old_len (hunk_of a b g) = i2 - i1" "hk_new_len (hunk_of a b g) = j2 - j1"
  using payload_cells[OF assms(3)] group_cells_sides[OF assms(1)] script_ends[OF assms(1,2)]
  by (simp_all add: hunk_of_def hunk_start_def old_start_of_def del: group_ends.simps)

section \<open>The round trip\<close>

lemma slice_all: "slice xs i (length xs) = drop i xs"
  by (simp add: slice_def)

lemma script_bounds: "script a b p ops (i2, j2) \<Longrightarrow> ops \<noteq> [] \<Longrightarrow> i2 \<le> length a \<and> j2 \<le> length b"
proof (induction ops arbitrary: p)
  case (Cons x ops)
  then show ?case by (cases x; cases ops) auto
qed simp

lemma slice_drop: "i \<le> j \<Longrightarrow> j \<le> length xs \<Longrightarrow> slice xs i j @ drop j xs = drop i xs"
  using slice_append[of i j "length xs" xs] by (simp add: slice_all)

lemma apply_groups:
  "groups_ok a b (i, j) gs \<Longrightarrow> \<forall>g \<in> set gs. \<forall>x \<in> set (group_cells a b g). printable x \<Longrightarrow>
   apply_hunks a i (map (hunk_of a b) gs) = Inr (drop j b)"
proof (induction gs arbitrary: i j)
  case Nil
  then show ?case using same_span_slice[of a b i j "length a" "length b"] by (simp add: slice_all)
next
  case (Cons g gs)
  obtain i1 j1 i2 j2 where g: "g \<noteq> []" "same_span a b (i, j) (i1, j1)" "script a b (i1, j1) g (i2, j2)" "groups_ok a b (i2, j2) gs"
    using Cons.prems(1) by auto
  note h = hunk_of_script[OF g(3,1)]
  have le: "i1 \<le> i2" "j1 \<le> j2" "i2 \<le> length a" "j2 \<le> length b" using script_mono[OF g(3)] script_bounds[OF g(3,1)] by auto
  have span: "i \<le> i1" "j \<le> j1" "j1 \<le> length b" using g(2) by (auto simp: same_span_def)
  have "length (slice a i1 i2) = i2 - i1" using le by (simp add: slice_def)
  then have "apply_hunks a i (map (hunk_of a b) (g # gs)) = Inr (slice a i i1 @ slice b j1 j2 @ drop j2 b)"
    using h Cons.prems(2) Cons.IH[OF g(4)] le span by simp
  also have "slice a i i1 @ slice b j1 j2 @ drop j2 b = drop j b"
    using same_span_slice[OF g(2)] slice_drop[of j1 j2 b] slice_drop[of j j1 b] le span by simp
  finally show ?case .
qed

lemma groups_sorted:
  "groups_ok a b (i, j) gs \<Longrightarrow> \<forall>g \<in> set gs. \<forall>x \<in> set (group_cells a b g). printable x \<Longrightarrow>
   sorted (map hk_old_start (map (hunk_of a b) gs)) \<and> (\<forall>g \<in> set gs. i \<le> hk_old_start (hunk_of a b g))"
proof (induction gs arbitrary: i j)
  case (Cons g gs)
  obtain i1 j1 i2 j2 where g: "g \<noteq> []" "same_span a b (i, j) (i1, j1)" "script a b (i1, j1) g (i2, j2)" "groups_ok a b (i2, j2) gs"
    using Cons.prems(1) by auto
  have "hk_old_start (hunk_of a b g) \<le> i2" "i \<le> hk_old_start (hunk_of a b g)" "i \<le> i2"
    using hunk_of_script(3)[OF g(3,1)] Cons.prems(2) script_mono[OF g(3)] g(2) by (auto simp: old_start_of_def same_span_def)
  then show ?case using Cons.IH[OF g(4)] Cons.prems(2) by fastforce
qed simp

text \<open>Texts whose lines can be removed, and texts whose lines can be added, and paths that a header can name.\<close>

definition removable :: "string \<Rightarrow> bool" where
  "removable s \<longleftrightarrow> lf_text s \<and> (\<forall>l \<in> set (splitlines_keep s). \<not> starts_with ''-- '' l \<and> (\<not> ends_with [newline] l \<longrightarrow> \<not> starts_with ''--'' l))"

definition addable :: "string \<Rightarrow> bool" where
  "addable s \<longleftrightarrow> lf_text s \<and> (\<forall>l \<in> set (splitlines_keep s). \<not> starts_with ''++ '' l \<and> (\<not> ends_with [newline] l \<longrightarrow> \<not> starts_with ''++'' l))"

definition header_path :: "string \<Rightarrow> bool" where
  "header_path p \<longleftrightarrow> plain p \<and> p \<noteq> [] \<and> CHR 0x09 \<notin> set p \<and> \<not> py_space (last p)"

lemma slice_subset: "set (slice xs i j) \<subseteq> set xs"
  unfolding slice_def by (meson order.trans set_drop_subset set_take_subset)

lemma op_cells_mem:
  assumes "(s, l) \<in> set (op_cells a b x)"
  shows "s \<in> {CHR '' '', CHR ''-''} \<and> l \<in> set a \<or> s = CHR ''+'' \<and> l \<in> set b"
proof -
  obtain tag i1 i2 j1 j2 where x: "x = (tag, i1, i2, j1, j2)" by (rule prod_cases5)
  have "set (slice a i1 i2) \<subseteq> set a" "set (slice b j1 j2) \<subseteq> set b" by (rule slice_subset)+
  then show ?thesis using assms by (cases tag) (auto simp: x op_cells_def)
qed

lemma strip_header:
  assumes "header_path path" and "c \<in> {CHR ''a'', CHR ''b''}"
  shows "strip_prefix (c # CHR ''/'' # path) = path"
proof -
  have c: "c \<noteq> CHR 0x09" "\<not> py_space c" "c \<in> set ''abiwco''" using assms(2) by (auto simp: py_space_def)
  have "split_on (\<lambda>d. d = CHR 0x09) (c # CHR ''/'' # path) = [c # CHR ''/'' # path]"
    using assms(1) c by (intro split_on_none) (auto simp: header_path_def)
  moreover have "strip (c # CHR ''/'' # path) = c # CHR ''/'' # path"
  proof -
    obtain p d where p: "path = p @ [d]" "\<not> py_space d" using assms(1) by (cases path rule: rev_cases) (auto simp: header_path_def)
    then show ?thesis using c by (simp add: strip_def)
  qed
  ultimately show ?thesis using assms(1) c by (auto simp: strip_prefix_def dev_null_def header_path_def)
qed

lemma cells_printable:
  assumes "removable x" and "addable y" and "c \<in> set (group_cells (splitlines_keep x) (splitlines_keep y) g)"
  shows "printable c"
proof -
  let ?a = "splitlines_keep x" and ?b = "splitlines_keep y"
  obtain s l where c: "c = (s, l)" by (rule prod.exhaust)
  have "s \<in> {CHR '' '', CHR ''-''} \<and> l \<in> set ?a \<or> s = CHR ''+'' \<and> l \<in> set ?b"
    using assms(3) op_cells_mem[of s l ?a ?b] unfolding c group_cells_def by auto
  moreover have "line_ok l" if "l \<in> set ?a \<union> set ?b" using assms(1,2) lf_lines[of x] lf_lines[of y] that by (auto simp: removable_def addable_def)
  ultimately show ?thesis using assms(1,2) unfolding c printable_def removable_def addable_def by auto
qed

lemma differing_groups: "x \<noteq> y \<Longrightarrow> get_grouped_opcodes n (splitlines_keep x) (splitlines_keep y) \<noteq> []"
proof
  let ?a = "splitlines_keep x" and ?b = "splitlines_keep y"
  assume "x \<noteq> y" "get_grouped_opcodes n ?a ?b = []"
  then have "?a = ?b" using grouped_opcodes_ok[of ?a ?b n] same_span_slice[of ?a ?b 0 0 "length ?a" "length ?b"] by (simp add: slice_all)
  then show False using \<open>x \<noteq> y\<close> concat_splitlines_keep by metis
qed

lemma printed_groups:
  assumes "removable x" and "addable y" and "x \<noteq> y" and "header_path path"
  defines "a \<equiv> splitlines_keep x" and "b \<equiv> splitlines_keep y"
  shows "parse_unified_diff (make_unified_diff path x y n) =
     Inr [\<lparr>fd_old_path = path, fd_new_path = path, fd_hunks = map (hunk_of a b) (get_grouped_opcodes n a b)\<rparr>]"
proof -
  let ?gs = "get_grouped_opcodes n a b"
  have cells: "\<forall>g \<in> set ?gs. \<forall>c \<in> set (group_cells a b g). printable c" using cells_printable[OF assms(1,2)] by (auto simp: a_def b_def)
  have ne: "?gs \<noteq> []" using differing_groups[OF assms(3)] by (simp add: a_def b_def)
  let ?raws = "[''--- a/'' @ path, ''+++ b/'' @ path] @ concat (map (group_raws a b) ?gs)"
  have "plain r" if "r \<in> set (group_raws a b g)" "g \<in> set ?gs" for r g
    using that cells cells_inert[of "group_cells a b g"] hunk_header_plain by (auto simp: group_raws_def)
  then have "\<forall>r \<in> set ?raws. plain r" using assms(4) by (auto simp: header_path_def is_break_def)
  then have lines: "splitlines (make_unified_diff path x y n) = ?raws"
    using make_unified_diff_text[of n x y path] cells ne assms(3) splitlines_printed[of ?raws] by (simp add: a_def b_def)
  have strip: "strip_prefix (CHR ''a'' # CHR ''/'' # path) = path" "strip_prefix (CHR ''b'' # CHR ''/'' # path) = path"
    using strip_header[OF assms(4)] by simp_all
  let ?s = "\<lparr>ps_files = [], ps_old = Some path, ps_new = Some path, ps_hunks = [], ps_current = None\<rparr>"
  have "parse_lines ?raws parse_start = parse_lines (concat (map (group_raws a b) ?gs)) ?s"
    by (simp add: parse_line_def strip parse_start_def flush_file_def flush_hunk_def Let_def)
  moreover obtain s' where s': "parse_lines (concat (map (group_raws a b) ?gs)) ?s = Inr s'"
      "flush_hunk s' = (flush_hunk ?s)\<lparr>ps_hunks := ps_hunks (flush_hunk ?s) @ map (hunk_of a b) ?gs\<rparr>"
    using parse_groups[OF cells, of ?s] by auto
  ultimately show ?thesis unfolding parse_unified_diff_def lines by (simp add: flush_file_def flush_hunk_def Let_def)
qed

text \<open>A hunk whose header counts the lines of its body, as Git demands.\<close>

definition counted :: "hunk \<Rightarrow> bool" where
  "counted h \<longleftrightarrow> (case hunk_payload (hk_lines h) of (pre, post) \<Rightarrow> length pre = hk_old_len h \<and> length post = hk_new_len h)"

lemma groups_counted:
  "groups_ok a b p gs \<Longrightarrow> \<forall>g \<in> set gs. \<forall>x \<in> set (group_cells a b g). printable x \<Longrightarrow> \<forall>g \<in> set gs. counted (hunk_of a b g)"
proof (induction gs arbitrary: p)
  case (Cons g gs)
  obtain i1 j1 i2 j2 where g: "g \<noteq> []" "script a b (i1, j1) g (i2, j2)" "groups_ok a b (i2, j2) gs" using Cons.prems(1) by auto
  have "length (slice a i1 i2) = i2 - i1" "length (slice b j1 j2) = j2 - j1"
    using script_mono[OF g(2)] script_bounds[OF g(2,1)] by (auto simp: slice_def)
  then have "counted (hunk_of a b g)" using hunk_of_script[OF g(2,1)] Cons.prems(2) by (simp add: counted_def)
  then show ?case using Cons.IH[OF g(3)] Cons.prems(2) by simp
qed simp

lemma apply_printed:
  assumes "removable x" and "addable y" and "x \<noteq> y" and "header_path path"
  shows "apply_in_memory x (make_unified_diff path x y n) = Inr y"
proof -
  let ?a = "splitlines_keep x" and ?b = "splitlines_keep y"
  let ?gs = "get_grouped_opcodes n ?a ?b"
  have cells: "\<forall>g \<in> set ?gs. \<forall>c \<in> set (group_cells ?a ?b g). printable c" using cells_printable[OF assms(1,2)] by auto
  note ok = grouped_opcodes_ok[of ?a ?b n]
  have "sort_key hk_old_start (map (hunk_of ?a ?b) ?gs) = map (hunk_of ?a ?b) ?gs"
    using groups_sorted[OF ok cells] by (intro sort_key_id_if_sorted) simp
  then show ?thesis using printed_groups[OF assms, of n] apply_groups[OF ok cells] by (simp add: apply_in_memory_def)
qed

text \<open>
  C13: A diff the module prints between two different texts is read back by its own parser and leads from the old text to the new one: applied to the
  old text it gives exactly the new text, for every amount of context. It names the one path it was made for, and the header of each hunk
  counts the lines of its body. This is so for texts whose only line breaks are newlines, where no line of the old text begins with two hyphens and a
  blank (or, for an unterminated last line, with two hyphens), none of the new text with two plus signs and a blank (or, for an unterminated last line, two plus
  signs), and for a path without line breaks and tabs and without white space at its end.
\<close>

theorem diff_round_trip:
  assumes "removable x" and "addable y" and "x \<noteq> y" and "header_path path"
  shows "apply_in_memory x (make_unified_diff path x y n) = Inr y
    \<and> diff_paths (make_unified_diff path x y n) = Inr [path]
    \<and> (\<exists>f. parse_unified_diff (make_unified_diff path x y n) = Inr [f] \<and> (\<forall>h \<in> set (fd_hunks f). counted h))"
proof -
  let ?a = "splitlines_keep x" and ?b = "splitlines_keep y"
  let ?gs = "get_grouped_opcodes n ?a ?b"
  have cells: "\<forall>g \<in> set ?gs. \<forall>c \<in> set (group_cells ?a ?b g). printable c" using cells_printable[OF assms(1,2)] by auto
  note parsed = printed_groups[OF assms, of n]
  have "diff_paths (make_unified_diff path x y n) = Inr [path]"
    using parsed assms(4) by (auto simp: diff_paths_def fd_path_def)
  then show ?thesis using parsed apply_printed[OF assms] groups_counted[OF grouped_opcodes_ok cells] by simp
qed

section \<open>Application without fuzz\<close>

text \<open>
  The lines from a position on are the gaps between the hunks and the lines the hunks claim, each at the position its header names.
\<close>

fun claimed :: "nat \<Rightarrow> string list list \<Rightarrow> hunk list \<Rightarrow> string list \<Rightarrow> string list \<Rightarrow> bool" where
  "claimed cursor [g] [] xs ys \<longleftrightarrow> xs = g \<and> ys = g"
| "claimed cursor (g # gs) (h # hs) xs ys \<longleftrightarrow>
     (\<exists>pre post xs' ys'. hunk_payload (hk_lines h) = (pre, post) \<and> hunk_start h = int (cursor + length g)
        \<and> xs = g @ pre @ xs' \<and> ys = g @ post @ ys' \<and> claimed (cursor + length g + length pre) gs hs xs' ys')"
| "claimed cursor gs hs xs ys \<longleftrightarrow> False"

lemma apply_hunks_iff:
  "cursor \<le> length lines \<Longrightarrow> apply_hunks lines cursor hs = Inr out \<longleftrightarrow> (\<exists>gs. claimed cursor gs hs (drop cursor lines) out)"
proof (induction hs arbitrary: cursor out)
  case Nil
  have "(\<exists>gs. claimed cursor gs [] (drop cursor lines) out) \<longleftrightarrow> out = drop cursor lines"
  proof
    assume "\<exists>gs. claimed cursor gs [] (drop cursor lines) out"
    then show "out = drop cursor lines" by (auto elim: claimed.elims)
  qed (auto intro: exI[of _ "[drop cursor lines]"])
  then show ?case by auto
next
  case (Cons h hs)
  obtain pre post where pp: "hunk_payload (hk_lines h) = (pre, post)" by (rule prod.exhaust)
  let ?s = "hunk_start h" and ?e = "nat (hunk_start h) + length pre"
  have split: "drop cursor lines = slice lines cursor (nat ?s) @ slice lines (nat ?s) ?e @ drop ?e lines"
    if "int cursor \<le> ?s" "?s + int (length pre) \<le> int (length lines)"
    using that slice_drop[of "nat ?s" ?e lines] slice_drop[of cursor "nat ?s" lines] by simp
  show ?case
  proof
    assume ok: "apply_hunks lines cursor (h # hs) = Inr out"
    then obtain rest where r: "int cursor \<le> ?s" "?s + int (length pre) \<le> int (length lines)" "slice lines (nat ?s) ?e = pre"
        "apply_hunks lines ?e hs = Inr rest" "out = slice lines cursor (nat ?s) @ post @ rest"
      by (auto simp: pp Let_def split: if_splits)
    have len: "length (slice lines cursor (nat ?s)) = nat ?s - cursor" using r(1,2) by (auto simp: slice_def)
    have "?e \<le> length lines" using r(1,2) by linarith
    then obtain gs where "claimed ?e gs hs (drop ?e lines) rest" using Cons.IH[of ?e rest] r(4) by auto
    then have "claimed cursor (slice lines cursor (nat ?s) # gs) (h # hs) (drop cursor lines) out"
      using r split[OF r(1,2)] len pp by auto
    then show "\<exists>gs. claimed cursor gs (h # hs) (drop cursor lines) out" by blast
  next
    assume "\<exists>gs. claimed cursor gs (h # hs) (drop cursor lines) out"
    then obtain G where G: "claimed cursor G (h # hs) (drop cursor lines) out" by blast
    then obtain g gs where "G = g # gs" by (cases G) auto
    with G obtain xs' ys' where c: "?s = int (cursor + length g)" "drop cursor lines = g @ pre @ xs'" "out = g @ post @ ys'"
        "claimed (cursor + length g + length pre) gs hs xs' ys'"
      using pp by auto
    have len: "cursor + length g + length pre \<le> length lines"
      using arg_cong[OF c(2), of length] Cons.prems by simp
    have drops: "drop (cursor + length g) lines = pre @ xs'" "drop (cursor + length g + length pre) lines = xs'"
      using c(2) by (metis append_eq_conv_conj drop_drop add.commute)+
    have "slice lines cursor (cursor + length g) = g" "slice lines (cursor + length g) (cursor + length g + length pre) = pre"
      using c(2) drops by (simp_all add: slice_def)
    moreover have "apply_hunks lines (cursor + length g + length pre) hs = Inr ys'" using Cons.IH[OF len] c(4) drops(2) by blast
    ultimately show "apply_hunks lines cursor (h # hs) = Inr out" using pp c(1,3) len by (simp add: nat_add_distrib)
  qed
qed

lemma apply_in_memory_Inr:
  "apply_in_memory x d = Inr y \<longleftrightarrow>
   (\<exists>f ys. parse_unified_diff d = Inr [f] \<and> apply_hunks (splitlines_keep x) 0 (sort_key hk_old_start (fd_hunks f)) = Inr ys \<and> y = concat ys)"
  by (cases "parse_unified_diff d") (auto simp: apply_in_memory_def rbind_Inr_iff split: list.splits)


section \<open>Lines that are not read back\<close>

lemma splitlines_plain: "l \<in> set (splitlines s) \<Longrightarrow> plain l"
proof -
  have keep: "\<exists>m b. l = m @ b \<and> plain m \<and> (b = [] \<or> b = [CHR 0x0D, newline] \<or> (\<exists>c. b = [c] \<and> is_break c))" if "l \<in> set (splitlines_keep s)" for l s
    using that
  proof (induction s arbitrary: l rule: splitlines_keep.induct)
    case (2 c cs)
    show ?case
    proof (cases "c = CHR 0x0D \<and> cs \<noteq> [] \<and> hd cs = newline")
      case True
      then show ?thesis using 2 by (auto intro: exI[of _ "[]"])
    next
      case crlf: False
      show ?thesis
      proof (cases "is_break c")
        case True
        then show ?thesis using 2 crlf by (auto intro: exI[of _ "[]"])
      next
        case False
        note IH = "2.IH"(3)[OF crlf False]
        show ?thesis
        proof (cases "splitlines_keep cs")
          case Nil
          then have "l = [c] @ []" using "2.prems" crlf False by auto
          then show ?thesis using False by (intro exI[of _ "[c]"] exI[of _ "[]"]) simp
        next
          case (Cons k ks)
          then consider "l \<in> set ks" | "l = c # k" using "2.prems" crlf False by auto
          then show ?thesis
          proof cases
            case 2
            obtain m b where "k = m @ b" "plain m" "b = [] \<or> b = [CHR 0x0D, newline] \<or> (\<exists>c. b = [c] \<and> is_break c)" using IH[of k] Cons by auto
            then show ?thesis using 2 False by (intro exI[of _ "c # m"] exI[of _ b]) auto
          qed (use IH Cons in auto)
        qed
      qed
    qed
  qed simp
  have chop: "plain (chop_break (m @ b))" if "plain m" "b = [] \<or> b = [CHR 0x0D, newline] \<or> (\<exists>c. b = [c] \<and> is_break c)" for m b
  proof -
    have "m \<noteq> [] \<Longrightarrow> last m \<noteq> CHR 0x0D \<and> \<not> is_break (last m)" using that(1) unfolding plain_def by (metis break_cr last_in_set)
    then show ?thesis using that by (auto simp: chop_break_def butlast_append)
  qed
  assume "l \<in> set (splitlines s)"
  then obtain k where k: "k \<in> set (splitlines_keep s)" "l = chop_break k" by (auto simp: splitlines_def)
  from keep[OF k(1)] show ?thesis using chop k(2) by blast
qed

text \<open>Every line a parsed hunk holds is free of line breaks.\<close>

definition state_plain :: "parse_state \<Rightarrow> bool" where
  "state_plain s \<longleftrightarrow> (\<forall>f \<in> set (ps_files s). \<forall>h \<in> set (fd_hunks f). \<forall>l \<in> set (hk_lines h). plain l)
     \<and> (\<forall>h \<in> set (ps_hunks s). \<forall>l \<in> set (hk_lines h). plain l) \<and> (\<forall>h ls. ps_current s = Some (h, ls) \<longrightarrow> (\<forall>l \<in> set ls. plain l))"

lemma flush_plain: "state_plain s \<Longrightarrow> state_plain (flush_hunk s)" "state_plain s \<Longrightarrow> state_plain (flush_file s)"
  by (auto simp: state_plain_def flush_hunk_def flush_file_def Let_def split: option.splits)

lemma parse_line_plain: "plain raw \<Longrightarrow> state_plain s \<Longrightarrow> parse_line raw s = Inr s' \<Longrightarrow> state_plain s'"
  using flush_plain[of s] by (auto simp: parse_line_def state_plain_def is_break_def split: if_splits option.splits)

lemma parse_lines_plain: "\<forall>r \<in> set raws. plain r \<Longrightarrow> state_plain s \<Longrightarrow> parse_lines raws s = Inr s' \<Longrightarrow> state_plain s'"
  by (induction raws arbitrary: s) (auto dest: parse_line_plain)

lemma parsed_plain:
  assumes "parse_unified_diff d = Inr fs" and "f \<in> set fs" and "h \<in> set (fd_hunks f)" and "l \<in> set (hk_lines h)"
  shows "plain l"
proof -
  obtain s where s: "parse_lines (splitlines d) parse_start = Inr s" "fs = ps_files (flush_file s)"
    using assms(1) by (auto simp: parse_unified_diff_def Let_def split: if_splits)
  have "state_plain parse_start" by (simp add: state_plain_def parse_start_def)
  then have "state_plain (flush_file s)" using parse_lines_plain[OF _ _ s(1)] splitlines_plain flush_plain by blast
  then show ?thesis using assms(2-4) s(2) by (auto simp: state_plain_def)
qed

lemma payload_plain:
  "\<forall>l \<in> set ls. plain l \<Longrightarrow> hunk_payload ls = (pre, post) \<Longrightarrow> m \<in> set pre \<Longrightarrow> c \<in> set m \<Longrightarrow> is_break c \<Longrightarrow> c = newline"
proof (induction ls arbitrary: pre post)
  case (Cons l ls)
  obtain pre' post' where p: "hunk_payload ls = (pre', post')" by (rule prod.exhaust)
  have "\<not> is_break c" if "c \<in> set (tl l)" using Cons.prems(1) that by (cases l) (auto simp: plain_def)
  then show ?case using Cons.prems Cons.IH[OF _ p] p by (auto simp: Let_def split: if_splits)
qed simp

lemma apply_hunks_matches:
  "apply_hunks lines cursor hs = Inr out \<Longrightarrow> h \<in> set hs \<Longrightarrow> hunk_payload (hk_lines h) = (pre, post) \<Longrightarrow>
   0 \<le> hunk_start h \<and> slice lines (nat (hunk_start h)) (nat (hunk_start h) + length pre) = pre"
  by (induction hs arbitrary: cursor out) (auto simp: Let_def split: if_splits prod.splits)

lemma nth_of_slice: "slice xs i (i + length ys) = ys \<Longrightarrow> t < length ys \<Longrightarrow> ys ! t = xs ! (i + t)"
proof -
  assume eq: "slice xs i (i + length ys) = ys" and t: "t < length ys"
  have len: "length ys \<le> length xs - i" using arg_cong[OF eq, of length] by (simp add: slice_def)
  have "take (length ys) (drop i xs) ! t = xs ! (i + t)" using t len by simp
  then show ?thesis using eq by (simp add: slice_def)
qed

text \<open>
  A line of the text that ends in another break than a newline, such as a form feed or a carriage return, matches no line of any diff:
  a diff with a hunk that covers it is refused, also the diff the module itself printed for this text.
\<close>

theorem foreign_break_is_refused:
  assumes "parse_unified_diff d = Inr [f]" and "h \<in> set (fd_hunks f)" and "hunk_payload (hk_lines h) = (pre, post)"
    and "hunk_start h \<le> int k" and "int k < hunk_start h + int (length pre)"
    and "c \<in> set (splitlines_keep x ! k)" and "is_break c" and "c \<noteq> newline"
  shows "\<exists>e. apply_in_memory x d = Inl e"
proof (rule ccontr)
  assume "\<nexists>e. apply_in_memory x d = Inl e"
  then obtain y where "apply_in_memory x d = Inr y" by (metis obj_sumE)
  then obtain ys where "apply_hunks (splitlines_keep x) 0 (sort_key hk_old_start (fd_hunks f)) = Inr ys"
    unfolding apply_in_memory_Inr using assms(1) by auto
  then have m: "0 \<le> hunk_start h" "slice (splitlines_keep x) (nat (hunk_start h)) (nat (hunk_start h) + length pre) = pre"
    using apply_hunks_matches[of "splitlines_keep x" 0 _ ys h pre post] assms(2,3) by auto
  have k: "k - nat (hunk_start h) < length pre" "nat (hunk_start h) \<le> k" using assms(4,5) m(1) by linarith+
  then have "pre ! (k - nat (hunk_start h)) = splitlines_keep x ! k" using nth_of_slice[OF m(2) k(1)] by simp
  then have "c \<in> set (pre ! (k - nat (hunk_start h)))" using assms(6) by simp
  then have "c = newline"
    using payload_plain[OF _ assms(3) nth_mem[OF k(1)] _ assms(7)] parsed_plain[OF assms(1) _ assms(2)] by auto
  then show False using assms(8) by simp
qed

section \<open>The check and the writer\<close>

text \<open>Where a path leads from a directory, reading it segment by segment.\<close>

definition resolve :: "string list \<Rightarrow> string list \<Rightarrow> string list" where
  "resolve start parts = fold (\<lambda>s dir. if s = ''..'' then butlast dir else dir @ [s]) parts start"

lemma resolve_plain: "''..'' \<notin> set parts \<Longrightarrow> resolve dir parts = dir @ parts"
  unfolding resolve_def by (induction parts arbitrary: dir) auto

definition stays_in :: "string \<Rightarrow> string \<Rightarrow> bool" where
  "stays_in subtree path \<longleftrightarrow> path_root path = []
     \<and> (\<forall>dir. \<exists>rest. resolve dir (path_parts path) = dir @ (if subtree = [] then [] else path_parts subtree) @ rest)"

lemma not_escapes: "\<not> escapes path subtree \<Longrightarrow> stays_in subtree path"
  unfolding escapes_def stays_in_def by (auto simp: resolve_plain) (metis append_take_drop_id)+

lemma check_diff_None:
  assumes "check_diff d sub mb allow (Some p) = None"
  shows "\<exists>paths. diff_paths d = Inr paths \<and> p \<in> set paths \<and> (allow \<or> (\<forall>q \<in> set paths. stays_in sub q))"
proof -
  obtain paths where p: "diff_paths d = Inr paths" using assms by (cases "diff_paths d") (auto simp: check_diff_def split: if_splits)
  then have "p \<in> set paths" "allow \<or> sort (filter (\<lambda>p. escapes p sub) paths) = []"
    using assms by (auto simp: check_diff_def Let_def split: if_splits)
  then have "allow \<or> (\<forall>q \<in> set paths. \<not> escapes q sub)"
    by (metis (no_types, lifting) filter_empty_conv length_0_conv length_sort)
  then show ?thesis using p \<open>p \<in> set paths\<close> not_escapes by blast
qed

lemma apply_patch_writes:
  assumes "apply_patch git probe patch sub mb allow w = (w1, r1)" and "w1 \<noteq> w \<or> (\<exists>r. r1 = Some r \<and> ar_ok r)"
  shows "check_diff (fp_diff patch) sub mb allow (Some (fp_path patch)) = None"
    and "w1 \<noteq> w \<Longrightarrow> w1 = fst (git_apply git w (terminated (fp_diff patch))) \<and> git_check git w False (terminated (fp_diff patch)) = Some True"
    and "r1 = Some r \<Longrightarrow> ar_ok r \<Longrightarrow>
      git_check git w1 True (terminated (fp_diff patch)) = Some True \<or> git_apply git w (terminated (fp_diff patch)) = (w1, True)"
  using assms by (auto simp: apply_patch_def refused_def Let_def split: option.splits bool.splits prod.splits if_splits)

text \<open>
  C15: With writing outside the subtree not allowed, the worktree changes only by the one \<open>git apply\<close> of a diff that was parsed, that Git checked, that
  names the declared path, and all of whose paths the parser sees stay inside the subtree of the repository. The parser sees the paths of the sections with file
  headers; a section that only renames has none. A patch that was written, or was found applied, is found applied when it is
  applied again, and the worktree stays as it is.
\<close>

theorem patches_stay_in_their_subtree:
  assumes "apply_patch git probe patch sub mb False w = (w1, r1)"
    and "\<forall>v d v'. git_apply git v d = (v', True) \<longrightarrow> git_check git v' True d = Some True"
  shows "(w1 \<noteq> w \<longrightarrow> w1 = fst (git_apply git w (terminated (fp_diff patch)))
      \<and> git_check git w False (terminated (fp_diff patch)) = Some True
      \<and> (\<exists>paths. diff_paths (fp_diff patch) = Inr paths \<and> fp_path patch \<in> set paths \<and> (\<forall>q \<in> set paths. stays_in sub q)))
    \<and> (\<forall>r. r1 = Some r \<and> ar_ok r \<longrightarrow>
        (\<exists>r2. apply_patch git probe patch sub mb False w1 = (w1, Some r2) \<and> ar_ok r2 \<and> ar_already_applied r2))"
proof -
  note wrote = apply_patch_writes[OF assms(1)]
  have "\<exists>r2. apply_patch git probe patch sub mb False w1 = (w1, Some r2) \<and> ar_ok r2 \<and> ar_already_applied r2" if "r1 = Some r" "ar_ok r" for r
  proof -
    have "git_check git w1 True (terminated (fp_diff patch)) = Some True" using wrote(3)[OF _ that] that assms(2) by blast
    then show ?thesis using wrote(1) that by (simp add: apply_patch_def Let_def)
  qed
  moreover have "\<exists>paths. diff_paths (fp_diff patch) = Inr paths \<and> fp_path patch \<in> set paths \<and> (\<forall>q \<in> set paths. stays_in sub q)" if "w1 \<noteq> w"
    using check_diff_None wrote(1) that by blast
  ultimately show ?thesis using wrote(2) by blast
qed

lemma splitlines_preamble: "\<forall>r \<in> set rs. plain r \<Longrightarrow> splitlines (concat (map (\<lambda>r. r @ [newline]) rs) @ d) = rs @ splitlines d"
  by (induction rs) (auto simp: splitlines_def splitlines_keep_line chop_line)

definition rename_section :: "string \<Rightarrow> string \<Rightarrow> string" where
  "rename_section src dst = concat (map (\<lambda>r. r @ [newline])
     [''diff --git a/'' @ src @ '' b/'' @ dst, ''similarity index 100%'', ''rename from '' @ src, ''rename to '' @ dst])"

text \<open>
  A file section that only renames has no hunks, so its paths are not seen: whatever file it moves and wherever to, a diff with such a section in
  front is accepted exactly when the diff without it is.
\<close>

theorem pure_rename_is_not_checked:
  assumes "plain src" and "plain dst"
  shows "check_diff (rename_section src dst @ d) sub None allow declared = check_diff d sub None allow declared"
proof -
  let ?rs = "[''diff --git a/'' @ src @ '' b/'' @ dst, ''similarity index 100%'', ''rename from '' @ src, ''rename to '' @ dst]"
  have "\<forall>r \<in> set ?rs. plain r" using assms by (simp add: is_break_def)
  then have "splitlines (rename_section src dst @ d) = ?rs @ splitlines d" unfolding rename_section_def by (rule splitlines_preamble)
  moreover have "parse_lines (?rs @ ls) parse_start = parse_lines ls parse_start" for ls
    by (simp add: parse_line_def parse_start_def)
  ultimately have "parse_unified_diff (rename_section src dst @ d) = parse_unified_diff d" by (simp add: parse_unified_diff_def)
  then show ?thesis by (simp add: check_diff_def diff_paths_def)
qed

section \<open>Concrete diffs\<close>

definition lines_text :: "string list \<Rightarrow> string" where
  "lines_text ls = concat (map (\<lambda>l. l @ [newline]) ls)"

definition query_text :: string where
  "query_text = lines_text [''a'', ''-- b'', ''c'']"

lemma query_diff: "make_unified_diff ''q'' query_text (lines_text [''a'', ''c'']) 3 =
    lines_text [''--- a/q'', ''+++ b/q'', ''@@ -1,3 +1,2 @@'', '' a'', ''--- b'', '' c'']"
  by code_simp

lemma parse_lines_append: "parse_lines (xs @ ys) s = rbind (parse_lines xs s) (parse_lines ys)"
  by (induction xs arbitrary: s) (auto simp: rbind_def split: sum.splits)

lemma parse_idle: "\<forall>r \<in> set rs. inert r \<Longrightarrow> ps_current s = None \<Longrightarrow> parse_lines rs s = Inr s"
  by (induction rs) (auto simp: parse_line_def inert_def)

text \<open>
  C39: A removed line that begins with two hyphens and a blank, a comment in several languages, is read as a file header. It and the rest of its hunk are
  lost: where nothing follows it but the body of its own hunk (no line that begins another hunk or a file header), the diff is read, without an error, as if
  it ended before that line. With another hunk behind it the parser raises an error instead.
\<close>

theorem removed_comment_cuts_the_diff:
  assumes "\<forall>l \<in> set (ls @ tail). plain l" and "plain w" and "\<forall>l \<in> set tail. inert l"
  shows "parse_unified_diff (lines_text (ls @ (''--- '' @ w) # tail)) = parse_unified_diff (lines_text ls)"
proof -
  have "\<forall>l \<in> set (ls @ (''--- '' @ w) # tail). plain l" using assms(1,2) by (auto simp: is_break_def)
  then have "splitlines (lines_text (ls @ (''--- '' @ w) # tail)) = ls @ (''--- '' @ w) # tail" unfolding lines_text_def by (rule splitlines_printed)
  moreover have "splitlines (lines_text ls) = ls" unfolding lines_text_def using assms(1) by (intro splitlines_printed) simp
  ultimately have lines: "splitlines (lines_text (ls @ (''--- '' @ w) # tail)) = ls @ (''--- '' @ w) # tail" "splitlines (lines_text ls) = ls" .
  have cut: "parse_lines ((''--- '' @ w) # tail) s = Inr ((flush_file s)\<lparr>ps_old := Some (strip_prefix w)\<rparr>)" for s
  proof -
    have "ps_current ((flush_file s)\<lparr>ps_old := Some (strip_prefix w)\<rparr>) = None" by (simp add: flush_file_def Let_def)
    from parse_idle[OF assms(3) this] show ?thesis by (simp add: parse_line_def)
  qed
  have files: "ps_files (flush_file ((flush_file s)\<lparr>ps_old := Some q\<rparr>)) = ps_files (flush_file s)" for s q
    by (simp add: flush_file_def flush_hunk_def Let_def split: option.splits)
  have "parse_lines (ls @ (''--- '' @ w) # tail) parse_start =
      rbind (parse_lines ls parse_start) (\<lambda>s. Inr ((flush_file s)\<lparr>ps_old := Some (strip_prefix w)\<rparr>))"
    unfolding parse_lines_append cut ..
  then show ?thesis unfolding parse_unified_diff_def lines by (cases "parse_lines ls parse_start") (simp_all only: rbind_simps files)
qed

theorem removed_comment_cuts_the_diff_witness:
  "apply_in_memory query_text (make_unified_diff ''q'' query_text (lines_text [''a'', ''c'']) 3) = Inr query_text"
proof -
  have "parse_unified_diff (lines_text ([''--- a/q'', ''+++ b/q'', ''@@ -1,3 +1,2 @@'', '' a''] @ (''--- '' @ ''b'') # ['' c'']))
      = parse_unified_diff (lines_text [''--- a/q'', ''+++ b/q'', ''@@ -1,3 +1,2 @@'', '' a''])"
    by (rule removed_comment_cuts_the_diff) (code_simp+)
  moreover have "apply_in_memory query_text (lines_text [''--- a/q'', ''+++ b/q'', ''@@ -1,3 +1,2 @@'', '' a'']) = Inr query_text" by code_simp
  ultimately show ?thesis unfolding query_diff by (simp add: apply_in_memory_def)
qed

definition blank_text :: string where
  "blank_text = lines_text [''a'', ''b'', '''']"

lemma blank_diff: "make_unified_diff ''f'' blank_text (lines_text [''c'', ''b'', '''']) 3 =
    lines_text [''--- a/f'', ''+++ b/f'', ''@@ -1,3 +1,3 @@'', ''-a'', ''+c'', '' b'', '' '']"
  by code_simp

lemma strip_tail:
  assumes "\<not> model_space (hd s)" and "s \<noteq> []" and "\<not> model_space (last s)" and "\<forall>c \<in> set t. model_space c"
  shows "model_strip (s @ t) = s"
proof -
  have "dropWhile model_space (s @ t) = s @ t" using assms(1,2) by (cases s) auto
  moreover have "dropWhile model_space (rev t @ rev s) = rev s"
  proof -
    have "dropWhile model_space (rev t @ rev s) = dropWhile model_space (rev s)" using assms(4) by (intro dropWhile_append2) auto
    also have "\<dots> = rev s" using assms(2,3) by (cases s rule: rev_cases) auto
    finally show ?thesis .
  qed
  ultimately show ?thesis by (simp add: model_strip_def)
qed

lemma strip_terminated:
  assumes "\<not> model_space (hd s)" and "s \<noteq> []" and "\<not> model_space (last s)"
  shows "terminated (model_strip (s @ [newline])) = s @ [newline]"
proof -
  have "model_space newline" by code_simp
  then have "model_strip (s @ [newline]) = s" using strip_tail[OF assms, of "[newline]"] by simp
  moreover have "last s \<noteq> newline" using assms(3) \<open>model_space newline\<close> by metis
  then have "\<not> ends_with [newline] s" using assms(2) by (cases s rule: rev_cases) (auto simp: ends_with_def)
  ultimately show ?thesis by (simp add: terminated_def)
qed

text \<open>
  A diff the module prints begins with a hyphen and ends in a newline. Where the character before that newline is visible, the file that is
  handed to Git is the printed diff.
\<close>

lemma terminated_strip_printed:
  assumes "removable x" and "addable y" and "x \<noteq> y" and "header_path path"
    and "\<not> model_space (last (butlast (make_unified_diff path x y n)))"
  shows "terminated (model_strip (make_unified_diff path x y n)) = make_unified_diff path x y n"
proof -
  let ?a = "splitlines_keep x" and ?b = "splitlines_keep y"
  let ?rs = "(''+++ b/'' @ path) # concat (map (group_raws ?a ?b) (get_grouped_opcodes n ?a ?b))"
  have "\<forall>g \<in> set (get_grouped_opcodes n ?a ?b). \<forall>c \<in> set (group_cells ?a ?b g). printable c" using cells_printable[OF assms(1,2)] by auto
  from make_unified_diff_text[OF this assms(3) differing_groups[OF assms(3)]]
  have d: "make_unified_diff path x y n = CHR ''-'' # ''-- a/'' @ path @ [newline] @ concat (map (\<lambda>r. r @ [newline]) ?rs)" by simp
  have "?rs \<noteq> []" by simp
  then obtain ks k where "?rs = ks @ [k]" by (metis rev_exhaust)
  then have "make_unified_diff path x y n = (CHR ''-'' # ''-- a/'' @ path @ [newline] @ concat (map (\<lambda>r. r @ [newline]) ks) @ k) @ [newline]"
    unfolding d by (simp del: append_Cons)
  then obtain s where s: "make_unified_diff path x y n = s @ [newline]" "s \<noteq> []" "hd s = CHR ''-''" by (metis list.sel(1) list.simps(3))
  have "\<not> model_space (hd s)" unfolding s(3) by code_simp
  then show ?thesis using strip_terminated[of s] s assms(5) by simp
qed

text \<open>
  A diff whose last line is blank context loses that line on its way to Git. Building the patch strips white space at its end and only the newline is
  restored, so the file handed to Git ends one line earlier, while the header of its last hunk still counts it.
\<close>

theorem stripped_patch_loses_a_line:
  assumes "ls \<noteq> []" and "hd ls \<noteq> []" and "\<not> model_space (hd (hd ls))" and "last ls \<noteq> []" and "\<not> model_space (last (last ls))"
  shows "terminated (fp_diff (new_file_patch path (lines_text (ls @ ['' ''])) ok rule)) = lines_text ls"
proof -
  have nl: "model_space newline" "model_space (CHR '' '')" by code_simp+
  obtain ks k where ls: "ls = ks @ [k]" "k \<noteq> []" "\<not> model_space (last k)" using assms(1,4,5) by (cases ls rule: rev_cases) auto
  let ?s = "lines_text ks @ k"
  have "hd ?s = hd (hd ls)" using assms(2) ls by (cases ks) (simp_all add: lines_text_def)
  moreover have "last ?s = last k" using ls(2) by simp
  ultimately have "model_strip (?s @ [newline, CHR '' '', newline]) = ?s" using assms(3) ls(2,3) nl by (intro strip_tail) auto
  moreover have "lines_text (ls @ ['' '']) = ?s @ [newline, CHR '' '', newline]" "lines_text ls = ?s @ [newline]" by (simp_all add: ls(1) lines_text_def)
  moreover have "terminated ?s = ?s @ [newline]"
    using ls(2,3) nl by (auto simp: terminated_def ends_with_newline)
  ultimately show ?thesis by (simp add: new_file_patch_def)
qed

theorem stripped_patch_loses_a_line_witness:
  "\<exists>f h. parse_unified_diff (terminated (fp_diff (new_file_patch ''f'' (make_unified_diff ''f'' blank_text (lines_text [''c'', ''b'', '''']) 3) True None))) = Inr [f]
     \<and> fd_hunks f = [h] \<and> \<not> counted h"
proof -
  let ?ls = "[''--- a/f'', ''+++ b/f'', ''@@ -1,3 +1,3 @@'', ''-a'', ''+c'', '' b'']"
  let ?h = "\<lparr>hk_old_start = 1, hk_old_len = 3, hk_new_start = 1, hk_new_len = 3, hk_lines = [''-a'', ''+c'', '' b'']\<rparr>"
  have "terminated (fp_diff (new_file_patch ''f'' (lines_text (?ls @ ['' ''])) True None)) = lines_text ?ls"
    by (rule stripped_patch_loses_a_line) (simp_all add: model_space_def)
  moreover have "parse_unified_diff (lines_text ?ls) = Inr [\<lparr>fd_old_path = ''f'', fd_new_path = ''f'', fd_hunks = [?h]\<rparr>]" "\<not> counted ?h"
    by code_simp+
  ultimately show ?thesis unfolding blank_diff by simp
qed

theorem diff_round_trip_witness:
  "apply_in_memory blank_text (make_unified_diff ''f'' blank_text (lines_text [''c'', ''b'', '''']) 3) = Inr (lines_text [''c'', ''b'', ''''])"
proof -
  have "removable blank_text" "addable (lines_text [''c'', ''b'', ''''])" "header_path ''f''" by code_simp+
  moreover have "blank_text \<noteq> lines_text [''c'', ''b'', '''']" by code_simp
  ultimately show ?thesis using diff_round_trip[of blank_text "lines_text [''c'', ''b'', '''']" "''f''" 3] by blast
qed

definition paged_text :: string where
  "paged_text = ''a'' @ [CHR 0x0C] @ ''b'' @ [newline]"

definition paged_diff :: string where
  "paged_diff = lines_text [''--- a/f'', ''+++ b/f'', ''@@ -1,2 +1,1 @@'', ''-a'', '' b'']"

theorem foreign_break_is_refused_witness: "\<exists>e. apply_in_memory paged_text paged_diff = Inl e"
proof -
  let ?h = "\<lparr>hk_old_start = 1, hk_old_len = 2, hk_new_start = 1, hk_new_len = 1, hk_lines = [''-a'', '' b'']\<rparr>"
  let ?f = "\<lparr>fd_old_path = ''f'', fd_new_path = ''f'', fd_hunks = [?h]\<rparr>"
  have "parse_unified_diff paged_diff = Inr [?f]" "hunk_payload (hk_lines ?h) = ([''a'' @ [newline], ''b'' @ [newline]], [''b'' @ [newline]])"
      "splitlines_keep paged_text ! 0 = [CHR ''a'', CHR 0x0C]" "is_break (CHR 0x0C)" "CHR 0x0C \<noteq> newline" "hunk_start ?h = 0"
    by code_simp+
  then show ?thesis using foreign_break_is_refused[of paged_diff ?f ?h "[''a'' @ [newline], ''b'' @ [newline]]" "[''b'' @ [newline]]" 0 "CHR 0x0C" paged_text]
    by simp
qed

definition switch_git :: "bool git" where
  "switch_git = \<lparr>git_check = (\<lambda>w reverse d. Some (w = reverse)), git_apply = (\<lambda>w d. (True, \<not> w))\<rparr>"

definition switch_patch :: file_patch where
  "switch_patch = \<lparr>fp_path = ''npm/f'', fp_diff = lines_text [''--- a/npm/f'', ''+++ b/npm/f'', ''@@ -1,1 +1,1 @@'', ''-a'', ''+b''],
     fp_parse_probe_ok = False, fp_rule_id = None\<rparr>"

theorem patches_stay_in_their_subtree_witness:
  "\<exists>r1 r2. apply_patch switch_git None switch_patch ''npm'' None False False = (True, Some r1) \<and> ar_ok r1
     \<and> diff_paths (fp_diff switch_patch) = Inr [''npm/f''] \<and> stays_in ''npm'' ''npm/f''
     \<and> apply_patch switch_git None switch_patch ''npm'' None False True = (True, Some r2) \<and> ar_already_applied r2"
proof -
  let ?r = "\<lparr>ar_ok = True, ar_path = ''npm/f'', ar_reason = None, ar_parse_probe_ok = True, ar_already_applied = False\<rparr>"
  have p: "diff_paths (fp_diff switch_patch) = Inr [''npm/f'']" by code_simp
  have r: "apply_patch switch_git None switch_patch ''npm'' None False False = (True, Some ?r)" by code_simp
  have law: "\<forall>v d v'. git_apply switch_git v d = (v', True) \<longrightarrow> git_check switch_git v' True d = Some True" by (simp add: switch_git_def)
  from patches_stay_in_their_subtree[OF r law] p r show ?thesis by auto
qed

theorem pure_rename_is_not_checked_witness:
  "check_diff (rename_section ''npm/f'' ''maven/g'' @ fp_diff switch_patch) ''npm'' None False (Some ''npm/f'') = None"
proof -
  have "check_diff (fp_diff switch_patch) ''npm'' None False (Some ''npm/f'') = None" "plain ''npm/f''" "plain ''maven/g''" by code_simp+
  then show ?thesis using pure_rename_is_not_checked[of "''npm/f''" "''maven/g''" "fp_diff switch_patch" "''npm''" False "Some ''npm/f''"] by simp
qed

text \<open>The same loss at other ends: a context line that ends in a blank is refused, an added one loses it silently.\<close>

lemma stripped_context_is_refused:
  "apply_in_memory (lines_text [''a'', ''b ''])
     (fp_diff (new_file_patch ''f'' (make_unified_diff ''f'' (lines_text [''a'', ''b '']) (lines_text [''c'', ''b '']) 3) True None)) = Inl (HunkMismatch 1)"
  by code_simp

lemma stripped_addition_is_lost:
  "apply_in_memory (lines_text [''a'']) (fp_diff (new_file_patch ''f'' (make_unified_diff ''f'' (lines_text [''a'']) (lines_text [''b '']) 3) True None))
   = Inr (lines_text [''b''])"
  by code_simp

end
