(* ===== verification/Pipeline_Correct.thy ===== *)
theory Pipeline_Correct
  imports Rewrite_Pipeline Diff_Correct
begin

text \<open>
  The rewrite pipeline: the order of the rules is total, a run ends in a fixpoint of all rules or says why not, a conflict leaves the file alone, and the
  patch reproduces the text that was computed.
\<close>

section \<open>The order of the rules\<close>

lemma inj_rule_key: "distinct (map rr_id rs) \<Longrightarrow> inj_on rule_sort_key (set rs)"
  by (auto simp: inj_on_def rule_sort_key_def distinct_map)

text \<open>
  Two loads of one rule set give the same pipeline. Whatever order the rules come in, as long as their ids differ, construction
  fails with the same error or gives the same pipeline, with the rules by priority and then by id.
\<close>

theorem rule_order_is_total:
  assumes "mset rs = mset rs'" and "distinct (map rr_id rs)"
  shows "new_pipeline rs reg m params probe = new_pipeline rs' reg m params probe
    \<and> (\<forall>p. new_pipeline rs reg m params probe = Inr p \<longrightarrow>
         sorted (map rule_sort_key (pl_rules p)) \<and> mset (pl_rules p) = mset rs \<and> (\<forall>r \<in> set rs. dict_get reg (rr_engine r) \<noteq> None))"
proof -
  have "sort_key rule_sort_key rs = sort_key rule_sort_key rs'"
    using assms(1) inj_rule_key[OF assms(2)] by (intro sort_key_inj_key_eq) simp_all
  moreover have "\<forall>r \<in> set rs. dict_get reg (rr_engine r) \<noteq> None" if valid: "validate_rules reg (sort_key rule_sort_key rs) = Inr ()"
  proof
    fix r assume "r \<in> set rs"
    moreover obtain runs where "traverse (\<lambda>r. require reg (rr_engine r)) (sort_key rule_sort_key rs) = Inr runs"
      using valid unfolding validate_rules_def rbind_Inr_iff by blast
    ultimately obtain run where "require reg (rr_engine r) = Inr run" using traverse_InrD by fastforce
    then show "dict_get reg (rr_engine r) \<noteq> None" by (auto simp: require_def split: option.splits)
  qed
  ultimately show ?thesis using assms(1) by (auto simp: new_pipeline_def Let_def split: if_splits)
qed

section \<open>Passes\<close>

lemma make_unified_diff_empty: "make_unified_diff path x y n = [] \<longleftrightarrow> x = y"
proof
  assume d: "make_unified_diff path x y n = []"
  let ?a = "splitlines_keep x" and ?b = "splitlines_keep y"
  show "x = y"
  proof (rule ccontr)
    assume ne: "x \<noteq> y"
    have nl: "emit_line (l @ [newline]) = [l @ [newline]]" for l by (simp add: emit_line_def)
    have "get_grouped_opcodes n ?a ?b = []"
      using d ne nl[of "''--- a/'' @ path"] by (simp add: make_unified_diff_def unified_diff_def Let_def split: if_splits)
    then have "?a = ?b" using grouped_opcodes_ok[of ?a ?b n] same_span_slice[of ?a ?b 0 0 "length ?a" "length ?b"] by (simp add: slice_all)
    then show False using ne concat_splitlines_keep by metis
  qed
qed (simp add: make_unified_diff_def)

lemma finish_fields:
  "ro_text (finish p path source buffer applied k fs) = buffer" "ro_findings (finish p path source buffer applied k fs) = fs"
  "ro_passes (finish p path source buffer applied k fs) = k" "ro_advance_ladder (finish p path source buffer applied k fs)"
  "ro_patch (finish p path source buffer applied k fs) = None \<longleftrightarrow> buffer = source"
  using make_unified_diff_empty[of path source buffer 3] by (auto simp: finish_def Let_def)

text \<open>How the passes over one file end.\<close>

definition stable :: "pipeline \<Rightarrow> string \<Rightarrow> (string, string) dict \<Rightarrow> string \<Rightarrow> bool" where
  "stable p path params buffer \<longleftrightarrow> (\<exists>res. run_pass p path buffer params = Inr res \<and> pr_conflict res = None \<and> pr_text res = buffer)"

lemma pass_loop_ends:
  assumes "pass_loop p path source params n buffer applied k = Inr oc"
  shows "(\<exists>c j. oc = conflict_outcome path source c j \<and> j \<le> k + n)
    \<or> (\<exists>buf app j. oc = finish p path source buf app j [] \<and> j \<le> k + n \<and> stable p path params buf)
    \<or> (\<exists>buf app. oc = finish p path source buf app (k + n) [RuleOscillation path (pl_max_passes p) (sort app)])"
  using assms
proof (induction p path source params n buffer applied k rule: pass_loop.induct)
  case (2 p path source params left buffer applied k)
  obtain res where res: "run_pass p path buffer params = Inr res" using "2.prems" by auto
  show ?case
  proof (cases "pr_conflict res")
    case (Some c)
    then have "oc = conflict_outcome path source c (k + 1)" using "2.prems" res by simp
    then show ?thesis by (intro disjI1 exI[of _ c] exI[of _ "k + 1"]) simp
  next
    case None
    show ?thesis
    proof (cases "pr_text res = buffer")
      case True
      then have "oc = finish p path source buffer applied (k + 1) []" "stable p path params buffer" using "2.prems" res None by (auto simp: stable_def)
      then show ?thesis by (intro disjI2 disjI1 exI[of _ buffer] exI[of _ applied] exI[of _ "k + 1"]) simp
    next
      case False
      then have "pass_loop p path source params left (pr_text res) (fold insert_once (pr_rule_ids res) applied) (k + 1) = Inr oc"
        using "2.prems" res None by simp
      from "2.IH"[OF res None False this] show ?thesis by simp
    qed
  qed
qed auto

text \<open>
  C14: A file that was rewritten without a finding is a fixpoint: one more pass of all its rules leaves the text as it is. A conflict of two rules, and nothing
  else, keeps the ladder from advancing, and then the text is the old one and there is no patch. There is a patch exactly when the text changed, and
  never more passes than allowed.
\<close>

theorem rewrite_ends_in_fixpoint:
  assumes "rewrite_file p path source params = Inr oc"
  shows "(ro_findings oc = [] \<longrightarrow> stable p path (dict_update params (pl_params p)) (ro_text oc))
    \<and> (ro_advance_ladder oc \<longleftrightarrow> (\<forall>a b sp. RuleConflict path a b sp \<notin> set (ro_findings oc)))
    \<and> (\<not> ro_advance_ladder oc \<longrightarrow> ro_text oc = source)
    \<and> (ro_patch oc = None \<longleftrightarrow> ro_text oc = source) \<and> ro_passes oc \<le> nat (pl_max_passes p)"
proof -
  let ?ps = "dict_update params (pl_params p)"
  consider c j where "oc = conflict_outcome path source c j" "j \<le> nat (pl_max_passes p)"
    | buf app j where "oc = finish p path source buf app j []" "j \<le> nat (pl_max_passes p)" "stable p path ?ps buf"
    | buf app where "oc = finish p path source buf app (nat (pl_max_passes p)) [RuleOscillation path (pl_max_passes p) (sort app)]"
    using pass_loop_ends[OF assms[unfolded rewrite_file_def]] by auto
  then show ?thesis by cases (simp_all add: finish_fields conflict_outcome_def)
qed

lemma patch_diff:
  assumes "rewrite_file p path source params = Inr oc" and "ro_patch oc = Some patch"
  shows "fp_diff patch = model_strip (make_unified_diff path source (ro_text oc) 3)" "source \<noteq> ro_text oc"
proof -
  obtain buf app j fs where f: "oc = finish p path source buf app j fs"
    using pass_loop_ends[OF assms(1)[unfolded rewrite_file_def]] assms(2) by (auto simp: conflict_outcome_def)
  then show "source \<noteq> ro_text oc" using assms(2) finish_fields(1,5)[of p path source buf app j fs] by auto
  show "fp_diff patch = model_strip (make_unified_diff path source (ro_text oc) 3)"
    using assms(2) f finish_fields(1)[of p path source buf app j fs] by (auto simp: finish_def new_file_patch_def Let_def split: if_splits)
qed

text \<open>
  C19: The one patch of a file leads from its committed text to the text of the last pass, however many rules and passes produced it: the diff the patch
  carries is the diff of the two with the white space at its ends stripped, the file handed to Git is that diff again, and applied in memory it
  gives exactly the last text. This is so for the texts and paths whose diff can be read back (C13), when the last line of the diff ends in a
  visible character; a diff that ends in a blank loses it on its way.
\<close>

theorem patch_composes_the_rules:
  assumes "rewrite_file p path source params = Inr oc" and "ro_patch oc = Some patch"
    and "removable source" and "addable (ro_text oc)" and "header_path path"
    and "\<not> model_space (last (butlast (make_unified_diff path source (ro_text oc) 3)))"
  shows "fp_diff patch = model_strip (make_unified_diff path source (ro_text oc) 3)
    \<and> terminated (fp_diff patch) = make_unified_diff path source (ro_text oc) 3
    \<and> apply_in_memory source (terminated (fp_diff patch)) = Inr (ro_text oc)"
  using patch_diff[OF assms(1,2)] apply_printed[OF assms(3,4) _ assms(5)] terminated_strip_printed[OF assms(3,4) _ assms(5,6)] by simp

section \<open>Concrete runs\<close>

text \<open>An engine that replaces one text.\<close>

definition sample_engine :: engine_apply where
  "sample_engine r path src params =
     Inr (if src = lines_text [''a''] then Some (new_file_patch path (make_unified_diff path src (lines_text [''b'']) 3) True (Some (rr_id r))) else None)"

definition sample_rule :: rewrite_rule where
  "sample_rule = \<lparr>rr_id = ''r'', rr_engine = ''e'', rr_languages = [''python''], rr_applies_to = [''**/*''], rr_inline = True, rr_rule_file = None,
     rr_params = [], rr_priority = 100\<rparr>"

definition late_rule :: rewrite_rule where
  "late_rule = sample_rule\<lparr>rr_id := ''q'', rr_priority := 200\<rparr>"

definition sample_pipeline :: pipeline where
  "sample_pipeline = \<lparr>pl_rules = [sample_rule], pl_registry = [(''e'', sample_engine)], pl_max_passes = 3, pl_params = [], pl_probe = None\<rparr>"

theorem rule_order_is_total_witness:
  "new_pipeline [late_rule, sample_rule] [(''e'', sample_engine)] 3 [] None = new_pipeline [sample_rule, late_rule] [(''e'', sample_engine)] 3 [] None"
proof -
  have "mset [late_rule, sample_rule] = mset [sample_rule, late_rule]" "distinct (map rr_id [late_rule, sample_rule])"
    by (simp_all add: late_rule_def sample_rule_def)
  then show ?thesis using rule_order_is_total by blast
qed

definition sample_outcome :: rewrite_outcome where
  "sample_outcome = \<lparr>ro_path = ''x.py'', ro_text = lines_text [''b''],
     ro_patch = Some \<lparr>fp_path = ''x.py'', fp_diff = butlast (lines_text [''--- a/x.py'', ''+++ b/x.py'', ''@@ -1 +1 @@'', ''-a'', ''+b'']),
       fp_parse_probe_ok = False, fp_rule_id = Some ''r''\<rparr>,
     ro_findings = [], ro_applied_rule_ids = [''r''], ro_passes = 2, ro_advance_ladder = True\<rparr>"

lemma sample_run: "rewrite_file sample_pipeline ''x.py'' (lines_text [''a'']) [] = Inr sample_outcome"
  by code_simp

theorem rewrite_ends_in_fixpoint_witness: "stable sample_pipeline ''x.py'' [] (lines_text [''b''])"
  using rewrite_ends_in_fixpoint[OF sample_run] by (simp add: sample_outcome_def sample_pipeline_def)

theorem patch_composes_the_rules_witness:
  "\<exists>patch. ro_patch sample_outcome = Some patch \<and> apply_in_memory (lines_text [''a'']) (terminated (fp_diff patch)) = Inr (lines_text [''b''])"
proof -
  have ok: "removable (lines_text [''a''])" "addable (lines_text [''b''])" "header_path ''x.py''"
      "\<not> model_space (last (butlast (make_unified_diff ''x.py'' (lines_text [''a'']) (lines_text [''b'']) 3)))" by code_simp+
  have r: "ro_text sample_outcome = lines_text [''b'']" by (simp add: sample_outcome_def)
  obtain patch where p: "ro_patch sample_outcome = Some patch" by (simp add: sample_outcome_def)
  from patch_composes_the_rules[OF sample_run p, unfolded r, OF ok] p show ?thesis by blast
qed

end
