(* ===== verification/Approach.thy ===== *)
theory Approach
  imports Rewrite_Pipeline
begin

text \<open>
  The fingerprint of a proposed fix, \<open>src/fleet/rewrite/approach.py\<close>: the hunks of all diffs become elements of path, kind of change and enclosing
  symbol, and the sorted elements are hashed. \<open>ast-grep\<close> is a parameter: whether a text of a language, under a file suffix, holds a node of one of the
  given kinds; a missing or failing tool answers no. It is one function of its inputs here, so a tool that times out in one call and answers in
  another is not covered. SHA-256 is a parameter.
\<close>

datatype approach_change_kind =
    IMPORT_REWRITE | PACKAGE_DECL | PATH_ALIAS | SYMBOL_RENAME | DEP_ADD | DEP_REMOVE | FILE_ADD | FILE_DELETE | OTHER_CHANGE

fun change_kind_value :: "approach_change_kind \<Rightarrow> string" where
  "change_kind_value IMPORT_REWRITE = ''IMPORT_REWRITE''"
| "change_kind_value PACKAGE_DECL = ''PACKAGE_DECL''"
| "change_kind_value PATH_ALIAS = ''PATH_ALIAS''"
| "change_kind_value SYMBOL_RENAME = ''SYMBOL_RENAME''"
| "change_kind_value DEP_ADD = ''DEP_ADD''"
| "change_kind_value DEP_REMOVE = ''DEP_REMOVE''"
| "change_kind_value FILE_ADD = ''FILE_ADD''"
| "change_kind_value FILE_DELETE = ''FILE_DELETE''"
| "change_kind_value OTHER_CHANGE = ''OTHER''"

record approach_element =
  ae_path :: string
  ae_change_kind :: approach_change_kind
  ae_target_symbol :: string

type_synonym ast_grep = "string \<Rightarrow> string list \<Rightarrow> string \<Rightarrow> string \<Rightarrow> bool"

definition IMPORT_KINDS :: "(string, string list) dict" where
  "IMPORT_KINDS =
     [(''python'', [''import_statement'', ''import_from_statement'']), (''typescript'', [''import_statement'']), (''tsx'', [''import_statement'']),
      (''javascript'', [''import_statement'']), (''jsx'', [''import_statement'']), (''go'', [''import_declaration'']),
      (''java'', [''import_declaration'']), (''rust'', [''use_declaration''])]"

definition PACKAGE_KINDS :: "(string, string list) dict" where
  "PACKAGE_KINDS = [(''go'', [''package_clause'']), (''java'', [''package_declaration'']), (''scala'', [''package_clause''])]"

definition ident_start :: "char \<Rightarrow> bool" where
  "ident_start c \<longleftrightarrow> is_lower c \<or> (65 \<le> (of_char c :: nat) \<and> (of_char c :: nat) \<le> 90) \<or> c = CHR ''_''"

text \<open>\<open>_DEF_LINE\<close>: the name after a keyword that introduces a definition.\<close>

definition skip_blanks :: "string \<Rightarrow> string option" where
  "skip_blanks s = (if s \<noteq> [] \<and> py_space (hd s) then Some (dropWhile py_space s) else None)"

definition after_keyword :: "string \<Rightarrow> string option" where
  "after_keyword s =
     (case filter (\<lambda>kw. starts_with kw s \<and> skip_blanks (drop (length kw) s) \<noteq> None) [''def'', ''class'', ''function'', ''func''] of
        [] \<Rightarrow> None
      | kw # _ \<Rightarrow> skip_blanks (drop (length kw) s))"

definition without_async :: "string \<Rightarrow> string" where
  "without_async s =
     (if starts_with ''async'' s then (case skip_blanks (drop 5 s) of None \<Rightarrow> s | Some r \<Rightarrow> r) else s)"

definition def_name :: "string \<Rightarrow> string option" where
  "def_name l =
     (let body = dropWhile py_space (if l \<noteq> [] \<and> hd l \<in> {CHR ''+'', CHR ''-'', CHR '' ''} then tl l else l) in
      case after_keyword (without_async body) of
        None \<Rightarrow> None
      | Some r \<Rightarrow> if r \<noteq> [] \<and> ident_start (hd r) then Some (takeWhile (\<lambda>c. ident_start c \<or> is_digit c) r) else None)"

definition target_symbol :: "string list \<Rightarrow> string" where
  "target_symbol ls = fold (\<lambda>l candidate. case def_name l of None \<Rightarrow> candidate | Some name \<Rightarrow> name) ls []"

definition is_whitespace_only :: "string list \<Rightarrow> bool" where
  "is_whitespace_only ls \<longleftrightarrow> (case hunk_payload ls of (pre, post) \<Rightarrow> pieces py_space (concat pre) = pieces py_space (concat post))"

definition ast_grep_kind :: "ast_grep \<Rightarrow> string \<Rightarrow> string \<Rightarrow> string \<Rightarrow> approach_change_kind option" where
  "ast_grep_kind grep txt path lang =
     (let suffix = (if path_suffix path = [] then ''.txt'' else path_suffix path);
          found = (\<lambda>kinds. case kinds of None \<Rightarrow> False | Some ks \<Rightarrow> grep lang ks suffix txt) in
      if found (dict_get IMPORT_KINDS lang) then Some IMPORT_REWRITE
      else if found (dict_get PACKAGE_KINDS lang) then Some PACKAGE_DECL else None)"

definition classify :: "ast_grep \<Rightarrow> string list \<Rightarrow> string \<Rightarrow> approach_change_kind" where
  "classify grep ls path =
     (case hunk_payload ls of (pre, post) \<Rightarrow>
        let txt = (if post \<noteq> [] then concat post else concat pre);
            known = (case language_for_path path of
                       None \<Rightarrow> None
                     | Some lang \<Rightarrow> if strip txt \<noteq> [] then ast_grep_kind grep txt path lang else None) in
        case known of
          Some kind \<Rightarrow> kind
        | None \<Rightarrow> if post = [] then DEP_REMOVE else if pre = [] then DEP_ADD else OTHER_CHANGE)"

definition file_elements :: "ast_grep \<Rightarrow> file_diff \<Rightarrow> approach_element list" where
  "file_elements grep f =
     (if fd_old_path f = dev_null
      then map (\<lambda>_. \<lparr>ae_path = fd_path f, ae_change_kind = FILE_ADD, ae_target_symbol = []\<rparr>) (fd_hunks f)
      else if fd_new_path f = dev_null
      then map (\<lambda>_. \<lparr>ae_path = fd_path f, ae_change_kind = FILE_DELETE, ae_target_symbol = []\<rparr>) (fd_hunks f)
      else map (\<lambda>h. \<lparr>ae_path = fd_path f, ae_change_kind = classify grep (hk_lines h) (fd_path f), ae_target_symbol = target_symbol (hk_lines h)\<rparr>)
             (filter (\<lambda>h. \<not> is_whitespace_only (hk_lines h)) (fd_hunks f)))"

definition element_text :: "approach_element \<Rightarrow> string" where
  "element_text e = ae_path e @ [CHR 0x1F] @ change_kind_value (ae_change_kind e) @ [CHR 0x1F] @ ae_target_symbol e"

definition compute_approach_signature :: "(string \<Rightarrow> string) \<Rightarrow> ast_grep \<Rightarrow> string list \<Rightarrow> diff_error + string" where
  "compute_approach_signature sha grep texts =
     rbind (traverse parse_unified_diff texts)
       (\<lambda>parsed. Inr (sha (join newline (sort (map element_text (concat (map (file_elements grep) (concat parsed))))))))"

text \<open>What a hunk contributes: the two header paths and its lines, without its place.\<close>

definition hunk_contents :: "file_diff list \<Rightarrow> (string \<times> string \<times> string list) list" where
  "hunk_contents fs = concat (map (\<lambda>f. map (\<lambda>h. (fd_old_path f, fd_new_path f, hk_lines h)) (fd_hunks f)) fs)"

definition element_of :: "ast_grep \<Rightarrow> string \<times> string \<times> string list \<Rightarrow> approach_element list" where
  "element_of grep = (\<lambda>(old, new, ls). file_elements grep
     \<lparr>fd_old_path = old, fd_new_path = new, fd_hunks = [\<lparr>hk_old_start = 0, hk_old_len = 0, hk_new_start = 0, hk_new_len = 0, hk_lines = ls\<rparr>]\<rparr>)"

lemma elements_of_contents: "concat (map (file_elements grep) fs) = concat (map (element_of grep) (hunk_contents fs))"
proof -
  have "file_elements grep f = concat (map (element_of grep) (hunk_contents [f]))" for f
  proof -
    obtain old new hs where f: "f = \<lparr>fd_old_path = old, fd_new_path = new, fd_hunks = hs\<rparr>" by (cases f) auto
    show ?thesis unfolding f by (induction hs) (auto simp: file_elements_def hunk_contents_def element_of_def fd_path_def)
  qed
  then show ?thesis by (induction fs) (auto simp: hunk_contents_def)
qed

text \<open>
  A change of white space: a hunk of a file that is neither added nor deleted, whose removed and added lines, with the context, are the same
  words.
\<close>

definition blank_change :: "string \<times> string \<times> string list \<Rightarrow> bool" where
  "blank_change = (\<lambda>(old, new, ls). old \<noteq> dev_null \<and> new \<noteq> dev_null
     \<and> pieces py_space (concat (fst (hunk_payload ls))) = pieces py_space (concat (snd (hunk_payload ls))))"

lemma blank_contributes_nothing: "blank_change x \<Longrightarrow> element_of grep x = []"
  by (cases x) (auto simp: blank_change_def element_of_def file_elements_def is_whitespace_only_def split: prod.splits)

text \<open>
  C38: The signature of an approach sees neither where its changes stand nor changes of white space. Two candidates whose hunks, changes of
  white space aside, have the same lines in the same files, in whatever order, at whatever line numbers and however they are spread over
  diffs, have the same signature, when the classifier answers both the same way: hunks that only change white space in
  a modified file may come or go. A hunk of an added or deleted file counts whatever it holds.
\<close>

theorem approach_ignores_layout:
  assumes "traverse parse_unified_diff ds = Inr fss" and "traverse parse_unified_diff ds' = Inr fss'"
    and "mset (filter (\<lambda>x. \<not> blank_change x) (hunk_contents (concat fss))) = mset (filter (\<lambda>x. \<not> blank_change x) (hunk_contents (concat fss')))"
  shows "compute_approach_signature sha grep ds = compute_approach_signature sha grep ds'"
proof -
  have "mset (concat (map (element_of grep) xs)) = (\<Sum>x \<in># mset (filter (\<lambda>x. \<not> blank_change x) xs). mset (element_of grep x))" for xs
    by (induction xs) (auto simp: blank_contributes_nothing)
  then have "mset (concat (map (element_of grep) (hunk_contents (concat fss)))) = mset (concat (map (element_of grep) (hunk_contents (concat fss'))))"
    using assms(3) by metis
  then have "sort (map element_text (concat (map (file_elements grep) (concat fss)))) = sort (map element_text (concat (map (file_elements grep) (concat fss'))))"
    unfolding elements_of_contents by (metis mset_map mset_sort sorted_list_of_multiset_mset)
  then show ?thesis using assms(1,2) by (simp add: compute_approach_signature_def)
qed

definition fix_here :: string where
  "fix_here = concat (map (\<lambda>l. l @ [newline]) [''--- a/x'', ''+++ b/x'', ''@@ -1,1 +1,1 @@'', ''-a'', ''+b'', ''@@ -9,1 +9,1 @@'', '' func f'', ''-c'', ''+d''])"

definition fix_there :: string where
  "fix_there = concat (map (\<lambda>l. l @ [newline])
     [''--- a/x'', ''+++ b/x'', ''@@ -4,1 +4,1 @@'', '' func f'', ''-c'', ''+d'', ''@@ -12,1 +12,1 @@'', ''-a'', ''+b'', ''@@ -20,1 +20,1 @@'', ''-e  f'', ''+e f''])"

definition place_hunk :: "nat \<Rightarrow> string list \<Rightarrow> hunk" where
  "place_hunk n ls = \<lparr>hk_old_start = n, hk_old_len = 1, hk_new_start = n, hk_new_len = 1, hk_lines = ls\<rparr>"

theorem approach_ignores_layout_witness:
  "compute_approach_signature id (\<lambda>_ _ _ _. False) [fix_here] = compute_approach_signature id (\<lambda>_ _ _ _. False) [fix_there]"
proof -
  let ?f = "\<lambda>hs. \<lparr>fd_old_path = ''x'', fd_new_path = ''x'', fd_hunks = hs\<rparr>"
  let ?h = "?f [place_hunk 1 [''-a'', ''+b''], place_hunk 9 ['' func f'', ''-c'', ''+d'']]"
  let ?t = "?f [place_hunk 4 ['' func f'', ''-c'', ''+d''], place_hunk 12 [''-a'', ''+b''], place_hunk 20 [''-e  f'', ''+e f'']]"
  have "traverse parse_unified_diff [fix_here] = Inr [[?h]]" "traverse parse_unified_diff [fix_there] = Inr [[?t]]" by code_simp+
  moreover have "filter (\<lambda>x. \<not> blank_change x) (hunk_contents (concat [[?h]])) =
      [(''x'', ''x'', [''-a'', ''+b'']), (''x'', ''x'', ['' func f'', ''-c'', ''+d''])]"
    "filter (\<lambda>x. \<not> blank_change x) (hunk_contents (concat [[?t]])) =
      [(''x'', ''x'', ['' func f'', ''-c'', ''+d'']), (''x'', ''x'', [''-a'', ''+b''])]"
    by code_simp+
  ultimately show ?thesis
    using approach_ignores_layout[of "[fix_here]" "[[?h]]" "[fix_there]" "[[?t]]" id] by (simp add: add_mset_commute)
qed

end
