(* ===== verification/Git_Proc.thy ===== *)
theory Git_Proc
  imports Py_Text
begin

text \<open>
  Running a child process (\<open>src/fleet/util/proc.py\<close>): the deadline that is checked before anything is spawned, the bounded
  capture of its output and the result every caller classifies. The operating system is the argument \<open>spawn\<close>;
  a text is its bytes, so the capture is exact for texts of one byte per character. Times are milliseconds of
  the event loop's clock; redaction is an argument.
\<close>

section \<open>Bounded capture\<close>

definition LOG_TAIL_BYTES :: nat where
  "LOG_TAIL_BYTES = 32768"

definition HEAD_BYTES :: nat where
  "HEAD_BYTES = 8192"

definition truncate_tail :: "string \<Rightarrow> string" where
  "truncate_tail v =
     (if length v \<le> LOG_TAIL_BYTES then v
      else drop (length v - LOG_TAIL_BYTES) v @ newline # ''[truncated '' @ show_nat (length v - LOG_TAIL_BYTES) @ '' bytes]'')"

definition elision_marker :: "nat \<Rightarrow> string" where
  "elision_marker n = newline # ''[... '' @ show_nat n @ '' bytes elided ...]'' @ [newline]"

definition guard_slice :: "string \<Rightarrow> string" where
  "guard_slice v = truncate_tail v"

definition read_head_and_tail :: "(string \<Rightarrow> string) \<Rightarrow> string \<Rightarrow> string \<times> nat" where
  "read_head_and_tail redact content =
     (let sz = length content in
      if sz \<le> LOG_TAIL_BYTES then (redact (guard_slice content), sz)
      else
        let head = take HEAD_BYTES content;
            tail_budget = LOG_TAIL_BYTES - length head - length (elision_marker sz);
            tail = drop (max (length head) (sz - tail_budget)) content;
            elided = sz - length head - length tail;
            combined = (if 0 < elided then guard_slice head @ elision_marker elided @ guard_slice tail
                        else guard_slice head @ guard_slice tail) in
        (redact combined, sz))"

section \<open>Results\<close>

definition TIMEOUT_EXIT_CODE :: int where
  "TIMEOUT_EXIT_CODE = 124"

record proc_result =
  pr_argv :: "string list"
  pr_exit_code :: int
  pr_stdout_tail :: string
  pr_stderr_tail :: string
  pr_duration_ms :: int
  pr_timed_out :: bool
  pr_started :: bool
  pr_stdout_bytes :: nat
  pr_stderr_bytes :: nat

definition pr_ok :: "proc_result \<Rightarrow> bool" where
  "pr_ok r \<longleftrightarrow> pr_started r \<and> \<not> pr_timed_out r \<and> pr_exit_code r = 0"

definition stdout_truncated :: "proc_result \<Rightarrow> bool" where
  "stdout_truncated r \<longleftrightarrow> LOG_TAIL_BYTES < pr_stdout_bytes r"

definition stderr_truncated :: "proc_result \<Rightarrow> bool" where
  "stderr_truncated r \<longleftrightarrow> LOG_TAIL_BYTES < pr_stderr_bytes r"

definition is_producible_shape :: "bool \<Rightarrow> bool \<Rightarrow> int \<Rightarrow> bool" where
  "is_producible_shape started timed_out exit_code \<longleftrightarrow>
     (if \<not> started then timed_out \<and> exit_code = TIMEOUT_EXIT_CODE else True)"

definition no_verdict :: "proc_result \<Rightarrow> string option" where
  "no_verdict r =
     (if \<not> pr_started r then Some ''the command was never started: the deadline had already passed''
      else if pr_timed_out r then
        Some (''the command was killed at its deadline (exit '' @ show_int (pr_exit_code r) @ '')'')
      else None)"

section \<open>One invocation\<close>

datatype argv_error = EmptyArgv

definition validate_argv :: "string list \<Rightarrow> argv_error + string list" where
  "validate_argv argv = (if argv = [] then Inl EmptyArgv else Inr argv)"

text \<open>
  What the operating system reports of a child: its status, what it wrote to its two streams, how
  long it ran, and whether the deadline passed first, in which case the status is that of the killed process group.
\<close>

record child =
  ch_exit :: int
  ch_stdout :: string
  ch_stderr :: string
  ch_ms :: int
  ch_killed :: bool

type_synonym 'g spawn = "string list \<Rightarrow> int option \<Rightarrow> 'g \<Rightarrow> 'g \<times> child"

definition effective_deadline :: "int \<Rightarrow> int option \<Rightarrow> int option \<Rightarrow> int option" where
  "effective_deadline now deadline timeout =
     (case timeout of
        None \<Rightarrow> deadline
      | Some t \<Rightarrow> (case deadline of None \<Rightarrow> Some (now + t) | Some d \<Rightarrow> Some (min d (now + t))))"

definition run_locked ::
  "(string \<Rightarrow> string) \<Rightarrow> 'g spawn \<Rightarrow> string list \<Rightarrow> int option \<Rightarrow> int \<Rightarrow> 'g \<Rightarrow> 'g \<times> proc_result" where
  "run_locked redact spawn parts deadline started_at g =
     (if (case deadline of None \<Rightarrow> False | Some d \<Rightarrow> d \<le> started_at) then
        (g, \<lparr>pr_argv = parts, pr_exit_code = TIMEOUT_EXIT_CODE, pr_stdout_tail = [],
             pr_stderr_tail = ''deadline had already passed; process was not started'',
             pr_duration_ms = 0, pr_timed_out = True, pr_started = False, pr_stdout_bytes = 0, pr_stderr_bytes = 0\<rparr>)
      else
        let (g1, c) = spawn parts deadline g;
            (out_tail, out_bytes) = read_head_and_tail redact (ch_stdout c);
            (err_tail, err_bytes) = read_head_and_tail redact (ch_stderr c) in
        (g1, \<lparr>pr_argv = parts, pr_exit_code = ch_exit c, pr_stdout_tail = out_tail, pr_stderr_tail = err_tail,
              pr_duration_ms = ch_ms c, pr_timed_out = ch_killed c, pr_started = True,
              pr_stdout_bytes = out_bytes, pr_stderr_bytes = err_bytes\<rparr>))"

text \<open>
  \<open>run\<close> without a semaphore. The loop's clock is read once for the timeout and once more before the
  process is started; \<open>clock\<close> gives both readings.
\<close>

definition proc_run ::
  "(string \<Rightarrow> string) \<Rightarrow> 'g spawn \<Rightarrow> ('g \<Rightarrow> int \<times> int) \<Rightarrow> string list \<Rightarrow> int option \<Rightarrow> int option \<Rightarrow> 'g
   \<Rightarrow> 'g \<times> (argv_error + proc_result)" where
  "proc_run redact spawn clock argv deadline timeout g =
     (case validate_argv argv of
        Inl e \<Rightarrow> (g, Inl e)
      | Inr parts \<Rightarrow>
          let (g1, r) = run_locked redact spawn parts (effective_deadline (fst (clock g)) deadline timeout) (snd (clock g)) g in
          (g1, Inr r))"

section \<open>Facts about results and captures\<close>

lemma ok_has_verdict: "pr_ok r \<Longrightarrow> no_verdict r = None"
  by (simp add: pr_ok_def no_verdict_def)

lemma no_verdict_None_iff: "no_verdict r = None \<longleftrightarrow> pr_started r \<and> \<not> pr_timed_out r"
  by (simp add: no_verdict_def)

lemma run_shape:
  "proc_run redact spawn clock argv d t g = (g', Inr r) \<Longrightarrow> is_producible_shape (pr_started r) (pr_timed_out r) (pr_exit_code r)"
  by (auto simp: proc_run_def run_locked_def is_producible_shape_def Let_def split: sum.splits prod.splits if_splits)

lemma effective_deadline_tightens:
  "effective_deadline now (Some d) t = Some e \<Longrightarrow> e \<le> d"
  by (auto simp: effective_deadline_def split: option.splits)

lemma length_show_nat_mono: "m \<le> n \<Longrightarrow> length (show_nat m) \<le> length (show_nat n)"
proof (induction n arbitrary: m rule: show_nat.induct)
  case (1 n)
  then show ?case
    using div_le_mono[of m n 10] by (subst (1 2) show_nat.simps) (auto simp: less_Suc_eq_le)
qed

lemma length_show_nat_le: "n < 10 ^ Suc k \<Longrightarrow> length (show_nat n) \<le> Suc k"
proof (induction k arbitrary: n)
  case 0
  then show ?case by (simp add: show_nat.simps)
next
  case (Suc k)
  then have "n div 10 < 10 ^ Suc k" by (simp add: less_mult_imp_div_less mult.commute)
  from Suc.IH[OF this] show ?case by (subst show_nat.simps) auto
qed

lemma guard_slice_short: "length v \<le> LOG_TAIL_BYTES \<Longrightarrow> guard_slice v = v"
  by (simp add: guard_slice_def truncate_tail_def)

lemma capture_small: "length content \<le> LOG_TAIL_BYTES \<Longrightarrow> read_head_and_tail redact content = (redact content, length content)"
  by (simp add: read_head_and_tail_def guard_slice_short)

lemma length_elision_marker: "length (elision_marker n) = 25 + length (show_nat n)"
  by (simp add: elision_marker_def)

text \<open>A capture over the budget, read as its three parts.\<close>

definition tail_start :: "nat \<Rightarrow> nat" where
  "tail_start sz = sz - (LOG_TAIL_BYTES - HEAD_BYTES - length (elision_marker sz))"

lemma capture_large:
  assumes "LOG_TAIL_BYTES < length content"
  shows "read_head_and_tail redact content =
      (redact (take HEAD_BYTES content @ elision_marker (tail_start (length content) - HEAD_BYTES) @
               drop (tail_start (length content)) content), length content)"
proof -
  let ?n = "length content"
  have m: "0 < length (elision_marker ?n)" by (simp add: length_elision_marker)
  have h: "length (take HEAD_BYTES content) = HEAD_BYTES" using assms by (simp add: LOG_TAIL_BYTES_def HEAD_BYTES_def)
  have s: "HEAD_BYTES < tail_start ?n" "tail_start ?n \<le> ?n"
    using assms m by (auto simp: tail_start_def LOG_TAIL_BYTES_def HEAD_BYTES_def)
  have t: "length (drop (tail_start ?n) content) \<le> LOG_TAIL_BYTES" by (simp add: tail_start_def LOG_TAIL_BYTES_def HEAD_BYTES_def)
  have e: "?n - HEAD_BYTES - length (drop (tail_start ?n) content) = tail_start ?n - HEAD_BYTES" using s by simp
  have mx: "max HEAD_BYTES (?n - (LOG_TAIL_BYTES - HEAD_BYTES - length (elision_marker ?n))) = tail_start ?n"
    using s unfolding tail_start_def by linarith
  have "0 < tail_start ?n - HEAD_BYTES" using s by simp
  then show ?thesis
    using assms t guard_slice_short[of "take HEAD_BYTES content"] guard_slice_short[of "drop (tail_start ?n) content"]
    unfolding read_head_and_tail_def Let_def h mx e
    by (simp add: h LOG_TAIL_BYTES_def HEAD_BYTES_def)
qed

text \<open>For evaluation: a short text is returned as it is, with the bound compared in binary.\<close>

definition capture_parts :: "(string \<Rightarrow> string) \<Rightarrow> string \<Rightarrow> string \<times> nat" where
  "capture_parts redact content =
     (redact (take HEAD_BYTES content @ elision_marker (tail_start (length content) - HEAD_BYTES) @
              drop (tail_start (length content)) content), length content)"

lemma read_head_and_tail_code [code]:
  "read_head_and_tail redact content =
     (if int (length content) \<le> 32768 then (redact content, length content) else capture_parts redact content)"
proof -
  have "(length content \<le> LOG_TAIL_BYTES) = (int (length content) \<le> 32768)"
    unfolding LOG_TAIL_BYTES_def by (simp only: int_ops(3)[symmetric] zle_int)
  then show ?thesis
    by (cases "length content \<le> LOG_TAIL_BYTES") (simp_all add: capture_small capture_large capture_parts_def)
qed

lemma capture_bounded:
  assumes "length content < 10 ^ 20"
  shows "length (fst (read_head_and_tail id content)) \<le> LOG_TAIL_BYTES"
proof (cases "length content \<le> LOG_TAIL_BYTES")
  case False
  let ?n = "length content"
  have k: "length (show_nat ?n) \<le> 20"
    using length_show_nat_le[of ?n 19] assms by simp
  have "length (show_nat (tail_start ?n - HEAD_BYTES)) \<le> length (show_nat ?n)"
    by (rule length_show_nat_mono) (simp add: tail_start_def)
  then show ?thesis
    using False k
    by (simp add: capture_large length_elision_marker tail_start_def LOG_TAIL_BYTES_def HEAD_BYTES_def)
qed (simp add: capture_small)

lemma capture_revalidates:
  "length content < 10 ^ 20 \<Longrightarrow> truncate_tail (fst (read_head_and_tail id content)) = fst (read_head_and_tail id content)"
  using capture_bounded[of content] by (simp add: truncate_tail_def)

end
