(* ===== verification/Git_Client.thy ===== *)
theory Git_Client
  imports Git_Proc Unified_Diff
begin

text \<open>
  The typed Git surface (\<open>src/fleet/vcs/git.py\<close>): every method builds an argument vector, hands it to the runner and
  classifies the result. A method is a function of the outside world \<open>'g\<close> that returns the world afterwards and
  an error or a value; a failed command may have changed the world. Git itself is behind the runner.
\<close>

section \<open>Errors and sequencing\<close>

datatype git_error =
    GitCommandError "string list" int string bool bool \<comment> \<open>argv, exit code, stderr, timed out, started\<close>
  | GitRefError string
  | PatchApplyError
  | RollbackAnchorError
  | RollbackIndeterminateError
  | ArgvError argv_error
  | ValueError

definition is_command_error :: "git_error \<Rightarrow> bool" where
  "is_command_error e \<longleftrightarrow> (case e of GitCommandError _ _ _ _ _ \<Rightarrow> True | _ \<Rightarrow> False)"

text \<open>The subclasses of \<open>GitError\<close>.\<close>

definition is_git_error :: "git_error \<Rightarrow> bool" where
  "is_git_error e \<longleftrightarrow> (case e of ArgvError _ \<Rightarrow> False | ValueError \<Rightarrow> False | _ \<Rightarrow> True)"

type_synonym ('g, 'a) git_call = "'g \<Rightarrow> 'g \<times> (git_error + 'a)"

definition gret :: "'a \<Rightarrow> ('g, 'a) git_call" where
  "gret x g = (g, Inr x)"

definition gthrow :: "git_error \<Rightarrow> ('g, 'a) git_call" where
  "gthrow e g = (g, Inl e)"

definition gbind :: "('g, 'a) git_call \<Rightarrow> ('a \<Rightarrow> ('g, 'b) git_call) \<Rightarrow> ('g, 'b) git_call" where
  "gbind m f g = (case m g of (g1, Inl e) \<Rightarrow> (g1, Inl e) | (g1, Inr x) \<Rightarrow> f x g1)"

text \<open>\<open>except GitCommandError as exc: raise e from exc\<close>.\<close>

definition gmap_error :: "git_error \<Rightarrow> ('g, 'a) git_call \<Rightarrow> ('g, 'a) git_call" where
  "gmap_error e m g = (case m g of (g1, Inl x) \<Rightarrow> (g1, Inl (if is_command_error x then e else x)) | (g1, Inr y) \<Rightarrow> (g1, Inr y))"

section \<open>The client\<close>

record git_identity =
  gi_name :: string
  gi_email :: string

definition DEFAULT_IDENTITY :: git_identity where
  "DEFAULT_IDENTITY = \<lparr>gi_name = ''fleet-harness'', gi_email = ''fleet@localhost''\<rparr>"

definition config_args :: "git_identity \<Rightarrow> string list" where
  "config_args i = [''-c'', ''user.name='' @ gi_name i, ''-c'', ''user.email='' @ gi_email i, ''-c'', ''commit.gpgsign=false'']"

type_synonym 'g runner = "string list \<Rightarrow> int option \<Rightarrow> int option \<Rightarrow> 'g \<Rightarrow> 'g \<times> (argv_error + proc_result)"

record 'g git_cli =
  gt_path :: string
  gt_runner :: "'g runner"
  gt_bin :: string
  gt_identity :: git_identity
  gt_deadline :: "int option"
  gt_timeout :: "int option"
  gt_redact :: "string \<Rightarrow> string"

definition redact_argv :: "(string \<Rightarrow> string) \<Rightarrow> string list \<Rightarrow> string list" where
  "redact_argv redact argv = map redact argv"

definition command_error :: "'g git_cli \<Rightarrow> string list \<Rightarrow> proc_result \<Rightarrow> git_error" where
  "command_error G argv r =
     GitCommandError (redact_argv (gt_redact G) argv) (pr_exit_code r) (gt_redact G (pr_stderr_tail r)) (pr_timed_out r) (pr_started r)"

definition git_argv :: "'g git_cli \<Rightarrow> string list \<Rightarrow> bool \<Rightarrow> string list" where
  "git_argv G args with_identity =
     [gt_bin G, ''-C'', gt_path G] @ (if with_identity then config_args (gt_identity G) else []) @ args"

definition git_exec_at ::
  "'g git_cli \<Rightarrow> string list \<Rightarrow> bool \<Rightarrow> bool \<Rightarrow> int option \<Rightarrow> int option \<Rightarrow> ('g, proc_result) git_call" where
  "git_exec_at G args check with_identity deadline timeout g =
     (let parts = git_argv G args with_identity in
      case gt_runner G parts (if deadline = None then gt_deadline G else deadline)
             (if timeout = None then gt_timeout G else timeout) g of
        (g1, Inl e) \<Rightarrow> (g1, Inl (ArgvError e))
      | (g1, Inr r) \<Rightarrow> if check \<and> \<not> pr_ok r then (g1, Inl (command_error G parts r)) else (g1, Inr r))"

definition git_exec :: "'g git_cli \<Rightarrow> string list \<Rightarrow> bool \<Rightarrow> bool \<Rightarrow> ('g, proc_result) git_call" where
  "git_exec G args check with_identity = git_exec_at G args check with_identity None None"

definition require_settled :: "'g git_cli \<Rightarrow> proc_result \<Rightarrow> ('g, unit) git_call" where
  "require_settled G r =
     (case no_verdict r of None \<Rightarrow> gret () | Some _ \<Rightarrow> gthrow (command_error G (pr_argv r) r))"

definition git_text :: "'g git_cli \<Rightarrow> string list \<Rightarrow> ('g, string) git_call" where
  "git_text G args = gbind (git_exec G args True False) (\<lambda>r. gret (strip (pr_stdout_tail r)))"

text \<open>A \<open>check=False\<close> probe: nothing is read from a result that settles nothing.\<close>

definition git_probe :: "'g git_cli \<Rightarrow> string list \<Rightarrow> ('g, proc_result) git_call" where
  "git_probe G args =
     gbind (git_exec G args False False) (\<lambda>r. gbind (require_settled G r) (\<lambda>_. gret r))"

section \<open>Revisions and refs\<close>

definition git_resolve :: "'g git_cli \<Rightarrow> string \<Rightarrow> ('g, string option) git_call" where
  "git_resolve G revn =
     gbind (git_probe G [''rev-parse'', ''--verify'', ''--quiet'', revn @ ''^{commit}''])
       (\<lambda>r. let sha = strip (pr_stdout_tail r) in gret (if pr_ok r \<and> sha \<noteq> [] then Some sha else None))"

definition git_rev_parse :: "'g git_cli \<Rightarrow> string \<Rightarrow> ('g, string) git_call" where
  "git_rev_parse G revn = gbind (git_resolve G revn) (\<lambda>s. case s of None \<Rightarrow> gthrow (GitRefError revn) | Some sha \<Rightarrow> gret sha)"

definition git_ref_exists :: "'g git_cli \<Rightarrow> string \<Rightarrow> ('g, bool) git_call" where
  "git_ref_exists G ref = gbind (git_probe G [''show-ref'', ''--verify'', ''--quiet'', ref]) (\<lambda>r. gret (pr_ok r))"

definition git_run :: "'g git_cli \<Rightarrow> string list \<Rightarrow> ('g, unit) git_call" where
  "git_run G args = gbind (git_exec G args True False) (\<lambda>_. gret ())"

definition git_update_ref :: "'g git_cli \<Rightarrow> string \<Rightarrow> string \<Rightarrow> string option \<Rightarrow> ('g, unit) git_call" where
  "git_update_ref G ref new_value message =
     git_run G ([''update-ref''] @ (case message of None \<Rightarrow> [] | Some m \<Rightarrow> [''-m'', m]) @ [ref, new_value])"

definition git_delete_ref :: "'g git_cli \<Rightarrow> string \<Rightarrow> ('g, unit) git_call" where
  "git_delete_ref G ref = git_run G [''update-ref'', ''-d'', ref]"

definition git_list_refs :: "'g git_cli \<Rightarrow> string \<Rightarrow> ('g, string list) git_call" where
  "git_list_refs G pre =
     gbind (git_text G [''for-each-ref'', ''--format=%(refname)'', pre])
       (\<lambda>t. gret (filter (\<lambda>l. l \<noteq> []) (map strip (splitlines t))))"

definition git_current_branch :: "'g git_cli \<Rightarrow> ('g, string option) git_call" where
  "git_current_branch G =
     gbind (git_probe G [''symbolic-ref'', ''--quiet'', ''--short'', ''HEAD''])
       (\<lambda>r. let name = strip (pr_stdout_tail r) in gret (if pr_ok r \<and> name \<noteq> [] then Some name else None))"

definition git_create_branch :: "'g git_cli \<Rightarrow> string \<Rightarrow> string \<Rightarrow> bool \<Rightarrow> ('g, string) git_call" where
  "git_create_branch G name start_point force =
     gbind (git_run G (if force then [''branch'', ''--force'', name, start_point] else [''branch'', name, start_point]))
       (\<lambda>_. git_rev_parse G name)"

definition git_checkout :: "'g git_cli \<Rightarrow> string \<Rightarrow> bool \<Rightarrow> ('g, unit) git_call" where
  "git_checkout G revn detach = git_run G (if detach then [''checkout'', ''--detach'', revn] else [''checkout'', revn])"

definition git_remote_url :: "'g git_cli \<Rightarrow> string \<Rightarrow> ('g, string option) git_call" where
  "git_remote_url G remote =
     gbind (git_probe G [''remote'', ''get-url'', remote])
       (\<lambda>r. if \<not> pr_ok r then gret None
            else let url = gt_redact G (strip (pr_stdout_tail r)) in gret (if url = [] then None else Some url))"

section \<open>Worktree and patches\<close>

definition git_is_dirty :: "'g git_cli \<Rightarrow> ('g, bool) git_call" where
  "git_is_dirty G = gbind (git_text G [''status'', ''--porcelain'']) (\<lambda>t. gret (strip t \<noteq> []))"

definition git_merge_in_progress :: "'g git_cli \<Rightarrow> ('g, bool) git_call" where
  "git_merge_in_progress G = gbind (git_resolve G ''MERGE_HEAD'') (\<lambda>s. gret (s \<noteq> None))"

definition git_add_all :: "'g git_cli \<Rightarrow> ('g, unit) git_call" where
  "git_add_all G = git_run G [''add'', ''--all'']"

definition apply_check_args :: "string \<Rightarrow> bool \<Rightarrow> string list" where
  "apply_check_args patch reverse = [''apply'', ''--check''] @ (if reverse then [''--reverse''] else []) @ [patch]"

definition git_apply_check :: "'g git_cli \<Rightarrow> string \<Rightarrow> bool \<Rightarrow> ('g, bool) git_call" where
  "git_apply_check G patch reverse = gbind (git_probe G (apply_check_args patch reverse)) (\<lambda>r. gret (pr_ok r))"

definition git_apply_to :: "'g git_cli \<Rightarrow> string \<Rightarrow> bool \<Rightarrow> ('g, unit) git_call" where
  "git_apply_to G patch index =
     (if index then
        gbind (git_exec G [''update-index'', ''--refresh'', ''-q''] False False)
          (\<lambda>_. git_run G [''apply'', ''--index'', patch])
      else git_run G [''apply'', patch])"

section \<open>Commits\<close>

record commit_info =
  ci_sha :: string
  ci_subject :: string
  ci_trailers :: "(string, string list) dict"

definition trailer_values :: "commit_info \<Rightarrow> string \<Rightarrow> string list" where
  "trailer_values c key = (case dict_get (ci_trailers c) key of None \<Rightarrow> [] | Some vs \<Rightarrow> vs)"

definition ci_trailer :: "commit_info \<Rightarrow> string \<Rightarrow> string option" where
  "ci_trailer c key = (case trailer_values c key of [] \<Rightarrow> None | v # _ \<Rightarrow> Some v)"

definition commit_args ::
  "string \<Rightarrow> (string, string) dict \<Rightarrow> string option \<Rightarrow> bool \<Rightarrow> bool \<Rightarrow> string list" where
  "commit_args subject trailers body allow_empty no_verify =
     [''commit''] @ (if no_verify then [''--no-verify''] else []) @ (if allow_empty then [''--allow-empty''] else [])
     @ [''-m'', subject] @ (case body of None \<Rightarrow> [] | Some b \<Rightarrow> if b = [] then [] else [''-m'', b])
     @ concat (map (\<lambda>(key, value). [''--trailer'', key @ ''='' @ value]) trailers)"

definition git_commit ::
  "'g git_cli \<Rightarrow> string \<Rightarrow> (string, string) dict \<Rightarrow> string option \<Rightarrow> bool \<Rightarrow> bool \<Rightarrow> ('g, string) git_call" where
  "git_commit G subject trailers body allow_empty no_verify =
     gbind (git_exec G (commit_args subject trailers body allow_empty no_verify) True True)
       (\<lambda>_. git_rev_parse G ''HEAD'')"

definition US :: char where "US = CHR 0x1F"
definition RS :: char where "RS = CHR 0x1E"
definition NUL :: char where "NUL = CHR 0x00"

definition log_args :: "string \<Rightarrow> string list \<Rightarrow> nat option \<Rightarrow> string list \<Rightarrow> string list" where
  "log_args rev_range keys limit paths =
     [''log'', ''-z'',
      ''--format='' @ ''%H'' @ [US] @ ''%s'' @
        concat (map (\<lambda>key. US # ''%(trailers:key='' @ key @ '',valueonly,separator=%x1e)'') keys)]
     @ (case limit of None \<Rightarrow> [] | Some n \<Rightarrow> [''--max-count='' @ show_nat n])
     @ [rev_range] @ (if paths = [] then [] else ''--'' # paths)"

definition strip_newlines :: "string \<Rightarrow> string" where
  "strip_newlines s = rev (dropWhile (\<lambda>c. c = newline) (rev (dropWhile (\<lambda>c. c = newline) s)))"

definition trailer_field :: "string \<Rightarrow> string list" where
  "trailer_field raw = filter (\<lambda>v. v \<noteq> []) (map strip (split_on (\<lambda>c. c = RS) raw))"

fun trailer_dict :: "string list \<Rightarrow> string list \<Rightarrow> (string, string list) dict" where
  "trailer_dict [] raws = []"
| "trailer_dict (key # keys) raws =
     (let vs = (case raws of [] \<Rightarrow> [] | raw # _ \<Rightarrow> trailer_field raw); rest = trailer_dict keys (drop 1 raws) in
      if vs = [] then rest else (key, vs) # rest)"

definition parse_record :: "string list \<Rightarrow> string \<Rightarrow> commit_info list" where
  "parse_record keys rec =
     (let chunk = strip_newlines rec in
      if strip chunk = [] then []
      else
        let fields = split_on (\<lambda>c. c = US) chunk; sha = strip (hd fields) in
        if sha = [] then []
        else [\<lparr>ci_sha = sha, ci_subject = (case drop 1 fields of [] \<Rightarrow> [] | s # _ \<Rightarrow> s), ci_trailers = trailer_dict keys (drop 2 fields)\<rparr>])"

definition parse_log :: "string \<Rightarrow> string list \<Rightarrow> commit_info list" where
  "parse_log t keys = concat (map (parse_record keys) (split_on (\<lambda>c. c = NUL) t))"

definition git_log :: "'g git_cli \<Rightarrow> string \<Rightarrow> string list \<Rightarrow> nat option \<Rightarrow> string list \<Rightarrow> ('g, commit_info list) git_call" where
  "git_log G rev_range keys limit paths =
     gbind (git_text G (log_args rev_range keys limit paths)) (\<lambda>t. gret (parse_log t keys))"

definition git_find_trailer_commit :: "'g git_cli \<Rightarrow> string \<Rightarrow> string \<Rightarrow> string \<Rightarrow> ('g, string option) git_call" where
  "git_find_trailer_commit G rev_range key value =
     gbind (git_log G rev_range [key] None [])
       (\<lambda>cs. gret (map_option ci_sha (List.find (\<lambda>c. value \<in> set (trailer_values c key)) cs)))"

definition git_commit_time :: "(string \<Rightarrow> instant) \<Rightarrow> 'g git_cli \<Rightarrow> string \<Rightarrow> ('g, instant) git_call" where
  "git_commit_time fromisoformat G revn =
     gbind (git_text G [''log'', ''-1'', ''--format=%cI'', revn]) (\<lambda>raw. gret (fromisoformat raw))"

section \<open>Diff statistics\<close>

record file_stat =
  fs_path :: string
  fs_insertions :: nat
  fs_deletions :: nat
  fs_binary :: bool

definition diff_insertions :: "file_stat list \<Rightarrow> nat" where
  "diff_insertions fs = sum_list (map fs_insertions fs)"

definition diff_deletions :: "file_stat list \<Rightarrow> nat" where
  "diff_deletions fs = sum_list (map fs_deletions fs)"

text \<open>\<open>raw.split(' => ', 1)\<close> if the arrow occurs: the text before its first occurrence and the text after it.\<close>

fun split_arrow :: "string \<Rightarrow> (string \<times> string) option" where
  "split_arrow [] = None"
| "split_arrow (c # cs) =
     (if starts_with '' => '' (c # cs) then Some ([], drop 3 cs)
      else map_option (\<lambda>(a, b). (c # a, b)) (split_arrow cs))"

text \<open>The text after the last arrow: what the second group of the brace pattern matches, its first being greedy.\<close>

fun after_last_arrow :: "string \<Rightarrow> string option" where
  "after_last_arrow [] = None"
| "after_last_arrow (c # cs) =
     (case after_last_arrow cs of
        Some b \<Rightarrow> Some b
      | None \<Rightarrow> if starts_with '' => '' (c # cs) then Some (drop 3 cs) else None)"

definition is_brace :: "char \<Rightarrow> bool" where
  "is_brace c \<longleftrightarrow> c = CHR ''{'' \<or> c = CHR ''}''"

text \<open>The leftmost \<open>{old => new}\<close>, replaced by \<open>new\<close>.\<close>

fun unbrace :: "string \<Rightarrow> string option" where
  "unbrace [] = None"
| "unbrace (c # cs) =
     (let inner = takeWhile (\<lambda>d. \<not> is_brace d) cs; rest = dropWhile (\<lambda>d. \<not> is_brace d) cs in
      case (if c = CHR ''{'' \<and> starts_with ''}'' rest then after_last_arrow inner else None) of
        Some new \<Rightarrow> Some (new @ tl rest)
      | None \<Rightarrow> map_option (\<lambda>t. c # t) (unbrace cs))"

definition resolve_numstat_path :: "string \<Rightarrow> string" where
  "resolve_numstat_path raw =
     (case unbrace raw of
        Some p \<Rightarrow> p
      | None \<Rightarrow> (case split_arrow raw of Some (_, new) \<Rightarrow> new | None \<Rightarrow> raw))"

definition numstat_int :: "string \<Rightarrow> git_error + nat" where
  "numstat_int s = (if s = [] then Inr 0 else if list_all is_digit s then Inr (read_nat s) else Inl ValueError)"

definition numstat_line :: "string \<Rightarrow> git_error + file_stat list" where
  "numstat_line line =
     (let parts = split_on (\<lambda>c. c = CHR 0x09) line in
      if length parts < 3 then Inr []
      else
        let added = parts ! 0; removed = parts ! 1; path = resolve_numstat_path (last parts);
            binary = (added = ''-'' \<or> removed = ''-'') in
        rbind (if binary then Inr 0 else numstat_int added) (\<lambda>ins.
        rbind (if binary then Inr 0 else numstat_int removed) (\<lambda>del.
        Inr [\<lparr>fs_path = path, fs_insertions = ins, fs_deletions = del, fs_binary = binary\<rparr>])))"

definition parse_numstat :: "string \<Rightarrow> git_error + file_stat list" where
  "parse_numstat t = rbind (traverse numstat_line (splitlines t)) (\<lambda>fss. Inr (concat fss))"

definition git_diff_stat :: "'g git_cli \<Rightarrow> string list \<Rightarrow> bool \<Rightarrow> string list \<Rightarrow> ('g, file_stat list) git_call" where
  "git_diff_stat G args staged paths =
     gbind (git_text G ([''diff'', ''--numstat''] @ (if staged then [''--cached''] else []) @ args @ (if paths = [] then [] else ''--'' # paths)))
       (\<lambda>t g. (g, parse_numstat t))"

definition git_hash_object :: "'g git_cli \<Rightarrow> string \<Rightarrow> ('g, string) git_call" where
  "git_hash_object G path = git_text G [''hash-object'', ''--'', path]"

definition git_blob_at :: "'g git_cli \<Rightarrow> string \<Rightarrow> string \<Rightarrow> ('g, string option) git_call" where
  "git_blob_at G revn path =
     gbind (git_probe G [''rev-parse'', ''--verify'', ''-q'', revn @ '':'' @ path])
       (\<lambda>r. gret (if pr_ok r then Some (strip (pr_stdout_tail r)) else None))"

section \<open>Destructive commands\<close>

definition git_reset_hard :: "'g git_cli \<Rightarrow> string \<Rightarrow> ('g, unit) git_call" where
  "git_reset_hard G revn = git_run G [''reset'', ''--hard'', revn]"

definition git_clean :: "'g git_cli \<Rightarrow> bool \<Rightarrow> bool \<Rightarrow> ('g, unit) git_call" where
  "git_clean G directories ignored =
     git_run G [''clean'', ''-f'' @ (if directories then ''d'' else []) @ (if ignored then ''x'' else [])]"

definition git_is_ancestor :: "'g git_cli \<Rightarrow> string \<Rightarrow> string \<Rightarrow> ('g, bool) git_call" where
  "git_is_ancestor G a d = gbind (git_probe G [''merge-base'', ''--is-ancestor'', a, d]) (\<lambda>r. gret (pr_ok r))"

text \<open>\<open>rebase\<close> and \<open>revert\<close>: a conflict is a value, told from other failures by the pseudo-ref it leaves.\<close>

definition conflict_or_raise :: "'g git_cli \<Rightarrow> string \<Rightarrow> proc_result \<Rightarrow> ('g, bool) git_call" where
  "conflict_or_raise G head r =
     (if pr_ok r then gret True
      else gbind (require_settled G r) (\<lambda>_.
           gbind (git_resolve G head) (\<lambda>s.
           if s \<noteq> None then gret False else gthrow (command_error G (pr_argv r) r))))"

definition git_rebase :: "'g git_cli \<Rightarrow> string \<Rightarrow> ('g, bool) git_call" where
  "git_rebase G onto = gbind (git_exec G [''rebase'', onto] False True) (conflict_or_raise G ''REBASE_HEAD'')"

definition git_abort_rebase :: "'g git_cli \<Rightarrow> ('g, unit) git_call" where
  "git_abort_rebase G = git_run G [''rebase'', ''--abort'']"

definition git_revert :: "'g git_cli \<Rightarrow> string \<Rightarrow> nat \<Rightarrow> ('g, bool) git_call" where
  "git_revert G sha mainline =
     gbind (git_exec G [''revert'', ''--no-commit'', ''-m'', show_nat mainline, sha] False False) (conflict_or_raise G ''REVERT_HEAD'')"

definition git_abort_revert :: "'g git_cli \<Rightarrow> ('g, unit) git_call" where
  "git_abort_revert G = git_run G [''revert'', ''--abort'']"

definition git_push_force_with_lease :: "'g git_cli \<Rightarrow> string \<Rightarrow> string \<Rightarrow> string \<Rightarrow> ('g, unit) git_call" where
  "git_push_force_with_lease G remote branch expected_sha =
     (if set expected_sha \<subseteq> {CHR ''0''} then gthrow ValueError
      else git_run G [''push'', ''--force-with-lease='' @ branch @ '':'' @ expected_sha, remote, branch])"

end
