(* ===== verification/Commits.thy ===== *)
theory Commits
  imports Git_Client
begin

text \<open>
  Git as the record of code state (\<open>src/fleet/vcs/commits.py\<close>): the content key of a patch set, the trailers of a harness
  commit, the two-read guard before a patch is applied, the search for a task's commit, and the two
  rollbacks. SHA-256 is an argument.
\<close>

section \<open>Trailers\<close>

definition RUN_ID_TRAILER :: string where "RUN_ID_TRAILER = ''Fleet-Run-Id''"
definition REPO_ID_TRAILER :: string where "REPO_ID_TRAILER = ''Fleet-Repo-Id''"
definition PHASE_TRAILER :: string where "PHASE_TRAILER = ''Fleet-Phase''"
definition TASK_ID_TRAILER :: string where "TASK_ID_TRAILER = ''Fleet-Task-Id''"
definition ATTEMPT_TRAILER :: string where "ATTEMPT_TRAILER = ''Fleet-Attempt''"
definition PATCH_ID_TRAILER :: string where "PATCH_ID_TRAILER = ''Fleet-Patch-Id''"
definition CONTRACT_ROLLBACK_ID_TRAILER :: string where "CONTRACT_ROLLBACK_ID_TRAILER = ''Fleet-Contract-Rollback-Id''"
definition HOISTED_CONTRACT_TRAILER :: string where "HOISTED_CONTRACT_TRAILER = ''Hoisted-Contract''"
definition SOURCE_REPO_TRAILER :: string where "SOURCE_REPO_TRAILER = ''Source-Repo''"

record patch_like =
  pl_path :: string
  pl_diff :: string

definition patch_id :: "(string \<Rightarrow> string) \<Rightarrow> patch_like list \<Rightarrow> string" where
  "patch_id sha patches = sha (join newline (sort (map (\<lambda>p. pl_path p @ [US] @ sha (pl_diff p)) patches)))"

record fleet_trailers =
  ft_run_id :: string
  ft_repo_id :: string
  ft_phase :: int
  ft_task_id :: string
  ft_attempt :: int
  ft_patch_id :: string
  ft_contract_rollback_id :: "string option"

definition as_mapping :: "fleet_trailers \<Rightarrow> (string, string) dict" where
  "as_mapping t =
     [(RUN_ID_TRAILER, ft_run_id t), (REPO_ID_TRAILER, ft_repo_id t), (PHASE_TRAILER, show_int (ft_phase t)),
      (TASK_ID_TRAILER, ft_task_id t), (ATTEMPT_TRAILER, show_int (ft_attempt t)), (PATCH_ID_TRAILER, ft_patch_id t)]
     @ (case ft_contract_rollback_id t of None \<Rightarrow> [] | Some c \<Rightarrow> [(CONTRACT_ROLLBACK_ID_TRAILER, c)])"

section \<open>The guarded apply\<close>

record guard_outcome =
  go_already_applied :: bool
  go_effect_present :: bool
  go_trailer_commit :: "string option"

record commit_outcome =
  co_commit_sha :: "string option"
  co_skipped :: bool
  co_guard :: guard_outcome

definition committed :: "commit_outcome \<Rightarrow> bool" where
  "committed c \<longleftrightarrow> co_commit_sha c \<noteq> None \<and> \<not> co_skipped c"

record revert_outcome =
  ro_commit_sha :: "string option"
  ro_conflicted :: bool

definition scoped_range :: "string \<Rightarrow> string \<Rightarrow> git_error + string" where
  "scoped_range pre_commit_sha branch =
     (if pre_commit_sha = [] then Inl RollbackAnchorError else Inr (pre_commit_sha @ ''..'' @ branch))"

definition glift :: "git_error + 'a \<Rightarrow> ('g, 'a) git_call" where
  "glift r g = (g, r)"

definition guard :: "'g git_cli \<Rightarrow> string \<Rightarrow> string \<Rightarrow> string \<Rightarrow> string \<Rightarrow> ('g, guard_outcome) git_call" where
  "guard G branch pre_commit_sha patch patch_id_value =
     gbind (glift (scoped_range pre_commit_sha branch)) (\<lambda>range.
     gbind (git_find_trailer_commit G range PATCH_ID_TRAILER patch_id_value) (\<lambda>trailer_commit.
     gbind (git_apply_check G patch True) (\<lambda>effect_present.
     gret \<lparr>go_already_applied = effect_present, go_effect_present = effect_present, go_trailer_commit = trailer_commit\<rparr>)))"

definition apply_and_commit ::
  "'g git_cli \<Rightarrow> string \<Rightarrow> string \<Rightarrow> fleet_trailers \<Rightarrow> string \<Rightarrow> string \<Rightarrow> string option \<Rightarrow> ('g, commit_outcome) git_call" where
  "apply_and_commit G patch subject trailers branch pre_commit_sha body =
     gbind (guard G branch pre_commit_sha patch (ft_patch_id trailers)) (\<lambda>v.
     if go_already_applied v then gret \<lparr>co_commit_sha = go_trailer_commit v, co_skipped = True, co_guard = v\<rparr>
     else
       gbind (git_apply_check G patch False) (\<lambda>fits.
       if \<not> fits then gthrow PatchApplyError
       else
         gbind (git_apply_to G patch True) (\<lambda>_.
         gbind (git_commit G subject (as_mapping trailers) body False True) (\<lambda>sha.
         gret \<lparr>co_commit_sha = Some sha, co_skipped = False, co_guard = v\<rparr>))))"

definition revert_and_commit ::
  "'g git_cli \<Rightarrow> string \<Rightarrow> string \<Rightarrow> fleet_trailers \<Rightarrow> nat \<Rightarrow> string option \<Rightarrow> ('g, revert_outcome) git_call" where
  "revert_and_commit G sha subject trailers mainline body =
     gbind (git_revert G sha mainline) (\<lambda>staged.
     if \<not> staged then gret \<lparr>ro_commit_sha = None, ro_conflicted = True\<rparr>
     else gbind (git_commit G subject (as_mapping trailers) body False True) (\<lambda>new_sha.
          gret \<lparr>ro_commit_sha = Some new_sha, ro_conflicted = False\<rparr>))"

section \<open>What is on the branch\<close>

definition find_task_commit :: "'g git_cli \<Rightarrow> string \<Rightarrow> string \<Rightarrow> string \<Rightarrow> ('g, string option) git_call" where
  "find_task_commit G branch pre_commit_sha task_id =
     gbind (glift (scoped_range pre_commit_sha branch)) (\<lambda>range. git_find_trailer_commit G range TASK_ID_TRAILER task_id)"

definition commits_in_range :: "'g git_cli \<Rightarrow> string \<Rightarrow> string \<Rightarrow> ('g, (string \<times> string option \<times> string option) list) git_call" where
  "commits_in_range G branch pre_commit_sha =
     gbind (glift (scoped_range pre_commit_sha branch)) (\<lambda>range.
     gbind (git_log G range [TASK_ID_TRAILER, PATCH_ID_TRAILER] None []) (\<lambda>found.
     gret (map (\<lambda>c. (ci_sha c, ci_trailer c TASK_ID_TRAILER, ci_trailer c PATCH_ID_TRAILER)) found)))"

definition is_hex :: "char \<Rightarrow> bool" where
  "is_hex c \<longleftrightarrow> is_digit c \<or> c \<in> set ''abcdef''"

text \<open>
  The first match of \<open>This reverts commit ([0-9a-f]{7,40})\.\<close>: at a position with the literal, the
  group takes up to 40 hexadecimal digits and the full stop has to follow them.
\<close>

fun reverts_commit :: "string \<Rightarrow> string option" where
  "reverts_commit [] = None"
| "reverts_commit (c # cs) =
     (let tl40 = drop (length ''This reverts commit '') (c # cs); sha = takeWhile is_hex (take 40 tl40) in
      if starts_with ''This reverts commit '' (c # cs) \<and> 7 \<le> length sha \<and> starts_with ''.'' (drop (length sha) tl40)
      then Some sha else reverts_commit cs)"

fun rollback_bodies :: "'g git_cli \<Rightarrow> string \<Rightarrow> commit_info list \<Rightarrow> ('g, string list) git_call" where
  "rollback_bodies G contract_id [] = gret []"
| "rollback_bodies G contract_id (c # cs) =
     (if ci_trailer c CONTRACT_ROLLBACK_ID_TRAILER \<noteq> Some contract_id then rollback_bodies G contract_id cs
      else gbind (git_text G [''log'', ''-1'', ''--format=%b'', ci_sha c]) (\<lambda>body.
           gbind (rollback_bodies G contract_id cs) (\<lambda>shas.
           gret (case reverts_commit body of None \<Rightarrow> shas | Some s \<Rightarrow> s # shas))))"

definition contract_rollback_shas_in_range :: "'g git_cli \<Rightarrow> string \<Rightarrow> string \<Rightarrow> string \<Rightarrow> ('g, string set) git_call" where
  "contract_rollback_shas_in_range G pre_commit_sha branch contract_id =
     gbind (glift (scoped_range pre_commit_sha branch)) (\<lambda>range.
     gbind (git_log G range [CONTRACT_ROLLBACK_ID_TRAILER] None []) (\<lambda>found.
     gbind (rollback_bodies G contract_id found) (\<lambda>shas. gret (set shas))))"

record contract_hoist_merge =
  chm_merge_sha :: string
  chm_owning_repo_id :: string
  chm_merged_at :: instant

definition hoist_merge_owner :: "string \<Rightarrow> commit_info \<Rightarrow> string option" where
  "hoist_merge_owner contract_id c =
     (if ci_trailer c HOISTED_CONTRACT_TRAILER \<noteq> Some contract_id then None else ci_trailer c SOURCE_REPO_TRAILER)"

definition find_contract_hoist_merge ::
  "(string \<Rightarrow> instant) \<Rightarrow> 'g git_cli \<Rightarrow> string \<Rightarrow> string \<Rightarrow> ('g, contract_hoist_merge option) git_call" where
  "find_contract_hoist_merge fromisoformat G branch contract_id =
     gbind (git_log G branch [HOISTED_CONTRACT_TRAILER, SOURCE_REPO_TRAILER] None []) (\<lambda>found.
     case List.find (\<lambda>c. hoist_merge_owner contract_id c \<noteq> None) found of
       None \<Rightarrow> gret None
     | Some c \<Rightarrow> gbind (git_commit_time fromisoformat G (ci_sha c)) (\<lambda>t.
         gret (Some \<lparr>chm_merge_sha = ci_sha c, chm_owning_repo_id = the (hoist_merge_owner contract_id c), chm_merged_at = t\<rparr>)))"

section \<open>Anchors and rollback\<close>

definition record_task_anchor :: "'g git_cli \<Rightarrow> string \<Rightarrow> ('g, string) git_call" where
  "record_task_anchor G branch = git_rev_parse G branch"

definition rollback_tip :: "string option \<Rightarrow> string" where
  "rollback_tip branch = (case branch of None \<Rightarrow> ''HEAD'' | Some b \<Rightarrow> if b = [] then ''HEAD'' else b)"

definition discard_task :: "'g git_cli \<Rightarrow> string \<Rightarrow> string option \<Rightarrow> ('g, unit) git_call" where
  "discard_task G task_pre_commit_sha branch =
     (if task_pre_commit_sha = [] then gthrow RollbackAnchorError
      else
        gbind (gmap_error RollbackIndeterminateError (git_resolve G task_pre_commit_sha)) (\<lambda>anchor.
        case anchor of
          None \<Rightarrow> gthrow RollbackAnchorError
        | Some a \<Rightarrow>
            gbind (gmap_error RollbackIndeterminateError (git_is_ancestor G a (rollback_tip branch))) (\<lambda>is_ancestor.
            if \<not> is_ancestor then gthrow RollbackAnchorError
            else gmap_error RollbackIndeterminateError (gbind (git_reset_hard G a) (\<lambda>_. git_clean G True True)))))"

definition rollback_phase :: "'g git_cli \<Rightarrow> string \<Rightarrow> string \<Rightarrow> ('g, string) git_call" where
  "rollback_phase G branch phase_base_ref =
     gbind (git_resolve G phase_base_ref) (\<lambda>target.
     case target of
       None \<Rightarrow> gthrow RollbackAnchorError
     | Some t \<Rightarrow> gbind (git_update_ref G (''refs/heads/'' @ branch) t (Some ''fleet rollback'')) (\<lambda>_. gret t))"

section \<open>Landing one unit\<close>

text \<open>
  \<open>src/fleet/workers/rewrite.py\<close>: the identity of a unit's task and the sequence that lands its patches. The name-based
  UUID of Python's library and the write of the patch file are arguments.
\<close>

definition TASK_NAMESPACE :: string where
  "TASK_NAMESPACE = ''1b7f4d2e-0000-4000-8000-000000000002''"

definition task_id_for_ids :: "(string \<Rightarrow> string \<Rightarrow> string) \<Rightarrow> string \<Rightarrow> string \<Rightarrow> int \<Rightarrow> string \<Rightarrow> string" where
  "task_id_for_ids uuid5 run_id repo_id phase unit =
     uuid5 TASK_NAMESPACE (run_id @ ''|'' @ repo_id @ ''|'' @ show_int phase @ ''|'' @ unit)"

definition safe_name_char :: "char \<Rightarrow> bool" where
  "safe_name_char c \<longleftrightarrow> is_lower c \<or> (65 \<le> (of_char c :: nat) \<and> (of_char c :: nat) \<le> 90) \<or> is_digit c \<or> c \<in> set ''_.-''"

definition patch_file_name :: "string \<Rightarrow> string \<Rightarrow> string" where
  "patch_file_name directory unit = directory @ ''/'' @ map (\<lambda>c. if safe_name_char c then c else CHR ''_'') unit @ ''.patch''"

definition patch_file_body :: "string list \<Rightarrow> string" where
  "patch_file_body ds = concat (map (\<lambda>d. if d \<noteq> [] \<and> last d = newline then d else d @ [newline]) ds)"

record landing =
  ld_run_id :: string
  ld_repo_id :: string
  ld_phase :: int
  ld_unit :: string
  ld_attempt :: int
  ld_subject :: string
  ld_branch :: string
  ld_phase_pre_commit_sha :: string
  ld_patch_dir :: string

definition landing_trailers ::
  "(string \<Rightarrow> string) \<Rightarrow> (string \<Rightarrow> string \<Rightarrow> string) \<Rightarrow> landing \<Rightarrow> patch_like list \<Rightarrow> fleet_trailers" where
  "landing_trailers sha uuid5 l patches =
     \<lparr>ft_run_id = ld_run_id l, ft_repo_id = ld_repo_id l, ft_phase = ld_phase l,
      ft_task_id = task_id_for_ids uuid5 (ld_run_id l) (ld_repo_id l) (ld_phase l) (ld_unit l),
      ft_attempt = ld_attempt l, ft_patch_id = patch_id sha patches, ft_contract_rollback_id = None\<rparr>"

definition land_patches ::
  "(string \<Rightarrow> string) \<Rightarrow> (string \<Rightarrow> string \<Rightarrow> string) \<Rightarrow> (string \<Rightarrow> string \<Rightarrow> 'g \<Rightarrow> 'g) \<Rightarrow> 'g git_cli \<Rightarrow> landing \<Rightarrow> patch_like list
   \<Rightarrow> ('g, commit_outcome) git_call" where
  "land_patches sha uuid5 write_text G l patches g =
     (let patch_file = patch_file_name (ld_patch_dir l) (ld_unit l);
          g1 = write_text patch_file (patch_file_body (map pl_diff patches)) g in
      gbind (record_task_anchor G (ld_branch l)) (\<lambda>anchor g2.
        case apply_and_commit G patch_file (ld_subject l) (landing_trailers sha uuid5 l patches) (ld_branch l)
               (ld_phase_pre_commit_sha l) None g2 of
          (g3, Inr c) \<Rightarrow> (g3, Inr c)
        | (g3, Inl e) \<Rightarrow>
            if e = PatchApplyError \<or> is_command_error e
            then gbind (discard_task G anchor (Some (ld_branch l))) (\<lambda>_. gthrow e) g3
            else (g3, Inl e)) g1)"

end
