(* ===== verification/Git_Log.thy ===== *)
theory Git_Log
  imports Commits "HOL-Library.Sublist"
begin

text \<open>
  What the harness reads from \<open>git log\<close>. The documented output is one record per commit, newest first, each ended by a
  NUL; the lemmas relate the commits in the range to the commits the parser returns, within the
  capture budget and beyond it.
\<close>

section \<open>The documented output\<close>

definition render_fields :: "string list \<Rightarrow> commit_info \<Rightarrow> string list" where
  "render_fields keys c = ci_sha c # ci_subject c # map (\<lambda>key. join RS (trailer_values c key)) keys"

definition render_record :: "string list \<Rightarrow> commit_info \<Rightarrow> string" where
  "render_record keys c = join US (render_fields keys c)"

definition render_log :: "string list \<Rightarrow> commit_info list \<Rightarrow> string" where
  "render_log keys cs = concat (map (\<lambda>c. render_record keys c @ [NUL]) cs)"

definition plain_field :: "string \<Rightarrow> bool" where
  "plain_field s \<longleftrightarrow> list_all (\<lambda>c. c \<noteq> NUL \<and> c \<noteq> US \<and> c \<noteq> RS \<and> c \<noteq> newline) s"

definition plain_value :: "string \<Rightarrow> bool" where
  "plain_value s \<longleftrightarrow> s \<noteq> [] \<and> strip s = s \<and> plain_field s"

text \<open>A commit as Git stores it: a non-blank name, a one-line subject, and non-blank one-line trailer values.\<close>

definition plain_commit :: "string list \<Rightarrow> commit_info \<Rightarrow> bool" where
  "plain_commit keys c \<longleftrightarrow>
     plain_value (ci_sha c) \<and> plain_field (ci_subject c) \<and> list_all (\<lambda>key. list_all plain_value (trailer_values c key)) keys"

text \<open>The commit restricted to the keys that were asked for.\<close>

definition asked :: "string list \<Rightarrow> commit_info \<Rightarrow> commit_info" where
  "asked keys c = c\<lparr>ci_trailers := filter (\<lambda>(_, vs). vs \<noteq> []) (map (\<lambda>key. (key, trailer_values c key)) keys)\<rparr>"

section \<open>Parsing it back\<close>

lemma split_on_join:
  assumes "xs \<noteq> []" and "\<And>x c. x \<in> set xs \<Longrightarrow> c \<in> set x \<Longrightarrow> c \<noteq> sep"
  shows "split_on (\<lambda>c. c = sep) (join sep xs) = xs"
  using assms
proof (induction xs)
  case (Cons x xs)
  have x: "split_on (\<lambda>c. c = sep) x = [x]" using Cons.prems(2) by (intro split_on_none) auto
  show ?case
  proof (cases "xs = []")
    case False
    then have "split_on (\<lambda>c. c = sep) (join sep xs) = xs" using Cons by auto
    then show ?thesis using False x by (simp add: join_Cons split_on_append)
  qed (simp add: x)
qed simp

lemma trailer_field_join:
  assumes "list_all plain_value vs"
  shows "trailer_field (join RS vs) = vs"
proof (cases "vs = []")
  case True
  then show ?thesis by (simp add: trailer_field_def strip_def)
next
  case False
  then have "split_on (\<lambda>c. c = RS) (join RS vs) = vs"
    using assms by (intro split_on_join) (auto simp: list_all_iff plain_value_def plain_field_def)
  moreover have "map strip vs = vs" "filter (\<lambda>v. v \<noteq> []) vs = vs"
    using assms by (induction vs) (auto simp: plain_value_def)
  ultimately show ?thesis by (simp add: trailer_field_def)
qed

lemma trailer_dict_render:
  "list_all (\<lambda>key. list_all plain_value (trailer_values c key)) keys \<Longrightarrow>
   trailer_dict keys (map (\<lambda>key. join RS (trailer_values c key)) keys) = ci_trailers (asked keys c)"
  by (induction keys) (simp_all add: asked_def trailer_field_join Let_def)

lemma set_join: "set (join sep xs) \<subseteq> (\<Union>x \<in> set xs. set x) \<union> {sep}"
  by (induction sep xs rule: join.induct) auto

lemma strip_nonspace_ends:
  assumes "s \<noteq> []" and "\<not> py_space (hd s)" and "\<not> py_space (last s)"
  shows "strip s = s"
proof -
  have a: "dropWhile py_space s = s" using assms by (cases s) auto
  have "dropWhile py_space (rev s) = rev s" using assms by (cases "rev s") (auto simp: hd_rev[symmetric] last_rev)
  then show ?thesis by (simp add: strip_def a)
qed

lemma strip_fix_hd: "s \<noteq> [] \<Longrightarrow> strip s = s \<Longrightarrow> \<not> py_space (hd s)"
proof (cases s)
  case (Cons a t)
  assume "strip s = s"
  show ?thesis
  proof
    assume "py_space (hd s)"
    then have "length (strip s) < length s"
      using Cons length_dropWhile_le[of py_space "rev (dropWhile py_space t)"] length_dropWhile_le[of py_space t]
      by (simp add: strip_def)
    then show False using \<open>strip s = s\<close> by simp
  qed
qed simp

lemma strip_neq_Nil: "c \<in> set s \<Longrightarrow> \<not> py_space c \<Longrightarrow> strip s \<noteq> []"
proof -
  assume c: "c \<in> set s" "\<not> py_space c"
  then have "c \<in> set (dropWhile py_space s)"
    by (metis UnE set_append set_takeWhileD takeWhile_dropWhile_id)
  with c have "\<exists>d \<in> set (rev (dropWhile py_space s)). \<not> py_space d" by auto
  then show ?thesis by (simp add: strip_def)
qed

lemma strip_newlines_none: "newline \<notin> set s \<Longrightarrow> strip_newlines s = s"
proof -
  assume "newline \<notin> set s"
  then have "dropWhile (\<lambda>c. c = newline) s = s" "dropWhile (\<lambda>c. c = newline) (rev s) = rev s"
    by (metis (full_types) dropWhile_eq_self_iff hd_in_set set_rev)+
  then show ?thesis by (simp add: strip_newlines_def)
qed

lemma plain_joined: "list_all plain_value vs \<Longrightarrow> c \<in> set (join RS vs) \<Longrightarrow> c \<noteq> NUL \<and> c \<noteq> US \<and> c \<noteq> newline"
  using set_join[of RS vs] by (auto simp: list_all_iff plain_value_def plain_field_def RS_def NUL_def US_def newline_def)

lemma render_fields_chars:
  "plain_commit keys c \<Longrightarrow> x \<in> set (render_fields keys c) \<Longrightarrow> d \<in> set x \<Longrightarrow> d \<noteq> NUL \<and> d \<noteq> US \<and> d \<noteq> newline"
proof -
  assume c: "plain_commit keys c" and "x \<in> set (render_fields keys c)" and d: "d \<in> set x"
  then consider "x = ci_sha c" | "x = ci_subject c" | key where "key \<in> set keys" "x = join RS (trailer_values c key)"
    by (auto simp: render_fields_def)
  then show ?thesis
  proof cases
    case 3
    then show ?thesis using c d plain_joined[of "trailer_values c key" d] by (auto simp: plain_commit_def list_all_iff[of _ keys])
  qed (use c d in \<open>auto simp: plain_commit_def plain_value_def plain_field_def list_all_iff\<close>)
qed

lemma render_record_chars:
  "plain_commit keys c \<Longrightarrow> d \<in> set (render_record keys c) \<Longrightarrow> d \<noteq> NUL \<and> d \<noteq> newline"
  using set_join[of US "render_fields keys c"] render_fields_chars[of keys c]
  by (fastforce simp: render_record_def US_def NUL_def newline_def)

lemma hd_render_record: "plain_commit keys c \<Longrightarrow> render_record keys c \<noteq> [] \<and> \<not> py_space (hd (render_record keys c))"
  using strip_fix_hd[of "ci_sha c"]
  by (cases keys) (auto simp: render_record_def render_fields_def plain_commit_def plain_value_def)

lemma parse_record_render:
  assumes "plain_commit keys c"
  shows "parse_record keys (render_record keys c) = [asked keys c]"
proof -
  have n: "strip_newlines (render_record keys c) = render_record keys c"
    using render_record_chars[OF assms] by (intro strip_newlines_none) blast
  have s: "strip (render_record keys c) \<noteq> []"
    using hd_render_record[OF assms] strip_neq_Nil[of "hd (render_record keys c)" "render_record keys c"] by auto
  have f: "split_on (\<lambda>c. c = US) (render_record keys c) = render_fields keys c"
    unfolding render_record_def using render_fields_chars[OF assms] by (intro split_on_join) (auto simp: render_fields_def)
  have t: "trailer_dict keys (map (\<lambda>key. join RS (trailer_values c key)) keys) = ci_trailers (asked keys c)"
    using assms by (intro trailer_dict_render) (simp add: plain_commit_def)
  have v: "ci_sha c \<noteq> []" "strip (ci_sha c) = ci_sha c" using assms by (simp_all add: plain_commit_def plain_value_def)
  show ?thesis
    using s v t unfolding parse_record_def n f Let_def by (simp add: render_fields_def asked_def)
qed

lemma split_on_terminated:
  assumes "\<And>r c. r \<in> set rs \<Longrightarrow> c \<in> set r \<Longrightarrow> c \<noteq> sep"
  shows "split_on (\<lambda>c. c = sep) (concat (map (\<lambda>r. r @ [sep]) rs)) = rs @ [[]]"
  using assms
proof (induction rs)
  case (Cons r rs)
  have "split_on (\<lambda>c. c = sep) r = [r]" using Cons.prems by (intro split_on_none) auto
  moreover have "split_on (\<lambda>c. c = sep) (concat (map (\<lambda>r. r @ [sep]) rs)) = rs @ [[]]"
    using Cons.prems by (intro Cons.IH) auto
  ultimately show ?case by (simp add: split_on_append)
qed simp

lemma parse_log_render:
  assumes "list_all (plain_commit keys) cs"
  shows "parse_log (render_log keys cs) keys = map (asked keys) cs"
proof -
  have "split_on (\<lambda>c. c = NUL) (render_log keys cs) = map (render_record keys) cs @ [[]]"
    using split_on_terminated[of "map (render_record keys) cs" NUL] render_record_chars assms
    by (fastforce simp: render_log_def list_all_iff comp_def)
  moreover have "parse_record keys [] = []" by (simp add: parse_record_def strip_newlines_def strip_def)
  moreover have "concat (map (parse_record keys \<circ> render_record keys) cs) = map (asked keys) cs"
    using assms by (induction cs) (simp_all add: parse_record_render)
  ultimately show ?thesis by (simp add: parse_log_def)
qed

lemma last_render_log: "cs \<noteq> [] \<Longrightarrow> render_log keys cs \<noteq> [] \<and> last (render_log keys cs) = NUL"
  by (cases cs rule: rev_cases) (simp_all add: render_log_def)

lemma strip_render_log:
  assumes "list_all (plain_commit keys) cs"
  shows "strip (render_log keys cs) = render_log keys cs"
proof (cases cs)
  case Nil
  then show ?thesis by (simp add: render_log_def strip_def)
next
  case (Cons c ds)
  have "render_log keys cs \<noteq> []" "last (render_log keys cs) = NUL"
    using last_render_log[of cs keys] Cons by blast+
  moreover have "hd (render_log keys cs) = hd (render_record keys c)"
    using Cons hd_render_record[of keys c] assms by (simp add: render_log_def hd_append)
  moreover have "\<not> py_space NUL" by (simp add: py_space_def NUL_def)
  ultimately show ?thesis
    using Cons assms hd_render_record[of keys c] by (intro strip_nonspace_ends) auto
qed

lemma asked_values: "trailer_values (asked keys c) key = (if key \<in> set keys then trailer_values c key else [])"
proof -
  have "dict_get (filter (\<lambda>(_, vs). vs \<noteq> []) (map (\<lambda>k. (k, trailer_values c k)) ks)) key =
      (if key \<in> set ks \<and> trailer_values c key \<noteq> [] then Some (trailer_values c key) else None)" for ks
    by (induction ks) (auto simp: dict_get_Cons)
  then show ?thesis by (simp add: asked_def trailer_values_def[of "c\<lparr>ci_trailers := _\<rparr>"])
qed

section \<open>Through the client\<close>

text \<open>The child of a command starts in time, exits with zero and prints \<open>t\<close>.\<close>

definition answers ::
  "'g spawn \<Rightarrow> ('g \<Rightarrow> int \<times> int) \<Rightarrow> 'g git_cli \<Rightarrow> string list \<Rightarrow> string \<Rightarrow> 'g \<Rightarrow> 'g \<Rightarrow> bool" where
  "answers spawn clock G args t g g' \<longleftrightarrow>
     gt_runner G = proc_run (gt_redact G) spawn clock
     \<and> (let d = effective_deadline (fst (clock g)) (gt_deadline G) (gt_timeout G) in
         (case d of None \<Rightarrow> True | Some e \<Rightarrow> snd (clock g) < e)
         \<and> fst (spawn (git_argv G args False) d g) = g'
         \<and> (let c = snd (spawn (git_argv G args False) d g) in ch_exit c = 0 \<and> \<not> ch_killed c \<and> ch_stdout c = t))"

lemma git_text_answers:
  assumes "answers spawn clock G args t g g'"
  shows "git_text G args g = (g', Inr (strip (fst (read_head_and_tail (gt_redact G) t))))"
proof -
  let ?d = "effective_deadline (fst (clock g)) (gt_deadline G) (gt_timeout G)"
  obtain c where c: "spawn (git_argv G args False) ?d g = (g', c)" "ch_exit c = 0" "\<not> ch_killed c" "ch_stdout c = t"
    using assms by (cases "spawn (git_argv G args False) ?d g") (auto simp: answers_def Let_def)
  have "\<not> (case ?d of None \<Rightarrow> False | Some d \<Rightarrow> d \<le> snd (clock g))"
    using assms by (auto simp: answers_def Let_def split: option.splits)
  moreover have "gt_runner G = proc_run (gt_redact G) spawn clock" "git_argv G args False \<noteq> []"
    using assms by (simp_all add: answers_def git_argv_def)
  ultimately show ?thesis
    using c by (auto simp: git_text_def gbind_def gret_def git_exec_def git_exec_at_def proc_run_def run_locked_def validate_argv_def pr_ok_def Let_def
        split: prod.splits)
qed

lemma git_log_within_budget:
  assumes "answers spawn clock G (log_args rg keys None []) (render_log keys cs) g g'"
    and "list_all (plain_commit keys) cs" and "length (render_log keys cs) \<le> LOG_TAIL_BYTES"
    and "gt_redact G (render_log keys cs) = render_log keys cs"
  shows "git_log G rg keys None [] g = (g', Inr (map (asked keys) cs))"
  using assms by (simp add: git_log_def gbind_def gret_def git_text_answers capture_small strip_render_log parse_log_render)

lemma find_map: "List.find P (map f xs) = map_option f (List.find (P \<circ> f) xs)"
  by (induction xs) auto

lemma find_trailer_within_budget:
  assumes "answers spawn clock G (log_args rg [key] None []) (render_log [key] cs) g g'"
    and "list_all (plain_commit [key]) cs" and "length (render_log [key] cs) \<le> LOG_TAIL_BYTES"
    and "gt_redact G (render_log [key] cs) = render_log [key] cs"
  shows "git_find_trailer_commit G rg key v g =
      (g', Inr (map_option ci_sha (List.find (\<lambda>c. v \<in> set (trailer_values c key)) cs)))"
proof -
  have "(\<lambda>c. v \<in> set (trailer_values c key)) \<circ> asked [key] = (\<lambda>c. v \<in> set (trailer_values c key))"
    by (auto simp: asked_values)
  moreover have "ci_sha (asked [key] c) = ci_sha c" for c by (simp add: asked_def)
  ultimately show ?thesis
    by (simp add: git_find_trailer_commit_def gbind_def gret_def git_log_within_budget[OF assms] find_map option.map_comp comp_def)
qed

section \<open>Beyond the budget\<close>

text \<open>What the parser returns of a text it took from there in one piece.\<close>

lemma sublist_strip: "sublist (strip s) s"
proof -
  have "sublist (dropWhile py_space (rev (dropWhile py_space s))) (rev (dropWhile py_space s))" by (rule sublist_dropWhile)
  then have "sublist (strip s) (dropWhile py_space s)" by (simp add: strip_def sublist_rev_left)
  then show ?thesis using sublist_dropWhile by (rule sublist_order.order_trans)
qed

lemma sublist_strip_newlines: "sublist (strip_newlines s) s"
proof -
  have "sublist (dropWhile (\<lambda>c. c = newline) (rev (dropWhile (\<lambda>c. c = newline) s))) (rev (dropWhile (\<lambda>c. c = newline) s))"
    by (rule sublist_dropWhile)
  then have "sublist (strip_newlines s) (dropWhile (\<lambda>c. c = newline) s)" by (simp add: strip_newlines_def sublist_rev_left)
  then show ?thesis using sublist_dropWhile by (rule sublist_order.order_trans)
qed

lemma prefix_hd_split: "prefix (hd (split_on P s)) s"
  by (induction s) auto

lemma sublist_split_on: "w \<in> set (split_on P s) \<Longrightarrow> sublist w s"
proof (induction s arbitrary: w)
  case (Cons c s)
  have ne: "split_on P s \<noteq> []" by (cases s) auto
  consider "w = hd (split_on P (c # s))" | "w \<in> set (split_on P s)"
    using Cons.prems list.set_sel(2)[OF ne] by (cases "P c") auto
  then show ?case
  proof cases
    case 1
    then show ?thesis using prefix_hd_split[of P "c # s"] by (simp only: prefix_imp_sublist)
  next
    case 2
    then show ?thesis using Cons.IH by (auto simp: sublist_Cons_right)
  qed
qed simp

lemma sublist_trailer_field: "v \<in> set (trailer_field raw) \<Longrightarrow> sublist v raw"
  using sublist_strip sublist_split_on by (fastforce simp: trailer_field_def intro: sublist_order.order_trans)

lemma sublist_trailer_dict: "(k, vs) \<in> set (trailer_dict keys raws) \<Longrightarrow> v \<in> set vs \<Longrightarrow> \<exists>raw \<in> set raws. sublist v raw"
proof (induction keys arbitrary: raws)
  case (Cons key keys)
  show ?case
  proof (cases raws)
    case Nil
    then have "(k, vs) \<in> set (trailer_dict keys [])" using Cons.prems(1) by simp
    then show ?thesis using Cons.IH[of "[]"] Cons.prems(2) Nil by simp
  next
    case (Cons raw rs)
    then have "(k, vs) = (key, trailer_field raw) \<or> (k, vs) \<in> set (trailer_dict keys rs)"
      using Cons.prems(1) by (auto simp: Let_def split: if_splits)
    then show ?thesis using Cons.IH[of rs] Cons.prems(2) Cons sublist_trailer_field[of v raw] by auto
  qed
qed simp

lemma parse_log_sublist:
  assumes "c \<in> set (parse_log t keys)" and "v \<in> set (trailer_values c key)"
  shows "sublist v t"
proof -
  obtain rec where rec: "rec \<in> set (split_on (\<lambda>c. c = NUL) t)" "c \<in> set (parse_record keys rec)"
    using assms(1) by (auto simp: parse_log_def)
  let ?fs = "split_on (\<lambda>c. c = US) (strip_newlines rec)"
  have "ci_trailers c = trailer_dict keys (drop 2 ?fs)"
    using rec(2) by (auto simp: parse_record_def Let_def split: if_splits)
  moreover obtain vs where "(key, vs) \<in> set (ci_trailers c)" "v \<in> set vs"
    using assms(2) by (auto simp: trailer_values_def dict_get_def split: option.splits dest: map_of_SomeD[OF sym])
  ultimately obtain raw where raw: "raw \<in> set ?fs" "sublist v raw"
    using sublist_trailer_dict[of key vs keys "drop 2 ?fs" v] by (auto dest: in_set_dropD)
  note sublist_order.order_trans[OF raw(2) sublist_split_on[OF raw(1)]]
  from sublist_order.order_trans[OF this sublist_strip_newlines] have "sublist v rec" .
  then show ?thesis using sublist_split_on[OF rec(1)] by (rule sublist_order.order_trans)
qed

text \<open>A piece without line breaks lies before or behind a line break.\<close>

lemma sublist_beside:
  assumes "sublist v (xs @ c # ys)" and "c \<notin> set v"
  shows "sublist v xs \<or> sublist v ys"
proof -
  have tail: "sublist v ys" if "prefix v (c # ys)"
    using that assms(2) by (cases v) auto
  consider "sublist v xs" | "sublist v (c # ys)" | v1 v2 where "v = v1 @ v2" "suffix v1 xs" "prefix v2 (c # ys)"
    using assms(1) by (auto simp: sublist_append)
  then show ?thesis
  proof cases
    case 2
    then show ?thesis using tail by (auto simp: sublist_Cons_right)
  next
    case 3
    then have "v2 = []" using assms(2) by (cases v2) auto
    then show ?thesis using 3 by auto
  qed simp
qed

lemma marker_has_no_hyphen: "CHR ''-'' \<notin> set (elision_marker n)"
  using show_nat_digits[of "CHR ''-''" n] by (auto simp: elision_marker_def newline_def)

lemma beside_marker:
  assumes "sublist v (front @ elision_marker n @ behind)" and "newline \<notin> set v" and "CHR ''-'' \<in> set v"
  shows "sublist v front \<or> sublist v behind"
proof -
  define m where "m = ''[... '' @ show_nat n @ '' bytes elided ...]''"
  have m: "elision_marker n = newline # m @ [newline]" by (simp add: elision_marker_def m_def)
  have "\<not> sublist v m"
    using marker_has_no_hyphen[of n] assms(3) unfolding m by (auto dest!: set_mono_sublist)
  moreover have "sublist v front \<or> sublist v (m @ newline # behind)"
    using sublist_beside[of v front newline "m @ newline # behind"] assms(1,2) by (simp add: m)
  ultimately show ?thesis using sublist_beside[of v m newline behind] assms(2) by blast
qed

lemma capture_hides:
  assumes "content = front @ mid @ behind" and "HEAD_BYTES \<le> length front" and "LOG_TAIL_BYTES \<le> length behind"
    and "newline \<notin> set v" and "CHR ''-'' \<in> set v" and "\<not> sublist v front" and "\<not> sublist v behind"
  shows "\<not> sublist v (fst (read_head_and_tail id content))"
proof
  have big: "LOG_TAIL_BYTES < length content" using assms(1-3) by (simp add: HEAD_BYTES_def)
  assume "sublist v (fst (read_head_and_tail id content))"
  then consider "sublist v (take HEAD_BYTES content)" | "sublist v (drop (tail_start (length content)) content)"
    using beside_marker[OF _ assms(4,5)] unfolding capture_large[OF big] by auto
  then show False
  proof cases
    case 1
    moreover have "take HEAD_BYTES content = take HEAD_BYTES front" using assms(1,2) by simp
    ultimately show False using assms(6) sublist_take[of HEAD_BYTES front] by (metis sublist_order.order_trans)
  next
    case 2
    have "length front + length mid \<le> tail_start (length content)"
      using assms(1,3) by (simp add: tail_start_def HEAD_BYTES_def LOG_TAIL_BYTES_def)
    then have "drop (tail_start (length content)) content = drop (tail_start (length content) - length front - length mid) behind"
      using assms(1) by simp
    with 2 show False using assms(7) sublist_drop by (metis sublist_order.order_trans)
  qed
qed

lemma render_log_append: "render_log keys (xs @ ys) = render_log keys xs @ render_log keys ys"
  by (simp add: render_log_def)

lemma find_trailer_hidden:
  assumes "answers spawn clock G (log_args rg [key] None []) (render_log [key] (xs @ c # ys)) g g'"
    and "gt_redact G = id"
    and "HEAD_BYTES \<le> length (render_log [key] xs)" and "LOG_TAIL_BYTES \<le> length (render_log [key] ys)"
    and "newline \<notin> set v" and "CHR ''-'' \<in> set v" and "\<not> sublist v (render_log [key] xs)" and "\<not> sublist v (render_log [key] ys)"
  shows "git_find_trailer_commit G rg key v g = (g', Inr None)"
proof -
  let ?t = "render_log [key] (xs @ c # ys)"
  have "?t = render_log [key] xs @ render_log [key] [c] @ render_log [key] ys"
    using render_log_append[of "[key]" "[c]" ys] by (simp add: render_log_append)
  then have "\<not> sublist v (strip (fst (read_head_and_tail id ?t)))"
    using capture_hides[OF _ assms(3-8)] sublist_strip by (metis sublist_order.order_trans)
  then have "List.find (\<lambda>d. v \<in> set (trailer_values d key)) (parse_log (strip (fst (read_head_and_tail id ?t))) [key]) = None"
    using parse_log_sublist[of _ "strip (fst (read_head_and_tail id ?t))" "[key]" v key] by (auto simp: find_None_iff)
  then show ?thesis
    using assms(2) by (simp add: git_find_trailer_commit_def git_log_def gbind_def gret_def git_text_answers[OF assms(1)])
qed

end
