(* ===== verification/Commit_Correct.thy ===== *)
theory Commit_Correct
  imports Git_Log
begin

text \<open>
  What the commit helpers promise, over what Git documents of the commands they issue. The interface is the locale
  \<open>git_reads\<close> (commands that only read) and its extension \<open>git_patches\<close> (what \<open>git apply\<close> and \<open>git commit\<close> do to a
  patch's effect); a small repository that executes the commands interprets both.
\<close>

section \<open>Calls that leave the repository alone\<close>

named_theorems stable_intros

definition stable :: "('g \<Rightarrow> 'r) \<Rightarrow> ('g, 'a) git_call \<Rightarrow> bool" where
  "stable repo m \<longleftrightarrow> (\<forall>g. repo (fst (m g)) = repo g)"

lemma stable_gret [stable_intros]: "stable repo (gret x)"
  by (simp add: stable_def gret_def)

lemma stable_gthrow [stable_intros]: "stable repo (gthrow e)"
  by (simp add: stable_def gthrow_def)

lemma stable_glift [stable_intros]: "stable repo (glift r)"
  by (simp add: stable_def glift_def)

lemma stable_gbind [stable_intros]: "stable repo m \<Longrightarrow> (\<And>x. stable repo (f x)) \<Longrightarrow> stable repo (gbind m f)"
  by (auto simp: stable_def gbind_def split: prod.splits sum.splits) (metis fst_conv)+

lemma stable_gmap_error [stable_intros]: "stable repo m \<Longrightarrow> stable repo (gmap_error e m)"
  by (auto simp: stable_def gmap_error_def split: prod.splits sum.splits) (metis fst_conv)+

lemma stable_require [stable_intros]: "stable repo (require_settled G r)"
  by (auto simp: require_settled_def intro: stable_intros split: option.splits)

text \<open>The commands that only read: they report on refs, history or the applicability of a patch.\<close>

definition read_only :: "string list \<Rightarrow> bool" where
  "read_only args \<longleftrightarrow>
     (case args of [] \<Rightarrow> False | c # _ \<Rightarrow> c \<in> {''rev-parse'', ''show-ref'', ''log'', ''merge-base'', ''for-each-ref'', ''symbolic-ref''})
     \<or> take 2 args = [''apply'', ''--check'']"

locale git_reads =
  fixes G :: "'g git_cli" and repo :: "'g \<Rightarrow> 'r"
  assumes reads_keep: "read_only args \<Longrightarrow> repo (fst (gt_runner G (git_argv G args False) d t g)) = repo g"
begin

lemma stable_exec [stable_intros]: "read_only args \<Longrightarrow> stable repo (git_exec G args check False)"
  using reads_keep by (auto simp: stable_def git_exec_def git_exec_at_def Let_def split: prod.splits sum.splits) (metis fst_conv)+

lemma stable_probe [stable_intros]: "read_only args \<Longrightarrow> stable repo (git_probe G args)"
  by (auto simp: git_probe_def intro!: stable_intros)

lemma stable_text [stable_intros]: "read_only args \<Longrightarrow> stable repo (git_text G args)"
  by (auto simp: git_text_def intro!: stable_intros)

lemma stable_resolve [stable_intros]: "stable repo (git_resolve G x)"
  unfolding git_resolve_def Let_def by (intro stable_intros) (simp add: read_only_def)

lemma stable_rev_parse [stable_intros]: "stable repo (git_rev_parse G x)"
  unfolding git_rev_parse_def by (intro stable_intros) (auto intro: stable_intros split: option.splits)

lemma stable_is_ancestor [stable_intros]: "stable repo (git_is_ancestor G x y)"
  unfolding git_is_ancestor_def by (intro stable_intros) (simp add: read_only_def)

lemma stable_apply_check [stable_intros]: "stable repo (git_apply_check G p b)"
  unfolding git_apply_check_def by (intro stable_intros) (simp add: read_only_def apply_check_args_def)

lemma stable_log [stable_intros]: "stable repo (git_log G rg keys n paths)"
  unfolding git_log_def by (intro stable_intros) (simp add: read_only_def log_args_def)

lemma stable_find_trailer [stable_intros]: "stable repo (git_find_trailer_commit G rg k v)"
  unfolding git_find_trailer_commit_def by (intro stable_intros)

lemma stable_find_task [stable_intros]: "stable repo (find_task_commit G b p tid)"
  unfolding find_task_commit_def by (intro stable_intros)

lemma stable_guard [stable_intros]: "stable repo (guard G b pre p pid)"
  unfolding guard_def by (intro stable_intros)

lemma discard_guarded:
  assumes "repo (fst (discard_task G a b g)) \<noteq> repo g"
  shows "\<exists>g1 g2 sha. git_resolve G a g = (g1, Inr (Some sha)) \<and> git_is_ancestor G sha (rollback_tip b) g1 = (g2, Inr True) \<and> repo g2 = repo g"
proof -
  have a: "a \<noteq> []" using assms by (auto simp: discard_task_def gthrow_def)
  obtain g1 r1 where r: "git_resolve G a g = (g1, r1)" by (cases "git_resolve G a g") auto
  have k1: "repo g1 = repo g" using stable_resolve[of a] r unfolding stable_def by (metis fst_conv)
  obtain sha where sha: "r1 = Inr (Some sha)"
    using assms a r k1 by (cases r1) (auto simp: discard_task_def gbind_def gthrow_def gmap_error_def split: option.splits)
  obtain g2 r2 where q: "git_is_ancestor G sha (rollback_tip b) g1 = (g2, r2)" by (cases "git_is_ancestor G sha (rollback_tip b) g1") auto
  have k2: "repo g2 = repo g" using stable_is_ancestor[of sha "rollback_tip b"] q k1 unfolding stable_def by (metis fst_conv)
  have "fst (discard_task G a b g) = g2" if "r2 \<noteq> Inr True"
    using that a r q sha by (cases r2) (auto simp: discard_task_def Let_def gbind_def gthrow_def gmap_error_def)
  then have "r2 = Inr True" using assms k2 by metis
  then show ?thesis using r sha q k2 by blast
qed

end

text \<open>
  What Git documents of patches: a reverse check that ran succeeds exactly when the patch's effect is in the tree, an
  applied patch has its effect, and a commit keeps the tree.
\<close>

locale git_patches = git_reads +
  fixes has_effect :: "'b \<Rightarrow> string \<Rightarrow> bool"
  assumes reverse_check: "gt_runner G (git_argv G (apply_check_args p True) False) d t g = (g', Inr r) \<Longrightarrow> no_verdict r = None \<Longrightarrow>
      pr_ok r = has_effect (repo g) p"
    and apply_effect: "gt_runner G (git_argv G [''apply'', ''--index'', p] False) d t g = (g', Inr r) \<Longrightarrow> pr_ok r \<Longrightarrow> has_effect (repo g') p"
    and commit_keeps: "has_effect (repo g) p \<Longrightarrow>
      has_effect (repo (fst (gt_runner G (git_argv G (commit_args s tr bd e nv) True) d t g))) p"
begin

lemma guard_sees:
  assumes "guard G b pre p pid g = (g', Inr v)"
  shows "repo g' = repo g \<and> (go_already_applied v \<longleftrightarrow> has_effect (repo g) p)"
proof -
  have k: "repo g' = repo g" using stable_guard[of b pre p pid] assms unfolding stable_def by (metis fst_conv)
  obtain rg g1 tc where f: "git_find_trailer_commit G rg PATCH_ID_TRAILER pid g = (g1, Inr tc)"
    and c: "git_apply_check G p True g1 = (g', Inr (go_already_applied v))"
    using assms by (auto simp: guard_def gbind_def glift_def gret_def split: prod.splits sum.splits)
  have "repo g1 = repo g" using stable_find_trailer[of rg PATCH_ID_TRAILER pid] f unfolding stable_def by (metis fst_conv)
  moreover obtain r where "gt_runner G (git_argv G (apply_check_args p True) False) (gt_deadline G) (gt_timeout G) g1 = (g', Inr r)"
    "no_verdict r = None" "pr_ok r = go_already_applied v"
    using c by (auto simp: git_apply_check_def git_probe_def gbind_def gret_def gthrow_def require_settled_def git_exec_def git_exec_at_def Let_def
        split: prod.splits sum.splits option.splits)
  ultimately show ?thesis using reverse_check k by metis
qed

lemma git_commit_keeps:
  assumes "git_commit G s tr bd e nv g = (g', r)" and "has_effect (repo g) p"
  shows "has_effect (repo g') p"
proof -
  let ?run = "gt_runner G (git_argv G (commit_args s tr bd e nv) True) (gt_deadline G) (gt_timeout G) g"
  have "has_effect (repo (fst ?run)) p" using assms(2) by (rule commit_keeps)
  moreover have "repo g' = repo (fst ?run)"
    using assms(1) stable_rev_parse[of "''HEAD''"] unfolding stable_def
    by (auto simp: git_commit_def gbind_def git_exec_def git_exec_at_def Let_def split: prod.splits sum.splits if_splits) (metis fst_conv)+
  ultimately show ?thesis by simp
qed

lemma applied_effect:
  assumes "git_apply_to G p True g = (g', Inr u)"
  shows "has_effect (repo g') p"
  using assms apply_effect
  by (auto simp: git_apply_to_def git_run_def gbind_def gret_def git_exec_def git_exec_at_def Let_def split: prod.splits sum.splits if_splits)

lemma landed_effect:
  assumes "apply_and_commit G p s tr b pre bd g = (g', Inr c)"
  shows "has_effect (repo g') p \<and> (co_skipped c \<longleftrightarrow> has_effect (repo g) p) \<and> (co_skipped c \<longrightarrow> repo g' = repo g)"
proof -
  obtain g1 v where v: "guard G b pre p (ft_patch_id tr) g = (g1, Inr v)"
    using assms by (auto simp: apply_and_commit_def gbind_def split: prod.splits sum.splits)
  note s = guard_sees[OF v]
  show ?thesis
  proof (cases "go_already_applied v")
    case True
    then show ?thesis using assms v s by (auto simp: apply_and_commit_def gbind_def gret_def)
  next
    case False
    obtain g2 g3 u sha where a: "git_apply_to G p True g2 = (g3, Inr u)"
      and c: "git_commit G s (as_mapping tr) bd False True g3 = (g', Inr sha)" and skip: "\<not> co_skipped c"
      using assms v False
      by (auto simp: apply_and_commit_def gbind_def gret_def gthrow_def split: prod.splits sum.splits if_splits)
    then show ?thesis using git_commit_keeps[OF c applied_effect[OF a]] s False by blast
  qed
qed

end

section \<open>A repository that executes the commands\<close>

text \<open>
  One branch, newest commit first; a commit remembers the patches whose effect its tree has. The clock never
  reaches a deadline, so every child runs.
\<close>

record ref_commit =
  rc_info :: commit_info
  rc_tree :: "string list"

record ref_repo =
  rr_commits :: "ref_commit list"
  rr_work :: "string list"
  rr_refs :: "(string, string) dict"

definition ref_ok :: "string \<Rightarrow> child" where
  "ref_ok t = \<lparr>ch_exit = 0, ch_stdout = t, ch_stderr = [], ch_ms = 0, ch_killed = False\<rparr>"

definition ref_no :: child where
  "ref_no = \<lparr>ch_exit = 1, ch_stdout = [], ch_stderr = [], ch_ms = 0, ch_killed = False\<rparr>"

definition ref_shas :: "ref_repo \<Rightarrow> string list" where
  "ref_shas r = map (\<lambda>c. ci_sha (rc_info c)) (rr_commits r)"

definition ref_lookup :: "ref_repo \<Rightarrow> string \<Rightarrow> string option" where
  "ref_lookup r name =
     (if name \<in> set (ref_shas r) then Some name
      else if name = ''HEAD'' \<or> starts_with ''migrate/'' name then (case ref_shas r of [] \<Rightarrow> None | s # _ \<Rightarrow> Some s)
      else dict_get (rr_refs r) name)"

definition ref_ancestor :: "ref_repo \<Rightarrow> string \<Rightarrow> string \<Rightarrow> bool" where
  "ref_ancestor r a d =
     (case (ref_lookup r a, ref_lookup r d) of
        (Some x, Some y) \<Rightarrow> x \<in> set (dropWhile (\<lambda>s. s \<noteq> y) (ref_shas r))
      | _ \<Rightarrow> False)"

fun after_dots :: "string \<Rightarrow> string" where
  "after_dots [] = []"
| "after_dots (c # cs) = (if starts_with ''..'' (c # cs) then tl cs else after_dots cs)"

definition ref_range :: "ref_repo \<Rightarrow> string \<Rightarrow> commit_info list" where
  "ref_range r rg =
     (let lo = take (length rg - length (after_dots rg) - 2) rg in
      map rc_info (takeWhile (\<lambda>c. Some (ci_sha (rc_info c)) \<noteq> ref_lookup r lo) (rr_commits r)))"

definition format_keys :: "string \<Rightarrow> string list" where
  "format_keys fmt = map (\<lambda>f. takeWhile (\<lambda>c. c \<noteq> CHR '','') (drop 15 f)) (drop 2 (split_on (\<lambda>c. c = US) fmt))"

fun trailer_options :: "string list \<Rightarrow> (string, string list) dict" where
  "trailer_options (a # kv # rest) =
     (if a = ''--trailer'' then (takeWhile (\<lambda>c. c \<noteq> CHR ''='') kv, [tl (dropWhile (\<lambda>c. c \<noteq> CHR ''='') kv)]) # trailer_options rest
      else trailer_options (kv # rest))"
| "trailer_options _ = []"

definition ref_commit_now :: "string list \<Rightarrow> ref_repo \<Rightarrow> ref_repo" where
  "ref_commit_now args r =
     r\<lparr>rr_commits := \<lparr>rc_info = \<lparr>ci_sha = CHR ''c'' # show_nat (length (rr_commits r)), ci_subject = ''unit'', ci_trailers = trailer_options args\<rparr>,
                       rc_tree = rr_work r\<rparr> # rr_commits r\<rparr>"

definition ref_reset :: "string \<Rightarrow> ref_repo \<Rightarrow> ref_repo" where
  "ref_reset sha r =
     (let cs = dropWhile (\<lambda>c. ci_sha (rc_info c) \<noteq> sha) (rr_commits r) in
      r\<lparr>rr_commits := cs, rr_work := (case cs of [] \<Rightarrow> [] | c # _ \<Rightarrow> rc_tree c)\<rparr>)"

definition ref_exec :: "string list \<Rightarrow> ref_repo \<Rightarrow> ref_repo \<times> child" where
  "ref_exec args r =
     (if args = [] then (r, ref_no)
      else if hd args = ''rev-parse'' then
        (r, case ref_lookup r (take (length (last args) - 9) (last args)) of None \<Rightarrow> ref_no | Some s \<Rightarrow> ref_ok (s @ [newline]))
      else if hd args = ''merge-base'' then (r, if ref_ancestor r (args ! 2) (args ! 3) then ref_ok [] else ref_no)
      else if hd args = ''log'' then (r, ref_ok (render_log (format_keys (args ! 2)) (ref_range r (args ! 3))))
      else if take 2 args = [''apply'', ''--check''] then
        (r, if (args ! 2 = ''--reverse'') = (last args \<in> set (rr_work r)) then ref_ok [] else ref_no)
      else if hd args = ''apply'' then
        (if last args \<in> set (rr_work r) then (r, ref_no) else (r\<lparr>rr_work := last args # rr_work r\<rparr>, ref_ok []))
      else if hd args = ''commit'' then (ref_commit_now args r, ref_ok [])
      else if hd args = ''reset'' then (ref_reset (last args) r, ref_ok [])
      else if hd args = ''update-ref'' then (r\<lparr>rr_refs := dict_set (rr_refs r) (args ! 3) (last args)\<rparr>, ref_ok [])
      else if hd args \<in> {''clean'', ''update-index''} then (r, ref_ok [])
      else (r, ref_no))"

definition ref_spawn :: "ref_repo spawn" where
  "ref_spawn argv d r = ref_exec (if argv ! 3 = ''-c'' then drop 9 argv else drop 3 argv) r"

definition ref_git :: "ref_repo git_cli" where
  "ref_git = \<lparr>gt_path = ''repo'', gt_runner = proc_run id ref_spawn (\<lambda>_. (0, 0)), gt_bin = ''git'', gt_identity = DEFAULT_IDENTITY,
     gt_deadline = None, gt_timeout = None, gt_redact = id\<rparr>"

lemma ref_runner:
  assumes "args \<noteq> []" and "hd args \<noteq> ''-c''"
  shows "gt_runner ref_git (git_argv ref_git args idn) d t g =
     (if (case effective_deadline 0 d t of None \<Rightarrow> False | Some e \<Rightarrow> e \<le> 0) then
        (g, Inr \<lparr>pr_argv = git_argv ref_git args idn, pr_exit_code = TIMEOUT_EXIT_CODE, pr_stdout_tail = [],
             pr_stderr_tail = ''deadline had already passed; process was not started'',
             pr_duration_ms = 0, pr_timed_out = True, pr_started = False, pr_stdout_bytes = 0, pr_stderr_bytes = 0\<rparr>)
      else let (g1, c) = ref_exec args g; (o1, n1) = read_head_and_tail id (ch_stdout c); (o2, n2) = read_head_and_tail id (ch_stderr c) in
        (g1, Inr \<lparr>pr_argv = git_argv ref_git args idn, pr_exit_code = ch_exit c, pr_stdout_tail = o1, pr_stderr_tail = o2,
              pr_duration_ms = ch_ms c, pr_timed_out = ch_killed c, pr_started = True, pr_stdout_bytes = n1, pr_stderr_bytes = n2\<rparr>))"
proof -
  have "ref_spawn (git_argv ref_git args idn) e g = ref_exec args g" for e
    using assms by (cases args) (auto simp: ref_spawn_def git_argv_def ref_git_def config_args_def nth_append)
  moreover have "git_argv ref_git args idn \<noteq> []" by (simp add: git_argv_def)
  ultimately show ?thesis
    by (auto simp: ref_git_def proc_run_def run_locked_def validate_argv_def Let_def split: prod.splits)
qed

lemma read_only_cases:
  assumes "read_only args"
  obtains "args \<noteq> []" "hd args \<in> {''rev-parse'', ''show-ref'', ''log'', ''merge-base'', ''for-each-ref'', ''symbolic-ref''}"
  | "args \<noteq> []" "hd args = ''apply''" "take 2 args = [''apply'', ''--check'']"
proof (cases "take 2 args = [''apply'', ''--check'']")
  case True
  then have "args \<noteq> []" "hd args = ''apply''" by (cases args; simp add: numeral_2_eq_2)+
  then show ?thesis using that(2) True by blast
next
  case False
  then have "case args of [] \<Rightarrow> False | c # _ \<Rightarrow> c \<in> {''rev-parse'', ''show-ref'', ''log'', ''merge-base'', ''for-each-ref'', ''symbolic-ref''}"
    using assms unfolding read_only_def by blast
  then have "args \<noteq> [] \<and> hd args \<in> {''rev-parse'', ''show-ref'', ''log'', ''merge-base'', ''for-each-ref'', ''symbolic-ref''}"
    by (cases args) simp_all
  then show ?thesis using that(1) by blast
qed

lemma ref_reads: "read_only args \<Longrightarrow> fst (ref_exec args r) = r"
proof (erule read_only_cases)
  assume "args \<noteq> []" and h: "hd args \<in> {''rev-parse'', ''show-ref'', ''log'', ''merge-base'', ''for-each-ref'', ''symbolic-ref''}"
  have "hd args \<notin> {''apply'', ''commit'', ''reset'', ''update-ref'', ''clean'', ''update-index''}" using h by auto
  moreover have "take 2 args \<noteq> [''apply'', ''--check'']" using calculation \<open>args \<noteq> []\<close> by (cases args) auto
  ultimately show "fst (ref_exec args r) = r" by (simp add: ref_exec_def)
next
  assume "args \<noteq> []" "hd args = ''apply''" "take 2 args = [''apply'', ''--check'']"
  then show "fst (ref_exec args r) = r" by (simp add: ref_exec_def)
qed

interpretation reference_repo: git_patches ref_git "\<lambda>r. r" "\<lambda>r p. p \<in> set (rr_work r)"
proof
  fix args d t g
  assume a: "read_only args"
  then have "args \<noteq> []" "hd args \<noteq> ''-c''" by (auto elim: read_only_cases)
  then show "fst (gt_runner ref_git (git_argv ref_git args False) d t g) = g"
    using ref_reads[OF a, of g] by (auto simp: ref_runner Let_def split: prod.splits)
next
  fix p d t g g' r
  assume "gt_runner ref_git (git_argv ref_git (apply_check_args p True) False) d t g = (g', Inr r)" "no_verdict r = None"
  then show "pr_ok r = (p \<in> set (rr_work g))"
    by (subst (asm) ref_runner)
      (auto simp: apply_check_args_def ref_exec_def ref_ok_def ref_no_def pr_ok_def no_verdict_def Let_def split: if_splits prod.splits)
next
  fix p d t g g' r
  assume "gt_runner ref_git (git_argv ref_git [''apply'', ''--index'', p] False) d t g = (g', Inr r)" "pr_ok r"
  then show "p \<in> set (rr_work g')"
    by (subst (asm) ref_runner) (auto simp: ref_exec_def ref_ok_def ref_no_def pr_ok_def Let_def split: if_splits prod.splits)
next
  fix g :: ref_repo and p s tr bd e nv d t
  assume "p \<in> set (rr_work g)"
  then show "p \<in> set (rr_work (fst (gt_runner ref_git (git_argv ref_git (commit_args s tr bd e nv) True) d t g)))"
    by (subst ref_runner) (auto simp: commit_args_def ref_exec_def ref_commit_now_def ref_ok_def Let_def split: prod.splits)
qed

section \<open>Finding a task's commit\<close>

text \<open>
  C12: Resume's only question is answered exactly while the history fits the capture. If Git prints the commits of the
  scoped range and the text has at most \<open>LOG_TAIL_BYTES\<close> bytes, the search returns the newest commit that
  carries the task's trailer, and nothing exactly when no commit of the range does.
\<close>

theorem commit_search_is_exact:
  assumes "pre \<noteq> []"
    and "answers spawn clock G (log_args (pre @ ''..'' @ b) [TASK_ID_TRAILER] None []) (render_log [TASK_ID_TRAILER] cs) g g'"
    and "list_all (plain_commit [TASK_ID_TRAILER]) cs"
    and "length (render_log [TASK_ID_TRAILER] cs) \<le> LOG_TAIL_BYTES"
    and "gt_redact G (render_log [TASK_ID_TRAILER] cs) = render_log [TASK_ID_TRAILER] cs"
  shows "find_task_commit G b pre tid g =
      (g', Inr (map_option ci_sha (List.find (\<lambda>c. tid \<in> set (trailer_values c TASK_ID_TRAILER)) cs)))
    \<and> (snd (find_task_commit G b pre tid g) = Inr None \<longleftrightarrow> (\<forall>c \<in> set cs. tid \<notin> set (trailer_values c TASK_ID_TRAILER)))"
  using assms(1) find_trailer_within_budget[OF assms(2-5), of tid]
  by (auto simp: find_task_commit_def scoped_range_def gbind_def glift_def find_None_iff)

text \<open>
  C40: A long history hides a landed commit. Beyond the budget the capture keeps the first 8192 bytes and a tail, so a
  task's commit between them is not seen: the search answers that nothing landed, although the commit is in
  the range. The task identifier is one line with a hyphen in it, as a UUID is, and is not written in the records of the
  other commits; these fill the kept bytes on both sides of the commit.
\<close>

theorem long_history_hides_a_commit:
  assumes "pre \<noteq> []"
    and "answers spawn clock G (log_args (pre @ ''..'' @ b) [TASK_ID_TRAILER] None []) (render_log [TASK_ID_TRAILER] (xs @ c # ys)) g g'"
    and "gt_redact G = id"
    and "HEAD_BYTES \<le> length (render_log [TASK_ID_TRAILER] xs)" and "LOG_TAIL_BYTES \<le> length (render_log [TASK_ID_TRAILER] ys)"
    and "CHR ''-'' \<in> set tid" and "newline \<notin> set tid"
    and "\<not> sublist tid (render_log [TASK_ID_TRAILER] xs)" and "\<not> sublist tid (render_log [TASK_ID_TRAILER] ys)"
    and "tid \<in> set (trailer_values c TASK_ID_TRAILER)"
  shows "find_task_commit G b pre tid g = (g', Inr None) \<and> c \<in> set (xs @ c # ys)"
  using assms(1) find_trailer_hidden[OF assms(2-5,7,6,8,9)]
  by (simp add: find_task_commit_def scoped_range_def gbind_def glift_def)

definition unit_commit :: "string \<Rightarrow> string \<Rightarrow> commit_info" where
  "unit_commit sha tid = \<lparr>ci_sha = sha, ci_subject = ''unit'', ci_trailers = [(TASK_ID_TRAILER, [tid])]\<rparr>"

definition old_commit :: commit_info where
  "old_commit = unit_commit (replicate 40 (CHR ''1'')) ''11111111-1111-5111-8111-111111111111''"

definition lost_commit :: commit_info where
  "lost_commit = unit_commit (replicate 40 (CHR ''2'')) ''ffffffff-ffff-5fff-8fff-ffffffffffff''"

text \<open>A repository that prints one fixed text.\<close>

definition printing_git :: "string \<Rightarrow> unit git_cli" where
  "printing_git t = \<lparr>gt_path = ''repo'', gt_runner = proc_run id (\<lambda>_ _ g. (g, ref_ok t)) (\<lambda>_. (0, 0)), gt_bin = ''git'',
     gt_identity = DEFAULT_IDENTITY, gt_deadline = None, gt_timeout = None, gt_redact = id\<rparr>"

lemma printing_answers: "answers (\<lambda>_ _ g. (g, ref_ok t)) (\<lambda>_. (0, 0)) (printing_git t) args t () ()"
  by (simp add: answers_def printing_git_def effective_deadline_def ref_ok_def Let_def)

lemma render_replicate:
  "length (render_log keys (replicate n c)) = n * Suc (length (render_record keys c))"
  "set (render_log keys (replicate n c)) \<subseteq> set (render_record keys c) \<union> {NUL}"
  by (induction n) (auto simp: render_log_def)

lemma old_record: "length (render_record [TASK_ID_TRAILER] old_commit) = 82" "CHR ''f'' \<notin> set (render_record [TASK_ID_TRAILER] old_commit)"
  by code_simp+

theorem commit_search_is_exact_witness:
  "find_task_commit (printing_git (render_log [TASK_ID_TRAILER] [old_commit, lost_commit])) ''migrate/app'' ''0a''
     ''ffffffff-ffff-5fff-8fff-ffffffffffff'' () = ((), Inr (Some (replicate 40 (CHR ''2''))))"
proof -
  let ?cs = "[old_commit, lost_commit]"
  have "list_all (plain_commit [TASK_ID_TRAILER]) ?cs" "length (render_log [TASK_ID_TRAILER] ?cs) \<le> LOG_TAIL_BYTES" by code_simp+
  moreover have "map_option ci_sha (List.find (\<lambda>c. ''ffffffff-ffff-5fff-8fff-ffffffffffff'' \<in> set (trailer_values c TASK_ID_TRAILER)) ?cs) =
      Some (replicate 40 (CHR ''2''))" by code_simp
  ultimately show ?thesis
    using commit_search_is_exact[OF _ printing_answers, of "''0a''" "[old_commit, lost_commit]" "''migrate/app''" "''ffffffff-ffff-5fff-8fff-ffffffffffff''"]
    by (simp add: printing_git_def)
qed

theorem long_history_hides_a_commit_witness:
  "find_task_commit (printing_git (render_log [TASK_ID_TRAILER] (replicate 99 old_commit @ lost_commit # replicate 395 old_commit)))
     ''migrate/app'' ''0a'' ''ffffffff-ffff-5fff-8fff-ffffffffffff'' () = ((), Inr None)"
proof -
  let ?tid = "''ffffffff-ffff-5fff-8fff-ffffffffffff''"
  have "HEAD_BYTES \<le> length (render_log [TASK_ID_TRAILER] (replicate 99 old_commit))"
    "LOG_TAIL_BYTES \<le> length (render_log [TASK_ID_TRAILER] (replicate 395 old_commit))"
    by (simp_all add: render_replicate old_record HEAD_BYTES_def LOG_TAIL_BYTES_def)
  moreover have "\<not> sublist ?tid (render_log [TASK_ID_TRAILER] (replicate n old_commit))" for n
  proof
    assume "sublist ?tid (render_log [TASK_ID_TRAILER] (replicate n old_commit))"
    then have "set ?tid \<subseteq> set (render_log [TASK_ID_TRAILER] (replicate n old_commit))" by (rule set_mono_sublist)
    then show False
      using render_replicate(2)[of "[TASK_ID_TRAILER]" n old_commit] old_record(2) by (auto simp: NUL_def)
  qed
  moreover have "CHR ''-'' \<in> set ?tid" "newline \<notin> set ?tid" by (simp_all add: newline_def)
  moreover have "?tid \<in> set (trailer_values lost_commit TASK_ID_TRAILER)" by code_simp
  ultimately show ?thesis
    using long_history_hides_a_commit[where pre = "''0a''" and b = "''migrate/app''" and tid = ?tid,
        OF _ printing_answers[of "render_log [TASK_ID_TRAILER] (replicate 99 old_commit @ lost_commit # replicate 395 old_commit)"]]
    by (simp add: printing_git_def)
qed

section \<open>Applying and discarding\<close>

text \<open>
  C11: Landing a patch is idempotent, and the tree decides. When the guarded apply returns, the patch's effect is in
  the tree; it skipped exactly when the effect was there before, whatever trailers the range has; and a second
  call that returns skips and leaves the repository as it is.
\<close>

theorem landing_is_idempotent:
  assumes "git_patches G repo has_effect"
    and "apply_and_commit G p s tr b pre bd g = (g', Inr c)"
  shows "has_effect (repo g') p \<and> (co_skipped c \<longleftrightarrow> has_effect (repo g) p)
     \<and> (\<forall>g'' c'. apply_and_commit G p s' tr' b' pre' bd' g' = (g'', Inr c') \<longrightarrow> co_skipped c' \<and> repo g'' = repo g')"
  using git_patches.landed_effect[OF assms(1)] assms(2) by metis

text \<open>
  A crashed task is discarded only behind a verified anchor. If the discard changed the repository at all, the
  anchor had resolved and Git had answered, in a run that settled, that it is an ancestor of the tip; an error of either
  probe leaves the repository alone.
\<close>

theorem discard_needs_a_verified_anchor:
  assumes "git_reads G repo" and "repo (fst (discard_task G a b g)) \<noteq> repo g"
  shows "\<exists>g1 g2 sha. git_resolve G a g = (g1, Inr (Some sha)) \<and> git_is_ancestor G sha (rollback_tip b) g1 = (g2, Inr True) \<and> repo g2 = repo g"
  using git_reads.discard_guarded[OF assms] .

definition sample_trailers :: fleet_trailers where
  "sample_trailers = \<lparr>ft_run_id = ''r'', ft_repo_id = ''app'', ft_phase = 2, ft_task_id = ''t'', ft_attempt = 1, ft_patch_id = ''p'', ft_contract_rollback_id = None\<rparr>"

definition sample_repo :: ref_repo where
  "sample_repo = \<lparr>rr_commits = [\<lparr>rc_info = unit_commit ''c1'' ''t1'', rc_tree = [''a'']\<rparr>, \<lparr>rc_info = unit_commit ''c0'' ''t0'', rc_tree = []\<rparr>],
     rr_work = [''a''], rr_refs = []\<rparr>"

definition sample_landed :: "ref_repo \<times> (git_error + commit_outcome)" where
  "sample_landed = apply_and_commit ref_git ''x.patch'' ''unit'' sample_trailers ''migrate/app'' ''c0'' None sample_repo"

lemma sample_landed_eval:
  "(case sample_landed of (g, Inr c) \<Rightarrow> \<not> co_skipped c \<and> rr_work g = [''x.patch'', ''a''] | _ \<Rightarrow> False)"
  by code_simp

theorem landing_is_idempotent_witness:
  "\<exists>g c. sample_landed = (g, Inr c) \<and> \<not> co_skipped c \<and> ''x.patch'' \<in> set (rr_work g)"
proof -
  obtain g c where gc: "sample_landed = (g, Inr c)" "\<not> co_skipped c"
    using sample_landed_eval by (auto split: prod.splits sum.splits)
  then have "''x.patch'' \<in> set (rr_work g)"
    using landing_is_idempotent[OF reference_repo.git_patches_axioms] unfolding sample_landed_def by blast
  then show ?thesis using gc by blast
qed

theorem discard_needs_a_verified_anchor_witness:
  "\<exists>sha. git_resolve ref_git ''c0'' sample_repo = (sample_repo, Inr (Some sha)) \<and> rr_work (fst (discard_task ref_git ''c0'' None sample_repo)) = []"
proof -
  have work: "rr_work (fst (discard_task ref_git ''c0'' None sample_repo)) = []" by code_simp
  moreover have "rr_work sample_repo = [''a'']" by code_simp
  ultimately have "fst (discard_task ref_git ''c0'' None sample_repo) \<noteq> sample_repo" by auto
  then obtain g1 g2 sha where "git_resolve ref_git ''c0'' sample_repo = (g1, Inr (Some sha))"
    using discard_needs_a_verified_anchor[OF reference_repo.git_reads_axioms] by blast
  moreover have "fst (git_resolve ref_git ''c0'' sample_repo) = sample_repo"
    using reference_repo.stable_resolve[of "''c0''"] by (simp add: stable_def)
  ultimately show ?thesis using work by auto
qed

end
