(* ===== verification/Spec2Isabelle.thy ===== *)
theory Spec2Isabelle
  imports Retry_Ladder Stubs Scheduler Cycle_Correct Coarsen Limiter Cost_Correct Phase_Correct Collision_Correct Client_Correct Inference_Correct Pipeline_Correct Approach Commit_Correct
begin

text \<open>
  A verification library for the fleet migration harness (\<open>src/fleet\<close>): the parts that decide which
  repository is migrated when, how often it is retried, what it may cost, how its files are rewritten and
  landed, and what a run believes after a restart. The Python code is translated into executable HOL functions; input and output,
  subprocesses and network calls are outside the model.

  \<^bold>\<open>How the program works.\<close> A scan yields repositories, contracts and dependency edges. The graph
  builder turns them into a fleet graph; the cycle breaker resolves every strongly connected
  component by hoisting contracts, suppressing edges, or declaring it atomic or manual; the sequencer
  condenses atomic components and layers the rest into waves. The wave scheduler opens waves in order,
  admits members and propagates blocking. For each repository the phase runner walks the retry
  ladder; every status write goes through the status machine; every model call reserves money in the
  cost ledger and a slot in the limiter. Consumers of an unmerged provider work against stubs that
  are later revalidated. A transform runs the rewrite rules over the files of a repository, checks the
  resulting diff and lands it as one commit per unit through the guarded apply. After a crash the
  re-entry rules compute where each repository starts again, and Git is asked what landed.

  \<^bold>\<open>Theories and sources.\<close>
  \<^item> \<open>Prelude\<close>: results and errors as sums (\<open>rbind\<close>, \<open>traverse\<close>), Python dictionaries as association
    lists in insertion order (\<open>dict_get\<close>, \<open>dict_set\<close>), \<open>sorted(set(..))\<close>, grouping, first extremal
    element, joined strings, histories of writes (\<open>replay\<close>) and the locales \<open>write_gate\<close> and its
    ranked extension that the status machine, the stub lifecycle and the cost ledger instantiate.
  \<^item> \<open>Vocabulary\<close>, \<open>Repo_Status\<close>: \<open>models/enums.py\<close>, the closed vocabularies, the status machine and
    its three audited doors.
  \<^item> \<open>Retry_Ladder\<close>: \<open>orchestrator/retry.py\<close>, the parts of \<open>workers/base.py\<close> and
    \<open>models/tasks.py\<close> it reads, and the loop of \<open>PhaseRunner._drive\<close>.
  \<^item> \<open>Reentry\<close>: \<open>orchestrator/reentry.py\<close> over an abstract view of files, Git and rows.
  \<^item> \<open>Stubs\<close>: \<open>orchestrator/stubs.py\<close> with the stub and report records of \<open>models/tasks.py\<close>.
  \<^item> \<open>Digraph\<close>: the networkx graphs as node and arc lists; the locale \<open>networkx\<close> states the documented
    behaviour of the library functions that are called, and a reference implementation interprets it.
  \<^item> \<open>Fleet_Graph\<close>: \<open>models/graph.py\<close>, \<open>graph/build.py\<close>, \<open>graph/query.py\<close>.
  \<^item> \<open>Cycles\<close>, \<open>Dfs\<close>, \<open>Cycle_Breaking\<close>, \<open>Cycle_Correct\<close>, \<open>Coarsen\<close>: \<open>graph/cycles.py\<close> (records; edge
    classification; the ladder; its correctness; superseded findings and coarse targets) and
    \<open>infer_contract_edges\<close> of \<open>graph/infer.py\<close>.
  \<^item> \<open>Sequence\<close>, \<open>Criteria\<close>: \<open>graph/sequence.py\<close>, waves, and the success criteria of sequencing.
  \<^item> \<open>Scheduler_Store\<close>, \<open>Scheduler\<close>: \<open>orchestrator/scheduler.py\<close>; the store protocol is the locale
    \<open>scheduler_store\<close>, interpreted by the SQLite tables.
  \<^item> \<open>Limiter\<close>: \<open>ResizableLimiter\<close> of \<open>orchestrator/budgets.py\<close>, its interleavings as a step relation.
  \<^item> \<open>Ledger_Store\<close>, \<open>Ledger_Correct\<close>: the durable cost ledger of \<open>state/repository.py\<close>, its reservations and
    the lease reaper; its accounting under histories of writes.
  \<^item> \<open>Cost_Ledger\<close>, \<open>Cost_Correct\<close>: estimates, ceilings and \<open>CostLedger\<close> of \<open>orchestrator/budgets.py\<close>, which
    reserves through the store and keeps its own buckets.
  \<^item> \<open>Py_Text\<close>, \<open>Py_Difflib\<close>: the string and difflib functions of Python's library that the sources call.
  \<^item> \<open>Phase_Store\<close>, \<open>Phase_Correct\<close>: the \<open>phases\<close> table of \<open>state/repository.py\<close>, its leases, fences, audited corrections
    and sweeps, as a write gate.
  \<^item> \<open>Collisions\<close>, \<open>Version_Correct\<close>, \<open>Collision_Correct\<close>: \<open>graph/collisions.py\<close>, with the version requirements it compares.
  \<^item> \<open>Inference\<close>, \<open>Inference_Correct\<close>: \<open>graph/infer.py\<close>, edges from scanned dependencies and contracts.
  \<^item> \<open>Breaker\<close>, \<open>Breaker_Correct\<close>, \<open>Model_Client\<close>, \<open>Client_Correct\<close>: \<open>llm/failover.py\<close> and the client of \<open>llm/client.py\<close> that walks the
    endpoints of a route.
  \<^item> \<open>Unified_Diff\<close>, \<open>Diff_Correct\<close>: \<open>rewrite/apply.py\<close>, printing, parsing, checking and applying diffs.
  \<^item> \<open>Rewrite_Pipeline\<close>, \<open>Pipeline_Correct\<close>: \<open>rewrite/rules.py\<close> and \<open>rewrite/pipeline.py\<close>; \<open>Approach\<close>: \<open>rewrite/approach.py\<close>.
  \<^item> \<open>Git_Proc\<close>, \<open>Git_Client\<close>, \<open>Commits\<close>, \<open>Git_Log\<close>, \<open>Commit_Correct\<close>: \<open>util/proc.py\<close>, \<open>vcs/git.py\<close>, \<open>vcs/commits.py\<close> and
    \<open>land_patches\<close> of \<open>workers/rewrite.py\<close>. The locales \<open>git_reads\<close> and \<open>git_patches\<close> state what Git documents of the
    commands; a small repository that executes them interprets both.

  \<^bold>\<open>State and operations.\<close> A dataclass is a record, an enumeration a datatype, a raise an \<open>Inl\<close> of an
  error type, a method that changes state returns the new state. A database transaction either returns
  new tables or an error and no tables. Time is an argument: clock readings are integers in
  microseconds. Floating-point confidences and dollars are rationals, so rounding is not modelled.

  \<^bold>\<open>What the lemmas show.\<close> The status machine keeps terminal statuses under every history of writes
  without a flag. The retry loop ends. The lazy re-entry driver computes the eager floor. Stub
  decisions keep rows valid and bounded, and only a clean round promotes. The built graphs are exactly
  the dependency relations. Removing the back arcs of a component leaves it acyclic; the ladder stays
  within its limits, and whatever it reports can be sequenced. Waves are longest-path layers, partition
  the plan and respect dependencies. The scheduler opens a wave exactly when all earlier ones are
  settled and its clock survives restarts; the property of this theory composes sequencer, store and
  scheduler. The limiter neither loses a slot nor forgets a waiter. The cost ledgers stay within their ceilings
  under every history, what they spent is what the settlements cost, and what they hold is what the reservations hold, up to the tolerance a
  settlement may be misquoted by; a hold ends once; the
  reaper returns exactly the expired holds; a halt stops every dispatch until an operator raises the ceiling; a caller waits only for money
  in flight, and not past its deadline. Under the operations of the state repository a superseded lease holder is fenced out of its phase, every
  status change of a phase is legal or recorded, and no sweep takes a phase away from a human. The
  collision audit blocks exactly on requirements no version meets and on coordinates claimed under two ecosystems. Inferred edges are explained by
  their evidence. An endpoint is closed exactly by a streak of failures, from the failure that completed it or the last failed probe, and a call
  sends a bounded number of requests. A printed diff is read back and applies to exactly the lines it names; the
  paths its parser sees are inside the subtree; a rewritten file is a fixpoint of its rules. Landing a patch is idempotent, and the commit of a task is found exactly while the
  history fits the capture of a child's output.

  Further lemmas show where the code departs from its documentation: the reaper fences a later owner of a
  phase, overlapping dispatches overshoot the wave ceiling, a prompt that was prepared for its rung overruns the tokens left, a repository is given up for money its own process
  holds, an overrun is not booked, of several owners of a coordinate one is kept, a removed comment line cuts
  a diff, a stripped diff loses a line, a pure rename is not checked, a foreign line break makes a diff
  unusable, and a long history hides a commit.

  \<^bold>\<open>Bounds and fuel.\<close> Recursions are total: structural, or with a measure (the contracts still to be
  considered, the edges not yet visited, the waiters not yet woken). No fuel is used except for the
  number of breaks per component, which is a limit of the source itself. The reserve loop
  consumes a list of clock readings and is shown to return once one of them reaches the deadline.

  \<^bold>\<open>Parameters.\<close> networkx and Git (the locales above), the spawning of child processes, SHA-256 and name-based
  UUIDs, redaction, the fingerprint of a finding, the detection time of an inferred edge, clocks, \<open>math.log2\<close>, the rewrite
  engines and ast-grep, the model backends. Where a digest must not collide this is a named hypothesis.
  Texts that are measured in bytes have one byte per character.

  \<^bold>\<open>Not modelled.\<close> The command line (argument parsing, rendering, composition, the resume driver), configuration
  schemas beyond the fields read here, database connections and the tables of tasks, attempts, events, symbols
  and edges, concurrent dispatch in the phase runner, the workers other than \<open>land_patches\<close>, sandboxes, the model
  backends and their cache, and the manifest and ecosystem adapters: these are input and output or depend on
  third-party formats. Some of that code writes the \<open>phases\<close> table with SQL of its own, outside the status machine: \<open>_terminate_uncharged\<close> in
  \<open>orchestrator/runner.py\<close>, and in \<open>cli.py\<close> the gates of the scan, the preflight verdicts, \<open>fleet quarantine\<close> and the reset of running phases. The
  properties of the phases speak of the operations of \<open>state/repository.py\<close> only. Of \<open>cli.py\<close> the write of \<open>--raise-budget\<close> is
  modelled, since it clears the halt. Within modelled files: JSON sniffing of replies in the retry module, YAML
  parsing and engine import of the rules, signals and cancellation of child processes, the cancellation of a model call in its back-off sleep, calls of the model client that overlap (the breaker they
  share is modelled with its interleavings), error texts, and logging.
\<close>

section \<open>From the plan to the admission\<close>

lemma recorded_member:
  assumes "networkx nx" and "report_ok rep" and "assign_waves nx rep gated = Inr plan"
    and "record_plan db run plan now usd = Inr db'"
    and "dict_get (wp_index plan) (node_kind_value REPO, r) = Some i"
  shows "dict_get (tb_members db') (run, ''REPO'', r) = Some i"
proof -
  have rows: "((run, ''REPO'', r), j) \<in> set (plan_member_rows run plan) \<longleftrightarrow> j = i" for j
  proof -
    have "((run, ''REPO'', r), j) \<in> set (plan_member_rows run plan) \<longleftrightarrow>
        (\<exists>w \<in> set (wp_waves plan). mw_index w = j \<and> r \<in> set (mw_repo_ids w))"
      by (auto simp: plan_member_rows_def)
    then show ?thesis
      unfolding plan_wave_members[OF assms(1-3)] assms(5) by auto
  qed
  have "tb_members db' = dict_update (plan_member_rows run plan) (tb_members db)"
    using assms(4) unfolding record_plan_Inr_iff by auto
  then show ?thesis
    using dict_get_update[of "(run, ''REPO'', r)" "plan_member_rows run plan" i] rows by simp
qed

text \<open>A repository is in the wave of the one state of the tables where it is in that of the other.\<close>

definition wave_kept :: "string \<Rightarrow> string \<Rightarrow> tables \<Rightarrow> tables \<Rightarrow> bool" where
  "wave_kept run n db db' \<longleftrightarrow> dict_get (tb_members db') (run, ''REPO'', n) = dict_get (tb_members db) (run, ''REPO'', n)"

text \<open>
  C1: No repository is dispatched before its dependencies are settled. Take any plan the
  sequencer returns and record it in the tables; then, whatever the phases and the waves of other repositories have become since, if
  the scheduler admits a repository, each dependency it has in the ordering subgraph is settled at
  that moment: succeeded, skipped, degraded, blocked, or handed to a human. The two are still in the waves the plan gave them: a
  repository that was unblocked moves to a new wave at the end, and one appended together with its own dependency may run beside it. The exceptions are
  those of the sequencer: gated and manual repositories, and members of the same atomic
  component, which migrate together.
\<close>

theorem admitted_dependencies_settled:
  assumes "networkx nx" and "report_ok rep" and "assign_waves nx rep gated = Inr plan"
    and "record_plan db run plan now usd = Inr db1"
    and "tables_ok db2" and "wave_kept run r db1 db2" and "wave_kept run d db1 db2"
    and "over_sqlite ws" and "ws_run_id ws = run"
    and "admit ws db2 i n1 n2 n3 n4 = Inr (db3, a)" and "r \<in> set (ad_admitted a)"
    and "((node_kind_value REPO, r), (node_kind_value REPO, d)) \<in> arc_set (fg_G_dag (rep_graph rep))"
    and "r \<notin> dropped_of rep gated" and "d \<notin> dropped_of rep gated"
    and "order_node_of rep (node_kind_value REPO, r) \<noteq> order_node_of rep (node_kind_value REPO, d)"
  shows "Scheduler.status_of ws db2 d \<in> SETTLED_STATUSES"
proof -
  obtain k j where kj: "dict_get (wp_index plan) (node_kind_value REPO, r) = Some k"
    "dict_get (wp_index plan) (node_kind_value REPO, d) = Some j" "j < k"
    using plan_dependency_order[OF assms(1-3,12)] assms(13-15) by auto
  have "r \<in> set (wave_members db2 run i)"
  proof -
    have "r \<in> set (ad_admitted a @ ad_withheld a)"
      using assms(11) by simp
    then show ?thesis
      unfolding admit_InrD(7)[OF assms(8,10)] using assms(9) by simp
  qed
  then have "i = k"
    using recorded_member[OF assms(1-4) kj(1)] assms(6) unfolding set_wave_members_get[OF assms(5)] by (simp add: wave_kept_def)
  have d: "d \<in> set (wave_members db2 run j)"
    using recorded_member[OF assms(1-4) kj(2)] assms(7) unfolding set_wave_members_get[OF assms(5)] by (simp add: wave_kept_def)
  then have "j \<in> set (wave_indices db2 run)"
    using sqlite.members_indexed[OF assms(5), of run j] by (cases "wave_members db2 run j") auto
  moreover obtain t where "open_wave ws db2 i n1 n2 = Inr (db3, t)"
    using admit_InrD(1)[OF assms(8,10)] by blast
  ultimately show ?thesis
    using sqlite.open_wave_Inr_iff[of ws db2 i n1 n2 db3 t] assms(8,9) d kj(3) \<open>i = k\<close>
    by (simp add: over_sqlite_def)
qed

definition sample_start :: tables where
  "sample_start = (sample_tables SUCCEEDED)\<lparr>tb_waves := [], tb_members := []\<rparr>"

theorem admitted_dependencies_settled_witness:
  "\<exists>plan db1 db3 a. assign_waves reference_nx sample_report [''cli''] = Inr plan
     \<and> record_plan sample_start ''run'' plan (utc 0) 8 = Inr db1
     \<and> admit sample_scheduler db1 1 (utc 1) (utc 2) (utc 3) (utc 4) = Inr (db3, a)
     \<and> ''app'' \<in> set (ad_admitted a) \<and> Scheduler.status_of sample_scheduler db1 ''lib'' \<in> SETTLED_STATUSES"
proof -
  have "map_sum id (\<lambda>x. ''app'' \<in> set (ad_admitted (snd x)))
      (rbind (map_sum (\<lambda>_. IntegrityError) id (assign_waves reference_nx sample_report [''cli'']))
        (\<lambda>plan. rbind (record_plan sample_start ''run'' plan (utc 0) 8)
          (\<lambda>db1. admit sample_scheduler db1 1 (utc 1) (utc 2) (utc 3) (utc 4)))) = Inr True"
    by code_simp
  then obtain plan db1 db3 a where plan: "assign_waves reference_nx sample_report [''cli''] = Inr plan"
    and rec: "record_plan sample_start ''run'' plan (utc 0) 8 = Inr db1"
    and adm: "admit sample_scheduler db1 1 (utc 1) (utc 2) (utc 3) (utc 4) = Inr (db3, a)" "''app'' \<in> set (ad_admitted a)"
    by (auto simp: map_sum_def rbind_def split: sum.splits)
  have "tables_ok sample_start"
    by (simp add: sample_start_def sample_tables_def tables_ok_def)
  then have ok: "tables_ok db1"
    using record_plan_ok rec by blast
  have run: "ws_run_id sample_scheduler = ''run''"
    by (simp add: sample_scheduler_def)
  have "((node_kind_value REPO, ''app''), (node_kind_value REPO, ''lib'')) \<in> arc_set (fg_G_dag (rep_graph sample_report))"
    by (simp add: sample_report_def sample_dag_def arc_set_def)
  moreover have "dropped_of sample_report [''cli''] = {''cli''}"
    by (simp add: dropped_of_def manual_repo_ids_def manual_members_def sample_report_def sample_atomic_def)
  moreover have "order_node_of sample_report (node_kind_value REPO, ''app'') \<noteq> order_node_of sample_report (node_kind_value REPO, ''lib'')"
    by code_simp
  ultimately have "Scheduler.status_of sample_scheduler db1 ''lib'' \<in> SETTLED_STATUSES"
    using admitted_dependencies_settled[OF reference.networkx_axioms sample_report_ok plan rec ok _ _ sample_ok(2) run adm, of "''lib''"]
    by (simp add: wave_kept_def)
  with plan rec adm show ?thesis by blast
qed


section \<open>A reaped worker\<close>

text \<open>
  C5: A reaped worker is cut off from its phase, and from the money whose hold has expired. When the lease of a running phase or
  a hold that names the phase has expired, then after the reaper ran, on the ledger and the phase rows alike, and
  whatever operations of the state repository and of the ledger follow, completing or renewing under the old fence is
  refused as stolen. Settling a hold of the run that had expired, of this worker or another, is refused from then on; a hold
  whose own expiry is still ahead is not touched by the reaper.
\<close>

theorem reaped_worker_is_cut_off:
  assumes "db_phases db = leases_view st"
    and "get_row st (run, repo, p) = Some r"
    and "reapable now r \<or> (\<exists>rid v. dict_get (db_res db) rid = Some v \<and> rv_run v = run \<and> rv_repo v = repo \<and> rv_phase v = Some p
           \<and> expired_held now v)"
  shows "let db1 = fst (reap_expired_phase_leases db run now);
             st1 = fst (reap_leases run now (expired_holds db run now) st) in
     db_phases db1 = leases_view st1
     \<and> complete_phase rd run repo p (lp_fence r) s t err (replay (phase_write rd sha) st1 ws) = Inl LeaseStolen
     \<and> renew_phase_lease run repo p (lp_fence r) t ttl (replay (phase_write rd sha) st1 ws) = Inl LeaseStolen
     \<and> (\<forall>rid v. dict_get (db_res db) rid = Some v \<and> rv_run v = run \<longrightarrow>
          (if expired_held now v
           then settle_repo_budget (replay ledger_write db1 us) run owner rid reserved actual t reval = Inl ReservationRefused
           else dict_get (db_res db1) rid = Some v))"
proof -
  have "(repo, p) \<in> set (expired_holds db run now)"
    if "dict_get (db_res db) rid = Some v" "rv_run v = run" "rv_repo v = repo" "rv_phase v = Some p" "expired_held now v" for rid v
  proof -
    have "v \<in> set (expired_rows db now run)"
      using that(1,2,5) by (force simp: expired_rows_def dict_get_def dest: map_of_SomeD)
    then show ?thesis using that(3,4) by (auto simp: set_expired_holds)
  qed
  then have "fence_at_least (run, repo, p) (lp_fence r + 1) (fst (reap_leases run now (expired_holds db run now) st))"
    using reaped_fence[OF assms(2)] assms(3) by blast
  then have f: "fence_at_least (run, repo, p) (lp_fence r + 1) (replay (phase_write rd sha) (fst (reap_leases run now (expired_holds db run now) st)) ws)"
    by (intro fence.replay_invar) auto
  have money: "if expired_held now v
           then settle_repo_budget (replay ledger_write (fst (reap_expired_phase_leases db run now)) us) run owner rid reserved actual t reval
             = Inl ReservationRefused
           else dict_get (db_res (fst (reap_expired_phase_leases db run now))) rid = Some v"
    if v: "dict_get (db_res db) rid = Some v" "rv_run v = run" for rid v
  proof (cases "expired_held now v")
    case True
    with v have "finished_hold rid (fst (reap_expired_phase_leases db run now))"
      by (simp add: finished_hold_def reap_fields(1) dict_get_map_rows)
    then have "finished_hold rid (replay ledger_write (fst (reap_expired_phase_leases db run now)) us)"
      by (intro hold.replay_invar) auto
    with True show ?thesis
      by (auto simp: finished_hold_def settle_repo_budget_def settle_reservation_sql_def or_refuse_def rbind_def split: option.splits)
  qed (use v in \<open>simp add: reap_fields(1) dict_get_map_rows\<close>)
  have "db_phases (fst (reap_expired_phase_leases db run now)) = leases_view (fst (reap_leases run now (expired_holds db run now) st))"
    using ledger_reaper_is_phase_reaper[OF assms(1)] by blast
  with below_fence_stolen[OF f, of "lp_fence r"] money show ?thesis
    unfolding Let_def by auto
qed

text \<open>The hold \<open>h3\<close> of the phase expires while its lease is held.\<close>

definition sample_ledger :: ledger_db where
  "sample_ledger = (replay ledger_write demo_store demo_history)\<lparr>db_phases := leases_view demo_leased\<rparr>"

theorem reaped_worker_is_cut_off_witness:
  "complete_phase id ''r'' ''a'' SCAN 1 SUCCEEDED 21 None
      (fst (reap_leases ''r'' 20 (expired_holds sample_ledger ''r'' 20) demo_leased)) = Inl LeaseStolen
   \<and> settle_repo_budget (fst (reap_expired_phase_leases sample_ledger ''r'' 20)) ''r'' ''a'' ''h3'' 3 1 21 False = Inl ReservationRefused"
proof -
  have row: "case get_row demo_leased (''r'', ''a'', SCAN) of None \<Rightarrow> False | Some r \<Rightarrow> lp_fence r = 1" by code_simp
  then obtain r where r: "get_row demo_leased (''r'', ''a'', SCAN) = Some r" "lp_fence r = 1" by (auto split: option.splits)
  have phases: "db_phases sample_ledger = leases_view demo_leased" by (simp add: sample_ledger_def)
  have hold: "dict_get (db_res sample_ledger) ''h3'' = Some
      \<lparr>rv_run = ''r'', rv_repo = ''a'', rv_phase = Some SCAN, rv_fence = Some 1, rv_amount = 3,
        rv_state = HELD, rv_expires = Some 9, rv_created = 3\<rparr>"
    by (simp add: sample_ledger_def demo_run dict_get_Cons)
  have "expired_held 20 \<lparr>rv_run = ''r'', rv_repo = ''a'', rv_phase = Some SCAN, rv_fence = Some 1, rv_amount = 3,
        rv_state = HELD, rv_expires = Some 9, rv_created = 3\<rparr>"
    by (simp add: expired_held_def)
  note late = this
  with hold have due: "reapable 20 r \<or> (\<exists>rid v. dict_get (db_res sample_ledger) rid = Some v \<and> rv_run v = ''r'' \<and> rv_repo v = ''a''
      \<and> rv_phase v = Some SCAN \<and> expired_held 20 v)"
    by (intro disjI2 exI[of _ "''h3''"]) (auto intro!: exI)
  note cut = reaped_worker_is_cut_off[OF phases r(1) due, of id SUCCEEDED 21 None id "[]" 0 "[]" "''a''" 3 1 False,
    unfolded Let_def replay.simps(1) r(2)]
  show ?thesis using cut[THEN conjunct2, THEN conjunct1] cut[THEN conjunct2, THEN conjunct2, THEN conjunct2, rule_format, of "''h3''"] hold late
    by simp
qed

end
